(* ===== verification/Go_Base.thy ===== *)
theory Go_Base
  imports Main "HOL-Library.Word" "HOL-Library.AList" "HOL-Library.Multiset"
    "HOL-Library.List_Lexorder" "HOL-Library.Char_ord"
begin

text \<open>
  The shared base of the development: the Go values that travel through the graph engine
  (\<open>interface{}\<close>), the reflect types the channel constructors inspect, Go maps as association
  lists with distinct keys, and the string routines (\<open>strings.Split\<close>, \<open>strings.Join\<close>) the
  sources call. The collection \<open>gomap\<close> holds the rewrite rules of map lookup after update
  and delete; it drives most component proofs.

  A Go map is an association list. \<open>range\<close> over a map visits the entries in the order of the
  list: as Go leaves that order unspecified, a statement about every association list covers
  every order. Strings are byte strings, ordered lexicographically as in Go.
\<close>

named_theorems gomap "lookup, update and delete on Go maps"

section \<open>Go types and values\<close>

text \<open>
  The types a state schema or a channel constructor can meet through \<open>reflect\<close>: \<open>TNum n\<close> is
  any numeric type other than \<open>int\<close> and \<open>float64\<close>, by name; \<open>TRType\<close> is the struct behind a
  \<open>reflect.Type\<close> descriptor, so that the descriptor itself has type \<open>TPtr TRType\<close>.
\<close>

datatype gtype =
    TBool | TInt | TFloat64 | TNum string | TString | TAny
  | TSlice gtype | TArray nat gtype | TMap gtype gtype | TPtr gtype
  | TStruct string "(string \<times> bool \<times> gtype) list"
  | TRType | TOther string

text \<open>
  The dynamic values of \<open>interface{}\<close>. \<open>GMissing\<close> is the sentinel of the channels package;
  \<open>GInt\<close> is Go's 64-bit \<open>int\<close>; \<open>GFloat\<close> carries the IEEE bit pattern of a \<open>float64\<close>;
  \<open>GOverwrite v\<close> is a \<open>*types.Overwrite\<close> and \<open>GOverwriter v\<close> a value whose type has the method
  \<open>GetValue\<close> (which \<open>*types.Overwrite\<close> has not); a struct lists its fields with their names,
  whether they are exported, their static types and their values; \<open>GZero t\<close> is the zero value and
  \<open>GEmpty t\<close> the empty allocated container of a type with no constructor of its own here;
  \<open>GTyped t v\<close> is a container of a static type \<open>t\<close> other than \<open>[]any\<close> and \<open>map[string]any\<close>
  (a \<open>map[string]int\<close>, a \<open>[]string\<close>), whose elements \<open>v\<close> lists; \<open>GTime n\<close> is the \<open>time.Time\<close> of
  \<open>n\<close> nanoseconds after the epoch.
\<close>

datatype gval =
    GNil | GMissing | GBool bool | GInt "64 word" | GFloat "64 word" | GNum string int
  | GStr string | GBytes string
  | GSlice "gval list" | GMap "(string \<times> gval) list" | GBoolMap "(string \<times> bool) list"
  | GOverwrite gval | GOverwriter gval
  | GRType gtype | GPtr gval | GStruct string "(string \<times> bool \<times> gtype \<times> gval) list"
  | GZero gtype | GEmpty gtype | GTyped gtype gval | GTime int

fun type_of :: "gval \<Rightarrow> gtype option" where
  "type_of GNil = None"
| "type_of GMissing = Some (TPtr (TStruct ''missingSentinel'' []))"
| "type_of (GBool b) = Some TBool"
| "type_of (GInt n) = Some TInt"
| "type_of (GFloat x) = Some TFloat64"
| "type_of (GNum n x) = Some (TNum n)"
| "type_of (GStr s) = Some TString"
| "type_of (GBytes s) = Some (TSlice (TNum ''uint8''))"
| "type_of (GSlice vs) = Some (TSlice TAny)"
| "type_of (GMap m) = Some (TMap TString TAny)"
| "type_of (GBoolMap m) = Some (TMap TString TBool)"
| "type_of (GOverwrite v) = Some (TPtr (TStruct ''Overwrite'' [(''Value'', True, TAny)]))"
| "type_of (GOverwriter v) = Some (TOther ''overwriter'')"
| "type_of (GRType t) = Some (TPtr TRType)"
| "type_of (GPtr v) = Some (TPtr (case type_of v of None \<Rightarrow> TAny | Some t \<Rightarrow> t))"
| "type_of (GStruct n fs) = Some (TStruct n (map (\<lambda>(f, e, t, v). (f, e, t)) fs))"
| "type_of (GZero t) = Some t"
| "type_of (GEmpty t) = Some t"
| "type_of (GTyped t v) = Some t"
| "type_of (GTime n) = Some (TOther ''time.Time'')"

text \<open>\<open>reflect.Zero(t).Interface()\<close>.\<close>

fun zero_value :: "gtype \<Rightarrow> gval" where
  "zero_value TBool = GBool False"
| "zero_value TInt = GInt 0"
| "zero_value TFloat64 = GFloat 0"
| "zero_value (TNum n) = GNum n 0"
| "zero_value TString = GStr []"
| "zero_value TAny = GNil"
| "zero_value (TStruct n fs) = GStruct n (map (\<lambda>(f, e, t). (f, e, t, zero_value t)) fs)"
| "zero_value t = GZero t"

text \<open>
  The routines of the runtime and of the standard library that the model does not compute: IEEE
  arithmetic and conversions on \<open>float64\<close> bit patterns, \<open>fmt.Sprint\<close> (and \<open>%v\<close>), base64 text of
  a byte slice, the UTF-8 repair \<open>encoding/json\<close> applies to strings, the JSON round trip of the
  application's own types (\<open>None\<close> when they do not marshal), \<open>regexp\<close> matching (\<open>None\<close>
  for a pattern that does not compile), \<open>strings.ToLower\<close> and \<open>strings.TrimSpace\<close>, RFC 3339 text of a
  time, the text \<open>json.Marshal\<close> writes and the value \<open>json.Unmarshal\<close> reads (\<open>None\<close>: an error), and
  \<open>reflect.Value.Convert\<close> (\<open>None\<close>: not convertible), whether two pointers are the same, the order
  \<open>sort.Slice\<close> gives the indices of a slice for a comparison of them, the type name and the decimal text of
  \<open>fmt.Sprintf\<close>, SHA-256 and hexadecimal text.
  Definitions that need one take the record as an argument.
\<close>

record golib =
  f64_add :: "64 word \<Rightarrow> 64 word \<Rightarrow> 64 word"
  f64_of_int :: "int \<Rightarrow> 64 word"
  f64_to_int :: "64 word \<Rightarrow> int"
  f64_less :: "64 word \<Rightarrow> 64 word \<Rightarrow> bool"
  f64_eq :: "64 word \<Rightarrow> 64 word \<Rightarrow> bool"
  fmt_v :: "gval \<Rightarrow> string"
  base64 :: "string \<Rightarrow> string"
  json_utf8 :: "string \<Rightarrow> string"
  json_other :: "gval \<Rightarrow> gval option"
  regexp_match :: "string \<Rightarrow> string \<Rightarrow> bool option"
  to_lower :: "string \<Rightarrow> string"
  fmt_time :: "int \<Rightarrow> string"
  parse_time :: "string \<Rightarrow> int option"
  trim_space :: "string \<Rightarrow> string"
  json_marshal :: "gval \<Rightarrow> string option"
  json_unmarshal :: "string \<Rightarrow> gval option"
  reflect_convert :: "gval \<Rightarrow> gtype \<Rightarrow> gval option"
  f64_mul :: "64 word \<Rightarrow> 64 word \<Rightarrow> 64 word"
  f64_div :: "64 word \<Rightarrow> 64 word \<Rightarrow> 64 word"
  f64_sqrt :: "64 word \<Rightarrow> 64 word"
  ptr_eq :: "gval \<Rightarrow> gval \<Rightarrow> bool"
  sort_perm :: "(nat \<Rightarrow> nat \<Rightarrow> bool) \<Rightarrow> nat \<Rightarrow> nat list"
  fmt_T :: "gval \<Rightarrow> string"
  fmt_d :: "int \<Rightarrow> string"
  sha256 :: "string \<Rightarrow> string"
  to_hex :: "string \<Rightarrow> string"

section \<open>Go maps\<close>

type_synonym 'v gomap = "(string \<times> 'v) list"

abbreviation mget :: "'v gomap \<Rightarrow> string \<Rightarrow> 'v option" where
  "mget m k \<equiv> map_of m k"

abbreviation mput :: "string \<Rightarrow> 'v \<Rightarrow> 'v gomap \<Rightarrow> 'v gomap" where
  "mput k v m \<equiv> AList.update k v m"

abbreviation mdel :: "string \<Rightarrow> 'v gomap \<Rightarrow> 'v gomap" where
  "mdel k m \<equiv> AList.delete k m"

abbreviation mkeys :: "'v gomap \<Rightarrow> string list" where
  "mkeys m \<equiv> map fst m"

abbreviation mdom :: "'v gomap \<Rightarrow> string set" where
  "mdom m \<equiv> fst ` set m"

text \<open>Well-formed: every key once. \<open>map[k]\<close> of a missing key reads the zero value.\<close>

definition gomap_ok :: "'v gomap \<Rightarrow> bool" where
  "gomap_ok m \<longleftrightarrow> distinct (mkeys m)"

definition mget_or :: "'v \<Rightarrow> 'v gomap \<Rightarrow> string \<Rightarrow> 'v" where
  "mget_or d m k = (case mget m k of None \<Rightarrow> d | Some v \<Rightarrow> v)"

text \<open>\<open>for k, v := range src \{ dst[k] = v \}\<close>.\<close>

definition mcopy :: "'v gomap \<Rightarrow> 'v gomap \<Rightarrow> 'v gomap" where
  "mcopy dst src = fold (\<lambda>(k, v) m. mput k v m) src dst"

lemma mget_mput [gomap]: "mget (mput k v m) = (mget m)(k \<mapsto> v)"
  by (rule update_conv')

lemma mget_mdel [gomap]: "mget (mdel k m) = (mget m)(k := None)"
  by (rule delete_conv')

lemma gomap_ok_Nil [simp]: "gomap_ok []"
  by (simp add: gomap_ok_def)

lemma gomap_ok_mput [simp, intro]: "gomap_ok m \<Longrightarrow> gomap_ok (mput k v m)"
  by (simp add: gomap_ok_def distinct_update)

lemma gomap_ok_mdel [simp, intro]: "gomap_ok m \<Longrightarrow> gomap_ok (mdel k m)"
  by (simp add: gomap_ok_def distinct_delete)

lemma mdom_mput [gomap]: "mdom (mput k v m) = insert k (mdom m)"
  by (induction m) auto

lemma in_mput: "p \<in> set (mput k v m) \<Longrightarrow> p = (k, v) \<or> p \<in> set m"
  by (induction m) (auto split: if_splits)

lemma mget_NoneD: "mget m k = None \<Longrightarrow> k \<notin> mdom m"
  by (simp add: map_of_eq_None_iff)

lemma mdom_get: "k \<in> mdom m \<longleftrightarrow> (\<exists>v. mget m k = Some v)"
  by (metis map_of_eq_None_iff not_None_eq)

lemma mget_SomeD: "mget m k = Some v \<Longrightarrow> k \<in> mdom m"
  by (force dest: map_of_SomeD)

lemma mget_or_mput [gomap]: "mget_or d (mput k v m) k' = (if k' = k then v else mget_or d m k')"
  by (simp add: mget_or_def gomap)

lemma mget_or_Nil [simp]: "mget_or d [] k = d"
  by (simp add: mget_or_def)

lemma mput_fresh: "k \<notin> mdom m \<Longrightarrow> mput k v m = m @ [(k, v)]"
  by (induction m) auto

lemma mcopy_append:
  "gomap_ok src \<Longrightarrow> mdom dst \<inter> mdom src = {} \<Longrightarrow> mcopy dst src = dst @ src"
  unfolding mcopy_def
  by (induction src arbitrary: dst) (auto simp: gomap_ok_def mput_fresh)

lemma mcopy_Nil [simp]: "gomap_ok m \<Longrightarrow> mcopy [] m = m"
  by (simp add: mcopy_append)

lemma gomap_ok_mcopy: "gomap_ok dst \<Longrightarrow> gomap_ok (mcopy dst src)"
  unfolding mcopy_def by (induction src arbitrary: dst) auto

lemma mget_mcopy: "gomap_ok src \<Longrightarrow> mget (mcopy dst src) = mget dst ++ mget src"
proof (induction src arbitrary: dst)
  case Nil
  then show ?case by (simp add: mcopy_def)
next
  case (Cons p src)
  obtain k v where p: "p = (k, v)" by (cases p)
  with Cons.prems have ok: "gomap_ok src" and fresh: "mget src k = None"
    by (auto simp: gomap_ok_def map_of_eq_None_iff)
  have "mget (mcopy dst (p # src)) = mget (mcopy (mput k v dst) src)"
    by (simp add: mcopy_def p)
  also have "\<dots> = (mget dst)(k \<mapsto> v) ++ mget src"
    using Cons.IH [OF ok, of "mput k v dst"] by (simp only: mget_mput)
  also have "\<dots> = mget dst ++ mget (p # src)"
    using fresh by (auto simp: p fun_eq_iff map_add_def split: option.splits)
  finally show ?case .
qed

lemma mget_eq_iff_perm:
  assumes "mset m = mset m'" and "gomap_ok m"
  shows "mget m = mget m'"
proof -
  from assms have "distinct (map fst m)" and "set m = set m'" and "distinct (map fst m')"
    by (auto simp: gomap_ok_def dest: mset_eq_setD)
      (metis mset_eq_imp_distinct_iff mset_map)
  then show ?thesis
    by (metis map_of_eqI set_map map_of_eq_Some_iff option.exhaust_sel map_of_eq_None_iff)
qed

text \<open>\<open>for k, v := range m\<close> that stores \<open>g v\<close> under \<open>k\<close> where \<open>g v\<close> is defined.\<close>

definition mcollect :: "('v \<Rightarrow> 'w option) \<Rightarrow> 'v gomap \<Rightarrow> 'w gomap" where
  "mcollect g m = fold (\<lambda>(k, v) acc. case g v of Some y \<Rightarrow> mput k y acc | None \<Rightarrow> acc) m []"

lemma mget_mcollect: "gomap_ok m \<Longrightarrow> mget (mcollect g m) k = Option.bind (mget m k) g"
proof -
  have "gomap_ok m \<Longrightarrow>
    mget (fold (\<lambda>(k, v) acc. case g v of Some y \<Rightarrow> mput k y acc | None \<Rightarrow> acc) m acc) k =
      (case Option.bind (mget m k) g of Some y \<Rightarrow> Some y | None \<Rightarrow> mget acc k)" for acc
    by (induction m arbitrary: acc)
      (auto simp: gomap_ok_def gomap dest: weak_map_of_SomeI split: option.splits bind_splits; force dest: map_of_SomeD)+
  then show "gomap_ok m \<Longrightarrow> ?thesis" by (simp add: mcollect_def split: option.splits)
qed

lemma find_append: "find P (xs @ ys) = (case find P xs of Some x \<Rightarrow> Some x | None \<Rightarrow> find P ys)"
  by (induction xs) auto

section \<open>Strings\<close>

text \<open>\<open>strings.Split(s, sep)\<close> for a one-byte separator, and \<open>strings.Join\<close>.\<close>

fun str_split :: "char \<Rightarrow> string \<Rightarrow> string list" where
  "str_split c [] = [[]]"
| "str_split c (x # xs) =
     (if x = c then [] # str_split c xs
      else case str_split c xs of [] \<Rightarrow> [[x]] | p # ps \<Rightarrow> (x # p) # ps)"

fun str_join :: "char \<Rightarrow> string list \<Rightarrow> string" where
  "str_join c [] = []"
| "str_join c [p] = p"
| "str_join c (p # ps) = p @ c # str_join c ps"

lemma str_split_not_Nil [simp]: "str_split c s \<noteq> []"
  by (induction s) (auto split: list.splits)

lemma str_join_split: "str_join c (str_split c s) = s"
proof (induction s)
  case Nil
  then show ?case by simp
next
  case (Cons x xs)
  obtain p ps where eq: "str_split c xs = p # ps"
    by (cases "str_split c xs") auto
  with Cons show ?case by (cases ps) auto
qed

lemma str_split_no_sep: "c \<notin> set p \<Longrightarrow> str_split c p = [p]"
  by (induction p) auto

lemma str_split_append: "c \<notin> set p \<Longrightarrow> str_split c (p @ c # s) = p # str_split c s"
  by (induction p) auto

lemma str_split_join:
  "ps \<noteq> [] \<Longrightarrow> \<forall>p \<in> set ps. c \<notin> set p \<Longrightarrow> str_split c (str_join c ps) = ps"
  by (induction c ps rule: str_join.induct) (auto simp: str_split_no_sep str_split_append)

lemma str_split_parts: "p \<in> set (str_split c s) \<Longrightarrow> c \<notin> set p"
  by (induction s arbitrary: p) (fastforce split: if_splits list.splits)+

lemma str_join_inj:
  assumes "str_join c ps = str_join c qs" and "ps \<noteq> []" and "qs \<noteq> []"
    and "\<forall>p \<in> set ps. c \<notin> set p" and "\<forall>q \<in> set qs. c \<notin> set q"
  shows "ps = qs"
  using assms str_split_join by metis

end
