(* ===== verification/Graph_Errors.thy ===== *)
theory Graph_Errors
  imports Go_Base
begin

text \<open>
  The error types of \<open>internal/harness/graph/errors\<close> and of the packages that add their own
  (version conflicts of the checkpoint manager, exhausted retries, store errors), as one datatype:
  every \<open>return err\<close> of the sources is a value \<open>Inl e\<close> of it. Texts of messages are kept only as
  the data they are made from; stack traces are not modelled. \<open>Errorf fmt es\<close> is \<open>fmt.Errorf\<close> with
  the errors it wraps by \<open>%w\<close>. The \<open>Is...\<close> predicates are type assertions and do not look through
  wrapping, exactly as in the sources.
\<close>

datatype error_code =
    NoErrorCode
  | ErrorCodeGraphRecursionLimit | ErrorCodeInvalidConcurrentGraphUpdate
  | ErrorCodeInvalidGraphNodeReturnValue | ErrorCodeMultipleSubgraphs
  | ErrorCodeInvalidChatHistory | ErrorCodeCheckpointConflict | ErrorCodeInvalidState
  | ErrorCodeNodeNotFound | ErrorCodeChannelNotFound | ErrorCodeTimeout | ErrorCodeCancellation

datatype update_fault =
    OneValuePerStep string | OneOverwritePerStep | NotAString gval | UnexpectedName string

datatype interrupt_item = Interrupt gval string | OtherItem gval

datatype gerr =
    EmptyChannelError
  | GraphRecursionError int
  | InvalidUpdateError update_fault
  | GraphBubbleUp string "gerr option"
  | GraphInterrupt "interrupt_item list"
  | ParentCommand gval
  | EmptyInputError string
  | TaskNotFound string
  | InvalidNodeError string string
  | InvalidEdgeError string string string
  | ChannelNotFoundError string
  | NodeNotFoundError string
  | ErrorContext error_code string "gerr option"
  | VersionConflictError int int string string
  | RetryExhaustedError string int "gerr option" gval
  | StoreError string
  | Errorf string "gerr list"
  | ContextErr string
  | GoPanic string

type_synonym 'a res = "gerr + 'a"

definition IsEmptyChannelError :: "gerr option \<Rightarrow> bool" where
  "IsEmptyChannelError err = (case err of Some EmptyChannelError \<Rightarrow> True | _ \<Rightarrow> False)"

definition IsGraphRecursionError :: "gerr option \<Rightarrow> bool" where
  "IsGraphRecursionError err = (case err of Some (GraphRecursionError l) \<Rightarrow> True | _ \<Rightarrow> False)"

definition IsInvalidUpdateError :: "gerr option \<Rightarrow> bool" where
  "IsInvalidUpdateError err = (case err of Some (InvalidUpdateError f) \<Rightarrow> True | _ \<Rightarrow> False)"

definition IsGraphInterrupt :: "gerr option \<Rightarrow> bool" where
  "IsGraphInterrupt err = (case err of Some (GraphInterrupt is) \<Rightarrow> True | _ \<Rightarrow> False)"

definition IsParentCommand :: "gerr option \<Rightarrow> bool" where
  "IsParentCommand err = (case err of Some (ParentCommand c) \<Rightarrow> True | _ \<Rightarrow> False)"

definition IsEmptyInputError :: "gerr option \<Rightarrow> bool" where
  "IsEmptyInputError err = (case err of Some (EmptyInputError m) \<Rightarrow> True | _ \<Rightarrow> False)"

definition IsTaskNotFound :: "gerr option \<Rightarrow> bool" where
  "IsTaskNotFound err = (case err of Some (TaskNotFound t) \<Rightarrow> True | _ \<Rightarrow> False)"

text \<open>\<open>WrapError\<close> wraps once more whatever the error already is; a nil error stays nil.\<close>

definition WrapError :: "gerr option \<Rightarrow> error_code \<Rightarrow> string \<Rightarrow> gerr option" where
  "WrapError err code msg =
     (case err of None \<Rightarrow> None | Some e \<Rightarrow> Some (ErrorContext code msg (Some e)))"

definition GetErrorCode :: "gerr option \<Rightarrow> error_code" where
  "GetErrorCode err =
     (case err of
        None \<Rightarrow> NoErrorCode
      | Some (ErrorContext c m cause) \<Rightarrow> c
      | Some e \<Rightarrow>
          if IsGraphRecursionError err then ErrorCodeGraphRecursionLimit
          else if IsGraphInterrupt err then ErrorCodeCancellation
          else if IsParentCommand err then ErrorCodeInvalidConcurrentGraphUpdate
          else NoErrorCode)"

definition ChainError :: "gerr option \<Rightarrow> gerr option \<Rightarrow> gerr option" where
  "ChainError base newErr =
     (case newErr of
        None \<Rightarrow> base
      | Some n \<Rightarrow> (case base of None \<Rightarrow> Some n | Some b \<Rightarrow> Some (Errorf ''%s: %w'' [b])))"

text \<open>\<open>errors.Unwrap\<close> on the types that define it.\<close>

definition unwrap :: "gerr \<Rightarrow> gerr option" where
  "unwrap e =
     (case e of
        GraphBubbleUp m c \<Rightarrow> c
      | ErrorContext c m cause \<Rightarrow> cause
      | RetryExhaustedError n a le lo \<Rightarrow> le
      | Errorf f [w] \<Rightarrow> Some w
      | _ \<Rightarrow> None)"

lemmas is_error_defs =
  IsEmptyChannelError_def IsGraphRecursionError_def IsInvalidUpdateError_def IsGraphInterrupt_def
  IsParentCommand_def IsEmptyInputError_def IsTaskNotFound_def

lemma IsGraphInterrupt_iff: "IsGraphInterrupt err \<longleftrightarrow> (\<exists>is. err = Some (GraphInterrupt is))"
  by (auto simp: is_error_defs split: option.splits gerr.splits)

lemma IsEmptyChannelError_iff: "IsEmptyChannelError err \<longleftrightarrow> err = Some EmptyChannelError"
  by (auto simp: is_error_defs split: option.splits gerr.splits)

lemma WrapError_unwrap: "WrapError (Some e) c m = Some w \<Longrightarrow> unwrap w = Some e"
  by (auto simp: WrapError_def unwrap_def)

end
