(* ===== verification/Channels.thy ===== *)
theory Channels
  imports Graph_Errors
begin

text \<open>
  The channels of \<open>internal/harness/graph/channels\<close>: one record per struct (the embedded
  \<open>BaseChannel\<close> is the record the others extend), one definition per method, and the interface
  value \<open>channel\<close> with its dynamic dispatch. A method that writes its receiver returns the new
  receiver next to its result, on error paths too. The mutexes make each method atomic, so a method
  is one function on the record.
\<close>

section \<open>BaseChannel\<close>

definition IsMissing :: "gval \<Rightarrow> bool" where
  "IsMissing val = (case val of GNil \<Rightarrow> False | GMissing \<Rightarrow> True | _ \<Rightarrow> False)"

lemma IsMissing_iff [simp]: "IsMissing v \<longleftrightarrow> v = GMissing"
  by (cases v) (simp_all add: IsMissing_def)

record BaseChannel =
  Key :: string
  Typ :: gval
  Version :: "64 word"

definition BaseChannel_GetVersion :: "('a) BaseChannel_scheme \<Rightarrow> int" where
  "BaseChannel_GetVersion c = sint (Version c)"

definition BaseChannel_SetVersion :: "int \<Rightarrow> 'a BaseChannel_scheme \<Rightarrow> 'a BaseChannel_scheme" where
  "BaseChannel_SetVersion v c = c\<lparr>Version := word_of_int v\<rparr>"

section \<open>LastValue\<close>

record LastValue = BaseChannel +
  lv_value :: gval

definition NewLastValue :: "gval \<Rightarrow> LastValue" where
  "NewLastValue typ = \<lparr>Key = [], Typ = typ, Version = 0, lv_value = GMissing\<rparr>"

definition LastValue_Get :: "LastValue \<Rightarrow> gval res" where
  "LastValue_Get c = (if IsMissing (lv_value c) then Inl EmptyChannelError else Inr (lv_value c))"

definition LastValue_IsAvailable :: "LastValue \<Rightarrow> bool" where
  "LastValue_IsAvailable c = (\<not> IsMissing (lv_value c))"

definition LastValue_Update :: "LastValue \<Rightarrow> gval list \<Rightarrow> LastValue \<times> bool res" where
  "LastValue_Update c values =
     (if length values = 0 then (c, Inr False)
      else if length values \<noteq> 1 then (c, Inl (InvalidUpdateError (OneValuePerStep (Key c))))
      else (c\<lparr>lv_value := last values\<rparr>, Inr True))"

definition LastValue_Copy :: "LastValue \<Rightarrow> LastValue" where
  "LastValue_Copy c = (NewLastValue (Typ c))\<lparr>Key := Key c, lv_value := lv_value c\<rparr>"

definition LastValue_Checkpoint :: "LastValue \<Rightarrow> gval" where
  "LastValue_Checkpoint c = lv_value c"

definition LastValue_FromCheckpoint :: "LastValue \<Rightarrow> gval \<Rightarrow> LastValue" where
  "LastValue_FromCheckpoint c cp =
     (let n = (NewLastValue (Typ c))\<lparr>Key := Key c\<rparr>
      in if \<not> IsMissing cp then n\<lparr>lv_value := cp\<rparr> else n)"

section \<open>AnyValue\<close>

record AnyValue = BaseChannel +
  av_value :: gval

definition NewAnyValue :: "gval \<Rightarrow> AnyValue" where
  "NewAnyValue typ = \<lparr>Key = [], Typ = typ, Version = 0, av_value = GMissing\<rparr>"

definition AnyValue_Get :: "AnyValue \<Rightarrow> gval res" where
  "AnyValue_Get c = (if IsMissing (av_value c) then Inl EmptyChannelError else Inr (av_value c))"

definition AnyValue_IsAvailable :: "AnyValue \<Rightarrow> bool" where
  "AnyValue_IsAvailable c = (\<not> IsMissing (av_value c))"

definition AnyValue_Update :: "AnyValue \<Rightarrow> gval list \<Rightarrow> AnyValue \<times> bool res" where
  "AnyValue_Update c values =
     (if length values = 0 then (c, Inr False) else (c\<lparr>av_value := last values\<rparr>, Inr True))"

definition AnyValue_Copy :: "AnyValue \<Rightarrow> AnyValue" where
  "AnyValue_Copy c = (NewAnyValue (Typ c))\<lparr>Key := Key c, av_value := av_value c\<rparr>"

definition AnyValue_Checkpoint :: "AnyValue \<Rightarrow> gval" where
  "AnyValue_Checkpoint c = av_value c"

definition AnyValue_FromCheckpoint :: "AnyValue \<Rightarrow> gval \<Rightarrow> AnyValue" where
  "AnyValue_FromCheckpoint c cp =
     (let n = (NewAnyValue (Typ c))\<lparr>Key := Key c\<rparr>
      in if \<not> IsMissing cp then n\<lparr>av_value := cp\<rparr> else n)"

section \<open>EphemeralValue\<close>

text \<open>Reading an ephemeral value clears it, so \<open>Get\<close> returns the channel too.\<close>

record EphemeralValue = BaseChannel +
  ev_value :: gval
  ev_guard :: bool

definition NewEphemeralValue :: "gval \<Rightarrow> bool \<Rightarrow> EphemeralValue" where
  "NewEphemeralValue typ guard =
     \<lparr>Key = [], Typ = typ, Version = 0, ev_value = GMissing, ev_guard = guard\<rparr>"

definition EphemeralValue_Get :: "EphemeralValue \<Rightarrow> EphemeralValue \<times> gval res" where
  "EphemeralValue_Get c =
     (if IsMissing (ev_value c)
      then (if ev_guard c then (c, Inl EmptyChannelError) else (c, Inr GNil))
      else (c\<lparr>ev_value := GMissing\<rparr>, Inr (ev_value c)))"

definition EphemeralValue_IsAvailable :: "EphemeralValue \<Rightarrow> bool" where
  "EphemeralValue_IsAvailable c = (\<not> IsMissing (ev_value c))"

definition EphemeralValue_Update :: "EphemeralValue \<Rightarrow> gval list \<Rightarrow> EphemeralValue \<times> bool res" where
  "EphemeralValue_Update c values =
     (if length values = 0 then (c, Inr False) else (c\<lparr>ev_value := last values\<rparr>, Inr True))"

definition EphemeralValue_Copy :: "EphemeralValue \<Rightarrow> EphemeralValue" where
  "EphemeralValue_Copy c =
     (NewEphemeralValue (Typ c) (ev_guard c))\<lparr>Key := Key c, ev_value := ev_value c\<rparr>"

definition EphemeralValue_Checkpoint :: "EphemeralValue \<Rightarrow> gval" where
  "EphemeralValue_Checkpoint c = ev_value c"

definition EphemeralValue_FromCheckpoint :: "EphemeralValue \<Rightarrow> gval \<Rightarrow> EphemeralValue" where
  "EphemeralValue_FromCheckpoint c cp =
     (let n = (NewEphemeralValue (Typ c) (ev_guard c))\<lparr>Key := Key c\<rparr>
      in if \<not> IsMissing cp then n\<lparr>ev_value := cp\<rparr> else n)"

section \<open>Topic\<close>

record Topic = BaseChannel +
  tp_values :: "gval list"
  tp_accumulate :: bool

definition NewTopic :: "gval \<Rightarrow> bool \<Rightarrow> Topic" where
  "NewTopic typ accumulate =
     \<lparr>Key = [], Typ = typ, Version = 0, tp_values = [], tp_accumulate = accumulate\<rparr>"

definition Topic_Get :: "Topic \<Rightarrow> gval res" where
  "Topic_Get c = (if length (tp_values c) = 0 then Inl EmptyChannelError
                  else Inr (GSlice (tp_values c)))"

definition Topic_IsAvailable :: "Topic \<Rightarrow> bool" where
  "Topic_IsAvailable c = (length (tp_values c) > 0)"

fun flatten :: "gval list \<Rightarrow> gval list" where
  "flatten [] = []"
| "flatten (v # vs) = (case v of GSlice list \<Rightarrow> list @ flatten vs | _ \<Rightarrow> v # flatten vs)"

definition Topic_Update :: "Topic \<Rightarrow> gval list \<Rightarrow> Topic \<times> bool res" where
  "Topic_Update c values =
     (let updated = (\<not> tp_accumulate c \<and> length (tp_values c) > 0);
          c1 = (if \<not> tp_accumulate c then c\<lparr>tp_values := []\<rparr> else c);
          flatValues = flatten values
      in if length flatValues > 0
         then (c1\<lparr>tp_values := tp_values c1 @ flatValues\<rparr>, Inr True)
         else (c1, Inr updated))"

definition Topic_Copy :: "Topic \<Rightarrow> Topic" where
  "Topic_Copy c = (NewTopic (Typ c) (tp_accumulate c))\<lparr>Key := Key c, tp_values := tp_values c\<rparr>"

definition Topic_Checkpoint :: "Topic \<Rightarrow> gval" where
  "Topic_Checkpoint c = (if length (tp_values c) = 0 then GMissing else GSlice (tp_values c))"

definition Topic_FromCheckpoint :: "Topic \<Rightarrow> gval \<Rightarrow> Topic" where
  "Topic_FromCheckpoint c cp =
     (let n = (NewTopic (Typ c) (tp_accumulate c))\<lparr>Key := Key c\<rparr>
      in if \<not> IsMissing cp then (case cp of GSlice v \<Rightarrow> n\<lparr>tp_values := v\<rparr> | _ \<Rightarrow> n) else n)"

section \<open>UntrackedValue\<close>

record UntrackedValue = BaseChannel +
  ut_value :: gval

definition NewUntrackedValue :: "gval \<Rightarrow> UntrackedValue" where
  "NewUntrackedValue typ = \<lparr>Key = [], Typ = typ, Version = 0, ut_value = GMissing\<rparr>"

definition UntrackedValue_Get :: "UntrackedValue \<Rightarrow> gval res" where
  "UntrackedValue_Get c =
     (if IsMissing (ut_value c) then Inl EmptyChannelError else Inr (ut_value c))"

definition UntrackedValue_IsAvailable :: "UntrackedValue \<Rightarrow> bool" where
  "UntrackedValue_IsAvailable c = (\<not> IsMissing (ut_value c))"

definition UntrackedValue_Update :: "UntrackedValue \<Rightarrow> gval list \<Rightarrow> UntrackedValue \<times> bool res" where
  "UntrackedValue_Update c values =
     (if length values = 0 then (c, Inr False) else (c\<lparr>ut_value := last values\<rparr>, Inr True))"

definition UntrackedValue_Copy :: "UntrackedValue \<Rightarrow> UntrackedValue" where
  "UntrackedValue_Copy c = (NewUntrackedValue (Typ c))\<lparr>Key := Key c\<rparr>"

definition UntrackedValue_Checkpoint :: "UntrackedValue \<Rightarrow> gval" where
  "UntrackedValue_Checkpoint c = GMissing"

definition UntrackedValue_FromCheckpoint :: "UntrackedValue \<Rightarrow> gval \<Rightarrow> UntrackedValue" where
  "UntrackedValue_FromCheckpoint c cp = NewUntrackedValue (Typ c)"

section \<open>BinaryOperatorAggregate\<close>

record BinaryOperatorAggregate = BaseChannel +
  bo_value :: gval
  bo_operator :: "gval \<Rightarrow> gval \<Rightarrow> gval"

text \<open>
  \<open>createZeroValue\<close> looks at the dynamic type of its argument. A \<open>reflect.Type\<close> passed as the
  argument is itself a value, of type \<open>*reflect.rtype\<close>.
\<close>

definition createZeroValue :: "gval \<Rightarrow> gval" where
  "createZeroValue typ =
     (case type_of typ of
        None \<Rightarrow> GMissing
      | Some (TSlice TAny) \<Rightarrow> GSlice []
      | Some (TMap TString TAny) \<Rightarrow> GMap []
      | Some rt0 \<Rightarrow>
          (let rt = (case rt0 of TPtr t \<Rightarrow> t | _ \<Rightarrow> rt0)
           in case rt of
                TSlice t \<Rightarrow> (if t = TAny then GSlice [] else GEmpty rt)
              | TMap k v \<Rightarrow> (if k = TString \<and> v = TAny then GMap []
                             else if k = TString \<and> v = TBool then GBoolMap [] else GEmpty rt)
              | _ \<Rightarrow> zero_value rt))"

definition NewBinaryOperatorAggregate ::
    "gval \<Rightarrow> (gval \<Rightarrow> gval \<Rightarrow> gval) \<Rightarrow> BinaryOperatorAggregate" where
  "NewBinaryOperatorAggregate typ operator =
     \<lparr>Key = [], Typ = typ, Version = 0, bo_value = createZeroValue typ, bo_operator = operator\<rparr>"

definition BinaryOperatorAggregate_Get :: "BinaryOperatorAggregate \<Rightarrow> gval res" where
  "BinaryOperatorAggregate_Get c =
     (if IsMissing (bo_value c) then Inl EmptyChannelError else Inr (bo_value c))"

definition BinaryOperatorAggregate_IsAvailable :: "BinaryOperatorAggregate \<Rightarrow> bool" where
  "BinaryOperatorAggregate_IsAvailable c = (\<not> IsMissing (bo_value c))"

text \<open>\<open>Some v\<close> when the value asks to overwrite the channel with \<open>v\<close>.\<close>

definition isOverwrite :: "gval \<Rightarrow> gval option" where
  "isOverwrite value =
     (case value of
        GNil \<Rightarrow> None
      | GOverwriter v \<Rightarrow> Some v
      | GMap m \<Rightarrow> (if length m = 1 then mget m ''__overwrite__'' else None)
      | _ \<Rightarrow> None)"

fun bo_loop :: "(gval \<Rightarrow> gval \<Rightarrow> gval) \<Rightarrow> bool \<Rightarrow> gval \<Rightarrow> gval list \<Rightarrow> gval \<times> bool res" where
  "bo_loop operator seenOverwrite v [] = (v, Inr True)"
| "bo_loop operator seenOverwrite v (x # xs) =
     (case isOverwrite x of
        Some ow \<Rightarrow>
          (if seenOverwrite then (v, Inl (InvalidUpdateError OneOverwritePerStep))
           else bo_loop operator True ow xs)
      | None \<Rightarrow>
          (if \<not> seenOverwrite then bo_loop operator seenOverwrite (operator v x) xs
           else bo_loop operator seenOverwrite v xs))"

definition BinaryOperatorAggregate_Update ::
    "BinaryOperatorAggregate \<Rightarrow> gval list \<Rightarrow> BinaryOperatorAggregate \<times> bool res" where
  "BinaryOperatorAggregate_Update c values =
     (if length values = 0 then (c, Inr False)
      else let (v0, rest) = (if IsMissing (bo_value c) then (hd values, tl values)
                             else (bo_value c, values));
               (v, r) = bo_loop (bo_operator c) False v0 rest
           in (c\<lparr>bo_value := v\<rparr>, r))"

definition BinaryOperatorAggregate_Copy :: "BinaryOperatorAggregate \<Rightarrow> BinaryOperatorAggregate" where
  "BinaryOperatorAggregate_Copy c =
     (NewBinaryOperatorAggregate (Typ c) (bo_operator c))\<lparr>Key := Key c, bo_value := bo_value c\<rparr>"

definition BinaryOperatorAggregate_Checkpoint :: "BinaryOperatorAggregate \<Rightarrow> gval" where
  "BinaryOperatorAggregate_Checkpoint c = bo_value c"

definition BinaryOperatorAggregate_FromCheckpoint ::
    "BinaryOperatorAggregate \<Rightarrow> gval \<Rightarrow> BinaryOperatorAggregate" where
  "BinaryOperatorAggregate_FromCheckpoint c cp =
     (let n = (NewBinaryOperatorAggregate (Typ c) (bo_operator c))\<lparr>Key := Key c\<rparr>
      in if \<not> IsMissing cp then n\<lparr>bo_value := cp\<rparr> else n)"

text \<open>The operators the package offers.\<close>

definition StringConcat :: "golib \<Rightarrow> gval \<Rightarrow> gval \<Rightarrow> gval" where
  "StringConcat lib a b =
     (case (a, b) of
        (GStr sa, GStr sb) \<Rightarrow> GStr (sa @ sb)
      | _ \<Rightarrow> GStr (fmt_v lib a @ fmt_v lib b))"

definition IntAdd :: "golib \<Rightarrow> gval \<Rightarrow> gval \<Rightarrow> gval" where
  "IntAdd lib a b =
     (case (a, b) of
        (GInt ai, GInt bi) \<Rightarrow> GInt (ai + bi)
      | (GFloat af, GFloat bf) \<Rightarrow> GFloat (f64_add lib af bf)
      | _ \<Rightarrow> a)"

definition ListAppend :: "gval \<Rightarrow> gval \<Rightarrow> gval" where
  "ListAppend a b =
     (case a of
        GSlice al \<Rightarrow> (case b of GSlice bl \<Rightarrow> GSlice (al @ bl) | _ \<Rightarrow> GSlice (al @ [b]))
      | _ \<Rightarrow> GSlice [a, b])"

end
