(* ===== verification/Barrier_Channels.thy ===== *)
theory Barrier_Channels
  imports Channels
begin

text \<open>
  The barrier channels of \<open>channels/barrier.go\<close>: a named barrier that opens when every expected
  name was written, the variant that opens only after \<open>Finish\<close>, and a last value that becomes
  readable only after \<open>Finish\<close>. The sets of names are Go maps from names to \<open>true\<close>.
\<close>

section \<open>NamedBarrierValue\<close>

record NamedBarrierValue = BaseChannel +
  nb_names :: "bool gomap"
  nb_seen :: "bool gomap"

definition name_set :: "string list \<Rightarrow> bool gomap" where
  "name_set waitFor = fold (\<lambda>name m. mput name True m) waitFor []"

definition NewNamedBarrierValue :: "gval \<Rightarrow> string list \<Rightarrow> NamedBarrierValue" where
  "NewNamedBarrierValue typ waitFor =
     \<lparr>Key = [], Typ = typ, Version = 0, nb_names = name_set waitFor, nb_seen = []\<rparr>"

definition namesMatchSeen :: "bool gomap \<Rightarrow> bool gomap \<Rightarrow> bool" where
  "namesMatchSeen names seen =
     (length names = length seen \<and> (\<forall>name \<in> set (mkeys names). mget_or False seen name))"

definition NamedBarrierValue_Get :: "NamedBarrierValue \<Rightarrow> gval res" where
  "NamedBarrierValue_Get c =
     (if \<not> namesMatchSeen (nb_names c) (nb_seen c) then Inl EmptyChannelError else Inr GNil)"

definition NamedBarrierValue_IsAvailable :: "NamedBarrierValue \<Rightarrow> bool" where
  "NamedBarrierValue_IsAvailable c = namesMatchSeen (nb_names c) (nb_seen c)"

text \<open>The loop over the values, with the flag \<open>updated\<close>; it stops at the first bad value.\<close>

fun barrier_loop :: "bool gomap \<Rightarrow> bool \<Rightarrow> bool gomap \<Rightarrow> gval list \<Rightarrow> bool gomap \<times> bool res" where
  "barrier_loop names updated seen [] = (seen, Inr updated)"
| "barrier_loop names updated seen (val # vals) =
     (case val of
        GStr name \<Rightarrow>
          (case mget names name of
             Some b \<Rightarrow>
               (if \<not> mget_or False seen name
                then barrier_loop names True (mput name True seen) vals
                else barrier_loop names updated seen vals)
           | None \<Rightarrow> (seen, Inl (InvalidUpdateError (UnexpectedName name))))
      | _ \<Rightarrow> (seen, Inl (InvalidUpdateError (NotAString val))))"

definition NamedBarrierValue_Update :: "NamedBarrierValue \<Rightarrow> gval list \<Rightarrow> NamedBarrierValue \<times> bool res" where
  "NamedBarrierValue_Update c values =
     (if length values = 0 then (c, Inr False)
      else let (seen, r) = barrier_loop (nb_names c) False (nb_seen c) values
           in (c\<lparr>nb_seen := seen\<rparr>, r))"

definition NamedBarrierValue_Copy :: "NamedBarrierValue \<Rightarrow> NamedBarrierValue" where
  "NamedBarrierValue_Copy c =
     (NewNamedBarrierValue (Typ c) [])
       \<lparr>Key := Key c, nb_names := mcopy [] (nb_names c), nb_seen := mcopy [] (nb_seen c)\<rparr>"

definition NamedBarrierValue_Checkpoint :: "NamedBarrierValue \<Rightarrow> gval" where
  "NamedBarrierValue_Checkpoint c =
     (if length (nb_seen c) = 0 then GMissing else GBoolMap (mcopy [] (nb_seen c)))"

text \<open>A set of names as it comes back: as it was, or after a JSON round trip.\<close>

fun bool_entries :: "gval gomap \<Rightarrow> bool gomap" where
  "bool_entries [] = []"
| "bool_entries ((k, bv) # m) = (case bv of GBool b \<Rightarrow> (k, b) # bool_entries m | _ \<Rightarrow> bool_entries m)"

definition restore_seen :: "gval \<Rightarrow> bool gomap" where
  "restore_seen cp =
     (case cp of
        GBoolMap v \<Rightarrow> mcopy [] v
      | GMap v \<Rightarrow> mcopy [] (bool_entries v)
      | _ \<Rightarrow> [])"

definition NamedBarrierValue_FromCheckpoint :: "NamedBarrierValue \<Rightarrow> gval \<Rightarrow> NamedBarrierValue" where
  "NamedBarrierValue_FromCheckpoint c cp =
     (let n = (NewNamedBarrierValue (Typ c) [])\<lparr>Key := Key c, nb_names := mcopy [] (nb_names c)\<rparr>
      in if cp \<noteq> GNil \<and> \<not> IsMissing cp then n\<lparr>nb_seen := restore_seen cp\<rparr> else n)"

definition NamedBarrierValue_Finish :: "NamedBarrierValue \<Rightarrow> NamedBarrierValue \<times> bool" where
  "NamedBarrierValue_Finish c =
     (if length (nb_seen c) > 0 then (c\<lparr>nb_seen := []\<rparr>, True) else (c, False))"

definition NamedBarrierValue_Consume :: "NamedBarrierValue \<Rightarrow> NamedBarrierValue \<times> bool" where
  "NamedBarrierValue_Consume c =
     (if namesMatchSeen (nb_names c) (nb_seen c) \<and> length (nb_seen c) > 0
      then (c\<lparr>nb_seen := []\<rparr>, True) else (c, False))"

section \<open>NamedBarrierValueAfterFinish\<close>

record NamedBarrierValueAfterFinish = BaseChannel +
  nf_names :: "bool gomap"
  nf_seen :: "bool gomap"
  nf_finished :: bool

definition NewNamedBarrierValueAfterFinish :: "gval \<Rightarrow> string list \<Rightarrow> NamedBarrierValueAfterFinish" where
  "NewNamedBarrierValueAfterFinish typ waitFor =
     \<lparr>Key = [], Typ = typ, Version = 0, nf_names = name_set waitFor, nf_seen = [],
      nf_finished = False\<rparr>"

definition NamedBarrierValueAfterFinish_Get :: "NamedBarrierValueAfterFinish \<Rightarrow> gval res" where
  "NamedBarrierValueAfterFinish_Get c =
     (if \<not> nf_finished c \<or> \<not> namesMatchSeen (nf_names c) (nf_seen c)
      then Inl EmptyChannelError else Inr GNil)"

definition NamedBarrierValueAfterFinish_IsAvailable :: "NamedBarrierValueAfterFinish \<Rightarrow> bool" where
  "NamedBarrierValueAfterFinish_IsAvailable c =
     (nf_finished c \<and> namesMatchSeen (nf_names c) (nf_seen c))"

definition NamedBarrierValueAfterFinish_Update ::
    "NamedBarrierValueAfterFinish \<Rightarrow> gval list \<Rightarrow> NamedBarrierValueAfterFinish \<times> bool res" where
  "NamedBarrierValueAfterFinish_Update c values =
     (if length values = 0 then (c, Inr False)
      else let (seen, r) = barrier_loop (nf_names c) False (nf_seen c) values
           in (c\<lparr>nf_seen := seen\<rparr>, r))"

definition NamedBarrierValueAfterFinish_Copy ::
    "NamedBarrierValueAfterFinish \<Rightarrow> NamedBarrierValueAfterFinish" where
  "NamedBarrierValueAfterFinish_Copy c =
     (NewNamedBarrierValueAfterFinish (Typ c) [])
       \<lparr>Key := Key c, nf_names := mcopy [] (nf_names c), nf_seen := mcopy [] (nf_seen c),
        nf_finished := nf_finished c\<rparr>"

definition NamedBarrierValueAfterFinish_Checkpoint :: "NamedBarrierValueAfterFinish \<Rightarrow> gval" where
  "NamedBarrierValueAfterFinish_Checkpoint c =
     (if length (nf_seen c) = 0 \<and> \<not> nf_finished c then GMissing
      else GMap [(''seen'', GBoolMap (nf_seen c)), (''finished'', GBool (nf_finished c))])"

definition NamedBarrierValueAfterFinish_FromCheckpoint ::
    "NamedBarrierValueAfterFinish \<Rightarrow> gval \<Rightarrow> NamedBarrierValueAfterFinish" where
  "NamedBarrierValueAfterFinish_FromCheckpoint c cp =
     (let n = (NewNamedBarrierValueAfterFinish (Typ c) [])
                \<lparr>Key := Key c, nf_names := mcopy [] (nf_names c)\<rparr>
      in if cp \<noteq> GNil \<and> \<not> IsMissing cp
         then (case cp of
                 GMap m \<Rightarrow>
                   (let n1 = n\<lparr>nf_seen := (case mget m ''seen'' of None \<Rightarrow> []
                                            | Some v \<Rightarrow> restore_seen v)\<rparr>
                    in case mget m ''finished'' of
                         Some (GBool b) \<Rightarrow> n1\<lparr>nf_finished := b\<rparr>
                       | _ \<Rightarrow> n1)
               | _ \<Rightarrow> n)
         else n)"

definition NamedBarrierValueAfterFinish_Finish ::
    "NamedBarrierValueAfterFinish \<Rightarrow> NamedBarrierValueAfterFinish \<times> bool" where
  "NamedBarrierValueAfterFinish_Finish c =
     (if \<not> nf_finished c \<and> namesMatchSeen (nf_names c) (nf_seen c)
      then (c\<lparr>nf_finished := True\<rparr>, True) else (c, False))"

definition NamedBarrierValueAfterFinish_Consume ::
    "NamedBarrierValueAfterFinish \<Rightarrow> NamedBarrierValueAfterFinish \<times> bool" where
  "NamedBarrierValueAfterFinish_Consume c =
     (if nf_finished c \<and> namesMatchSeen (nf_names c) (nf_seen c) \<and> length (nf_seen c) > 0
      then (c\<lparr>nf_finished := False, nf_seen := []\<rparr>, True) else (c, False))"

section \<open>LastValueAfterFinish\<close>

record LastValueAfterFinish = BaseChannel +
  lf_value :: gval
  lf_finished :: bool

definition NewLastValueAfterFinish :: "gval \<Rightarrow> LastValueAfterFinish" where
  "NewLastValueAfterFinish typ =
     \<lparr>Key = [], Typ = typ, Version = 0, lf_value = GMissing, lf_finished = False\<rparr>"

definition LastValueAfterFinish_Get :: "LastValueAfterFinish \<Rightarrow> gval res" where
  "LastValueAfterFinish_Get c =
     (if \<not> lf_finished c then Inl EmptyChannelError
      else if IsMissing (lf_value c) then Inl EmptyChannelError
      else Inr (lf_value c))"

definition LastValueAfterFinish_IsAvailable :: "LastValueAfterFinish \<Rightarrow> bool" where
  "LastValueAfterFinish_IsAvailable c = (lf_finished c \<and> \<not> IsMissing (lf_value c))"

definition LastValueAfterFinish_Update ::
    "LastValueAfterFinish \<Rightarrow> gval list \<Rightarrow> LastValueAfterFinish \<times> bool res" where
  "LastValueAfterFinish_Update c values =
     (if length values = 0 then (c, Inr False)
      else if length values > 1 then (c, Inl (InvalidUpdateError (OneValuePerStep [])))
      else (c\<lparr>lf_value := hd values\<rparr>, Inr True))"

definition LastValueAfterFinish_Copy :: "LastValueAfterFinish \<Rightarrow> LastValueAfterFinish" where
  "LastValueAfterFinish_Copy c =
     (NewLastValueAfterFinish (Typ c))
       \<lparr>Key := Key c, lf_value := lf_value c, lf_finished := lf_finished c\<rparr>"

definition LastValueAfterFinish_Checkpoint :: "LastValueAfterFinish \<Rightarrow> gval" where
  "LastValueAfterFinish_Checkpoint c = lf_value c"

definition LastValueAfterFinish_FromCheckpoint :: "LastValueAfterFinish \<Rightarrow> gval \<Rightarrow> LastValueAfterFinish" where
  "LastValueAfterFinish_FromCheckpoint c cp =
     (let n = (NewLastValueAfterFinish (Typ c))\<lparr>Key := Key c\<rparr>
      in if \<not> IsMissing cp then n\<lparr>lf_value := cp\<rparr> else n)"

definition LastValueAfterFinish_Finish :: "LastValueAfterFinish \<Rightarrow> LastValueAfterFinish \<times> bool" where
  "LastValueAfterFinish_Finish c =
     (if \<not> lf_finished c then (c\<lparr>lf_finished := True\<rparr>, True) else (c, False))"

definition LastValueAfterFinish_Consume :: "LastValueAfterFinish \<Rightarrow> LastValueAfterFinish \<times> bool" where
  "LastValueAfterFinish_Consume c = (c, False)"

section \<open>Barrier invariant and specification\<close>

text \<open>
  The invariant of both barriers: each set is a proper map, every stored flag is true, and only
  expected names were received. Under it the barrier is the abstract pair of the expected and the
  received set of names.
\<close>

definition barrier_ok :: "bool gomap \<Rightarrow> bool gomap \<Rightarrow> bool" where
  "barrier_ok names seen \<longleftrightarrow>
     gomap_ok names \<and> gomap_ok seen \<and> (\<forall>p \<in> set seen. snd p) \<and>
     mdom seen \<subseteq> mdom names"

lemma name_set_ok: "gomap_ok (name_set ws)" and mdom_name_set: "mdom (name_set ws) = set ws"
proof -
  have "gomap_ok m \<Longrightarrow> gomap_ok (fold (\<lambda>name m. mput name True m) ws m)" for m
    by (induction ws arbitrary: m) auto
  then show "gomap_ok (name_set ws)" by (simp add: name_set_def)
  have "mdom (fold (\<lambda>name m. mput name True m) ws m) = mdom m \<union> set ws" for m
    by (induction ws arbitrary: m) (auto simp: gomap)
  then show "mdom (name_set ws) = set ws" by (simp add: name_set_def)
qed

lemma seen_true_iff:
  assumes "barrier_ok names seen"
  shows "mget_or False seen k \<longleftrightarrow> k \<in> mdom seen"
proof (cases "mget seen k")
  case None
  then show ?thesis by (auto simp: mget_or_def dest: mget_NoneD)
next
  case (Some b)
  then have "(k, b) \<in> set seen" by (rule map_of_SomeD)
  with assms Some show ?thesis by (force simp: barrier_ok_def mget_or_def)
qed

lemma barrier_ok_mput:
  assumes "barrier_ok names seen" and "mget names k = Some b"
  shows "barrier_ok names (mput k True seen)"
proof -
  from assms(2) have "k \<in> mdom names"
    by (rule mget_SomeD)
  moreover have "\<forall>p \<in> set (mput k True seen). snd p"
    using assms(1) by (auto simp: barrier_ok_def dest!: in_mput)
  ultimately show ?thesis
    using assms(1) by (auto simp: barrier_ok_def gomap)
qed

text \<open>The loop keeps the invariant, errors or not, and records exactly the accepted prefix.\<close>

lemma barrier_loop_ok:
  "barrier_ok names seen \<Longrightarrow> barrier_ok names (fst (barrier_loop names u seen vs))"
  by (induction names u seen vs rule: barrier_loop.induct)
    (auto simp: barrier_ok_mput split: gval.splits option.splits)

lemma barrier_loop_success:
  assumes "barrier_loop names u seen vs = (seen', Inr u')" and "barrier_ok names seen"
  shows "\<exists>ks. vs = map GStr ks \<and> set ks \<subseteq> mdom names \<and>
           mdom seen' = mdom seen \<union> set ks \<and>
           (u' \<longleftrightarrow> u \<or> \<not> set ks \<subseteq> mdom seen)"
  using assms
proof (induction names u seen vs rule: barrier_loop.induct)
  case (1 names u seen)
  then show ?case by auto
next
  case (2 names u seen val vals)
  then obtain name b where val: "val = GStr name" and nm: "mget names name = Some b"
    by (auto split: gval.splits option.splits)
  then have mem: "name \<in> mdom names"
    by (simp add: mget_SomeD)
  show ?case
  proof (cases "mget_or False seen name")
    case True
    with 2 val nm have run: "barrier_loop names u seen vals = (seen', Inr u')" by simp
    from 2(2) [OF val nm _ run 2(4)] True obtain ks where "vals = map GStr ks"
      "set ks \<subseteq> mdom names" "mdom seen' = mdom seen \<union> set ks"
      "u' \<longleftrightarrow> u \<or> \<not> set ks \<subseteq> mdom seen"
      by auto
    with True mem val 2(4) show ?thesis
      by (intro exI [of _ "name # ks"]) (auto simp: seen_true_iff)
  next
    case False
    with 2 val nm have ok: "barrier_ok names (mput name True seen)"
      and run: "barrier_loop names True (mput name True seen) vals = (seen', Inr u')"
      by (auto intro: barrier_ok_mput)
    from 2(1) [OF val nm False run ok] obtain ks where "vals = map GStr ks"
      "set ks \<subseteq> mdom names"
      "mdom seen' = mdom (mput name True seen) \<union> set ks" "u'"
      by auto
    with False mem val 2(4) show ?thesis
      by (intro exI [of _ "name # ks"]) (auto simp: seen_true_iff gomap)
  qed
qed

lemma namesMatchSeen_iff:
  assumes "barrier_ok names seen"
  shows "namesMatchSeen names seen \<longleftrightarrow> mdom names = mdom seen"
proof -
  from assms have d: "distinct (mkeys names)" "distinct (mkeys seen)"
    and sub: "mdom seen \<subseteq> mdom names"
    by (auto simp: barrier_ok_def gomap_ok_def)
  show ?thesis
  proof
    assume "namesMatchSeen names seen"
    then have "mdom names \<subseteq> mdom seen"
      by (auto simp: namesMatchSeen_def seen_true_iff [OF assms])
    with sub show "mdom names = mdom seen" by (rule equalityI [rotated])
  next
    assume eq: "mdom names = mdom seen"
    then have "length names = length seen"
      using d by (metis distinct_card length_map set_map)
    with eq show "namesMatchSeen names seen"
      by (auto simp: namesMatchSeen_def seen_true_iff [OF assms])
  qed
qed

text \<open>A barrier update, seen from outside: it fails, or it adds exactly the written names.\<close>

lemma barrier_update_spec:
  assumes "barrier_ok (nb_names c) (nb_seen c)"
    and "NamedBarrierValue_Update c vs = (c', Inr u)"
  shows "barrier_ok (nb_names c') (nb_seen c') \<and> nb_names c' = nb_names c \<and>
         (\<exists>ks. vs = map GStr ks \<and> set ks \<subseteq> mdom (nb_names c) \<and>
           mdom (nb_seen c') = mdom (nb_seen c) \<union> set ks)"
proof (cases "vs = []")
  case True
  with assms show ?thesis by (auto simp: NamedBarrierValue_Update_def)
next
  case False
  obtain seen r where loop: "barrier_loop (nb_names c) False (nb_seen c) vs = (seen, r)"
    by (cases "barrier_loop (nb_names c) False (nb_seen c) vs")
  with assms False have c': "c' = c\<lparr>nb_seen := seen\<rparr>" and r: "r = Inr u"
    by (auto simp: NamedBarrierValue_Update_def)
  from barrier_loop_ok [OF assms(1), of False vs] loop
  have "barrier_ok (nb_names c) seen" by simp
  moreover from barrier_loop_success [OF loop [unfolded r] assms(1)]
  obtain ks where "vs = map GStr ks" "set ks \<subseteq> mdom (nb_names c)"
    "mdom seen = mdom (nb_seen c) \<union> set ks" by blast
  ultimately show ?thesis using c' by auto
qed

end
