(* ===== verification/Channel_Interface.thy ===== *)
theory Channel_Interface
  imports Barrier_Channels
begin

text \<open>
  The interface \<open>Channel\<close>: its dynamic values, method dispatch, the reducer wrapper and the
  constructor that chooses a channel from a field type (\<open>channels/reducer.go\<close>). Two locales state
  what clients rely on: a readable channel answers \<open>Get\<close> exactly when it is available, and a
  persistent channel reads the same after its checkpoint is restored. Every concrete channel that
  keeps the contract is an interpretation; the interface value is one too.
\<close>

section \<open>Interface values and dispatch\<close>

datatype channel =
    CLastValue LastValue
  | CAnyValue AnyValue
  | CEphemeralValue EphemeralValue
  | CTopic Topic
  | CUntrackedValue UntrackedValue
  | CBinaryOperatorAggregate BinaryOperatorAggregate
  | CNamedBarrierValue NamedBarrierValue
  | CNamedBarrierValueAfterFinish NamedBarrierValueAfterFinish
  | CLastValueAfterFinish LastValueAfterFinish
  | CReducerChannel channel "gval \<Rightarrow> gval \<Rightarrow> gval"

fun ch_GetKey :: "channel \<Rightarrow> string" where
  "ch_GetKey (CLastValue c) = Key c"
| "ch_GetKey (CAnyValue c) = Key c"
| "ch_GetKey (CEphemeralValue c) = Key c"
| "ch_GetKey (CTopic c) = Key c"
| "ch_GetKey (CUntrackedValue c) = Key c"
| "ch_GetKey (CBinaryOperatorAggregate c) = Key c"
| "ch_GetKey (CNamedBarrierValue c) = Key c"
| "ch_GetKey (CNamedBarrierValueAfterFinish c) = Key c"
| "ch_GetKey (CLastValueAfterFinish c) = Key c"
| "ch_GetKey (CReducerChannel c r) = ch_GetKey c"

fun ch_SetKey :: "string \<Rightarrow> channel \<Rightarrow> channel" where
  "ch_SetKey k (CLastValue c) = CLastValue (c\<lparr>Key := k\<rparr>)"
| "ch_SetKey k (CAnyValue c) = CAnyValue (c\<lparr>Key := k\<rparr>)"
| "ch_SetKey k (CEphemeralValue c) = CEphemeralValue (c\<lparr>Key := k\<rparr>)"
| "ch_SetKey k (CTopic c) = CTopic (c\<lparr>Key := k\<rparr>)"
| "ch_SetKey k (CUntrackedValue c) = CUntrackedValue (c\<lparr>Key := k\<rparr>)"
| "ch_SetKey k (CBinaryOperatorAggregate c) = CBinaryOperatorAggregate (c\<lparr>Key := k\<rparr>)"
| "ch_SetKey k (CNamedBarrierValue c) = CNamedBarrierValue (c\<lparr>Key := k\<rparr>)"
| "ch_SetKey k (CNamedBarrierValueAfterFinish c) = CNamedBarrierValueAfterFinish (c\<lparr>Key := k\<rparr>)"
| "ch_SetKey k (CLastValueAfterFinish c) = CLastValueAfterFinish (c\<lparr>Key := k\<rparr>)"
| "ch_SetKey k (CReducerChannel c r) = CReducerChannel (ch_SetKey k c) r"

text \<open>
  \<open>GetVersion\<close> is part of the interface. \<open>SetVersion\<close> is not: a \<open>ReducerChannel\<close> embeds the
  interface, so the method is not promoted and the engine's assertion for it fails (\<open>None\<close>).
\<close>

fun ch_GetVersion :: "channel \<Rightarrow> int" where
  "ch_GetVersion (CLastValue c) = BaseChannel_GetVersion c"
| "ch_GetVersion (CAnyValue c) = BaseChannel_GetVersion c"
| "ch_GetVersion (CEphemeralValue c) = BaseChannel_GetVersion c"
| "ch_GetVersion (CTopic c) = BaseChannel_GetVersion c"
| "ch_GetVersion (CUntrackedValue c) = BaseChannel_GetVersion c"
| "ch_GetVersion (CBinaryOperatorAggregate c) = BaseChannel_GetVersion c"
| "ch_GetVersion (CNamedBarrierValue c) = BaseChannel_GetVersion c"
| "ch_GetVersion (CNamedBarrierValueAfterFinish c) = BaseChannel_GetVersion c"
| "ch_GetVersion (CLastValueAfterFinish c) = BaseChannel_GetVersion c"
| "ch_GetVersion (CReducerChannel c r) = ch_GetVersion c"

fun ch_SetVersion :: "int \<Rightarrow> channel \<Rightarrow> channel option" where
  "ch_SetVersion v (CLastValue c) = Some (CLastValue (BaseChannel_SetVersion v c))"
| "ch_SetVersion v (CAnyValue c) = Some (CAnyValue (BaseChannel_SetVersion v c))"
| "ch_SetVersion v (CEphemeralValue c) = Some (CEphemeralValue (BaseChannel_SetVersion v c))"
| "ch_SetVersion v (CTopic c) = Some (CTopic (BaseChannel_SetVersion v c))"
| "ch_SetVersion v (CUntrackedValue c) = Some (CUntrackedValue (BaseChannel_SetVersion v c))"
| "ch_SetVersion v (CBinaryOperatorAggregate c) =
     Some (CBinaryOperatorAggregate (BaseChannel_SetVersion v c))"
| "ch_SetVersion v (CNamedBarrierValue c) = Some (CNamedBarrierValue (BaseChannel_SetVersion v c))"
| "ch_SetVersion v (CNamedBarrierValueAfterFinish c) =
     Some (CNamedBarrierValueAfterFinish (BaseChannel_SetVersion v c))"
| "ch_SetVersion v (CLastValueAfterFinish c) =
     Some (CLastValueAfterFinish (BaseChannel_SetVersion v c))"
| "ch_SetVersion v (CReducerChannel c r) = None"

fun ch_Get :: "channel \<Rightarrow> channel \<times> gval res" where
  "ch_Get (CLastValue c) = (CLastValue c, LastValue_Get c)"
| "ch_Get (CAnyValue c) = (CAnyValue c, AnyValue_Get c)"
| "ch_Get (CEphemeralValue c) = map_prod CEphemeralValue id (EphemeralValue_Get c)"
| "ch_Get (CTopic c) = (CTopic c, Topic_Get c)"
| "ch_Get (CUntrackedValue c) = (CUntrackedValue c, UntrackedValue_Get c)"
| "ch_Get (CBinaryOperatorAggregate c) =
     (CBinaryOperatorAggregate c, BinaryOperatorAggregate_Get c)"
| "ch_Get (CNamedBarrierValue c) = (CNamedBarrierValue c, NamedBarrierValue_Get c)"
| "ch_Get (CNamedBarrierValueAfterFinish c) =
     (CNamedBarrierValueAfterFinish c, NamedBarrierValueAfterFinish_Get c)"
| "ch_Get (CLastValueAfterFinish c) = (CLastValueAfterFinish c, LastValueAfterFinish_Get c)"
| "ch_Get (CReducerChannel c r) = map_prod (\<lambda>c'. CReducerChannel c' r) id (ch_Get c)"

fun ch_IsAvailable :: "channel \<Rightarrow> bool" where
  "ch_IsAvailable (CLastValue c) = LastValue_IsAvailable c"
| "ch_IsAvailable (CAnyValue c) = AnyValue_IsAvailable c"
| "ch_IsAvailable (CEphemeralValue c) = EphemeralValue_IsAvailable c"
| "ch_IsAvailable (CTopic c) = Topic_IsAvailable c"
| "ch_IsAvailable (CUntrackedValue c) = UntrackedValue_IsAvailable c"
| "ch_IsAvailable (CBinaryOperatorAggregate c) = BinaryOperatorAggregate_IsAvailable c"
| "ch_IsAvailable (CNamedBarrierValue c) = NamedBarrierValue_IsAvailable c"
| "ch_IsAvailable (CNamedBarrierValueAfterFinish c) = NamedBarrierValueAfterFinish_IsAvailable c"
| "ch_IsAvailable (CLastValueAfterFinish c) = LastValueAfterFinish_IsAvailable c"
| "ch_IsAvailable (CReducerChannel c r) = ch_IsAvailable c"

text \<open>
  A reducer channel folds the written values into the value it reads from the wrapped channel
  (reading an ephemeral channel clears it) and writes the one combined value.
\<close>

definition reduce_values :: "(gval \<Rightarrow> gval \<Rightarrow> gval) \<Rightarrow> gval res \<Rightarrow> gval list \<Rightarrow> gval" where
  "reduce_values reducer current values =
     (let combined = (case current of Inr cur \<Rightarrow> reducer cur (hd values) | Inl e \<Rightarrow> hd values)
      in foldl reducer combined (tl values))"

fun wrappers :: "channel \<Rightarrow> nat" where
  "wrappers (CReducerChannel c r) = Suc (wrappers c)"
| "wrappers c = 0"

lemma wrappers_Get [simp]: "wrappers (fst (ch_Get c)) = wrappers c"
  by (induction c) (auto simp: map_prod_def split: prod.splits)

function ch_Update :: "channel \<Rightarrow> gval list \<Rightarrow> channel \<times> bool res" where
  "ch_Update (CLastValue c) vs = map_prod CLastValue id (LastValue_Update c vs)"
| "ch_Update (CAnyValue c) vs = map_prod CAnyValue id (AnyValue_Update c vs)"
| "ch_Update (CEphemeralValue c) vs = map_prod CEphemeralValue id (EphemeralValue_Update c vs)"
| "ch_Update (CTopic c) vs = map_prod CTopic id (Topic_Update c vs)"
| "ch_Update (CUntrackedValue c) vs = map_prod CUntrackedValue id (UntrackedValue_Update c vs)"
| "ch_Update (CBinaryOperatorAggregate c) vs =
     map_prod CBinaryOperatorAggregate id (BinaryOperatorAggregate_Update c vs)"
| "ch_Update (CNamedBarrierValue c) vs =
     map_prod CNamedBarrierValue id (NamedBarrierValue_Update c vs)"
| "ch_Update (CNamedBarrierValueAfterFinish c) vs =
     map_prod CNamedBarrierValueAfterFinish id (NamedBarrierValueAfterFinish_Update c vs)"
| "ch_Update (CLastValueAfterFinish c) vs =
     map_prod CLastValueAfterFinish id (LastValueAfterFinish_Update c vs)"
| "ch_Update (CReducerChannel c r) vs =
     (if length vs = 0 then (CReducerChannel c r, Inr False)
      else map_prod (\<lambda>c'. CReducerChannel c' r) id
             (ch_Update (fst (ch_Get c)) [reduce_values r (snd (ch_Get c)) vs]))"
  by pat_completeness auto
termination
  by (relation "measure (wrappers \<circ> fst)") auto

fun ch_Copy :: "channel \<Rightarrow> channel" where
  "ch_Copy (CLastValue c) = CLastValue (LastValue_Copy c)"
| "ch_Copy (CAnyValue c) = CAnyValue (AnyValue_Copy c)"
| "ch_Copy (CEphemeralValue c) = CEphemeralValue (EphemeralValue_Copy c)"
| "ch_Copy (CTopic c) = CTopic (Topic_Copy c)"
| "ch_Copy (CUntrackedValue c) = CUntrackedValue (UntrackedValue_Copy c)"
| "ch_Copy (CBinaryOperatorAggregate c) = CBinaryOperatorAggregate (BinaryOperatorAggregate_Copy c)"
| "ch_Copy (CNamedBarrierValue c) = CNamedBarrierValue (NamedBarrierValue_Copy c)"
| "ch_Copy (CNamedBarrierValueAfterFinish c) =
     CNamedBarrierValueAfterFinish (NamedBarrierValueAfterFinish_Copy c)"
| "ch_Copy (CLastValueAfterFinish c) = CLastValueAfterFinish (LastValueAfterFinish_Copy c)"
| "ch_Copy (CReducerChannel c r) = CReducerChannel (ch_Copy c) r"

fun ch_Checkpoint :: "channel \<Rightarrow> gval" where
  "ch_Checkpoint (CLastValue c) = LastValue_Checkpoint c"
| "ch_Checkpoint (CAnyValue c) = AnyValue_Checkpoint c"
| "ch_Checkpoint (CEphemeralValue c) = EphemeralValue_Checkpoint c"
| "ch_Checkpoint (CTopic c) = Topic_Checkpoint c"
| "ch_Checkpoint (CUntrackedValue c) = UntrackedValue_Checkpoint c"
| "ch_Checkpoint (CBinaryOperatorAggregate c) = BinaryOperatorAggregate_Checkpoint c"
| "ch_Checkpoint (CNamedBarrierValue c) = NamedBarrierValue_Checkpoint c"
| "ch_Checkpoint (CNamedBarrierValueAfterFinish c) = NamedBarrierValueAfterFinish_Checkpoint c"
| "ch_Checkpoint (CLastValueAfterFinish c) = LastValueAfterFinish_Checkpoint c"
| "ch_Checkpoint (CReducerChannel c r) = ch_Checkpoint c"

fun ch_FromCheckpoint :: "channel \<Rightarrow> gval \<Rightarrow> channel" where
  "ch_FromCheckpoint (CLastValue c) cp = CLastValue (LastValue_FromCheckpoint c cp)"
| "ch_FromCheckpoint (CAnyValue c) cp = CAnyValue (AnyValue_FromCheckpoint c cp)"
| "ch_FromCheckpoint (CEphemeralValue c) cp = CEphemeralValue (EphemeralValue_FromCheckpoint c cp)"
| "ch_FromCheckpoint (CTopic c) cp = CTopic (Topic_FromCheckpoint c cp)"
| "ch_FromCheckpoint (CUntrackedValue c) cp = CUntrackedValue (UntrackedValue_FromCheckpoint c cp)"
| "ch_FromCheckpoint (CBinaryOperatorAggregate c) cp =
     CBinaryOperatorAggregate (BinaryOperatorAggregate_FromCheckpoint c cp)"
| "ch_FromCheckpoint (CNamedBarrierValue c) cp =
     CNamedBarrierValue (NamedBarrierValue_FromCheckpoint c cp)"
| "ch_FromCheckpoint (CNamedBarrierValueAfterFinish c) cp =
     CNamedBarrierValueAfterFinish (NamedBarrierValueAfterFinish_FromCheckpoint c cp)"
| "ch_FromCheckpoint (CLastValueAfterFinish c) cp =
     CLastValueAfterFinish (LastValueAfterFinish_FromCheckpoint c cp)"
| "ch_FromCheckpoint (CReducerChannel c r) cp = CReducerChannel (ch_FromCheckpoint c cp) r"

text \<open>\<open>Consume\<close> and \<open>Finish\<close> do nothing unless a barrier overrides them.\<close>

fun ch_Consume :: "channel \<Rightarrow> channel \<times> bool" where
  "ch_Consume (CNamedBarrierValue c) = map_prod CNamedBarrierValue id (NamedBarrierValue_Consume c)"
| "ch_Consume (CNamedBarrierValueAfterFinish c) =
     map_prod CNamedBarrierValueAfterFinish id (NamedBarrierValueAfterFinish_Consume c)"
| "ch_Consume (CLastValueAfterFinish c) =
     map_prod CLastValueAfterFinish id (LastValueAfterFinish_Consume c)"
| "ch_Consume (CReducerChannel c r) = map_prod (\<lambda>c'. CReducerChannel c' r) id (ch_Consume c)"
| "ch_Consume c = (c, False)"

fun ch_Finish :: "channel \<Rightarrow> channel \<times> bool" where
  "ch_Finish (CNamedBarrierValue c) = map_prod CNamedBarrierValue id (NamedBarrierValue_Finish c)"
| "ch_Finish (CNamedBarrierValueAfterFinish c) =
     map_prod CNamedBarrierValueAfterFinish id (NamedBarrierValueAfterFinish_Finish c)"
| "ch_Finish (CLastValueAfterFinish c) =
     map_prod CLastValueAfterFinish id (LastValueAfterFinish_Finish c)"
| "ch_Finish (CReducerChannel c r) = map_prod (\<lambda>c'. CReducerChannel c' r) id (ch_Finish c)"
| "ch_Finish c = (c, False)"

section \<open>Reducers and the channel of a field type\<close>

definition AddReducer :: "golib \<Rightarrow> gval \<Rightarrow> gval \<Rightarrow> gval" where
  "AddReducer lib current update =
     (case (current, update) of
        (GNil, _) \<Rightarrow> update
      | (GInt ci, GInt ui) \<Rightarrow> GInt (ci + ui)
      | (GFloat cf, GFloat uf) \<Rightarrow> GFloat (f64_add lib cf uf)
      | _ \<Rightarrow> update)"

definition AppendReducer :: "gval \<Rightarrow> gval \<Rightarrow> gval" where
  "AppendReducer current update =
     (case current of
        GNil \<Rightarrow> GSlice [update]
      | GSlice sl \<Rightarrow> GSlice (sl @ [update])
      | _ \<Rightarrow> GSlice [current, update])"

definition MergeReducer :: "gval \<Rightarrow> gval \<Rightarrow> gval" where
  "MergeReducer current update =
     (case (current, update) of
        (GNil, _) \<Rightarrow> update
      | (GMap currentMap, GMap updateMap) \<Rightarrow> GMap (mcopy (mcopy [] currentMap) updateMap)
      | _ \<Rightarrow> update)"

definition map_merge_operator :: "gval \<Rightarrow> gval \<Rightarrow> gval" where
  "map_merge_operator a b =
     (case (a, b) of
        (GMap aMap, GMap bMap) \<Rightarrow> GMap (mcopy (mcopy [] aMap) bMap)
      | _ \<Rightarrow> b)"

definition sized_numeric :: "string \<Rightarrow> bool" where
  "sized_numeric n \<longleftrightarrow>
     n \<in> set [''int8'', ''int16'', ''int32'', ''int64'', ''uint'', ''uint8'', ''uint16'',
             ''uint32'', ''uint64'', ''float32'']"

definition CreateReducerChannel ::
    "golib \<Rightarrow> string \<Rightarrow> gtype \<Rightarrow> (gval \<Rightarrow> gval \<Rightarrow> gval) option \<Rightarrow> channel" where
  "CreateReducerChannel lib fieldName fieldType reducer =
     (let num = CBinaryOperatorAggregate
                  (NewBinaryOperatorAggregate (zero_value fieldType) (IntAdd lib));
          channel =
            (case fieldType of
               TSlice t \<Rightarrow>
                 CBinaryOperatorAggregate (NewBinaryOperatorAggregate (GRType fieldType) ListAppend)
             | TArray n t \<Rightarrow>
                 CBinaryOperatorAggregate (NewBinaryOperatorAggregate (GRType fieldType) ListAppend)
             | TMap k v \<Rightarrow>
                 CBinaryOperatorAggregate
                   (NewBinaryOperatorAggregate (GRType fieldType) map_merge_operator)
             | TInt \<Rightarrow> num
             | TFloat64 \<Rightarrow> num
             | TNum n \<Rightarrow> (if sized_numeric n then num else CLastValue (NewLastValue (GRType fieldType)))
             | _ \<Rightarrow> CLastValue (NewLastValue (GRType fieldType)));
          keyed = ch_SetKey fieldName channel
      in case reducer of None \<Rightarrow> keyed | Some r \<Rightarrow> CReducerChannel keyed r)"

section \<open>The contract of a readable channel\<close>

text \<open>
  What the engine relies on when it reads a channel: \<open>Get\<close> fails exactly when the channel is not
  available, and the failure is the empty-channel error it skips. The invariant singles out the
  states for which the channel keeps that promise.
\<close>

locale readable_channel =
  fixes get :: "'c \<Rightarrow> 'c \<times> gval res"
    and avail :: "'c \<Rightarrow> bool"
    and inv :: "'c \<Rightarrow> bool"
  assumes get_empty: "inv c \<Longrightarrow> \<not> avail c \<Longrightarrow> snd (get c) = Inl EmptyChannelError"
    and get_avail: "inv c \<Longrightarrow> avail c \<Longrightarrow> \<exists>v. snd (get c) = Inr v"
begin

lemma get_cases:
  "inv c \<Longrightarrow> (avail c \<and> (\<exists>v. snd (get c) = Inr v)) \<or> (\<not> avail c \<and> snd (get c) = Inl EmptyChannelError)"
  using get_empty get_avail by blast

lemma avail_iff_get: "inv c \<Longrightarrow> avail c \<longleftrightarrow> (\<exists>v. snd (get c) = Inr v)"
  using get_cases by force

lemma get_error: "inv c \<Longrightarrow> snd (get c) = Inl e \<Longrightarrow> e = EmptyChannelError"
  using get_cases by fastforce

end

text \<open>
  A persistent channel: restoring a checkpoint onto a channel of the same configuration gives back
  what the checkpointed channel read and would checkpoint again.
\<close>

locale persistent_channel = readable_channel get avail inv
  for get :: "'c \<Rightarrow> 'c \<times> gval res" and avail :: "'c \<Rightarrow> bool" and inv :: "'c \<Rightarrow> bool" +
  fixes cp :: "'c \<Rightarrow> gval"
    and restore :: "'c \<Rightarrow> gval \<Rightarrow> 'c"
    and copy :: "'c \<Rightarrow> 'c"
    and same :: "'c \<Rightarrow> 'c \<Rightarrow> bool"
  assumes restore_get: "inv c \<Longrightarrow> same d c \<Longrightarrow> snd (get (restore d (cp c))) = snd (get c)"
    and restore_inv: "inv c \<Longrightarrow> same d c \<Longrightarrow> inv (restore d (cp c))"
    and restore_cp: "inv c \<Longrightarrow> same d c \<Longrightarrow> cp (restore d (cp c)) = cp c"
    and copy_get: "inv c \<Longrightarrow> snd (get (copy c)) = snd (get c)"
    and copy_inv: "inv c \<Longrightarrow> inv (copy c)"
    and copy_same: "inv c \<Longrightarrow> same (copy c) c"
begin

lemma restore_avail: "inv c \<Longrightarrow> same d c \<Longrightarrow> avail (restore d (cp c)) = avail c"
  using avail_iff_get restore_get restore_inv by metis

lemma copy_avail: "inv c \<Longrightarrow> avail (copy c) = avail c"
  using avail_iff_get copy_get copy_inv by metis

lemma restore_copy: "inv c \<Longrightarrow> snd (get (restore (copy c) (cp c))) = snd (get c)"
  by (rule restore_get) (auto intro: copy_same)

end

section \<open>The concrete channels keep the contract\<close>

lemmas last_value_defs = NewLastValue_def LastValue_Get_def LastValue_IsAvailable_def
  LastValue_Update_def LastValue_Copy_def LastValue_Checkpoint_def LastValue_FromCheckpoint_def
lemmas any_value_defs = NewAnyValue_def AnyValue_Get_def AnyValue_IsAvailable_def
  AnyValue_Update_def AnyValue_Copy_def AnyValue_Checkpoint_def AnyValue_FromCheckpoint_def
lemmas ephemeral_defs = NewEphemeralValue_def EphemeralValue_Get_def EphemeralValue_IsAvailable_def
  EphemeralValue_Update_def EphemeralValue_Copy_def EphemeralValue_Checkpoint_def
  EphemeralValue_FromCheckpoint_def
lemmas topic_defs = NewTopic_def Topic_Get_def Topic_IsAvailable_def
  Topic_Copy_def Topic_Checkpoint_def Topic_FromCheckpoint_def
lemmas untracked_defs = NewUntrackedValue_def UntrackedValue_Get_def UntrackedValue_IsAvailable_def
  UntrackedValue_Update_def UntrackedValue_Copy_def UntrackedValue_Checkpoint_def
  UntrackedValue_FromCheckpoint_def
lemmas binop_defs = NewBinaryOperatorAggregate_def BinaryOperatorAggregate_Get_def
  BinaryOperatorAggregate_IsAvailable_def BinaryOperatorAggregate_Copy_def
  BinaryOperatorAggregate_Checkpoint_def BinaryOperatorAggregate_FromCheckpoint_def
lemmas barrier_defs = NewNamedBarrierValue_def NamedBarrierValue_Get_def
  NamedBarrierValue_IsAvailable_def NamedBarrierValue_Copy_def NamedBarrierValue_Checkpoint_def
  NamedBarrierValue_FromCheckpoint_def
lemmas barrier_af_defs = NewNamedBarrierValueAfterFinish_def NamedBarrierValueAfterFinish_Get_def
  NamedBarrierValueAfterFinish_IsAvailable_def NamedBarrierValueAfterFinish_Copy_def
  NamedBarrierValueAfterFinish_Checkpoint_def NamedBarrierValueAfterFinish_FromCheckpoint_def
lemmas last_af_defs = NewLastValueAfterFinish_def LastValueAfterFinish_Get_def
  LastValueAfterFinish_IsAvailable_def LastValueAfterFinish_Update_def LastValueAfterFinish_Copy_def
  LastValueAfterFinish_Checkpoint_def LastValueAfterFinish_FromCheckpoint_def
  LastValueAfterFinish_Finish_def LastValueAfterFinish_Consume_def

abbreviation pure_get :: "('c \<Rightarrow> gval res) \<Rightarrow> 'c \<Rightarrow> 'c \<times> gval res" where
  "pure_get g \<equiv> (\<lambda>c. (c, g c))"

interpretation lastvalue: persistent_channel "pure_get LastValue_Get" LastValue_IsAvailable
  "\<lambda>c. True" LastValue_Checkpoint LastValue_FromCheckpoint LastValue_Copy "\<lambda>d c. True"
  by unfold_locales (auto simp: last_value_defs Let_def)

interpretation anyvalue: persistent_channel "pure_get AnyValue_Get" AnyValue_IsAvailable
  "\<lambda>c. True" AnyValue_Checkpoint AnyValue_FromCheckpoint AnyValue_Copy "\<lambda>d c. True"
  by unfold_locales (auto simp: any_value_defs Let_def)

text \<open>An unguarded ephemeral channel answers nil when empty, so the guard is its invariant.\<close>

interpretation ephemeral: persistent_channel EphemeralValue_Get EphemeralValue_IsAvailable
  ev_guard EphemeralValue_Checkpoint EphemeralValue_FromCheckpoint EphemeralValue_Copy
  "\<lambda>d c. ev_guard d = ev_guard c"
  by unfold_locales (auto simp: ephemeral_defs Let_def)

interpretation topic: persistent_channel "pure_get Topic_Get" Topic_IsAvailable
  "\<lambda>c. True" Topic_Checkpoint Topic_FromCheckpoint Topic_Copy "\<lambda>d c. True"
  by unfold_locales (auto simp: topic_defs Let_def)

text \<open>
  An aggregate restores the missing value as the zero value of its type, so a channel whose type
  has a zero value must not hold the missing value.
\<close>

definition binop_ok :: "BinaryOperatorAggregate \<Rightarrow> bool" where
  "binop_ok c \<longleftrightarrow> bo_value c \<noteq> GMissing \<or> createZeroValue (Typ c) = GMissing"

interpretation binop: persistent_channel "pure_get BinaryOperatorAggregate_Get"
  BinaryOperatorAggregate_IsAvailable binop_ok BinaryOperatorAggregate_Checkpoint
  BinaryOperatorAggregate_FromCheckpoint BinaryOperatorAggregate_Copy "\<lambda>d c. Typ d = Typ c"
  by unfold_locales (auto simp: binop_defs binop_ok_def Let_def)

interpretation barrier: persistent_channel "pure_get NamedBarrierValue_Get"
  NamedBarrierValue_IsAvailable "\<lambda>c. barrier_ok (nb_names c) (nb_seen c)"
  NamedBarrierValue_Checkpoint NamedBarrierValue_FromCheckpoint NamedBarrierValue_Copy
  "\<lambda>d c. nb_names d = nb_names c"
  by unfold_locales (auto simp: barrier_defs barrier_ok_def restore_seen_def Let_def)

interpretation barrier_af: persistent_channel "pure_get NamedBarrierValueAfterFinish_Get"
  NamedBarrierValueAfterFinish_IsAvailable "\<lambda>c. barrier_ok (nf_names c) (nf_seen c)"
  NamedBarrierValueAfterFinish_Checkpoint NamedBarrierValueAfterFinish_FromCheckpoint
  NamedBarrierValueAfterFinish_Copy "\<lambda>d c. nf_names d = nf_names c"
  by unfold_locales (auto simp: barrier_af_defs barrier_ok_def restore_seen_def Let_def)

text \<open>The other two are readable; by design or by omission they do not persist.\<close>

interpretation untracked: readable_channel "pure_get UntrackedValue_Get" UntrackedValue_IsAvailable
  "\<lambda>c. True"
  by unfold_locales (auto simp: untracked_defs)

interpretation last_af: readable_channel "pure_get LastValueAfterFinish_Get"
  LastValueAfterFinish_IsAvailable "\<lambda>c. True"
  by unfold_locales (auto simp: last_af_defs)

section \<open>The interface value keeps the contract\<close>

text \<open>
  The states in which an interface value is readable, the ones in which it is also persistent, and
  when two channels have the same configuration (what the constructor was called with).
\<close>

fun ch_readable :: "channel \<Rightarrow> bool" where
  "ch_readable (CEphemeralValue c) = ev_guard c"
| "ch_readable (CReducerChannel c r) = ch_readable c"
| "ch_readable c = True"

fun ch_ok :: "channel \<Rightarrow> bool" where
  "ch_ok (CEphemeralValue c) = ev_guard c"
| "ch_ok (CUntrackedValue c) = False"
| "ch_ok (CLastValueAfterFinish c) = False"
| "ch_ok (CBinaryOperatorAggregate c) = binop_ok c"
| "ch_ok (CNamedBarrierValue c) = barrier_ok (nb_names c) (nb_seen c)"
| "ch_ok (CNamedBarrierValueAfterFinish c) = barrier_ok (nf_names c) (nf_seen c)"
| "ch_ok (CReducerChannel c r) = ch_ok c"
| "ch_ok c = True"

fun ch_same :: "channel \<Rightarrow> channel \<Rightarrow> bool" where
  "ch_same (CLastValue d) ch = (case ch of CLastValue c \<Rightarrow> True | _ \<Rightarrow> False)"
| "ch_same (CAnyValue d) ch = (case ch of CAnyValue c \<Rightarrow> True | _ \<Rightarrow> False)"
| "ch_same (CEphemeralValue d) ch =
     (case ch of CEphemeralValue c \<Rightarrow> ev_guard d = ev_guard c | _ \<Rightarrow> False)"
| "ch_same (CTopic d) ch = (case ch of CTopic c \<Rightarrow> True | _ \<Rightarrow> False)"
| "ch_same (CUntrackedValue d) ch = (case ch of CUntrackedValue c \<Rightarrow> True | _ \<Rightarrow> False)"
| "ch_same (CBinaryOperatorAggregate d) ch =
     (case ch of CBinaryOperatorAggregate c \<Rightarrow> Typ d = Typ c | _ \<Rightarrow> False)"
| "ch_same (CNamedBarrierValue d) ch =
     (case ch of CNamedBarrierValue c \<Rightarrow> nb_names d = nb_names c | _ \<Rightarrow> False)"
| "ch_same (CNamedBarrierValueAfterFinish d) ch =
     (case ch of CNamedBarrierValueAfterFinish c \<Rightarrow> nf_names d = nf_names c | _ \<Rightarrow> False)"
| "ch_same (CLastValueAfterFinish d) ch = (case ch of CLastValueAfterFinish c \<Rightarrow> True | _ \<Rightarrow> False)"
| "ch_same (CReducerChannel d r) ch =
     (case ch of CReducerChannel c r' \<Rightarrow> ch_same d c | _ \<Rightarrow> False)"

lemma ch_ok_readable: "ch_ok c \<Longrightarrow> ch_readable c"
  by (induction c) auto

interpretation readable: readable_channel ch_Get ch_IsAvailable ch_readable
proof unfold_locales
  fix c :: channel
  assume "ch_readable c" and "\<not> ch_IsAvailable c"
  then show "snd (ch_Get c) = Inl EmptyChannelError"
    by (induction c)
      (auto simp: last_value_defs any_value_defs ephemeral_defs topic_defs untracked_defs binop_defs
        barrier_defs barrier_af_defs last_af_defs)
next
  fix c :: channel
  assume "ch_readable c" and "ch_IsAvailable c"
  then show "\<exists>v. snd (ch_Get c) = Inr v"
    by (induction c)
      (auto simp: last_value_defs any_value_defs ephemeral_defs topic_defs untracked_defs binop_defs
        barrier_defs barrier_af_defs last_af_defs)
qed

lemma ch_restore_get:
  "ch_ok c \<Longrightarrow> ch_same d c \<Longrightarrow> snd (ch_Get (ch_FromCheckpoint d (ch_Checkpoint c))) = snd (ch_Get c)"
  using lastvalue.restore_get anyvalue.restore_get ephemeral.restore_get topic.restore_get
    binop.restore_get barrier.restore_get barrier_af.restore_get
  by (induction d arbitrary: c) (auto split: channel.splits)

lemma ch_restore_ok: "ch_ok c \<Longrightarrow> ch_same d c \<Longrightarrow> ch_ok (ch_FromCheckpoint d (ch_Checkpoint c))"
  using ephemeral.restore_inv binop.restore_inv barrier.restore_inv barrier_af.restore_inv
  by (induction d arbitrary: c) (auto split: channel.splits)

lemma ch_restore_cp:
  "ch_ok c \<Longrightarrow> ch_same d c \<Longrightarrow>
     ch_Checkpoint (ch_FromCheckpoint d (ch_Checkpoint c)) = ch_Checkpoint c"
  using lastvalue.restore_cp anyvalue.restore_cp ephemeral.restore_cp topic.restore_cp
    binop.restore_cp barrier.restore_cp barrier_af.restore_cp
  by (induction d arbitrary: c) (auto split: channel.splits)

lemma ch_copy_get: "ch_ok c \<Longrightarrow> snd (ch_Get (ch_Copy c)) = snd (ch_Get c)"
  using lastvalue.copy_get anyvalue.copy_get ephemeral.copy_get topic.copy_get
    binop.copy_get barrier.copy_get barrier_af.copy_get
  by (induction c) auto

lemma ch_copy_ok: "ch_ok c \<Longrightarrow> ch_ok (ch_Copy c)"
  using ephemeral.copy_inv binop.copy_inv barrier.copy_inv barrier_af.copy_inv
  by (induction c) auto

lemma ch_copy_same: "ch_ok c \<Longrightarrow> ch_same (ch_Copy c) c"
  using ephemeral.copy_same binop.copy_same barrier.copy_same barrier_af.copy_same
  by (induction c) auto

interpretation chan: persistent_channel ch_Get ch_IsAvailable ch_ok ch_Checkpoint ch_FromCheckpoint
  ch_Copy ch_same
  by unfold_locales
    (auto intro: readable.get_empty readable.get_avail ch_ok_readable ch_restore_get ch_restore_ok
      ch_restore_cp ch_copy_get ch_copy_ok ch_copy_same)

end
