(* ===== verification/Registry.thy ===== *)
theory Registry
  imports Channel_Interface
begin

text \<open>
  The channel registry of \<open>channels/base.go\<close>: a map from names to channels. Its lock makes every
  method atomic. The loops that can fail half-way return the registry they leave behind next to
  the error, and \<open>GetValues\<close> returns the registry because reading an ephemeral channel clears it.
  The section at the end lifts the channel contract to whole registries: restoring a checkpoint
  gives back the values the checkpointed registry held.
\<close>

type_synonym registry = "channel gomap"

definition NewRegistry :: registry where
  "NewRegistry = []"

definition Registry_Register :: "registry \<Rightarrow> string \<Rightarrow> channel \<Rightarrow> registry" where
  "Registry_Register r name ch = mput name ch r"

definition Registry_Get :: "registry \<Rightarrow> string \<Rightarrow> channel option" where
  "Registry_Get r name = mget r name"

definition Registry_Remove :: "registry \<Rightarrow> string \<Rightarrow> registry" where
  "Registry_Remove r name = mdel name r"

definition Registry_Len :: "registry \<Rightarrow> nat" where
  "Registry_Len r = length r"

definition Registry_Names :: "registry \<Rightarrow> string list" where
  "Registry_Names r = mkeys r"

definition Registry_CreateCheckpoint :: "registry \<Rightarrow> gval gomap" where
  "Registry_CreateCheckpoint r =
     fold (\<lambda>(name, ch) checkpoint.
             if \<not> IsMissing (ch_Checkpoint ch) then mput name (ch_Checkpoint ch) checkpoint
             else checkpoint) r []"

fun Registry_RestoreFromCheckpoint :: "registry \<Rightarrow> gval gomap \<Rightarrow> registry \<times> unit res" where
  "Registry_RestoreFromCheckpoint r [] = (r, Inr ())"
| "Registry_RestoreFromCheckpoint r ((name, cp) # rest) =
     (case mget r name of
        None \<Rightarrow> (r, Inl (Errorf ''channel not found in registry'' []))
      | Some ch \<Rightarrow> Registry_RestoreFromCheckpoint (mput name (ch_FromCheckpoint ch cp) r) rest)"

fun Registry_UpdateChannels :: "registry \<Rightarrow> gval list gomap \<Rightarrow> registry \<times> unit res" where
  "Registry_UpdateChannels r [] = (r, Inr ())"
| "Registry_UpdateChannels r ((name, values) # rest) =
     (case mget r name of
        None \<Rightarrow> (r, Inl (ChannelNotFoundError name))
      | Some ch \<Rightarrow>
          (case ch_Update ch values of
             (ch', Inl err) \<Rightarrow> (mput name ch' r, Inl (Errorf ''failed to update channel'' [err]))
           | (ch', Inr b) \<Rightarrow> Registry_UpdateChannels (mput name ch' r) rest))"

fun GetValues_loop :: "registry \<Rightarrow> gval gomap \<Rightarrow> registry \<times> gval gomap res" where
  "GetValues_loop [] values = ([], Inr values)"
| "GetValues_loop ((name, ch) # rest) values =
     (case ch_Get ch of
        (ch', Inr val) \<Rightarrow> map_prod (Cons (name, ch')) id (GetValues_loop rest (mput name val values))
      | (ch', Inl err) \<Rightarrow>
          (if IsEmptyChannelError (Some err)
           then map_prod (Cons (name, ch')) id (GetValues_loop rest values)
           else ((name, ch') # rest, Inl (Errorf ''failed to get value from channel'' [err]))))"

definition Registry_GetValues :: "registry \<Rightarrow> registry \<times> gval gomap res" where
  "Registry_GetValues r = GetValues_loop r []"

section \<open>Reading a registry\<close>

text \<open>The values a registry shows: what each channel answers, skipping the empty ones.\<close>

definition reg_value :: "registry \<Rightarrow> string \<Rightarrow> gval option" where
  "reg_value r name =
     (case mget r name of
        None \<Rightarrow> None
      | Some ch \<Rightarrow> (case snd (ch_Get ch) of Inr v \<Rightarrow> Some v | Inl e \<Rightarrow> None))"

lemma ch_Get_error: "snd (ch_Get c) = Inl e \<Longrightarrow> e = EmptyChannelError"
  by (induction c)
    (auto simp: last_value_defs any_value_defs ephemeral_defs topic_defs untracked_defs binop_defs
      barrier_defs barrier_af_defs last_af_defs split: if_splits)

lemma GetValues_loop_spec:
  assumes "gomap_ok r" and "mdom r \<inter> mdom vals = {}"
  shows "\<exists>vs. snd (GetValues_loop r vals) = Inr vs \<and>
           (\<forall>k. mget vs k = (case reg_value r k of None \<Rightarrow> mget vals k | Some v \<Rightarrow> Some v))"
  using assms
proof (induction r vals rule: GetValues_loop.induct)
  case (1 vals)
  then show ?case by (simp add: reg_value_def)
next
  case (2 name ch rest vals)
  from "2.prems" have ok: "gomap_ok rest" and fresh: "name \<notin> mdom rest"
    by (auto simp: gomap_ok_def)
  then have nm: "mget rest name = None" by (simp add: map_of_eq_None_iff)
  obtain ch' res where g: "ch_Get ch = (ch', res)" by (cases "ch_Get ch")
  show ?case
  proof (cases res)
    case (Inl e)
    with g ch_Get_error [of ch e] have e: "e = EmptyChannelError" by simp
    have "mdom rest \<inter> mdom vals = {}" using "2.prems"(2) by auto
    from "2.IH"(1) [OF g [symmetric] Inl _ ok this] e obtain vs where
      "snd (GetValues_loop rest vals) = Inr vs"
      "\<forall>k. mget vs k = (case reg_value rest k of None \<Rightarrow> mget vals k | Some v \<Rightarrow> Some v)"
      by (auto simp: IsEmptyChannelError_iff)
    with g Inl e nm show ?thesis
      by (auto simp: IsEmptyChannelError_iff reg_value_def)
  next
    case (Inr v)
    have "mdom rest \<inter> mdom (mput name v vals) = {}"
      using "2.prems"(2) fresh by (auto simp: gomap)
    from "2.IH"(2) [OF g [symmetric] Inr ok this] obtain vs where
      "snd (GetValues_loop rest (mput name v vals)) = Inr vs"
      "\<forall>k. mget vs k = (case reg_value rest k of None \<Rightarrow> mget (mput name v vals) k | Some v \<Rightarrow> Some v)"
      by auto
    with g Inr nm show ?thesis
      by (auto simp: reg_value_def gomap split: option.splits)
  qed
qed

lemma GetValues_ok:
  "gomap_ok r \<Longrightarrow> \<exists>vs. snd (Registry_GetValues r) = Inr vs \<and> mget vs = reg_value r"
  using GetValues_loop_spec [of r "[]"]
  by (fastforce simp: Registry_GetValues_def fun_eq_iff split: option.splits)

section \<open>Checkpoints\<close>

lemma CreateCheckpoint_fold:
  assumes "gomap_ok r" and "mdom r \<inter> mdom cp = {}"
  shows "mget (fold (\<lambda>(name, ch) checkpoint.
             if \<not> IsMissing (ch_Checkpoint ch) then mput name (ch_Checkpoint ch) checkpoint
             else checkpoint) r cp) k =
         (case mget r k of
            None \<Rightarrow> mget cp k
          | Some ch \<Rightarrow> if ch_Checkpoint ch = GMissing then mget cp k else Some (ch_Checkpoint ch))"
  using assms
proof (induction r arbitrary: cp)
  case Nil
  then show ?case by simp
next
  case (Cons p r)
  obtain name ch where p: "p = (name, ch)" by (cases p)
  with Cons.prems have ok: "gomap_ok r" and fresh: "name \<notin> mdom r"
    by (auto simp: gomap_ok_def)
  then have nm: "mget r name = None" by (simp add: map_of_eq_None_iff)
  show ?case
  proof (cases "ch_Checkpoint ch = GMissing")
    case True
    with Cons.IH [OF ok, of cp] Cons.prems(2) p nm show ?thesis by auto
  next
    case False
    have "mdom r \<inter> mdom (mput name (ch_Checkpoint ch) cp) = {}"
      using Cons.prems(2) fresh by (auto simp: p gomap)
    with Cons.IH [OF ok, of "mput name (ch_Checkpoint ch) cp"] p nm False show ?thesis
      by (auto simp: gomap split: option.splits)
  qed
qed

lemma CreateCheckpoint_get:
  "gomap_ok r \<Longrightarrow> mget (Registry_CreateCheckpoint r) k =
     (case mget r k of
        None \<Rightarrow> None
      | Some ch \<Rightarrow> if ch_Checkpoint ch = GMissing then None else Some (ch_Checkpoint ch))"
  using CreateCheckpoint_fold [of r "[]" k]
  by (simp add: Registry_CreateCheckpoint_def split: option.splits)

lemma CreateCheckpoint_ok: "gomap_ok (Registry_CreateCheckpoint r)"
proof -
  have "gomap_ok cp \<Longrightarrow> gomap_ok (fold (\<lambda>(name, ch) checkpoint.
             if \<not> IsMissing (ch_Checkpoint ch) then mput name (ch_Checkpoint ch) checkpoint
             else checkpoint) r cp)" for cp
    by (induction r arbitrary: cp) auto
  then show ?thesis by (simp add: Registry_CreateCheckpoint_def)
qed

lemma Restore_spec:
  assumes "gomap_ok cp" and "mdom cp \<subseteq> mdom d"
  shows "\<exists>d'. Registry_RestoreFromCheckpoint d cp = (d', Inr ()) \<and> (gomap_ok d \<longrightarrow> gomap_ok d') \<and>
           (\<forall>k. mget d' k = (case mget d k of
                               None \<Rightarrow> None
                             | Some ch \<Rightarrow> (case mget cp k of None \<Rightarrow> Some ch
                                         | Some v \<Rightarrow> Some (ch_FromCheckpoint ch v))))"
  using assms
proof (induction d cp rule: Registry_RestoreFromCheckpoint.induct)
  case (1 r)
  then show ?case by (auto split: option.splits)
next
  case (2 r name cp rest)
  from "2.prems" obtain ch where ch: "mget r name = Some ch"
    by (cases "mget r name") (auto dest: mget_NoneD)
  let ?r = "mput name (ch_FromCheckpoint ch cp) r"
  from "2.prems" have ok: "gomap_ok rest" and fresh: "name \<notin> mdom rest"
    and sub: "mdom rest \<subseteq> mdom ?r"
    by (auto simp: gomap_ok_def gomap)
  then have nm: "mget rest name = None" by (simp add: map_of_eq_None_iff)
  from "2.IH" [OF ch ok sub] obtain d' where
    d': "Registry_RestoreFromCheckpoint ?r rest = (d', Inr ())" "gomap_ok ?r \<longrightarrow> gomap_ok d'"
    "\<forall>k. mget d' k = (case mget ?r k of None \<Rightarrow> None
          | Some ch \<Rightarrow> (case mget rest k of None \<Rightarrow> Some ch
                      | Some v \<Rightarrow> Some (ch_FromCheckpoint ch v)))"
    by blast
  then show ?case
    using ch nm by (intro exI [of _ d']) (auto simp: gomap split: option.splits)
qed

lemma Restore_unknown:
  "(\<exists>k \<in> mdom cp. k \<notin> mdom r) \<Longrightarrow> \<exists>r'. Registry_RestoreFromCheckpoint r cp =
     (r', Inl (Errorf ''channel not found in registry'' []))"
proof (induction r cp rule: Registry_RestoreFromCheckpoint.induct)
  case (1 r)
  then show ?case by simp
next
  case (2 r name cp rest)
  then show ?case
    by (cases "mget r name") (force simp: gomap dest: mget_SomeD)+
qed

section \<open>Restoring onto the same channels\<close>

text \<open>
  What a channel must satisfy (barriers have seen names they know only), the channels that wait for the end of
  their node again after a restore, and those whose checkpoint is the value they hold.
\<close>

fun ch_wf :: "channel \<Rightarrow> bool" where
  "ch_wf (CNamedBarrierValue c) = barrier_ok (nb_names c) (nb_seen c)"
| "ch_wf (CNamedBarrierValueAfterFinish c) = barrier_ok (nf_names c) (nf_seen c)"
| "ch_wf (CReducerChannel c r) = ch_wf c"
| "ch_wf c = True"

fun after_finish :: "channel \<Rightarrow> bool" where
  "after_finish (CLastValueAfterFinish c) = True"
| "after_finish (CReducerChannel c r) = after_finish c"
| "after_finish c = False"

fun holds_value :: "channel \<Rightarrow> bool" where
  "holds_value (CLastValue c) = True"
| "holds_value (CAnyValue c) = True"
| "holds_value (CEphemeralValue c) = True"
| "holds_value (CBinaryOperatorAggregate c) = True"
| "holds_value (CReducerChannel c r) = holds_value c"
| "holds_value c = False"

definition same_channels :: "registry \<Rightarrow> registry \<Rightarrow> bool" where
  "same_channels d r \<longleftrightarrow> gomap_ok d \<and> gomap_ok r \<and> mdom d = mdom r \<and>
     (\<forall>k c e. mget r k = Some c \<longrightarrow> mget d k = Some e \<longrightarrow> ch_same e c \<and> ch_wf c)"

lemma after_finish_get:
  "after_finish c \<Longrightarrow> ch_same e c \<Longrightarrow> snd (ch_Get (ch_FromCheckpoint e v)) = Inl EmptyChannelError"
  by (induction e arbitrary: c) (auto simp: last_af_defs Let_def split: channel.splits)

text \<open>A channel that holds a value takes over any other value in a restore.\<close>

lemma holds_value_get:
  "holds_value c \<Longrightarrow> ch_same e c \<Longrightarrow> v \<noteq> GMissing \<Longrightarrow> snd (ch_Get (ch_FromCheckpoint e v)) = Inr v"
  "holds_value c \<Longrightarrow> ch_Checkpoint c \<noteq> GMissing \<Longrightarrow> snd (ch_Get c) = Inr (ch_Checkpoint c)"
proof -
  show "holds_value c \<Longrightarrow> ch_same e c \<Longrightarrow> v \<noteq> GMissing \<Longrightarrow> snd (ch_Get (ch_FromCheckpoint e v)) = Inr v"
    by (induction e arbitrary: c)
      (auto simp: last_value_defs any_value_defs ephemeral_defs binop_defs Let_def split: channel.splits)
  show "holds_value c \<Longrightarrow> ch_Checkpoint c \<noteq> GMissing \<Longrightarrow> snd (ch_Get c) = Inr (ch_Checkpoint c)"
    by (induction c) (auto simp: last_value_defs any_value_defs ephemeral_defs binop_defs)
qed

lemma persistent_or_value:
  "ch_wf c \<Longrightarrow> ch_Checkpoint c \<noteq> GMissing \<Longrightarrow> ch_ok c \<or> holds_value c \<or> after_finish c"
  by (induction c) (auto simp: untracked_defs)

lemma restored_get:
  assumes "ch_wf c" and "ch_same e c" and "ch_Checkpoint c \<noteq> GMissing"
  shows "snd (ch_Get (ch_FromCheckpoint e (ch_Checkpoint c))) = (if after_finish c then Inl EmptyChannelError else snd (ch_Get c))"
  using persistent_or_value [OF assms(1,3)] after_finish_get [OF _ assms(2)] holds_value_get(1) [OF _ assms(2,3)]
    holds_value_get(2) [OF _ assms(3)] chan.restore_get [OF _ assms(2)]
  by auto

text \<open>
  Restoring a checkpoint whose values went through \<open>f\<close> (a copy, say): a channel without a checkpoint reads as in
  the registry restored onto, another one as the channel restored from its own entry.
\<close>

lemma restored_values:
  assumes same: "same_channels d r" and cp: "gomap_ok cp" "\<And>k. mget cp k = map_option f (mget (Registry_CreateCheckpoint r) k)"
  obtains d' where "Registry_RestoreFromCheckpoint d cp = (d', Inr ())" and "gomap_ok d'" and "mdom cp \<subseteq> mdom d"
    and "\<And>k. mget r k = None \<Longrightarrow> reg_value d' k = None"
    and "\<And>k c e. mget r k = Some c \<Longrightarrow> mget d k = Some e \<Longrightarrow> ch_Checkpoint c = GMissing \<Longrightarrow> reg_value d' k = reg_value d k"
    and "\<And>k c e. mget r k = Some c \<Longrightarrow> mget d k = Some e \<Longrightarrow> ch_Checkpoint c \<noteq> GMissing \<Longrightarrow>
      reg_value d' k = (case snd (ch_Get (ch_FromCheckpoint e (f (ch_Checkpoint c)))) of Inr v \<Rightarrow> Some v | Inl x \<Rightarrow> None)"
proof -
  from same have ok: "gomap_ok r" "gomap_ok d" and dom: "mdom d = mdom r" by (simp_all add: same_channels_def)
  note get = CreateCheckpoint_get [OF ok(1)]
  have sub: "mdom cp \<subseteq> mdom d"
  proof
    fix k
    assume "k \<in> mdom cp"
    then have "mget cp k \<noteq> None" by (simp add: map_of_eq_None_iff)
    then have "mget (Registry_CreateCheckpoint r) k \<noteq> None" by (simp add: cp(2))
    then have "mget r k \<noteq> None" by (cases "mget r k") (simp_all add: get)
    then show "k \<in> mdom d" by (simp add: dom map_of_eq_None_iff)
  qed
  obtain d' where "Registry_RestoreFromCheckpoint d cp = (d', Inr ()) \<and> (gomap_ok d \<longrightarrow> gomap_ok d') \<and>
    (\<forall>k. mget d' k = (case mget d k of None \<Rightarrow> None
        | Some ch \<Rightarrow> (case mget cp k of None \<Rightarrow> Some ch | Some v \<Rightarrow> Some (ch_FromCheckpoint ch v))))"
    using Restore_spec [OF cp(1) sub] ..
  note d' = this [THEN conjunct1] this [THEN conjunct2, THEN conjunct1] this [THEN conjunct2, THEN conjunct2, rule_format]
  show ?thesis
  proof (rule that [OF d'(1) _ sub])
    show "gomap_ok d'" using d'(2) ok(2) by simp
  next
    show "reg_value d' k = None" if "mget r k = None" for k
    proof -
      have "mget d k = None" using that by (simp add: dom map_of_eq_None_iff)
      then show ?thesis by (simp add: reg_value_def d'(3))
    qed
  qed (simp_all add: reg_value_def d'(3) cp(2) get)
qed

lemma same_channels_Some: "same_channels d r \<Longrightarrow> mget r k = Some c \<Longrightarrow> \<exists>e. mget d k = Some e \<and> ch_same e c \<and> ch_wf c"
  using mdom_get [of k d] mdom_get [of k r] by (auto simp: same_channels_def)

end
