(* ===== verification/Channel_Properties.thy ===== *)
theory Channel_Properties
  imports Registry
begin

text \<open>
  Properties of the channels and of the registry, over the definitions of the component theories:
  checkpoint round trips (through the interpretations of the channel contract), the opening of
  barriers over runs of updates and over the step relation of the finish-controlled barrier, and
  the exact result of an aggregate's update.
\<close>

section \<open>Runs of barrier updates\<close>

fun barrier_run :: "NamedBarrierValue \<Rightarrow> gval list list \<Rightarrow> NamedBarrierValue res" where
  "barrier_run c [] = Inr c"
| "barrier_run c (vs # vss) =
     (case NamedBarrierValue_Update c vs of
        (c', Inl e) \<Rightarrow> Inl e
      | (c', Inr u) \<Rightarrow> barrier_run c' vss)"

lemma barrier_run_spec:
  assumes "barrier_ok (nb_names c) (nb_seen c)" and "barrier_run c vss = Inr c'"
  shows "barrier_ok (nb_names c') (nb_seen c') \<and> nb_names c' = nb_names c \<and>
         (GStr ` mdom (nb_seen c') = GStr ` mdom (nb_seen c) \<union> set (concat vss))"
  using assms
proof (induction vss arbitrary: c)
  case Nil
  then show ?case by simp
next
  case (Cons vs vss)
  then obtain c1 u where up: "NamedBarrierValue_Update c vs = (c1, Inr u)"
    and run: "barrier_run c1 vss = Inr c'"
    by (auto split: prod.splits sum.splits)
  from barrier_update_spec [OF Cons.prems(1) up] obtain ks where
    ok: "barrier_ok (nb_names c1) (nb_seen c1)" and names: "nb_names c1 = nb_names c"
    and ks: "vs = map GStr ks" "mdom (nb_seen c1) = mdom (nb_seen c) \<union> set ks"
    by blast
  from Cons.IH [OF ok run] have "barrier_ok (nb_names c') (nb_seen c')"
    and "nb_names c' = nb_names c1"
    and "GStr ` mdom (nb_seen c') = GStr ` mdom (nb_seen c1) \<union> set (concat vss)"
    by blast+
  with names ks show ?case
    by (simp add: image_Un Un_assoc)
qed

section \<open>The finish-controlled barrier as a state machine\<close>

inductive af_step :: "NamedBarrierValueAfterFinish \<Rightarrow> NamedBarrierValueAfterFinish \<Rightarrow> bool" where
  update: "NamedBarrierValueAfterFinish_Update c vs = (c', r) \<Longrightarrow> af_step c c'"
| finish: "NamedBarrierValueAfterFinish_Finish c = (c', b) \<Longrightarrow> af_step c c'"
| consume: "NamedBarrierValueAfterFinish_Consume c = (c', b) \<Longrightarrow> af_step c c'"

inductive af_reachable :: "gval \<Rightarrow> string list \<Rightarrow> NamedBarrierValueAfterFinish \<Rightarrow> bool"
  for ty :: gval and ws :: "string list" where
  start: "af_reachable ty ws (NewNamedBarrierValueAfterFinish ty ws)"
| step: "af_reachable ty ws c \<Longrightarrow> af_step c c' \<Longrightarrow> af_reachable ty ws c'"

inductive_cases af_stepE: "af_step c c'"

definition af_inv :: "NamedBarrierValueAfterFinish \<Rightarrow> bool" where
  "af_inv c \<longleftrightarrow> barrier_ok (nf_names c) (nf_seen c) \<and>
     (nf_finished c \<longrightarrow> mdom (nf_seen c) = mdom (nf_names c))"

lemma barrier_loop_grows:
  "barrier_ok names seen \<Longrightarrow> mdom seen \<subseteq> mdom (fst (barrier_loop names u seen vs))"
proof (induction names u seen vs rule: barrier_loop.induct)
  case (1 names u seen)
  then show ?case by simp
next
  case (2 names u seen val vals)
  show ?case
  proof (cases "\<exists>name b. val = GStr name \<and> mget names name = Some b")
    case True
    then obtain name b where v: "val = GStr name" "mget names name = Some b" by blast
    with 2 show ?thesis
      by (cases "mget_or False seen name") (auto simp: gomap barrier_ok_mput)
  next
    case False
    then show ?thesis by (auto split: gval.splits option.splits)
  qed
qed

lemma af_inv_update:
  assumes "af_inv c" and "NamedBarrierValueAfterFinish_Update c vs = (c', r)"
  shows "af_inv c'"
proof (cases "vs = []")
  case True
  with assms show ?thesis by (auto simp: NamedBarrierValueAfterFinish_Update_def)
next
  case False
  obtain seen r' where loop: "barrier_loop (nf_names c) False (nf_seen c) vs = (seen, r')"
    by (cases "barrier_loop (nf_names c) False (nf_seen c) vs")
  with False assms(2) have c': "c' = c\<lparr>nf_seen := seen\<rparr>"
    by (auto simp: NamedBarrierValueAfterFinish_Update_def)
  from assms(1) have ok: "barrier_ok (nf_names c) (nf_seen c)" by (simp add: af_inv_def)
  from barrier_loop_ok [OF ok, of False vs] barrier_loop_grows [OF ok, of False vs] loop
  have ok': "barrier_ok (nf_names c) seen" and grow: "mdom (nf_seen c) \<subseteq> mdom seen" by auto
  from ok' have "mdom seen \<subseteq> mdom (nf_names c)" by (simp add: barrier_ok_def)
  with grow assms(1) have fin: "nf_finished c \<Longrightarrow> mdom seen = mdom (nf_names c)"
    by (metis af_inv_def subset_antisym)
  from ok' fin show ?thesis by (simp add: c' af_inv_def)
qed

lemma af_inv_step: "af_step c c' \<Longrightarrow> af_inv c \<Longrightarrow> af_inv c'"
proof (erule af_stepE)
  fix vs r
  assume "af_inv c" "NamedBarrierValueAfterFinish_Update c vs = (c', r)"
  then show "af_inv c'" by (rule af_inv_update)
next
  fix b
  assume "af_inv c" "NamedBarrierValueAfterFinish_Finish c = (c', b)"
  then show "af_inv c'"
    by (clarsimp simp: af_inv_def NamedBarrierValueAfterFinish_Finish_def namesMatchSeen_iff
        split: if_splits)
next
  fix b
  assume "af_inv c" "NamedBarrierValueAfterFinish_Consume c = (c', b)"
  then show "af_inv c'"
    by (auto simp: af_inv_def barrier_ok_def NamedBarrierValueAfterFinish_Consume_def
        split: if_splits)
qed

lemma af_reachable_inv: "af_reachable ty ws c \<Longrightarrow> af_inv c"
proof (induction rule: af_reachable.induct)
  case start
  show ?case
    by (auto simp: af_inv_def barrier_ok_def NewNamedBarrierValueAfterFinish_def name_set_ok)
next
  case (step c c')
  then show ?case by (blast intro: af_inv_step)
qed

section \<open>Aggregates\<close>

lemma bo_loop_no_overwrite:
  "\<forall>x \<in> set xs. isOverwrite x = None \<Longrightarrow> bo_loop f False v xs = (foldl f v xs, Inr True)"
  by (induction xs arbitrary: v) auto

lemma bo_loop_after_overwrite:
  "\<forall>x \<in> set xs. isOverwrite x = None \<Longrightarrow> bo_loop f True v xs = (v, Inr True)"
  by (induction xs) auto

lemma bo_loop_append:
  "\<forall>x \<in> set xs. isOverwrite x = None \<Longrightarrow>
     bo_loop f s v (xs @ ys) = bo_loop f s (if s then v else foldl f v xs) ys"
  by (induction xs arbitrary: v) auto

section \<open>Properties\<close>

text \<open>A checkpoint of a channel, restored onto any channel of the same configuration, gives a
  channel that answers Get exactly as the checkpointed one did, is available exactly when it was,
  and would write the same checkpoint again. It holds for every channel kind that persists
  (guarded ephemeral values, topics, aggregates, both barriers, reducer wrappers around them).\<close>

theorem channel_checkpoint_roundtrip:
  assumes "ch_ok c" and "ch_same d c"
  shows "snd (ch_Get (ch_FromCheckpoint d (ch_Checkpoint c))) = snd (ch_Get c) \<and>
         ch_IsAvailable (ch_FromCheckpoint d (ch_Checkpoint c)) = ch_IsAvailable c \<and>
         ch_Checkpoint (ch_FromCheckpoint d (ch_Checkpoint c)) = ch_Checkpoint c"
  using assms by (intro conjI chan.restore_get chan.restore_avail chan.restore_cp)

theorem channel_checkpoint_roundtrip_witness:
  "let c = CNamedBarrierValue (fst (NamedBarrierValue_Update (NewNamedBarrierValue GNil [''a'', ''b'']) [GStr ''a'']));
       d = CNamedBarrierValue (NewNamedBarrierValue GNil [''a'', ''b''])
   in ch_ok c \<and> ch_same d c \<and>
      ch_Checkpoint (ch_FromCheckpoint d (ch_Checkpoint c)) = GBoolMap [(''a'', True)]"
proof -
  let ?c = "CNamedBarrierValue (fst (NamedBarrierValue_Update (NewNamedBarrierValue GNil [''a'', ''b'']) [GStr ''a'']))"
  let ?d = "CNamedBarrierValue (NewNamedBarrierValue GNil [''a'', ''b''])"
  have ok: "ch_ok ?c" and same: "ch_same ?d ?c" and cp: "ch_Checkpoint ?c = GBoolMap [(''a'', True)]"
    by (simp_all add: barrier_defs NamedBarrierValue_Update_def name_set_def barrier_ok_def
        gomap_ok_def mget_or_def mcopy_def)
  show ?thesis
    using ok same cp channel_checkpoint_roundtrip [OF ok same] by (simp add: Let_def)
qed

text \<open>C9: Restoring the checkpoint of a registry onto a registry with the same channels succeeds, and every channel then
  reads as follows. A channel that wrote no checkpoint (an untracked value always, the others when they are
  empty) reads as in the registry restored onto. A last value that waits for the end of its node has lost that end: it reads
  as empty. Every other channel shows the value it showed when the checkpoint was taken.\<close>

theorem registry_checkpoint_roundtrip:
  assumes "same_channels d r"
  shows "\<exists>d' vs us ws. Registry_RestoreFromCheckpoint d (Registry_CreateCheckpoint r) = (d', Inr ()) \<and>
    snd (Registry_GetValues d') = Inr vs \<and> snd (Registry_GetValues d) = Inr us \<and> snd (Registry_GetValues r) = Inr ws \<and>
    (\<forall>k c. mget r k = Some c \<longrightarrow>
       mget vs k = (if ch_Checkpoint c = GMissing then mget us k else if after_finish c then None else mget ws k)) \<and>
    (\<forall>k. mget r k = None \<longrightarrow> mget vs k = None)"
proof -
  from assms have ok: "gomap_ok r" "gomap_ok d" by (simp_all add: same_channels_def)
  obtain d' where d': "Registry_RestoreFromCheckpoint d (Registry_CreateCheckpoint r) = (d', Inr ())" "gomap_ok d'"
    and none: "\<And>k. mget r k = None \<Longrightarrow> reg_value d' k = None"
    and miss: "\<And>k c e. mget r k = Some c \<Longrightarrow> mget d k = Some e \<Longrightarrow> ch_Checkpoint c = GMissing \<Longrightarrow> reg_value d' k = reg_value d k"
    and val: "\<And>k c e. mget r k = Some c \<Longrightarrow> mget d k = Some e \<Longrightarrow> ch_Checkpoint c \<noteq> GMissing \<Longrightarrow>
      reg_value d' k = (case snd (ch_Get (ch_FromCheckpoint e (ch_Checkpoint c))) of Inr v \<Rightarrow> Some v | Inl x \<Rightarrow> None)"
    by (rule restored_values [OF assms CreateCheckpoint_ok [of r], where f = "\<lambda>v. v"]) (auto simp: option.map_ident)
  have "reg_value d' k = (if ch_Checkpoint c = GMissing then reg_value d k else if after_finish c then None else reg_value r k)"
    if c: "mget r k = Some c" for k c
    using same_channels_Some [OF assms c] miss [OF c] val [OF c] restored_get [of c] c by (auto simp: reg_value_def)
  with d' none GetValues_ok [OF d'(2)] GetValues_ok [OF ok(1)] GetValues_ok [OF ok(2)] show ?thesis by auto
qed

theorem registry_checkpoint_roundtrip_witness:
  "let r = [(''x'', CLastValue (fst (LastValue_Update (NewLastValue GNil) [GInt 7]))),
            (''u'', CUntrackedValue (fst (UntrackedValue_Update (NewUntrackedValue GNil) [GInt 8])))];
       d = [(''x'', CLastValue (NewLastValue GNil)), (''u'', CUntrackedValue (NewUntrackedValue GNil))]
   in \<exists>d' vs. Registry_RestoreFromCheckpoint d (Registry_CreateCheckpoint r) = (d', Inr ()) \<and>
      snd (Registry_GetValues d') = Inr vs \<and> mget vs ''x'' = Some (GInt 7) \<and> mget vs ''u'' = None"
proof -
  let ?r = "[(''x'', CLastValue (fst (LastValue_Update (NewLastValue GNil) [GInt 7]))),
    (''u'', CUntrackedValue (fst (UntrackedValue_Update (NewUntrackedValue GNil) [GInt 8])))]"
  let ?d = "[(''x'', CLastValue (NewLastValue GNil)), (''u'', CUntrackedValue (NewUntrackedValue GNil))]"
  have same: "same_channels ?d ?r"
    by (auto simp: same_channels_def gomap_ok_def split: if_splits)
  have vals: "snd (Registry_GetValues ?d) = Inr []" "\<exists>ws. snd (Registry_GetValues ?r) = Inr ws \<and> mget ws ''x'' = Some (GInt 7)"
    by (simp_all add: Registry_GetValues_def last_value_defs untracked_defs IsEmptyChannelError_iff)
  have cps: "ch_Checkpoint (snd (?r ! 0)) = GInt 7" "ch_Checkpoint (snd (?r ! 1)) = GMissing"
    by (simp_all add: last_value_defs untracked_defs)
  from registry_checkpoint_roundtrip [OF same] obtain d' vs us ws
    where d': "Registry_RestoreFromCheckpoint ?d (Registry_CreateCheckpoint ?r) = (d', Inr ())" "snd (Registry_GetValues d') = Inr vs"
      and us: "snd (Registry_GetValues ?d) = Inr us" and ws: "snd (Registry_GetValues ?r) = Inr ws"
      and all: "\<forall>k c. mget ?r k = Some c \<longrightarrow>
        mget vs k = (if ch_Checkpoint c = GMissing then mget us k else if after_finish c then None else mget ws k)"
    by blast
  have "mget vs ''x'' = Some (GInt 7)" "mget vs ''u'' = None"
    using all [rule_format, of "''x''"] all [rule_format, of "''u''"] vals us ws cps by simp_all
  with d' show ?thesis by (auto simp: Let_def)
qed

text \<open>C10: A named barrier, from its creation on and after any run of successful updates, is
  available exactly when the set of values written so far is the set of the expected names,
  whatever the order, the grouping into updates and the repetitions.\<close>

theorem barrier_opens_iff_all_seen:
  assumes "barrier_run (NewNamedBarrierValue typ waitFor) vss = Inr c"
  shows "NamedBarrierValue_IsAvailable c \<longleftrightarrow> set (concat vss) = GStr ` set waitFor"
proof -
  let ?c0 = "NewNamedBarrierValue typ waitFor"
  have ok0: "barrier_ok (nb_names ?c0) (nb_seen ?c0)"
    and dom0: "mdom (nb_names ?c0) = set waitFor" and seen0: "nb_seen ?c0 = []"
    by (simp_all add: NewNamedBarrierValue_def barrier_ok_def name_set_ok mdom_name_set)
  from barrier_run_spec [OF ok0 assms] have ok: "barrier_ok (nb_names c) (nb_seen c)"
    and names: "mdom (nb_names c) = set waitFor"
    and seen: "GStr ` mdom (nb_seen c) = set (concat vss)"
    using dom0 seen0 by auto
  have "NamedBarrierValue_IsAvailable c \<longleftrightarrow> GStr ` mdom (nb_names c) = GStr ` mdom (nb_seen c)"
    unfolding NamedBarrierValue_IsAvailable_def namesMatchSeen_iff [OF ok]
    by (rule inj_image_eq_iff [symmetric]) (auto simp: inj_def)
  with names seen show ?thesis by (metis (no_types))
qed

theorem barrier_opens_iff_all_seen_witness:
  "\<exists>c. barrier_run (NewNamedBarrierValue GNil [''a'', ''b'']) [[GStr ''b''], [GStr ''a'', GStr ''b'']] = Inr c \<and>
       NamedBarrierValue_IsAvailable c"
proof -
  obtain c where run: "barrier_run (NewNamedBarrierValue GNil [''a'', ''b''])
      [[GStr ''b''], [GStr ''a'', GStr ''b'']] = Inr c"
    by (simp add: NewNamedBarrierValue_def NamedBarrierValue_Update_def name_set_def mget_or_def)
  from barrier_opens_iff_all_seen [OF run] have "NamedBarrierValue_IsAvailable c" by auto
  with run show ?thesis by blast
qed

text \<open>In every state the finish-controlled barrier can reach by updates (failed ones too),
  Finish and Consume calls, it is marked finished only when all expected names were received;
  so it is available exactly when it is marked finished.\<close>

theorem af_available_iff_finished:
  assumes "af_reachable typ waitFor c"
  shows "NamedBarrierValueAfterFinish_IsAvailable c = nf_finished c"
  using af_reachable_inv [OF assms]
  by (auto simp: af_inv_def NamedBarrierValueAfterFinish_IsAvailable_def namesMatchSeen_iff)

theorem af_available_iff_finished_witness:
  "let c = fst (NamedBarrierValueAfterFinish_Finish (NewNamedBarrierValueAfterFinish GNil []))
   in af_reachable GNil [] c \<and> nf_finished c \<and> NamedBarrierValueAfterFinish_IsAvailable c"
proof -
  let ?c = "fst (NamedBarrierValueAfterFinish_Finish (NewNamedBarrierValueAfterFinish GNil []))"
  have r: "af_reachable GNil [] ?c"
    by (rule af_reachable.step [OF af_reachable.start]) (rule af_step.finish [where b = True],
      simp add: NamedBarrierValueAfterFinish_Finish_def NewNamedBarrierValueAfterFinish_def
        name_set_def namesMatchSeen_def)
  have "nf_finished ?c"
    by (simp add: NamedBarrierValueAfterFinish_Finish_def NewNamedBarrierValueAfterFinish_def
        name_set_def namesMatchSeen_def)
  with r af_available_iff_finished [OF r] show ?thesis by (simp add: Let_def)
qed

text \<open>The update of an aggregate that holds a value: without overwrites it folds the operator
  over the written values in order; with one overwrite it stores exactly the overwriting value,
  whatever was written before and after it; with two overwrites it fails, keeping the first
  overwriting value.\<close>

theorem aggregate_update_result:
  assumes "bo_value c \<noteq> GMissing" and "\<forall>x \<in> set (xs @ ys @ zs). isOverwrite x = None"
    and "isOverwrite a = Some v" and "isOverwrite b = Some w"
  shows "BinaryOperatorAggregate_Update c xs =
           (if xs = [] then (c, Inr False)
            else (c\<lparr>bo_value := foldl (bo_operator c) (bo_value c) xs\<rparr>, Inr True)) \<and>
         BinaryOperatorAggregate_Update c (xs @ a # ys) = (c\<lparr>bo_value := v\<rparr>, Inr True) \<and>
         BinaryOperatorAggregate_Update c (xs @ a # ys @ b # zs) =
           (c\<lparr>bo_value := v\<rparr>, Inl (InvalidUpdateError OneOverwritePerStep))"
  using assms
  by (auto simp: BinaryOperatorAggregate_Update_def bo_loop_no_overwrite bo_loop_append
      bo_loop_after_overwrite)

theorem aggregate_update_result_witness:
  "let c = (NewBinaryOperatorAggregate GNil ListAppend)\<lparr>bo_value := GSlice []\<rparr>
   in BinaryOperatorAggregate_Update c ([GInt 1] @ GMap [(''__overwrite__'', GInt 5)] # [GInt 2]) =
        (c\<lparr>bo_value := GInt 5\<rparr>, Inr True)"
  using aggregate_update_result [of "(NewBinaryOperatorAggregate GNil ListAppend)\<lparr>bo_value := GSlice []\<rparr>"
      "[GInt 1]" "[GInt 2]" "[]" "GMap [(''__overwrite__'', GInt 5)]" "GInt 5" "GOverwriter GNil" GNil]
  by (simp add: isOverwrite_def Let_def)

end
