(* ===== verification/Deep_Copy.thy ===== *)
theory Deep_Copy
  imports Go_Base
begin

text \<open>
  \<open>deepCopy\<close>, \<open>deepCopyMap\<close> and \<open>deepCopySlice\<close> of \<open>checkpoint/checkpoint.go\<close>: the copy every
  checkpoint goes through. Maps and slices of \<open>interface{}\<close> are copied element by element; every other
  value makes a round trip through JSON, which turns numbers into \<open>float64\<close>, byte slices into
  base64 text, typed containers into generic ones, and a value that does not marshal into nil.
  \<open>json_rt\<close> is that round trip (\<open>None\<close>: \<open>Marshal\<close> fails, which fails the whole value). The
  lemmas show that a copy is a fixed point of copying: what is stored can be copied again and again
  without change.
\<close>

named_theorems json "the JSON round trip and the deep copy on each kind of value"

text \<open>The exponent field of a finite \<open>float64\<close> is not all ones; \<open>Marshal\<close> rejects the others.\<close>

definition finite_f64 :: "64 word \<Rightarrow> bool" where
  "finite_f64 x \<longleftrightarrow> (uint x div 2 ^ 52) mod 2 ^ 11 \<noteq> 2 ^ 11 - 1"

text \<open>The integer types \<open>Marshal\<close> prints in decimal; the other numeric types go to \<open>json_other\<close>.\<close>

definition integer_type :: "string \<Rightarrow> bool" where
  "integer_type n \<longleftrightarrow> n \<in> set [''int8'', ''int16'', ''int32'', ''int64'', ''uint'', ''uint8'', ''uint16'',
     ''uint32'', ''uint64'', ''uintptr'']"

definition machine_int :: "int \<Rightarrow> bool" where
  "machine_int n \<longleftrightarrow> - (2 ^ 63) \<le> n \<and> n < 2 ^ 64"

text \<open>
  \<open>Marshal\<close> writes the entries of a map in the order of their keys, and \<open>Unmarshal\<close> stores them one
  after the other, under the repaired keys.
\<close>

definition json_entries :: "golib \<Rightarrow> (string \<times> gval option) list \<Rightarrow> gval gomap option" where
  "json_entries L m =
     (case those (map (\<lambda>(k, v). map_option (Pair (json_utf8 L k)) v) (sort_key fst m)) of
        None \<Rightarrow> None
      | Some kvs \<Rightarrow> Some (mcopy [] kvs))"

primrec json_rt :: "golib \<Rightarrow> gval \<Rightarrow> gval option" where
  "json_rt L GNil = Some GNil"
| "json_rt L GMissing = Some (GMap [])"
| "json_rt L (GBool b) = Some (GBool b)"
| "json_rt L (GInt n) = Some (GFloat (f64_of_int L (sint n)))"
| "json_rt L (GFloat x) = (if finite_f64 x then Some (GFloat x) else None)"
| "json_rt L (GNum n x) =
     (if integer_type n \<and> machine_int x then Some (GFloat (f64_of_int L x))
      else json_other L (GNum n x))"
| "json_rt L (GStr s) = Some (GStr (json_utf8 L s))"
| "json_rt L (GBytes s) = Some (GStr (base64 L s))"
| "json_rt L (GSlice vs) = map_option GSlice (those (map (json_rt L) vs))"
| "json_rt L (GMap m) = map_option GMap (json_entries L (map (map_prod id (json_rt L)) m))"
| "json_rt L (GBoolMap m) =
     map_option GMap (json_entries L (map (map_prod id (\<lambda>b. Some (GBool b))) m))"
| "json_rt L (GOverwrite v) = map_option (\<lambda>w. GMap [(''Value'', w)]) (json_rt L v)"
| "json_rt L (GOverwriter v) = json_other L (GOverwriter v)"
| "json_rt L (GRType t) = json_other L (GRType t)"
| "json_rt L (GPtr v) = json_rt L v"
| "json_rt L (GStruct n fs) = json_other L (GStruct n fs)"
| "json_rt L (GZero t) = json_other L (GZero t)"
| "json_rt L (GEmpty t) = json_other L (GEmpty t)"
| "json_rt L (GTyped t v) = json_rt L v"
| "json_rt L (GTime n) = json_other L (GTime n)"

definition json_copy :: "golib \<Rightarrow> gval \<Rightarrow> gval" where
  "json_copy L v = (case json_rt L v of None \<Rightarrow> GNil | Some w \<Rightarrow> w)"

primrec deepCopy :: "golib \<Rightarrow> gval \<Rightarrow> gval" where
  "deepCopy L GNil = GNil"
| "deepCopy L (GMap m) = GMap (map (map_prod id (deepCopy L)) m)"
| "deepCopy L (GSlice vs) = GSlice (map (deepCopy L) vs)"
| "deepCopy L GMissing = json_copy L GMissing"
| "deepCopy L (GBool b) = json_copy L (GBool b)"
| "deepCopy L (GInt n) = json_copy L (GInt n)"
| "deepCopy L (GFloat x) = json_copy L (GFloat x)"
| "deepCopy L (GNum n x) = json_copy L (GNum n x)"
| "deepCopy L (GStr s) = json_copy L (GStr s)"
| "deepCopy L (GBytes s) = json_copy L (GBytes s)"
| "deepCopy L (GBoolMap m) = json_copy L (GBoolMap m)"
| "deepCopy L (GOverwrite v) = json_copy L (GOverwrite v)"
| "deepCopy L (GOverwriter v) = json_copy L (GOverwriter v)"
| "deepCopy L (GRType t) = json_copy L (GRType t)"
| "deepCopy L (GPtr v) = json_copy L (GPtr v)"
| "deepCopy L (GStruct n fs) = json_copy L (GStruct n fs)"
| "deepCopy L (GZero t) = json_copy L (GZero t)"
| "deepCopy L (GEmpty t) = json_copy L (GEmpty t)"
| "deepCopy L (GTyped t v) = json_copy L (GTyped t v)"
| "deepCopy L (GTime n) = json_copy L (GTime n)"

definition deepCopyMap :: "golib \<Rightarrow> gval gomap \<Rightarrow> gval gomap" where
  "deepCopyMap L src = map (map_prod id (deepCopy L)) src"

definition deepCopySlice :: "golib \<Rightarrow> gval list \<Rightarrow> gval list" where
  "deepCopySlice L vs = map (deepCopy L) vs"

section \<open>A copy is a fixed point of copying\<close>

text \<open>The values \<open>Unmarshal\<close> produces: nil, booleans, finite floats, repaired strings, slices and maps.\<close>

fun json_plain :: "golib \<Rightarrow> gval \<Rightarrow> bool" where
  "json_plain L GNil = True"
| "json_plain L (GBool b) = True"
| "json_plain L (GFloat x) = finite_f64 x"
| "json_plain L (GStr s) = (json_utf8 L s = s)"
| "json_plain L (GSlice vs) = list_all (json_plain L) vs"
| "json_plain L (GMap m) = list_all (\<lambda>(k, v). json_plain L v) m"
| "json_plain L v = False"

text \<open>
  What the standard library documents: UTF-8 repair leaves valid text alone, base64 text is ASCII,
  the \<open>float64\<close> nearest to a machine integer is finite, and whatever \<open>Unmarshal\<close> stores into an
  \<open>interface{}\<close> has one of the six JSON shapes.
\<close>

definition json_lib :: "golib \<Rightarrow> bool" where
  "json_lib L \<longleftrightarrow>
     (\<forall>s. json_utf8 L (json_utf8 L s) = json_utf8 L s) \<and>
     (\<forall>s. json_utf8 L (base64 L s) = base64 L s) \<and>
     (\<forall>n. machine_int n \<longrightarrow> finite_f64 (f64_of_int L n)) \<and>
     (\<forall>v w. json_other L v = Some w \<longrightarrow> json_plain L w)"

lemma those_Some: "those xs = Some ys \<longleftrightarrow> xs = map Some ys"
proof (induction xs arbitrary: ys)
  case Nil
  then show ?case by auto
next
  case (Cons x xs)
  then show ?case by (cases ys) (auto split: option.splits)
qed

lemma machine_int_sint: "machine_int (sint (n :: 64 word))"
  using sint_greater_eq [of n] sint_lt [of n] by (simp add: machine_int_def)

lemma in_mcopy: "p \<in> set (mcopy dst src) \<Longrightarrow> p \<in> set dst \<or> p \<in> set src"
  unfolding mcopy_def
proof (induction src arbitrary: dst)
  case Nil
  then show ?case by simp
next
  case (Cons q src)
  obtain k v where q: "q = (k, v)" by (cases q)
  have "p \<in> set (mput k v dst) \<or> p \<in> set src" using Cons.IH Cons.prems by (simp add: q)
  then show ?case using in_mput [of p k v dst] by (auto simp: q)
qed

lemma json_entries_values:
  assumes "json_entries L m = Some m'" and "(k, v) \<in> set m'"
  shows "\<exists>k0. (k0, Some v) \<in> set m"
proof -
  obtain kvs where those: "map (\<lambda>(k, v). map_option (Pair (json_utf8 L k)) v) (sort_key fst m) = map Some kvs"
    and m': "m' = mcopy [] kvs"
    using assms(1) by (auto simp: json_entries_def those_Some split: option.splits)
  from assms(2) have "(k, v) \<in> set kvs" using in_mcopy [of "(k, v)" "[]" kvs] by (simp add: m')
  then have "Some (k, v) \<in> set (map (\<lambda>(k, v). map_option (Pair (json_utf8 L k)) v) (sort_key fst m))"
    by (simp add: those)
  then obtain k0 o0 where "Some (k, v) = map_option (Pair (json_utf8 L k0)) o0" and "(k0, o0) \<in> set m"
    by auto
  then show ?thesis by (cases o0) auto
qed

lemma json_rt_plain: "json_lib L \<Longrightarrow> json_rt L v = Some w \<Longrightarrow> json_plain L w"
proof (induction v arbitrary: w)
  case (GSlice vs)
  then obtain ws where w: "w = GSlice ws" and eq: "map (json_rt L) vs = map Some ws"
    by (auto simp: those_Some)
  have "json_plain L x" if "x \<in> set ws" for x
  proof -
    from that have "Some x \<in> set (map (json_rt L) vs)" by (simp add: eq)
    then obtain v where "v \<in> set vs" and "json_rt L v = Some x" by auto
    then show ?thesis using GSlice.IH GSlice.prems(1) by blast
  qed
  then show ?case by (simp add: w list_all_iff)
next
  case (GMap m)
  then obtain m' where w: "w = GMap m'"
    and ent: "json_entries L (map (map_prod id (json_rt L)) m) = Some m'" by auto
  have "json_plain L v" if "(k, v) \<in> set m'" for k v
    using json_entries_values [OF ent that] GMap.IH GMap.prems(1) by fastforce
  then show ?case by (auto simp: w list_all_iff)
next
  case (GBoolMap m)
  then obtain m' where w: "w = GMap m'"
    and ent: "json_entries L (map (map_prod id (\<lambda>b. Some (GBool b))) m) = Some m'" by auto
  have "json_plain L v" if "(k, v) \<in> set m'" for k v
    using json_entries_values [OF ent that] by auto
  then show ?case by (auto simp: w list_all_iff)
qed (auto simp: json_lib_def machine_int_sint split: if_splits)

lemma deepCopy_plain: "json_plain L v \<Longrightarrow> deepCopy L v = v"
  by (induction v)
    (auto simp: json_copy_def list_all_iff intro!: map_idI split: prod.splits; fastforce)+

lemma json_copy_fixed: "json_lib L \<Longrightarrow> deepCopy L (json_copy L v) = json_copy L v"
  using json_rt_plain [of L v] deepCopy_plain [of L]
  by (auto simp: json_copy_def split: option.splits)

lemma deepCopy_idem [json]: "json_lib L \<Longrightarrow> deepCopy L (deepCopy L v) = deepCopy L v"
proof (induction v)
  case (GMap m)
  then show ?case by fastforce
qed (auto simp: json_copy_fixed)

lemma deepCopy_not_missing: "json_lib L \<Longrightarrow> deepCopy L v \<noteq> GMissing"
proof -
  assume lib: "json_lib L"
  have "json_copy L w \<noteq> GMissing" for w
    using json_rt_plain [OF lib, of w] by (auto simp: json_copy_def split: option.split)
  then show ?thesis by (cases v) simp_all
qed

lemma deepCopyMap_idem [json]: "json_lib L \<Longrightarrow> deepCopyMap L (deepCopyMap L m) = deepCopyMap L m"
  by (auto simp: deepCopyMap_def deepCopy_idem)

lemma mget_deepCopyMap [json]: "mget (deepCopyMap L m) k = map_option (deepCopy L) (mget m k)"
  by (induction m) (auto simp: deepCopyMap_def)

lemma mdom_deepCopyMap [json]: "mkeys (deepCopyMap L m) = mkeys m"
  by (auto simp: deepCopyMap_def)

lemma gomap_ok_deepCopyMap [json]: "gomap_ok (deepCopyMap L m) \<longleftrightarrow> gomap_ok m"
  by (simp add: gomap_ok_def json)

end
