(* ===== verification/Run_Config.thy ===== *)
theory Run_Config
  imports Graph_Errors
begin

text \<open>
  The run configuration of \<open>types/config.go\<close>. A nil Go map is \<open>None\<close>: reading it finds nothing,
  writing it panics, which only \<open>Merge\<close> can do (it writes the metadata map without a nil check).
\<close>

datatype durability =
    DurabilityUnset | DurabilitySync | DurabilityAsync | DurabilityExit | DurabilityOther string

record RunnableConfig =
  Configurable :: "gval gomap option"
  RecursionLimit :: int
  Tags :: "string list"
  CfgMetadata :: "gval gomap option"
  RunID :: string
  ThreadID :: string
  Durability :: durability

definition DefaultRecursionLimit :: int where
  "DefaultRecursionLimit = 50"

definition NewRunnableConfig :: RunnableConfig where
  "NewRunnableConfig =
     \<lparr>Configurable = Some [], RecursionLimit = DefaultRecursionLimit, Tags = [],
      CfgMetadata = Some [], RunID = [], ThreadID = [], Durability = DurabilitySync\<rparr>"

definition Config_Get :: "RunnableConfig \<Rightarrow> string \<Rightarrow> gval option" where
  "Config_Get c key = (case Configurable c of None \<Rightarrow> None | Some m \<Rightarrow> mget m key)"

definition Config_Set :: "string \<Rightarrow> gval \<Rightarrow> RunnableConfig \<Rightarrow> RunnableConfig" where
  "Config_Set key value c =
     (let m = (case Configurable c of None \<Rightarrow> [] | Some m \<Rightarrow> m)
      in c\<lparr>Configurable := Some (mput key value m)\<rparr>)"

definition Config_Merge :: "RunnableConfig \<Rightarrow> RunnableConfig option \<Rightarrow> RunnableConfig res" where
  "Config_Merge c other =
     (case other of
        None \<Rightarrow> Inr c
      | Some ot \<Rightarrow>
          (let c1 = fold (\<lambda>(k, v) c. Config_Set k v c)
                      (case Configurable ot of None \<Rightarrow> [] | Some m \<Rightarrow> m) c;
               c2 = (if RecursionLimit ot > 0 then c1\<lparr>RecursionLimit := RecursionLimit ot\<rparr> else c1);
               c3 = c2\<lparr>Tags := Tags c2 @ Tags ot\<rparr>;
               om = (case CfgMetadata ot of None \<Rightarrow> [] | Some m \<Rightarrow> m);
               finish = (\<lambda>c4.
                 let c5 = (if RunID ot \<noteq> [] then c4\<lparr>RunID := RunID ot\<rparr> else c4);
                     c6 = (if ThreadID ot \<noteq> [] then c5\<lparr>ThreadID := ThreadID ot\<rparr> else c5)
                 in if Durability ot \<noteq> DurabilityUnset \<and> Durability ot \<noteq> DurabilitySync
                    then c6\<lparr>Durability := Durability ot\<rparr> else c6)
           in case CfgMetadata c3 of
                Some m \<Rightarrow> Inr (finish (c3\<lparr>CfgMetadata := Some (mcopy m om)\<rparr>))
              | None \<Rightarrow>
                  (if om = [] then Inr (finish c3)
                   else Inl (GoPanic ''assignment to entry in nil map''))))"

definition WithConfigurable :: "gval gomap option \<Rightarrow> RunnableConfig \<Rightarrow> RunnableConfig" where
  "WithConfigurable configurable c = c\<lparr>Configurable := configurable\<rparr>"

definition WithRecursionLimit :: "int \<Rightarrow> RunnableConfig \<Rightarrow> RunnableConfig" where
  "WithRecursionLimit limit c = c\<lparr>RecursionLimit := limit\<rparr>"

definition WithTags :: "string list \<Rightarrow> RunnableConfig \<Rightarrow> RunnableConfig" where
  "WithTags tags c = c\<lparr>Tags := tags\<rparr>"

definition WithMetadata :: "gval gomap option \<Rightarrow> RunnableConfig \<Rightarrow> RunnableConfig" where
  "WithMetadata metadata c = c\<lparr>CfgMetadata := metadata\<rparr>"

definition WithRunID :: "string \<Rightarrow> RunnableConfig \<Rightarrow> RunnableConfig" where
  "WithRunID runID c = c\<lparr>RunID := runID\<rparr>"

definition WithThreadID :: "string \<Rightarrow> RunnableConfig \<Rightarrow> RunnableConfig" where
  "WithThreadID threadID c = c\<lparr>ThreadID := threadID\<rparr>"

definition WithDurability :: "durability \<Rightarrow> RunnableConfig \<Rightarrow> RunnableConfig" where
  "WithDurability durability c = c\<lparr>Durability := durability\<rparr>"

definition Config_GetOrEmpty :: "RunnableConfig \<Rightarrow> string \<Rightarrow> string" where
  "Config_GetOrEmpty c key =
     (case Configurable c of
        None \<Rightarrow> []
      | Some m \<Rightarrow> (case mget m key of Some (GStr s) \<Rightarrow> s | _ \<Rightarrow> []))"

fun PatchConfig :: "RunnableConfig option \<Rightarrow> (RunnableConfig \<Rightarrow> RunnableConfig) option list \<Rightarrow> RunnableConfig" where
  "PatchConfig config patchers =
     fold (\<lambda>p c. case p of None \<Rightarrow> c | Some f \<Rightarrow> f c) patchers
       (case config of None \<Rightarrow> NewRunnableConfig | Some c \<Rightarrow> c)"

definition EnsureConfig :: "RunnableConfig option \<Rightarrow> RunnableConfig" where
  "EnsureConfig config = (case config of None \<Rightarrow> NewRunnableConfig | Some c \<Rightarrow> c)"

fun merge_all :: "RunnableConfig \<Rightarrow> RunnableConfig option list \<Rightarrow> RunnableConfig res" where
  "merge_all acc [] = Inr acc"
| "merge_all acc (c # cs) = (case Config_Merge acc c of Inl e \<Rightarrow> Inl e | Inr acc' \<Rightarrow> merge_all acc' cs)"

definition MergeConfigs :: "RunnableConfig option list \<Rightarrow> RunnableConfig res" where
  "MergeConfigs configs = merge_all NewRunnableConfig configs"

section \<open>Lemmas\<close>

lemma Config_Get_Set: "Config_Get (Config_Set k v c) k' = (if k' = k then Some v else Config_Get c k')"
  by (auto simp: Config_Get_def Config_Set_def Let_def gomap split: option.splits)

lemma fold_Set_fields:
  "RecursionLimit (fold (\<lambda>(k, v) c. Config_Set k v c) m c) = RecursionLimit c \<and>
   Tags (fold (\<lambda>(k, v) c. Config_Set k v c) m c) = Tags c \<and>
   CfgMetadata (fold (\<lambda>(k, v) c. Config_Set k v c) m c) = CfgMetadata c \<and>
   RunID (fold (\<lambda>(k, v) c. Config_Set k v c) m c) = RunID c \<and>
   ThreadID (fold (\<lambda>(k, v) c. Config_Set k v c) m c) = ThreadID c \<and>
   Durability (fold (\<lambda>(k, v) c. Config_Set k v c) m c) = Durability c"
  by (induction m arbitrary: c) (auto simp: Config_Set_def Let_def)

lemma fold_Set_get:
  "gomap_ok m \<Longrightarrow> Config_Get (fold (\<lambda>(k, v) c. Config_Set k v c) m c) = Config_Get c ++ mget m"
proof (induction m arbitrary: c)
  case Nil
  then show ?case by (simp add: map_add_def)
next
  case (Cons p m)
  obtain k v where p: "p = (k, v)" by (cases p)
  with Cons.prems have ok: "gomap_ok m" and "mget m k = None"
    by (auto simp: gomap_ok_def map_of_eq_None_iff)
  then show ?case
    using Cons.IH [OF ok, of "Config_Set k v c"]
    by (auto simp: p fun_eq_iff map_add_def Config_Get_Set split: option.splits)
qed

text \<open>The configurable values of a merge: the other configuration wins on its keys.\<close>

lemma Config_Merge_get:
  assumes "Config_Merge c (Some ot) = Inr c'"
    and "\<And>m. Configurable ot = Some m \<Longrightarrow> gomap_ok m"
  shows "Config_Get c' = Config_Get c ++ Config_Get ot"
proof -
  let ?m = "case Configurable ot of None \<Rightarrow> [] | Some m \<Rightarrow> m"
  have ok: "gomap_ok ?m" using assms(2) by (auto split: option.splits)
  have ot: "mget ?m = Config_Get ot"
    by (auto simp: Config_Get_def fun_eq_iff split: option.splits)
  have "Configurable c' = Configurable (fold (\<lambda>(k, v) c. Config_Set k v c) ?m c)"
    using assms(1) by (auto simp: Config_Merge_def Let_def split: option.splits if_splits)
  then have "Config_Get c' = Config_Get (fold (\<lambda>(k, v) c. Config_Set k v c) ?m c)"
    by (simp add: Config_Get_def fun_eq_iff)
  with fold_Set_get [OF ok, of c] ot show ?thesis by simp
qed

lemma Config_Merge_total: "CfgMetadata c \<noteq> None \<Longrightarrow> \<exists>c'. Config_Merge c ot = Inr c' \<and> CfgMetadata c' \<noteq> None"
  using fold_Set_fields
  by (auto simp: Config_Merge_def Let_def split: option.splits)

lemma MergeConfigs_total: "\<exists>c. MergeConfigs cs = Inr c"
proof -
  have "CfgMetadata acc \<noteq> None \<Longrightarrow> \<exists>c. merge_all acc cs = Inr c" for acc
  proof (induction cs arbitrary: acc)
    case Nil
    then show ?case by simp
  next
    case (Cons c cs)
    then show ?case using Config_Merge_total [of acc c] by auto
  qed
  then show ?thesis by (simp add: MergeConfigs_def NewRunnableConfig_def)
qed

end
