(* ===== verification/Checkpoints.thy ===== *)
theory Checkpoints
  imports Deep_Copy Run_Config
begin

text \<open>
  Versioned checkpoints, \<open>checkpoint/checkpoint.go\<close>: the checkpoint record with its operations, its
  map form (\<open>ToMap\<close>, \<open>FromMap\<close>), and the \<open>CheckpointManager\<close> with optimistic concurrency
  control. \<open>uuid.New\<close> and \<open>time.Now\<close> are arguments (a function of the number of the call where an
  operation calls them several times). The mutex makes every operation atomic, so an operation is a
  function of the manager's state. The manager is a value here: \<open>Save\<close> keeps the caller's pointer in
  the code, so the model is faithful for callers that do not write to a checkpoint they have saved.
\<close>

section \<open>Data\<close>

record CheckpointMetadata =
  MdID :: string
  MdParentID :: string
  MdThreadID :: string
  MdStep :: int
  MdCreatedAt :: int
  MdSource :: string
  MdMetadata :: "gval gomap"

definition SourceNode :: string where
  "SourceNode = ''node''"

text \<open>The zero \<open>time.Time\<close>, in nanoseconds from the epoch.\<close>

definition zero_time :: int where
  "zero_time = - 62135596800000000000"

record PendingWrite =
  PwChannel :: string
  PwValue :: gval
  PwOverwrite :: bool
  PwNode :: string
  PwTimestamp :: int
  PwTaskID :: string

definition NewPendingWrite :: "int \<Rightarrow> string \<Rightarrow> gval \<Rightarrow> bool \<Rightarrow> string \<Rightarrow> string \<Rightarrow> PendingWrite" where
  "NewPendingWrite now channel value overwrite node taskID =
     \<lparr>PwChannel = channel, PwValue = value, PwOverwrite = overwrite, PwNode = node,
      PwTimestamp = now, PwTaskID = taskID\<rparr>"

record Checkpoint =
  CpID :: string
  CpVersion :: int
  CpParentID :: string
  CpChannelVersions :: "int gomap"
  CpVersionsSeen :: "int gomap gomap"
  CpState :: "gval gomap"
  CpPendingWrites :: "PendingWrite list"
  CpMetadata :: CheckpointMetadata

definition NewCheckpoint :: "string \<Rightarrow> int \<Rightarrow> string \<Rightarrow> int \<Rightarrow> Checkpoint" where
  "NewCheckpoint uuid now threadID step =
     \<lparr>CpID = uuid, CpVersion = 0, CpParentID = [], CpChannelVersions = [], CpVersionsSeen = [],
      CpState = [], CpPendingWrites = [],
      CpMetadata =
        \<lparr>MdID = uuid, MdParentID = [], MdThreadID = threadID, MdStep = step, MdCreatedAt = now,
         MdSource = SourceNode, MdMetadata = []\<rparr>\<rparr>"

definition Clone :: "golib \<Rightarrow> string \<Rightarrow> int \<Rightarrow> Checkpoint \<Rightarrow> Checkpoint" where
  "Clone L newID now c =
     \<lparr>CpID = newID, CpVersion = CpVersion c, CpParentID = CpID c,
      CpChannelVersions = mcopy [] (CpChannelVersions c),
      CpVersionsSeen = mcopy [] (map (map_prod id (mcopy [])) (CpVersionsSeen c)),
      CpState = mcopy [] (deepCopyMap L (CpState c)),
      CpPendingWrites = map (\<lambda>pw. pw\<lparr>PwValue := deepCopy L (PwValue pw)\<rparr>) (CpPendingWrites c),
      CpMetadata =
        \<lparr>MdID = newID, MdParentID = CpID c, MdThreadID = MdThreadID (CpMetadata c),
         MdStep = MdStep (CpMetadata c), MdCreatedAt = now, MdSource = MdSource (CpMetadata c),
         MdMetadata = mcopy [] (deepCopyMap L (MdMetadata (CpMetadata c)))\<rparr>\<rparr>"

definition IncrementChannel :: "string \<Rightarrow> Checkpoint \<Rightarrow> Checkpoint" where
  "IncrementChannel channel c =
     c\<lparr>CpChannelVersions := mput channel (mget_or 0 (CpChannelVersions c) channel + 1) (CpChannelVersions c)\<rparr>"

definition MarkSeen :: "string \<Rightarrow> string \<Rightarrow> Checkpoint \<Rightarrow> Checkpoint" where
  "MarkSeen node channel c =
     (let seen = mget_or [] (CpVersionsSeen c) node
      in c\<lparr>CpVersionsSeen :=
             mput node (mput channel (mget_or 0 (CpChannelVersions c) channel) seen) (CpVersionsSeen c)\<rparr>)"

definition HasSeen :: "Checkpoint \<Rightarrow> string \<Rightarrow> string \<Rightarrow> bool" where
  "HasSeen c node channel =
     (case mget (CpVersionsSeen c) node of
        None \<Rightarrow> False
      | Some versions \<Rightarrow>
          (case mget versions channel of
             None \<Rightarrow> False
           | Some version \<Rightarrow> version = mget_or 0 (CpChannelVersions c) channel))"

definition AddPendingWrite :: "string \<Rightarrow> gval \<Rightarrow> bool \<Rightarrow> string \<Rightarrow> Checkpoint \<Rightarrow> Checkpoint" where
  "AddPendingWrite channel value overwrite node c =
     c\<lparr>CpPendingWrites := CpPendingWrites c @
         [\<lparr>PwChannel = channel, PwValue = value, PwOverwrite = overwrite, PwNode = node,
           PwTimestamp = zero_time, PwTaskID = []\<rparr>]\<rparr>"

definition ClearPendingWrites :: "Checkpoint \<Rightarrow> Checkpoint" where
  "ClearPendingWrites c = c\<lparr>CpPendingWrites := []\<rparr>"

section \<open>The map form\<close>

definition int_map :: "int gomap \<Rightarrow> gval" where
  "int_map m = GTyped (TMap TString TInt) (GMap (map (map_prod id (\<lambda>n. GInt (word_of_int n))) (mcopy [] m)))"

definition metadata_map :: "golib \<Rightarrow> CheckpointMetadata \<Rightarrow> gval gomap" where
  "metadata_map L md = mcopy
     [(''id'', GStr (MdID md)), (''parent_id'', GStr (MdParentID md)),
      (''thread_id'', GStr (MdThreadID md)), (''step'', GInt (word_of_int (MdStep md))),
      (''created_at'', GStr (fmt_time L (MdCreatedAt md))), (''source'', GStr (MdSource md))]
     (MdMetadata md)"

definition ToMap :: "golib \<Rightarrow> Checkpoint \<Rightarrow> gval gomap" where
  "ToMap L c =
     (let pending = map (\<lambda>pw. GMap
            [(''channel'', GStr (PwChannel pw)), (''value'', PwValue pw),
             (''overwrite'', GBool (PwOverwrite pw)), (''node'', GStr (PwNode pw))]) (CpPendingWrites c)
      in [(''id'', GStr (CpID c)), (''version'', GInt (word_of_int (CpVersion c))),
          (''parent_id'', GStr (CpParentID c)),
          (''channel_versions'', int_map (CpChannelVersions c)),
          (''versions_seen'', GTyped (TMap TString (TMap TString TInt))
             (GMap (map (map_prod id int_map) (mcopy [] (CpVersionsSeen c))))),
          (''state'', GMap (mcopy [] (deepCopyMap L (CpState c)))),
          (''pending_writes'', GTyped (TSlice (TMap TString TAny)) (GSlice pending)),
          (''metadata'', GMap (metadata_map L (CpMetadata c)))])"

definition getString :: "gval gomap \<Rightarrow> string \<Rightarrow> string" where
  "getString data key = (case mget data key of Some (GStr s) \<Rightarrow> s | _ \<Rightarrow> [])"

definition getInt :: "golib \<Rightarrow> gval gomap \<Rightarrow> string \<Rightarrow> int \<Rightarrow> int" where
  "getInt L data key defaultVal = (case mget data key of Some (GFloat x) \<Rightarrow> f64_to_int L x | _ \<Rightarrow> defaultVal)"

definition getBool :: "gval gomap \<Rightarrow> string \<Rightarrow> bool \<Rightarrow> bool" where
  "getBool data key defaultVal = (case mget data key of Some (GBool b) \<Rightarrow> b | _ \<Rightarrow> defaultVal)"

text \<open>\<open>data[key].(map[string]any)\<close> with its entries, no entries when the assertion fails.\<close>

definition getEntries :: "gval gomap \<Rightarrow> string \<Rightarrow> gval gomap" where
  "getEntries data key = (case mget data key of Some (GMap m) \<Rightarrow> m | _ \<Rightarrow> [])"

definition parse_versions :: "golib \<Rightarrow> gval gomap \<Rightarrow> int gomap" where
  "parse_versions L cv = mcollect (\<lambda>v. case v of GFloat num \<Rightarrow> Some (f64_to_int L num) | _ \<Rightarrow> None) cv"

definition parse_seen :: "golib \<Rightarrow> gval gomap \<Rightarrow> int gomap gomap" where
  "parse_seen L vs = mcollect (\<lambda>v. case v of GMap vMap \<Rightarrow> Some (parse_versions L vMap) | _ \<Rightarrow> None) vs"

definition parse_write :: "gval \<Rightarrow> PendingWrite list" where
  "parse_write pw =
     (case pw of
        GMap m \<Rightarrow>
          [\<lparr>PwChannel = getString m ''channel'', PwValue = mget_or GNil m ''value'',
            PwOverwrite = getBool m ''overwrite'' False, PwNode = getString m ''node'',
            PwTimestamp = zero_time, PwTaskID = []\<rparr>]
      | _ \<Rightarrow> [])"

definition parse_metadata :: "golib \<Rightarrow> gval gomap \<Rightarrow> CheckpointMetadata" where
  "parse_metadata L md =
     \<lparr>MdID = getString md ''id'', MdParentID = getString md ''parent_id'',
      MdThreadID = getString md ''thread_id'', MdStep = getInt L md ''step'' 0,
      MdCreatedAt =
        (let s = getString md ''created_at''
         in if s \<noteq> [] then case parse_time L s of Some t \<Rightarrow> t | None \<Rightarrow> zero_time else zero_time),
      MdSource = getString md ''source'',
      MdMetadata = mcopy [] (filter (\<lambda>(k, v). k \<notin>
        {''id'', ''parent_id'', ''thread_id'', ''step'', ''created_at'', ''source''}) md)\<rparr>"

definition no_metadata :: CheckpointMetadata where
  "no_metadata =
     \<lparr>MdID = [], MdParentID = [], MdThreadID = [], MdStep = 0, MdCreatedAt = zero_time, MdSource = [],
      MdMetadata = []\<rparr>"

definition FromMap :: "golib \<Rightarrow> gval gomap \<Rightarrow> Checkpoint" where
  "FromMap L data =
     \<lparr>CpID = getString data ''id'', CpVersion = getInt L data ''version'' 0,
      CpParentID = getString data ''parent_id'',
      CpChannelVersions = parse_versions L (getEntries data ''channel_versions''),
      CpVersionsSeen = parse_seen L (getEntries data ''versions_seen''),
      CpState = mcopy [] (deepCopyMap L (getEntries data ''state'')),
      CpPendingWrites =
        (case mget data ''pending_writes'' of Some (GSlice pws) \<Rightarrow> concat (map parse_write pws) | _ \<Rightarrow> []),
      CpMetadata =
        (case mget data ''metadata'' of Some (GMap md) \<Rightarrow> parse_metadata L md | _ \<Rightarrow> no_metadata)\<rparr>"

section \<open>Tuples\<close>

record CheckpointTuple =
  TupConfig :: RunnableConfig
  TupCheckpoint :: "Checkpoint option"
  TupParentConfig :: "RunnableConfig option"
  TupMetadata :: "gval gomap"

definition NewCheckpointTuple ::
  "RunnableConfig option \<Rightarrow> Checkpoint option \<Rightarrow> RunnableConfig option \<Rightarrow> CheckpointTuple" where
  "NewCheckpointTuple config checkpoint parentConfig =
     \<lparr>TupConfig = EnsureConfig config, TupCheckpoint = checkpoint, TupParentConfig = parentConfig,
      TupMetadata =
        (case checkpoint of
           None \<Rightarrow> []
         | Some c \<Rightarrow>
             [(''id'', GStr (CpID c)), (''version'', GInt (word_of_int (CpVersion c))),
              (''thread_id'', GStr (MdThreadID (CpMetadata c))),
              (''step'', GInt (word_of_int (MdStep (CpMetadata c)))),
              (''source'', GStr (MdSource (CpMetadata c))),
              (''created_at'', GTime (MdCreatedAt (CpMetadata c)))])\<rparr>"

definition RunnableConfigToMap :: "RunnableConfig option \<Rightarrow> gval gomap" where
  "RunnableConfigToMap cfg =
     (case cfg of
        None \<Rightarrow> []
      | Some c \<Rightarrow>
          [(''thread_id'', GStr (ThreadID c)),
           (''checkpoint_id'', GStr (Config_GetOrEmpty c ''checkpoint_id'')),
           (''checkpoint_ns'', GStr (Config_GetOrEmpty c ''checkpoint_ns''))])"

text \<open>The configuration \<open>GetTuple\<close>, \<open>GetTupleByVersion\<close> and \<open>GetLineage\<close> build for a checkpoint.\<close>

definition thread_config :: "string \<Rightarrow> string \<Rightarrow> RunnableConfig" where
  "thread_config threadID cpID =
     Config_Set ''checkpoint_id'' (GStr cpID) (NewRunnableConfig\<lparr>ThreadID := threadID\<rparr>)"

section \<open>The checkpoint manager\<close>

record CheckpointManager =
  cm_checkpoints :: "Checkpoint list gomap"
  cm_maxVersions :: nat

definition DefaultCheckpointMaxVersions :: nat where
  "DefaultCheckpointMaxVersions = 100"

definition NewCheckpointManager :: "int \<Rightarrow> CheckpointManager" where
  "NewCheckpointManager maxVersions =
     \<lparr>cm_checkpoints = [],
      cm_maxVersions = (if maxVersions \<le> 0 then DefaultCheckpointMaxVersions else nat maxVersions)\<rparr>"

abbreviation cm_history :: "CheckpointManager \<Rightarrow> string \<Rightarrow> Checkpoint list" where
  "cm_history cm threadID \<equiv> mget_or [] (cm_checkpoints cm) threadID"

definition cm_Save :: "CheckpointManager \<Rightarrow> Checkpoint \<Rightarrow> CheckpointManager res" where
  "cm_Save cm checkpoint =
     (let threadID = MdThreadID (CpMetadata checkpoint);
          cps = cm_history cm threadID;
          latest = last cps;
          conflict = VersionConflictError (CpVersion checkpoint) (CpVersion latest + 1) (CpID checkpoint) threadID
      in if cps \<noteq> [] \<and> CpParentID checkpoint \<noteq> [] \<and> CpID latest \<noteq> CpParentID checkpoint then Inl conflict
         else if cps \<noteq> [] \<and> CpVersion checkpoint > 0 \<and> CpVersion latest \<noteq> CpVersion checkpoint - 1 then Inl conflict
         else let cps' = cps @ [checkpoint];
                  kept = (if length cps' > cm_maxVersions cm then drop (length cps' - cm_maxVersions cm) cps' else cps')
              in Inr (cm\<lparr>cm_checkpoints := mput threadID kept (cm_checkpoints cm)\<rparr>))"

definition apply_write :: "PendingWrite \<Rightarrow> Checkpoint \<Rightarrow> Checkpoint" where
  "apply_write w c = IncrementChannel (PwChannel w) (c\<lparr>CpState := mput (PwChannel w) (PwValue w) (CpState c)\<rparr>)"

definition cm_PutWrites ::
  "golib \<Rightarrow> string \<Rightarrow> int \<Rightarrow> CheckpointManager \<Rightarrow> RunnableConfig \<Rightarrow> PendingWrite list \<Rightarrow> CheckpointManager res" where
  "cm_PutWrites L uuid now cm config writes =
     (let threadID = ThreadID config;
          cps = cm_history cm threadID;
          current = last cps;
          callerID = Config_GetOrEmpty config ''checkpoint_id''
      in if threadID = [] then Inl (Errorf ''thread ID is required for put_writes'' [])
         else if cps = [] then Inl (Errorf (''no checkpoint found for thread '' @ threadID) [])
         else if callerID = [] then
           Inl (Errorf (''checkpoint_id is required for put_writes on thread '' @ threadID) [])
         else if callerID \<noteq> CpID current then
           Inl (VersionConflictError (CpVersion current) (CpVersion current + 1) (CpID current) threadID)
         else let new = fold apply_write writes
                    ((Clone L uuid now current)\<lparr>CpVersion := CpVersion current + 1, CpParentID := CpID current\<rparr>)
              in Inr (cm\<lparr>cm_checkpoints := mput threadID (cps @ [new]) (cm_checkpoints cm)\<rparr>))"

definition cm_Load :: "golib \<Rightarrow> string \<Rightarrow> int \<Rightarrow> CheckpointManager \<Rightarrow> string \<Rightarrow> Checkpoint option" where
  "cm_Load L uuid now cm threadID =
     (let cps = cm_history cm threadID in if cps = [] then None else Some (Clone L uuid now (last cps)))"

definition cm_LoadByCheckpointID :: "golib \<Rightarrow> string \<Rightarrow> int \<Rightarrow> CheckpointManager \<Rightarrow> string \<Rightarrow> Checkpoint res" where
  "cm_LoadByCheckpointID L uuid now cm checkpointID =
     (case find (\<lambda>cp. CpID cp = checkpointID) (concat (map snd (cm_checkpoints cm))) of
        Some cp \<Rightarrow> Inr (Clone L uuid now cp)
      | None \<Rightarrow> Inl (Errorf (''checkpoint not found: '' @ checkpointID) []))"

text \<open>\<open>if limit <= 0 || limit > n { limit = n }\<close>.\<close>

definition clamp_limit :: "int \<Rightarrow> nat \<Rightarrow> nat" where
  "clamp_limit limit n = (if limit \<le> 0 \<or> limit > int n then n else nat limit)"

definition cm_List ::
  "golib \<Rightarrow> (nat \<Rightarrow> string) \<Rightarrow> (nat \<Rightarrow> int) \<Rightarrow> CheckpointManager \<Rightarrow> string \<Rightarrow> int \<Rightarrow> Checkpoint list" where
  "cm_List L uuid now cm threadID limit =
     (let cps = cm_history cm threadID;
          lim = clamp_limit limit (length cps);
          start = length cps - lim
      in map (\<lambda>i. Clone L (uuid i) (now i) (cps ! (start + i))) [0..<lim])"

definition cm_GetTuple ::
  "golib \<Rightarrow> (nat \<Rightarrow> string) \<Rightarrow> (nat \<Rightarrow> int) \<Rightarrow> CheckpointManager \<Rightarrow> RunnableConfig \<Rightarrow> CheckpointTuple res" where
  "cm_GetTuple L uuid now cm config =
     (let threadID = ThreadID config;
          cps = cm_history cm threadID
      in if threadID = [] then Inl (Errorf ''thread ID is required'' [])
         else if cps = [] then Inr (NewCheckpointTuple (Some config) None None)
         else let latest = Clone L (uuid 0) (now 0) (last cps);
                  parentConfig =
                    (if length cps > 1
                     then Some (thread_config threadID
                            (CpID (Clone L (uuid 1) (now 1) (cps ! (length cps - 2)))))
                     else None)
              in Inr (NewCheckpointTuple (Some config) (Some latest) parentConfig))"

text \<open>The first checkpoint of a version, with the one before it.\<close>

fun find_version :: "int \<Rightarrow> Checkpoint option \<Rightarrow> Checkpoint list \<Rightarrow> (Checkpoint option \<times> Checkpoint) option" where
  "find_version version prev [] = None"
| "find_version version prev (cp # cps) =
     (if CpVersion cp = version then Some (prev, cp) else find_version version (Some cp) cps)"

definition cm_GetTupleByVersion ::
  "golib \<Rightarrow> (nat \<Rightarrow> string) \<Rightarrow> (nat \<Rightarrow> int) \<Rightarrow> CheckpointManager \<Rightarrow> RunnableConfig \<Rightarrow> int \<Rightarrow> CheckpointTuple res" where
  "cm_GetTupleByVersion L uuid now cm config version =
     (let threadID = ThreadID config
      in if threadID = [] then Inl (Errorf ''thread ID is required'' [])
         else case find_version version None (cm_history cm threadID) of
                None \<Rightarrow> Inl (Errorf ''version not found'' [])
              | Some (parent, cp) \<Rightarrow>
                  Inr (NewCheckpointTuple (Some config) (Some (Clone L (uuid 0) (now 0) cp))
                    (map_option (\<lambda>p. thread_config threadID (CpID (Clone L (uuid 1) (now 1) p))) parent)))"

definition cm_GetLineage ::
  "golib \<Rightarrow> (nat \<Rightarrow> string) \<Rightarrow> (nat \<Rightarrow> int) \<Rightarrow> CheckpointManager \<Rightarrow> string \<Rightarrow> int \<Rightarrow> CheckpointTuple list" where
  "cm_GetLineage L uuid now cm threadID limit =
     (let cps = cm_history cm threadID;
          lim = clamp_limit limit (length cps)
      in map (\<lambda>i. let cp = Clone L (uuid i) (now i) (cps ! i)
             in NewCheckpointTuple (Some (thread_config threadID (CpID cp))) (Some cp)
                  (if i > 0 then Some (thread_config threadID (CpID (cps ! (i - 1)))) else None))
           [length cps - lim..<length cps])"

definition cm_GetVersion :: "golib \<Rightarrow> string \<Rightarrow> int \<Rightarrow> CheckpointManager \<Rightarrow> string \<Rightarrow> int \<Rightarrow> Checkpoint res" where
  "cm_GetVersion L uuid now cm threadID version =
     (case find (\<lambda>cp. CpVersion cp = version) (cm_history cm threadID) of
        Some cp \<Rightarrow> Inr (Clone L uuid now cp)
      | None \<Rightarrow> Inl (Errorf ''version not found'' []))"

fun remove_id :: "string \<Rightarrow> Checkpoint list \<Rightarrow> Checkpoint list option" where
  "remove_id i [] = None"
| "remove_id i (cp # cps) = (if CpID cp = i then Some cps else map_option (Cons cp) (remove_id i cps))"

fun delete_in :: "string \<Rightarrow> Checkpoint list gomap \<Rightarrow> (string \<times> Checkpoint list) option" where
  "delete_in i [] = None"
| "delete_in i ((t, cps) # m) =
     (case remove_id i cps of Some cps' \<Rightarrow> Some (t, cps') | None \<Rightarrow> delete_in i m)"

definition cm_Delete :: "CheckpointManager \<Rightarrow> string \<Rightarrow> CheckpointManager res" where
  "cm_Delete cm checkpointID =
     (case delete_in checkpointID (cm_checkpoints cm) of
        Some (t, cps) \<Rightarrow> Inr (cm\<lparr>cm_checkpoints := mput t cps (cm_checkpoints cm)\<rparr>)
      | None \<Rightarrow> Inl (Errorf (''checkpoint not found: '' @ checkpointID) []))"

definition cm_ClearThread :: "CheckpointManager \<Rightarrow> string \<Rightarrow> CheckpointManager" where
  "cm_ClearThread cm threadID = cm\<lparr>cm_checkpoints := mdel threadID (cm_checkpoints cm)\<rparr>"

definition cm_ClearAll :: "CheckpointManager \<Rightarrow> CheckpointManager" where
  "cm_ClearAll cm = cm\<lparr>cm_checkpoints := []\<rparr>"

section \<open>Lemmas: single operations\<close>

lemmas cm_defs = cm_Save_def cm_PutWrites_def Let_def

lemma Clone_fields [simp]:
  "CpID (Clone L i now c) = i" "CpVersion (Clone L i now c) = CpVersion c"
  "CpParentID (Clone L i now c) = CpID c"
  "MdThreadID (CpMetadata (Clone L i now c)) = MdThreadID (CpMetadata c)"
  by (simp_all add: Clone_def)

lemma apply_write_fields [simp]:
  "CpID (apply_write w c) = CpID c" "CpVersion (apply_write w c) = CpVersion c"
  "CpParentID (apply_write w c) = CpParentID c" "CpMetadata (apply_write w c) = CpMetadata c"
  "CpState (apply_write w c) = mput (PwChannel w) (PwValue w) (CpState c)"
  by (simp_all add: apply_write_def IncrementChannel_def)

lemma fold_write_fields [simp]:
  "CpID (fold apply_write ws c) = CpID c" "CpVersion (fold apply_write ws c) = CpVersion c"
  "CpParentID (fold apply_write ws c) = CpParentID c" "CpMetadata (fold apply_write ws c) = CpMetadata c"
  by (induction ws arbitrary: c) auto

text \<open>The state after a list of writes: the last write of a channel wins.\<close>

lemma fold_write_state:
  "mget (CpState (fold apply_write ws c)) =
     mget (CpState c) ++ map_of (rev (map (\<lambda>w. (PwChannel w, PwValue w)) ws))"
proof (induction ws arbitrary: c)
  case Nil
  then show ?case by simp
next
  case (Cons w ws)
  show ?case
    by (simp add: Cons.IH gomap map_add_def fun_eq_iff split: option.splits)
qed

text \<open>A channel's version counts the writes to it.\<close>

lemma fold_write_versions:
  "mget_or 0 (CpChannelVersions (fold apply_write ws c)) ch =
     mget_or 0 (CpChannelVersions c) ch + int (length (filter (\<lambda>w. PwChannel w = ch) ws))"
proof (induction ws arbitrary: c)
  case Nil
  then show ?case by simp
next
  case (Cons w ws)
  then show ?case by (simp add: apply_write_def IncrementChannel_def gomap)
qed

lemma HasSeen_MarkSeen:
  "HasSeen (MarkSeen n ch c) n' ch' \<longleftrightarrow> (n' = n \<and> ch' = ch) \<or> HasSeen c n' ch'"
  by (auto simp: HasSeen_def MarkSeen_def Let_def gomap mget_or_def split: option.splits)

text \<open>A new version of a channel is unseen by every node that had seen an earlier one.\<close>

lemma HasSeen_IncrementChannel:
  assumes "\<And>n vs v. mget (CpVersionsSeen c) n = Some vs \<Longrightarrow> mget vs ch = Some v \<Longrightarrow>
             v \<le> mget_or 0 (CpChannelVersions c) ch"
  shows "\<not> HasSeen (IncrementChannel ch c) n ch"
  using assms by (force simp: HasSeen_def IncrementChannel_def gomap split: option.splits)

lemma Save_result:
  "cm_Save cm c = Inr cm' \<longleftrightarrow>
     (let t = MdThreadID (CpMetadata c); cps = cm_history cm t
      in (cps \<noteq> [] \<longrightarrow>
            (CpParentID c \<noteq> [] \<longrightarrow> CpID (last cps) = CpParentID c) \<and>
            (CpVersion c > 0 \<longrightarrow> CpVersion c = CpVersion (last cps) + 1)) \<and>
         cm' = cm\<lparr>cm_checkpoints :=
           mput t (drop (Suc (length cps) - cm_maxVersions cm) (cps @ [c])) (cm_checkpoints cm)\<rparr>)"
  by (auto simp: cm_Save_def Let_def)

lemma PutWrites_result:
  "cm_PutWrites L i now cm cfg ws = Inr cm' \<longleftrightarrow>
     (let t = ThreadID cfg; cps = cm_history cm t
      in t \<noteq> [] \<and> cps \<noteq> [] \<and> CpID (last cps) \<noteq> [] \<and>
         Config_GetOrEmpty cfg ''checkpoint_id'' = CpID (last cps) \<and>
         cm' = cm\<lparr>cm_checkpoints := mput t (cps @ [fold apply_write ws
           ((Clone L i now (last cps))\<lparr>CpVersion := CpVersion (last cps) + 1, CpParentID := CpID (last cps)\<rparr>)])
           (cm_checkpoints cm)\<rparr>)"
  by (auto simp: cm_PutWrites_def Let_def split: if_splits)

lemma Save_history:
  assumes "cm_Save cm c = Inr cm'"
  shows "cm_history cm' t =
    (if t = MdThreadID (CpMetadata c)
     then drop (Suc (length (cm_history cm t)) - cm_maxVersions cm) (cm_history cm t @ [c])
     else cm_history cm t)"
  using assms by (auto simp: Save_result Let_def gomap simp del: drop_append)

lemma PutWrites_history:
  assumes "cm_PutWrites L i now cm cfg ws = Inr cm'"
  shows "cm_history cm' t =
    (if t = ThreadID cfg
     then cm_history cm t @ [fold apply_write ws
       ((Clone L i now (last (cm_history cm t)))\<lparr>CpVersion := CpVersion (last (cm_history cm t)) + 1,
          CpParentID := CpID (last (cm_history cm t))\<rparr>)]
     else cm_history cm t)"
  using assms by (auto simp: PutWrites_result Let_def gomap)

lemma cm_history_clear [simp]: "cm_history (cm_ClearThread cm t) t' = (if t' = t then [] else cm_history cm t')"
  by (simp add: cm_ClearThread_def mget_or_def gomap)

lemma cm_history_clear_all [simp]: "cm_history (cm_ClearAll cm) t = []"
  by (simp add: cm_ClearAll_def)

lemma remove_id_split:
  "remove_id i cps = Some cps' \<Longrightarrow> \<exists>xs x ys. cps = xs @ x # ys \<and> cps' = xs @ ys \<and> CpID x = i"
proof (induction cps arbitrary: cps')
  case Nil
  then show ?case by simp
next
  case (Cons cp cps)
  show ?case
  proof (cases "CpID cp = i")
    case True
    with Cons.prems show ?thesis by (intro exI [of _ "[]"]) auto
  next
    case False
    with Cons.prems obtain r where r: "remove_id i cps = Some r" "cps' = cp # r" by auto
    then obtain xs x ys where "cps = xs @ x # ys" "r = xs @ ys" "CpID x = i" using Cons.IH by blast
    with r show ?thesis by (intro exI [of _ "cp # xs"]) auto
  qed
qed

lemma delete_in_entry:
  "delete_in i m = Some (t, cps') \<Longrightarrow> gomap_ok m \<Longrightarrow> \<exists>cps. mget m t = Some cps \<and> remove_id i cps = Some cps'"
proof (induction i m rule: delete_in.induct)
  case (2 i t0 cps m)
  then show ?case
    by (cases "remove_id i cps")
      (auto simp: gomap_ok_def dest!: map_of_SomeD intro: rev_image_eqI)
qed simp

lemma Delete_history:
  assumes "cm_Delete cm i = Inr cm'" and "gomap_ok (cm_checkpoints cm)"
  shows "cm_history cm' t = cm_history cm t \<or>
         (\<exists>xs x ys. cm_history cm t = xs @ x # ys \<and> cm_history cm' t = xs @ ys \<and> CpID x = i)"
proof -
  obtain t0 cps' where del: "delete_in i (cm_checkpoints cm) = Some (t0, cps')"
    and cm': "cm' = cm\<lparr>cm_checkpoints := mput t0 cps' (cm_checkpoints cm)\<rparr>"
    using assms(1) by (auto simp: cm_Delete_def split: option.splits)
  obtain cps where "mget (cm_checkpoints cm) t0 = Some cps" "remove_id i cps = Some cps'"
    using delete_in_entry [OF del assms(2)] by blast
  then show ?thesis
    using remove_id_split [of i cps cps'] by (cases "t = t0") (auto simp: cm' mget_or_def gomap)
qed

lemma NewCheckpointManager_empty [simp]: "cm_history (NewCheckpointManager n) t = []"
  by (simp add: NewCheckpointManager_def)

section \<open>Histories of concurrent clients\<close>

text \<open>
  The manager as a transition system: any interleaving of clients that save, write and clear. A checkpoint may be saved with a
  parent and a version, as a loaded one has, or without: the manager checks what it declares. When \<open>strict\<close>
  holds every client declares both, except for the first checkpoint of a thread. Deletion of single checkpoints is
  allowed when \<open>del\<close> holds.
\<close>

definition declares_both :: "Checkpoint \<Rightarrow> bool" where
  "declares_both c \<longleftrightarrow> CpParentID c \<noteq> [] \<and> CpVersion c > 0"

inductive cm_step :: "bool \<Rightarrow> bool \<Rightarrow> golib \<Rightarrow> CheckpointManager \<Rightarrow> CheckpointManager \<Rightarrow> bool"
  for del strict L where
  save: "cm_Save cm c = Inr cm' \<Longrightarrow> strict \<longrightarrow> cm_history cm (MdThreadID (CpMetadata c)) = [] \<or> declares_both c \<Longrightarrow> cm_step del strict L cm cm'"
| put: "cm_PutWrites L i now cm cfg ws = Inr cm' \<Longrightarrow> cm_step del strict L cm cm'"
| delete: "del \<Longrightarrow> cm_Delete cm i = Inr cm' \<Longrightarrow> cm_step del strict L cm cm'"
| clear_thread: "cm_step del strict L cm (cm_ClearThread cm t)"
| clear_all: "cm_step del strict L cm (cm_ClearAll cm)"

inductive cm_reachable :: "bool \<Rightarrow> bool \<Rightarrow> golib \<Rightarrow> int \<Rightarrow> CheckpointManager \<Rightarrow> bool" for del strict L n where
  init: "cm_reachable del strict L n (NewCheckpointManager n)"
| step: "cm_reachable del strict L n cm \<Longrightarrow> cm_step del strict L cm cm' \<Longrightarrow> cm_reachable del strict L n cm'"

inductive_cases cm_stepE: "cm_step del strict L cm cm'"

text \<open>A checkpoint agrees with the one before it in what it declares; it follows it when it declares both.\<close>

definition agrees :: "Checkpoint \<Rightarrow> Checkpoint \<Rightarrow> bool" where
  "agrees a b \<longleftrightarrow> (CpParentID b \<noteq> [] \<longrightarrow> CpParentID b = CpID a) \<and> (CpVersion b > 0 \<longrightarrow> CpVersion b = CpVersion a + 1)"

definition follows :: "Checkpoint \<Rightarrow> Checkpoint \<Rightarrow> bool" where
  "follows a b \<longleftrightarrow> CpParentID b = CpID a \<and> CpVersion b = CpVersion a + 1"

text \<open>
  One step either appends a checkpoint that agrees with the latest one to one history (and may drop old
  entries at its front), empties a history, or takes one element out of it.
\<close>

lemma step_history:
  assumes "cm_step del strict L cm cm'" and "gomap_ok (cm_checkpoints cm)"
  shows "cm_history cm' t = cm_history cm t \<or> cm_history cm' t = [] \<or>
    (\<exists>k c. cm_history cm' t = drop k (cm_history cm t @ [c]) \<and>
       (cm_history cm t \<noteq> [] \<longrightarrow> agrees (last (cm_history cm t)) c \<and> (strict \<longrightarrow> follows (last (cm_history cm t)) c))) \<or>
    (del \<and> (\<exists>xs x ys. cm_history cm t = xs @ x # ys \<and> cm_history cm' t = xs @ ys))"
  using assms
proof (cases rule: cm_step.cases)
  case (save c)
  show ?thesis
  proof (cases "t = MdThreadID (CpMetadata c)")
    case True
    then have "cm_history cm t \<noteq> [] \<longrightarrow> agrees (last (cm_history cm t)) c \<and> (strict \<longrightarrow> follows (last (cm_history cm t)) c)"
      using save by (auto simp: follows_def agrees_def declares_both_def Save_result Let_def)
    with Save_history [OF save(1), of t] True show ?thesis by metis
  next
    case False
    with Save_history [OF save(1), of t] show ?thesis by simp
  qed
next
  case (put i now cfg ws)
  have "agrees (last h) (fold apply_write ws
      ((Clone L i now (last h))\<lparr>CpVersion := CpVersion (last h) + 1, CpParentID := CpID (last h)\<rparr>)) \<and>
    follows (last h) (fold apply_write ws
      ((Clone L i now (last h))\<lparr>CpVersion := CpVersion (last h) + 1, CpParentID := CpID (last h)\<rparr>))" for h
    by (simp add: follows_def agrees_def)
  moreover note PutWrites_history [OF put(1), of t]
  ultimately show ?thesis by (metis drop0)
next
  case (delete i)
  then show ?thesis using Delete_history [OF _ assms(2), of i cm' t] by blast
qed auto

lemma step_gomap_ok: "cm_step del strict L cm cm' \<Longrightarrow> gomap_ok (cm_checkpoints cm) \<Longrightarrow> gomap_ok (cm_checkpoints cm')"
  by (erule cm_stepE)
    (auto simp: Save_result PutWrites_result Let_def cm_Delete_def cm_ClearThread_def cm_ClearAll_def
      split: option.splits)

lemma reachable_gomap_ok: "cm_reachable del strict L n cm \<Longrightarrow> gomap_ok (cm_checkpoints cm)"
  by (induction rule: cm_reachable.induct) (auto simp: NewCheckpointManager_def step_gomap_ok)

lemma successively_drop: "successively P xs \<Longrightarrow> successively P (drop k xs)"
  by (metis append_take_drop_id successively_append_iff)

lemma reachable_linear:
  assumes "cm_reachable False strict L n cm"
  shows "successively (\<lambda>a b. agrees a b \<and> (strict \<longrightarrow> follows a b)) (cm_history cm t)"
  using assms
proof (induction arbitrary: t rule: cm_reachable.induct)
  case init
  then show ?case by simp
next
  case (step cm cm')
  from step_history [OF step.hyps(2) reachable_gomap_ok [OF step.hyps(1)], of t] step.IH [of t]
  show ?case
    by (auto simp: successively_append_iff intro!: successively_drop)
qed

lemma reachable_increasing:
  assumes "cm_reachable del True L n cm"
  shows "sorted_wrt (\<lambda>a b. CpVersion a < CpVersion b) (cm_history cm t)"
  using assms
proof (induction arbitrary: t rule: cm_reachable.induct)
  case init
  then show ?case by simp
next
  case (step cm cm')
  let ?lt = "\<lambda>a b. CpVersion a < CpVersion b"
  have app: "sorted_wrt ?lt (drop k (h @ [c]))"
    if "sorted_wrt ?lt h" "h \<noteq> [] \<longrightarrow> follows (last h) c" for k h c
  proof -
    have "\<forall>x \<in> set h. CpVersion x < CpVersion c"
    proof
      fix x
      assume "x \<in> set h"
      then have "h \<noteq> []" by auto
      then obtain bs b where h: "h = bs @ [b]" by (metis append_butlast_last_id)
      with \<open>x \<in> set h\<close> that show "CpVersion x < CpVersion c"
        by (force simp: sorted_wrt_append follows_def)
    qed
    with that have "sorted_wrt ?lt (h @ [c])" by (simp add: sorted_wrt_append)
    then show ?thesis by (rule sorted_wrt_drop)
  qed
  from step_history [OF step.hyps(2) reachable_gomap_ok [OF step.hyps(1)], of t] step.IH [of t]
  show ?case by (auto simp: sorted_wrt_append app simp del: drop_append)
qed

end
