(* ===== verification/Checkpoint_Wire.thy ===== *)
theory Checkpoint_Wire
  imports Checkpoints
begin

text \<open>
  Checkpoints on the wire: the map form of a checkpoint, sent through JSON and parsed again. The
  documented behaviour of the library that the round trip rests on is \<open>wire_lib\<close>; what a checkpoint
  must satisfy is \<open>wire_ok\<close> (valid text, a year RFC 3339 can write, counters a \<open>float64\<close> holds exactly, values that marshal,
  custom metadata that does not use the reserved names).
\<close>

definition ascii :: "string \<Rightarrow> bool" where
  "ascii s \<longleftrightarrow> list_all (\<lambda>c. of_char c < (128 :: nat)) s"

definition utf8_lib :: "golib \<Rightarrow> bool" where
  "utf8_lib L \<longleftrightarrow> json_lib L \<and> (\<forall>s. ascii s \<longrightarrow> json_utf8 L s = s)"

text \<open>The instants RFC 3339 can write in every time zone, in nanoseconds from the start of 1970: the years 1 to 9998, since the
  format has four digits for the year, 0 to 9999, of the local time (zones are taken to be whole minutes from UTC).\<close>

definition year_ok :: "int \<Rightarrow> bool" where
  "year_ok t \<longleftrightarrow> - 62135596800 * 10 ^ 9 \<le> t \<and> t < 253370764800 * 10 ^ 9"

definition wire_lib :: "golib \<Rightarrow> bool" where
  "wire_lib L \<longleftrightarrow> utf8_lib L \<and>
     (\<forall>n. \<bar>n\<bar> \<le> 2 ^ 53 \<longrightarrow> f64_to_int L (f64_of_int L n) = n) \<and>
     (\<forall>t. year_ok t \<longrightarrow> ascii (fmt_time L t) \<and> fmt_time L t \<noteq> [] \<and> parse_time L (fmt_time L t) = Some t)"

definition exact_int :: "int \<Rightarrow> bool" where
  "exact_int n \<longleftrightarrow> \<bar>n\<bar> \<le> 2 ^ 53"

definition text_map :: "golib \<Rightarrow> 'v gomap \<Rightarrow> bool" where
  "text_map L m \<longleftrightarrow> gomap_ok m \<and> (\<forall>k \<in> set (mkeys m). json_utf8 L k = k)"

definition reserved_names :: "string set" where
  "reserved_names = {''id'', ''parent_id'', ''thread_id'', ''step'', ''created_at'', ''source''}"

definition wire_ok :: "golib \<Rightarrow> Checkpoint \<Rightarrow> bool" where
  "wire_ok L c \<longleftrightarrow>
     (\<forall>s \<in> {CpID c, CpParentID c, MdID (CpMetadata c), MdParentID (CpMetadata c),
            MdThreadID (CpMetadata c), MdSource (CpMetadata c)}. json_utf8 L s = s) \<and>
     year_ok (MdCreatedAt (CpMetadata c)) \<and> exact_int (CpVersion c) \<and> exact_int (MdStep (CpMetadata c)) \<and>
     text_map L (CpChannelVersions c) \<and> (\<forall>(k, n) \<in> set (CpChannelVersions c). exact_int n) \<and>
     text_map L (CpVersionsSeen c) \<and>
     (\<forall>(k, m) \<in> set (CpVersionsSeen c). text_map L m \<and> (\<forall>(k, n) \<in> set m. exact_int n)) \<and>
     text_map L (CpState c) \<and>
     (\<forall>pw \<in> set (CpPendingWrites c). json_utf8 L (PwChannel pw) = PwChannel pw \<and>
        json_utf8 L (PwNode pw) = PwNode pw \<and> json_rt L (PwValue pw) \<noteq> None) \<and>
     text_map L (MdMetadata (CpMetadata c)) \<and>
     (\<forall>(k, v) \<in> set (MdMetadata (CpMetadata c)). k \<notin> reserved_names \<and> json_rt L v \<noteq> None)"

section \<open>JSON of a map with valid keys\<close>

lemma insort_key_map_prod:
  "insort_key fst (map_prod id f p) (map (map_prod id f) m) = map (map_prod id f) (insort_key fst p m)"
  by (induction m) auto

lemma sort_key_map_prod: "sort_key fst (map (map_prod id f) m) = map (map_prod id f) (sort_key fst m)"
  by (induction m) (simp_all only: list.map sort_key_simps insort_key_map_prod)

lemma mget_map_prod: "mget (map (map_prod id g) m) k = map_option g (mget m k)"
  by (induction m) auto

lemma gomap_ok_sort: "gomap_ok m \<Longrightarrow> gomap_ok (sort_key fst m)"
  by (simp add: gomap_ok_def) (metis mset_eq_imp_distinct_iff mset_map mset_sort)

lemma mget_sort: "gomap_ok m \<Longrightarrow> mget (sort_key fst m) = mget m"
  using mget_eq_iff_perm [of m "sort_key fst m"] by simp

lemma json_entries_get:
  assumes "text_map L m" and "\<And>k v. (k, v) \<in> set m \<Longrightarrow> f v \<noteq> None"
  shows "\<exists>m'. json_entries L (map (map_prod id f) m) = Some m' \<and> gomap_ok m' \<and>
    (\<forall>k. mget m' k = Option.bind (mget m k) f)"
proof -
  let ?s = "sort_key fst m"
  let ?kvs = "map (map_prod id (the \<circ> f)) ?s"
  have ok: "gomap_ok m" and keys: "\<And>k v. (k, v) \<in> set m \<Longrightarrow> json_utf8 L k = k"
    using assms(1) by (auto simp: text_map_def)
  have "map (\<lambda>(k, v). map_option (Pair (json_utf8 L k)) v) (map (map_prod id f) ?s) = map Some ?kvs"
    using assms(2) keys by (fastforce simp: map_prod_def)
  then have those: "those (map (\<lambda>(k, v). map_option (Pair (json_utf8 L k)) v)
      (sort_key fst (map (map_prod id f) m))) = Some ?kvs"
    by (simp only: sort_key_map_prod those_Some)
  have ok': "gomap_ok ?kvs"
    using gomap_ok_sort [OF ok] by (simp add: gomap_ok_def comp_def map_prod_def split_beta')
  have get: "mget ?kvs k = Option.bind (mget m k) f" for k
  proof -
    have "mget ?kvs k = map_option (the \<circ> f) (mget m k)"
      by (simp only: mget_map_prod mget_sort [OF ok])
    also have "\<dots> = Option.bind (mget m k) f"
      using assms(2) by (cases "mget m k") (auto dest!: map_of_SomeD)
    finally show ?thesis .
  qed
  show ?thesis
    using those ok' get by (auto simp: json_entries_def)
qed

lemma json_rt_map:
  assumes "text_map L m" and "\<And>k v. (k, v) \<in> set m \<Longrightarrow> json_rt L v \<noteq> None"
  shows "\<exists>m'. json_rt L (GMap m) = Some (GMap m') \<and> gomap_ok m' \<and>
    (\<forall>k. mget m' k = Option.bind (mget m k) (json_rt L))"
  using json_entries_get [of L m "json_rt L"] assms by auto

section \<open>The parts of a checkpoint\<close>

lemma sint_exact: "exact_int n \<Longrightarrow> sint (word_of_int n :: 64 word) = n"
  by (simp add: exact_int_def abs_le_iff signed_of_int signed_take_bit_int_eq_self_iff)

lemma int_map_wire:
  assumes "text_map L m" and "\<forall>(k, n) \<in> set m. exact_int n"
  shows "\<exists>m'. json_rt L (int_map m) = Some (GMap m') \<and> gomap_ok m' \<and>
    (\<forall>k. mget m' k = map_option (\<lambda>n. GFloat (f64_of_int L n)) (mget m k))"
proof -
  have ok: "gomap_ok m" using assms(1) by (simp add: text_map_def)
  let ?m = "map (map_prod id (\<lambda>n. GInt (word_of_int n))) m"
  have "text_map L ?m" using assms(1) by (simp add: text_map_def gomap_ok_def comp_def)
  moreover have "json_rt L v \<noteq> None" if "(k, v) \<in> set ?m" for k v using that by auto
  ultimately obtain m' where m': "json_rt L (GMap ?m) = Some (GMap m')" "gomap_ok m'"
    and get: "\<And>k. mget m' k = Option.bind (mget ?m k) (json_rt L)"
    using json_rt_map [of L ?m] by blast
  have "mget m' k = map_option (\<lambda>n. GFloat (f64_of_int L n)) (mget m k)" for k
    using assms(2) unfolding get mget_map_prod
    by (cases "mget m k") (auto simp: sint_exact dest!: map_of_SomeD)
  with m' show ?thesis by (auto simp: int_map_def ok)
qed

lemma parse_int_map:
  assumes "wire_lib L" and "gomap_ok m'" and "\<forall>(k, n) \<in> set m. exact_int n"
    and "\<And>k. mget m' k = map_option (\<lambda>n. GFloat (f64_of_int L n)) (mget m k)"
  shows "mget (parse_versions L m') k = mget m k"
  using assms unfolding parse_versions_def mget_mcollect [OF assms(2)] assms(4)
  by (cases "mget m k") (auto simp: wire_lib_def utf8_lib_def exact_int_def dest!: map_of_SomeD)

lemma seen_wire:
  assumes "wire_lib L" and "text_map L vs"
    and "\<forall>(k, m) \<in> set vs. text_map L m \<and> (\<forall>(k, n) \<in> set m. exact_int n)"
  shows "\<exists>vs'. json_rt L (GMap (map (map_prod id int_map) vs)) = Some (GMap vs') \<and>
    (\<forall>n. map_option mget (mget (parse_seen L vs') n) = map_option mget (mget vs n))"
proof -
  let ?m = "map (map_prod id int_map) vs"
  have "text_map L ?m" using assms(2) by (simp add: text_map_def gomap_ok_def comp_def)
  moreover have "json_rt L v \<noteq> None" if "(k, v) \<in> set ?m" for k v
    using that assms(3) int_map_wire by fastforce
  ultimately obtain vs' where vs': "json_rt L (GMap ?m) = Some (GMap vs')" "gomap_ok vs'"
    and get: "\<And>k. mget vs' k = Option.bind (mget ?m k) (json_rt L)"
    using json_rt_map [of L ?m] by blast
  have "map_option mget (mget (parse_seen L vs') n) = map_option mget (mget vs n)" for n
  proof (cases "mget vs n")
    case None
    then show ?thesis by (simp add: parse_seen_def mget_mcollect [OF vs'(2)] get mget_map_prod)
  next
    case (Some m)
    with assms(3) have ok: "text_map L m" "\<forall>(k, n) \<in> set m. exact_int n"
      by (auto dest!: map_of_SomeD)
    then obtain m' where m': "json_rt L (int_map m) = Some (GMap m')" "gomap_ok m'"
      "\<And>k. mget m' k = map_option (\<lambda>n. GFloat (f64_of_int L n)) (mget m k)"
      using int_map_wire by blast
    then have "mget (parse_versions L m') = mget m"
      using parse_int_map [OF assms(1) m'(2) ok(2)] by blast
    with Some m'(1) show ?thesis
      by (simp add: parse_seen_def mget_mcollect [OF vs'(2)] get mget_map_prod)
  qed
  with vs'(1) show ?thesis by blast
qed

text \<open>A deep copy always marshals, and its JSON image is its own copy.\<close>

lemma json_copy_plain: "json_lib L \<Longrightarrow> json_plain L (json_copy L v)"
  using json_rt_plain [of L v] by (auto simp: json_copy_def split: option.splits)

lemma deepCopy_is_plain: "json_lib L \<Longrightarrow> json_plain L (deepCopy L v)"
proof (induction v)
  case (GMap m)
  then show ?case by (fastforce simp: list_all_iff)
qed (auto simp: list_all_iff json_copy_plain)

lemma those_None: "those xs = None \<longleftrightarrow> None \<in> set xs"
  by (induction xs) (auto split: option.splits)

lemma plain_marshals: "json_plain L v \<Longrightarrow> json_rt L v \<noteq> None"
proof (induction v)
  case (GSlice vs)
  then have "\<forall>v \<in> set vs. json_rt L v \<noteq> None" by (simp add: list_all_iff)
  then have "None \<notin> set (map (json_rt L) vs)" by (metis imageE set_map)
  then show ?case by (simp only: json_rt.simps map_option_is_None those_None not_False_eq_True)
next
  case (GMap m)
  then show ?case
    by (fastforce simp: json_entries_def those_None list_all_iff split: option.splits)
qed auto

lemma state_wire:
  assumes "wire_lib L" and "text_map L st"
  shows "\<exists>st'. json_rt L (GMap (mcopy [] (deepCopyMap L st))) = Some (GMap st') \<and>
    (\<forall>k. mget (mcopy [] (deepCopyMap L st')) k = Option.bind (mget st k) (\<lambda>v. json_rt L (deepCopy L v)))"
proof -
  have lib: "json_lib L" using assms(1) by (simp add: wire_lib_def utf8_lib_def)
  have ok: "gomap_ok st" using assms(2) by (simp add: text_map_def)
  let ?m = "deepCopyMap L st"
  have "text_map L ?m" using assms(2) by (simp add: text_map_def json del: set_map)
  moreover have "json_rt L v \<noteq> None" if "(k, v) \<in> set ?m" for k v
    using that plain_marshals [OF deepCopy_is_plain [OF lib]] by (auto simp: deepCopyMap_def)
  ultimately obtain st' where st': "json_rt L (GMap ?m) = Some (GMap st')" "gomap_ok st'"
    and get: "\<And>k. mget st' k = Option.bind (mget ?m k) (json_rt L)"
    using json_rt_map [of L ?m] by blast
  have "map_option (deepCopy L) (json_rt L w) = json_rt L w" for w
    using deepCopy_plain [OF json_rt_plain [OF lib]] by (cases "json_rt L w") auto
  then have "mget (mcopy [] (deepCopyMap L st')) k = Option.bind (mget st k) (\<lambda>v. json_rt L (deepCopy L v))" for k
    using st'(2) by (cases "mget st k") (simp_all add: json get)
  with st'(1) ok show ?thesis by (auto simp: json)
qed

lemma writes_wire:
  assumes "wire_lib L"
    and "\<forall>pw \<in> set ws. json_utf8 L (PwChannel pw) = PwChannel pw \<and> json_utf8 L (PwNode pw) = PwNode pw \<and>
           json_rt L (PwValue pw) \<noteq> None"
  shows "\<exists>vs. json_rt L (GSlice (map (\<lambda>pw. GMap
      [(''channel'', GStr (PwChannel pw)), (''value'', PwValue pw),
       (''overwrite'', GBool (PwOverwrite pw)), (''node'', GStr (PwNode pw))]) ws)) = Some (GSlice vs) \<and>
    map (\<lambda>w. (PwChannel w, PwOverwrite w, PwNode w, Some (PwValue w))) (concat (map parse_write vs)) =
    map (\<lambda>w. (PwChannel w, PwOverwrite w, PwNode w, json_rt L (PwValue w))) ws"
  using assms(2)
proof (induction ws)
  case Nil
  then show ?case by simp
next
  case (Cons pw ws)
  let ?m = "[(''channel'', GStr (PwChannel pw)), (''value'', PwValue pw),
     (''overwrite'', GBool (PwOverwrite pw)), (''node'', GStr (PwNode pw))]"
  have asc: "json_utf8 L ''channel'' = ''channel''" "json_utf8 L ''value'' = ''value''"
    "json_utf8 L ''overwrite'' = ''overwrite''" "json_utf8 L ''node'' = ''node''"
    using assms(1) by (simp_all add: wire_lib_def utf8_lib_def ascii_def)
  have "text_map L ?m" by (simp add: text_map_def gomap_ok_def asc)
  moreover have "json_rt L v \<noteq> None" if "(k, v) \<in> set ?m" for k v
    using that Cons.prems by auto
  ultimately obtain m' where m': "json_rt L (GMap ?m) = Some (GMap m')"
    and get: "\<And>k. mget m' k = Option.bind (mget ?m k) (json_rt L)"
    using json_rt_map [of L ?m] by blast
  obtain w where w: "json_rt L (PwValue pw) = Some w" using Cons.prems by auto
  have parse: "parse_write (GMap m') = [\<lparr>PwChannel = PwChannel pw, PwValue = w,
      PwOverwrite = PwOverwrite pw, PwNode = PwNode pw, PwTimestamp = zero_time, PwTaskID = []\<rparr>]"
    using Cons.prems by (simp add: parse_write_def getString_def getBool_def mget_or_def get w)
  from Cons obtain vs where
    vs: "json_rt L (GSlice (map (\<lambda>pw. GMap
      [(''channel'', GStr (PwChannel pw)), (''value'', PwValue pw),
       (''overwrite'', GBool (PwOverwrite pw)), (''node'', GStr (PwNode pw))]) ws)) = Some (GSlice vs)"
    and eq: "map (\<lambda>w. (PwChannel w, PwOverwrite w, PwNode w, Some (PwValue w))) (concat (map parse_write vs)) =
      map (\<lambda>w. (PwChannel w, PwOverwrite w, PwNode w, json_rt L (PwValue w))) ws"
    by auto
  show ?case
    by (rule exI [of _ "GMap m' # vs"]) (use vs m' eq parse w in \<open>simp del: json_rt.simps(10)\<close>)
qed

lemma mget_filter_keys: "mget (filter (\<lambda>(k, v). P k) m) k = (if P k then mget m k else None)"
  by (induction m) auto

lemma gomap_ok_filter: "gomap_ok m \<Longrightarrow> gomap_ok (filter P m)"
  by (simp add: gomap_ok_def distinct_map_filter)

lemma metadata_wire:
  assumes "wire_lib L" and "exact_int (MdStep md)" and "year_ok (MdCreatedAt md)"
    and "\<forall>s \<in> {MdID md, MdParentID md, MdThreadID md, MdSource md}. json_utf8 L s = s"
    and "text_map L (MdMetadata md)"
    and "\<forall>(k, v) \<in> set (MdMetadata md). k \<notin> reserved_names \<and> json_rt L v \<noteq> None"
  shows "\<exists>md'. json_rt L (GMap (metadata_map L md)) = Some (GMap md') \<and>
    (parse_metadata L md')\<lparr>MdMetadata := MdMetadata md\<rparr> = md \<and>
    (\<forall>k. mget (MdMetadata (parse_metadata L md')) k = Option.bind (mget (MdMetadata md) k) (json_rt L))"
proof -
  let ?base = "[(''id'', GStr (MdID md)), (''parent_id'', GStr (MdParentID md)),
      (''thread_id'', GStr (MdThreadID md)), (''step'', GInt (word_of_int (MdStep md))),
      (''created_at'', GStr (fmt_time L (MdCreatedAt md))), (''source'', GStr (MdSource md))]"
  let ?cu = "MdMetadata md"
  have ok: "gomap_ok ?cu" using assms(5) by (simp add: text_map_def)
  have fresh: "mget ?cu k = None" if "k \<in> reserved_names" for k
    using assms(6) that by (force simp: map_of_eq_None_iff)
  have "mdom ?base \<inter> mdom ?cu = {}"
    using assms(6) by (fastforce simp: reserved_names_def)
  then have eq: "metadata_map L md = ?base @ ?cu"
    using ok by (simp only: metadata_map_def mcopy_append)
  have asc: "json_utf8 L ''id'' = ''id''" "json_utf8 L ''parent_id'' = ''parent_id''"
    "json_utf8 L ''thread_id'' = ''thread_id''" "json_utf8 L ''step'' = ''step''"
    "json_utf8 L ''created_at'' = ''created_at''" "json_utf8 L ''source'' = ''source''"
    "json_utf8 L (fmt_time L (MdCreatedAt md)) = fmt_time L (MdCreatedAt md)"
    using assms(1,3) by (simp_all add: wire_lib_def utf8_lib_def ascii_def)
  have base_ok: "gomap_ok ?base" "\<forall>k \<in> set (mkeys ?base). json_utf8 L k = k"
    by (simp_all add: gomap_ok_def asc)
  have "text_map L (?base @ ?cu)"
    using base_ok assms(5) \<open>mdom ?base \<inter> mdom ?cu = {}\<close>
    unfolding text_map_def gomap_ok_def map_append distinct_append set_append set_map by blast
  moreover have "json_rt L v \<noteq> None" if "(k, v) \<in> set (?base @ ?cu)" for k v
    using that assms(6) by auto
  ultimately obtain md' where md': "json_rt L (GMap (?base @ ?cu)) = Some (GMap md')" "gomap_ok md'"
    and get: "\<And>k. mget md' k = Option.bind (mget (?base @ ?cu) k) (json_rt L)"
    using json_rt_map [of L "?base @ ?cu"] by blast
  have get': "mget md' k =
      (case mget ?base k of Some v \<Rightarrow> json_rt L v | None \<Rightarrow> Option.bind (mget ?cu k) (json_rt L))" for k
    unfolding get map_of_append map_add_def by (simp split: option.split)
  have "mget md' ''id'' = Some (GStr (MdID md))" "mget md' ''parent_id'' = Some (GStr (MdParentID md))"
    "mget md' ''thread_id'' = Some (GStr (MdThreadID md))" "mget md' ''source'' = Some (GStr (MdSource md))"
    "mget md' ''step'' = Some (GFloat (f64_of_int L (MdStep md)))"
    "mget md' ''created_at'' = Some (GStr (fmt_time L (MdCreatedAt md)))"
    using assms(2,4) asc(7) sint_exact by (simp_all add: get')
  then have "(parse_metadata L md')\<lparr>MdMetadata := ?cu\<rparr> = md"
    using assms(1,2,3)
    by (intro CheckpointMetadata.equality)
      (simp_all add: parse_metadata_def getString_def getInt_def wire_lib_def utf8_lib_def exact_int_def)
  moreover have "mget (MdMetadata (parse_metadata L md')) k = Option.bind (mget ?cu k) (json_rt L)" for k
  proof -
    have "mget (MdMetadata (parse_metadata L md')) k = (if k \<notin> reserved_names then mget md' k else None)"
      using mcopy_Nil [OF gomap_ok_filter [OF md'(2)]]
      by (simp add: parse_metadata_def reserved_names_def mget_filter_keys)
    also have "\<dots> = Option.bind (mget ?cu k) (json_rt L)"
      using fresh [of k] by (simp add: get' reserved_names_def)
    finally show ?thesis .
  qed
  ultimately show ?thesis using md'(1) eq by auto
qed

end
