(* ===== verification/Sample_Lib.thy ===== *)
theory Sample_Lib
  imports Checkpoint_Wire
begin

text \<open>
  A concrete instance of the library parameters, on which the hypotheses about the standard library
  hold: text is ASCII-clean, small integers are coded injectively by finite bit patterns, times are
  written in unary. The examples that instantiate the theorems use it.
\<close>

definition sample_of_int :: "int \<Rightarrow> 64 word" where
  "sample_of_int n = (if 0 \<le> n \<and> n \<le> 2 ^ 53 then word_of_int n
     else if - (2 ^ 53) \<le> n \<and> n < 0 then word_of_int (2 ^ 63 - n) else 0)"

definition sample_to_int :: "64 word \<Rightarrow> int" where
  "sample_to_int x = (if uint x < 2 ^ 63 then uint x else 2 ^ 63 - uint x)"

definition sample_fmt_time :: "int \<Rightarrow> string" where
  "sample_fmt_time t = (if t < 0 then CHR ''-'' else CHR ''+'') # replicate (nat \<bar>t\<bar>) CHR ''1''"

definition sample_parse_time :: "string \<Rightarrow> int option" where
  "sample_parse_time s =
     (case s of [] \<Rightarrow> None | c # cs \<Rightarrow> Some (if c = CHR ''-'' then - int (length cs) else int (length cs)))"

text \<open>Insertion of an index before the first one that is not less, as in insertion sort.\<close>

fun sample_insert :: "(nat \<Rightarrow> nat \<Rightarrow> bool) \<Rightarrow> nat \<Rightarrow> nat list \<Rightarrow> nat list" where
  "sample_insert lt i [] = [i]"
| "sample_insert lt i (j # js) = (if lt j i then j # sample_insert lt i js else i # j # js)"

definition sample_lib :: golib where
  "sample_lib =
     \<lparr>f64_add = (+), f64_of_int = sample_of_int, f64_to_int = sample_to_int, f64_less = (<), f64_eq = (=),
      fmt_v = (\<lambda>v. []), base64 = (\<lambda>s. s), json_utf8 = (\<lambda>s. s), json_other = (\<lambda>v. None),
      regexp_match = (\<lambda>p s. None), to_lower = (\<lambda>s. s), fmt_time = sample_fmt_time,
      parse_time = sample_parse_time, trim_space = (\<lambda>s. s), json_marshal = (\<lambda>v. None),
      json_unmarshal = (\<lambda>s. None), reflect_convert = (\<lambda>v t. None),
      f64_mul = (*), f64_div = (\<lambda>x y. x div y), f64_sqrt = (\<lambda>x. x), ptr_eq = (=),
      sort_perm = (\<lambda>lt n. foldr (sample_insert lt) [0..<n] []), fmt_T = (\<lambda>v. []), fmt_d = sample_fmt_time,
      sha256 = (\<lambda>s. s), to_hex = (\<lambda>s. s)\<rparr>"

lemma uint_in_range: "0 \<le> k \<Longrightarrow> k < 2 ^ 64 \<Longrightarrow> uint (word_of_int k :: 64 word) = k"
  by (simp add: uint_word_of_int)

lemma sample_uint:
  "uint (sample_of_int n) = (if 0 \<le> n \<and> n \<le> 2 ^ 53 then n
     else if - (2 ^ 53) \<le> n \<and> n < 0 then 2 ^ 63 - n else 0)"
  using uint_in_range [of n] uint_in_range [of "2 ^ 63 - n"]
  unfolding sample_of_int_def by (simp del: of_int_diff)

lemma sample_finite: "finite_f64 (sample_of_int n)"
proof -
  have small: "(j :: int) div 2 ^ 52 mod 2 ^ 11 \<le> 2" if "0 \<le> j" "j \<le> 2 ^ 53" for j
  proof -
    have "j div 2 ^ 52 \<le> 2 ^ 53 div 2 ^ 52" using that by (intro zdiv_mono1) auto
    then have "j div 2 ^ 52 \<le> 2" by simp
    moreover have "0 \<le> j div 2 ^ 52" using that by (simp add: pos_imp_zdiv_nonneg_iff)
    ultimately show ?thesis
      using zmod_le_nonneg_dividend [of "j div 2 ^ 52" "2 ^ 11"] by linarith
  qed
  have shift: "(2 ^ 63 - n) div 2 ^ 52 mod 2 ^ 11 = (- n) div 2 ^ 52 mod (2 ^ 11 :: int)"
  proof -
    have "(2 ^ 63 - n) div 2 ^ 52 = (- n + 2 ^ 11 * 2 ^ 52) div 2 ^ 52" by simp
    also have "\<dots> = 2 ^ 11 + (- n) div 2 ^ 52" by (subst div_mult_self1) simp_all
    finally show ?thesis by simp
  qed
  have "uint (sample_of_int n) div 2 ^ 52 mod 2 ^ 11 \<le> 2"
    using small [of n] small [of "- n"] shift by (auto simp: sample_uint)
  then show ?thesis by (auto simp: finite_f64_def)
qed

lemma sample_json_lib: "json_lib sample_lib"
  by (simp add: json_lib_def sample_lib_def sample_finite)

lemma sample_exact: "\<bar>n\<bar> \<le> 2 ^ 53 \<Longrightarrow> sample_to_int (sample_of_int n) = n"
  by (auto simp: sample_to_int_def sample_uint)

lemma sample_wire_lib: "wire_lib sample_lib"
  unfolding wire_lib_def utf8_lib_def
proof (intro conjI allI impI)
  show "json_lib sample_lib" by (rule sample_json_lib)
  show "f64_to_int sample_lib (f64_of_int sample_lib n) = n" if "\<bar>n\<bar> \<le> 2 ^ 53" for n
    using sample_exact [OF that] by (simp add: sample_lib_def)
qed (auto simp: sample_lib_def sample_fmt_time_def sample_parse_time_def ascii_def list_all_iff)

lemma sample_utf8_lib: "utf8_lib sample_lib"
  using sample_wire_lib by (simp add: wire_lib_def)

end
