(* ===== verification/Memory_Saver.thy ===== *)
theory Memory_Saver
  imports Deep_Copy Graph_Errors
begin

text \<open>
  The in-memory checkpointer of \<open>checkpoint/memory.go\<close>, and the contract \<open>checkpointer\<close> the engine
  relies on (\<open>BaseCheckpointer\<close>): a thread reads back the copy of its last saved checkpoint, and
  saving on one thread does not change what another reads. The contract is a locale: its lemmas hold
  for every checkpointer, and the interpretation \<open>memory\<close> discharges it for \<open>MemorySaver\<close>.
\<close>

record checkpointEntry =
  CeID :: string
  CeThreadID :: string
  CeCheckpoint :: "gval gomap"
  CeMetadata :: "gval gomap"
  CeCreatedAt :: int
  CeParentID :: string

record MemorySaver =
  ms_checkpoints :: "gval gomap gomap"
  ms_versions :: "checkpointEntry list gomap"

record CheckpointState =
  CsCheckpoint :: "gval gomap"
  CsMetadata :: "gval gomap"

definition NewMemorySaver :: MemorySaver where
  "NewMemorySaver = \<lparr>ms_checkpoints = [], ms_versions = []\<rparr>"

text \<open>\<open>config[key].(string)\<close>.\<close>

definition cfg_string :: "gval gomap \<Rightarrow> string \<Rightarrow> string option" where
  "cfg_string config key = (case mget config key of Some (GStr s) \<Rightarrow> Some s | _ \<Rightarrow> None)"

definition ms_Get :: "golib \<Rightarrow> MemorySaver \<Rightarrow> gval gomap \<Rightarrow> gval gomap option res" where
  "ms_Get L s config =
     (case cfg_string config ''thread_id'' of
        None \<Rightarrow> Inl (Errorf ''thread_id is required'' [])
      | Some threadID \<Rightarrow>
          (let versions = mget_or [] (ms_versions s) threadID
           in case cfg_string config ''checkpoint_id'' of
                Some checkpointID \<Rightarrow>
                  (case find (\<lambda>entry. CeID entry = checkpointID) versions of
                     Some entry \<Rightarrow> Inr (Some (deepCopyMap L (CeCheckpoint entry)))
                   | None \<Rightarrow> Inl (Errorf (''checkpoint not found: '' @ checkpointID) []))
              | None \<Rightarrow>
                  (if versions = [] then Inr None
                   else Inr (Some (deepCopyMap L (CeCheckpoint (last versions)))))))"

definition ms_Put ::
  "golib \<Rightarrow> string \<Rightarrow> int \<Rightarrow> MemorySaver \<Rightarrow> gval gomap \<Rightarrow> gval gomap \<Rightarrow> MemorySaver res" where
  "ms_Put L uuid now s config checkpoint =
     (case cfg_string config ''thread_id'' of
        None \<Rightarrow> Inl (Errorf ''thread_id is required'' [])
      | Some threadID \<Rightarrow>
          (let checkpointID = (case cfg_string config ''checkpoint_id'' of Some i \<Rightarrow> i | None \<Rightarrow> uuid);
               entry = \<lparr>CeID = checkpointID, CeThreadID = threadID,
                        CeCheckpoint = deepCopyMap L checkpoint, CeMetadata = deepCopyMap L config,
                        CeCreatedAt = now,
                        CeParentID = (case cfg_string config ''parent_checkpoint_id'' of Some p \<Rightarrow> p | None \<Rightarrow> [])\<rparr>
           in Inr (s\<lparr>ms_versions := mput threadID (mget_or [] (ms_versions s) threadID @ [entry]) (ms_versions s),
                     ms_checkpoints := mput threadID (deepCopyMap L checkpoint) (ms_checkpoints s)\<rparr>)))"

definition list_entry :: "golib \<Rightarrow> checkpointEntry \<Rightarrow> gval gomap" where
  "list_entry L entry =
     [(''checkpoint_id'', GStr (CeID entry)), (''thread_id'', GStr (CeThreadID entry)),
      (''metadata'', GMap (deepCopyMap L (CeMetadata entry))),
      (''created_at'', GTime (CeCreatedAt entry)), (''parent_id'', GStr (CeParentID entry))]"

definition ms_List :: "golib \<Rightarrow> MemorySaver \<Rightarrow> gval gomap \<Rightarrow> int \<Rightarrow> gval gomap list res" where
  "ms_List L s config limit =
     (case cfg_string config ''thread_id'' of
        None \<Rightarrow> Inl (Errorf ''thread_id is required'' [])
      | Some threadID \<Rightarrow>
          (let versions = mget_or [] (ms_versions s) threadID;
               n = length versions;
               lim = (if limit \<le> 0 \<or> limit > int n then n else nat limit)
           in Inr (map (\<lambda>i. list_entry L (versions ! i)) (rev [n - lim..<n]))))"

definition ms_GetState :: "golib \<Rightarrow> MemorySaver \<Rightarrow> gval gomap \<Rightarrow> CheckpointState option res" where
  "ms_GetState L s config =
     (case cfg_string config ''thread_id'' of
        None \<Rightarrow> Inl (Errorf ''thread_id is required'' [])
      | Some threadID \<Rightarrow>
          (let versions = mget_or [] (ms_versions s) threadID;
               state = (\<lambda>entry. \<lparr>CsCheckpoint = deepCopyMap L (CeCheckpoint entry),
                                  CsMetadata = deepCopyMap L (CeMetadata entry)\<rparr>)
           in case cfg_string config ''checkpoint_id'' of
                None \<Rightarrow> (if versions = [] then Inr None else Inr (Some (state (last versions))))
              | Some checkpointID \<Rightarrow>
                  (case find (\<lambda>entry. CeID entry = checkpointID) versions of
                     Some entry \<Rightarrow> Inr (Some (state entry))
                   | None \<Rightarrow> Inl (Errorf (''checkpoint not found: '' @ checkpointID) []))))"

lemmas ms_defs = ms_Get_def ms_Put_def ms_List_def ms_GetState_def Let_def

section \<open>The contract of a checkpointer\<close>

text \<open>
  \<open>get\<close> reads, \<open>put\<close> saves (its first two arguments are the fresh identifier and the clock), and
  \<open>copy\<close> is what storing does to a checkpoint. A configuration without \<open>checkpoint_id\<close> asks for
  the latest checkpoint of its thread.
\<close>

definition latest_of :: "string \<Rightarrow> gval gomap \<Rightarrow> bool" where
  "latest_of t config \<longleftrightarrow> cfg_string config ''thread_id'' = Some t \<and> cfg_string config ''checkpoint_id'' = None"

locale checkpointer =
  fixes new :: 's
    and get :: "'s \<Rightarrow> gval gomap \<Rightarrow> gval gomap option res"
    and put :: "string \<Rightarrow> int \<Rightarrow> 's \<Rightarrow> gval gomap \<Rightarrow> gval gomap \<Rightarrow> 's res"
    and copy :: "gval gomap \<Rightarrow> gval gomap"
  assumes get_new: "latest_of t config \<Longrightarrow> get new config = Inr None"
    and put_ok: "cfg_string config ''thread_id'' = Some t \<Longrightarrow> \<exists>s'. put i now s config cp = Inr s'"
    and put_get: "put i now s config cp = Inr s' \<Longrightarrow> cfg_string config ''thread_id'' = Some t \<Longrightarrow>
      latest_of t config' \<Longrightarrow> get s' config' = Inr (Some (copy cp))"
    and put_get_other: "put i now s config cp = Inr s' \<Longrightarrow>
      cfg_string config ''thread_id'' \<noteq> cfg_string config' ''thread_id'' \<Longrightarrow> get s' config' = get s config'"
    and put_error: "put i now s config cp = Inl e \<Longrightarrow> cfg_string config ''thread_id'' = None"
begin

text \<open>A run of saves, each with its identifier, clock, configuration and checkpoint; a failed one changes nothing.\<close>

fun saves :: "'s \<Rightarrow> (string \<times> int \<times> gval gomap \<times> gval gomap) list \<Rightarrow> 's" where
  "saves s [] = s"
| "saves s ((i, now, config, cp) # ps) =
     saves (case put i now s config cp of Inl e \<Rightarrow> s | Inr s' \<Rightarrow> s') ps"

lemma saves_append: "saves s (ps @ qs) = saves (saves s ps) qs"
  by (induction s ps rule: saves.induct) auto

text \<open>After any interleaving of saves a thread reads its own last one, or what it read before.\<close>

lemma saves_get:
  assumes "latest_of t config"
  shows "get (saves s ps) config =
    (case rev (filter (\<lambda>(i, now, c, cp). cfg_string c ''thread_id'' = Some t) ps) of
       [] \<Rightarrow> get s config
     | (i, now, c, cp) # _ \<Rightarrow> Inr (Some (copy cp)))"
proof (induction ps rule: rev_induct)
  case Nil
  then show ?case by simp
next
  case (snoc p ps)
  obtain i now c cp where p: "p = (i, now, c, cp)" by (cases p) auto
  let ?s = "saves s ps"
  show ?case
  proof (cases "cfg_string c ''thread_id'' = Some t")
    case True
    then obtain s' where s': "put i now ?s c cp = Inr s'" using put_ok by blast
    with True put_get [OF s' True assms] show ?thesis by (simp add: p saves_append)
  next
    case False
    then have "get (case put i now ?s c cp of Inl e \<Rightarrow> ?s | Inr s' \<Rightarrow> s') config = get ?s config"
      using put_get_other [of i now ?s c cp] assms by (auto simp: latest_of_def split: sum.splits)
    with False snoc.IH show ?thesis by (simp add: p saves_append)
  qed
qed

end

lemma ms_put_get:
  assumes "ms_Put L i now s config cp = Inr s'" and "cfg_string config ''thread_id'' = Some t"
    and "latest_of t config'"
  shows "ms_Get L s' config' = Inr (Some (deepCopyMap L (deepCopyMap L cp)))"
  using assms by (auto simp: ms_defs latest_of_def gomap)

lemma ms_put_get_other:
  assumes "ms_Put L i now s config cp = Inr s'"
    and "cfg_string config ''thread_id'' \<noteq> cfg_string config' ''thread_id''"
  shows "ms_Get L s' config' = ms_Get L s config'"
  using assms by (auto simp: ms_defs gomap split: option.splits)

interpretation memory: checkpointer NewMemorySaver "ms_Get L" "ms_Put L" "\<lambda>cp. deepCopyMap L (deepCopyMap L cp)"
  for L
proof
  show "latest_of t config \<Longrightarrow> ms_Get L NewMemorySaver config = Inr None" for t config
    by (simp add: ms_defs latest_of_def NewMemorySaver_def)
  show "\<exists>s'. ms_Put L i now s config cp = Inr s'"
    if "cfg_string config ''thread_id'' = Some t" for config t i now s cp
    using that by (simp add: ms_defs)
  show "cfg_string config ''thread_id'' = None"
    if "ms_Put L i now s config cp = Inl e" for i now s config cp e
    using that by (auto simp: ms_defs split: option.splits)
qed (fact ms_put_get ms_put_get_other)+

text \<open>
  A checkpoint found by its identifier is the first one saved under it: saving again under the same
  identifier adds an entry that the identifier does not reach.
\<close>

lemma ms_get_by_id_first:
  assumes "ms_Put L i now s config cp = Inr s'"
    and "cfg_string config ''thread_id'' = Some t" and "cfg_string config ''checkpoint_id'' = Some cid"
    and "ms_Get L s config = Inr (Some old)"
  shows "ms_Get L s' config = Inr (Some old)"
  using assms
  by (auto simp: ms_defs gomap find_append split: option.splits)

end
