(* ===== verification/Checkpoint_Properties.thy ===== *)
theory Checkpoint_Properties
  imports Sample_Lib Memory_Saver
begin

text \<open>
  Properties of checkpoints: the JSON round trip of the map form, the linear history that optimistic
  concurrency control gives a thread whatever the interleaving of its clients, the effect and the
  exclusiveness of a write, the bounded history of the manager, and the reads of the in-memory
  checkpointer (from the interpretation of the \<open>checkpointer\<close> contract).
\<close>

section \<open>The map form through JSON\<close>

lemma ToMap_wire:
  assumes "wire_lib L" and "wire_ok L c"
  shows "\<exists>data. json_rt L (GMap (ToMap L c)) = Some (GMap data) \<and>
    (\<forall>k. mget data k = Option.bind (mget (ToMap L c) k) (json_rt L))"
proof -
  have asc: "json_utf8 L ''id'' = ''id''" "json_utf8 L ''version'' = ''version''"
    "json_utf8 L ''parent_id'' = ''parent_id''" "json_utf8 L ''channel_versions'' = ''channel_versions''"
    "json_utf8 L ''versions_seen'' = ''versions_seen''" "json_utf8 L ''state'' = ''state''"
    "json_utf8 L ''pending_writes'' = ''pending_writes''" "json_utf8 L ''metadata'' = ''metadata''"
    using assms(1) by (simp_all add: wire_lib_def utf8_lib_def ascii_def)
  have "text_map L (ToMap L c)" by (simp add: text_map_def gomap_ok_def ToMap_def Let_def asc)
  moreover have "json_rt L v \<noteq> None" if "(k, v) \<in> set (ToMap L c)" for k v
    using that assms(2) int_map_wire [of L "CpChannelVersions c"]
      seen_wire [OF assms(1), of "CpVersionsSeen c"] state_wire [OF assms(1), of "CpState c"]
      writes_wire [OF assms(1), of "CpPendingWrites c"] metadata_wire [OF assms(1), of "CpMetadata c"]
    by (auto simp: ToMap_def Let_def wire_ok_def text_map_def simp del: json_rt.simps(9,10))
  ultimately show ?thesis using json_rt_map [of L "ToMap L c"] by blast
qed

text \<open>C12: A checkpoint written as a map, marshalled to JSON, unmarshalled and parsed again is the checkpoint, if its names and keys are
  valid UTF-8, its integers at most 2 to the 53, its creation time in the years 1 to 9998, its metadata keys not reserved
  and its pending writes and metadata values encodable:
  the same identifiers and versions, the same channel versions and versions seen, the same metadata, and
  every state value and pending write as its JSON image (task identifiers and timestamps of pending
  writes are not part of the map).\<close>

theorem checkpoint_wire_roundtrip:
  assumes "wire_lib L" and "wire_ok L c"
  shows "\<exists>data. json_rt L (GMap (ToMap L c)) = Some (GMap data) \<and>
    CpID (FromMap L data) = CpID c \<and> CpVersion (FromMap L data) = CpVersion c \<and>
    CpParentID (FromMap L data) = CpParentID c \<and>
    mget (CpChannelVersions (FromMap L data)) = mget (CpChannelVersions c) \<and>
    (\<forall>n. map_option mget (mget (CpVersionsSeen (FromMap L data)) n) =
         map_option mget (mget (CpVersionsSeen c) n)) \<and>
    (\<forall>k. mget (CpState (FromMap L data)) k =
         Option.bind (mget (CpState c) k) (\<lambda>v. json_rt L (deepCopy L v))) \<and>
    map (\<lambda>w. (PwChannel w, PwOverwrite w, PwNode w, Some (PwValue w))) (CpPendingWrites (FromMap L data)) =
    map (\<lambda>w. (PwChannel w, PwOverwrite w, PwNode w, json_rt L (PwValue w))) (CpPendingWrites c) \<and>
    (CpMetadata (FromMap L data))\<lparr>MdMetadata := MdMetadata (CpMetadata c)\<rparr> = CpMetadata c \<and>
    (\<forall>k. mget (MdMetadata (CpMetadata (FromMap L data))) k =
         Option.bind (mget (MdMetadata (CpMetadata c)) k) (json_rt L))"
proof -
  note ok = assms(2) [unfolded wire_ok_def]
  obtain data where data: "json_rt L (GMap (ToMap L c)) = Some (GMap data)"
    and get: "\<And>k. mget data k = Option.bind (mget (ToMap L c) k) (json_rt L)"
    using ToMap_wire [OF assms] by blast
  obtain cv where cv: "json_rt L (int_map (CpChannelVersions c)) = Some (GMap cv)" "gomap_ok cv"
    "\<And>k. mget cv k = map_option (\<lambda>n. GFloat (f64_of_int L n)) (mget (CpChannelVersions c) k)"
    using int_map_wire [of L "CpChannelVersions c"] ok by blast
  have ok_seen: "gomap_ok (CpVersionsSeen c)" using ok by (simp add: text_map_def)
  obtain vs where vs: "json_rt L (GMap (map (map_prod id int_map) (CpVersionsSeen c))) = Some (GMap vs)"
    "\<forall>n. map_option mget (mget (parse_seen L vs) n) = map_option mget (mget (CpVersionsSeen c) n)"
    using seen_wire [OF assms(1), of "CpVersionsSeen c"] ok by blast
  obtain st where st: "json_rt L (GMap (mcopy [] (deepCopyMap L (CpState c)))) = Some (GMap st)"
    "\<forall>k. mget (mcopy [] (deepCopyMap L st)) k =
       Option.bind (mget (CpState c) k) (\<lambda>v. json_rt L (deepCopy L v))"
    using state_wire [OF assms(1), of "CpState c"] ok by blast
  obtain ws where ws: "json_rt L (GSlice (map (\<lambda>pw. GMap
      [(''channel'', GStr (PwChannel pw)), (''value'', PwValue pw),
       (''overwrite'', GBool (PwOverwrite pw)), (''node'', GStr (PwNode pw))]) (CpPendingWrites c))) = Some (GSlice ws)"
    "map (\<lambda>w. (PwChannel w, PwOverwrite w, PwNode w, Some (PwValue w))) (concat (map parse_write ws)) =
     map (\<lambda>w. (PwChannel w, PwOverwrite w, PwNode w, json_rt L (PwValue w))) (CpPendingWrites c)"
    using writes_wire [OF assms(1), of "CpPendingWrites c"] ok by blast
  obtain md where md: "json_rt L (GMap (metadata_map L (CpMetadata c))) = Some (GMap md)"
    "(parse_metadata L md)\<lparr>MdMetadata := MdMetadata (CpMetadata c)\<rparr> = CpMetadata c"
    "\<forall>k. mget (MdMetadata (parse_metadata L md)) k = Option.bind (mget (MdMetadata (CpMetadata c)) k) (json_rt L)"
    using metadata_wire [OF assms(1), of "CpMetadata c"] ok by blast
  have keys: "mget data ''id'' = Some (GStr (CpID c))" "mget data ''parent_id'' = Some (GStr (CpParentID c))"
    "mget data ''version'' = Some (GFloat (f64_of_int L (CpVersion c)))"
    using ok by (simp_all add: get ToMap_def sint_exact)
  have maps: "mget data ''channel_versions'' = Some (GMap cv)" "mget data ''versions_seen'' = Some (GMap vs)"
    "mget data ''state'' = Some (GMap st)" "mget data ''pending_writes'' = Some (GSlice ws)"
    "mget data ''metadata'' = Some (GMap md)"
    using cv(1) vs(1) st(1) ws(1) md(1) ok_seen
    by (simp_all add: get ToMap_def del: json_rt.simps(9,10))
  have "mget (parse_versions L cv) = mget (CpChannelVersions c)"
    using parse_int_map [OF assms(1) cv(2) _ cv(3)] ok by blast
  with keys maps vs(2) st(2) ws(2) md(2,3) data ok assms(1) show ?thesis
    by (auto simp: FromMap_def getString_def getInt_def getEntries_def wire_lib_def utf8_lib_def exact_int_def
      simp del: json_rt.simps)
qed

definition sample_checkpoint :: Checkpoint where
  "sample_checkpoint =
     (NewCheckpoint ''u1'' 3 ''t'' 7)\<lparr>CpVersion := 4, CpChannelVersions := [(''a'', 2)],
        CpVersionsSeen := [(''n'', [(''a'', 1)])], CpState := [(''a'', GStr ''x''), (''b'', GSlice [GBool True])],
        CpPendingWrites := [NewPendingWrite 5 ''a'' (GStr ''y'') True ''n'' ''task'']\<rparr>"

lemma sample_checkpoint_ok: "wire_ok sample_lib sample_checkpoint"
  by (simp add: wire_ok_def sample_checkpoint_def NewCheckpoint_def NewPendingWrite_def sample_lib_def
    text_map_def gomap_ok_def exact_int_def year_ok_def)

theorem checkpoint_wire_roundtrip_witness:
  "\<exists>data. json_rt sample_lib (GMap (ToMap sample_lib sample_checkpoint)) = Some (GMap data) \<and>
     CpVersion (FromMap sample_lib data) = 4 \<and>
     mget (CpState (FromMap sample_lib data)) ''a'' = Some (GStr ''x'')"
  using checkpoint_wire_roundtrip [OF sample_wire_lib sample_checkpoint_ok]
  by (fastforce simp: sample_checkpoint_def NewCheckpoint_def sample_lib_def json_copy_def simp del: json_rt.simps(10))

section \<open>The manager\<close>

text \<open>C8: Whatever the interleaving of saves, writes and clears by any number of clients, every checkpoint in the history of a
  thread agrees with the one before it in what it declares: a parent it names is the identifier of the one before, a version it
  carries is the next one. So when every client declares both (saving without parent or version switches the checks
  off, which the manager allows), the history is linear: every checkpoint names the one before it as its parent and
  carries the next version. With deletions of single checkpoints as well, versions then still strictly increase.\<close>

theorem manager_history_linear:
  assumes "cm_reachable del strict L n cm"
  shows "(\<not> del \<longrightarrow> (\<forall>i. Suc i < length (cm_history cm t) \<longrightarrow>
            (CpParentID (cm_history cm t ! Suc i) \<noteq> [] \<longrightarrow> CpParentID (cm_history cm t ! Suc i) = CpID (cm_history cm t ! i)) \<and>
            (CpVersion (cm_history cm t ! Suc i) > 0 \<longrightarrow> CpVersion (cm_history cm t ! Suc i) = CpVersion (cm_history cm t ! i) + 1))) \<and>
         (\<not> del \<and> strict \<longrightarrow> (\<forall>i. Suc i < length (cm_history cm t) \<longrightarrow>
            CpParentID (cm_history cm t ! Suc i) = CpID (cm_history cm t ! i) \<and>
            CpVersion (cm_history cm t ! Suc i) = CpVersion (cm_history cm t ! i) + 1)) \<and>
         (strict \<longrightarrow> (\<forall>i j. i < j \<longrightarrow> j < length (cm_history cm t) \<longrightarrow>
            CpVersion (cm_history cm t ! i) < CpVersion (cm_history cm t ! j)))"
proof -
  have "successively (\<lambda>a b. agrees a b \<and> (strict \<longrightarrow> follows a b)) (cm_history cm t)" if "\<not> del"
    using reachable_linear [of strict L n cm t] assms that by (cases del) auto
  moreover have "sorted_wrt (\<lambda>a b. CpVersion a < CpVersion b) (cm_history cm t)" if strict
    using reachable_increasing [of del L n cm t] assms that by (cases strict) auto
  ultimately show ?thesis
    by (auto simp: successively_conv_nth follows_def agrees_def sorted_wrt_iff_nth_less)
qed

definition sample_config :: RunnableConfig where
  "sample_config = thread_config ''t'' ''u1''"

definition sample_manager :: CheckpointManager where
  "sample_manager =
     (case cm_Save (NewCheckpointManager 2) (NewCheckpoint ''u1'' 0 ''t'' 0) of Inr cm \<Rightarrow> cm)"

definition sample_writes :: "PendingWrite list" where
  "sample_writes = [NewPendingWrite 1 ''a'' (GStr ''x'') False ''n'' ''k'', NewPendingWrite 2 ''a'' (GStr ''y'') False ''n'' ''k'']"

definition sample_manager2 :: CheckpointManager where
  "sample_manager2 =
     (case cm_PutWrites sample_lib ''u2'' 9 sample_manager sample_config sample_writes of Inr cm \<Rightarrow> cm)"

lemmas sample_cm_defs = sample_config_def sample_manager_def sample_writes_def sample_manager2_def
  thread_config_def Config_Set_def NewRunnableConfig_def NewCheckpointManager_def NewCheckpoint_def
  NewPendingWrite_def cm_Save_def cm_PutWrites_def Config_GetOrEmpty_def mget_or_def Let_def

lemma sample_save: "cm_Save (NewCheckpointManager 2) (NewCheckpoint ''u1'' 0 ''t'' 0) = Inr sample_manager"
  by (simp add: sample_cm_defs)

lemma sample_put: "cm_PutWrites sample_lib ''u2'' 9 sample_manager sample_config sample_writes = Inr sample_manager2"
  by (simp add: sample_cm_defs)

lemma sample_reachable: "cm_reachable False True sample_lib 2 sample_manager2"
proof (rule cm_reachable.step)
  show "cm_reachable False True sample_lib 2 sample_manager"
    by (rule cm_reachable.step [OF cm_reachable.init cm_step.save [OF sample_save]]) simp
  show "cm_step False True sample_lib sample_manager sample_manager2" by (rule cm_step.put [OF sample_put])
qed

theorem manager_history_linear_witness:
  "length (cm_history sample_manager2 ''t'') = 2 \<and>
   CpParentID (cm_history sample_manager2 ''t'' ! 1) = CpID (cm_history sample_manager2 ''t'' ! 0) \<and>
   CpVersion (cm_history sample_manager2 ''t'' ! 1) = CpVersion (cm_history sample_manager2 ''t'' ! 0) + 1"
proof -
  have "length (cm_history sample_manager2 ''t'') = 2" by (simp add: sample_cm_defs)
  then show ?thesis using manager_history_linear [OF sample_reachable, of "''t''"] by simp
qed

text \<open>C6: A successful PutWrites appends exactly one checkpoint to its thread and touches no other: the state
  is the copied state overridden by the writes (the last write of a channel wins), each channel version
  grows by the number of writes to the channel, the version by one, and the parent is the checkpoint the
  caller named. Afterwards every other writer that started from the same checkpoint is refused with a
  version conflict, and the refused writer changes nothing.\<close>

theorem put_writes_exclusive:
  assumes "cm_PutWrites L i now cm cfg ws = Inr cm'"
    and "i \<noteq> Config_GetOrEmpty cfg ''checkpoint_id''"
    and "gomap_ok (CpState (last (cm_history cm (ThreadID cfg))))"
    and "gomap_ok (CpChannelVersions (last (cm_history cm (ThreadID cfg))))"
  shows "\<exists>new. cm_history cm' (ThreadID cfg) = cm_history cm (ThreadID cfg) @ [new] \<and>
    (\<forall>t. t \<noteq> ThreadID cfg \<longrightarrow> cm_history cm' t = cm_history cm t) \<and>
    CpID new = i \<and> CpParentID new = Config_GetOrEmpty cfg ''checkpoint_id'' \<and>
    CpVersion new = CpVersion (last (cm_history cm (ThreadID cfg))) + 1 \<and>
    mget (CpState new) = mget (deepCopyMap L (CpState (last (cm_history cm (ThreadID cfg))))) ++
      map_of (rev (map (\<lambda>w. (PwChannel w, PwValue w)) ws)) \<and>
    (\<forall>ch. mget_or 0 (CpChannelVersions new) ch =
       mget_or 0 (CpChannelVersions (last (cm_history cm (ThreadID cfg)))) ch +
       int (length (filter (\<lambda>w. PwChannel w = ch) ws))) \<and>
    (\<forall>cfg2 i2 now2 ws2. ThreadID cfg2 = ThreadID cfg \<longrightarrow>
       Config_GetOrEmpty cfg2 ''checkpoint_id'' = Config_GetOrEmpty cfg ''checkpoint_id'' \<longrightarrow>
       cm_PutWrites L i2 now2 cm' cfg2 ws2 =
         Inl (VersionConflictError (CpVersion new) (CpVersion new + 1) i (ThreadID cfg)))"
proof -
  let ?h = "cm_history cm (ThreadID cfg)"
  let ?new = "fold apply_write ws
    ((Clone L i now (last ?h))\<lparr>CpVersion := CpVersion (last ?h) + 1, CpParentID := CpID (last ?h)\<rparr>)"
  have hist: "cm_history cm' t = (if t = ThreadID cfg then ?h @ [?new] else cm_history cm t)" for t
    using PutWrites_history [OF assms(1), of t] by simp
  have ids: "Config_GetOrEmpty cfg ''checkpoint_id'' = CpID (last ?h)" "CpID (last ?h) \<noteq> []" "ThreadID cfg \<noteq> []"
    using assms(1) by (simp_all add: PutWrites_result Let_def)
  have "cm_PutWrites L i2 now2 cm' cfg2 ws2 =
      Inl (VersionConflictError (CpVersion ?new) (CpVersion ?new + 1) i (ThreadID cfg))"
    if "ThreadID cfg2 = ThreadID cfg"
      "Config_GetOrEmpty cfg2 ''checkpoint_id'' = Config_GetOrEmpty cfg ''checkpoint_id''" for cfg2 i2 now2 ws2
    using that ids assms(2) hist [of "ThreadID cfg"] by (simp add: cm_PutWrites_def Let_def)
  moreover have "mget (CpState ?new) = mget (deepCopyMap L (CpState (last ?h))) ++
      map_of (rev (map (\<lambda>w. (PwChannel w, PwValue w)) ws))"
    using assms(3) by (simp add: fold_write_state Clone_def json)
  ultimately show ?thesis
    using hist ids assms(4) by (intro exI [of _ ?new]) (simp add: fold_write_versions Clone_def)
qed

theorem put_writes_exclusive_witness:
  "cm_PutWrites sample_lib ''u2'' 9 sample_manager sample_config sample_writes = Inr sample_manager2 \<and>
   (\<exists>new. cm_history sample_manager2 ''t'' = cm_history sample_manager ''t'' @ [new] \<and>
      mget (CpState new) ''a'' = Some (GStr ''y'') \<and> mget_or 0 (CpChannelVersions new) ''a'' = 2)"
proof -
  have pre: "''u2'' \<noteq> Config_GetOrEmpty sample_config ''checkpoint_id''"
    "gomap_ok (CpState (last (cm_history sample_manager (ThreadID sample_config))))"
    "gomap_ok (CpChannelVersions (last (cm_history sample_manager (ThreadID sample_config))))"
    by (simp_all add: sample_cm_defs)
  have "ThreadID sample_config = ''t''" "CpChannelVersions (last (cm_history sample_manager ''t'')) = []"
    by (simp_all add: sample_cm_defs)
  moreover have "map_of (rev (map (\<lambda>w. (PwChannel w, PwValue w)) sample_writes)) ''a'' = Some (GStr ''y'')"
    "length (filter (\<lambda>w. PwChannel w = ''a'') sample_writes) = 2"
    by (simp_all add: sample_cm_defs)
  ultimately show ?thesis
    using put_writes_exclusive [OF sample_put pre] sample_put by (auto simp: map_add_def)
qed

text \<open>C11: A loaded checkpoint, saved back with the next version, is accepted and becomes the latest; the history
  never exceeds the configured number of versions and keeps the most recent ones; a second client that
  had loaded the same checkpoint and saves the same version afterwards is refused.\<close>

theorem load_save_optimistic:
  assumes "cm_Load L i now cm t = Some c"
    and "MdThreadID (CpMetadata (last (cm_history cm t))) = t"
    and "0 < cm_maxVersions cm" and "CpID (last (cm_history cm t)) \<noteq> []" and "i \<noteq> CpID (last (cm_history cm t))"
  shows "\<exists>cm'. cm_Save cm (c\<lparr>CpVersion := CpVersion c + 1\<rparr>) = Inr cm' \<and>
    last (cm_history cm' t) = c\<lparr>CpVersion := CpVersion c + 1\<rparr> \<and>
    length (cm_history cm' t) \<le> cm_maxVersions cm \<and>
    (\<forall>k < min (cm_maxVersions cm) (Suc (length (cm_history cm t))).
       rev (cm_history cm' t) ! k = rev (cm_history cm t @ [c\<lparr>CpVersion := CpVersion c + 1\<rparr>]) ! k) \<and>
    (\<forall>i2 now2 c2. cm_Load L i2 now2 cm t = Some c2 \<longrightarrow>
       cm_Save cm' (c2\<lparr>CpVersion := CpVersion c2 + 1\<rparr>) =
         Inl (VersionConflictError (CpVersion c + 1) (CpVersion c + 2) i2 t))"
proof -
  let ?h = "cm_history cm t"
  let ?c = "c\<lparr>CpVersion := CpVersion c + 1\<rparr>"
  have h: "?h \<noteq> []" and c: "c = Clone L i now (last ?h)"
    using assms(1) by (auto simp: cm_Load_def Let_def split: if_splits)
  have th: "MdThreadID (CpMetadata ?c) = t" using assms(2) by (simp add: c)
  obtain cm' where save: "cm_Save cm ?c = Inr cm'"
    using th h by (simp add: cm_Save_def Let_def c)
  have hist: "cm_history cm' t = drop (Suc (length ?h) - cm_maxVersions cm) (?h @ [?c])"
    using Save_history [OF save, of t] th by simp
  have last: "last (cm_history cm' t) = ?c" and ne: "cm_history cm' t \<noteq> []"
    using assms(3) unfolding hist by (auto simp: last_append last_drop)
  have "rev (cm_history cm' t) ! k = rev (?h @ [?c]) ! k"
    if "k < min (cm_maxVersions cm) (Suc (length ?h))" for k
    unfolding hist rev_drop using that by (subst nth_take) auto
  moreover have "cm_Save cm' (c2\<lparr>CpVersion := CpVersion c2 + 1\<rparr>) =
      Inl (VersionConflictError (CpVersion c + 1) (CpVersion c + 2) i2 t)"
    if "cm_Load L i2 now2 cm t = Some c2" for i2 now2 c2
  proof -
    have c2: "c2 = Clone L i2 now2 (last ?h)" using that by (auto simp: cm_Load_def Let_def split: if_splits)
    then show ?thesis
      using ne last assms(2,4,5) by (simp add: cm_Save_def Let_def c)
  qed
  ultimately show ?thesis using save last by (auto simp: hist)
qed

theorem load_save_optimistic_witness:
  "\<exists>cm'. cm_Save sample_manager ((Clone sample_lib ''v'' 3 (NewCheckpoint ''u1'' 0 ''t'' 0))\<lparr>CpVersion := 1\<rparr>) = Inr cm'"
proof -
  have pre: "cm_Load sample_lib ''v'' 3 sample_manager ''t'' = Some (Clone sample_lib ''v'' 3 (NewCheckpoint ''u1'' 0 ''t'' 0))"
    "MdThreadID (CpMetadata (last (cm_history sample_manager ''t''))) = ''t''"
    "0 < cm_maxVersions sample_manager" "CpID (last (cm_history sample_manager ''t'')) \<noteq> []"
    "''v'' \<noteq> CpID (last (cm_history sample_manager ''t''))"
    by (simp_all add: sample_cm_defs cm_Load_def)
  show ?thesis using load_save_optimistic [OF pre] by (auto simp: NewCheckpoint_def)
qed

section \<open>The in-memory checkpointer\<close>

text \<open>A run of \<open>Put\<close> calls, each with its fresh identifier, clock, configuration and checkpoint; a call
  that returns an error leaves the saver as it is.\<close>

fun ms_run :: "golib \<Rightarrow> MemorySaver \<Rightarrow> (string \<times> int \<times> gval gomap \<times> gval gomap) list \<Rightarrow> MemorySaver" where
  "ms_run L s [] = s"
| "ms_run L s ((i, now, config, cp) # ps) =
     ms_run L (case ms_Put L i now s config cp of Inl e \<Rightarrow> s | Inr s' \<Rightarrow> s') ps"

lemma ms_run_saves: "ms_run L s ps = memory.saves L s ps"
  by (induction L s ps rule: ms_run.induct) auto

text \<open>After any sequence of saves on any threads, a thread that asks for its latest checkpoint gets the copy
  of its own last save, whatever other threads saved in between, and nothing if it never saved; and
  a checkpoint read back and saved again reads back the same.\<close>

theorem memory_saver_latest:
  assumes "json_lib L" and "latest_of t config"
  shows "ms_Get L (ms_run L NewMemorySaver ps) config =
    (case rev (filter (\<lambda>(i, now, c, cp). cfg_string c ''thread_id'' = Some t) ps) of
       [] \<Rightarrow> Inr None
     | (i, now, c, cp) # _ \<Rightarrow> Inr (Some (deepCopyMap L cp))) \<and>
    (\<forall>cp i now s'. ms_Get L (ms_run L NewMemorySaver ps) config = Inr (Some cp) \<longrightarrow>
       ms_Put L i now (ms_run L NewMemorySaver ps) config cp = Inr s' \<longrightarrow>
       ms_Get L s' config = Inr (Some cp))"
proof -
  let ?own = "rev (filter (\<lambda>(i, now, c, cp). cfg_string c ''thread_id'' = Some t) ps)"
  have get: "ms_Get L (ms_run L NewMemorySaver ps) config =
      (case ?own of [] \<Rightarrow> Inr None | (i, now, c, cp) # _ \<Rightarrow> Inr (Some (deepCopyMap L cp)))"
    using memory.saves_get [OF assms(2)] memory.get_new [OF assms(2)] assms(1)
    by (simp add: ms_run_saves deepCopyMap_idem split: list.splits)
  moreover have "ms_Get L s' config = Inr (Some cp)"
    if read: "ms_Get L (ms_run L NewMemorySaver ps) config = Inr (Some cp)"
      and put: "ms_Put L i now (ms_run L NewMemorySaver ps) config cp = Inr s'" for cp i now s'
  proof -
    have "\<exists>cp0. cp = deepCopyMap L cp0"
      using read unfolding get by (auto split: list.splits prod.splits)
    then have "deepCopyMap L cp = cp" using assms(1) by (auto simp: deepCopyMap_idem)
    moreover have "cfg_string config ''thread_id'' = Some t" using assms(2) by (simp add: latest_of_def)
    ultimately show ?thesis using ms_put_get [OF put _ assms(2)] by simp
  qed
  ultimately show ?thesis by blast
qed

definition sample_saves :: "(string \<times> int \<times> gval gomap \<times> gval gomap) list" where
  "sample_saves =
     [(''1'', 0, [(''thread_id'', GStr ''a'')], [(''x'', GBool True)]),
      (''2'', 1, [(''thread_id'', GStr ''b'')], [(''x'', GStr ''other'')]),
      (''3'', 2, [(''thread_id'', GInt 7)], [])]"

theorem memory_saver_latest_witness:
  "ms_Get sample_lib (ms_run sample_lib NewMemorySaver sample_saves) [(''thread_id'', GStr ''a'')] =
     Inr (Some [(''x'', GBool True)])"
proof -
  have "latest_of ''a'' [(''thread_id'', GStr ''a'')]" by (simp add: latest_of_def cfg_string_def)
  moreover have "rev (filter (\<lambda>(i, now, c, cp). cfg_string c ''thread_id'' = Some ''a'') sample_saves) =
      [(''1'', 0, [(''thread_id'', GStr ''a'')], [(''x'', GBool True)])]"
    by (simp add: sample_saves_def cfg_string_def)
  ultimately show ?thesis
    using memory_saver_latest [OF sample_json_lib, of "''a''" "[(''thread_id'', GStr ''a'')]" sample_saves]
    by (simp add: deepCopyMap_def json_copy_def)
qed

section \<open>Identifiers of loaded checkpoints\<close>

text \<open>The parent configuration GetTuple returns names the clone of the parent, not the parent: when the
  fresh identifiers are not in the manager, looking the parent up by that configuration fails, although
  the parent is there; the lineage names the stored parent, which is found.\<close>

theorem get_tuple_parent_dangling:
  assumes "cm_GetTuple L uuid now cm cfg = Inr tup" and "length (cm_history cm (ThreadID cfg)) > 1"
    and "gomap_ok (cm_checkpoints cm)"
    and "\<forall>(t, cps) \<in> set (cm_checkpoints cm). \<forall>cp \<in> set cps. \<forall>i. CpID cp \<noteq> uuid i"
  shows "\<exists>pc. TupParentConfig tup = Some pc \<and>
    cm_LoadByCheckpointID L i2 now2 cm (Config_GetOrEmpty pc ''checkpoint_id'') =
      Inl (Errorf (''checkpoint not found: '' @ uuid 1) []) \<and>
    (\<exists>tup2 pc2 c. last (cm_GetLineage L uuid now cm (ThreadID cfg) 1) = tup2 \<and>
       TupParentConfig tup2 = Some pc2 \<and>
       cm_LoadByCheckpointID L i2 now2 cm (Config_GetOrEmpty pc2 ''checkpoint_id'') = Inr c)"
proof -
  let ?h = "cm_history cm (ThreadID cfg)"
  have cid: "Config_GetOrEmpty (thread_config t c) ''checkpoint_id'' = c" for t c
    by (simp add: thread_config_def Config_Set_def Config_GetOrEmpty_def NewRunnableConfig_def)
  have "TupParentConfig tup = Some (thread_config (ThreadID cfg) (uuid 1))"
    using assms(1,2) by (auto simp: cm_GetTuple_def Let_def NewCheckpointTuple_def split: if_splits)
  moreover have "find (\<lambda>cp. CpID cp = uuid 1) (concat (map snd (cm_checkpoints cm))) = None"
    using assms(4) by (force simp: find_None_iff)
  moreover have "last (cm_GetLineage L uuid now cm (ThreadID cfg) 1) =
      NewCheckpointTuple (Some (thread_config (ThreadID cfg) (uuid (length ?h - 1))))
        (Some (Clone L (uuid (length ?h - 1)) (now (length ?h - 1)) (?h ! (length ?h - 1))))
        (Some (thread_config (ThreadID cfg) (CpID (?h ! (length ?h - 2)))))"
    using assms(2)
    by (auto simp: cm_GetLineage_def Let_def clamp_limit_def last_map upt_conv_Cons numeral_2_eq_2)
  moreover have "find (\<lambda>cp. CpID cp = CpID (?h ! (length ?h - 2))) (concat (map snd (cm_checkpoints cm))) \<noteq> None"
  proof -
    obtain cps where "mget (cm_checkpoints cm) (ThreadID cfg) = Some cps" "?h = cps"
      using assms(2) by (cases "mget (cm_checkpoints cm) (ThreadID cfg)") (auto simp: mget_or_def)
    then have "set ?h \<subseteq> set (concat (map snd (cm_checkpoints cm)))"
      by (force dest: map_of_SomeD)
    moreover have "?h ! (length ?h - 2) \<in> set ?h" using assms(2) by simp
    ultimately show ?thesis unfolding find_None_iff by blast
  qed
  ultimately show ?thesis
    by (auto simp: cid cm_LoadByCheckpointID_def NewCheckpointTuple_def)
qed

theorem get_tuple_parent_dangling_witness:
  "\<exists>tup pc. cm_GetTuple sample_lib (\<lambda>n. ''v'') (\<lambda>n. 0) sample_manager2 sample_config = Inr tup \<and>
     TupParentConfig tup = Some pc \<and>
     cm_LoadByCheckpointID sample_lib ''w'' 0 sample_manager2 (Config_GetOrEmpty pc ''checkpoint_id'') =
       Inl (Errorf (''checkpoint not found: '' @ ''v'') [])"
proof -
  have pre: "length (cm_history sample_manager2 (ThreadID sample_config)) > 1"
    "gomap_ok (cm_checkpoints sample_manager2)"
    "\<forall>(t, cps) \<in> set (cm_checkpoints sample_manager2). \<forall>cp \<in> set cps. \<forall>i :: nat. CpID cp \<noteq> (\<lambda>n. ''v'') i"
    by (simp_all add: sample_cm_defs gomap_ok_def)
  obtain tup where tup: "cm_GetTuple sample_lib (\<lambda>n. ''v'') (\<lambda>n. 0) sample_manager2 sample_config = Inr tup"
    by (simp add: cm_GetTuple_def sample_cm_defs)
  show ?thesis
    using get_tuple_parent_dangling [OF tup pre, of "''w''" 0] tup by blast
qed

end
