(* ===== verification/Retry.thy ===== *)
theory Retry
  imports Graph_Errors
begin

text \<open>
  Node calls and their retries: \<open>types.RetryPolicy\<close> and the \<open>RetryExecutor\<close> of \<open>pregel/retry.go\<close>.

  A node function may do anything the program allows, so a call of it is identified by the superstep
  and the attempt it belongs to, and the function maps these and the input to what the call does: return
  a value and possibly an error, or panic. Every behaviour of a node over a run, deterministic or
  not, is such a function. Waiting between attempts is the time the retry takes and the chance to be
  cancelled: \<open>cancel a\<close> is the context error when the wait after attempt \<open>a\<close> ends by cancellation.
\<close>

datatype call_result = Ret gval "gerr option" | Panics gval

type_synonym node_fn = "nat \<Rightarrow> nat \<Rightarrow> gval \<Rightarrow> call_result"

record RetryPolicy =
  InitialInterval :: int
  BackoffFactor :: "64 word"
  MaxInterval :: int
  MaxAttempts :: int
  Jitter :: bool
  RetryOn :: "(gerr \<Rightarrow> bool) option"

definition DefaultRetryOn :: "gerr \<Rightarrow> bool" where
  "DefaultRetryOn err = True"

text \<open>Durations in nanoseconds; \<open>2.0\<close> is the bit pattern \<open>0x4000000000000000\<close>.\<close>

definition DefaultRetryPolicy :: RetryPolicy where
  "DefaultRetryPolicy =
     \<lparr>InitialInterval = 500000000, BackoffFactor = 0x4000000000000000, MaxInterval = 128000000000,
      MaxAttempts = 3, Jitter = True, RetryOn = Some DefaultRetryOn\<rparr>"

definition NewRetryExecutor :: "RetryPolicy option \<Rightarrow> RetryPolicy" where
  "NewRetryExecutor policy = (case policy of None \<Rightarrow> DefaultRetryPolicy | Some p \<Rightarrow> p)"

text \<open>
  The loop of \<open>Execute\<close> from attempt \<open>a\<close> on, with the last error and output so far. The deferred
  \<open>recover\<close> turns a panic of the call into an error.
\<close>

function retry_loop ::
  "RetryPolicy \<Rightarrow> (nat \<Rightarrow> gerr option) \<Rightarrow> string \<Rightarrow> (nat \<Rightarrow> call_result) \<Rightarrow>
   nat \<Rightarrow> gerr option \<Rightarrow> gval \<Rightarrow> gval res" where
  "retry_loop p cancel name fn a lastErr lastOutput =
     (if int a \<le> MaxAttempts p
      then case fn a of
             Panics v \<Rightarrow> Inl (Errorf (''node '' @ name @ '' panicked'') [])
           | Ret output None \<Rightarrow> Inr output
           | Ret output (Some err) \<Rightarrow>
               if IsGraphInterrupt (Some err) then Inl err
               else if (case RetryOn p of Some f \<Rightarrow> \<not> f err | None \<Rightarrow> False)
                 then Inl (Errorf (''node '' @ name @ '' failed with non-retryable error: %w'') [err])
               else if int a \<ge> MaxAttempts p
                 then Inl (RetryExhaustedError name (MaxAttempts p) (Some err) output)
               else (case cancel a of
                       Some c \<Rightarrow> Inl (Errorf (''node '' @ name @ '' cancelled during retry: %w'') [c])
                     | None \<Rightarrow> retry_loop p cancel name fn (Suc a) (Some err) output)
      else Inl (RetryExhaustedError name (MaxAttempts p) lastErr lastOutput))"
  by pat_completeness auto
termination
  by (relation "measure (\<lambda>(p, cancel, name, fn, a, e, out). nat (MaxAttempts p + 1 - int a))") auto

declare retry_loop.simps [simp del]

definition Retry_Execute ::
  "RetryPolicy \<Rightarrow> (nat \<Rightarrow> gerr option) \<Rightarrow> string \<Rightarrow> (nat \<Rightarrow> call_result) \<Rightarrow> gval res" where
  "Retry_Execute p cancel name fn = retry_loop p cancel name fn 1 None GNil"

definition IsRetryExhausted :: "gerr option \<Rightarrow> bool" where
  "IsRetryExhausted err = (case err of Some (RetryExhaustedError n a l out) \<Rightarrow> True | _ \<Rightarrow> False)"

text \<open>The string tests behind the predicates \<open>NetworkErrors\<close> and \<open>TemporaryErrors\<close>, byte by byte.\<close>

definition lower_byte :: "char \<Rightarrow> char" where
  "lower_byte c = (if (of_char CHR ''A'' :: nat) \<le> of_char c \<and> (of_char c :: nat) \<le> of_char CHR ''Z''
     then char_of ((of_char c :: nat) + 32) else c)"

definition toLower :: "string \<Rightarrow> string" where
  "toLower s = map lower_byte s"

definition containsIgnoreCase :: "string \<Rightarrow> string \<Rightarrow> bool" where
  "containsIgnoreCase s sub =
     (let s = toLower s; sub = toLower sub
      in length s \<ge> length sub \<and> take (length sub) s = sub)"

definition contains :: "string \<Rightarrow> string \<Rightarrow> bool" where
  "contains s sub \<longleftrightarrow> length s \<ge> length sub \<and>
     (s = sub \<or> (length s > length sub \<and> (take (length sub) s = sub \<or> containsIgnoreCase s sub)))"

definition networkKeywords :: "string list" where
  "networkKeywords = [''connection refused'', ''connection reset'', ''timeout'', ''network'', ''dns'',
     ''temporary failure'', ''503'', ''502'', ''504'']"

definition tempKeywords :: "string list" where
  "tempKeywords = [''temporary'', ''transient'', ''rate limit'', ''too many requests'', ''429'']"

text \<open>The predicates look at the text of the error (\<open>err.Error()\<close>), here the argument.\<close>

definition NetworkErrors :: "string option \<Rightarrow> bool" where
  "NetworkErrors err = (case err of None \<Rightarrow> False | Some errMsg \<Rightarrow> list_ex (contains errMsg) networkKeywords)"

definition TemporaryErrors :: "string option \<Rightarrow> bool" where
  "TemporaryErrors err = (case err of None \<Rightarrow> False | Some errMsg \<Rightarrow> list_ex (contains errMsg) tempKeywords)"

section \<open>Retry configuration\<close>

record RetryConfig =
  RcPolicy :: RetryPolicy

definition NewRetryConfig :: RetryConfig where
  "NewRetryConfig = \<lparr>RcPolicy = DefaultRetryPolicy\<rparr>"

definition WithRetryOn :: "(gerr \<Rightarrow> bool) option \<Rightarrow> RetryConfig \<Rightarrow> RetryConfig" where
  "WithRetryOn predicate c = c\<lparr>RcPolicy := (RcPolicy c)\<lparr>RetryOn := predicate\<rparr>\<rparr>"

definition WithMaxAttempts :: "int \<Rightarrow> RetryConfig \<Rightarrow> RetryConfig" where
  "WithMaxAttempts maxAttempts c = c\<lparr>RcPolicy := (RcPolicy c)\<lparr>MaxAttempts := maxAttempts\<rparr>\<rparr>"

definition WithBackoff :: "int \<Rightarrow> int \<Rightarrow> 64 word \<Rightarrow> RetryConfig \<Rightarrow> RetryConfig" where
  "WithBackoff initial maxi factor c =
     c\<lparr>RcPolicy := (RcPolicy c)\<lparr>InitialInterval := initial, MaxInterval := maxi, BackoffFactor := factor\<rparr>\<rparr>"

definition WithJitter :: "bool \<Rightarrow> RetryConfig \<Rightarrow> RetryConfig" where
  "WithJitter enabled c = c\<lparr>RcPolicy := (RcPolicy c)\<lparr>Jitter := enabled\<rparr>\<rparr>"

section \<open>Lemmas\<close>

text \<open>A failed attempt that the loop goes past: a retryable error, not the last attempt, not cancelled.\<close>

definition retried :: "RetryPolicy \<Rightarrow> (nat \<Rightarrow> gerr option) \<Rightarrow> (nat \<Rightarrow> call_result) \<Rightarrow> nat \<Rightarrow> bool" where
  "retried p cancel fn a \<longleftrightarrow>
     int a < MaxAttempts p \<and> cancel a = None \<and>
     (\<exists>out err. fn a = Ret out (Some err) \<and> \<not> IsGraphInterrupt (Some err) \<and>
        (\<forall>f. RetryOn p = Some f \<longrightarrow> f err))"

lemma retry_step:
  "retried p cancel fn a \<Longrightarrow> \<exists>e out. retry_loop p cancel name fn a le lo = retry_loop p cancel name fn (Suc a) e out"
  by (subst retry_loop.simps) (force simp: retried_def split: option.splits)

lemma retry_skip:
  "a \<le> b \<Longrightarrow> (\<And>k. a \<le> k \<Longrightarrow> k < b \<Longrightarrow> retried p cancel fn k) \<Longrightarrow>
   \<exists>e out. retry_loop p cancel name fn a le lo = retry_loop p cancel name fn b e out"
proof (induction "b - a" arbitrary: a le lo)
  case 0
  then show ?case by auto
next
  case (Suc n)
  then have "retried p cancel fn a" "a < b" by auto
  then obtain e out where "retry_loop p cancel name fn a le lo = retry_loop p cancel name fn (Suc a) e out"
    using retry_step by blast
  moreover have "\<exists>e' out'. retry_loop p cancel name fn (Suc a) e out = retry_loop p cancel name fn b e' out'"
    using Suc by (intro Suc.hyps) auto
  ultimately show ?case by metis
qed

text \<open>The loop stops at the first attempt that is not retried, and what it returns is that attempt's.\<close>

definition final_result :: "RetryPolicy \<Rightarrow> (nat \<Rightarrow> gerr option) \<Rightarrow> string \<Rightarrow> (nat \<Rightarrow> call_result) \<Rightarrow> nat \<Rightarrow> gval res" where
  "final_result p cancel name fn a =
     (case fn a of
        Panics v \<Rightarrow> Inl (Errorf (''node '' @ name @ '' panicked'') [])
      | Ret output None \<Rightarrow> Inr output
      | Ret output (Some err) \<Rightarrow>
          if IsGraphInterrupt (Some err) then Inl err
          else if (\<exists>f. RetryOn p = Some f \<and> \<not> f err)
            then Inl (Errorf (''node '' @ name @ '' failed with non-retryable error: %w'') [err])
          else if int a \<ge> MaxAttempts p
            then Inl (RetryExhaustedError name (MaxAttempts p) (Some err) output)
          else (case cancel a of
                  Some c \<Rightarrow> Inl (Errorf (''node '' @ name @ '' cancelled during retry: %w'') [c])
                | None \<Rightarrow> Inl EmptyChannelError))"

lemma retry_final:
  "int a \<le> MaxAttempts p \<Longrightarrow> \<not> retried p cancel fn a \<Longrightarrow>
   retry_loop p cancel name fn a le lo = final_result p cancel name fn a"
  by (subst retry_loop.simps)
    (auto simp: retried_def final_result_def split: option.splits call_result.splits)

lemma Retry_Execute_spec:
  assumes "1 \<le> a" and "int a \<le> MaxAttempts p" and "\<And>k. 1 \<le> k \<Longrightarrow> k < a \<Longrightarrow> retried p cancel fn k"
    and "\<not> retried p cancel fn a"
  shows "Retry_Execute p cancel name fn = final_result p cancel name fn a"
  using retry_skip [of 1 a p cancel fn name None GNil] retry_final [OF assms(2,4)] assms(1,3)
  unfolding Retry_Execute_def by metis

text \<open>There is such an attempt within the limit.\<close>

lemma first_final_attempt:
  assumes "1 \<le> MaxAttempts p"
  shows "\<exists>a. 1 \<le> a \<and> int a \<le> MaxAttempts p \<and> \<not> retried p cancel fn a \<and>
    (\<forall>k. 1 \<le> k \<and> k < a \<longrightarrow> retried p cancel fn k)"
proof -
  let ?P = "\<lambda>a. 1 \<le> a \<and> \<not> retried p cancel fn a"
  have ex: "?P (nat (MaxAttempts p))" using assms by (simp add: retried_def)
  define a where "a = (LEAST a. ?P a)"
  have a: "?P a" unfolding a_def by (rule LeastI) (rule ex)
  have le: "a \<le> k" if "?P k" for k unfolding a_def by (rule Least_le) (rule that)
  have "int a \<le> MaxAttempts p" using le [OF ex] assms by linarith
  moreover have "retried p cancel fn k" if "1 \<le> k" "k < a" for k using le [of k] that by fastforce
  ultimately show ?thesis using a by blast
qed

text \<open>The documented substring test is a prefix test.\<close>

lemma contains_iff: "contains s sub \<longleftrightarrow> s = sub \<or> (length s > length sub \<and> take (length sub) (toLower s) = toLower sub)"
proof -
  have "take (length sub) s = sub \<Longrightarrow> take (length sub) (toLower s) = toLower sub"
    by (metis take_map toLower_def)
  then show ?thesis
    by (auto simp: contains_def containsIgnoreCase_def toLower_def simp del: take_map)
qed

end
