(* ===== verification/State_Graph.thy ===== *)
theory State_Graph
  imports Channel_Interface Retry Run_Config
begin

text \<open>
  The graph builder of \<open>graph/graph.go\<close> with the state schema of \<open>graph/state.go\<close>: nodes, edges,
  conditional edges, branches, channels from the schema, validation (reachability by a breadth-first
  search) and compilation. Every operation that returns an error leaves the graph unchanged, so an
  operation is a function from the graph to a result.

  A condition is a function of the superstep it is asked in and of the state (see theory \<open>Retry\<close> for
  the same convention on node functions).
\<close>

section \<open>Data\<close>

type_synonym edge_fn = "nat \<Rightarrow> gval \<Rightarrow> gval \<times> gerr option"

datatype trigger_mode = TriggerUnset | NodeTriggerAnyPredecessor | NodeTriggerAllPredecessor

record FieldMapping =
  FmFrom :: string
  FmTo :: string

record Node =
  NdName :: string
  NdFunction :: "node_fn option"
  NdTriggers :: "string list"
  NdWrites :: "string list"
  NdRetryPolicy :: "RetryPolicy option"
  NdTags :: "string list"
  NdMetadata :: "gval gomap"
  NdFieldMapping :: "FieldMapping list"

record Edge =
  EdFrom :: string
  EdTo :: string

record DataEdge =
  DeFrom :: string
  DeTo :: string
  DeMapping :: "FieldMapping list"

record ConditionalEdge =
  CdFrom :: string
  CdCondition :: edge_fn
  CdMapping :: "string gomap"

record Branch =
  BrFrom :: string
  BrCondition :: edge_fn
  BrThen :: "gval \<Rightarrow> string list"

record NodeOptions =
  OpRetryPolicy :: "RetryPolicy option"
  OpTags :: "string list"
  OpMetadata :: "gval gomap"
  OpTriggers :: "string list"
  OpWrites :: "string list"
  OpFieldMapping :: "FieldMapping list"
  OpStatePre :: "node_fn option"
  OpStatePost :: "node_fn option"

text \<open>
  A state schema: nil, or a value behind a number of pointers, which is a struct (its fields with
  exported flag, type and \<open>harness\<close> tag), a map (with the key type), or of another kind.
\<close>

datatype schema_base =
    SStruct string "(string \<times> bool \<times> gtype \<times> string) list" | SMap gtype | SKind string

datatype schema = SNil | SValue nat schema_base

record stateGraph =
  sg_nodes :: "Node gomap"
  sg_edges :: "Edge list"
  sg_dataEdges :: "DataEdge list"
  sg_conditionalEdges :: "ConditionalEdge list"
  sg_branches :: "Branch list"
  sg_entryPoint :: string
  sg_finishPoints :: "string list"
  sg_channels :: "channel gomap"
  sg_reducers :: "(gval \<Rightarrow> gval \<Rightarrow> gval) gomap"
  sg_stateSchema :: schema
  sg_inputSchema :: schema
  sg_outputSchema :: schema
  sg_NodeTriggerMode :: trigger_mode

definition Start :: string where
  "Start = ''__start__''"

definition End :: string where
  "End = ''__end__''"

definition NewStateGraph :: "schema \<Rightarrow> stateGraph" where
  "NewStateGraph stateSchema =
     \<lparr>sg_nodes = [], sg_edges = [], sg_dataEdges = [], sg_conditionalEdges = [], sg_branches = [],
      sg_entryPoint = [], sg_finishPoints = [], sg_channels = [], sg_reducers = [],
      sg_stateSchema = stateSchema, sg_inputSchema = stateSchema, sg_outputSchema = stateSchema,
      sg_NodeTriggerMode = TriggerUnset\<rparr>"

definition WithInputSchema :: "schema \<Rightarrow> stateGraph \<Rightarrow> stateGraph" where
  "WithInputSchema sch g = g\<lparr>sg_inputSchema := sch\<rparr>"

definition WithOutputSchema :: "schema \<Rightarrow> stateGraph \<Rightarrow> stateGraph" where
  "WithOutputSchema sch g = g\<lparr>sg_outputSchema := sch\<rparr>"

section \<open>Nodes\<close>

definition new_node :: "string \<Rightarrow> node_fn option \<Rightarrow> Node" where
  "new_node name fn =
     \<lparr>NdName = name, NdFunction = fn, NdTriggers = [], NdWrites = [], NdRetryPolicy = None, NdTags = [],
      NdMetadata = [], NdFieldMapping = []\<rparr>"

definition AddNode :: "string \<Rightarrow> node_fn option \<Rightarrow> stateGraph \<Rightarrow> stateGraph" where
  "AddNode name fn g = g\<lparr>sg_nodes := mput name (new_node name fn) (sg_nodes g)\<rparr>"

text \<open>
  A node function wrapped by its state handlers. A nil node function panics when it is called.
\<close>

definition call_fn :: "node_fn option \<Rightarrow> node_fn" where
  "call_fn fn = (case fn of Some f \<Rightarrow> f | None \<Rightarrow> \<lambda>step att st. Panics (GStr ''nil function''))"

definition with_handlers :: "string \<Rightarrow> node_fn option \<Rightarrow> node_fn option \<Rightarrow> node_fn option \<Rightarrow> node_fn" where
  "with_handlers name pre post orig step att st =
     (let run = (\<lambda>st1.
            case call_fn orig step att st1 of
              Panics v \<Rightarrow> Panics v
            | Ret out (Some e) \<Rightarrow> Ret GNil (Some e)
            | Ret out None \<Rightarrow>
                (case post of
                   None \<Rightarrow> Ret out None
                 | Some pf \<Rightarrow>
                     (case pf step att out of
                        Panics v \<Rightarrow> Panics v
                      | Ret out2 (Some e) \<Rightarrow>
                          Ret GNil (Some (Errorf (''state post-handler for '' @ name @ '': %w'') [e]))
                      | Ret out2 None \<Rightarrow> Ret out2 None)))
      in case pre of
           None \<Rightarrow> run st
         | Some pf \<Rightarrow>
             (case pf step att st of
                Panics v \<Rightarrow> Panics v
              | Ret st1 (Some e) \<Rightarrow>
                  Ret GNil (Some (Errorf (''state pre-handler for '' @ name @ '': %w'') [e]))
              | Ret st1 None \<Rightarrow> run st1))"

definition AddNodeWithOptions :: "string \<Rightarrow> node_fn option \<Rightarrow> NodeOptions \<Rightarrow> stateGraph \<Rightarrow> stateGraph" where
  "AddNodeWithOptions name fn opts g =
     (let fn' = (if OpStatePre opts \<noteq> None \<or> OpStatePost opts \<noteq> None
                 then Some (with_handlers name (OpStatePre opts) (OpStatePost opts) fn) else fn);
          node = (new_node name fn')
            \<lparr>NdRetryPolicy := OpRetryPolicy opts, NdTags := OpTags opts,
             NdMetadata := mcopy [] (OpMetadata opts), NdTriggers := OpTriggers opts,
             NdWrites := OpWrites opts, NdFieldMapping := OpFieldMapping opts\<rparr>
      in g\<lparr>sg_nodes := mput name node (sg_nodes g)\<rparr>)"

definition WithStatePreHandler :: "node_fn option \<Rightarrow> NodeOptions \<Rightarrow> NodeOptions" where
  "WithStatePreHandler fn opts = opts\<lparr>OpStatePre := fn\<rparr>"

definition WithStatePostHandler :: "node_fn option \<Rightarrow> NodeOptions \<Rightarrow> NodeOptions" where
  "WithStatePostHandler fn opts = opts\<lparr>OpStatePost := fn\<rparr>"

definition WithFieldMapping :: "FieldMapping list \<Rightarrow> NodeOptions \<Rightarrow> NodeOptions" where
  "WithFieldMapping mappings opts = opts\<lparr>OpFieldMapping := OpFieldMapping opts @ mappings\<rparr>"

definition MapFields :: "string \<Rightarrow> string \<Rightarrow> FieldMapping" where
  "MapFields from to = \<lparr>FmFrom = from, FmTo = to\<rparr>"

definition MapTo :: "string \<Rightarrow> FieldMapping" where
  "MapTo to = \<lparr>FmFrom = [], FmTo = to\<rparr>"

section \<open>Edges\<close>

definition has_node :: "stateGraph \<Rightarrow> string \<Rightarrow> bool" where
  "has_node g name \<longleftrightarrow> mget (sg_nodes g) name \<noteq> None"

definition AddEdge :: "string \<Rightarrow> string \<Rightarrow> stateGraph \<Rightarrow> stateGraph res" where
  "AddEdge from to g =
     (if \<not> has_node g from \<and> from \<noteq> Start then Inl (NodeNotFoundError from)
      else if \<not> has_node g to \<and> to \<noteq> End then Inl (NodeNotFoundError to)
      else let g1 = g\<lparr>sg_edges := sg_edges g @ [\<lparr>EdFrom = from, EdTo = to\<rparr>]\<rparr>;
               g2 = (if from = Start then g1\<lparr>sg_entryPoint := to\<rparr> else g1)
           in Inr (if to = End \<and> from \<notin> set (sg_finishPoints g2)
                   then g2\<lparr>sg_finishPoints := sg_finishPoints g2 @ [from]\<rparr> else g2))"

definition AddConditionalEdges :: "string \<Rightarrow> edge_fn \<Rightarrow> string gomap \<Rightarrow> stateGraph \<Rightarrow> stateGraph res" where
  "AddConditionalEdges from condition mapping g =
     (if \<not> has_node g from then Inl (NodeNotFoundError from)
      else case find (\<lambda>(k, target). \<not> has_node g target \<and> target \<noteq> End) mapping of
             Some (k, target) \<Rightarrow> Inl (NodeNotFoundError target)
           | None \<Rightarrow> Inr (g\<lparr>sg_conditionalEdges := sg_conditionalEdges g @
                  [\<lparr>CdFrom = from, CdCondition = condition, CdMapping = mapping\<rparr>]\<rparr>))"

definition AddBranch :: "string \<Rightarrow> edge_fn \<Rightarrow> (gval \<Rightarrow> string list) \<Rightarrow> stateGraph \<Rightarrow> stateGraph res" where
  "AddBranch from condition thn g =
     (if \<not> has_node g from then Inl (NodeNotFoundError from)
      else Inr (g\<lparr>sg_branches := sg_branches g @
             [\<lparr>BrFrom = from, BrCondition = condition, BrThen = thn\<rparr>]\<rparr>))"

definition AddDataEdge :: "string \<Rightarrow> string \<Rightarrow> FieldMapping list \<Rightarrow> stateGraph \<Rightarrow> stateGraph res" where
  "AddDataEdge from to mappings g =
     (if \<not> has_node g from \<and> from \<noteq> Start then Inl (NodeNotFoundError from)
      else if \<not> has_node g to \<and> to \<noteq> End then Inl (NodeNotFoundError to)
      else Inr (g\<lparr>sg_dataEdges := sg_dataEdges g @ [\<lparr>DeFrom = from, DeTo = to, DeMapping = mappings\<rparr>]\<rparr>))"

definition SetEntryPoint :: "string \<Rightarrow> stateGraph \<Rightarrow> stateGraph res" where
  "SetEntryPoint node g =
     (if \<not> has_node g node then Inl (NodeNotFoundError node) else Inr (g\<lparr>sg_entryPoint := node\<rparr>))"

definition SetFinishPoint :: "string \<Rightarrow> stateGraph \<Rightarrow> stateGraph res" where
  "SetFinishPoint node g =
     (if \<not> has_node g node then Inl (NodeNotFoundError node)
      else Inr (g\<lparr>sg_finishPoints := sg_finishPoints g @ [node]\<rparr>))"

section \<open>Channels and reducers\<close>

text \<open>An argument that is not a channel is ignored (\<open>None\<close>).\<close>

definition AddChannel :: "string \<Rightarrow> channel option \<Rightarrow> stateGraph \<Rightarrow> stateGraph" where
  "AddChannel name channel g =
     (case channel of None \<Rightarrow> g | Some ch \<Rightarrow> g\<lparr>sg_channels := mput name (ch_SetKey name ch) (sg_channels g)\<rparr>)"

definition SetReducer :: "string \<Rightarrow> (gval \<Rightarrow> gval \<Rightarrow> gval) \<Rightarrow> stateGraph \<Rightarrow> stateGraph" where
  "SetReducer channelName reducer g =
     (let g1 = (case mget (sg_channels g) channelName of
                  Some ch \<Rightarrow> g\<lparr>sg_channels := mput channelName (CReducerChannel ch reducer) (sg_channels g)\<rparr>
                | None \<Rightarrow> g)
      in g1\<lparr>sg_reducers := mput channelName reducer (sg_reducers g1)\<rparr>)"

definition AddChannelWithReducer ::
  "string \<Rightarrow> channel option \<Rightarrow> (gval \<Rightarrow> gval \<Rightarrow> gval) option \<Rightarrow> stateGraph \<Rightarrow> stateGraph" where
  "AddChannelWithReducer name channel reducer g =
     (case channel of
        None \<Rightarrow> g
      | Some ch \<Rightarrow>
          (case reducer of
             Some r \<Rightarrow> g\<lparr>sg_channels := mput name (CReducerChannel (ch_SetKey name ch) r) (sg_channels g),
                         sg_reducers := mput name r (sg_reducers g)\<rparr>
           | None \<Rightarrow> g\<lparr>sg_channels := mput name (ch_SetKey name ch) (sg_channels g)\<rparr>))"

definition SetNodeTriggerMode :: "trigger_mode \<Rightarrow> stateGraph \<Rightarrow> stateGraph" where
  "SetNodeTriggerMode mode g = g\<lparr>sg_NodeTriggerMode := mode\<rparr>"

definition GetNode :: "stateGraph \<Rightarrow> string \<Rightarrow> Node option" where
  "GetNode g name = mget (sg_nodes g) name"

section \<open>The state schema\<close>

record Annotation =
  AnReducer :: "(gval \<Rightarrow> gval \<Rightarrow> gval) option"
  AnMetadata :: "gval gomap"

record fieldInfo =
  FiName :: string
  FiType :: gtype
  FiChannel :: channel
  FiAnnotation :: "Annotation option"

text \<open>The registry \<open>reducers\<close> of built-in reducer functions.\<close>

definition builtin_reducers :: "golib \<Rightarrow> (gval \<Rightarrow> gval \<Rightarrow> gval) gomap" where
  "builtin_reducers L = [(''add'', AddReducer L), (''append'', AppendReducer), (''merge'', MergeReducer)]"

text \<open>\<open>strings.SplitN(pair, "=", 2)\<close>: the parts around the first \<open>=\<close>, or \<open>None\<close> without one.\<close>

fun split_eq :: "string \<Rightarrow> (string \<times> string) option" where
  "split_eq [] = None"
| "split_eq (c # cs) =
     (if c = CHR ''='' then Some ([], cs) else map_option (apfst (Cons c)) (split_eq cs))"

fun parse_pairs :: "golib \<Rightarrow> Annotation \<Rightarrow> string list \<Rightarrow> Annotation res" where
  "parse_pairs L an [] = Inr an"
| "parse_pairs L an (pair # pairs) =
     (case split_eq pair of
        None \<Rightarrow> parse_pairs L (an\<lparr>AnMetadata := mput pair (GBool True) (AnMetadata an)\<rparr>) pairs
      | Some (k, v) \<Rightarrow>
          (let key = trim_space L k; val = trim_space L v
           in if key = ''reducer''
              then case mget (builtin_reducers L) val of
                     None \<Rightarrow> Inl (Errorf (''unknown reducer: '' @ val) [])
                   | Some r \<Rightarrow> parse_pairs L (an\<lparr>AnReducer := Some r\<rparr>) pairs
              else parse_pairs L (an\<lparr>AnMetadata := mput key (GStr val) (AnMetadata an)\<rparr>) pairs))"

definition parseAnnotation :: "golib \<Rightarrow> string \<Rightarrow> Annotation res" where
  "parseAnnotation L tag = parse_pairs L \<lparr>AnReducer = None, AnMetadata = []\<rparr> (str_split CHR '','' tag)"

definition processField :: "golib \<Rightarrow> string \<Rightarrow> gtype \<Rightarrow> string \<Rightarrow> fieldInfo res" where
  "processField L name ty tag =
     (let info = (\<lambda>an. \<lparr>FiName = name, FiType = ty,
            FiChannel = CreateReducerChannel L name ty (Option.bind an AnReducer), FiAnnotation = an\<rparr>)
      in if tag = [] then Inr (info None)
         else case parseAnnotation L tag of
                Inl e \<Rightarrow> Inl (Errorf ''invalid annotation: %w'' [e])
              | Inr an \<Rightarrow> Inr (info (Some an)))"

fun schema_fields ::
  "golib \<Rightarrow> fieldInfo gomap \<Rightarrow> (string \<times> bool \<times> gtype \<times> string) list \<Rightarrow> fieldInfo gomap res" where
  "schema_fields L infos [] = Inr infos"
| "schema_fields L infos ((name, exported, ty, tag) # fs) =
     (if \<not> exported then schema_fields L infos fs
      else case processField L name ty tag of
             Inl e \<Rightarrow> Inl (Errorf (''field '' @ name @ '': %w'') [e])
           | Inr info \<Rightarrow> schema_fields L (mput (FiName info) info infos) fs)"

definition validateStateSchema :: "golib \<Rightarrow> schema \<Rightarrow> fieldInfo gomap res" where
  "validateStateSchema L sch =
     (case sch of
        SNil \<Rightarrow> Inl (Errorf ''state schema cannot be nil'' [])
      | SValue ptrs base \<Rightarrow>
          (if ptrs \<ge> 2 then Inl (Errorf ''state schema must be a struct or map, got ptr'' [])
           else case base of
                  SStruct n fs \<Rightarrow> schema_fields L [] fs
                | SMap k \<Rightarrow> (if k = TString then Inr []
                            else Inl (Errorf ''state schema map must have string keys'' []))
                | SKind k \<Rightarrow> Inl (Errorf (''state schema must be a struct or map, got '' @ k) [])))"

definition configure_field :: "string \<times> fieldInfo \<Rightarrow> stateGraph \<Rightarrow> stateGraph" where
  "configure_field p g =
     (let (fieldName, info) = p;
          g1 = (if mget (sg_channels g) fieldName = None
                then g\<lparr>sg_channels := mput fieldName (FiChannel info) (sg_channels g)\<rparr> else g)
      in case Option.bind (FiAnnotation info) AnReducer of
           Some r \<Rightarrow> g1\<lparr>sg_reducers := mput fieldName r (sg_reducers g1)\<rparr>
         | None \<Rightarrow> g1)"

definition configureChannelsFromSchema :: "golib \<Rightarrow> stateGraph \<Rightarrow> stateGraph res" where
  "configureChannelsFromSchema L g =
     (case validateStateSchema L (sg_stateSchema g) of
        Inl e \<Rightarrow> Inl e
      | Inr fieldInfos \<Rightarrow> Inr (fold configure_field fieldInfos g))"

section \<open>Validation\<close>

text \<open>The targets one round of the search looks at from a node, in the order of the code.\<close>

definition reach_targets :: "stateGraph \<Rightarrow> string \<Rightarrow> string list" where
  "reach_targets g current =
     [EdTo e. e \<leftarrow> sg_edges g, EdFrom e = current \<and> EdTo e \<noteq> End] @
     [t. ce \<leftarrow> sg_conditionalEdges g, CdFrom ce = current,
        t \<leftarrow> map snd (CdMapping ce), has_node g t \<and> t \<noteq> End]"

fun visit :: "string \<Rightarrow> string list \<times> string list \<Rightarrow> string list \<times> string list" where
  "visit t (reachable, queue) =
     (if t \<in> set reachable then (reachable, queue) else (reachable @ [t], queue @ [t]))"

definition reach_universe :: "stateGraph \<Rightarrow> string set" where
  "reach_universe g = EdTo ` set (sg_edges g) \<union> (\<Union>ce \<in> set (sg_conditionalEdges g). snd ` set (CdMapping ce))"

lemma reach_targets_universe: "set (reach_targets g n) \<subseteq> reach_universe g"
  by (auto simp: reach_targets_def reach_universe_def)

lemma finite_reach_universe [simp]: "finite (reach_universe g)"
  by (simp add: reach_universe_def)

lemma visit_measure:
  assumes "set ts \<subseteq> U" "finite U" "fold visit ts (r, q) = (r', q')"
  shows "length q' + card (U - set r') \<le> length q + card (U - set r)"
  using assms(1,3)
proof (induction ts arbitrary: r q)
  case Nil
  then show ?case by simp
next
  case (Cons t ts)
  show ?case
  proof (cases "t \<in> set r")
    case True
    with Cons show ?thesis by simp
  next
    case False
    then have "t \<in> U - set r" using Cons.prems(1) by auto
    then have "card (U - set (r @ [t])) < card (U - set r)"
      using assms(2) by (intro psubset_card_mono) auto
    with Cons.IH [of "r @ [t]" "q @ [t]"] Cons.prems False show ?thesis by simp
  qed
qed

function reach_loop :: "stateGraph \<Rightarrow> string list \<Rightarrow> string list \<Rightarrow> string list" where
  "reach_loop g reachable [] = reachable"
| "reach_loop g reachable (current # queue) =
     (let (r, q) = fold visit (reach_targets g current) (reachable, queue) in reach_loop g r q)"
  by pat_completeness auto
termination
proof (relation "measure (\<lambda>(g, r, q). length q + card (reach_universe g - set r))")
  fix g reachable current queue p r q
  assume "p = fold visit (reach_targets g current) (reachable, queue)" and "(r, q) = p"
  then have "length q + card (reach_universe g - set r) \<le> length queue + card (reach_universe g - set reachable)"
    using visit_measure [OF reach_targets_universe finite_reach_universe, of g current reachable queue r q] by simp
  then show "((g, r, q), g, reachable, current # queue) \<in>
      measure (\<lambda>(g, r, q). length q + card (reach_universe g - set r))"
    by simp
qed simp

definition computeReachable :: "stateGraph \<Rightarrow> string list" where
  "computeReachable g =
     (if sg_entryPoint g = [] then [] else reach_loop g [sg_entryPoint g] [sg_entryPoint g])"

definition ValidateStateSchema :: "golib \<Rightarrow> stateGraph \<Rightarrow> gerr option" where
  "ValidateStateSchema L g =
     (case validateStateSchema L (sg_stateSchema g) of Inl e \<Rightarrow> Some e | Inr i \<Rightarrow> None)"

definition Graph_Validate :: "golib \<Rightarrow> stateGraph \<Rightarrow> gerr option" where
  "Graph_Validate L g =
     (if sg_entryPoint g = [] then Some (Errorf ''no entry point set'' [])
      else if sg_finishPoints g = [] then Some (Errorf ''no finish points set'' [])
      else let reachable = computeReachable g
           in case find (\<lambda>name. name \<notin> set reachable) (mkeys (sg_nodes g)) of
                Some name \<Rightarrow> Some (Errorf (''node '' @ name @ '' is not reachable from entry point'') [])
              | None \<Rightarrow>
                  (case ValidateStateSchema L g of
                     Some e \<Rightarrow> Some (Errorf ''state schema validation failed: %w'' [e])
                   | None \<Rightarrow> None))"

section \<open>Compilation\<close>

record 'cp compiledGraph =
  cg_graph :: stateGraph
  cg_checkpointer :: "'cp option"
  cg_interrupts :: "string list"
  cg_interruptsAfter :: "string list"
  cg_recursionLimit :: int
  cg_debug :: bool
  cg_nodeTriggerMode :: trigger_mode

definition Compile ::
  "golib \<Rightarrow> ('cp compiledGraph \<Rightarrow> 'cp compiledGraph) list \<Rightarrow> stateGraph \<Rightarrow> 'cp compiledGraph res" where
  "Compile L opts g =
     (case Graph_Validate L g of
        Some e \<Rightarrow> Inl (Errorf ''graph validation failed: %w'' [e])
      | None \<Rightarrow>
          (case configureChannelsFromSchema L g of
             Inl e \<Rightarrow> Inl (Errorf ''failed to configure channels from schema: %w'' [e])
           | Inr g1 \<Rightarrow>
               (let cg = fold (\<lambda>opt cg. opt cg) opts
                  \<lparr>cg_graph = g1, cg_checkpointer = None, cg_interrupts = [], cg_interruptsAfter = [],
                   cg_recursionLimit = DefaultRecursionLimit, cg_debug = False,
                   cg_nodeTriggerMode = NodeTriggerAnyPredecessor\<rparr>
                in Inr (cg\<lparr>cg_graph := (cg_graph cg)\<lparr>sg_NodeTriggerMode := cg_nodeTriggerMode cg\<rparr>\<rparr>))))"

definition Compile_WithCheckpointer :: "'cp option \<Rightarrow> 'cp compiledGraph \<Rightarrow> 'cp compiledGraph" where
  "Compile_WithCheckpointer checkpointer cg = cg\<lparr>cg_checkpointer := checkpointer\<rparr>"

text \<open>A \<open>map[string]bool\<close> whose values are only ever set to true is the list of its keys.\<close>

definition Compile_WithInterrupts :: "string list \<Rightarrow> 'cp compiledGraph \<Rightarrow> 'cp compiledGraph" where
  "Compile_WithInterrupts nodes cg = cg\<lparr>cg_interrupts := fold List.insert nodes (cg_interrupts cg)\<rparr>"

definition Compile_WithInterruptsAfter :: "string list \<Rightarrow> 'cp compiledGraph \<Rightarrow> 'cp compiledGraph" where
  "Compile_WithInterruptsAfter nodes cg = cg\<lparr>cg_interruptsAfter := fold List.insert nodes (cg_interruptsAfter cg)\<rparr>"

definition Compile_WithRecursionLimit :: "int \<Rightarrow> 'cp compiledGraph \<Rightarrow> 'cp compiledGraph" where
  "Compile_WithRecursionLimit limit cg = cg\<lparr>cg_recursionLimit := limit\<rparr>"

definition Compile_WithDebug :: "bool \<Rightarrow> 'cp compiledGraph \<Rightarrow> 'cp compiledGraph" where
  "Compile_WithDebug debug cg = cg\<lparr>cg_debug := debug\<rparr>"

definition Compile_WithNodeTriggerMode :: "trigger_mode \<Rightarrow> 'cp compiledGraph \<Rightarrow> 'cp compiledGraph" where
  "Compile_WithNodeTriggerMode mode cg = cg\<lparr>cg_nodeTriggerMode := mode\<rparr>"

section \<open>Reachability\<close>

abbreviation reach_rel :: "stateGraph \<Rightarrow> (string \<times> string) set" where
  "reach_rel g \<equiv> {(a, b). b \<in> set (reach_targets g a)}"

lemma visit_fold:
  assumes "fold visit ts (r, q) = (r', q')" and "set q \<subseteq> set r"
  shows "set r' = set r \<union> set ts \<and> set r' - set r \<subseteq> set q' \<and> set q \<subseteq> set q' \<and> set q' \<subseteq> set r'"
  using assms
proof (induction ts arbitrary: r q)
  case Nil
  then show ?case by simp
next
  case (Cons t ts)
  show ?case
  proof (cases "t \<in> set r")
    case True
    with Cons.IH [of r q] Cons.prems show ?thesis by auto
  next
    case False
    with Cons.IH [of "r @ [t]" "q @ [t]"] Cons.prems show ?thesis by auto
  qed
qed

text \<open>The loop's invariant: reached nodes outside the queue have all their targets reached.\<close>

lemma reach_loop_correct:
  assumes "set q \<subseteq> set r" and "\<And>x y. x \<in> set r \<Longrightarrow> x \<notin> set q \<Longrightarrow> (x, y) \<in> reach_rel g \<Longrightarrow> y \<in> set r"
  shows "set (reach_loop g r q) = (reach_rel g)\<^sup>* `` set r"
  using assms
proof (induction g r q rule: reach_loop.induct)
  case (1 g r)
  have "y \<in> set r" if "(x, y) \<in> (reach_rel g)\<^sup>*" "x \<in> set r" for x y
    using that by (induction rule: rtrancl_induct) (use 1 in auto)
  then show ?case by auto
next
  case (2 g r c q)
  obtain r' q' where v: "fold visit (reach_targets g c) (r, q) = (r', q')" by (cases "fold visit (reach_targets g c) (r, q)")
  have q: "set q \<subseteq> set r" and c: "c \<in> set r" using 2(2) by auto
  note vf = visit_fold [OF v q]
  have "set (reach_loop g r' q') = (reach_rel g)\<^sup>* `` set r'"
  proof (rule 2(1) [OF v [symmetric] refl])
    show "set q' \<subseteq> set r'" using vf by blast
    show "y \<in> set r'" if "x \<in> set r'" "x \<notin> set q'" "(x, y) \<in> reach_rel g" for x y
      using that vf 2(3) [of x y] by (cases "x = c") auto
  qed
  moreover have "(reach_rel g)\<^sup>* `` set r' = (reach_rel g)\<^sup>* `` set r"
    using vf c by (auto intro: rtrancl_trans r_into_rtrancl converse_rtrancl_into_rtrancl)
  ultimately show ?case using v by simp
qed

lemma computeReachable_correct:
  "set (computeReachable g) = (if sg_entryPoint g = [] then {} else (reach_rel g)\<^sup>* `` {sg_entryPoint g})"
  using reach_loop_correct [of "[sg_entryPoint g]" "[sg_entryPoint g]" g] by (simp add: computeReachable_def)

end
