(* ===== verification/Graph_Properties.thy ===== *)
theory Graph_Properties
  imports State_Graph Sample_Lib
begin

text \<open>
  Properties of graph building: no sequence of builder calls produces a dangling edge, entry point or
  finish point; validation accepts exactly the graphs all of whose nodes are reachable along
  edges and conditional edges; compilation gives every schema field a channel; and the retries of
  a node call.
\<close>

section \<open>Graphs that builder calls produce\<close>

inductive build_step :: "stateGraph \<Rightarrow> stateGraph \<Rightarrow> bool" where
  add_node: "build_step g (AddNode n f g)"
| add_node_opts: "build_step g (AddNodeWithOptions n f opts g)"
| add_edge: "AddEdge a b g = Inr g' \<Longrightarrow> build_step g g'"
| add_cond: "AddConditionalEdges a c m g = Inr g' \<Longrightarrow> build_step g g'"
| add_branch: "AddBranch a c t g = Inr g' \<Longrightarrow> build_step g g'"
| add_data: "AddDataEdge a b fm g = Inr g' \<Longrightarrow> build_step g g'"
| set_entry: "SetEntryPoint n g = Inr g' \<Longrightarrow> build_step g g'"
| set_finish: "SetFinishPoint n g = Inr g' \<Longrightarrow> build_step g g'"
| add_channel: "build_step g (AddChannel n ch g)"
| set_reducer: "build_step g (SetReducer n r g)"
| add_channel_reducer: "build_step g (AddChannelWithReducer n ch ro g)"
| set_mode: "build_step g (SetNodeTriggerMode md g)"
| input_schema: "build_step g (WithInputSchema sch g)"
| output_schema: "build_step g (WithOutputSchema sch g)"

inductive built :: "schema \<Rightarrow> stateGraph \<Rightarrow> bool" for sch where
  new: "built sch (NewStateGraph sch)"
| step: "built sch g \<Longrightarrow> build_step g g' \<Longrightarrow> built sch g'"

inductive_cases build_stepE: "build_step g g'"

text \<open>The references of a graph are among the nodes \<open>P\<close>, the start and the end.\<close>

definition edges_ok :: "(string \<Rightarrow> bool) \<Rightarrow> stateGraph \<Rightarrow> bool" where
  "edges_ok P g \<longleftrightarrow>
     (\<forall>e \<in> set (sg_edges g). (P (EdFrom e) \<or> EdFrom e = Start) \<and> (P (EdTo e) \<or> EdTo e = End) \<and>
        (EdTo e = End \<longrightarrow> EdFrom e \<in> set (sg_finishPoints g)))"

definition data_ok :: "(string \<Rightarrow> bool) \<Rightarrow> stateGraph \<Rightarrow> bool" where
  "data_ok P g \<longleftrightarrow>
     (\<forall>e \<in> set (sg_dataEdges g). (P (DeFrom e) \<or> DeFrom e = Start) \<and> (P (DeTo e) \<or> DeTo e = End))"

definition conds_ok :: "(string \<Rightarrow> bool) \<Rightarrow> stateGraph \<Rightarrow> bool" where
  "conds_ok P g \<longleftrightarrow>
     (\<forall>ce \<in> set (sg_conditionalEdges g). P (CdFrom ce) \<and> (\<forall>t \<in> snd ` set (CdMapping ce). P t \<or> t = End)) \<and>
     (\<forall>b \<in> set (sg_branches g). P (BrFrom b))"

definition points_ok :: "(string \<Rightarrow> bool) \<Rightarrow> stateGraph \<Rightarrow> bool" where
  "points_ok P g \<longleftrightarrow>
     (sg_entryPoint g = [] \<or> P (sg_entryPoint g) \<or> sg_entryPoint g = End) \<and>
     (\<forall>f \<in> set (sg_finishPoints g). P f \<or> f = Start)"

definition names_ok :: "stateGraph \<Rightarrow> bool" where
  "names_ok g \<longleftrightarrow> gomap_ok (sg_nodes g) \<and> gomap_ok (sg_channels g) \<and> (\<forall>n nd. mget (sg_nodes g) n = Some nd \<longrightarrow> NdName nd = n)"

lemmas refs_defs = edges_ok_def data_ok_def conds_ok_def points_ok_def names_ok_def

definition graph_ok :: "stateGraph \<Rightarrow> bool" where
  "graph_ok g \<longleftrightarrow> names_ok g \<and> edges_ok (has_node g) g \<and> data_ok (has_node g) g \<and>
     conds_ok (has_node g) g \<and> points_ok (has_node g) g"

lemma refs_mono:
  assumes "\<And>x. P x \<Longrightarrow> Q x"
  shows "edges_ok P g \<Longrightarrow> edges_ok Q g" "data_ok P g \<Longrightarrow> data_ok Q g" "conds_ok P g \<Longrightarrow> conds_ok Q g"
    "points_ok P g \<Longrightarrow> points_ok Q g"
  using assms by (fastforce simp: refs_defs)+

lemma refs_nodes [simp]:
  "edges_ok P (g\<lparr>sg_nodes := n\<rparr>) = edges_ok P g" "data_ok P (g\<lparr>sg_nodes := n\<rparr>) = data_ok P g"
  "conds_ok P (g\<lparr>sg_nodes := n\<rparr>) = conds_ok P g" "points_ok P (g\<lparr>sg_nodes := n\<rparr>) = points_ok P g"
  by (simp_all add: refs_defs)

lemmas builder_defs = AddNode_def AddNodeWithOptions_def AddEdge_def AddConditionalEdges_def AddBranch_def
  AddDataEdge_def SetEntryPoint_def SetFinishPoint_def AddChannel_def SetReducer_def
  AddChannelWithReducer_def SetNodeTriggerMode_def WithInputSchema_def WithOutputSchema_def Let_def

lemma has_node_more: "sg_nodes g' = mput n nd (sg_nodes g) \<Longrightarrow> has_node g x \<Longrightarrow> has_node g' x"
  by (auto simp: has_node_def gomap)

lemma graph_ok_add_node:
  assumes "graph_ok g" and "NdName nd = n"
  shows "graph_ok (g\<lparr>sg_nodes := mput n nd (sg_nodes g)\<rparr>)"
proof -
  let ?g = "g\<lparr>sg_nodes := mput n nd (sg_nodes g)\<rparr>"
  have more: "has_node g x \<Longrightarrow> has_node ?g x" for x by (rule has_node_more) auto
  have "names_ok ?g"
    using assms by (auto simp: graph_ok_def names_ok_def gomap)
  moreover have "edges_ok (has_node ?g) g" "data_ok (has_node ?g) g" "conds_ok (has_node ?g) g" "points_ok (has_node ?g) g"
    using assms(1) refs_mono(1) [of "has_node g" "has_node ?g" g, OF more]
      refs_mono(2) [of "has_node g" "has_node ?g" g, OF more]
      refs_mono(3) [of "has_node g" "has_node ?g" g, OF more]
      refs_mono(4) [of "has_node g" "has_node ?g" g, OF more]
    by (simp_all add: graph_ok_def)
  ultimately show ?thesis by (simp add: graph_ok_def)
qed

lemma has_node_updates [simp]:
  "has_node (g\<lparr>sg_edges := a\<rparr>) = has_node g" "has_node (g\<lparr>sg_dataEdges := b\<rparr>) = has_node g"
  "has_node (g\<lparr>sg_conditionalEdges := c\<rparr>) = has_node g" "has_node (g\<lparr>sg_branches := d\<rparr>) = has_node g"
  "has_node (g\<lparr>sg_entryPoint := e\<rparr>) = has_node g" "has_node (g\<lparr>sg_finishPoints := f\<rparr>) = has_node g"
  "has_node (g\<lparr>sg_channels := h\<rparr>) = has_node g" "has_node (g\<lparr>sg_reducers := i\<rparr>) = has_node g"
  "has_node (g\<lparr>sg_inputSchema := j\<rparr>) = has_node g" "has_node (g\<lparr>sg_outputSchema := k\<rparr>) = has_node g"
  "has_node (g\<lparr>sg_NodeTriggerMode := l\<rparr>) = has_node g"
  by (simp_all add: has_node_def fun_eq_iff)

lemma graph_ok_add_edge:
  assumes "AddEdge a b g = Inr g'" and "graph_ok g"
  shows "graph_ok g'"
proof -
  have ab: "has_node g a \<or> a = Start" "has_node g b \<or> b = End"
    and hn: "has_node g' = has_node g" "sg_nodes g' = sg_nodes g" "sg_channels g' = sg_channels g"
    and ed: "set (sg_edges g') = insert \<lparr>EdFrom = a, EdTo = b\<rparr> (set (sg_edges g))"
    and fin: "set (sg_finishPoints g') = set (sg_finishPoints g) \<union> (if b = End then {a} else {})"
    and entry: "sg_entryPoint g' = (if a = Start then b else sg_entryPoint g)"
    and rest: "sg_dataEdges g' = sg_dataEdges g" "sg_conditionalEdges g' = sg_conditionalEdges g"
      "sg_branches g' = sg_branches g"
    using assms(1) by (auto simp: AddEdge_def Let_def split: if_splits)
  have "edges_ok (has_node g) g'"
    using assms(2) ab by (auto simp: graph_ok_def edges_ok_def ed fin)
  moreover have "points_ok (has_node g) g'"
    using assms(2) ab by (auto simp: graph_ok_def points_ok_def fin entry)
  ultimately show ?thesis
    using assms(2) by (simp add: graph_ok_def names_ok_def data_ok_def conds_ok_def hn rest)
qed

lemma graph_ok_other_updates [simp]:
  "graph_ok (g\<lparr>sg_reducers := r\<rparr>) = graph_ok g" "graph_ok (g\<lparr>sg_inputSchema := sch\<rparr>) = graph_ok g"
  "graph_ok (g\<lparr>sg_outputSchema := sch\<rparr>) = graph_ok g" "graph_ok (g\<lparr>sg_NodeTriggerMode := md\<rparr>) = graph_ok g"
  by (simp_all add: graph_ok_def refs_defs)

lemma graph_ok_channels: "graph_ok g \<Longrightarrow> graph_ok (g\<lparr>sg_channels := mput n c (sg_channels g)\<rparr>)"
  by (simp add: graph_ok_def refs_defs)

lemma refs_unrelated [simp]:
  "edges_ok P (g\<lparr>sg_dataEdges := de\<rparr>) = edges_ok P g" "edges_ok P (g\<lparr>sg_branches := br\<rparr>) = edges_ok P g"
  "edges_ok P (g\<lparr>sg_entryPoint := en\<rparr>) = edges_ok P g"
  "data_ok P (g\<lparr>sg_branches := br\<rparr>) = data_ok P g" "data_ok P (g\<lparr>sg_entryPoint := en\<rparr>) = data_ok P g"
  "data_ok P (g\<lparr>sg_finishPoints := fp\<rparr>) = data_ok P g"
  "conds_ok P (g\<lparr>sg_dataEdges := de\<rparr>) = conds_ok P g" "conds_ok P (g\<lparr>sg_entryPoint := en\<rparr>) = conds_ok P g"
  "conds_ok P (g\<lparr>sg_finishPoints := fp\<rparr>) = conds_ok P g"
  "points_ok P (g\<lparr>sg_dataEdges := de\<rparr>) = points_ok P g" "points_ok P (g\<lparr>sg_branches := br\<rparr>) = points_ok P g"
  "names_ok (g\<lparr>sg_dataEdges := de\<rparr>) = names_ok g" "names_ok (g\<lparr>sg_branches := br\<rparr>) = names_ok g"
  "names_ok (g\<lparr>sg_entryPoint := en\<rparr>) = names_ok g" "names_ok (g\<lparr>sg_finishPoints := fp\<rparr>) = names_ok g"
  "conds_ok P (g\<lparr>sg_branches := sg_branches g @ [b]\<rparr>) \<longleftrightarrow> conds_ok P g \<and> P (BrFrom b)"
  by (auto simp: edges_ok_def data_ok_def points_ok_def names_ok_def conds_ok_def simp del: ball_simps)

lemma graph_ok_step: "build_step g g' \<Longrightarrow> graph_ok g \<Longrightarrow> graph_ok g'"
proof (erule build_stepE)
  assume ok: "graph_ok g"
  show "g' = AddNode n f g \<Longrightarrow> graph_ok g'" for n f
    using graph_ok_add_node [OF ok, of "new_node n f" n] by (simp add: builder_defs new_node_def)
  show "g' = AddNodeWithOptions n f opts g \<Longrightarrow> graph_ok g'" for n f opts
    by (simp only: AddNodeWithOptions_def Let_def) (rule graph_ok_add_node [OF ok], simp add: new_node_def)
  show "AddEdge a b g = Inr g' \<Longrightarrow> graph_ok g'" for a b
    using graph_ok_add_edge ok by blast
  show "AddConditionalEdges a c m g = Inr g' \<Longrightarrow> graph_ok g'" for a c m
    using ok by (fastforce simp: builder_defs graph_ok_def refs_defs find_None_iff split: if_splits option.splits)
  show "AddBranch a c t g = Inr g' \<Longrightarrow> graph_ok g'" for a c t
    using ok by (auto simp: AddBranch_def graph_ok_def split: if_splits)
  show "AddDataEdge a b fm g = Inr g' \<Longrightarrow> graph_ok g'" for a b fm
    using ok by (auto simp: AddDataEdge_def graph_ok_def data_ok_def split: if_splits)
  show "SetEntryPoint n g = Inr g' \<Longrightarrow> graph_ok g'" for n
    using ok by (auto simp: SetEntryPoint_def graph_ok_def points_ok_def split: if_splits)
  show "SetFinishPoint n g = Inr g' \<Longrightarrow> graph_ok g'" for n
    using ok by (auto simp: SetFinishPoint_def graph_ok_def points_ok_def edges_ok_def split: if_splits)
  show "g' = AddChannel n ch g \<Longrightarrow> graph_ok g'" for n ch
    using ok by (simp add: AddChannel_def graph_ok_channels split: option.split)
  show "g' = SetReducer n r g \<Longrightarrow> graph_ok g'" for n r
    using ok by (simp add: SetReducer_def Let_def graph_ok_channels split: option.split)
  show "g' = AddChannelWithReducer n ch ro g \<Longrightarrow> graph_ok g'" for n ch ro
    using ok graph_ok_channels [OF ok] by (simp add: AddChannelWithReducer_def split: option.split)
qed (simp_all add: SetNodeTriggerMode_def WithInputSchema_def WithOutputSchema_def)

lemma graph_ok_new: "graph_ok (NewStateGraph sch)"
  by (simp add: graph_ok_def refs_defs NewStateGraph_def)

lemma built_ok: "built sch g \<Longrightarrow> graph_ok g"
  by (induction rule: built.induct) (blast intro: graph_ok_new graph_ok_step)+

text \<open>C14: No sequence of builder calls leaves a dangling reference: in every graph they produce, each edge, data
  edge and conditional edge joins existing nodes (or the virtual start and end), the entry point is unset,
  an existing node or the virtual end, each finish point exists, every node with an edge to
  the end is a finish point, and nodes are stored under their own names.\<close>

theorem graph_builder_sound:
  assumes "built sch g"
  shows "(\<forall>e \<in> set (sg_edges g). (has_node g (EdFrom e) \<or> EdFrom e = Start) \<and> (has_node g (EdTo e) \<or> EdTo e = End) \<and>
            (EdTo e = End \<longrightarrow> EdFrom e \<in> set (sg_finishPoints g))) \<and>
         (\<forall>e \<in> set (sg_dataEdges g). (has_node g (DeFrom e) \<or> DeFrom e = Start) \<and> (has_node g (DeTo e) \<or> DeTo e = End)) \<and>
         (\<forall>ce \<in> set (sg_conditionalEdges g). has_node g (CdFrom ce) \<and>
            (\<forall>k t. mget (CdMapping ce) k = Some t \<longrightarrow> has_node g t \<or> t = End)) \<and>
         (sg_entryPoint g = [] \<or> sg_entryPoint g = End \<or> (\<exists>nd. GetNode g (sg_entryPoint g) = Some nd)) \<and>
         (\<forall>f \<in> set (sg_finishPoints g). has_node g f \<or> f = Start) \<and>
         (\<forall>n nd. GetNode g n = Some nd \<longrightarrow> NdName nd = n)"
proof -
  have "has_node g t \<or> t = End"
    if "ce \<in> set (sg_conditionalEdges g)" "mget (CdMapping ce) k = Some t" for ce k t
    using built_ok [OF assms] that map_of_SomeD [of "CdMapping ce" k t]
    unfolding graph_ok_def conds_ok_def by force
  then show ?thesis
    using built_ok [OF assms]
    by (intro conjI) (simp_all add: graph_ok_def edges_ok_def data_ok_def conds_ok_def points_ok_def
      names_ok_def GetNode_def, auto simp: has_node_def)
qed

definition sample_schema :: schema where
  "sample_schema = SValue 1 (SStruct ''S'' [(''Count'', True, TInt, ''reducer=add''), (''hidden'', False, TInt, []),
     (''Name'', True, TString, [])])"

definition const_node :: "gval \<Rightarrow> node_fn option" where
  "const_node v = Some (\<lambda>step att st. Ret v None)"

definition sample_graph :: stateGraph where
  "sample_graph =
     (NewStateGraph sample_schema)\<lparr>sg_nodes := [(''a'', new_node ''a'' (const_node GNil)), (''b'', new_node ''b'' (const_node GNil))],
        sg_edges := [\<lparr>EdFrom = Start, EdTo = ''a''\<rparr>, \<lparr>EdFrom = ''a'', EdTo = ''b''\<rparr>, \<lparr>EdFrom = ''b'', EdTo = End\<rparr>],
        sg_entryPoint := ''a'', sg_finishPoints := [''b'']\<rparr>"

definition build2 :: "stateGraph \<Rightarrow> stateGraph res" where
  "build2 g =
     (case AddEdge Start ''a'' (AddNode ''b'' (const_node GNil) (AddNode ''a'' (const_node GNil) g)) of
        Inl e \<Rightarrow> Inl e
      | Inr g1 \<Rightarrow> (case AddEdge ''a'' ''b'' g1 of Inl e \<Rightarrow> Inl e | Inr g2 \<Rightarrow> AddEdge ''b'' End g2))"

lemma build2_sample: "build2 (NewStateGraph sample_schema) = Inr sample_graph"
  by (simp add: build2_def sample_graph_def builder_defs has_node_def Start_def End_def NewStateGraph_def)

lemma sample_graph_built: "built sample_schema sample_graph"
proof -
  let ?g0 = "AddNode ''b'' (const_node GNil) (AddNode ''a'' (const_node GNil) (NewStateGraph sample_schema))"
  have g0: "built sample_schema ?g0" 
    by (rule built.step [OF built.step [OF built.new build_step.add_node] build_step.add_node])
  obtain g1 where g1: "AddEdge Start ''a'' ?g0 = Inr g1"
    using build2_sample by (auto simp: build2_def split: sum.splits)
  obtain g2 where g2: "AddEdge ''a'' ''b'' g1 = Inr g2" and g3: "AddEdge ''b'' End g2 = Inr sample_graph"
    using build2_sample g1 by (auto simp: build2_def split: sum.splits)
  show ?thesis
    using built.step [OF built.step [OF built.step [OF g0 build_step.add_edge [OF g1]]
      build_step.add_edge [OF g2]] build_step.add_edge [OF g3]] .
qed

theorem graph_builder_sound_witness:
  "\<exists>nd. GetNode sample_graph (sg_entryPoint sample_graph) = Some nd"
  using graph_builder_sound [OF sample_graph_built] by (simp add: sample_graph_def End_def)

section \<open>Validation and compilation\<close>

text \<open>C13: Validate accepts a graph exactly when an entry point and a finish point are set, every node can be reached
  from the entry point along edges and conditional edges, and the schema is valid; branches do not count.\<close>

theorem validate_accepts_iff:
  "Graph_Validate L g = None \<longleftrightarrow>
     sg_entryPoint g \<noteq> [] \<and> sg_finishPoints g \<noteq> [] \<and>
     (\<forall>n. has_node g n \<longrightarrow>
        (sg_entryPoint g, n) \<in>
          {(a, b). (\<exists>e \<in> set (sg_edges g). EdFrom e = a \<and> EdTo e = b \<and> b \<noteq> End) \<or>
             (\<exists>ce \<in> set (sg_conditionalEdges g). CdFrom ce = a \<and> b \<in> snd ` set (CdMapping ce) \<and>
                has_node g b \<and> b \<noteq> End)}\<^sup>*) \<and>
     (\<exists>infos. validateStateSchema L (sg_stateSchema g) = Inr infos)"
proof -
  let ?R = "{(a, b). (\<exists>e \<in> set (sg_edges g). EdFrom e = a \<and> EdTo e = b \<and> b \<noteq> End) \<or>
    (\<exists>ce \<in> set (sg_conditionalEdges g). CdFrom ce = a \<and> b \<in> snd ` set (CdMapping ce) \<and>
       has_node g b \<and> b \<noteq> End)}"
  have "reach_rel g = ?R"
    by (auto simp: reach_targets_def)
  then have reach: "n \<in> set (computeReachable g) \<longleftrightarrow> (sg_entryPoint g, n) \<in> ?R\<^sup>*" if "sg_entryPoint g \<noteq> []" for n
    using that unfolding computeReachable_correct by (simp only: Image_singleton_iff if_False)
  have "n \<in> set (mkeys (sg_nodes g)) \<longleftrightarrow> has_node g n" for n
    by (simp add: has_node_def map_of_eq_None_iff)
  then have "find (\<lambda>name. name \<notin> set (computeReachable g)) (mkeys (sg_nodes g)) = None \<longleftrightarrow>
      (\<forall>n. has_node g n \<longrightarrow> n \<in> set (computeReachable g))"
    unfolding find_None_iff by blast
  moreover have "ValidateStateSchema L g = None \<longleftrightarrow> (\<exists>infos. validateStateSchema L (sg_stateSchema g) = Inr infos)"
    by (auto simp: ValidateStateSchema_def split: sum.splits)
  moreover have "Graph_Validate L g = None \<longleftrightarrow> sg_entryPoint g \<noteq> [] \<and> sg_finishPoints g \<noteq> [] \<and>
      find (\<lambda>name. name \<notin> set (computeReachable g)) (mkeys (sg_nodes g)) = None \<and> ValidateStateSchema L g = None"
    by (simp add: Graph_Validate_def split: option.splits)
  ultimately show ?thesis using reach by (simp only:) blast
qed

lemma sample_valid: "Graph_Validate sample_lib sample_graph = None"
  by (simp add: Graph_Validate_def ValidateStateSchema_def validateStateSchema_def sample_graph_def
    sample_schema_def NewStateGraph_def computeReachable_def reach_targets_def Start_def End_def
    processField_def parseAnnotation_def sample_lib_def builtin_reducers_def)

theorem validate_accepts_iff_witness:
  "sg_finishPoints sample_graph \<noteq> [] \<and>
   (''a'', ''b'') \<in> {(a, b). (\<exists>e \<in> set (sg_edges sample_graph). EdFrom e = a \<and> EdTo e = b \<and> b \<noteq> End) \<or>
      (\<exists>ce \<in> set (sg_conditionalEdges sample_graph). CdFrom ce = a \<and> b \<in> snd ` set (CdMapping ce) \<and>
         has_node sample_graph b \<and> b \<noteq> End)}\<^sup>*"
proof -
  have entry: "sg_entryPoint sample_graph = ''a''" and b: "has_node sample_graph ''b''"
    by (simp_all add: sample_graph_def has_node_def)
  note v = iffD1 [OF validate_accepts_iff sample_valid, THEN conjunct2]
  show ?thesis
    using v [THEN conjunct1] v [THEN conjunct2, THEN conjunct1, rule_format, OF b] unfolding entry by (rule conjI)
qed

lemma schema_fields_get:
  "schema_fields L infos fs = Inr infos' \<Longrightarrow>
   (mget infos n \<noteq> None \<or> (\<exists>ty tag. (n, True, ty, tag) \<in> set fs)) \<longleftrightarrow> mget infos' n \<noteq> None"
proof (induction L infos fs rule: schema_fields.induct)
  case (2 L infos name exported ty tag fs)
  show ?case
  proof (cases exported)
    case False
    with 2 show ?thesis by auto
  next
    case True
    with 2(3) obtain info where info: "processField L name ty tag = Inr info"
      and rest: "schema_fields L (mput (FiName info) info infos) fs = Inr infos'"
      by (auto split: sum.splits)
    have "FiName info = name"
      using info by (auto simp: processField_def Let_def split: if_splits sum.splits)
    with 2(2) [OF _ info rest] True show ?thesis by (auto simp: gomap split: if_splits)
  qed
qed auto

lemma configure_field_channels:
  "mget (sg_channels (configure_field (k, info) g)) n =
     (if n = k \<and> mget (sg_channels g) k = None then Some (FiChannel info) else mget (sg_channels g) n)"
  by (simp add: configure_field_def gomap split: option.splits)

lemma configure_fold:
  "gomap_ok fi \<Longrightarrow> mget (sg_channels (fold configure_field fi g)) n =
    (case mget (sg_channels g) n of Some ch \<Rightarrow> Some ch | None \<Rightarrow> map_option FiChannel (mget fi n))"
proof (induction fi arbitrary: g)
  case Nil
  then show ?case by (simp split: option.splits)
next
  case (Cons p fi)
  obtain k info where p: "p = (k, info)" by (cases p)
  have ok: "gomap_ok fi" and fresh: "mget fi k = None"
    using Cons.prems by (auto simp: gomap_ok_def p map_of_eq_None_iff)
  show ?case
    using fresh by (simp add: p Cons.IH [OF ok] configure_field_channels split: option.splits)
qed

lemma schema_fields_ok: "schema_fields L infos fs = Inr infos' \<Longrightarrow> gomap_ok infos \<Longrightarrow> gomap_ok infos'"
  by (induction L infos fs rule: schema_fields.induct) (auto split: if_splits sum.splits)

lemma validateStateSchema_ok: "validateStateSchema L sch = Inr fi \<Longrightarrow> gomap_ok fi"
  by (auto simp: validateStateSchema_def schema_fields_ok split: schema.splits schema_base.splits if_splits)

text \<open>A compiled graph is a valid one, and its channels are those of the graph together with one channel for every
  exported field of a struct schema that had none: channels the caller registered are kept.\<close>

theorem compile_gives_channels:
  assumes "Compile L [] g = Inr cg"
  shows "Graph_Validate L g = None \<and> cg_recursionLimit cg = 50 \<and>
    sg_NodeTriggerMode (cg_graph cg) = NodeTriggerAnyPredecessor \<and>
    (\<forall>n ch. mget (sg_channels g) n = Some ch \<longrightarrow> mget (sg_channels (cg_graph cg)) n = Some ch) \<and>
    (\<forall>ptrs name fs n. sg_stateSchema g = SValue ptrs (SStruct name fs) \<longrightarrow>
       (mget (sg_channels (cg_graph cg)) n \<noteq> None \<longleftrightarrow>
        mget (sg_channels g) n \<noteq> None \<or> (\<exists>ty tag. (n, True, ty, tag) \<in> set fs)))"
proof -
  obtain fi where valid: "Graph_Validate L g = None" and fi: "validateStateSchema L (sg_stateSchema g) = Inr fi"
    and cg: "\<And>n. mget (sg_channels (cg_graph cg)) n =
      (case mget (sg_channels g) n of Some ch \<Rightarrow> Some ch | None \<Rightarrow> map_option FiChannel (mget fi n))"
    and rest: "cg_recursionLimit cg = 50" "sg_NodeTriggerMode (cg_graph cg) = NodeTriggerAnyPredecessor"
    using assms validateStateSchema_ok [of L "sg_stateSchema g"]
    by (auto simp: Compile_def configureChannelsFromSchema_def Let_def DefaultRecursionLimit_def configure_fold
      split: option.splits sum.splits)
  have "mget fi n \<noteq> None \<longleftrightarrow> (\<exists>ty tag. (n, True, ty, tag) \<in> set fs)"
    if "sg_stateSchema g = SValue ptrs (SStruct name fs)" for ptrs name fs n
    using fi that schema_fields_get [of L "[]" fs fi n]
    by (auto simp: validateStateSchema_def split: if_splits)
  with valid rest show ?thesis by (auto simp: cg split: option.splits)
qed

definition sample_compiled :: "unit compiledGraph" where
  "sample_compiled = (case Compile sample_lib [] sample_graph of Inr cg \<Rightarrow> cg)"

theorem compile_gives_channels_witness:
  "mget (sg_channels (cg_graph sample_compiled)) ''Count'' \<noteq> None \<and>
   mget (sg_channels (cg_graph sample_compiled)) ''hidden'' = None"
proof -
  obtain g1 where "configureChannelsFromSchema sample_lib sample_graph = Inr g1"
    by (simp add: configureChannelsFromSchema_def validateStateSchema_def sample_graph_def sample_schema_def
      NewStateGraph_def processField_def parseAnnotation_def sample_lib_def builtin_reducers_def)
  then have "Compile sample_lib [] sample_graph = Inr sample_compiled"
    by (simp add: sample_compiled_def Compile_def sample_valid)
  moreover have "sg_stateSchema sample_graph = SValue 1 (SStruct ''S'' [(''Count'', True, TInt, ''reducer=add''),
      (''hidden'', False, TInt, []), (''Name'', True, TString, [])])" "sg_channels sample_graph = []"
    by (simp_all add: sample_graph_def NewStateGraph_def sample_schema_def)
  ultimately have "mget (sg_channels (cg_graph sample_compiled)) n \<noteq> None \<longleftrightarrow> n = ''Count'' \<or> n = ''Name''" for n
    using compile_gives_channels [of sample_lib sample_graph sample_compiled] by force
  from this [of "''Count''"] this [of "''hidden''"] show ?thesis by simp
qed

section \<open>Retries\<close>

text \<open>A node call under a retry policy ends, within the allowed attempts, with the outcome of the first attempt
  that is not retried: its value if it succeeds, an interrupt unwrapped, a panic turned into an error, a
  non-retryable error wrapped, the last error of an exhausted policy, or the cancellation. Every earlier
  attempt failed with a retryable error that is no interrupt. With no attempts allowed nothing is called.\<close>

theorem retry_execute_outcome:
  "(MaxAttempts p \<le> 0 \<longrightarrow>
      Retry_Execute p cancel name fn = Inl (RetryExhaustedError name (MaxAttempts p) None GNil)) \<and>
   (MaxAttempts p \<ge> 1 \<longrightarrow>
      (\<exists>a. 1 \<le> a \<and> int a \<le> MaxAttempts p \<and>
        (\<forall>k. 1 \<le> k \<and> k < a \<longrightarrow>
           cancel k = None \<and> (\<exists>out err. fn k = Ret out (Some err) \<and> (\<forall>is. err \<noteq> GraphInterrupt is) \<and>
             (\<forall>f. RetryOn p = Some f \<longrightarrow> f err))) \<and>
        (\<forall>out err. fn a = Ret out (Some err) \<and> (\<forall>is. err \<noteq> GraphInterrupt is) \<and>
           (\<forall>f. RetryOn p = Some f \<longrightarrow> f err) \<and> cancel a = None \<longrightarrow> int a = MaxAttempts p) \<and>
        Retry_Execute p cancel name fn =
          (case fn a of
             Panics v \<Rightarrow> Inl (Errorf (''node '' @ name @ '' panicked'') [])
           | Ret output None \<Rightarrow> Inr output
           | Ret output (Some err) \<Rightarrow>
               if \<exists>is. err = GraphInterrupt is then Inl err
               else if \<exists>f. RetryOn p = Some f \<and> \<not> f err
                 then Inl (Errorf (''node '' @ name @ '' failed with non-retryable error: %w'') [err])
               else if int a = MaxAttempts p
                 then Inl (RetryExhaustedError name (MaxAttempts p) (Some err) output)
               else Inl (Errorf (''node '' @ name @ '' cancelled during retry: %w'') [the (cancel a)]))))"
proof (intro conjI impI)
  show "Retry_Execute p cancel name fn = Inl (RetryExhaustedError name (MaxAttempts p) None GNil)"
    if "MaxAttempts p \<le> 0"
    using that by (simp add: Retry_Execute_def retry_loop.simps)
next
  assume "1 \<le> MaxAttempts p"
  then obtain a where a: "1 \<le> a" "int a \<le> MaxAttempts p" "\<not> retried p cancel fn a"
    and before: "\<And>k. 1 \<le> k \<Longrightarrow> k < a \<Longrightarrow> retried p cancel fn k"
    using first_final_attempt by blast
  have "Retry_Execute p cancel name fn = final_result p cancel name fn a"
    using Retry_Execute_spec [OF a(1,2) before a(3)] .
  moreover have "\<forall>k. 1 \<le> k \<and> k < a \<longrightarrow> cancel k = None \<and>
      (\<exists>out err. fn k = Ret out (Some err) \<and> (\<forall>is. err \<noteq> GraphInterrupt is) \<and> (\<forall>f. RetryOn p = Some f \<longrightarrow> f err))"
    using before unfolding retried_def IsGraphInterrupt_iff by blast
  ultimately show "\<exists>a. 1 \<le> a \<and> int a \<le> MaxAttempts p \<and>
        (\<forall>k. 1 \<le> k \<and> k < a \<longrightarrow>
           cancel k = None \<and> (\<exists>out err. fn k = Ret out (Some err) \<and> (\<forall>is. err \<noteq> GraphInterrupt is) \<and>
             (\<forall>f. RetryOn p = Some f \<longrightarrow> f err))) \<and>
        (\<forall>out err. fn a = Ret out (Some err) \<and> (\<forall>is. err \<noteq> GraphInterrupt is) \<and>
           (\<forall>f. RetryOn p = Some f \<longrightarrow> f err) \<and> cancel a = None \<longrightarrow> int a = MaxAttempts p) \<and>
        Retry_Execute p cancel name fn =
          (case fn a of
             Panics v \<Rightarrow> Inl (Errorf (''node '' @ name @ '' panicked'') [])
           | Ret output None \<Rightarrow> Inr output
           | Ret output (Some err) \<Rightarrow>
               if \<exists>is. err = GraphInterrupt is then Inl err
               else if \<exists>f. RetryOn p = Some f \<and> \<not> f err
                 then Inl (Errorf (''node '' @ name @ '' failed with non-retryable error: %w'') [err])
               else if int a = MaxAttempts p
                 then Inl (RetryExhaustedError name (MaxAttempts p) (Some err) output)
               else Inl (Errorf (''node '' @ name @ '' cancelled during retry: %w'') [the (cancel a)]))"
    using a
    by (intro exI [of _ a])
      (auto simp: final_result_def retried_def IsGraphInterrupt_iff split: call_result.splits option.splits)
qed

theorem retry_execute_outcome_witness:
  "Retry_Execute DefaultRetryPolicy (\<lambda>k. None) ''n''
     (\<lambda>k. if k < 2 then Ret GNil (Some EmptyChannelError) else Ret (GBool True) None) = Inr (GBool True)"
proof -
  let ?fn = "\<lambda>k :: nat. if k < 2 then Ret GNil (Some EmptyChannelError) else Ret (GBool True) None"
  have p: "MaxAttempts DefaultRetryPolicy = 3" "RetryOn DefaultRetryPolicy = Some DefaultRetryOn"
    by (simp_all add: DefaultRetryPolicy_def)
  show ?thesis
    using retry_execute_outcome [of DefaultRetryPolicy "\<lambda>k. None" "''n''" ?fn]
    unfolding p by (auto simp: DefaultRetryOn_def split: if_splits)
qed

end
