(* ===== verification/Engine_Values.thy ===== *)
theory Engine_Values
  imports Registry State_Graph
begin

text \<open>
  The value-level routines of \<open>pregel/engine.go\<close>: turning outputs into maps of writes, field mappings
  along dotted paths, merging states, building the input struct of a node, the text form of the set
  of completed tasks, task paths, and writing the input into the channels. Values are immutable here:
  a nested map that two Go values share is two equal maps.
\<close>

section \<open>Outputs as maps\<close>

text \<open>\<open>rv.Elem()\<close> of a pointer; other values are left alone.\<close>

fun elem :: "gval \<Rightarrow> gval" where
  "elem (GPtr v) = v"
| "elem GMissing = GStruct ''missingSentinel'' []"
| "elem (GOverwrite v) = GStruct ''Overwrite'' [(''Value'', True, TAny, v)]"
| "elem (GRType t) = GZero TRType"
| "elem v = v"

text \<open>
  The entries of a value whose kind is struct (its exported fields) or map; \<open>None\<close> for other kinds.
  A \<open>time.Time\<close> and the type descriptor have no exported fields; the values of other types
  (\<open>GOverwriter\<close>) are neither structs nor maps.
\<close>

fun entries_of :: "gval \<Rightarrow> gval gomap option" where
  "entries_of (GMap m) = Some m"
| "entries_of (GBoolMap m) = Some (map (map_prod id GBool) m)"
| "entries_of (GTyped (TMap k v) (GMap m)) = Some m"
| "entries_of (GStruct n fs) = Some (mcopy [] (map (\<lambda>(f, e, t, v). (f, v)) (filter (\<lambda>(f, e, t, v). e) fs)))"
| "entries_of (GZero (TMap k v)) = Some []"
| "entries_of (GEmpty (TMap k v)) = Some []"
| "entries_of (GZero TRType) = Some []"
| "entries_of (GTime t) = Some []"
| "entries_of v = None"

definition toMap :: "gval \<Rightarrow> gval gomap res" where
  "toMap val =
     (case val of
        GNil \<Rightarrow> Inl (Errorf ''nil value'' [])
      | GMap m \<Rightarrow> Inr m
      | _ \<Rightarrow> (case entries_of (elem val) of
               Some m \<Rightarrow> Inr m
             | None \<Rightarrow> Inr [(''__root__'', val)]))"

definition mergeStates :: "gval \<Rightarrow> gval \<Rightarrow> gval" where
  "mergeStates existing nxt =
     (if existing = GNil then nxt
      else if nxt = GNil then existing
      else case (existing, nxt) of
             (GMap a, GMap b) \<Rightarrow> GMap (mcopy (mcopy [] a) b)
           | _ \<Rightarrow> nxt)"

section \<open>Field mappings\<close>

fun get_path :: "gval \<Rightarrow> string list \<Rightarrow> gval" where
  "get_path cur [] = cur"
| "get_path cur (part # parts) =
     (case cur of
        GMap cm \<Rightarrow> (let nxt = mget_or GNil cm part in if nxt = GNil then GNil else get_path nxt parts)
      | _ \<Rightarrow> GNil)"

definition getNestedField :: "gval gomap \<Rightarrow> string \<Rightarrow> gval" where
  "getNestedField m path = (if path = [] then GMap m else get_path (GMap m) (str_split CHR ''.'' path))"

text \<open>
  Descending into a value that is not a map writes to the nil map of the failed assertion, which panics.
\<close>

fun set_path :: "string list \<Rightarrow> gval \<Rightarrow> gval gomap \<Rightarrow> gval gomap res" where
  "set_path [] val m = Inr m"
| "set_path [part] val m = Inr (mput part val m)"
| "set_path (part # parts) val m =
     (case mget m part of
        None \<Rightarrow>
          (case set_path parts val [] of Inl e \<Rightarrow> Inl e | Inr sub \<Rightarrow> Inr (mput part (GMap sub) m))
      | Some (GMap sub0) \<Rightarrow>
          (case set_path parts val sub0 of Inl e \<Rightarrow> Inl e | Inr sub \<Rightarrow> Inr (mput part (GMap sub) m))
      | Some other \<Rightarrow> Inl (GoPanic ''assignment to entry in nil map''))"

definition setNestedField :: "gval gomap \<Rightarrow> string \<Rightarrow> gval \<Rightarrow> gval gomap res" where
  "setNestedField m path val =
     (if path = []
      then case val of GMap vm \<Rightarrow> Inr (mcopy m vm) | _ \<Rightarrow> Inl (GoPanic ''interface conversion'')
      else set_path (str_split CHR ''.'' path) val m)"

fun map_fields :: "gval gomap \<Rightarrow> FieldMapping list \<Rightarrow> gval gomap \<Rightarrow> gval gomap res" where
  "map_fields output [] result = Inr result"
| "map_fields output (mapping # mappings) result =
     (let val = getNestedField output (FmFrom mapping)
      in if val = GNil then map_fields output mappings result
         else case setNestedField result (FmTo mapping) val of
                Inl e \<Rightarrow> Inl e
              | Inr result' \<Rightarrow> map_fields output mappings result')"

definition applyFieldMapping :: "gval gomap \<Rightarrow> FieldMapping list \<Rightarrow> gval gomap res" where
  "applyFieldMapping output mappings = (if mappings = [] then Inr output else map_fields output mappings [])"

section \<open>The input struct of a node\<close>

definition assignable :: "gval \<Rightarrow> gtype \<Rightarrow> bool" where
  "assignable v t \<longleftrightarrow> t = TAny \<or> type_of v = Some t"

text \<open>One field: kept at zero when the map has no entry or one that does not fit; nil panics. (The conversion of a slice to an array longer
  than it, which panics as well, is outside the model: arrays are not among the types.)\<close>

definition schema_field :: "golib \<Rightarrow> gval gomap \<Rightarrow> string \<times> bool \<times> gtype \<times> string \<Rightarrow> (string \<times> bool \<times> gtype \<times> gval) res" where
  "schema_field L m f =
     (case f of (name, exported, t, tag) \<Rightarrow>
        (if \<not> exported then Inr (name, exported, t, zero_value t)
         else case mget m name of
                None \<Rightarrow> Inr (name, exported, t, zero_value t)
              | Some GNil \<Rightarrow> Inl (GoPanic ''reflect: call of reflect.Value.Type on zero Value'')
              | Some val \<Rightarrow>
                  (if assignable val t then Inr (name, exported, t, val)
                   else case reflect_convert L val t of
                          Some w \<Rightarrow> Inr (name, exported, t, w)
                        | None \<Rightarrow> Inr (name, exported, t, zero_value t))))"

fun res_list :: "'a res list \<Rightarrow> 'a list res" where
  "res_list [] = Inr []"
| "res_list (Inl e # xs) = Inl e"
| "res_list (Inr x # xs) = (case res_list xs of Inl e \<Rightarrow> Inl e | Inr ys \<Rightarrow> Inr (x # ys))"

definition mapToStateSchema :: "golib \<Rightarrow> schema \<Rightarrow> gval \<Rightarrow> gval res" where
  "mapToStateSchema L sch input =
     (case input of
        GMap m \<Rightarrow>
          (case sch of
             SValue ptrs (SStruct n fs) \<Rightarrow>
               (case res_list (map (schema_field L m) fs) of
                  Inl e \<Rightarrow> Inl e
                | Inr vs \<Rightarrow> Inr (if ptrs > 0 then GPtr (GStruct n vs) else GStruct n vs))
           | _ \<Rightarrow> Inr input)
      | _ \<Rightarrow> Inr input)"

section \<open>Completed tasks and task paths\<close>

text \<open>A \<open>map[string]bool\<close> holding true only is the list of its keys, in the order of iteration.\<close>

definition serializeStringSet :: "string list \<Rightarrow> string" where
  "serializeStringSet set0 = (if set0 = [] then [] else str_join (char_of (0 :: nat)) (sort set0))"

definition deserializeStringSet :: "string \<Rightarrow> string list option" where
  "deserializeStringSet encoded =
     (if encoded = [] then None else Some (fold List.insert (str_split (char_of (0 :: nat)) encoded) []))"

definition TaskPathStr :: "string list \<Rightarrow> string" where
  "TaskPathStr path = (if path = [] then [] else str_join CHR ''/'' path)"

definition ParseTaskPath :: "string \<Rightarrow> string list" where
  "ParseTaskPath pathStr = (if pathStr = [] then [] else str_split CHR ''/'' pathStr)"

text \<open>Components: a string, an int (printed in decimal), a list of strings, or any other value (printed).\<close>

definition BuildTaskPath :: "golib \<Rightarrow> gval list \<Rightarrow> string list" where
  "BuildTaskPath L components =
     concat (map (\<lambda>comp. case comp of
       GStr s \<Rightarrow> [s]
     | GTyped (TSlice TString) (GSlice vs) \<Rightarrow> map (fmt_v L) vs
     | v \<Rightarrow> [fmt_v L v]) components)"

section \<open>Writing the input\<close>

text \<open>Flip the case of the first letter.\<close>

definition swap_case_first :: "string \<Rightarrow> string option" where
  "swap_case_first key =
     (case key of
        [] \<Rightarrow> None
      | c # cs \<Rightarrow>
          (let n = (of_char c :: nat)
           in if 97 \<le> n \<and> n \<le> 122 then Some (char_of (n - 32) # cs)
              else if 65 \<le> n \<and> n \<le> 90 then Some (char_of (n + 32) # cs)
              else None))"

definition caseFoldKey :: "registry \<Rightarrow> string \<Rightarrow> string" where
  "caseFoldKey r key =
     (case swap_case_first key of
        Some candidate \<Rightarrow> (if Registry_Get r candidate \<noteq> None then candidate else [])
      | None \<Rightarrow> [])"

fun prepare_key :: "string \<times> gval \<Rightarrow> gval gomap \<times> registry \<Rightarrow> gval gomap \<times> registry" where
  "prepare_key (key, val) (inputMap, r) =
     (if Registry_Get r key \<noteq> None then (inputMap, r)
      else let guessed = caseFoldKey r key
           in if guessed \<noteq> [] then (mput guessed val (mdel key inputMap), r)
              else (inputMap, Registry_Register r key (CLastValue (NewLastValue val))))"

text \<open>
  \<open>applyInput\<close> renames keys in the caller's map itself, so it returns the input it leaves behind with
  the registry and the error.
\<close>

definition applyInput :: "registry \<Rightarrow> gval \<Rightarrow> registry \<times> gval \<times> gerr option" where
  "applyInput r input =
     (case toMap input of
        Inl e \<Rightarrow> (r, input, Some e)
      | Inr inputMap \<Rightarrow>
          (let (m, r1) = fold prepare_key inputMap (inputMap, r);
               input' = (case input of GMap m0 \<Rightarrow> GMap m | _ \<Rightarrow> input)
           in if m = [] then (r1, input', None)
              else case Registry_UpdateChannels r1 (map (map_prod id (\<lambda>v. [v])) m) of
                     (r2, Inl e) \<Rightarrow> (r2, input', Some e)
                   | (r2, Inr u) \<Rightarrow> (r2, input', None)))"

definition buildOutput :: "registry \<Rightarrow> gval \<Rightarrow> registry \<times> gval" where
  "buildOutput r lastState =
     (case Registry_GetValues r of
        (r', Inl e) \<Rightarrow> (r', lastState)
      | (r', Inr values) \<Rightarrow> (r', if values \<noteq> [] then GMap values else lastState))"

section \<open>Lemmas\<close>

lemma insert_distinct: "distinct xs \<Longrightarrow> set xs \<inter> set acc = {} \<Longrightarrow> fold List.insert xs acc = rev xs @ acc"
  by (induction xs arbitrary: acc) auto

lemma str_join_Nil_iff: "str_join c ps = [] \<longleftrightarrow> ps = [] \<or> ps = [[]]"
  by (induction c ps rule: str_join.induct) auto

lemma string_set_roundtrip:
  assumes "distinct S" and "S \<noteq> []" and "S \<noteq> [[]]" and "\<forall>s \<in> set S. char_of (0 :: nat) \<notin> set s"
  shows "deserializeStringSet (serializeStringSet S) = Some (rev (sort S))"
proof -
  have ne: "sort S \<noteq> []" using assms(2) by (metis length_0_conv length_sort)
  have "sort S \<noteq> [[]]"
  proof
    assume "sort S = [[]]"
    then have "length S = 1" and "set S = {[]}" by (metis length_Cons length_sort list.size(3) One_nat_def, metis set_sort list.set(1) list.set(2))
    with assms(3) show False by (cases S) auto
  qed
  with ne have "str_join (char_of (0 :: nat)) (sort S) \<noteq> []" by (simp add: str_join_Nil_iff)
  moreover have "str_split (char_of (0 :: nat)) (str_join (char_of (0 :: nat)) (sort S)) = sort S"
    using ne assms(4) by (intro str_split_join) auto
  ultimately show ?thesis
    using assms(1,2) insert_distinct [of "sort S" "[]"]
    by (simp add: deserializeStringSet_def serializeStringSet_def)
qed

lemma set_path_descend:
  assumes "set_path (part # p # ps) val m = Inr m'"
  shows "\<exists>sub0 sub. (mget m part = None \<and> sub0 = [] \<or> mget m part = Some (GMap sub0)) \<and>
    set_path (p # ps) val sub0 = Inr sub \<and> m' = mput part (GMap sub) m"
proof (cases "mget m part")
  case None
  with assms show ?thesis by (auto split: sum.splits)
next
  case (Some v)
  with assms show ?thesis by (cases v) (auto split: sum.splits)
qed

lemma get_path_Cons_GMap [simp]:
  "get_path (GMap (mput k (GMap s) m)) (q # qs) = (if q = k then get_path (GMap s) qs else get_path (GMap m) (q # qs))"
  by (simp add: gomap mget_or_def)

lemma get_set_path: "set_path ps val m = Inr m' \<Longrightarrow> ps \<noteq> [] \<Longrightarrow> val \<noteq> GNil \<Longrightarrow> get_path (GMap m') ps = val"
proof (induction ps arbitrary: m m')
  case (Cons p ps)
  show ?case
  proof (cases ps)
    case Nil
    with Cons show ?thesis by (auto simp: gomap mget_or_def)
  next
    case (Cons q qs)
    with Cons.prems(1) obtain sub0 sub where sub: "set_path ps val sub0 = Inr sub" and m': "m' = mput p (GMap sub) m"
      using set_path_descend by blast
    from Cons.IH [OF sub _ Cons.prems(3)] Cons show ?thesis by (simp add: m' del: get_path.simps)
  qed
qed simp

text \<open>Paths that part ways: writing one leaves the other.\<close>

fun incomparable :: "string list \<Rightarrow> string list \<Rightarrow> bool" where
  "incomparable (p # ps) (q # qs) = (p \<noteq> q \<or> incomparable ps qs)"
| "incomparable ps qs = False"

lemma get_set_path_other:
  "set_path ps val m = Inr m' \<Longrightarrow> incomparable ps qs \<Longrightarrow> get_path (GMap m') qs = get_path (GMap m) qs"
proof (induction ps arbitrary: m m' qs)
  case (Cons p ps)
  obtain q qs' where qs: "qs = q # qs'" using Cons.prems(2) by (cases qs) auto
  show ?case
  proof (cases ps)
    case Nil
    with Cons.prems qs show ?thesis by (auto simp: gomap mget_or_def)
  next
    case (Cons p2 ps2)
    with Cons.prems(1) obtain sub0 sub where
      m: "mget m p = None \<and> sub0 = [] \<or> mget m p = Some (GMap sub0)"
      and sub: "set_path ps val sub0 = Inr sub" and m': "m' = mput p (GMap sub) m"
      using set_path_descend by blast
    show ?thesis
    proof (cases "q = p")
      case False
      then show ?thesis by (simp add: qs m' del: get_path.simps)
    next
      case True
      with Cons.prems(2) qs have inc: "incomparable ps qs'" by simp
      then obtain r rs where qs': "qs' = r # rs" using Cons by (cases qs') auto
      have "get_path (GMap m) qs = get_path (GMap sub0) qs'"
        using m by (auto simp: qs qs' True mget_or_def)
      with Cons.IH [OF sub inc] True show ?thesis by (simp add: qs m' del: get_path.simps)
    qed
  qed
qed simp

end
