(* ===== verification/Engine_Tasks.thy ===== *)
theory Engine_Tasks
  imports Engine_Values Checkpoints
begin

text \<open>
  The scheduling and execution half of a superstep of \<open>pregel/engine.go\<close>: which tasks come next (in the
  any-predecessor and in the all-predecessors mode), static interrupts, and running the tasks.

  What the runtime decides is the record \<open>run_env\<close>: cancellation of the context (at a superstep, while
  a task runs, while a retry waits), the order in which a map of next nodes is iterated, fresh
  identifiers and the clock. Tasks of one superstep run concurrently; each reads its input, then runs on
  its own, so their results are those of running them one after the other (reading an ephemeral
  channel clears it: the model lets the earlier task of the list see it).
\<close>

section \<open>Data\<close>

record run_env =
  ev_cancel :: "nat \<Rightarrow> gerr option"
  ev_taskCancel :: "nat \<Rightarrow> string \<Rightarrow> gerr option"
  ev_retryCancel :: "nat \<Rightarrow> string \<Rightarrow> nat \<Rightarrow> gerr option"
  ev_order :: "nat \<Rightarrow> string list \<Rightarrow> string list"
  ev_threadID :: string
  ev_cpID :: string
  ev_stepID :: "nat \<Rightarrow> string"
  ev_putID :: "nat \<Rightarrow> string"
  ev_taskID :: "nat \<Rightarrow> string \<Rightarrow> string"
  ev_now :: "nat \<Rightarrow> int"

record Task =
  TkID :: string
  TkName :: string
  TkFunc :: "node_fn option"
  TkChannels :: "string list"
  TkTriggers :: "string list"
  TkRetryPolicy :: "RetryPolicy option"

record TaskResult =
  TrName :: string
  TrOutput :: gval
  TrErr :: "gerr option"

record deferredCheckpoint =
  DcThreadID :: string
  DcCheckpointID :: string
  DcStep :: nat
  DcCheckpoint :: "gval gomap"

record Engine =
  en_graph :: stateGraph
  en_interrupts :: "string list"
  en_interruptsAfter :: "string list"
  en_recursionLimit :: int
  en_debug :: bool
  en_config :: "RunnableConfig option"
  en_maxConcurrency :: int
  en_retryPolicy :: "RetryPolicy option"
  en_currentCheckpoint :: "Checkpoint option"
  en_channelVersions :: "int gomap"
  en_versionsSeen :: "int gomap gomap"
  en_deferredCheckpoints :: "deferredCheckpoint list"

definition new_engine :: "stateGraph \<Rightarrow> Engine" where
  "new_engine g =
     \<lparr>en_graph = g, en_interrupts = [], en_interruptsAfter = [], en_recursionLimit = 25, en_debug = False,
      en_config = Some NewRunnableConfig, en_maxConcurrency = 10, en_retryPolicy = None,
      en_currentCheckpoint = None, en_channelVersions = [], en_versionsSeen = [],
      en_deferredCheckpoints = []\<rparr>"

definition NewEngine :: "stateGraph \<Rightarrow> (Engine \<Rightarrow> Engine) list \<Rightarrow> Engine" where
  "NewEngine g opts = fold (\<lambda>opt eng. opt eng) opts (new_engine g)"

definition Engine_WithInterrupts :: "string list \<Rightarrow> Engine \<Rightarrow> Engine" where
  "Engine_WithInterrupts nodes e = e\<lparr>en_interrupts := fold List.insert nodes (en_interrupts e)\<rparr>"

definition Engine_WithInterruptsAfter :: "string list \<Rightarrow> Engine \<Rightarrow> Engine" where
  "Engine_WithInterruptsAfter nodes e = e\<lparr>en_interruptsAfter := fold List.insert nodes (en_interruptsAfter e)\<rparr>"

definition Engine_WithRecursionLimit :: "int \<Rightarrow> Engine \<Rightarrow> Engine" where
  "Engine_WithRecursionLimit limit e = e\<lparr>en_recursionLimit := limit\<rparr>"

definition Engine_WithDebug :: "bool \<Rightarrow> Engine \<Rightarrow> Engine" where
  "Engine_WithDebug debug e = e\<lparr>en_debug := debug\<rparr>"

definition Engine_WithConfig :: "RunnableConfig option \<Rightarrow> Engine \<Rightarrow> Engine" where
  "Engine_WithConfig cfg e = e\<lparr>en_config := cfg\<rparr>"

definition Engine_WithMaxConcurrency :: "int \<Rightarrow> Engine \<Rightarrow> Engine" where
  "Engine_WithMaxConcurrency maxi e = (if maxi > 0 then e\<lparr>en_maxConcurrency := maxi\<rparr> else e)"

definition Engine_WithRetryPolicy :: "RetryPolicy option \<Rightarrow> Engine \<Rightarrow> Engine" where
  "Engine_WithRetryPolicy policy e = e\<lparr>en_retryPolicy := policy\<rparr>"

section \<open>Next nodes\<close>

text \<open>
  Conditional edges of a node, in order: the targets collected so far and whether one leads to the
  end, which returns at once. A condition that fails is asked all the same: its result is used.
\<close>

fun cond_targets :: "golib \<Rightarrow> nat \<Rightarrow> gval \<Rightarrow> ConditionalEdge list \<Rightarrow> string list \<Rightarrow> string list \<times> bool" where
  "cond_targets L step st [] acc = (acc, False)"
| "cond_targets L step st (ce # ces) acc =
     (case mget (CdMapping ce) (fmt_v L (fst (CdCondition ce step st))) of
        None \<Rightarrow> cond_targets L step st ces acc
      | Some target \<Rightarrow>
          (if target = End then (acc, True)
           else cond_targets L step st ces (if target \<in> set acc then acc else acc @ [target])))"

fun edge_targets :: "Edge list \<Rightarrow> string list \<Rightarrow> string list \<times> bool" where
  "edge_targets [] acc = (acc, False)"
| "edge_targets (e # es) acc =
     (if EdTo e = End then (acc, True)
      else edge_targets es (if EdTo e \<in> set acc then acc else acc @ [EdTo e]))"

text \<open>The routing stored under \<open>_next\<close> in the state, used when nothing else was found.\<close>

definition next_from_state :: "stateGraph \<Rightarrow> gval \<Rightarrow> string list" where
  "next_from_state g st =
     (case st of
        GMap m \<Rightarrow>
          (case mget m ''_next'' of
             Some (GStr tv) \<Rightarrow> (if GetNode g tv \<noteq> None then [tv] else [])
           | Some (GSlice (GStr str # vs)) \<Rightarrow> (if GetNode g str \<noteq> None then [str] else [])
           | _ \<Rightarrow> [])
      | _ \<Rightarrow> [])"

fun branch_targets :: "nat \<Rightarrow> gval \<Rightarrow> Branch list \<Rightarrow> string list \<Rightarrow> string list" where
  "branch_targets step st [] acc = acc"
| "branch_targets step st (b # bs) acc =
     (case BrCondition b step st of
        (r, Some e) \<Rightarrow> branch_targets step st bs acc
      | (r, None) \<Rightarrow>
          branch_targets step st bs
            (fold (\<lambda>t acc. if t = End \<or> t \<in> set acc then acc else acc @ [t]) (BrThen b r) acc))"

definition getNextNodes :: "golib \<Rightarrow> stateGraph \<Rightarrow> nat \<Rightarrow> string \<Rightarrow> gval \<Rightarrow> string list" where
  "getNextNodes L g step node st =
     (let ces = filter (\<lambda>ce. CdFrom ce = node) (sg_conditionalEdges g);
          es = filter (\<lambda>e. EdFrom e = node) (sg_edges g);
          bs = filter (\<lambda>b. BrFrom b = node) (sg_branches g);
          (n1, fin) = (if ces \<noteq> [] then cond_targets L step st ces [] else edge_targets es [])
      in if fin then n1
         else branch_targets step st bs (if n1 = [] then next_from_state g st else n1))"

section \<open>Tasks\<close>

definition getTriggers :: "Node option \<Rightarrow> string list" where
  "getTriggers node = (case node of None \<Rightarrow> [] | Some n \<Rightarrow> NdTriggers n)"

definition createTask :: "string \<Rightarrow> Node \<Rightarrow> string list \<Rightarrow> string list \<Rightarrow> Task" where
  "createTask uuid node channels triggers =
     \<lparr>TkID = uuid, TkName = NdName node, TkFunc = NdFunction node, TkChannels = channels,
      TkTriggers = triggers, TkRetryPolicy = NdRetryPolicy node\<rparr>"

definition createTaskInfo :: "string \<Rightarrow> Node \<Rightarrow> string list \<Rightarrow> string list \<Rightarrow> Task" where
  "createTaskInfo uuid node channels triggers =
     \<lparr>TkID = uuid, TkName = NdName node, TkFunc = None, TkChannels = channels,
      TkTriggers = triggers, TkRetryPolicy = NdRetryPolicy node\<rparr>"

definition buildIncomingEdges :: "stateGraph \<Rightarrow> string list gomap" where
  "buildIncomingEdges g =
     fold (\<lambda>e adj. mput (EdTo e) (mget_or [] adj (EdTo e) @ [EdFrom e]) adj) (sg_edges g) []"

definition predecessors_done :: "string list \<Rightarrow> string list \<Rightarrow> bool" where
  "predecessors_done completed preds = list_all (\<lambda>p. p = Start \<or> p = End \<or> p \<in> set completed) preds"

text \<open>A task and the channels it triggers on, for a node with the channels it reads by default.\<close>

definition make_task :: "run_env \<Rightarrow> nat \<Rightarrow> bool \<Rightarrow> string list \<Rightarrow> Node \<Rightarrow> Task" where
  "make_task env step forExecution names node =
     (let triggers = (if NdTriggers node = [] then names else NdTriggers node);
          uuid = ev_taskID env step (NdName node)
      in if forExecution then createTask uuid node triggers [] else createTaskInfo uuid node triggers [])"

definition prepareNextTasksDAG ::
  "run_env \<Rightarrow> Engine \<Rightarrow> nat \<Rightarrow> string list \<Rightarrow> bool \<Rightarrow> Task list \<times> string list" where
  "prepareNextTasksDAG env e step completed forExecution =
     (let g = en_graph e;
          incoming = buildIncomingEdges g;
          ready = filter (\<lambda>node. GetNode g (NdName node) \<noteq> None \<and> NdName node \<notin> set completed \<and>
                    predecessors_done completed (mget_or [] incoming (NdName node))) (map snd (sg_nodes g));
          tasks = map (\<lambda>node. make_task env step forExecution (mkeys (sg_channels g))
                    (the (GetNode g (NdName node)))) ready
      in (tasks, fold List.insert (concat (map TkChannels tasks)) []))"

definition prepareNextTasksWithMode ::
  "golib \<Rightarrow> run_env \<Rightarrow> Engine \<Rightarrow> nat \<Rightarrow> registry \<Rightarrow> string list \<Rightarrow> string \<Rightarrow> gval \<Rightarrow> bool \<Rightarrow> (Task list \<times> string list) res" where
  "prepareNextTasksWithMode L env e step r completed lastNode st forExecution =
     (let g = en_graph e
      in if completed = [] then
           (let entry = sg_entryPoint g
            in if entry = [] then Inl (Errorf ''no entry point set'' [])
               else if entry = End then Inr ([], [])
               else case GetNode g entry of
                      None \<Rightarrow> Inl (NodeNotFoundError entry)
                    | Some node \<Rightarrow>
                        Inr ([createTask (ev_taskID env step (NdName node)) node
                               (if NdTriggers node = [] then Registry_Names r else NdTriggers node) []],
                             [Start]))
         else if sg_NodeTriggerMode g = NodeTriggerAllPredecessor
           then Inr (prepareNextTasksDAG env e step completed forExecution)
         else (let names = ev_order env step (getNextNodes L g step lastNode st);
                   nodes = map the (filter (\<lambda>n. n \<noteq> None) (map (GetNode g) names));
                   tasks = map (make_task env step forExecution (Registry_Names r)) nodes
               in Inr (tasks, fold List.insert (concat (map TkChannels tasks)) [])))"

definition prepareNextTasks ::
  "golib \<Rightarrow> run_env \<Rightarrow> Engine \<Rightarrow> nat \<Rightarrow> registry \<Rightarrow> string list \<Rightarrow> string \<Rightarrow> gval \<Rightarrow> (Task list \<times> string list) res" where
  "prepareNextTasks L env e step r completed lastNode st =
     prepareNextTasksWithMode L env e step r completed lastNode st True"

definition PrepareNextTasksForInspection ::
  "golib \<Rightarrow> run_env \<Rightarrow> Engine \<Rightarrow> nat \<Rightarrow> registry \<Rightarrow> string list \<Rightarrow> string \<Rightarrow> gval \<Rightarrow> (Task list \<times> string list) res" where
  "PrepareNextTasksForInspection L env e step r completed lastNode st =
     prepareNextTasksWithMode L env e step r completed lastNode st False"

text \<open>\<open>types.All\<close> stands for every node.\<close>

definition AllNodes :: string where
  "AllNodes = ''*''"

definition shouldInterrupt :: "Engine \<Rightarrow> Task list \<Rightarrow> Task list" where
  "shouldInterrupt e tasks =
     (if en_interrupts e = [] then []
      else filter (\<lambda>t. AllNodes \<in> set (en_interrupts e) \<or> TkName t \<in> set (en_interrupts e)) tasks)"

definition shouldInterruptAfter :: "Engine \<Rightarrow> TaskResult list \<Rightarrow> bool" where
  "shouldInterruptAfter e results =
     (en_interruptsAfter e \<noteq> [] \<and>
      list_ex (\<lambda>r. TrErr r = None \<and>
        (AllNodes \<in> set (en_interruptsAfter e) \<or> TrName r \<in> set (en_interruptsAfter e))) results)"

section \<open>Running tasks\<close>

fun read_channels :: "registry \<Rightarrow> string list \<Rightarrow> gval gomap \<Rightarrow> registry \<times> gval gomap res" where
  "read_channels r [] values = (r, Inr values)"
| "read_channels r (name # names) values =
     (case Registry_Get r name of
        None \<Rightarrow> read_channels r names values
      | Some ch \<Rightarrow>
          (case ch_Get ch of
             (ch', Inr v) \<Rightarrow> read_channels (mput name ch' r) names (mput name v values)
           | (ch', Inl err) \<Rightarrow>
               (if IsEmptyChannelError (Some err) then read_channels (mput name ch' r) names values
                else (mput name ch' r, Inl err))))"

definition readTaskInput :: "registry \<Rightarrow> Task \<Rightarrow> registry \<times> gval res" where
  "readTaskInput r task =
     (if TkChannels task = [] then (r, Inr (GMap []))
      else case read_channels r (TkChannels task) [] of
             (r', Inl e) \<Rightarrow> (r', Inl e)
           | (r', Inr values) \<Rightarrow> (r', Inr (GMap values)))"

definition resolveRetryPolicy :: "Engine \<Rightarrow> Task \<Rightarrow> RetryPolicy" where
  "resolveRetryPolicy e task =
     (case TkRetryPolicy task of
        Some p \<Rightarrow> p
      | None \<Rightarrow> (case en_retryPolicy e of Some p \<Rightarrow> p | None \<Rightarrow> DefaultRetryPolicy))"

text \<open>
  One task: \<open>Inl\<close> is a panic outside the retry executor, which ends the process. The task's own
  cancellation is the case of the \<open>select\<close> in which the context wins over the result.
\<close>

definition run_task :: "golib \<Rightarrow> run_env \<Rightarrow> Engine \<Rightarrow> nat \<Rightarrow> registry \<Rightarrow> Task \<Rightarrow> registry \<times> TaskResult res" where
  "run_task L env e step r task =
     (let failed = (\<lambda>err. \<lparr>TrName = TkName task, TrOutput = GNil, TrErr = Some err\<rparr>)
      in case readTaskInput r task of
           (r', Inl err) \<Rightarrow> (r', Inr (failed (Errorf ''failed to read task input: %w'' [err])))
         | (r', Inr input) \<Rightarrow>
             (case mapToStateSchema L (sg_stateSchema (en_graph e)) input of
                Inl p \<Rightarrow> (r', Inl p)
              | Inr converted \<Rightarrow>
                  (r', Inr (case ev_taskCancel env step (TkName task) of
                     Some c \<Rightarrow> failed c
                   | None \<Rightarrow>
                       (case Retry_Execute (resolveRetryPolicy e task) (ev_retryCancel env step (TkName task))
                               (TkName task) (\<lambda>a. call_fn (TkFunc task) step a converted) of
                          Inr output \<Rightarrow> \<lparr>TrName = TkName task, TrOutput = output, TrErr = None\<rparr>
                        | Inl err \<Rightarrow> failed err)))))"

fun executeTasksAsync :: "golib \<Rightarrow> run_env \<Rightarrow> Engine \<Rightarrow> nat \<Rightarrow> registry \<Rightarrow> Task list \<Rightarrow> registry \<times> TaskResult list res" where
  "executeTasksAsync L env e step r [] = (r, Inr [])"
| "executeTasksAsync L env e step r (t # ts) =
     (case run_task L env e step r t of
        (r', Inl p) \<Rightarrow> (r', Inl p)
      | (r', Inr res) \<Rightarrow>
          (case executeTasksAsync L env e step r' ts of
             (r'', Inl p) \<Rightarrow> (r'', Inl p)
           | (r'', Inr results) \<Rightarrow> (r'', Inr (res # results))))"

text \<open>The synchronous variant of a task, without the select and with its own wrapping of exhaustion.\<close>

definition executeTask :: "golib \<Rightarrow> run_env \<Rightarrow> Engine \<Rightarrow> nat \<Rightarrow> registry \<Rightarrow> Task \<Rightarrow> registry \<times> TaskResult res" where
  "executeTask L env e step r task =
     (let failed = (\<lambda>err. \<lparr>TrName = TkName task, TrOutput = GNil, TrErr = Some err\<rparr>)
      in case readTaskInput r task of
           (r', Inl err) \<Rightarrow> (r', Inr (failed (Errorf ''failed to read task input: %w'' [err])))
         | (r', Inr input) \<Rightarrow>
             (case mapToStateSchema L (sg_stateSchema (en_graph e)) input of
                Inl p \<Rightarrow> (r', Inl p)
              | Inr converted \<Rightarrow>
                  (r', Inr (case Retry_Execute (NewRetryExecutor (Some (resolveRetryPolicy e task)))
                               (ev_retryCancel env step (TkName task))
                               (TkName task) (\<lambda>a. call_fn (TkFunc task) step a converted) of
                          Inr output \<Rightarrow> \<lparr>TrName = TkName task, TrOutput = output, TrErr = None\<rparr>
                        | Inl err \<Rightarrow>
                            failed (if IsRetryExhausted (Some err) then Errorf ''max retries exceeded: %w'' [err] else err)))))"

end
