(* ===== verification/Engine_Run.thy ===== *)
theory Engine_Run
  imports Engine_Tasks Memory_Saver
begin

text \<open>
  The writing half of a superstep and the run loop of \<open>pregel/engine.go\<close>: \<open>applyWrites\<close> with its version
  bookkeeping, checkpoint saving in the three durability modes, one superstep, the loop under the
  recursion limit, loading a checkpoint on start, and \<open>RunSync\<close>. The loop terminates because
  every step that goes on has passed the recursion limit check; no fuel is needed.

  The checkpointer is any implementation of \<open>BaseCheckpointer\<close>, given by its operations
  (\<open>checkpointer_ops\<close>) on a state of its own; theory \<open>Memory_Saver\<close> has the contract. Saves of the
  asynchronous mode are not ordered with the run: they are collected in \<open>rs_async\<close>. Streaming events,
  callbacks and log lines do not influence the run and are left out, as is the context value that hands
  a restored sub-state to the nodes.
\<close>

section \<open>Writes\<close>

fun collect_entry ::
  "string \<Rightarrow> string \<times> gval \<Rightarrow> gval list gomap \<times> PendingWrite gomap \<Rightarrow> gval list gomap \<times> PendingWrite gomap" where
  "collect_entry node (key, val) (writes, pending) =
     (if val = GNil then (writes, pending)
      else let (v, overwrite) = (case val of GOverwrite w \<Rightarrow> (w, True) | _ \<Rightarrow> (val, False))
           in (mput key (mget_or [] writes key @ [v]) writes,
               mput key \<lparr>PwChannel = key, PwValue = v, PwOverwrite = overwrite, PwNode = node,
                         PwTimestamp = zero_time, PwTaskID = []\<rparr> pending))"

fun collect_writes ::
  "stateGraph \<Rightarrow> TaskResult list \<Rightarrow> gval list gomap \<times> PendingWrite gomap \<Rightarrow> (gval list gomap \<times> PendingWrite gomap) res" where
  "collect_writes g [] acc = Inr acc"
| "collect_writes g (res # results) acc =
     (if TrErr res \<noteq> None \<or> TrOutput res = GNil then collect_writes g results acc
      else case toMap (TrOutput res) of
             Inl e \<Rightarrow> Inl (Errorf ''failed to convert output to map: %w'' [e])
           | Inr m \<Rightarrow>
               (case (case GetNode g (TrName res) of
                        Some node \<Rightarrow> applyFieldMapping m (NdFieldMapping node) | None \<Rightarrow> Inr m) of
                  Inl p \<Rightarrow> Inl p
                | Inr m' \<Rightarrow> collect_writes g results (fold (collect_entry (TrName res)) m' acc)))"

text \<open>The values written to one channel: no nils, and only the last one unless the channel accumulates.\<close>

definition accumulates :: "channel \<Rightarrow> bool" where
  "accumulates ch =
     (case ch of CBinaryOperatorAggregate c \<Rightarrow> True | CReducerChannel c f \<Rightarrow> True | _ \<Rightarrow> False)"

definition channel_values :: "channel \<Rightarrow> gval list \<Rightarrow> gval list" where
  "channel_values ch values =
     (let filtered = filter (\<lambda>v. v \<noteq> GNil) values
      in if length filtered > 1 \<and> \<not> accumulates ch then [last filtered] else filtered)"

definition bump_version :: "string \<Rightarrow> Engine \<Rightarrow> Engine" where
  "bump_version name e =
     e\<lparr>en_channelVersions := mput name (mget_or 0 (en_channelVersions e) name + 1) (en_channelVersions e),
       en_currentCheckpoint := map_option (IncrementChannel name) (en_currentCheckpoint e)\<rparr>"

text \<open>The channel a write goes to: an unknown one is created as a \<open>LastValue\<close>.\<close>

definition target_channel :: "registry \<Rightarrow> string \<Rightarrow> channel" where
  "target_channel r name = (case Registry_Get r name of Some c \<Rightarrow> c | None \<Rightarrow> CLastValue (NewLastValue GNil))"

definition versioned :: "Engine \<Rightarrow> string \<Rightarrow> channel \<Rightarrow> channel" where
  "versioned e name ch =
     (case ch_SetVersion (mget_or 0 (en_channelVersions e) name) ch of Some c \<Rightarrow> c | None \<Rightarrow> ch)"

fun apply_channels ::
  "gval list gomap \<Rightarrow> Engine \<Rightarrow> registry \<Rightarrow> string list \<Rightarrow> Engine \<times> registry \<times> string list res" where
  "apply_channels [] e r updated = (e, r, Inr updated)"
| "apply_channels ((name, values) # rest) e r updated =
     (case ch_Update (target_channel r name) (channel_values (target_channel r name) values) of
        (ch', Inl err) \<Rightarrow>
          (e, Registry_Register r name ch', Inl (Errorf (''failed to update channel '' @ name @ '': %w'') [err]))
      | (ch', Inr upd) \<Rightarrow>
          (if upd \<and> ch_IsAvailable ch'
           then apply_channels rest (bump_version name e)
                  (Registry_Register r name (versioned (bump_version name e) name ch')) (List.insert name updated)
           else apply_channels rest e (Registry_Register r name ch') updated))"

definition markSeen :: "string \<Rightarrow> string \<Rightarrow> Engine \<Rightarrow> Engine" where
  "markSeen node channel e =
     e\<lparr>en_versionsSeen := mput node
          (mput channel (mget_or 0 (en_channelVersions e) channel) (mget_or [] (en_versionsSeen e) node))
          (en_versionsSeen e),
       en_currentCheckpoint := map_option (MarkSeen node channel) (en_currentCheckpoint e)\<rparr>"

definition hasSeen :: "Engine \<Rightarrow> string \<Rightarrow> string \<Rightarrow> bool" where
  "hasSeen e node channel =
     (case mget (en_versionsSeen e) node of
        None \<Rightarrow> False
      | Some versions \<Rightarrow>
          (case mget versions channel of
             None \<Rightarrow> False
           | Some version \<Rightarrow> version = mget_or 0 (en_channelVersions e) channel))"

definition add_pending :: "PendingWrite gomap \<Rightarrow> Engine \<Rightarrow> Engine" where
  "add_pending pending e =
     e\<lparr>en_currentCheckpoint := map_option (fold (\<lambda>(k, pw) c.
         AddPendingWrite (PwChannel pw) (PwValue pw) (PwOverwrite pw) (PwNode pw) c) pending)
       (en_currentCheckpoint e)\<rparr>"

definition mark_all :: "string list \<Rightarrow> string list \<Rightarrow> string list \<Rightarrow> Engine \<Rightarrow> Engine" where
  "mark_all written triggers updated e =
     fold (\<lambda>resultName e. if resultName \<in> set triggers
        then fold (\<lambda>channelName e. markSeen resultName channelName e) updated e else e) written e"

definition applyWrites ::
  "Engine \<Rightarrow> registry \<Rightarrow> TaskResult list \<Rightarrow> string list \<Rightarrow> Engine \<times> registry \<times> string list res" where
  "applyWrites e r results triggers =
     (case collect_writes (en_graph e) (sort_key TrName results) ([], []) of
        Inl err \<Rightarrow> (e, r, Inl err)
      | Inr (writes, pending) \<Rightarrow>
          (case apply_channels writes e r [] of
             (e1, r1, Inl err) \<Rightarrow> (e1, r1, Inl err)
           | (e1, r1, Inr updated) \<Rightarrow>
               (mark_all (mkeys writes) triggers updated (add_pending pending e1), r1, Inr updated)))"

section \<open>Saving checkpoints\<close>

record 's checkpointer_ops =
  op_Get :: "'s \<Rightarrow> gval gomap \<Rightarrow> gval gomap option res"
  op_Put :: "string \<Rightarrow> int \<Rightarrow> 's \<Rightarrow> gval gomap \<Rightarrow> gval gomap \<Rightarrow> 's res"

record 's RunState =
  rs_engine :: Engine
  rs_registry :: registry
  rs_completed :: "string list"
  rs_last :: string
  rs_lastState :: gval
  rs_store :: 's
  rs_async :: "(gval gomap \<times> gval gomap) list"

definition step_config :: "string \<Rightarrow> string \<Rightarrow> nat \<Rightarrow> gval gomap" where
  "step_config threadID checkpointID step =
     [(''thread_id'', GStr threadID), (''checkpoint_id'', GStr checkpointID), (''step'', GInt (of_nat step))]"

definition saveCheckpoint ::
  "run_env \<Rightarrow> 's checkpointer_ops option \<Rightarrow> nat \<Rightarrow> 's \<Rightarrow> string \<Rightarrow> string \<Rightarrow> nat \<Rightarrow> gval gomap \<Rightarrow> 's res" where
  "saveCheckpoint env ops n s threadID checkpointID step checkpoint =
     (case ops of
        None \<Rightarrow> Inr s
      | Some op \<Rightarrow> op_Put op (ev_putID env n) (ev_now env n) s (step_config threadID checkpointID step) checkpoint)"

definition deferCheckpoint :: "string \<Rightarrow> string \<Rightarrow> nat \<Rightarrow> gval gomap \<Rightarrow> Engine \<Rightarrow> Engine" where
  "deferCheckpoint threadID checkpointID step checkpoint e =
     e\<lparr>en_deferredCheckpoints := en_deferredCheckpoints e @
         [\<lparr>DcThreadID = threadID, DcCheckpointID = checkpointID, DcStep = step, DcCheckpoint = checkpoint\<rparr>]\<rparr>"

fun save_deferred ::
  "run_env \<Rightarrow> 's checkpointer_ops option \<Rightarrow> deferredCheckpoint list \<Rightarrow> 's \<Rightarrow> gerr option \<Rightarrow> 's \<times> gerr option" where
  "save_deferred env ops [] s lastErr = (s, lastErr)"
| "save_deferred env ops (dc # dcs) s lastErr =
     (case saveCheckpoint env ops (DcStep dc) s (DcThreadID dc) (DcCheckpointID dc) (DcStep dc) (DcCheckpoint dc) of
        Inl err \<Rightarrow> save_deferred env ops dcs s (Some err)
      | Inr s' \<Rightarrow> save_deferred env ops dcs s' lastErr)"

definition saveDeferredCheckpoints ::
  "run_env \<Rightarrow> 's checkpointer_ops option \<Rightarrow> Engine \<Rightarrow> 's \<Rightarrow> Engine \<times> 's \<times> gerr option" where
  "saveDeferredCheckpoints env ops e s =
     (if ops = None \<or> en_deferredCheckpoints e = [] then (e, s, None)
      else case save_deferred env ops (en_deferredCheckpoints e) s None of
             (s', err) \<Rightarrow> (e\<lparr>en_deferredCheckpoints := []\<rparr>, s', err))"

definition getThreadID :: "run_env \<Rightarrow> Engine \<Rightarrow> string" where
  "getThreadID env e =
     (case Option.bind (en_config e) Configurable of
        None \<Rightarrow> ev_threadID env
      | Some m \<Rightarrow> (case mget m ''thread_id'' of Some (GStr t) \<Rightarrow> t | _ \<Rightarrow> ev_threadID env))"

text \<open>The save at the end of a superstep, by durability mode. A nil configuration panics.\<close>

definition save_step :: "run_env \<Rightarrow> 's checkpointer_ops option \<Rightarrow> nat \<Rightarrow> 's RunState \<Rightarrow> 's RunState \<times> gerr option" where
  "save_step env ops step rs =
     (case ops of
        None \<Rightarrow> (rs, None)
      | Some op \<Rightarrow>
          (let checkpoint = Registry_CreateCheckpoint (rs_registry rs);
               threadID = getThreadID env (rs_engine rs);
               checkpointID = ev_stepID env step
           in case en_config (rs_engine rs) of
                None \<Rightarrow> (rs, Some (GoPanic ''nil pointer dereference''))
              | Some cfg \<Rightarrow>
                  (case Durability cfg of
                     DurabilityAsync \<Rightarrow>
                       (rs\<lparr>rs_async := rs_async rs @ [(step_config threadID checkpointID step, checkpoint)]\<rparr>, None)
                   | DurabilityExit \<Rightarrow>
                       (rs\<lparr>rs_engine := deferCheckpoint threadID checkpointID step checkpoint (rs_engine rs)\<rparr>, None)
                   | _ \<Rightarrow>
                       (case saveCheckpoint env ops step (rs_store rs) threadID checkpointID step checkpoint of
                          Inl err \<Rightarrow> (rs, Some (Errorf ''failed to save checkpoint: %w'' [err]))
                        | Inr s' \<Rightarrow> (rs\<lparr>rs_store := s'\<rparr>, None)))))"

section \<open>One superstep\<close>

datatype step_outcome = Continue | Finished | Stop gerr

text \<open>The results of a step folded into the run's state: who completed, and the merged state.\<close>

fun note_result :: "TaskResult \<Rightarrow> 's RunState \<Rightarrow> 's RunState" where
  "note_result res rs =
     (if TrErr res = None
      then rs\<lparr>rs_completed := List.insert (TrName res) (rs_completed rs), rs_last := TrName res,
              rs_lastState := mergeStates (rs_lastState rs) (TrOutput res)\<rparr>
      else rs)"

definition interrupt_names :: "TaskResult list \<Rightarrow> string list" where
  "interrupt_names results = map TrName (filter (\<lambda>r. IsGraphInterrupt (TrErr r)) results)"

text \<open>The first interrupt that carries items, which the run reports.\<close>

fun first_interrupt :: "TaskResult list \<Rightarrow> interrupt_item list option" where
  "first_interrupt [] = None"
| "first_interrupt (r # rs) =
     (case TrErr r of Some (GraphInterrupt (i # is)) \<Rightarrow> Some (i # is) | _ \<Rightarrow> first_interrupt rs)"

definition sub_state :: "golib \<Rightarrow> TaskResult list \<Rightarrow> gval gomap" where
  "sub_state L results =
     (case first_interrupt results of
        Some (Interrupt v i # is) \<Rightarrow>
          (if v = GNil then []
           else case json_marshal L v of Some b \<Rightarrow> [(''__sub_state__'', GBytes b)] | None \<Rightarrow> [])
      | _ \<Rightarrow> [])"

definition interrupt_payload :: "golib \<Rightarrow> nat \<Rightarrow> TaskResult list \<Rightarrow> 's RunState \<Rightarrow> gval gomap" where
  "interrupt_payload L step results rs =
     (let base = mcopy [] (Registry_CreateCheckpoint (rs_registry rs));
          p1 = mput ''__step__'' (GFloat (f64_of_int L (int step)))
                 (mput ''__last_completed_node__'' (GStr (rs_last rs))
                   (mput ''__completed_tasks__'' (GStr (serializeStringSet (rs_completed rs))) base));
          p2 = (if rs_lastState rs = GNil then p1
                else case json_marshal L (rs_lastState rs) of
                       Some ls \<Rightarrow> mput ''__last_state__'' (GStr ls) p1 | None \<Rightarrow> p1)
      in mcopy p2 (sub_state L results))"

definition thread_only :: "string \<Rightarrow> gval gomap" where
  "thread_only threadID = [(''thread_id'', GStr threadID)]"

definition put_interrupt ::
  "run_env \<Rightarrow> 's checkpointer_ops option \<Rightarrow> nat \<Rightarrow> gval gomap \<Rightarrow> string \<Rightarrow> gerr \<Rightarrow> 's RunState \<Rightarrow> 's RunState \<times> step_outcome" where
  "put_interrupt env ops step payload msg err rs =
     (case ops of
        None \<Rightarrow> (rs, Stop err)
      | Some op \<Rightarrow>
          (case op_Put op (ev_putID env step) (ev_now env step) (rs_store rs)
                  (thread_only (getThreadID env (rs_engine rs))) payload of
             Inl e \<Rightarrow> (rs, Stop (Errorf msg [e]))
           | Inr s' \<Rightarrow> (rs\<lparr>rs_store := s'\<rparr>, Stop err)))"

definition finish_step ::
  "golib \<Rightarrow> run_env \<Rightarrow> 's checkpointer_ops option \<Rightarrow> nat \<Rightarrow> TaskResult list \<Rightarrow> string list \<Rightarrow> 's RunState \<Rightarrow> 's RunState \<times> step_outcome" where
  "finish_step L env ops step results triggers rs =
     (case applyWrites (rs_engine rs) (rs_registry rs) results triggers of
        (e1, r1, Inl err) \<Rightarrow>
          (rs\<lparr>rs_engine := e1, rs_registry := r1\<rparr>,
           Stop (case err of GoPanic m \<Rightarrow> err | _ \<Rightarrow> Errorf ''failed to apply writes: %w'' [err]))
      | (e1, r1, Inr updated) \<Rightarrow>
          (let rs1 = rs\<lparr>rs_engine := e1, rs_registry := fst (Registry_GetValues r1)\<rparr>
           in case save_step env ops step rs1 of
                (rs2, Some err) \<Rightarrow> (rs2, Stop err)
              | (rs2, None) \<Rightarrow>
                  (if shouldInterruptAfter e1 results then (rs2, Stop (GraphInterrupt [])) else (rs2, Continue))))"

definition superstep ::
  "golib \<Rightarrow> run_env \<Rightarrow> 's checkpointer_ops option \<Rightarrow> nat \<Rightarrow> 's RunState \<Rightarrow> 's RunState \<times> step_outcome" where
  "superstep L env ops step rs =
     (let e = rs_engine rs
      in case ev_cancel env step of
           Some c \<Rightarrow> (rs, Stop c)
         | None \<Rightarrow>
             (if int step \<ge> en_recursionLimit e then (rs, Stop (GraphRecursionError (en_recursionLimit e)))
              else case prepareNextTasks L env e step (rs_registry rs) (rs_completed rs) (rs_last rs) (rs_lastState rs) of
                     Inl err \<Rightarrow> (rs, Stop (Errorf ''failed to prepare next tasks: %w'' [err]))
                   | Inr (tasks, triggers) \<Rightarrow>
                       (if tasks = [] then (rs, Finished)
                        else if shouldInterrupt e tasks \<noteq> [] then
                          put_interrupt env ops step (Registry_CreateCheckpoint (rs_registry rs))
                            ''failed to save checkpoint: %w'' (GraphInterrupt []) rs
                        else case executeTasksAsync L env e step (rs_registry rs) tasks of
                               (r1, Inl p) \<Rightarrow> (rs\<lparr>rs_registry := r1\<rparr>, Stop p)
                             | (r1, Inr results) \<Rightarrow>
                                 (let rs1 = fold note_result results (rs\<lparr>rs_registry := r1\<rparr>)
                                  in if interrupt_names results \<noteq> [] then
                                       put_interrupt env ops step (interrupt_payload L step results rs1)
                                         ''failed to save checkpoint on interrupt: %w''
                                         (GraphInterrupt (case first_interrupt results of Some is \<Rightarrow> is | None \<Rightarrow> [])) rs1
                                     else if list_all (\<lambda>r. TrErr r \<noteq> None) results then
                                       (rs1, Stop (Errorf ''all tasks failed'' []))
                                     else finish_step L env ops step results triggers rs1))))"

section \<open>The run loop\<close>

lemma bump_version_config [simp]:
  "en_recursionLimit (bump_version n e) = en_recursionLimit e" "en_graph (bump_version n e) = en_graph e"
  "en_config (bump_version n e) = en_config e"
  by (simp_all add: bump_version_def)

lemma apply_channels_config:
  "apply_channels ws e r u = (e', r', res) \<Longrightarrow>
   en_recursionLimit e' = en_recursionLimit e \<and> en_graph e' = en_graph e \<and> en_config e' = en_config e"
proof (induction ws arbitrary: e r u)
  case Nil
  then show ?case by simp
next
  case (Cons w ws)
  obtain name vs where w: "w = (name, vs)" by (cases w)
  obtain ch' x where up: "ch_Update (target_channel r name) (channel_values (target_channel r name) vs) = (ch', x)"
    by (cases "ch_Update (target_channel r name) (channel_values (target_channel r name) vs)")
  show ?case
  proof (cases x)
    case (Inl err)
    with Cons.prems up show ?thesis by (simp add: w)
  next
    case (Inr upd)
    with Cons.prems up Cons.IH show ?thesis
      by (simp add: w split: if_splits)
  qed
qed

lemma markSeen_config [simp]:
  "en_recursionLimit (markSeen n c e) = en_recursionLimit e" "en_graph (markSeen n c e) = en_graph e"
  "en_config (markSeen n c e) = en_config e"
  by (simp_all add: markSeen_def)

lemma fold_markSeen_config [simp]:
  "en_recursionLimit (fold (markSeen n) us e) = en_recursionLimit e"
  "en_graph (fold (markSeen n) us e) = en_graph e" "en_config (fold (markSeen n) us e) = en_config e"
  by (induction us arbitrary: e) auto

lemma mark_all_config [simp]:
  "en_recursionLimit (mark_all ws ts us e) = en_recursionLimit e" "en_graph (mark_all ws ts us e) = en_graph e"
  "en_config (mark_all ws ts us e) = en_config e"
proof -
  have "en_recursionLimit (mark_all ws ts us e) = en_recursionLimit e \<and> en_graph (mark_all ws ts us e) = en_graph e \<and>
    en_config (mark_all ws ts us e) = en_config e"
    unfolding mark_all_def by (induction ws arbitrary: e) auto
  then show "en_recursionLimit (mark_all ws ts us e) = en_recursionLimit e"
    "en_graph (mark_all ws ts us e) = en_graph e" "en_config (mark_all ws ts us e) = en_config e" by auto
qed

lemma applyWrites_config:
  assumes "applyWrites e r results triggers = (e', r', res)"
  shows "en_recursionLimit e' = en_recursionLimit e \<and> en_graph e' = en_graph e \<and> en_config e' = en_config e"
  using assms apply_channels_config
  by (fastforce simp: applyWrites_def add_pending_def split: sum.splits prod.splits)

lemma save_step_config:
  assumes "save_step env ops step rs = (rs', res)"
  shows "en_recursionLimit (rs_engine rs') = en_recursionLimit (rs_engine rs) \<and>
    en_graph (rs_engine rs') = en_graph (rs_engine rs) \<and> en_config (rs_engine rs') = en_config (rs_engine rs) \<and>
    rs_completed rs' = rs_completed rs \<and> rs_last rs' = rs_last rs \<and> rs_lastState rs' = rs_lastState rs \<and>
    rs_registry rs' = rs_registry rs"
  using assms
  by (auto simp: save_step_def Let_def deferCheckpoint_def split: option.splits sum.splits durability.splits)

lemma finish_step_config:
  assumes "finish_step L env ops step results triggers rs = (rs', out)"
  shows "en_recursionLimit (rs_engine rs') = en_recursionLimit (rs_engine rs) \<and>
    en_graph (rs_engine rs') = en_graph (rs_engine rs) \<and> en_config (rs_engine rs') = en_config (rs_engine rs) \<and>
    rs_completed rs' = rs_completed rs \<and> rs_last rs' = rs_last rs \<and> rs_lastState rs' = rs_lastState rs"
proof -
  obtain e1 r1 res where aw: "applyWrites (rs_engine rs) (rs_registry rs) results triggers = (e1, r1, res)"
    by (cases "applyWrites (rs_engine rs) (rs_registry rs) results triggers") auto
  show ?thesis
    using assms applyWrites_config [OF aw] save_step_config
    by (fastforce simp: finish_step_def aw Let_def split: sum.splits prod.splits option.splits if_splits)
qed

lemma fold_note_config [simp]:
  "rs_engine (fold note_result results rs) = rs_engine rs" "rs_store (fold note_result results rs) = rs_store rs"
  "rs_registry (fold note_result results rs) = rs_registry rs"
  by (induction results arbitrary: rs) auto

lemma put_interrupt_stops: "put_interrupt env ops step p m err rs \<noteq> (rs', Continue)"
  by (auto simp: put_interrupt_def split: option.splits sum.splits)

text \<open>A step that goes on was below the limit, which it leaves as it is.\<close>

lemma superstep_continue:
  assumes "superstep L env ops step rs = (rs', Continue)"
  shows "int step < en_recursionLimit (rs_engine rs) \<and>
    en_recursionLimit (rs_engine rs') = en_recursionLimit (rs_engine rs) \<and>
    en_graph (rs_engine rs') = en_graph (rs_engine rs) \<and> en_config (rs_engine rs') = en_config (rs_engine rs)"
  using assms
  by (auto simp: superstep_def Let_def put_interrupt_stops dest!: finish_step_config
    split: option.splits if_splits sum.splits prod.splits)

function run_loop ::
  "golib \<Rightarrow> run_env \<Rightarrow> 's checkpointer_ops option \<Rightarrow> nat \<Rightarrow> 's RunState \<Rightarrow> 's RunState \<times> nat \<times> gerr option" where
  "run_loop L env ops step rs =
     (case superstep L env ops step rs of
        (rs', Continue) \<Rightarrow> run_loop L env ops (Suc step) rs'
      | (rs', Finished) \<Rightarrow> (rs', step, None)
      | (rs', Stop err) \<Rightarrow> (rs', step, Some err))"
  by pat_completeness auto
termination
proof (relation "measure (\<lambda>(L, env, ops, step, rs). nat (en_recursionLimit (rs_engine rs) - int step))")
  fix L env step rs' out and ops :: "'s checkpointer_ops option" and rs
  assume "(rs', out) = superstep L env ops step rs" and "out = Continue"
  then have "superstep L env ops step rs = (rs', Continue)" by simp
  from superstep_continue [OF this]
  show "((L, env, ops, Suc step, rs'), L, env, ops, step, rs) \<in>
      measure (\<lambda>(L, env, ops, step, rs). nat (en_recursionLimit (rs_engine rs) - int step))"
    by auto
qed simp

declare run_loop.simps [simp del]

section \<open>Starting a run\<close>

text \<open>The configuration the checkpoint is asked for with, and the identifier if one was requested.\<close>

definition requested_id :: "Engine \<Rightarrow> string" where
  "requested_id e =
     (case Option.bind (en_config e) Configurable of
        None \<Rightarrow> []
      | Some m \<Rightarrow> (case mget m ''checkpoint_id'' of Some (GStr i) \<Rightarrow> i | _ \<Rightarrow> []))"

definition load_config :: "run_env \<Rightarrow> Engine \<Rightarrow> gval gomap" where
  "load_config env e =
     (if requested_id e = [] then thread_only (getThreadID env e)
      else thread_only (getThreadID env e) @ [(''checkpoint_id'', GStr (requested_id e))])"

text \<open>The checkpoint to resume from: \<open>Inr None\<close> for a fresh start.\<close>

definition load_checkpoint :: "run_env \<Rightarrow> 's checkpointer_ops option \<Rightarrow> Engine \<Rightarrow> 's \<Rightarrow> gval gomap option res" where
  "load_checkpoint env ops e s =
     (case ops of
        None \<Rightarrow> Inr None
      | Some op \<Rightarrow>
          (case op_Get op s (load_config env e) of
             Inr (Some cpData) \<Rightarrow> Inr (Some cpData)
           | _ \<Rightarrow> (if requested_id e \<noteq> [] then Inl (Errorf (''requested checkpoint_id '' @ requested_id e) [])
                   else Inr None)))"

definition restored_tasks :: "gval gomap \<Rightarrow> string list" where
  "restored_tasks cpData =
     (case mget cpData ''__completed_tasks__'' of
        Some (GStr str) \<Rightarrow> (case deserializeStringSet str of Some ts \<Rightarrow> ts | None \<Rightarrow> [])
      | _ \<Rightarrow> [])"

definition restored_last :: "gval gomap \<Rightarrow> string" where
  "restored_last cpData = (case mget cpData ''__last_completed_node__'' of Some (GStr str) \<Rightarrow> str | _ \<Rightarrow> [])"

definition restored_state :: "golib \<Rightarrow> gval gomap \<Rightarrow> gval" where
  "restored_state L cpData =
     (let decode = (\<lambda>text. case json_unmarshal L text of
            Some (GMap m) \<Rightarrow> GMap m | Some GNil \<Rightarrow> GMap [] | _ \<Rightarrow> GNil)
      in case mget cpData ''__last_state__'' of
           Some (GStr text) \<Rightarrow> decode text | Some (GBytes text) \<Rightarrow> decode text | _ \<Rightarrow> GNil)"

definition init_registry :: "stateGraph \<Rightarrow> registry" where
  "init_registry g = fold (\<lambda>(name, ch) r. Registry_Register r name (ch_Copy ch)) (sg_channels g) NewRegistry"

definition reset_engine :: "Engine \<Rightarrow> Engine" where
  "reset_engine e = e\<lparr>en_currentCheckpoint := None, en_channelVersions := [], en_versionsSeen := [],
     en_deferredCheckpoints := []\<rparr>"

definition resume_state ::
  "golib \<Rightarrow> Engine \<Rightarrow> registry \<Rightarrow> 's \<Rightarrow> gval gomap \<Rightarrow> 's RunState res" where
  "resume_state L e r s cpData =
     (let filtered = filter (\<lambda>(key, val). Registry_Get r key \<noteq> None) cpData
      in case Registry_RestoreFromCheckpoint r filtered of
           (r', Inl err) \<Rightarrow> Inl (Errorf ''failed to restore from checkpoint: %w'' [err])
         | (r', Inr u) \<Rightarrow>
             Inr \<lparr>rs_engine = e\<lparr>en_currentCheckpoint := Some (FromMap L cpData)\<rparr>, rs_registry = r',
                  rs_completed = restored_tasks cpData, rs_last = restored_last cpData,
                  rs_lastState = restored_state L cpData, rs_store = s, rs_async = []\<rparr>)"

text \<open>
  The start of \<open>Run\<close>: reset, register copies of the channels, write the input, load a checkpoint if
  there is one, and otherwise write the input once more.
\<close>

definition start_run ::
  "golib \<Rightarrow> run_env \<Rightarrow> 's checkpointer_ops option \<Rightarrow> Engine \<Rightarrow> 's \<Rightarrow> gval \<Rightarrow> 's RunState res" where
  "start_run L env ops e0 s input =
     (let e = reset_engine e0
      in case applyInput (init_registry (en_graph e)) input of
           (r1, input1, Some err) \<Rightarrow> Inl (Errorf ''failed to apply input: %w'' [err])
         | (r1, input1, None) \<Rightarrow>
             (case load_checkpoint env ops e s of
                Inl err \<Rightarrow> Inl err
              | Inr (Some cpData) \<Rightarrow> resume_state L e r1 s cpData
              | Inr None \<Rightarrow>
                  (case applyInput r1 input1 of
                     (r2, input2, Some err) \<Rightarrow> Inl (Errorf ''failed to apply input: %w'' [err])
                   | (r2, input2, None) \<Rightarrow>
                       Inr \<lparr>rs_engine = e\<lparr>en_currentCheckpoint :=
                              Some (NewCheckpoint (ev_cpID env) (ev_now env 0) (getThreadID env e) 0)\<rparr>,
                            rs_registry = r2, rs_completed = [], rs_last = [], rs_lastState = input2,
                            rs_store = s, rs_async = []\<rparr>)))"

text \<open>The end of \<open>Run\<close>: the output, and the deferred checkpoints.\<close>

definition finish_run :: "run_env \<Rightarrow> 's checkpointer_ops option \<Rightarrow> 's RunState \<Rightarrow> 's RunState \<times> gval res" where
  "finish_run env ops rs =
     (case buildOutput (rs_registry rs) (rs_lastState rs) of
        (r', final) \<Rightarrow>
          (case en_config (rs_engine rs) of
             None \<Rightarrow> (rs\<lparr>rs_registry := r'\<rparr>, Inl (GoPanic ''nil pointer dereference''))
           | Some cfg \<Rightarrow>
               (if Durability cfg = DurabilityExit
                then case saveDeferredCheckpoints env ops (rs_engine rs) (rs_store rs) of
                       (e', s', Some err) \<Rightarrow>
                         (rs\<lparr>rs_registry := r', rs_engine := e', rs_store := s'\<rparr>,
                          Inl (Errorf ''failed to save deferred checkpoints: %w'' [err]))
                     | (e', s', None) \<Rightarrow> (rs\<lparr>rs_registry := r', rs_engine := e', rs_store := s'\<rparr>, Inr final)
                else (rs\<lparr>rs_registry := r'\<rparr>, Inr final))))"

definition RunSync ::
  "golib \<Rightarrow> run_env \<Rightarrow> 's checkpointer_ops option \<Rightarrow> Engine \<Rightarrow> 's \<Rightarrow> gval \<Rightarrow> 's \<times> gval res" where
  "RunSync L env ops e s input =
     (case start_run L env ops e s input of
        Inl err \<Rightarrow> (s, Inl err)
      | Inr rs \<Rightarrow>
          (case run_loop L env ops 0 rs of
             (rs', n, Some err) \<Rightarrow> (rs_store rs', Inl err)
           | (rs', n, None) \<Rightarrow> (case finish_run env ops rs' of (rs'', res) \<Rightarrow> (rs_store rs'', res))))"

definition runCompiledGraph ::
  "golib \<Rightarrow> run_env \<Rightarrow> 's checkpointer_ops compiledGraph \<Rightarrow> 's \<Rightarrow> gval \<Rightarrow> RunnableConfig \<Rightarrow> 's \<times> gval res" where
  "runCompiledGraph L env cg s input config =
     RunSync L env (cg_checkpointer cg)
       (NewEngine (cg_graph cg)
          [Engine_WithInterrupts (cg_interrupts cg), Engine_WithInterruptsAfter (cg_interruptsAfter cg),
           Engine_WithRecursionLimit (cg_recursionLimit cg), Engine_WithDebug (cg_debug cg),
           Engine_WithConfig (Some config)])
       s input"

text \<open>The in-memory checkpointer as the engine's checkpointer.\<close>

definition memory_ops :: "golib \<Rightarrow> MemorySaver checkpointer_ops" where
  "memory_ops L = \<lparr>op_Get = ms_Get L, op_Put = ms_Put L\<rparr>"

end
