(* ===== verification/Engine_Properties.thy ===== *)
theory Engine_Properties
  imports Engine_Run Graph_Properties
begin

text \<open>
  Properties of the Pregel engine: the run loop under its recursion limit, routing in the
  any-predecessor mode, the order of execution in the all-predecessors mode, and the effect of the
  writes of a superstep on each channel.
\<close>

section \<open>The recursion limit\<close>

lemma run_loop_limit:
  assumes "run_loop L env ops step rs = (rs', n, err)" and "int step \<le> en_recursionLimit (rs_engine rs)"
  shows "step \<le> n \<and> int n \<le> en_recursionLimit (rs_engine rs) \<and>
    (err = None \<longrightarrow> int n < en_recursionLimit (rs_engine rs)) \<and>
    (int n = en_recursionLimit (rs_engine rs) \<longrightarrow> ev_cancel env n = None \<longrightarrow>
       err = Some (GraphRecursionError (en_recursionLimit (rs_engine rs))))"
  using assms
proof (induction L env ops step rs rule: run_loop.induct)
  case (1 L env ops step rs)
  obtain rs1 out where ss: "superstep L env ops step rs = (rs1, out)" by (cases "superstep L env ops step rs")
  show ?case
  proof (cases out)
    case Continue
    with ss have c: "superstep L env ops step rs = (rs1, Continue)" by simp
    have loop: "run_loop L env ops (Suc step) rs1 = (rs', n, err)"
      using 1(2) unfolding run_loop.simps [of L env ops step rs] c by simp
    from superstep_continue [OF c] have lim: "int (Suc step) \<le> en_recursionLimit (rs_engine rs1)"
      "en_recursionLimit (rs_engine rs1) = en_recursionLimit (rs_engine rs)" by auto
    from 1(1) [OF ss [symmetric] Continue loop lim(1)] lim(2) show ?thesis by simp
  next
    case Finished
    with ss 1(2) have eq: "rs' = rs1" "n = step" "err = None"
      unfolding run_loop.simps [of L env ops step rs] by auto
    have "int step < en_recursionLimit (rs_engine rs)"
      using ss Finished
      by (auto simp: superstep_def Let_def put_interrupt_def finish_step_def
        split: option.splits if_splits sum.splits prod.splits)
    with eq show ?thesis by simp
  next
    case (Stop e)
    with ss 1(2) have eq: "rs' = rs1" "n = step" "err = Some e"
      unfolding run_loop.simps [of L env ops step rs] by auto
    have "e = GraphRecursionError (en_recursionLimit (rs_engine rs))"
      if "int step = en_recursionLimit (rs_engine rs)" "ev_cancel env step = None"
      using ss Stop that by (auto simp: superstep_def Let_def)
    with eq 1(3) show ?thesis by simp
  qed
qed

text \<open>C2: A run always ends, after at most as many supersteps as the recursion limit allows: it succeeds strictly
  below the limit, and when it gets to the limit (and is not cancelled there) it fails with the
  recursion error that carries the limit.\<close>

theorem run_respects_limit:
  assumes "0 \<le> en_recursionLimit (rs_engine rs)"
  shows "\<exists>rs' n err. run_loop L env ops 0 rs = (rs', n, err) \<and> int n \<le> en_recursionLimit (rs_engine rs) \<and>
    (err = None \<longrightarrow> int n < en_recursionLimit (rs_engine rs)) \<and>
    (int n = en_recursionLimit (rs_engine rs) \<longrightarrow> ev_cancel env n = None \<longrightarrow>
       err = Some (GraphRecursionError (en_recursionLimit (rs_engine rs))))"
proof -
  obtain rs' n err where loop: "run_loop L env ops 0 rs = (rs', n, err)"
    by (cases "run_loop L env ops 0 rs") auto
  with run_loop_limit [OF loop] assms show ?thesis by auto
qed

definition sample_env :: run_env where
  "sample_env =
     \<lparr>ev_cancel = (\<lambda>n. None), ev_taskCancel = (\<lambda>n t. None), ev_retryCancel = (\<lambda>n t a. None), ev_order = (\<lambda>n xs. xs),
      ev_threadID = ''thread'', ev_cpID = ''cp'', ev_stepID = (\<lambda>n. ''step''), ev_putID = (\<lambda>n. ''put''),
      ev_taskID = (\<lambda>n t. t), ev_now = (\<lambda>n. 0)\<rparr>"

definition sample_run :: "unit RunState" where
  "sample_run =
     \<lparr>rs_engine = new_engine sample_graph, rs_registry = [], rs_completed = [], rs_last = [], rs_lastState = GNil,
      rs_store = (), rs_async = []\<rparr>"

theorem run_respects_limit_witness:
  "\<exists>rs' n err. run_loop sample_lib sample_env None 0 sample_run = (rs', n, err) \<and> int n \<le> 25"
  using run_respects_limit [of sample_run sample_lib sample_env None]
  by (auto simp: sample_run_def new_engine_def)

section \<open>Routing in the any-predecessor mode\<close>

text \<open>Both walks gather the names of a list without repetition, up to the first end.\<close>

lemma edge_targets_spec:
  "set (fst (edge_targets es acc)) = set acc \<union> set (takeWhile (\<lambda>t. t \<noteq> End) (map EdTo es)) \<and>
   snd (edge_targets es acc) = (End \<in> set (map EdTo es)) \<and>
   (distinct acc \<longrightarrow> distinct (fst (edge_targets es acc)))"
  by (induction es acc rule: edge_targets.induct) auto

text \<open>The targets the conditional edges select, in their order.\<close>

abbreviation selected :: "golib \<Rightarrow> nat \<Rightarrow> gval \<Rightarrow> ConditionalEdge list \<Rightarrow> string list" where
  "selected L step st ces \<equiv> List.map_filter (\<lambda>ce. mget (CdMapping ce) (fmt_v L (fst (CdCondition ce step st)))) ces"

lemma cond_targets_spec:
  "set (fst (cond_targets L step st ces acc)) = set acc \<union> set (takeWhile (\<lambda>t. t \<noteq> End) (selected L step st ces)) \<and>
   snd (cond_targets L step st ces acc) = (End \<in> set (selected L step st ces)) \<and>
   (distinct acc \<longrightarrow> distinct (fst (cond_targets L step st ces acc)))"
  by (induction L step st ces acc rule: cond_targets.induct) (auto simp: map_filter_simps split: option.split)

lemma branch_targets_spec:
  "set (branch_targets step st bs acc) =
     set acc \<union> {t. \<exists>b \<in> set bs. snd (BrCondition b step st) = None \<and> t \<in> set (BrThen b (fst (BrCondition b step st))) \<and> t \<noteq> End}"
proof (induction step st bs acc rule: branch_targets.induct)
  case (1 step st acc)
  then show ?case by simp
next
  case (2 step st b bs acc)
  have ins: "set (fold (\<lambda>t acc. if t = End \<or> t \<in> set acc then acc else acc @ [t]) ts acc) = set acc \<union> (set ts - {End})" for ts acc
    by (induction ts arbitrary: acc) auto
  obtain r er where ro: "BrCondition b step st = (r, er)" by (cases "BrCondition b step st")
  show ?case
    using 2 by (cases er) (auto simp: ro ins)
qed

lemma branch_targets_distinct: "distinct acc \<Longrightarrow> distinct (branch_targets step st bs acc)"
proof (induction step st bs acc rule: branch_targets.induct)
  case (2 step st b bs acc)
  have ins: "distinct acc \<Longrightarrow> distinct (fold (\<lambda>t acc. if t = End \<or> t \<in> set acc then acc else acc @ [t]) ts acc)" for ts acc
    by (induction ts arbitrary: acc) auto
  show ?case using 2 ins by (cases "BrCondition b step st"; cases "snd (BrCondition b step st)") auto
qed simp

lemma next_from_state_distinct: "distinct (next_from_state g st)"
  by (auto simp: next_from_state_def split: gval.split option.split list.split)

text \<open>C7: Where the engine goes after a node, in the any-predecessor mode. The direct targets are those its conditional edges
  select, in the order of the edges, when it has conditional edges, and otherwise the targets of its plain edges. When
  the end is among them, the run goes on to exactly the targets before the first end, and neither the
  stored routing nor the branches are asked. Otherwise it goes on to exactly the direct targets, or to the routing stored in
  the state when there are none, together with what the branches that do not fail select; no target is taken twice.\<close>

theorem routing_of_a_node:
  "(let ces = filter (\<lambda>ce. CdFrom ce = n) (sg_conditionalEdges g);
        direct = (if ces \<noteq> []
          then List.map_filter (\<lambda>ce. mget (CdMapping ce) (fmt_v L (fst (CdCondition ce step st)))) ces
          else map EdTo (filter (\<lambda>e. EdFrom e = n) (sg_edges g)))
    in distinct (getNextNodes L g step n st) \<and>
       set (getNextNodes L g step n st) =
         (if End \<in> set direct then set (takeWhile (\<lambda>t. t \<noteq> End) direct)
          else (if direct = [] then set (next_from_state g st) else set direct) \<union>
            {t. \<exists>b \<in> set (sg_branches g). BrFrom b = n \<and> snd (BrCondition b step st) = None \<and>
               t \<in> set (BrThen b (fst (BrCondition b step st))) \<and> t \<noteq> End}))"
proof -
  let ?ces = "filter (\<lambda>ce. CdFrom ce = n) (sg_conditionalEdges g)"
  let ?es = "filter (\<lambda>e. EdFrom e = n) (sg_edges g)"
  define direct where "direct = (if ?ces \<noteq> [] then selected L step st ?ces else map EdTo ?es)"
  obtain n1 fin where w: "(if ?ces \<noteq> [] then cond_targets L step st ?ces [] else edge_targets ?es []) = (n1, fin)"
    by (cases "if ?ces \<noteq> [] then cond_targets L step st ?ces [] else edge_targets ?es []")
  have n1: "set n1 = set (takeWhile (\<lambda>t. t \<noteq> End) direct)" "fin = (End \<in> set direct)" "distinct n1"
    using w cond_targets_spec [of L step st ?ces "[]"] edge_targets_spec [of ?es "[]"] unfolding direct_def
    by (simp_all split: if_splits)
  have nxt: "getNextNodes L g step n st =
      (if fin then n1
       else branch_targets step st (filter (\<lambda>b. BrFrom b = n) (sg_branches g)) (if n1 = [] then next_from_state g st else n1))"
    by (simp only: getNextNodes_def Let_def w prod.case)
  have all: "End \<notin> set direct \<Longrightarrow> takeWhile (\<lambda>t. t \<noteq> End) direct = direct" by (auto simp: takeWhile_eq_all_conv)
  have dist: "distinct (getNextNodes L g step n st)"
    unfolding nxt using n1(3) next_from_state_distinct by (simp add: branch_targets_distinct)
  have "set (getNextNodes L g step n st) =
      (if End \<in> set direct then set (takeWhile (\<lambda>t. t \<noteq> End) direct)
       else (if direct = [] then set (next_from_state g st) else set direct) \<union>
         {t. \<exists>b \<in> set (sg_branches g). BrFrom b = n \<and> snd (BrCondition b step st) = None \<and>
            t \<in> set (BrThen b (fst (BrCondition b step st))) \<and> t \<noteq> End})"
  proof (cases "End \<in> set direct")
    case False
    then have "set n1 = set direct" "n1 = [] \<longleftrightarrow> direct = []" using n1(1) all by (simp_all, metis set_empty)
    with False n1(2) show ?thesis unfolding nxt by (auto simp: branch_targets_spec)
  qed (simp add: nxt n1)
  with dist show ?thesis by (simp add: direct_def Let_def)
qed

definition fork_graph :: stateGraph where
  "fork_graph = (NewStateGraph sample_schema)\<lparr>sg_edges :=
     [\<lparr>EdFrom = ''n'', EdTo = ''x''\<rparr>, \<lparr>EdFrom = ''n'', EdTo = End\<rparr>, \<lparr>EdFrom = ''n'', EdTo = ''y''\<rparr>]\<rparr>"

theorem routing_of_a_node_witness:
  "set (getNextNodes sample_lib fork_graph 0 ''n'' GNil) = {''x''}"
  using routing_of_a_node [of "''n''" fork_graph sample_lib 0 GNil]
  by (simp add: fork_graph_def NewStateGraph_def End_def)

section \<open>The all-predecessors mode\<close>

lemma incoming_edges: "set (mget_or [] (buildIncomingEdges g) n) = {EdFrom e |e. e \<in> set (sg_edges g) \<and> EdTo e = n}"
proof -
  have "set (mget_or [] (fold (\<lambda>e adj. mput (EdTo e) (mget_or [] adj (EdTo e) @ [EdFrom e]) adj) es adj) n) =
      set (mget_or [] adj n) \<union> {EdFrom e |e. e \<in> set es \<and> EdTo e = n}" for es adj
    by (induction es arbitrary: adj) (auto simp: gomap)
  from this [of "sg_edges g" "[]"] show ?thesis by (simp add: buildIncomingEdges_def)
qed

definition ready :: "stateGraph \<Rightarrow> string list \<Rightarrow> string \<Rightarrow> bool" where
  "ready g completed n \<longleftrightarrow> (\<forall>e \<in> set (sg_edges g). EdTo e = n \<longrightarrow>
     EdFrom e = Start \<or> EdFrom e = End \<or> EdFrom e \<in> set completed)"

lemma make_task_name [simp]: "TkName (make_task env step fe names node) = NdName node"
  by (simp add: make_task_def Let_def createTask_def createTaskInfo_def)

lemma dag_tasks:
  assumes "graph_ok (en_graph e)"
  shows "TkName ` set (fst (prepareNextTasksDAG env e step completed fe)) =
    {n. has_node (en_graph e) n \<and> n \<notin> set completed \<and> ready (en_graph e) completed n}"
proof -
  let ?g = "en_graph e"
  have name: "NdName nd = n" if "mget (sg_nodes ?g) n = Some nd" for n nd
    using assms that by (auto simp: graph_ok_def names_ok_def)
  have entry: "mget (sg_nodes ?g) n = Some nd \<longleftrightarrow> (n, nd) \<in> set (sg_nodes ?g)" for n nd
    using assms by (auto simp: graph_ok_def names_ok_def gomap_ok_def dest: map_of_SomeD)
  have done_iff: "predecessors_done completed (mget_or [] (buildIncomingEdges ?g) n) \<longleftrightarrow> ready ?g completed n" for n
    using incoming_edges [of ?g n] by (auto simp: predecessors_done_def ready_def list_all_iff)
  let ?ready = "{nd \<in> snd ` set (sg_nodes ?g). GetNode ?g (NdName nd) \<noteq> None \<and>
    NdName nd \<notin> set completed \<and> ready ?g completed (NdName nd)}"
  have "TkName ` set (fst (prepareNextTasksDAG env e step completed fe)) =
      (\<lambda>nd. NdName (the (GetNode ?g (NdName nd)))) ` ?ready"
    by (simp add: prepareNextTasksDAG_def Let_def done_iff image_image)
  also have "\<dots> = NdName ` ?ready"
    using name by (intro image_cong) (auto simp: GetNode_def)
  also have "\<dots> = {n. has_node ?g n \<and> n \<notin> set completed \<and> ready ?g completed n}"
  proof (intro set_eqI iffI)
    fix n
    assume "n \<in> NdName ` ?ready"
    then show "n \<in> {n. has_node ?g n \<and> n \<notin> set completed \<and> ready ?g completed n}"
      by (auto simp: GetNode_def has_node_def)
  next
    fix n
    assume a: "n \<in> {n. has_node ?g n \<and> n \<notin> set completed \<and> ready ?g completed n}"
    then obtain nd where nd: "mget (sg_nodes ?g) n = Some nd" by (auto simp: has_node_def)
    with name have n: "NdName nd = n" by blast
    have "nd \<in> snd ` set (sg_nodes ?g)" using nd entry by force
    with a nd n have "nd \<in> ?ready" by (auto simp: GetNode_def)
    with n show "n \<in> NdName ` ?ready" by blast
  qed
  finally show ?thesis .
qed

lemma run_task_name: "run_task L env e step r t = (r', Inr res) \<Longrightarrow> TrName res = TkName t"
  by (auto simp: run_task_def Let_def split: prod.splits sum.splits option.splits)

lemma execute_names:
  "executeTasksAsync L env e step r ts = (r', Inr results) \<Longrightarrow> map TrName results = map TkName ts"
proof (induction ts arbitrary: r r' results)
  case Nil
  then show ?case by simp
next
  case (Cons t ts)
  obtain r1 x where t: "run_task L env e step r t = (r1, x)" by (cases "run_task L env e step r t")
  obtain r2 y where ts: "executeTasksAsync L env e step r1 ts = (r2, y)" by (cases "executeTasksAsync L env e step r1 ts")
  from Cons.prems t ts obtain res results' where "x = Inr res" "y = Inr results'" "results = res # results'"
    by (auto split: sum.splits)
  with Cons.IH [of r1 r2 results'] t ts run_task_name [of L env e step r t r1 res] show ?case by simp
qed

lemma fold_note_completed:
  "set (rs_completed (fold note_result results rs)) = set (rs_completed rs) \<union> {TrName r |r. r \<in> set results \<and> TrErr r = None}"
  by (induction results arbitrary: rs) auto

text \<open>What a step that goes on did: the tasks it ran, and who is completed afterwards.\<close>

lemma superstep_completed:
  assumes "superstep L env ops step rs = (rs', Continue)"
  shows "\<exists>tasks triggers. prepareNextTasks L env (rs_engine rs) step (rs_registry rs) (rs_completed rs) (rs_last rs) (rs_lastState rs) =
      Inr (tasks, triggers) \<and>
    set (rs_completed rs) \<subseteq> set (rs_completed rs') \<and>
    set (rs_completed rs') \<subseteq> set (rs_completed rs) \<union> TkName ` set tasks"
proof -
  obtain tasks triggers where prep: "prepareNextTasks L env (rs_engine rs) step (rs_registry rs) (rs_completed rs)
      (rs_last rs) (rs_lastState rs) = Inr (tasks, triggers)"
    using assms by (auto simp: superstep_def Let_def split: option.splits if_splits sum.splits prod.splits)
  obtain r1 x where ex: "executeTasksAsync L env (rs_engine rs) step (rs_registry rs) tasks = (r1, x)"
    by (cases "executeTasksAsync L env (rs_engine rs) step (rs_registry rs) tasks")
  obtain results where res: "x = Inr results"
    and fin: "finish_step L env ops step results triggers (fold note_result results (rs\<lparr>rs_registry := r1\<rparr>)) = (rs', Continue)"
    using assms prep ex
    by (auto simp: superstep_def Let_def put_interrupt_stops split: option.splits if_splits sum.splits)
  have "set (rs_completed rs') = set (rs_completed rs) \<union> {TrName r |r. r \<in> set results \<and> TrErr r = None}"
    using finish_step_config [OF fin] by (simp add: fold_note_completed)
  moreover have "TrName ` set results = TkName ` set tasks"
    using execute_names ex res by (metis list.set_map)
  ultimately show ?thesis using prep by auto
qed

inductive run_reach :: "golib \<Rightarrow> run_env \<Rightarrow> 's checkpointer_ops option \<Rightarrow> 's RunState \<Rightarrow> nat \<Rightarrow> 's RunState \<Rightarrow> bool"
  for L env ops rs0 where
  start: "run_reach L env ops rs0 0 rs0"
| step: "run_reach L env ops rs0 n rs \<Longrightarrow> superstep L env ops n rs = (rs', Continue) \<Longrightarrow> run_reach L env ops rs0 (Suc n) rs'"

lemma run_reach_graph: "run_reach L env ops rs0 n rs \<Longrightarrow> en_graph (rs_engine rs) = en_graph (rs_engine rs0)"
  by (induction rule: run_reach.induct) (auto dest: superstep_continue)

definition closed_under_preds :: "stateGraph \<Rightarrow> string list \<Rightarrow> bool" where
  "closed_under_preds g completed \<longleftrightarrow> (\<forall>x \<in> set completed. x = sg_entryPoint g \<or> ready g completed x)"

lemma ready_mono: "ready g c n \<Longrightarrow> set c \<subseteq> set c' \<Longrightarrow> ready g c' n"
  by (auto simp: ready_def)

lemma first_tasks:
  assumes "prepareNextTasks L env e step r [] l st = Inr (tasks, tr)" and "graph_ok (en_graph e)"
  shows "TkName ` set tasks \<subseteq> {sg_entryPoint (en_graph e)}"
  using assms
  by (auto simp: prepareNextTasks_def prepareNextTasksWithMode_def createTask_def graph_ok_def names_ok_def
    GetNode_def Let_def split: if_splits option.splits)

lemma dag_prepare:
  assumes "prepareNextTasks L env e step r c l st = Inr (tasks, tr)" and "c \<noteq> []"
    and "sg_NodeTriggerMode (en_graph e) = NodeTriggerAllPredecessor"
  shows "tasks = fst (prepareNextTasksDAG env e step c True)"
  using assms by (simp add: prepareNextTasks_def prepareNextTasksWithMode_def Let_def)

lemma dag_closed:
  assumes "run_reach L env ops rs0 n rs" and "rs_completed rs0 = []" and "graph_ok (en_graph (rs_engine rs0))"
    and "sg_NodeTriggerMode (en_graph (rs_engine rs0)) = NodeTriggerAllPredecessor"
  shows "closed_under_preds (en_graph (rs_engine rs0)) (rs_completed rs)"
  using assms
proof (induction rule: run_reach.induct)
  case start
  then show ?case by (simp add: closed_under_preds_def)
next
  case (step n rs rs')
  let ?g = "en_graph (rs_engine rs0)"
  have g: "en_graph (rs_engine rs) = ?g" using run_reach_graph [OF step.hyps(1)] .
  obtain tasks tr where prep: "prepareNextTasks L env (rs_engine rs) n (rs_registry rs) (rs_completed rs)
      (rs_last rs) (rs_lastState rs) = Inr (tasks, tr)"
    and grow: "set (rs_completed rs) \<subseteq> set (rs_completed rs')"
    and bound: "set (rs_completed rs') \<subseteq> set (rs_completed rs) \<union> TkName ` set tasks"
    using superstep_completed [OF step.hyps(2)] by blast
  have new: "x = sg_entryPoint ?g \<or> ready ?g (rs_completed rs) x" if "x \<in> TkName ` set tasks" for x
  proof (cases "rs_completed rs = []")
    case True
    with first_tasks [OF prep [unfolded True]] that step.prems(2) g show ?thesis by auto
  next
    case False
    with dag_prepare [OF prep False] dag_tasks [of "rs_engine rs" env n "rs_completed rs" True] that step.prems g
    show ?thesis by auto
  qed
  have "x = sg_entryPoint ?g \<or> ready ?g (rs_completed rs) x" if "x \<in> set (rs_completed rs')" for x
  proof (cases "x \<in> set (rs_completed rs)")
    case True
    with step.IH [OF step.prems] show ?thesis by (auto simp: closed_under_preds_def)
  next
    case False
    with bound that new show ?thesis by blast
  qed
  with grow show ?case
    unfolding closed_under_preds_def using ready_mono [of ?g "rs_completed rs" _ "rs_completed rs'"] by blast
qed

text \<open>C1: In the all-predecessors mode a run executes nodes in the order of the edges. In every state a run reaches,
  each completed node other than the entry point has all its edge predecessors completed; and the tasks of
  the next superstep are exactly the nodes that are not completed and whose predecessors all are, so
  no completed node runs again.\<close>

theorem dag_execution_order:
  assumes "run_reach L env ops rs0 n rs" and "rs_completed rs0 = []" and "graph_ok (en_graph (rs_engine rs0))"
    and "sg_NodeTriggerMode (en_graph (rs_engine rs0)) = NodeTriggerAllPredecessor"
  shows "(\<forall>ed \<in> set (sg_edges (en_graph (rs_engine rs0))).
      EdTo ed \<in> set (rs_completed rs) \<and> EdTo ed \<noteq> sg_entryPoint (en_graph (rs_engine rs0)) \<longrightarrow>
      EdFrom ed = Start \<or> EdFrom ed = End \<or> EdFrom ed \<in> set (rs_completed rs)) \<and>
    (\<forall>tasks tr. rs_completed rs \<noteq> [] \<and>
       prepareNextTasks L env (rs_engine rs) n (rs_registry rs) (rs_completed rs) (rs_last rs) (rs_lastState rs) =
         Inr (tasks, tr) \<longrightarrow>
       TkName ` set tasks = {x. has_node (en_graph (rs_engine rs0)) x \<and> x \<notin> set (rs_completed rs) \<and>
         (\<forall>ed \<in> set (sg_edges (en_graph (rs_engine rs0))). EdTo ed = x \<longrightarrow>
            EdFrom ed = Start \<or> EdFrom ed = End \<or> EdFrom ed \<in> set (rs_completed rs))})"
proof -
  let ?g = "en_graph (rs_engine rs0)"
  have g: "en_graph (rs_engine rs) = ?g" using run_reach_graph [OF assms(1)] .
  have "TkName ` set tasks = {x. has_node ?g x \<and> x \<notin> set (rs_completed rs) \<and> ready ?g (rs_completed rs) x}"
    if "rs_completed rs \<noteq> []" "prepareNextTasks L env (rs_engine rs) n (rs_registry rs) (rs_completed rs) (rs_last rs)
      (rs_lastState rs) = Inr (tasks, tr)" for tasks tr
    using dag_prepare [OF that(2,1)] dag_tasks [of "rs_engine rs" env n "rs_completed rs" True] assms(3,4) g by simp
  moreover have "closed_under_preds ?g (rs_completed rs)" using dag_closed [OF assms] .
  ultimately show ?thesis unfolding closed_under_preds_def ready_def by blast
qed

definition dag_run :: "unit RunState" where
  "dag_run = sample_run\<lparr>rs_engine := new_engine (sample_graph\<lparr>sg_NodeTriggerMode := NodeTriggerAllPredecessor\<rparr>)\<rparr>"

definition dag_run1 :: "unit RunState" where
  "dag_run1 = fst (superstep sample_lib sample_env None 0 dag_run)"

lemmas step_defs = superstep_def prepareNextTasks_def prepareNextTasksWithMode_def GetNode_def createTask_def
  shouldInterrupt_def run_task_def readTaskInput_def mapToStateSchema_def schema_field_def resolveRetryPolicy_def
  Retry_Execute_def interrupt_names_def finish_step_def applyWrites_def save_step_def shouldInterruptAfter_def
  Registry_GetValues_def Registry_Names_def call_fn_def IsGraphInterrupt_def Let_def

lemmas sample_run_defs = dag_run_def sample_run_def sample_env_def sample_graph_def sample_schema_def new_engine_def
  NewStateGraph_def new_node_def const_node_def Start_def End_def

lemma dag_run_step: "superstep sample_lib sample_env None 0 dag_run = (dag_run1, Continue)"
  by (simp add: dag_run1_def step_defs sample_run_defs retry_loop.simps DefaultRetryPolicy_def
    mark_all_def add_pending_def)

lemma dag_run1_completed: "rs_completed dag_run1 = [''a'']"
  by (simp add: dag_run1_def step_defs sample_run_defs retry_loop.simps DefaultRetryPolicy_def
    mark_all_def add_pending_def)

theorem dag_execution_order_witness:
  "\<exists>tasks tr. prepareNextTasks sample_lib sample_env (rs_engine dag_run1) 1 (rs_registry dag_run1) [''a'']
     (rs_last dag_run1) (rs_lastState dag_run1) = Inr (tasks, tr) \<and> TkName ` set tasks = {''b''}"
proof -
  have reach: "run_reach sample_lib sample_env None dag_run 1 dag_run1"
    using run_reach.step [OF run_reach.start dag_run_step] by simp
  have pre: "rs_completed dag_run = []" "graph_ok (en_graph (rs_engine dag_run))"
    "sg_NodeTriggerMode (en_graph (rs_engine dag_run)) = NodeTriggerAllPredecessor"
    using built_ok [OF sample_graph_built] by (simp_all add: dag_run_def sample_run_def new_engine_def)
  have "en_graph (rs_engine dag_run1) = en_graph (rs_engine dag_run)" by (rule run_reach_graph [OF reach])
  then obtain tasks tr where prep: "prepareNextTasks sample_lib sample_env (rs_engine dag_run1) 1 (rs_registry dag_run1)
      (rs_completed dag_run1) (rs_last dag_run1) (rs_lastState dag_run1) = Inr (tasks, tr)"
    by (simp add: prepareNextTasks_def prepareNextTasksWithMode_def dag_run1_completed pre(3) Let_def
      prepareNextTasksDAG_def)
  from dag_execution_order [OF reach pre] prep
  have "TkName ` set tasks = {x. has_node (en_graph (rs_engine dag_run)) x \<and> x \<notin> {''a''} \<and>
      (\<forall>ed \<in> set (sg_edges (en_graph (rs_engine dag_run))). EdTo ed = x \<longrightarrow>
         EdFrom ed = Start \<or> EdFrom ed = End \<or> EdFrom ed \<in> {''a''})}"
    by (simp add: dag_run1_completed)
  also have "\<dots> = {''b''}"
    by (auto simp: sample_run_defs has_node_def split: if_splits)
  finally show ?thesis using prep by (auto simp: dag_run1_completed)
qed

end
