(* ===== verification/Engine_Durability.thy ===== *)
theory Engine_Durability
  imports Engine_Properties
begin

text \<open>
  What the checkpoints of a run are worth: after every superstep of the synchronous mode the checkpointer holds
  the current channels, and a run that was interrupted inside a node is resumed with the tasks it had
  completed. The lemmas on saving are proved for every checkpointer that keeps the contract \<open>checkpointer\<close>.
\<close>

section \<open>Saving\<close>

lemma thread_configs [simp]:
  "cfg_string (thread_only t) ''thread_id'' = Some t" "cfg_string (step_config t c n) ''thread_id'' = Some t"
  "latest_of t (thread_only t)"
  by (simp_all add: cfg_string_def thread_only_def step_config_def latest_of_def)

lemma superstep_continueE:
  assumes "superstep L env ops step rs = (rs', Continue)"
  obtains results triggers r1
  where "finish_step L env ops step results triggers (fold note_result results (rs\<lparr>rs_registry := r1\<rparr>)) = (rs', Continue)"
proof -
  obtain tasks triggers where prep: "prepareNextTasks L env (rs_engine rs) step (rs_registry rs) (rs_completed rs)
      (rs_last rs) (rs_lastState rs) = Inr (tasks, triggers)"
    using assms by (auto simp: superstep_def Let_def split: option.splits if_splits sum.splits prod.splits)
  obtain r1 x where ex: "executeTasksAsync L env (rs_engine rs) step (rs_registry rs) tasks = (r1, x)"
    by (cases "executeTasksAsync L env (rs_engine rs) step (rs_registry rs) tasks")
  obtain results where "x = Inr results"
    and "finish_step L env ops step results triggers (fold note_result results (rs\<lparr>rs_registry := r1\<rparr>)) = (rs', Continue)"
    using assms prep ex
    by (auto simp: superstep_def Let_def put_interrupt_stops split: option.splits if_splits sum.splits)
  then show ?thesis by (rule_tac that)
qed

context checkpointer
begin

text \<open>The operations of this checkpointer as the engine calls them.\<close>

definition ops :: "'s checkpointer_ops" where
  "ops = \<lparr>op_Get = get, op_Put = put\<rparr>"

lemma save_step_latest:
  assumes "save_step env (Some ops) step rs = (rs', None)" and "en_config (rs_engine rs) = Some cfg"
    and "Durability cfg \<noteq> DurabilityAsync" and "Durability cfg \<noteq> DurabilityExit"
  shows "get (rs_store rs') (thread_only (getThreadID env (rs_engine rs))) =
    Inr (Some (copy (Registry_CreateCheckpoint (rs_registry rs))))"
  using assms put_get
  by (auto simp: save_step_def saveCheckpoint_def ops_def Let_def split: durability.splits sum.splits)

lemma put_interrupt_latest:
  assumes "put_interrupt env (Some ops) step payload msg err rs = (rs', Stop err)" and "\<forall>e. err \<noteq> Errorf msg [e]"
  shows "get (rs_store rs') (thread_only (getThreadID env (rs_engine rs))) = Inr (Some (copy payload)) \<and>
    rs_registry rs' = rs_registry rs \<and> rs_completed rs' = rs_completed rs \<and> rs_last rs' = rs_last rs"
  using assms put_get [where config = "thread_only (getThreadID env (rs_engine rs))"]
  by (auto simp: put_interrupt_def ops_def split: sum.splits)

lemma superstep_latest:
  assumes "superstep L env (Some ops) step rs = (rs', Continue)" and "en_config (rs_engine rs) = Some cfg"
    and "Durability cfg \<noteq> DurabilityAsync" and "Durability cfg \<noteq> DurabilityExit"
  shows "get (rs_store rs') (thread_only (getThreadID env (rs_engine rs))) =
    Inr (Some (copy (Registry_CreateCheckpoint (rs_registry rs'))))"
proof -
  obtain results triggers r0
    where fin: "finish_step L env (Some ops) step results triggers (fold note_result results (rs\<lparr>rs_registry := r0\<rparr>)) =
      (rs', Continue)"
    using superstep_continueE [OF assms(1)] .
  define rs0 where "rs0 = fold note_result results (rs\<lparr>rs_registry := r0\<rparr>)"
  have e0: "rs_engine rs0 = rs_engine rs" by (simp add: rs0_def fold_note_config)
  note fin = fin [folded rs0_def]
  obtain e1 r1 updated where aw: "applyWrites (rs_engine rs0) (rs_registry rs0) results triggers = (e1, r1, Inr updated)"
    using fin by (auto simp: finish_step_def split: prod.splits sum.splits)
  let ?rs1 = "rs0\<lparr>rs_engine := e1, rs_registry := fst (Registry_GetValues r1)\<rparr>"
  have sv: "save_step env (Some ops) step ?rs1 = (rs', None)"
    using fin by (auto simp: finish_step_def aw Let_def split: prod.splits option.splits if_splits)
  have cfg: "en_config e1 = en_config (rs_engine rs)" using applyWrites_config [OF aw] e0 by simp
  then have "getThreadID env e1 = getThreadID env (rs_engine rs)" by (simp add: getThreadID_def)
  with save_step_latest [OF sv, of cfg] save_step_config [OF sv] cfg assms show ?thesis by simp
qed

end

section \<open>Resuming\<close>

lemma start_run_resumes:
  assumes inp: "applyInput (init_registry (en_graph e)) input = (r1, input1, None)"
    and got: "op_Get op s (load_config env e) = Inr (Some cp)" and ok: "gomap_ok cp"
  shows "\<exists>rs1. start_run L env (Some op) e s input = Inr rs1 \<and> rs_completed rs1 = restored_tasks cp \<and>
    rs_last rs1 = restored_last cp \<and> rs_store rs1 = s \<and> en_graph (rs_engine rs1) = en_graph e \<and>
    (\<forall>k. mget (rs_registry rs1) k = (case mget r1 k of
        None \<Rightarrow> None
      | Some ch \<Rightarrow> Some (case mget cp k of None \<Rightarrow> ch | Some v \<Rightarrow> ch_FromCheckpoint ch v)))"
proof -
  let ?kept = "filter (\<lambda>(key, val). Registry_Get r1 key \<noteq> None) cp"
  have "mdom ?kept \<subseteq> mdom r1" by (force simp: Registry_Get_def mdom_get)
  from Restore_spec [OF gomap_ok_filter [OF ok] this]
  obtain r' where r': "Registry_RestoreFromCheckpoint r1 ?kept = (r', Inr ())"
    "\<forall>k. mget r' k = (case mget r1 k of None \<Rightarrow> None
       | Some ch \<Rightarrow> (case mget ?kept k of None \<Rightarrow> Some ch | Some v \<Rightarrow> Some (ch_FromCheckpoint ch v)))" by blast
  have cfg: "load_config env (reset_engine e) = load_config env e" "en_graph (reset_engine e) = en_graph e"
    by (simp_all add: load_config_def requested_id_def getThreadID_def reset_engine_def)
  have "load_checkpoint env (Some op) (reset_engine e) s = Inr (Some cp)"
    by (simp add: load_checkpoint_def cfg got)
  moreover have "mget r' k = (case mget r1 k of None \<Rightarrow> None
      | Some ch \<Rightarrow> Some (case mget cp k of None \<Rightarrow> ch | Some v \<Rightarrow> ch_FromCheckpoint ch v))" for k
    using r'(2) by (auto simp: mget_filter_keys Registry_Get_def split: option.splits)
  ultimately show ?thesis
    by (simp add: start_run_def Let_def cfg inp resume_state_def r'(1) reset_engine_def [of e] del: not_None_eq)
qed

lemma res_list_error: "res_list xs = Inl p \<Longrightarrow> Inl p \<in> set xs"
  by (induction xs rule: res_list.induct) (auto split: sum.splits)

lemma schema_panics: "mapToStateSchema L sch input = Inl p \<Longrightarrow> \<exists>m. p = GoPanic m"
  by (auto simp: mapToStateSchema_def schema_field_def dest!: res_list_error
    split: gval.splits schema.splits schema_base.splits sum.splits if_splits option.splits prod.splits)

lemma run_task_panics: "run_task L env e step r t = (r', Inl p) \<Longrightarrow> \<exists>m. p = GoPanic m"
  by (auto simp: run_task_def Let_def split: prod.splits sum.splits option.splits dest!: schema_panics)

lemma execute_panics: "executeTasksAsync L env e step r ts = (r', Inl p) \<Longrightarrow> \<exists>m. p = GoPanic m"
  by (induction L env e step r ts rule: executeTasksAsync.induct)
    (auto split: prod.splits sum.splits dest: run_task_panics)

lemma save_step_no_interrupt: "save_step env ops step rs = (rs', Some err) \<Longrightarrow> err \<noteq> GraphInterrupt is"
  by (auto simp: save_step_def Let_def split: option.splits durability.splits sum.splits)

lemma finish_no_items: "finish_step L env ops step results triggers rs \<noteq> (rs', Stop (GraphInterrupt (i # is)))"
  using save_step_no_interrupt
  by (fastforce simp: finish_step_def Let_def split: prod.splits sum.splits option.splits if_splits gerr.splits)

text \<open>A run that stops with interrupt items was stopped by a node, and saved what \<open>interrupt_payload\<close> holds.\<close>

lemma interrupt_stopE:
  assumes "superstep L env ops step rs = (rs', Stop (GraphInterrupt (i # is)))" and "ev_cancel env step = None"
  obtains tasks triggers r1 results
  where "prepareNextTasks L env (rs_engine rs) step (rs_registry rs) (rs_completed rs) (rs_last rs) (rs_lastState rs) =
      Inr (tasks, triggers)"
    and "executeTasksAsync L env (rs_engine rs) step (rs_registry rs) tasks = (r1, Inr results)"
    and "put_interrupt env ops step (interrupt_payload L step results (fold note_result results (rs\<lparr>rs_registry := r1\<rparr>)))
      ''failed to save checkpoint on interrupt: %w'' (GraphInterrupt (i # is))
      (fold note_result results (rs\<lparr>rs_registry := r1\<rparr>)) = (rs', Stop (GraphInterrupt (i # is)))"
proof -
  obtain tasks triggers where prep: "prepareNextTasks L env (rs_engine rs) step (rs_registry rs) (rs_completed rs)
      (rs_last rs) (rs_lastState rs) = Inr (tasks, triggers)"
    using assms by (auto simp: superstep_def Let_def split: option.splits if_splits sum.splits prod.splits)
  obtain r1 x where ex: "executeTasksAsync L env (rs_engine rs) step (rs_registry rs) tasks = (r1, x)"
    by (cases "executeTasksAsync L env (rs_engine rs) step (rs_registry rs) tasks")
  have early: "put_interrupt env ops step p m (GraphInterrupt []) rs \<noteq> (rs', Stop (GraphInterrupt (i # is)))" for p m
    by (auto simp: put_interrupt_def split: option.splits sum.splits)
  obtain results where res: "x = Inr results"
    using assms prep ex execute_panics [of L env "rs_engine rs" step "rs_registry rs" tasks r1]
    by (cases x) (auto simp: superstep_def Let_def early split: if_splits)
  define rs1 where "rs1 = fold note_result results (rs\<lparr>rs_registry := r1\<rparr>)"
  let ?items = "case first_interrupt results of Some is \<Rightarrow> is | None \<Rightarrow> []"
  have put: "put_interrupt env ops step (interrupt_payload L step results rs1)
      ''failed to save checkpoint on interrupt: %w'' (GraphInterrupt ?items) rs1 = (rs', Stop (GraphInterrupt (i # is)))"
    using assms prep ex res by (auto simp: superstep_def Let_def rs1_def early finish_no_items split: if_splits)
  then have "?items = i # is" by (auto simp: put_interrupt_def split: option.splits sum.splits)
  with put that [OF prep ex [unfolded res]] show ?thesis by (simp add: rs1_def)
qed

section \<open>What an interrupt saves\<close>

lemma ascii_join: "(\<forall>s \<in> set S. ascii s) \<Longrightarrow> ascii (str_join (char_of (0 :: nat)) S)"
  by (induction "char_of (0 :: nat) :: char" S rule: str_join.induct) (auto simp: ascii_def)

definition task_names_ok :: "string list \<Rightarrow> bool" where
  "task_names_ok S \<longleftrightarrow> distinct S \<and> list_all (\<lambda>s. s \<noteq> [] \<and> ascii s \<and> char_of (0 :: nat) \<notin> set s) S"

lemma completed_wire:
  assumes "utf8_lib L" and "task_names_ok S"
    and "mget cp ''__completed_tasks__'' = Some (GStr (serializeStringSet S))"
  shows "set (restored_tasks (deepCopyMap L (deepCopyMap L cp))) = set S"
proof -
  let ?enc = "serializeStringSet S"
  have "ascii ?enc"
    using assms(2) ascii_join [of "sort S"] by (auto simp: serializeStringSet_def task_names_ok_def list_all_iff ascii_def)
  then have "json_utf8 L ?enc = ?enc" using assms(1) by (simp add: utf8_lib_def)
  then have got: "mget (deepCopyMap L (deepCopyMap L cp)) ''__completed_tasks__'' = Some (GStr ?enc)"
    using assms(3) by (simp add: json json_copy_def)
  show ?thesis
  proof (cases "S = []")
    case True
    then show ?thesis by (simp add: restored_tasks_def got serializeStringSet_def deserializeStringSet_def)
  next
    case False
    moreover have "S \<noteq> [[]]" "\<forall>s \<in> set S. char_of (0 :: nat) \<notin> set s" "distinct S"
      using assms(2) by (auto simp: task_names_ok_def list_all_iff)
    ultimately show ?thesis by (simp add: restored_tasks_def got string_set_roundtrip)
  qed
qed

lemma payload_get:
  "mget (interrupt_payload L step results rs) ''__completed_tasks__'' = Some (GStr (serializeStringSet (rs_completed rs)))"
  "mget (interrupt_payload L step results rs) ''__last_completed_node__'' = Some (GStr (rs_last rs))"
  "k \<notin> {''__completed_tasks__'', ''__last_completed_node__'', ''__step__'', ''__last_state__'', ''__sub_state__''} \<Longrightarrow>
   mget (interrupt_payload L step results rs) k = mget (Registry_CreateCheckpoint (rs_registry rs)) k"
  "gomap_ok (interrupt_payload L step results rs)"
proof -
  have sub: "gomap_ok (sub_state L results)" "k \<noteq> ''__sub_state__'' \<Longrightarrow> mget (sub_state L results) k = None" for k
    by (auto simp: sub_state_def gomap_ok_def split: option.splits list.splits interrupt_item.splits)
  note facts = mget_mcopy [OF sub(1)] CreateCheckpoint_ok
  show "mget (interrupt_payload L step results rs) ''__completed_tasks__'' = Some (GStr (serializeStringSet (rs_completed rs)))"
    "mget (interrupt_payload L step results rs) ''__last_completed_node__'' = Some (GStr (rs_last rs))"
    "k \<notin> {''__completed_tasks__'', ''__last_completed_node__'', ''__step__'', ''__last_state__'', ''__sub_state__''} \<Longrightarrow>
     mget (interrupt_payload L step results rs) k = mget (Registry_CreateCheckpoint (rs_registry rs)) k"
    by (auto simp: interrupt_payload_def Let_def facts sub(2) gomap map_add_def split: option.splits)
  show "gomap_ok (interrupt_payload L step results rs)"
    by (auto simp: interrupt_payload_def Let_def facts intro!: gomap_ok_mcopy split: option.splits)
qed

lemma last_wire:
  assumes "utf8_lib L" and "ascii n" and "mget cp ''__last_completed_node__'' = Some (GStr n)"
  shows "restored_last (deepCopyMap L (deepCopyMap L cp)) = n"
  using assms by (simp add: restored_last_def json json_copy_def utf8_lib_def)

section \<open>Properties\<close>

lemma memory_ops_are: "memory_ops L = memory.ops L"
  by (simp add: memory_ops_def memory.ops_def)

lemma CreateCheckpoint_absent: "mget r k = None \<Longrightarrow> mget (Registry_CreateCheckpoint r) k = None"
proof -
  have "k \<notin> mdom r \<Longrightarrow> mget (fold (\<lambda>(name, ch) checkpoint.
             if \<not> IsMissing (ch_Checkpoint ch) then mput name (ch_Checkpoint ch) checkpoint
             else checkpoint) r cp) k = mget cp k" for cp
    by (induction r arbitrary: cp) (auto simp: gomap)
  then show "mget r k = None \<Longrightarrow> ?thesis" using mget_NoneD [of r k] by (simp add: Registry_CreateCheckpoint_def)
qed

lemma load_config_latest: "requested_id e = [] \<Longrightarrow> load_config env e = thread_only (getThreadID env e)"
  by (simp add: load_config_def)

lemma run_reach_config: "run_reach L env ops rs0 n rs \<Longrightarrow> en_config (rs_engine rs) = en_config (rs_engine rs0)"
  by (induction rule: run_reach.induct) (auto dest: superstep_continue)

text \<open>The latest checkpoint of the thread after a superstep that went on.\<close>

lemma run_latest:
  assumes "run_reach L env (Some (memory_ops L)) rs0 (Suc n) rs" and "en_config (rs_engine rs0) = Some cfg"
    and "Durability cfg \<noteq> DurabilityAsync" and "Durability cfg \<noteq> DurabilityExit" and "json_lib L"
  shows "ms_Get L (rs_store rs) (thread_only (getThreadID env (rs_engine rs))) =
      Inr (Some (deepCopyMap L (Registry_CreateCheckpoint (rs_registry rs))))"
proof -
  obtain rsn where reach: "run_reach L env (Some (memory_ops L)) rs0 n rsn"
    and ss: "superstep L env (Some (memory_ops L)) n rsn = (rs, Continue)"
    using assms(1) by (cases rule: run_reach.cases) auto
  have cfg: "en_config (rs_engine rsn) = Some cfg" "en_config (rs_engine rs) = Some cfg"
    using run_reach_config [OF reach] run_reach_config [OF assms(1)] assms(2) by simp_all
  then have thread: "getThreadID env (rs_engine rsn) = getThreadID env (rs_engine rs)" by (simp add: getThreadID_def)
  from memory.superstep_latest [OF ss [unfolded memory_ops_are] cfg(1) assms(3,4)]
  show ?thesis by (simp add: thread deepCopyMap_idem [OF assms(5)])
qed

text \<open>C19: With synchronous durability and the in-memory checkpointer, the thread's latest checkpoint is, after every superstep that
  went on, the (copied) checkpoint of the channels as they then are. A new run on the thread therefore starts from
  these channels; but the checkpoint does not say which nodes are completed, so (unless a channel has
  the reserved name) that run starts again at the entry point.\<close>

theorem sync_checkpoint_current:
  assumes "run_reach L env (Some (memory_ops L)) rs0 (Suc n) rs" and "en_config (rs_engine rs0) = Some cfg"
    and "Durability cfg \<noteq> DurabilityAsync" and "Durability cfg \<noteq> DurabilityExit"
    and "requested_id (rs_engine rs) = []" and "json_lib L"
    and "applyInput (init_registry (en_graph (rs_engine rs))) input = (r1, input1, None)"
  shows "ms_Get L (rs_store rs) (thread_only (getThreadID env (rs_engine rs))) =
      Inr (Some (deepCopyMap L (Registry_CreateCheckpoint (rs_registry rs)))) \<and>
    (\<exists>rs1. start_run L env (Some (memory_ops L)) (rs_engine rs) (rs_store rs) input = Inr rs1 \<and>
       (\<forall>k. mget (rs_registry rs1) k = (case mget r1 k of
           None \<Rightarrow> None
         | Some ch \<Rightarrow> Some (case mget (Registry_CreateCheckpoint (rs_registry rs)) k of
               None \<Rightarrow> ch | Some v \<Rightarrow> ch_FromCheckpoint ch (deepCopy L v)))) \<and>
       (mget (rs_registry rs) ''__completed_tasks__'' = None \<longrightarrow> rs_completed rs1 = []))"
proof -
  let ?cp = "deepCopyMap L (Registry_CreateCheckpoint (rs_registry rs))"
  have got: "ms_Get L (rs_store rs) (thread_only (getThreadID env (rs_engine rs))) = Inr (Some ?cp)"
    by (rule run_latest [OF assms(1-4,6)])
  then have get: "op_Get (memory_ops L) (rs_store rs) (load_config env (rs_engine rs)) = Inr (Some ?cp)"
    by (simp add: memory_ops_def load_config_latest [OF assms(5)])
  have ok: "gomap_ok ?cp" by (simp add: json CreateCheckpoint_ok)
  have "restored_tasks ?cp = []" if "mget (rs_registry rs) ''__completed_tasks__'' = None"
    using CreateCheckpoint_absent [OF that] by (simp add: restored_tasks_def json)
  with start_run_resumes [where L = L, OF assms(7) get ok, unfolded mget_deepCopyMap case_map_option comp_def] got
  show ?thesis by (elim exE conjE, intro conjI exI impI) simp_all
qed

definition mem_run :: "MemorySaver RunState" where
  "mem_run =
     \<lparr>rs_engine = new_engine (sample_graph\<lparr>sg_NodeTriggerMode := NodeTriggerAllPredecessor\<rparr>), rs_registry = [],
      rs_completed = [], rs_last = [], rs_lastState = GNil, rs_store = NewMemorySaver, rs_async = []\<rparr>"

definition mem_run1 :: "MemorySaver RunState" where
  "mem_run1 = fst (superstep sample_lib sample_env (Some (memory_ops sample_lib)) 0 mem_run)"

lemmas mem_step_defs = step_defs sample_run_defs retry_loop.simps DefaultRetryPolicy_def mark_all_def add_pending_def
  mem_run_def NewRunnableConfig_def saveCheckpoint_def memory_ops_def ms_Put_def getThreadID_def step_config_def cfg_string_def

lemma mem_run_step:
  "superstep sample_lib sample_env (Some (memory_ops sample_lib)) 0 mem_run = (mem_run1, Continue)"
  "rs_completed mem_run1 = [''a'']" "rs_registry mem_run1 = []"
  by (simp_all add: mem_run1_def mem_step_defs)

lemma no_channels_input: "applyInput (init_registry (sample_graph\<lparr>sg_NodeTriggerMode := m\<rparr>)) (GMap []) = ([], GMap [], None)"
  by (simp add: applyInput_def toMap_def init_registry_def sample_graph_def NewStateGraph_def NewRegistry_def)

theorem sync_checkpoint_current_witness:
  "rs_completed mem_run1 = [''a''] \<and>
   (\<exists>rs1. start_run sample_lib sample_env (Some (memory_ops sample_lib)) (rs_engine mem_run1) (rs_store mem_run1) (GMap []) =
      Inr rs1 \<and> rs_completed rs1 = [])"
proof -
  have reach: "run_reach sample_lib sample_env (Some (memory_ops sample_lib)) mem_run (Suc 0) mem_run1"
    by (rule run_reach.step [OF run_reach.start mem_run_step(1)])
  have cfg: "en_config (rs_engine mem_run) = Some NewRunnableConfig" by (simp add: mem_run_def new_engine_def)
  have req: "requested_id (rs_engine mem_run1) = []"
    using run_reach_config [OF reach] cfg by (simp add: requested_id_def NewRunnableConfig_def)
  have inp: "applyInput (init_registry (en_graph (rs_engine mem_run1))) (GMap []) = ([], GMap [], None)"
    using run_reach_graph [OF reach] no_channels_input by (simp add: mem_run_def new_engine_def)
  show ?thesis
    using sync_checkpoint_current [OF reach cfg _ _ req sample_json_lib inp] mem_run_step(2,3)
    by (auto simp: NewRunnableConfig_def)
qed

text \<open>In the all-predecessors mode a step runs a node at most once, and the next step takes up again what failed in it.\<close>

lemma node_names: "names_ok g \<Longrightarrow> map (NdName \<circ> snd) (sg_nodes g) = map fst (sg_nodes g)"
  by (auto simp: names_ok_def gomap_ok_def)

lemma dag_task_names_distinct:
  assumes "graph_ok (en_graph e)"
  shows "distinct (map TkName (fst (prepareNextTasksDAG env e step completed fe)))"
proof -
  let ?g = "en_graph e"
  have ok: "names_ok ?g" using assms by (simp add: graph_ok_def)
  define P where "P node \<longleftrightarrow> GetNode ?g (NdName node) \<noteq> None \<and> NdName node \<notin> set completed \<and>
    predecessors_done completed (mget_or [] (buildIncomingEdges ?g) (NdName node))" for node :: Node
  have "map TkName (fst (prepareNextTasksDAG env e step completed fe)) =
      map (\<lambda>nd. NdName (the (GetNode ?g (NdName nd)))) (filter P (map snd (sg_nodes ?g)))"
    by (simp add: prepareNextTasksDAG_def Let_def P_def [abs_def] comp_def)
  also have "\<dots> = map NdName (filter P (map snd (sg_nodes ?g)))"
    using ok by (intro map_cong) (auto simp: P_def GetNode_def names_ok_def)
  finally have "map TkName (fst (prepareNextTasksDAG env e step completed fe)) = map NdName (filter P (map snd (sg_nodes ?g)))" .
  moreover have "distinct (map NdName (map snd (sg_nodes ?g)))"
    unfolding map_map node_names [OF ok] using ok by (simp add: names_ok_def gomap_ok_def)
  ultimately show ?thesis by (simp only: distinct_map_filter)
qed

lemma dag_rerun:
  assumes prep: "prepareNextTasks L env e step r c l st = Inr (tasks, tr)" and c: "c \<noteq> []"
    and ex: "executeTasksAsync L env e step r tasks = (r0, Inr results)"
    and ok: "graph_ok (en_graph e)" and mode: "sg_NodeTriggerMode (en_graph e) = NodeTriggerAllPredecessor"
    and c': "set c' = set c \<union> {TrName r |r. r \<in> set results \<and> TrErr r = None}" and g: "en_graph e' = en_graph e"
  shows "\<exists>tasks' tr'. prepareNextTasks L env e' k r' c' l' st' = Inr (tasks', tr') \<and>
    {TrName r |r. r \<in> set results \<and> TrErr r \<noteq> None} \<subseteq> TkName ` set tasks'"
proof -
  obtain tasks' tr' where dag: "prepareNextTasksDAG env e' k c' True = (tasks', tr')"
    by (cases "prepareNextTasksDAG env e' k c' True")
  have "c' \<noteq> []" using c c' by auto
  then have prep': "prepareNextTasks L env e' k r' c' l' st' = Inr (tasks', tr')"
    using mode g dag by (simp add: prepareNextTasks_def prepareNextTasksWithMode_def Let_def)
  have t: "tasks = fst (prepareNextTasksDAG env e step c True)" using dag_prepare [OF prep c mode] .
  have names: "map TrName results = map TkName tasks" using execute_names [OF ex] .
  then have dist: "distinct (map TrName results)" using dag_task_names_distinct [OF ok] t by simp
  have "TrName x \<in> TkName ` set tasks'" if x: "x \<in> set results" "TrErr x \<noteq> None" for x
  proof -
    have "TrName x \<in> TkName ` set tasks" using x(1) names by (metis image_eqI list.set_map)
    then have n: "has_node (en_graph e) (TrName x)" "TrName x \<notin> set c" "ready (en_graph e) c (TrName x)"
      unfolding t dag_tasks [OF ok] by auto
    have "TrName x \<notin> {TrName r |r. r \<in> set results \<and> TrErr r = None}"
    proof
      assume "TrName x \<in> {TrName r |r. r \<in> set results \<and> TrErr r = None}"
      then obtain y where y: "y \<in> set results" "TrErr y = None" "TrName x = TrName y" by blast
      have "inj_on TrName (set results)" using dist by (simp add: distinct_map)
      from inj_onD [OF this y(3) x(1) y(1)] x(2) y(2) show False by simp
    qed
    with n(2) have "TrName x \<notin> set c'" by (simp add: c')
    moreover have "ready (en_graph e) c' (TrName x)" using ready_mono [OF n(3)] c' by blast
    ultimately have "TrName x \<in> TkName ` set (fst (prepareNextTasksDAG env e' k c' True))"
      using n(1) dag_tasks [of e' env k c' True] ok g by auto
    then show ?thesis by (simp add: dag)
  qed
  with prep' show ?thesis by blast
qed

text \<open>A run that has completed nothing starts at the entry point again; one in the any-predecessor mode goes on after its last node.\<close>

lemma entry_rerun:
  assumes "prepareNextTasks L env e k r [] l st = Inr (tasks, tr)" and "en_graph e' = en_graph e"
  shows "\<exists>tasks' tr'. prepareNextTasks L env e' k' r' [] l' st' = Inr (tasks', tr') \<and> map TkName tasks' = map TkName tasks"
  using assms by (auto simp: prepareNextTasks_def prepareNextTasksWithMode_def Let_def createTask_def split: if_splits option.splits)

lemma last_node_tasks:
  assumes "graph_ok (en_graph e)" and "sg_NodeTriggerMode (en_graph e) \<noteq> NodeTriggerAllPredecessor" and "c \<noteq> []"
  shows "\<exists>tasks' tr'. prepareNextTasks L env e k r c l st = Inr (tasks', tr') \<and>
    map TkName tasks' = filter (\<lambda>n. GetNode (en_graph e) n \<noteq> None) (ev_order env k (getNextNodes L (en_graph e) k l st))"
proof -
  have name: "GetNode (en_graph e) n = Some nd \<Longrightarrow> NdName nd = n" for n nd
    using assms(1) by (auto simp: graph_ok_def names_ok_def GetNode_def dest!: map_of_SomeD)
  have "map (TkName \<circ> make_task env k True (Registry_Names r)) (map the (filter (\<lambda>n. n \<noteq> None) (map (GetNode (en_graph e)) ns))) =
      filter (\<lambda>n. GetNode (en_graph e) n \<noteq> None) ns" for ns
    by (induction ns) (auto simp: make_task_def createTask_def Let_def name)
  with assms show ?thesis
    by (auto simp: prepareNextTasks_def prepareNextTasksWithMode_def Let_def comp_def)
qed

text \<open>C3: A run interrupted inside a node can be resumed. The interrupt saves the tasks that are completed, including those of the
  interrupted superstep that succeeded, and the last of them; a new run on the thread starts with exactly these and
  with the saved channels. In the all-predecessors mode, and when nothing had been completed, its first superstep takes
  up again every task of the interrupted step that did not succeed. In the any-predecessor mode it goes on with the successors of the last completed
  node alone, so a task that asked beside one that completed is not taken up again. The channels are those from
  before the step: what its successful tasks wrote is not applied, although they count as completed.\<close>

theorem interrupt_resume:
  assumes "superstep L env (Some (memory_ops L)) step rs = (rs', Stop (GraphInterrupt (i # is)))"
    and "ev_cancel env step = None" and "utf8_lib L" and "task_names_ok (rs_completed rs')" and "ascii (rs_last rs')"
    and "requested_id (rs_engine rs) = []"
    and "applyInput (init_registry (en_graph (rs_engine rs))) input = (r1, input1, None)"
  shows "\<exists>tasks tr r0 results rs1.
    prepareNextTasks L env (rs_engine rs) step (rs_registry rs) (rs_completed rs) (rs_last rs) (rs_lastState rs) =
      Inr (tasks, tr) \<and>
    executeTasksAsync L env (rs_engine rs) step (rs_registry rs) tasks = (r0, Inr results) \<and>
    start_run L env (Some (memory_ops L)) (rs_engine rs') (rs_store rs') input = Inr rs1 \<and>
    set (rs_completed rs1) = set (rs_completed rs) \<union> {TrName r |r. r \<in> set results \<and> TrErr r = None} \<and>
    rs_last rs1 = rs_last rs' \<and>
    (\<forall>k. k \<notin> {''__completed_tasks__'', ''__last_completed_node__'', ''__step__'', ''__last_state__'', ''__sub_state__''} \<longrightarrow>
       mget (rs_registry rs1) k = (case mget r1 k of
           None \<Rightarrow> None
         | Some ch \<Rightarrow> Some (case mget (Registry_CreateCheckpoint r0) k of
               None \<Rightarrow> ch | Some v \<Rightarrow> ch_FromCheckpoint ch (deepCopy L v)))) \<and>
    (rs_completed rs1 = [] \<or>
     rs_completed rs \<noteq> [] \<and> graph_ok (en_graph (rs_engine rs)) \<and>
     sg_NodeTriggerMode (en_graph (rs_engine rs)) = NodeTriggerAllPredecessor \<longrightarrow>
       (\<exists>tasks' tr'. prepareNextTasks L env (rs_engine rs1) 0 (rs_registry rs1) (rs_completed rs1) (rs_last rs1)
            (rs_lastState rs1) = Inr (tasks', tr') \<and>
          {TrName r |r. r \<in> set results \<and> TrErr r \<noteq> None} \<subseteq> TkName ` set tasks')) \<and>
    (rs_completed rs1 \<noteq> [] \<and> graph_ok (en_graph (rs_engine rs)) \<and>
     sg_NodeTriggerMode (en_graph (rs_engine rs)) \<noteq> NodeTriggerAllPredecessor \<longrightarrow>
       (\<exists>tasks' tr'. prepareNextTasks L env (rs_engine rs1) 0 (rs_registry rs1) (rs_completed rs1) (rs_last rs1)
            (rs_lastState rs1) = Inr (tasks', tr') \<and>
          map TkName tasks' = filter (\<lambda>n. GetNode (en_graph (rs_engine rs)) n \<noteq> None)
            (ev_order env 0 (getNextNodes L (en_graph (rs_engine rs)) 0 (rs_last rs') (rs_lastState rs1)))))"
proof -
  obtain tasks tr r0 results
    where prep: "prepareNextTasks L env (rs_engine rs) step (rs_registry rs) (rs_completed rs) (rs_last rs)
        (rs_lastState rs) = Inr (tasks, tr)"
      and ex: "executeTasksAsync L env (rs_engine rs) step (rs_registry rs) tasks = (r0, Inr results)"
      and put: "put_interrupt env (Some (memory_ops L)) step
        (interrupt_payload L step results (fold note_result results (rs\<lparr>rs_registry := r0\<rparr>)))
        ''failed to save checkpoint on interrupt: %w'' (GraphInterrupt (i # is))
        (fold note_result results (rs\<lparr>rs_registry := r0\<rparr>)) = (rs', Stop (GraphInterrupt (i # is)))"
    using interrupt_stopE [OF assms(1,2)] .
  define rs2 where "rs2 = fold note_result results (rs\<lparr>rs_registry := r0\<rparr>)"
  define cp where "cp = interrupt_payload L step results rs2"
  have js: "json_lib L" using assms(3) by (simp add: utf8_lib_def)
  have "\<forall>e. GraphInterrupt (i # is) \<noteq> Errorf ''failed to save checkpoint on interrupt: %w'' [e]" by simp
  from memory.put_interrupt_latest [OF put [unfolded memory_ops_are] this]
  have got: "ms_Get L (rs_store rs') (thread_only (getThreadID env (rs_engine rs))) = Inr (Some (deepCopyMap L (deepCopyMap L cp)))"
    and same: "rs_completed rs' = rs_completed rs2" "rs_last rs' = rs_last rs2"
    by (simp_all add: cp_def rs2_def)
  have eng: "rs_engine rs' = rs_engine rs"
    using put by (auto simp: put_interrupt_def split: sum.splits)
  have get: "op_Get (memory_ops L) (rs_store rs') (load_config env (rs_engine rs')) = Inr (Some (deepCopyMap L (deepCopyMap L cp)))"
    using got by (simp add: memory_ops_def eng load_config_latest [OF assms(6)])
  have ok: "gomap_ok (deepCopyMap L (deepCopyMap L cp))" by (simp add: json cp_def payload_get(4))
  obtain rs1 where rs1: "start_run L env (Some (memory_ops L)) (rs_engine rs') (rs_store rs') input = Inr rs1"
    "rs_completed rs1 = restored_tasks (deepCopyMap L (deepCopyMap L cp))"
    "rs_last rs1 = restored_last (deepCopyMap L (deepCopyMap L cp))" "en_graph (rs_engine rs1) = en_graph (rs_engine rs)"
    "\<forall>k. mget (rs_registry rs1) k = (case mget r1 k of None \<Rightarrow> None
       | Some ch \<Rightarrow> Some (case mget (deepCopyMap L (deepCopyMap L cp)) k of None \<Rightarrow> ch | Some v \<Rightarrow> ch_FromCheckpoint ch v))"
    using start_run_resumes [where L = L, OF assms(7) [folded eng] get ok] eng by auto
  have compl: "set (rs_completed rs1) = set (rs_completed rs) \<union> {TrName r |r. r \<in> set results \<and> TrErr r = None}"
    using completed_wire [OF assms(3,4), of cp]
    by (simp add: rs1(2) cp_def payload_get(1) same fold_note_completed rs2_def)
  have last: "rs_last rs1 = rs_last rs'"
    using last_wire [OF assms(3,5), of cp] by (simp add: rs1(3) cp_def payload_get(2) same)
  have chans: "mget (rs_registry rs1) k = (case mget r1 k of None \<Rightarrow> None
      | Some ch \<Rightarrow> Some (case mget (Registry_CreateCheckpoint r0) k of
            None \<Rightarrow> ch | Some v \<Rightarrow> ch_FromCheckpoint ch (deepCopy L v)))"
    if "k \<notin> {''__completed_tasks__'', ''__last_completed_node__'', ''__step__'', ''__last_state__'', ''__sub_state__''}" for k
    using payload_get(3) [OF that, of L step results rs2] rs1(5) [rule_format, of k]
    by (simp add: json deepCopyMap_idem [OF js] cp_def rs2_def split: option.splits)
  let ?failed = "{TrName r |r. r \<in> set results \<and> TrErr r \<noteq> None}"
  let ?next = "prepareNextTasks L env (rs_engine rs1) 0 (rs_registry rs1) (rs_completed rs1) (rs_last rs1) (rs_lastState rs1)"
  have fresh: "\<exists>tasks' tr'. ?next = Inr (tasks', tr') \<and> ?failed \<subseteq> TkName ` set tasks'" if none: "rs_completed rs1 = []"
  proof -
    from compl none have "rs_completed rs = []" by simp
    with entry_rerun [OF prep [unfolded this] rs1(4)] none obtain tasks' tr'
      where "?next = Inr (tasks', tr')" "map TkName tasks' = map TkName tasks" by metis
    moreover have "?failed \<subseteq> TrName ` set results" by blast
    ultimately show ?thesis using execute_names [OF ex] by (metis list.set_map)
  qed
  note again = dag_rerun [OF prep _ ex _ _ compl rs1(4)]
  have route: "\<exists>tasks' tr'. ?next = Inr (tasks', tr') \<and>
      map TkName tasks' = filter (\<lambda>n. GetNode (en_graph (rs_engine rs)) n \<noteq> None)
        (ev_order env 0 (getNextNodes L (en_graph (rs_engine rs)) 0 (rs_last rs') (rs_lastState rs1)))"
    if "rs_completed rs1 \<noteq> []" "graph_ok (en_graph (rs_engine rs))"
      "sg_NodeTriggerMode (en_graph (rs_engine rs)) \<noteq> NodeTriggerAllPredecessor"
    using last_node_tasks [of "rs_engine rs1" "rs_completed rs1" L env 0 "rs_registry rs1" "rs_last rs1" "rs_lastState rs1"] that
    by (simp add: rs1(4) last)
  show ?thesis using prep ex rs1(1) compl last chans fresh again route
    by (intro exI [of _ tasks] exI [of _ tr] exI [of _ r0] exI [of _ results] exI [of _ rs1] conjI)
      simp_all
qed

definition ask_node :: node_fn where
  "ask_node = (\<lambda>step att st. Ret GNil (Some (GraphInterrupt [Interrupt (GStr ''go?'') ''i''])))"

definition ask_graph :: stateGraph where
  "ask_graph = sample_graph\<lparr>sg_NodeTriggerMode := NodeTriggerAllPredecessor,
     sg_nodes := [(''a'', new_node ''a'' (const_node GNil)), (''b'', new_node ''b'' (Some ask_node))]\<rparr>"

definition ask_run :: "MemorySaver RunState" where
  "ask_run = mem_run\<lparr>rs_engine := new_engine ask_graph, rs_completed := [''a''], rs_last := ''a''\<rparr>"

definition ask_run1 :: "MemorySaver RunState" where
  "ask_run1 = fst (superstep sample_lib sample_env (Some (memory_ops sample_lib)) 1 ask_run)"

lemmas ask_defs = ask_run_def ask_graph_def ask_node_def prepareNextTasksDAG_def buildIncomingEdges_def predecessors_done_def
  make_task_def createTaskInfo_def put_interrupt_def thread_only_def mget_or_def

lemma ask_run_step:
  "superstep sample_lib sample_env (Some (memory_ops sample_lib)) 1 ask_run =
     (ask_run1, Stop (GraphInterrupt [Interrupt (GStr ''go?'') ''i'']))"
  "rs_completed ask_run1 = [''a'']" "rs_last ask_run1 = ''a''"
  by (simp_all add: ask_run1_def mem_step_defs ask_defs)

lemma ask_graph_ok: "graph_ok ask_graph"
  by (auto simp: graph_ok_def refs_defs ask_graph_def sample_graph_def NewStateGraph_def new_node_def has_node_def gomap_ok_def
    Start_def End_def split: if_splits)

theorem interrupt_resume_witness:
  "\<exists>tasks' tr' rs1. start_run sample_lib sample_env (Some (memory_ops sample_lib)) (rs_engine ask_run1) (rs_store ask_run1)
     (GMap []) = Inr rs1 \<and> set (rs_completed rs1) = {''a''} \<and>
   prepareNextTasks sample_lib sample_env (rs_engine rs1) 0 (rs_registry rs1) (rs_completed rs1) (rs_last rs1)
     (rs_lastState rs1) = Inr (tasks', tr') \<and> ''b'' \<in> TkName ` set tasks'"
proof -
  have pre: "ev_cancel sample_env 1 = None" "task_names_ok (rs_completed ask_run1)" "ascii (rs_last ask_run1)"
    "requested_id (rs_engine ask_run) = []"
    "applyInput (init_registry (en_graph (rs_engine ask_run))) (GMap []) = ([], GMap [], None)"
    by (simp_all add: char_of_def sample_env_def ask_run_step task_names_ok_def ascii_def requested_id_def ask_run_def new_engine_def
      NewRunnableConfig_def applyInput_def toMap_def init_registry_def ask_graph_def sample_graph_def NewStateGraph_def NewRegistry_def)
  have g: "rs_completed ask_run = [''a'']" "graph_ok (en_graph (rs_engine ask_run))"
    "sg_NodeTriggerMode (en_graph (rs_engine ask_run)) = NodeTriggerAllPredecessor"
    using ask_graph_ok by (simp_all add: ask_run_def new_engine_def ask_graph_def)
  obtain results where res: "\<forall>tasks tr r0 rs. prepareNextTasks sample_lib sample_env (rs_engine ask_run) 1 (rs_registry ask_run)
        (rs_completed ask_run) (rs_last ask_run) (rs_lastState ask_run) = Inr (tasks, tr) \<longrightarrow>
      executeTasksAsync sample_lib sample_env (rs_engine ask_run) 1 (rs_registry ask_run) tasks = (r0, Inr rs) \<longrightarrow> rs = results"
    and r: "map (\<lambda>r. (TrName r, TrErr r = None)) results = [(''b'', False)]"
    by (simp add: mem_step_defs ask_defs)
  from r have fail: "{TrName r |r. r \<in> set results \<and> TrErr r = None} = {}"
    "''b'' \<in> {TrName r |r. r \<in> set results \<and> TrErr r \<noteq> None}" by auto
  note resume = interrupt_resume [OF ask_run_step(1) pre(1) sample_utf8_lib pre(2-5)]
  from resume show ?thesis
  proof (elim exE conjE)
    fix tasks tr r0 results' rs1
    assume prep: "prepareNextTasks sample_lib sample_env (rs_engine ask_run) 1 (rs_registry ask_run) (rs_completed ask_run)
        (rs_last ask_run) (rs_lastState ask_run) = Inr (tasks, tr)"
      and ex: "executeTasksAsync sample_lib sample_env (rs_engine ask_run) 1 (rs_registry ask_run) tasks = (r0, Inr results')"
      and start: "start_run sample_lib sample_env (Some (memory_ops sample_lib)) (rs_engine ask_run1) (rs_store ask_run1)
        (GMap []) = Inr rs1"
      and compl: "set (rs_completed rs1) = set (rs_completed ask_run) \<union> {TrName r |r. r \<in> set results' \<and> TrErr r = None}"
      and again: "rs_completed rs1 = [] \<or> rs_completed ask_run \<noteq> [] \<and> graph_ok (en_graph (rs_engine ask_run)) \<and>
          sg_NodeTriggerMode (en_graph (rs_engine ask_run)) = NodeTriggerAllPredecessor \<longrightarrow>
        (\<exists>tasks' tr'. prepareNextTasks sample_lib sample_env (rs_engine rs1) 0 (rs_registry rs1) (rs_completed rs1)
            (rs_last rs1) (rs_lastState rs1) = Inr (tasks', tr') \<and>
          {TrName r |r. r \<in> set results' \<and> TrErr r \<noteq> None} \<subseteq> TkName ` set tasks')"
    have eq: "results' = results" using res prep ex by blast
    have "rs_completed rs1 = [] \<or> rs_completed ask_run \<noteq> [] \<and> graph_ok (en_graph (rs_engine ask_run)) \<and>
        sg_NodeTriggerMode (en_graph (rs_engine ask_run)) = NodeTriggerAllPredecessor" using g by simp
    from mp [OF again [unfolded eq] this] obtain tasks' tr'
      where "prepareNextTasks sample_lib sample_env (rs_engine rs1) 0 (rs_registry rs1)
        (rs_completed rs1) (rs_last rs1) (rs_lastState rs1) = Inr (tasks', tr')" "''b'' \<in> TkName ` set tasks'"
      using fail(2) by (elim exE conjE) (drule (1) subsetD, blast)
    moreover have "set (rs_completed rs1) = {''a''}" using compl unfolding eq fail(1) g(1) by simp
    ultimately show ?thesis using start by blast
  qed
qed

text \<open>
  In the any-predecessor mode the next tasks are the successors of the last completed node alone. When one
  branch of a fork asks and the other one completes, the resumed run goes on after the completed branch:
  the question is never asked again.
\<close>

definition lost_graph :: stateGraph where
  "lost_graph = sample_graph\<lparr>sg_NodeTriggerMode := NodeTriggerAnyPredecessor,
     sg_nodes := [(''a'', new_node ''a'' (const_node GNil)), (''b'', new_node ''b'' (const_node GNil)),
                  (''c'', new_node ''c'' (Some ask_node))],
     sg_edges := [\<lparr>EdFrom = ''a'', EdTo = ''b''\<rparr>, \<lparr>EdFrom = ''a'', EdTo = ''c''\<rparr>, \<lparr>EdFrom = ''b'', EdTo = End\<rparr>, \<lparr>EdFrom = ''c'', EdTo = End\<rparr>]\<rparr>"

definition lost_run :: "MemorySaver RunState" where
  "lost_run = mem_run\<lparr>rs_engine := new_engine lost_graph, rs_completed := [''a''], rs_last := ''a''\<rparr>"

lemma interrupted_branch_lost:
  "case superstep sample_lib sample_env (Some (memory_ops sample_lib)) 1 lost_run of
     (rs', out) \<Rightarrow> out = Stop (GraphInterrupt [Interrupt (GStr ''go?'') ''i'']) \<and>
       (case start_run sample_lib sample_env (Some (memory_ops sample_lib)) (rs_engine rs') (rs_store rs') (GMap []) of
          Inr rs1 \<Rightarrow> snd (superstep sample_lib sample_env (Some (memory_ops sample_lib)) 0 rs1) = Finished
        | Inl e \<Rightarrow> False)"
  by code_simp

end
