(* ===== verification/Store.thy ===== *)
theory Store
  imports Graph_Errors
begin

text \<open>
  The in-memory key-value store (\<open>store/base.go\<close>, \<open>store/memory.go\<close>): values under a namespace and a key,
  deadlines, embedding indexes, searches with filters, batches and the sweep of expired entries that a
  background goroutine runs once a minute. Every operation takes the lock of the store, so a
  concurrent history is a sequence of operations; the clock is an argument. A panic (comparing
  values of an uncomparable type, slicing out of range) is \<open>Inl (GoPanic _)\<close>; an operation that waits for a lock
  it already holds never returns, which is \<open>None\<close>.
\<close>

section \<open>Equality of interface values\<close>

fun comparable_type :: "gtype \<Rightarrow> bool" where
  "comparable_type (TSlice t) = False"
| "comparable_type (TMap k v) = False"
| "comparable_type (TArray n t) = comparable_type t"
| "comparable_type (TStruct n fs) = list_all (\<lambda>(f, e, t). comparable_type t) fs"
| "comparable_type t = True"

text \<open>
  \<open>a == b\<close> on two interfaces: different dynamic types differ; an uncomparable type panics; structs compare
  field by field and stop at the first difference.
\<close>

fun go_eq :: "golib \<Rightarrow> gval \<Rightarrow> gval \<Rightarrow> bool res"
  and eq_fields :: "golib \<Rightarrow> (string \<times> bool \<times> gtype \<times> gval) list \<Rightarrow> (string \<times> bool \<times> gtype \<times> gval) list \<Rightarrow> bool res" where
  "go_eq L a b =
     (if type_of a \<noteq> type_of b then Inr False
      else case type_of a of
             None \<Rightarrow> Inr True
           | Some t \<Rightarrow>
               (if \<not> comparable_type t then Inl (GoPanic ''comparing uncomparable type'')
                else case (a, b) of
                       (GFloat x, GFloat y) \<Rightarrow> Inr (f64_eq L x y)
                     | (GStruct n fs, GStruct m gs) \<Rightarrow> eq_fields L fs gs
                     | (GPtr x, GPtr y) \<Rightarrow> Inr (ptr_eq L a b)
                     | (GOverwrite x, GOverwrite y) \<Rightarrow> Inr (ptr_eq L a b)
                     | (GOverwriter x, GOverwriter y) \<Rightarrow> Inr (ptr_eq L a b)
                     | _ \<Rightarrow> Inr (a = b)))"
| "eq_fields L ((f, e, t, v) # fs) ((f', e', t', v') # gs) =
     (case go_eq L v v' of
        Inl p \<Rightarrow> Inl p
      | Inr False \<Rightarrow> Inr False
      | Inr True \<Rightarrow> eq_fields L fs gs)"
| "eq_fields L fs gs = Inr True"

section \<open>Data\<close>

record IndexConfig =
  IxDims :: int
  IxEmbed :: gval
  IxFields :: "string list"

record InMemoryStore =
  st_data :: "gval gomap gomap gomap"
  st_ttl :: "int gomap"
  st_indexes :: "64 word list gomap gomap"
  st_indexConfigs :: "IndexConfig gomap"
  st_closed :: bool

record Item =
  ItValue :: "gval gomap"
  ItKey :: string
  ItNamespace :: "string list"
  ItCreatedAt :: int
  ItUpdatedAt :: int
  ItExpiresAt :: "int option"

record SearchItem =
  SiItem :: Item
  SiScore :: "64 word option"

record MatchCondition =
  McMatchType :: string
  McPath :: "string list"

text \<open>The index argument of \<open>PutItem\<close> and the dynamic types it is inspected for.\<close>

datatype index_arg = NoIndex | IndexBy IndexConfig | IndexFields "string list" | IndexFlag bool | OtherIndex

datatype store_op =
    GetOp "string list" string bool
  | PutOp "string list" string "gval gomap" index_arg "int option"
  | SearchOp "string list" "gval gomap option" int int "string option" bool
  | ListNamespacesOp "MatchCondition list" "int option" int int
  | UnknownOp

datatype op_value = NoValue | OneValue "gval gomap" | ManyValues "gval gomap list" | Namespaces "string list list"

record Result =
  ResValue :: op_value
  ResError :: "gerr option"

definition NewInMemoryStore :: InMemoryStore where
  "NewInMemoryStore = \<lparr>st_data = [], st_ttl = [], st_indexes = [], st_indexConfigs = [], st_closed = False\<rparr>"

section \<open>Helpers\<close>

definition nsKey :: "string list \<Rightarrow> string" where
  "nsKey namespace = str_join CHR ''|'' namespace"

definition fullKey :: "string \<Rightarrow> string \<Rightarrow> string" where
  "fullKey ns key = ns @ CHR '':'' # key"

definition checkTTL :: "int \<Rightarrow> InMemoryStore \<Rightarrow> string \<Rightarrow> bool" where
  "checkTTL now s fk = (case mget (st_ttl s) fk of Some expiry \<Rightarrow> now < expiry | None \<Rightarrow> True)"

definition copyValue :: "gval gomap \<Rightarrow> gval gomap" where
  "copyValue value = mcopy [] value"

primrec str_contains :: "string \<Rightarrow> string \<Rightarrow> bool" where
  "str_contains sub [] = (sub = [])"
| "str_contains sub (c # cs) = (take (length sub) (c # cs) = sub \<or> str_contains sub cs)"

definition matchQuery :: "golib \<Rightarrow> gval gomap \<Rightarrow> string \<Rightarrow> bool" where
  "matchQuery L value query =
     list_ex (\<lambda>(k, v). case v of GStr str \<Rightarrow> str_contains (to_lower L query) (to_lower L str) | _ \<Rightarrow> False) value"

definition greaterThan :: "golib \<Rightarrow> gval \<Rightarrow> gval \<Rightarrow> bool" where
  "greaterThan L a b =
     (case (a, b) of
        (GInt x, GInt y) \<Rightarrow> sint x > sint y
      | (GNum n x, GNum m y) \<Rightarrow> n = ''int64'' \<and> m = ''int64'' \<and> x > y
      | (GFloat x, GFloat y) \<Rightarrow> f64_less L y x
      | (GStr x, GStr y) \<Rightarrow> x > y
      | _ \<Rightarrow> False)"

definition lessThan :: "golib \<Rightarrow> gval \<Rightarrow> gval \<Rightarrow> bool" where
  "lessThan L a b =
     (case (a, b) of
        (GInt x, GInt y) \<Rightarrow> sint x < sint y
      | (GNum n x, GNum m y) \<Rightarrow> n = ''int64'' \<and> m = ''int64'' \<and> x < y
      | (GFloat x, GFloat y) \<Rightarrow> f64_less L x y
      | (GStr x, GStr y) \<Rightarrow> x < y
      | _ \<Rightarrow> False)"

fun in_list :: "golib \<Rightarrow> gval \<Rightarrow> gval list \<Rightarrow> bool res" where
  "in_list L value [] = Inr False"
| "in_list L value (v # vs) =
     (case go_eq L value v of Inl p \<Rightarrow> Inl p | Inr True \<Rightarrow> Inr True | Inr False \<Rightarrow> in_list L value vs)"

definition inArray :: "golib \<Rightarrow> gval \<Rightarrow> gval \<Rightarrow> bool res" where
  "inArray L value array = (case array of GSlice arr \<Rightarrow> in_list L value arr | _ \<Rightarrow> Inr False)"

definition regexMatch :: "golib \<Rightarrow> gval \<Rightarrow> gval \<Rightarrow> bool" where
  "regexMatch L value pat =
     (case (value, pat) of
        (GStr str, GStr p) \<Rightarrow> (case regexp_match L p str of None \<Rightarrow> False | Some b \<Rightarrow> b)
      | _ \<Rightarrow> False)"

definition compare :: "golib \<Rightarrow> gval \<Rightarrow> string \<Rightarrow> gval \<Rightarrow> bool res" where
  "compare L fieldValue op opValue =
     (if op = ''$eq'' then go_eq L fieldValue opValue
      else if op = ''$ne'' then map_sum id Not (go_eq L fieldValue opValue)
      else if op = ''$gt'' then Inr (greaterThan L fieldValue opValue)
      else if op = ''$gte'' then
        (if greaterThan L fieldValue opValue then Inr True else go_eq L fieldValue opValue)
      else if op = ''$lt'' then Inr (lessThan L fieldValue opValue)
      else if op = ''$lte'' then
        (if lessThan L fieldValue opValue then Inr True else go_eq L fieldValue opValue)
      else if op = ''$in'' then inArray L fieldValue opValue
      else if op = ''$nin'' then map_sum id Not (inArray L fieldValue opValue)
      else if op = ''$regex'' then Inr (regexMatch L fieldValue opValue)
      else Inr False)"

text \<open>A conjunction evaluated in order that stops at the first false or panicking conjunct.\<close>

fun all_hold :: "bool res list \<Rightarrow> bool res" where
  "all_hold [] = Inr True"
| "all_hold (Inl p # cs) = Inl p"
| "all_hold (Inr True # cs) = all_hold cs"
| "all_hold (Inr False # cs) = Inr False"

definition match_field :: "golib \<Rightarrow> gval gomap \<Rightarrow> string \<times> gval \<Rightarrow> bool res" where
  "match_field L value fc =
     (case mget value (fst fc) of
        None \<Rightarrow> Inr False
      | Some fieldValue \<Rightarrow>
          (case snd fc of
             GMap condMap \<Rightarrow> all_hold (map (\<lambda>(op, opValue). compare L fieldValue op opValue) condMap)
           | condition \<Rightarrow> compare L fieldValue ''$eq'' condition))"

definition matchFilter :: "golib \<Rightarrow> gval gomap \<Rightarrow> gval gomap \<Rightarrow> bool res" where
  "matchFilter L value flt = all_hold (map (match_field L value) flt)"

text \<open>A search loop: the entries that match, until a positive limit is reached.\<close>

fun collect_matching :: "('a \<Rightarrow> bool res) \<Rightarrow> int \<Rightarrow> 'a list \<Rightarrow> 'a list \<Rightarrow> 'a list res" where
  "collect_matching p limit [] acc = Inr acc"
| "collect_matching p limit (x # xs) acc =
     (case p x of
        Inl e \<Rightarrow> Inl e
      | Inr False \<Rightarrow> collect_matching p limit xs acc
      | Inr True \<Rightarrow>
          (if limit > 0 \<and> int (length acc) + 1 \<ge> limit then Inr (acc @ [x])
           else collect_matching p limit xs (acc @ [x])))"

definition apply_offset :: "int \<Rightarrow> 'a list \<Rightarrow> 'a list" where
  "apply_offset offset xs = (if 0 < offset \<and> offset < int (length xs) then drop (nat offset) xs else xs)"

definition ifOpen :: "InMemoryStore \<Rightarrow> 'a res \<Rightarrow> 'a res" where
  "ifOpen s r = (if st_closed s then Inl (StoreError ''store is closed'') else r)"

section \<open>Operations\<close>

definition st_lookup :: "int \<Rightarrow> InMemoryStore \<Rightarrow> string list \<Rightarrow> string \<Rightarrow> gval gomap option" where
  "st_lookup now s namespace key =
     (case mget (st_data s) (nsKey namespace) of
        None \<Rightarrow> None
      | Some nsData \<Rightarrow>
          (if \<not> checkTTL now s (fullKey (nsKey namespace) key) then None
           else map_option copyValue (mget nsData key)))"

definition Store_Get :: "int \<Rightarrow> InMemoryStore \<Rightarrow> string list \<Rightarrow> string \<Rightarrow> gval gomap option res" where
  "Store_Get now s namespace key = ifOpen s (Inr (st_lookup now s namespace key))"

definition st_write :: "string list \<Rightarrow> string \<Rightarrow> gval gomap \<Rightarrow> InMemoryStore \<Rightarrow> InMemoryStore" where
  "st_write namespace key value s =
     s\<lparr>st_data := mput (nsKey namespace)
         (mput key (copyValue value) (mget_or [] (st_data s) (nsKey namespace))) (st_data s)\<rparr>"

definition Store_Put :: "InMemoryStore \<Rightarrow> string list \<Rightarrow> string \<Rightarrow> gval gomap \<Rightarrow> InMemoryStore res" where
  "Store_Put s namespace key value = ifOpen s (Inr (st_write namespace key value s))"

definition Store_Delete :: "InMemoryStore \<Rightarrow> string list \<Rightarrow> string \<Rightarrow> InMemoryStore res" where
  "Store_Delete s namespace key =
     ifOpen s (Inr (case mget (st_data s) (nsKey namespace) of
        None \<Rightarrow> s
      | Some nsData \<Rightarrow>
          s\<lparr>st_data := mput (nsKey namespace) (mdel key nsData) (st_data s),
            st_ttl := mdel (fullKey (nsKey namespace) key) (st_ttl s)\<rparr>))"

definition Store_Search ::
  "golib \<Rightarrow> int \<Rightarrow> InMemoryStore \<Rightarrow> string list \<Rightarrow> string \<Rightarrow> int \<Rightarrow> gval gomap list res" where
  "Store_Search L now s namespace query limit =
     ifOpen s (case mget (st_data s) (nsKey namespace) of
        None \<Rightarrow> Inr []
      | Some nsData \<Rightarrow>
          map_sum id (map (copyValue \<circ> snd)) (collect_matching (\<lambda>(key, value).
             Inr (checkTTL now s (fullKey (nsKey namespace) key) \<and> (query = [] \<or> matchQuery L value query)))
           limit nsData []))"

definition Store_List :: "int \<Rightarrow> InMemoryStore \<Rightarrow> string list \<Rightarrow> int \<Rightarrow> string list res" where
  "Store_List now s namespace limit =
     ifOpen s (case mget (st_data s) (nsKey namespace) of
        None \<Rightarrow> Inr []
      | Some nsData \<Rightarrow>
          map_sum id (map fst) (collect_matching (\<lambda>(key, value).
             Inr (checkTTL now s (fullKey (nsKey namespace) key))) limit nsData []))"

text \<open>What an entry must satisfy in a search with an optional query and an optional filter.\<close>

definition entry_matches ::
  "golib \<Rightarrow> int \<Rightarrow> InMemoryStore \<Rightarrow> string \<Rightarrow> string option \<Rightarrow> gval gomap option \<Rightarrow> string \<times> gval gomap \<Rightarrow> bool res" where
  "entry_matches L now s ns query flt kv =
     (case kv of (key, value) \<Rightarrow>
        (if \<not> checkTTL now s (fullKey ns key) then Inr False
         else if (case query of Some q \<Rightarrow> q \<noteq> [] \<and> \<not> matchQuery L value q | None \<Rightarrow> False) then Inr False
         else case flt of None \<Rightarrow> Inr True | Some f \<Rightarrow> matchFilter L value f))"

definition with_ttl :: "int \<Rightarrow> string \<Rightarrow> string \<Rightarrow> int option \<Rightarrow> InMemoryStore \<Rightarrow> InMemoryStore" where
  "with_ttl now ns key ttl s =
     (case ttl of None \<Rightarrow> s | Some d \<Rightarrow> s\<lparr>st_ttl := mput (fullKey ns key) (now + d) (st_ttl s)\<rparr>)"

definition SetTTL :: "int \<Rightarrow> InMemoryStore \<Rightarrow> string list \<Rightarrow> string \<Rightarrow> int \<Rightarrow> InMemoryStore res" where
  "SetTTL now s namespace key ttl =
     ifOpen s (Inr (if ttl \<le> 0 then s else with_ttl now (nsKey namespace) key (Some ttl) s))"

definition st_item :: "int \<Rightarrow> InMemoryStore \<Rightarrow> string \<Rightarrow> string list \<Rightarrow> string \<Rightarrow> gval gomap \<Rightarrow> Item" where
  "st_item now s ns namespace key value =
     \<lparr>ItValue = copyValue value, ItKey = key, ItNamespace = namespace, ItCreatedAt = now, ItUpdatedAt = now,
      ItExpiresAt = mget (st_ttl s) (fullKey ns key)\<rparr>"

definition GetItem :: "int \<Rightarrow> InMemoryStore \<Rightarrow> string list \<Rightarrow> string \<Rightarrow> Item option res" where
  "GetItem now s namespace key =
     ifOpen s (Inr (case mget (st_data s) (nsKey namespace) of
        None \<Rightarrow> None
      | Some nsData \<Rightarrow>
          (if \<not> checkTTL now s (fullKey (nsKey namespace) key) then None
           else map_option (st_item now s (nsKey namespace) namespace key) (mget nsData key))))"

text \<open>\<open>value[field].([]float64)\<close>.\<close>

definition as_vector :: "gval \<Rightarrow> 64 word list option" where
  "as_vector v =
     (case v of
        GTyped t (GSlice xs) \<Rightarrow>
          (if t = TSlice TFloat64 then Some (map (\<lambda>x. case x of GFloat f \<Rightarrow> f | _ \<Rightarrow> 0) xs) else None)
      | GZero t \<Rightarrow> (if t = TSlice TFloat64 then Some [] else None)
      | GEmpty t \<Rightarrow> (if t = TSlice TFloat64 then Some [] else None)
      | _ \<Rightarrow> None)"

definition index_value :: "string \<Rightarrow> string \<Rightarrow> gval gomap \<Rightarrow> index_arg \<Rightarrow> InMemoryStore \<Rightarrow> InMemoryStore" where
  "index_value ns key value index s =
     (case index of
        IndexBy idx \<Rightarrow>
          (let s1 = s\<lparr>st_indexConfigs := mput ns idx (st_indexConfigs s)\<rparr>
           in if IxEmbed idx = GNil then s1
              else case List.map_filter (\<lambda>field. Option.bind (mget value field) as_vector) (IxFields idx) of
                     [] \<Rightarrow> s1
                   | emb # embs \<Rightarrow>
                       s1\<lparr>st_indexes := mput ns (mput key emb (mget_or [] (st_indexes s1) ns)) (st_indexes s1)\<rparr>)
      | IndexFields flds \<Rightarrow>
          (if flds = [] then s
           else s\<lparr>st_indexConfigs := mput ns \<lparr>IxDims = 0, IxEmbed = GNil, IxFields = flds\<rparr> (st_indexConfigs s)\<rparr>)
      | IndexFlag True \<Rightarrow>
          s\<lparr>st_indexConfigs := mput ns \<lparr>IxDims = 0, IxEmbed = GNil, IxFields = [''embedding'']\<rparr> (st_indexConfigs s)\<rparr>
      | _ \<Rightarrow> s)"

definition PutItem ::
  "int \<Rightarrow> InMemoryStore \<Rightarrow> string list \<Rightarrow> string \<Rightarrow> gval gomap \<Rightarrow> index_arg \<Rightarrow> int option \<Rightarrow> InMemoryStore res" where
  "PutItem now s namespace key value index ttl =
     ifOpen s (Inr (index_value (nsKey namespace) key value index
       (with_ttl now (nsKey namespace) key ttl (st_write namespace key value s))))"

text \<open>\<open>cosineSimilarity\<close>, on bit patterns with the library's arithmetic.\<close>

definition cosineSimilarity :: "golib \<Rightarrow> 64 word list \<Rightarrow> 64 word list \<Rightarrow> 64 word" where
  "cosineSimilarity L a b =
     (if length a \<noteq> length b \<or> a = [] then 0
      else let (d, na, nb) = fold (\<lambda>(x, y) (d, na, nb).
                 (f64_add L d (f64_mul L x y), f64_add L na (f64_mul L x x), f64_add L nb (f64_mul L y y)))
                 (zip a b) (0, 0, 0)
           in if f64_eq L na 0 \<or> f64_eq L nb 0 then 0
              else f64_div L d (f64_mul L (f64_sqrt L na) (f64_sqrt L nb)))"

text \<open>\<open>sort.Slice\<close>: the elements in the order the library gives their indices.\<close>

definition sort_slice :: "golib \<Rightarrow> ('a \<Rightarrow> 'a \<Rightarrow> bool) \<Rightarrow> 'a list \<Rightarrow> 'a list" where
  "sort_slice L lt xs = map (\<lambda>i. xs ! i) (sort_perm L (\<lambda>i j. lt (xs ! i) (xs ! j)) (length xs))"

definition scored_item ::
  "golib \<Rightarrow> int \<Rightarrow> InMemoryStore \<Rightarrow> string \<Rightarrow> 64 word list \<Rightarrow> string \<times> 64 word list \<Rightarrow> (SearchItem \<times> 64 word) option" where
  "scored_item L now s ns queryEmbedding ke =
     (case ke of (key, embedding) \<Rightarrow>
        (case Option.bind (mget (st_data s) ns) (\<lambda>nsData. mget nsData key) of
           None \<Rightarrow> None
         | Some value \<Rightarrow>
             (if \<not> checkTTL now s (fullKey ns key) then None
              else let score = cosineSimilarity L queryEmbedding embedding
                   in Some (\<lparr>SiItem = st_item now s ns (str_split CHR ''|'' ns) key value, SiScore = Some score\<rparr>, score))))"

definition searchByEmbedding ::
  "golib \<Rightarrow> int \<Rightarrow> InMemoryStore \<Rightarrow> string \<Rightarrow> 64 word list \<Rightarrow> int \<Rightarrow> SearchItem list" where
  "searchByEmbedding L now s ns queryEmbedding limit =
     (case mget (st_indexes s) ns of
        None \<Rightarrow> []
      | Some idxMap \<Rightarrow>
          (let scored = sort_slice L (\<lambda>(i, x) (j, y). f64_less L y x)
                 (List.map_filter (scored_item L now s ns queryEmbedding) idxMap);
               scored = (if 0 < limit \<and> limit < int (length scored) then take (nat limit) scored else scored)
           in map fst scored))"

definition SearchItems ::
  "golib \<Rightarrow> int \<Rightarrow> InMemoryStore \<Rightarrow> string list \<Rightarrow> string option \<Rightarrow> gval gomap option \<Rightarrow> int \<Rightarrow> int \<Rightarrow> SearchItem list res" where
  "SearchItems L now s namespace query flt limit offset =
     ifOpen s
      (case Option.bind (Option.bind flt (\<lambda>f. mget f ''$embedding'')) as_vector of
         Some emb \<Rightarrow> Inr (apply_offset offset (searchByEmbedding L now s (nsKey namespace) emb limit))
       | None \<Rightarrow>
           (case mget (st_data s) (nsKey namespace) of
              None \<Rightarrow> Inr []
            | Some nsData \<Rightarrow>
                map_sum id (\<lambda>kvs. apply_offset offset
                    (map (\<lambda>(key, value). \<lparr>SiItem = st_item now s (nsKey namespace) namespace key value, SiScore = None\<rparr>) kvs))
                  (collect_matching (entry_matches L now s (nsKey namespace) query flt) limit nsData [])))"

text \<open>The first condition of a known kind decides.\<close>

fun match_conditions :: "string list \<Rightarrow> MatchCondition list \<Rightarrow> bool" where
  "match_conditions namespace [] = False"
| "match_conditions namespace (cond # conds) =
     (let path = McPath cond
      in if McMatchType cond = ''prefix'' then take (length path) namespace = path
         else if McMatchType cond = ''suffix'' then
           length path \<le> length namespace \<and> drop (length namespace - length path) namespace = path
         else match_conditions namespace conds)"

definition matchNamespaceConditions :: "string list \<Rightarrow> MatchCondition list \<Rightarrow> bool" where
  "matchNamespaceConditions namespace conditions = (conditions = [] \<or> match_conditions namespace conditions)"

text \<open>The namespaces of the store and all their ancestors, by joined name.\<close>

definition namespace_set :: "InMemoryStore \<Rightarrow> string list gomap" where
  "namespace_set s =
     fold (\<lambda>ns acc. fold (\<lambda>i acc.
         (let parts = take i (str_split CHR ''|'' ns); prefix = str_join CHR ''|'' parts
          in if mget acc prefix = None then mput prefix parts acc else acc))
       [1..<Suc (length (str_split CHR ''|'' ns))] acc) (mkeys (st_data s)) []"

definition ListNamespaces ::
  "InMemoryStore \<Rightarrow> MatchCondition list \<Rightarrow> int option \<Rightarrow> int \<Rightarrow> int \<Rightarrow> string list list res" where
  "ListNamespaces s conditions maxDepth limit offset =
     ifOpen s
      (let filtered = filter (\<lambda>ns. matchNamespaceConditions ns conditions) (map snd (namespace_set s));
           filtered = (case maxDepth of None \<Rightarrow> filtered | Some d \<Rightarrow> filter (\<lambda>ns. int (length ns) \<le> d) filtered)
       in if offset > int (length filtered) then Inl (GoPanic ''slice bounds out of range'')
          else let filtered = drop (nat offset) filtered
               in Inr (if 0 < limit \<and> limit < int (length filtered) then take (nat limit) filtered else filtered))"

text \<open>
  A batch runs under the write lock. \<open>ListNamespacesOp\<close> calls the method that takes the read lock of the same
  mutex, so it waits for itself: \<open>None\<close>.
\<close>

definition ok_result :: "op_value \<Rightarrow> Result" where
  "ok_result v = \<lparr>ResValue = v, ResError = None\<rparr>"

definition batch_search ::
  "golib \<Rightarrow> int \<Rightarrow> InMemoryStore \<Rightarrow> string list \<Rightarrow> gval gomap option \<Rightarrow> int \<Rightarrow> int \<Rightarrow> string option \<Rightarrow> Result res" where
  "batch_search L now s namespace flt limit offset query =
     (case mget (st_data s) (nsKey namespace) of
        None \<Rightarrow> Inr (ok_result NoValue)
      | Some nsData \<Rightarrow>
          map_sum id (\<lambda>kvs. ok_result (ManyValues (apply_offset offset (map (copyValue \<circ> snd) kvs))))
            (collect_matching (entry_matches L now s (nsKey namespace) query flt) limit nsData []))"

fun batch_op :: "golib \<Rightarrow> int \<Rightarrow> InMemoryStore \<Rightarrow> store_op \<Rightarrow> (InMemoryStore \<times> Result) res option" where
  "batch_op L now s (GetOp namespace key refresh) =
     Some (Inr (s, ok_result (case st_lookup now s namespace key of None \<Rightarrow> NoValue | Some v \<Rightarrow> OneValue v)))"
| "batch_op L now s (PutOp namespace key value index ttl) =
     Some (Inr (with_ttl now (nsKey namespace) key ttl (st_write namespace key value s), ok_result NoValue))"
| "batch_op L now s (SearchOp namespace flt limit offset query refresh) =
     Some (map_sum id (\<lambda>r. (s, r)) (batch_search L now s namespace flt limit offset query))"
| "batch_op L now s (ListNamespacesOp conditions maxDepth limit offset) = None"
| "batch_op L now s UnknownOp =
     Some (Inr (s, \<lparr>ResValue = NoValue, ResError = Some (StoreError ''unknown operation type'')\<rparr>))"

fun batch_loop :: "golib \<Rightarrow> int \<Rightarrow> InMemoryStore \<Rightarrow> store_op list \<Rightarrow> Result list \<Rightarrow> (InMemoryStore \<times> Result list res) option" where
  "batch_loop L now s [] acc = Some (s, Inr acc)"
| "batch_loop L now s (op # ops) acc =
     (case batch_op L now s op of
        None \<Rightarrow> None
      | Some (Inl p) \<Rightarrow> Some (s, Inl p)
      | Some (Inr (s', r)) \<Rightarrow> batch_loop L now s' ops (acc @ [r]))"

definition Batch :: "golib \<Rightarrow> int \<Rightarrow> InMemoryStore \<Rightarrow> store_op list \<Rightarrow> (InMemoryStore \<times> Result list res) option" where
  "Batch L now s ops =
     (if st_closed s then Some (s, Inl (StoreError ''store is closed'')) else batch_loop L now s ops [])"

definition BatchPut :: "InMemoryStore \<Rightarrow> (string list \<times> string \<times> gval gomap) list \<Rightarrow> InMemoryStore res" where
  "BatchPut s ops = ifOpen s (Inr (fold (\<lambda>(namespace, key, value). st_write namespace key value) ops s))"

definition Store_Clear :: "InMemoryStore \<Rightarrow> InMemoryStore" where
  "Store_Clear s = s\<lparr>st_data := [], st_ttl := []\<rparr>"

definition Store_Close :: "InMemoryStore \<Rightarrow> InMemoryStore" where
  "Store_Close s = s\<lparr>st_closed := True\<rparr>"

section \<open>The sweep\<close>

text \<open>One tick of \<open>cleanupExpired\<close>, at time \<open>now\<close>.\<close>

definition drop_entry :: "string \<Rightarrow> gval gomap gomap gomap \<Rightarrow> gval gomap gomap gomap" where
  "drop_entry fk data =
     (case str_split CHR '':'' fk of
        [ns, key] \<Rightarrow>
          (case mget data ns of
             None \<Rightarrow> data
           | Some nsData \<Rightarrow>
               (if mdel key nsData = [] then mdel ns data else mput ns (mdel key nsData) data))
      | _ \<Rightarrow> data)"

fun sweep_entry :: "int \<Rightarrow> string \<times> int \<Rightarrow> InMemoryStore \<Rightarrow> InMemoryStore" where
  "sweep_entry now (fk, expiry) s =
     (if now > expiry
      then s\<lparr>st_data := drop_entry fk (st_data s), st_ttl := mdel fk (st_ttl s),
             st_indexes := filter (\<lambda>(ns, idx). idx \<noteq> []) (map (\<lambda>(ns, idx). (ns, mdel fk idx)) (st_indexes s))\<rparr>
      else s)"

definition sweep :: "int \<Rightarrow> InMemoryStore \<Rightarrow> InMemoryStore" where
  "sweep now s = fold (sweep_entry now) (st_ttl s) s"

end
