(* ===== verification/Store_Spec.thy ===== *)
theory Store_Spec
  imports Store
begin

text \<open>
  What a store promises: an abstract store is a finite-domain map from names (namespace and key) to values
  with a second map of deadlines, and each operation has a one-line specification on it. The locale
  \<open>kv_store\<close> is the contract of \<open>BaseStore\<close> in these terms, its main lemma that any sequence of operations is
  the abstract one; the interpretation shows that \<open>InMemoryStore\<close> keeps it on names without separators.
\<close>

section \<open>The abstract store\<close>

type_synonym name = "string list \<times> string"

record abs_store =
  ab_value :: "name \<Rightarrow> gval gomap option"
  ab_deadline :: "name \<Rightarrow> int option"

definition abs_empty :: abs_store where
  "abs_empty = \<lparr>ab_value = (\<lambda>n. None), ab_deadline = (\<lambda>n. None)\<rparr>"

definition abs_live :: "int \<Rightarrow> abs_store \<Rightarrow> name \<Rightarrow> bool" where
  "abs_live now a n = (case ab_deadline a n of None \<Rightarrow> True | Some d \<Rightarrow> now < d)"

definition abs_get :: "int \<Rightarrow> abs_store \<Rightarrow> name \<Rightarrow> gval gomap option" where
  "abs_get now a n = (if abs_live now a n then ab_value a n else None)"

definition abs_put :: "name \<Rightarrow> gval gomap \<Rightarrow> abs_store \<Rightarrow> abs_store" where
  "abs_put n v a = a\<lparr>ab_value := (ab_value a)(n \<mapsto> v)\<rparr>"

definition abs_expire :: "name \<Rightarrow> int \<Rightarrow> abs_store \<Rightarrow> abs_store" where
  "abs_expire n d a = a\<lparr>ab_deadline := (ab_deadline a)(n \<mapsto> d)\<rparr>"

text \<open>Deleting forgets the deadline only where the namespace exists; \<open>known\<close> says whether it does.\<close>

definition abs_delete :: "bool \<Rightarrow> name \<Rightarrow> abs_store \<Rightarrow> abs_store" where
  "abs_delete known n a =
     (if known then \<lparr>ab_value = (ab_value a)(n := None), ab_deadline = (ab_deadline a)(n := None)\<rparr> else a)"

definition abs_sweep :: "int \<Rightarrow> abs_store \<Rightarrow> abs_store" where
  "abs_sweep now a =
     (let gone = (\<lambda>n. case ab_deadline a n of None \<Rightarrow> False | Some d \<Rightarrow> d < now)
      in \<lparr>ab_value = (\<lambda>n. if gone n then None else ab_value a n),
          ab_deadline = (\<lambda>n. if gone n then None else ab_deadline a n)\<rparr>)"

lemmas abs_defs = abs_empty_def abs_live_def abs_get_def abs_put_def abs_expire_def abs_delete_def abs_sweep_def Let_def

text \<open>Names whose joined forms are unambiguous.\<close>

definition clean :: "name \<Rightarrow> bool" where
  "clean n \<longleftrightarrow> fst n \<noteq> [] \<and> (\<forall>p \<in> set (fst n). CHR ''|'' \<notin> set p \<and> CHR '':'' \<notin> set p) \<and> CHR '':'' \<notin> set (snd n)"

section \<open>The contract\<close>

datatype kv_op =
    KPut name "gval gomap"
  | KPutItem int name "gval gomap" "int option"
  | KSetTTL int name int
  | KDelete name
  | KTick int

fun op_name :: "kv_op \<Rightarrow> name option" where
  "op_name (KPut n v) = Some n"
| "op_name (KPutItem now n v ttl) = Some n"
| "op_name (KSetTTL now n d) = Some n"
| "op_name (KDelete n) = Some n"
| "op_name (KTick now) = None"

definition clean_op :: "kv_op \<Rightarrow> bool" where
  "clean_op p = (case op_name p of None \<Rightarrow> True | Some n \<Rightarrow> clean n)"

fun abs_perform :: "(gval gomap \<Rightarrow> gval gomap) \<Rightarrow> bool \<Rightarrow> kv_op \<Rightarrow> abs_store \<Rightarrow> abs_store" where
  "abs_perform copy known (KPut n v) a = abs_put n (copy v) a"
| "abs_perform copy known (KPutItem now n v ttl) a =
     (case ttl of None \<Rightarrow> abs_put n (copy v) a | Some d \<Rightarrow> abs_expire n (now + d) (abs_put n (copy v) a))"
| "abs_perform copy known (KSetTTL now n d) a = (if d \<le> 0 then a else abs_expire n (now + d) a)"
| "abs_perform copy known (KDelete n) a = abs_delete known n a"
| "abs_perform copy known (KTick now) a = abs_sweep now a"

text \<open>Abstract runs: the operations in order, where deleting a name without a value may or may not
  forget its deadline.\<close>

inductive abs_run :: "(gval gomap \<Rightarrow> gval gomap) \<Rightarrow> kv_op list \<Rightarrow> abs_store \<Rightarrow> abs_store \<Rightarrow> bool" for copy where
  abs_nil: "abs_run copy [] a a"
| abs_cons: "(\<forall>n. p = KDelete n \<longrightarrow> ab_value a n \<noteq> None \<longrightarrow> known) \<Longrightarrow>
    abs_run copy ps (abs_perform copy known p a) b \<Longrightarrow> abs_run copy (p # ps) a b"

text \<open>
  \<open>view\<close> is what a concrete store stands for, on clean names; \<open>knows\<close> whether it has the namespace of a name.
\<close>

locale kv_store =
  fixes new :: 's
    and get :: "int \<Rightarrow> 's \<Rightarrow> string list \<Rightarrow> string \<Rightarrow> gval gomap option res"
    and put :: "'s \<Rightarrow> string list \<Rightarrow> string \<Rightarrow> gval gomap \<Rightarrow> 's res"
    and put_item :: "int \<Rightarrow> 's \<Rightarrow> string list \<Rightarrow> string \<Rightarrow> gval gomap \<Rightarrow> int option \<Rightarrow> 's res"
    and set_ttl :: "int \<Rightarrow> 's \<Rightarrow> string list \<Rightarrow> string \<Rightarrow> int \<Rightarrow> 's res"
    and del :: "'s \<Rightarrow> string list \<Rightarrow> string \<Rightarrow> 's res"
    and tick :: "int \<Rightarrow> 's \<Rightarrow> 's"
    and copy :: "gval gomap \<Rightarrow> gval gomap"
    and ok :: "'s \<Rightarrow> bool"
    and view :: "'s \<Rightarrow> abs_store"
    and knows :: "'s \<Rightarrow> name \<Rightarrow> bool"
  assumes new_ok: "ok new" and new_view: "view new = abs_empty"
    and get_spec: "ok s \<Longrightarrow> clean n \<Longrightarrow> get now s (fst n) (snd n) = Inr (abs_get now (view s) n)"
    and put_spec: "ok s \<Longrightarrow> clean n \<Longrightarrow>
      \<exists>s'. put s (fst n) (snd n) v = Inr s' \<and> ok s' \<and> view s' = abs_put n (copy v) (view s)"
    and put_item_spec: "ok s \<Longrightarrow> clean n \<Longrightarrow>
      \<exists>s'. put_item now s (fst n) (snd n) v ttl = Inr s' \<and> ok s' \<and>
        view s' = (case ttl of None \<Rightarrow> abs_put n (copy v) (view s)
          | Some d \<Rightarrow> abs_expire n (now + d) (abs_put n (copy v) (view s)))"
    and set_ttl_spec: "ok s \<Longrightarrow> clean n \<Longrightarrow>
      \<exists>s'. set_ttl now s (fst n) (snd n) d = Inr s' \<and> ok s' \<and>
        view s' = (if d \<le> 0 then view s else abs_expire n (now + d) (view s))"
    and del_spec: "ok s \<Longrightarrow> clean n \<Longrightarrow>
      \<exists>s'. del s (fst n) (snd n) = Inr s' \<and> ok s' \<and> view s' = abs_delete (knows s n) n (view s)"
    and tick_spec: "ok s \<Longrightarrow> ok (tick now s) \<and> view (tick now s) = abs_sweep now (view s)"
    and knows_value: "ok s \<Longrightarrow> clean n \<Longrightarrow> ab_value (view s) n \<noteq> None \<Longrightarrow> knows s n"
begin

fun perform :: "kv_op \<Rightarrow> 's \<Rightarrow> 's res" where
  "perform (KPut n v) s = put s (fst n) (snd n) v"
| "perform (KPutItem now n v ttl) s = put_item now s (fst n) (snd n) v ttl"
| "perform (KSetTTL now n d) s = set_ttl now s (fst n) (snd n) d"
| "perform (KDelete n) s = del s (fst n) (snd n)"
| "perform (KTick now) s = Inr (tick now s)"

text \<open>One operation of the store is the abstract operation.\<close>

lemma perform_refines:
  assumes "ok s" and "clean_op p"
  shows "\<exists>s' known. perform p s = Inr s' \<and> ok s' \<and> view s' = abs_perform copy known p (view s) \<and>
    (\<forall>n. p = KDelete n \<longrightarrow> ab_value (view s) n \<noteq> None \<longrightarrow> known)"
proof (cases p)
  case (KDelete n)
  with assms del_spec [of s n] knows_value [of s n] show ?thesis by (fastforce simp: clean_op_def)
qed (use assms put_spec put_item_spec set_ttl_spec tick_spec in \<open>force simp: clean_op_def\<close>)+

fun run :: "kv_op list \<Rightarrow> 's \<Rightarrow> 's res" where
  "run [] s = Inr s"
| "run (p # ps) s = (case perform p s of Inl e \<Rightarrow> Inl e | Inr s' \<Rightarrow> run ps s')"

lemma run_refines:
  assumes "ok s" and "list_all clean_op ps"
  shows "\<exists>s'. run ps s = Inr s' \<and> ok s' \<and> abs_run copy ps (view s) (view s')"
  using assms
proof (induction ps arbitrary: s)
  case Nil
  then show ?case by (auto intro: abs_nil)
next
  case (Cons p ps)
  then obtain s1 known where s1: "perform p s = Inr s1" "ok s1" "view s1 = abs_perform copy known p (view s)"
    "\<forall>n. p = KDelete n \<longrightarrow> ab_value (view s) n \<noteq> None \<longrightarrow> known"
    using perform_refines [of s p] by auto
  with Cons.IH [of s1] Cons.prems abs_cons [OF s1(4)] show ?case by auto
qed

end

section \<open>The in-memory store\<close>

definition st_value :: "InMemoryStore \<Rightarrow> string \<Rightarrow> string \<Rightarrow> gval gomap option" where
  "st_value s ns key = Option.bind (mget (st_data s) ns) (\<lambda>nsData. mget nsData key)"

definition store_view :: "InMemoryStore \<Rightarrow> abs_store" where
  "store_view s =
     \<lparr>ab_value = (\<lambda>n. if clean n then st_value s (nsKey (fst n)) (snd n) else None),
      ab_deadline = (\<lambda>n. if clean n then mget (st_ttl s) (fullKey (nsKey (fst n)) (snd n)) else None)\<rparr>"

definition store_ok :: "InMemoryStore \<Rightarrow> bool" where
  "store_ok s \<longleftrightarrow> \<not> st_closed s \<and> gomap_ok (st_ttl s) \<and> (\<forall>ns key v. st_value s ns key = Some v \<longrightarrow> gomap_ok v)"

text \<open>On clean names the joined keys determine the name.\<close>

lemma nsKey_clean: "clean n \<Longrightarrow> CHR '':'' \<notin> set (nsKey (fst n))"
proof -
  have "set (str_join c ps) \<subseteq> insert c (\<Union>p \<in> set ps. set p)" for c ps
    by (induction c ps rule: str_join.induct) auto
  from this [of "CHR ''|''" "fst n"] show "clean n \<Longrightarrow> ?thesis" by (auto simp: clean_def nsKey_def)
qed

lemma nsKey_inj: "clean n \<Longrightarrow> clean n' \<Longrightarrow> nsKey (fst n) = nsKey (fst n') \<longleftrightarrow> fst n = fst n'"
  using str_join_inj [of "CHR ''|''" "fst n" "fst n'"] by (auto simp: clean_def nsKey_def)

lemma fullKey_split: "c = CHR '':'' \<Longrightarrow> c \<notin> set ns \<Longrightarrow> str_split c (fullKey ns key) = ns # str_split c key"
  by (simp add: fullKey_def str_split_append)

lemma fullKey_parts:
  assumes "clean n"
  shows "str_split CHR '':'' (fullKey (nsKey (fst n)) (snd n)) = [nsKey (fst n), snd n]"
proof -
  have "str_split CHR '':'' (snd n) = [snd n]" using assms by (intro str_split_no_sep) (simp add: clean_def)
  with fullKey_split [OF refl nsKey_clean [OF assms], of "snd n"] show ?thesis by simp
qed

lemma fullKey_inj:
  assumes "clean n" and "clean n'"
  shows "fullKey (nsKey (fst n)) (snd n) = fullKey (nsKey (fst n')) (snd n') \<longleftrightarrow> n = n'"
proof
  assume eq: "fullKey (nsKey (fst n)) (snd n) = fullKey (nsKey (fst n')) (snd n')"
  have "[nsKey (fst n), snd n] = [nsKey (fst n'), snd n']"
    using arg_cong [OF eq, of "str_split CHR '':''"]
    unfolding fullKey_parts [OF assms(1)] fullKey_parts [OF assms(2)] .
  with nsKey_inj [OF assms] show "n = n'" by (simp add: prod_eqI)
qed simp

lemma copyValue_ok [simp]: "gomap_ok (copyValue v)"
  by (simp add: copyValue_def gomap_ok_mcopy)

lemma copyValue_id [simp]: "gomap_ok v \<Longrightarrow> copyValue v = v"
  by (simp add: copyValue_def)

lemma st_write_simps [simp]:
  "st_value (st_write namespace k v s) ns key =
     (if ns = nsKey namespace \<and> key = k then Some (copyValue v) else st_value s ns key)"
  "st_ttl (st_write namespace k v s) = st_ttl s" "st_closed (st_write namespace k v s) = st_closed s"
  by (auto simp: st_write_def st_value_def gomap mget_or_def split: option.splits)

lemma with_ttl_simps [simp]:
  "st_value (with_ttl now ns k ttl s) = st_value s" "st_closed (with_ttl now ns k ttl s) = st_closed s"
  "st_ttl (with_ttl now ns k ttl s) =
     (case ttl of None \<Rightarrow> st_ttl s | Some d \<Rightarrow> mput (fullKey ns k) (now + d) (st_ttl s))"
  by (auto simp: with_ttl_def st_value_def fun_eq_iff split: option.splits)

lemma with_ttl_None [simp]: "with_ttl now ns k None s = s"
  by (simp add: with_ttl_def)

lemma index_value_simps [simp]:
  "st_data (index_value ns k v idx s) = st_data s" "st_ttl (index_value ns k v idx s) = st_ttl s"
  "st_closed (index_value ns k v idx s) = st_closed s"
  by (auto simp: index_value_def Let_def split: index_arg.splits bool.splits list.splits)

lemma index_value_view [simp]: "st_value (index_value ns k v idx s) = st_value s"
  by (simp add: st_value_def fun_eq_iff)

lemma st_lookup_value:
  "st_lookup now s namespace key =
     (if checkTTL now s (fullKey (nsKey namespace) key) then map_option copyValue (st_value s (nsKey namespace) key)
      else None)"
  by (simp add: st_lookup_def st_value_def split: option.splits)

lemma checkTTL_view: "clean n \<Longrightarrow> checkTTL now s (fullKey (nsKey (fst n)) (snd n)) = abs_live now (store_view s) n"
  by (simp add: checkTTL_def abs_live_def store_view_def)

lemma st_lookup_view:
  assumes "store_ok s" and "clean n"
  shows "st_lookup now s (fst n) (snd n) = abs_get now (store_view s) n"
proof -
  have "map_option copyValue (st_value s ns key) = st_value s ns key" for ns key
    using assms(1) by (cases "st_value s ns key") (auto simp: store_ok_def)
  then show ?thesis
    using assms(2) by (simp add: st_lookup_value checkTTL_view abs_get_def) (simp add: store_view_def)
qed

lemma view_write:
  "clean n \<Longrightarrow> store_view (st_write (fst n) (snd n) v s) = abs_put n (copyValue v) (store_view s)"
  using nsKey_inj [of _ n] by (auto simp: store_view_def abs_put_def fun_eq_iff prod_eq_iff)

lemma view_ttl:
  "clean n \<Longrightarrow> store_view (with_ttl now (nsKey (fst n)) (snd n) (Some d) s) = abs_expire n (now + d) (store_view s)"
  using fullKey_inj [of _ n] by (auto simp: store_view_def abs_expire_def fun_eq_iff gomap)

lemma view_index [simp]: "store_view (index_value ns k v idx s) = store_view s"
  by (simp add: store_view_def cong: if_cong)

lemma ok_write: "store_ok s \<Longrightarrow> store_ok (st_write ns k v s)"
  by (auto simp: store_ok_def)

lemma ok_ttl: "store_ok s \<Longrightarrow> store_ok (with_ttl now ns k ttl s)"
  by (auto simp: store_ok_def split: option.splits)

lemma ok_index [simp]: "store_ok (index_value ns k v idx s) = store_ok s"
  by (simp add: store_ok_def)

lemma Store_Delete_spec:
  assumes "store_ok s" and "clean n"
  shows "\<exists>s'. Store_Delete s (fst n) (snd n) = Inr s' \<and> store_ok s' \<and>
    store_view s' = abs_delete (mget (st_data s) (nsKey (fst n)) \<noteq> None) n (store_view s)"
proof (cases "mget (st_data s) (nsKey (fst n))")
  case None
  with assms show ?thesis by (simp add: Store_Delete_def ifOpen_def store_ok_def abs_delete_def)
next
  case (Some nsData)
  let ?s = "s\<lparr>st_data := mput (nsKey (fst n)) (mdel (snd n) nsData) (st_data s),
    st_ttl := mdel (fullKey (nsKey (fst n)) (snd n)) (st_ttl s)\<rparr>"
  have vals: "st_value ?s ns key = (if ns = nsKey (fst n) \<and> key = snd n then None else st_value s ns key)" for ns key
    using Some by (auto simp: st_value_def gomap)
  have "store_view ?s = abs_delete True n (store_view s)"
    using nsKey_inj [of _ n] fullKey_inj [of _ n] assms(2)
    by (auto simp: store_view_def abs_delete_def fun_eq_iff vals gomap prod_eq_iff)
  moreover have "store_ok ?s" using assms(1) by (auto simp: store_ok_def vals)
  ultimately show ?thesis using Some assms(1) by (simp add: Store_Delete_def ifOpen_def store_ok_def)
qed

text \<open>The sweep, entry by entry: a two-part key drops the entry it names, and nothing else.\<close>

lemma drop_entry_value:
  "st_value (s\<lparr>st_data := drop_entry (fullKey (nsKey (fst n)) (snd n)) (st_data s)\<rparr>) ns key =
     (if ns = nsKey (fst n) \<and> key = snd n then None else st_value s ns key)" if "clean n"
proof (cases "mget (st_data s) (nsKey (fst n))")
  case None
  then show ?thesis by (auto simp: st_value_def drop_entry_def fullKey_parts [OF that])
next
  case (Some d)
  have "mget d k = None" if "mdel (snd n) d = []" "k \<noteq> snd n" for k
    using that mget_mdel [of "snd n" d] by (metis fun_upd_apply map_of.simps(1))
  with Some show ?thesis
    by (auto simp: st_value_def drop_entry_def fullKey_parts [OF \<open>clean n\<close>] gomap split: option.splits)
qed

lemma two_parts_clean:
  assumes "str_split CHR '':'' fk = [ns, key]"
  shows "\<exists>n. clean n \<and> nsKey (fst n) = ns \<and> snd n = key \<and> fk = fullKey ns key"
proof -
  have fk: "fk = fullKey ns key"
    using str_join_split [of "CHR '':''" fk] unfolding assms by (simp add: fullKey_def)
  have parts: "CHR '':'' \<notin> set ns" "CHR '':'' \<notin> set key"
    using str_split_parts [of _ "CHR '':''" fk] unfolding assms by auto
  have join: "nsKey (str_split CHR ''|'' ns) = ns" by (simp add: nsKey_def str_join_split)
  have sub: "set p \<subseteq> set (str_join c ps)" if "p \<in> set ps" for p c and ps :: "string list"
    using that by (induction c ps rule: str_join.induct) auto
  have "clean (str_split CHR ''|'' ns, key)"
    using parts sub [of _ "str_split CHR ''|'' ns" "CHR ''|''"] str_split_parts [of _ "CHR ''|''" ns]
    unfolding clean_def str_join_split by auto
  with join fk show ?thesis by (intro exI [of _ "(str_split CHR ''|'' ns, key)"]) simp
qed

lemma drop_entry_other:
  assumes "\<forall>n. clean n \<longrightarrow> fk \<noteq> fullKey (nsKey (fst n)) (snd n)"
  shows "drop_entry fk data = data"
proof -
  have "str_split CHR '':'' fk \<noteq> [ns, key]" for ns key
    using two_parts_clean [of fk ns key] assms by blast
  then show ?thesis by (auto simp: drop_entry_def split: list.splits)
qed

lemma st_value_update [simp]:
  "st_value (s\<lparr>st_data := d, st_ttl := t, st_indexes := i\<rparr>) = st_value (s\<lparr>st_data := d\<rparr>)"
  by (simp add: st_value_def fun_eq_iff)

lemma sweep_entry_value:
  assumes "clean n"
  shows "st_value (sweep_entry now (fk, e) s) (nsKey (fst n)) (snd n) =
    (if e < now \<and> fk = fullKey (nsKey (fst n)) (snd n) then None else st_value s (nsKey (fst n)) (snd n))"
proof (cases "e < now \<and> (\<exists>n'. clean n' \<and> fk = fullKey (nsKey (fst n')) (snd n'))")
  case True
  then obtain n' where n': "clean n'" "fk = fullKey (nsKey (fst n')) (snd n')" by blast
  with True drop_entry_value [OF n'(1), of s "nsKey (fst n)" "snd n"] fullKey_inj [OF n'(1) assms] nsKey_inj [OF assms n'(1)]
  show ?thesis by (auto simp: prod_eq_iff)
next
  case False
  with drop_entry_other [of fk "st_data s"] assms show ?thesis by (auto simp: st_value_def)
qed

lemma sweep_entry_mono: "st_value (sweep_entry now (fk, e) s) ns key = Some v \<Longrightarrow> st_value s ns key = Some v"
proof (cases "\<exists>n'. clean n' \<and> fk = fullKey (nsKey (fst n')) (snd n')")
  case True
  then obtain n' where n': "clean n'" "fk = fullKey (nsKey (fst n')) (snd n')" by blast
  assume "st_value (sweep_entry now (fk, e) s) ns key = Some v"
  with drop_entry_value [OF n'(1), of s ns key] n'(2) show ?thesis by (simp split: if_splits)
next
  case False
  assume "st_value (sweep_entry now (fk, e) s) ns key = Some v"
  with False drop_entry_other [of fk "st_data s"] show ?thesis by (simp add: st_value_def split: if_splits)
qed

lemma sweep_entry_ttl [simp]:
  "st_ttl (sweep_entry now (fk, e) s) = (if e < now then mdel fk (st_ttl s) else st_ttl s)"
  "st_closed (sweep_entry now (fk, e) s) = st_closed s"
  by auto

lemma fold_sweep:
  assumes "store_ok s"
  shows "store_ok (fold (sweep_entry now) es s) \<and>
    (\<forall>n. clean n \<longrightarrow> st_value (fold (sweep_entry now) es s) (nsKey (fst n)) (snd n) =
       (if \<exists>e < now. (fullKey (nsKey (fst n)) (snd n), e) \<in> set es then None else st_value s (nsKey (fst n)) (snd n))) \<and>
    (\<forall>fk. mget (st_ttl (fold (sweep_entry now) es s)) fk =
       (if \<exists>e < now. (fk, e) \<in> set es then None else mget (st_ttl s) fk))"
  using assms
proof (induction es arbitrary: s)
  case Nil
  then show ?case by simp
next
  case (Cons p es)
  obtain fk e where p: "p = (fk, e)" by (cases p)
  have ok: "store_ok (sweep_entry now (fk, e) s)"
    using Cons.prems sweep_entry_mono [of now fk e s] unfolding store_ok_def
    by (simp del: sweep_entry.simps) blast
  note IH = Cons.IH [OF ok]
  show ?case
  proof (intro conjI allI impI)
    show "store_ok (fold (sweep_entry now) (p # es) s)" using IH by (simp add: p del: sweep_entry.simps)
    show "st_value (fold (sweep_entry now) (p # es) s) (nsKey (fst n)) (snd n) =
      (if \<exists>e < now. (fullKey (nsKey (fst n)) (snd n), e) \<in> set (p # es) then None else st_value s (nsKey (fst n)) (snd n))"
      if n: "clean n" for n
    proof -
      have "st_value (fold (sweep_entry now) (p # es) s) (nsKey (fst n)) (snd n) =
        (if \<exists>e < now. (fullKey (nsKey (fst n)) (snd n), e) \<in> set es then None
         else st_value (sweep_entry now (fk, e) s) (nsKey (fst n)) (snd n))"
        using conjunct1 [OF conjunct2 [OF IH], rule_format, OF n] by (simp only: p fold_simps o_apply)
      then show ?thesis unfolding sweep_entry_value [OF n] by (auto simp: p)
    qed
    show "mget (st_ttl (fold (sweep_entry now) (p # es) s)) fk' =
      (if \<exists>e < now. (fk', e) \<in> set (p # es) then None else mget (st_ttl s) fk')" for fk'
    proof -
      have "mget (st_ttl (fold (sweep_entry now) (p # es) s)) fk' =
        (if \<exists>e < now. (fk', e) \<in> set es then None else mget (st_ttl (sweep_entry now (fk, e) s)) fk')"
        using IH by (simp add: p del: sweep_entry.simps)
      then show ?thesis by (auto simp: p gomap simp del: sweep_entry.simps)
    qed
  qed
qed

lemma sweep_spec:
  assumes "store_ok s"
  shows "store_ok (sweep now s) \<and> store_view (sweep now s) = abs_sweep now (store_view s)"
proof -
  have mem: "(fk, e) \<in> set (st_ttl s) \<longleftrightarrow> mget (st_ttl s) fk = Some e" for fk e
    using assms by (auto simp: store_ok_def gomap_ok_def)
  have ex: "(\<exists>e < now. (fk, e) \<in> set (st_ttl s)) \<longleftrightarrow>
      (case mget (st_ttl s) fk of None \<Rightarrow> False | Some e \<Rightarrow> e < now)" for fk
    by (auto simp: mem split: option.splits)
  note fs = fold_sweep [OF assms, of now "st_ttl s", folded sweep_def, unfolded ex]
  have "store_view (sweep now s) = abs_sweep now (store_view s)"
    using fs by (auto simp: store_view_def abs_sweep_def Let_def fun_eq_iff)
  with fs show ?thesis by blast
qed

interpretation mem: kv_store NewInMemoryStore Store_Get Store_Put
  "\<lambda>now s ns key v ttl. PutItem now s ns key v NoIndex ttl" SetTTL Store_Delete sweep copyValue store_ok store_view
  "\<lambda>s n. mget (st_data s) (nsKey (fst n)) \<noteq> None"
proof
  show "store_ok NewInMemoryStore" by (simp add: store_ok_def NewInMemoryStore_def st_value_def)
  show "store_view NewInMemoryStore = abs_empty"
    by (simp add: store_view_def NewInMemoryStore_def st_value_def abs_empty_def cong: if_cong)
  show "Store_Get now s (fst n) (snd n) = Inr (abs_get now (store_view s) n)"
    if "store_ok s" "clean n" for s n now
    using that st_lookup_view [OF that] by (simp add: Store_Get_def ifOpen_def store_ok_def)
  show "\<exists>s'. Store_Put s (fst n) (snd n) v = Inr s' \<and> store_ok s' \<and> store_view s' = abs_put n (copyValue v) (store_view s)"
    if "store_ok s" "clean n" for s n v
    using that(1) view_write [OF that(2), of v s] ok_write [OF that(1), of "fst n" "snd n" v]
    by (simp add: Store_Put_def ifOpen_def store_ok_def [of s])
  show "\<exists>s'. PutItem now s (fst n) (snd n) v NoIndex ttl = Inr s' \<and> store_ok s' \<and>
      store_view s' = (case ttl of None \<Rightarrow> abs_put n (copyValue v) (store_view s)
        | Some d \<Rightarrow> abs_expire n (now + d) (abs_put n (copyValue v) (store_view s)))"
    if "store_ok s" "clean n" for s n now v ttl
  proof -
    have "store_view (with_ttl now (nsKey (fst n)) (snd n) ttl (st_write (fst n) (snd n) v s)) =
        (case ttl of None \<Rightarrow> abs_put n (copyValue v) (store_view s)
         | Some d \<Rightarrow> abs_expire n (now + d) (abs_put n (copyValue v) (store_view s)))"
      using view_ttl [OF that(2)] view_write [OF that(2)] by (cases ttl) simp_all
    with that ok_ttl [OF ok_write [OF that(1)]] show ?thesis by (simp add: PutItem_def ifOpen_def store_ok_def [of s])
  qed
  show "\<exists>s'. SetTTL now s (fst n) (snd n) d = Inr s' \<and> store_ok s' \<and>
      store_view s' = (if d \<le> 0 then store_view s else abs_expire n (now + d) (store_view s))"
    if "store_ok s" "clean n" for s n now d
    using that view_ttl [OF that(2)] ok_ttl [OF that(1)] by (simp add: SetTTL_def ifOpen_def store_ok_def [of s])
  show "mget (st_data s) (nsKey (fst n)) \<noteq> None" if "clean n" "ab_value (store_view s) n \<noteq> None" for s n
    using that by (auto simp: store_view_def st_value_def split: bind_splits)
qed (use Store_Delete_spec sweep_spec in \<open>blast\<close>)+

end
