(* ===== verification/Store_Properties.thy ===== *)
theory Store_Properties
  imports Store_Spec Sample_Lib
begin

text \<open>
  Properties of the in-memory store: it refines the abstract store, what becomes of expired entries, what a
  search returns, and when a batch returns.
\<close>

section \<open>Refinement\<close>

fun store_perform :: "kv_op \<Rightarrow> InMemoryStore \<Rightarrow> InMemoryStore res" where
  "store_perform (KPut n v) s = Store_Put s (fst n) (snd n) v"
| "store_perform (KPutItem now n v ttl) s = PutItem now s (fst n) (snd n) v NoIndex ttl"
| "store_perform (KSetTTL now n d) s = SetTTL now s (fst n) (snd n) d"
| "store_perform (KDelete n) s = Store_Delete s (fst n) (snd n)"
| "store_perform (KTick now) s = Inr (sweep now s)"

fun store_run :: "kv_op list \<Rightarrow> InMemoryStore \<Rightarrow> InMemoryStore res" where
  "store_run [] s = Inr s"
| "store_run (p # ps) s = (case store_perform p s of Inl e \<Rightarrow> Inl e | Inr s' \<Rightarrow> store_run ps s')"

lemma store_run_mem: "store_run ps s = mem.run ps s"
proof -
  have "store_perform p s = mem.perform p s" for p s by (cases p) simp_all
  then show ?thesis by (induction ps arbitrary: s) (auto split: sum.splits)
qed

text \<open>C5: On clean names the in-memory store is a map with deadlines. A name is clean when its namespace is not empty, no part of the
  namespace has one of the separators (the bar and the colon), and the key has no colon. Starting empty, any sequence of puts,
  deletes and deadline changes on clean names, and of sweeps, succeeds, and then every read of a clean name at every time
  returns what the abstract store holds: the last value put under that name and not deleted or swept, unless
  its deadline has passed. Clean names do not interfere with each other. Keys with a colon behave differently: the sweep does
  not remove their expired entries (theorem expired_entries).\<close>

theorem store_refines_map:
  assumes "list_all clean_op ps"
  shows "\<exists>s a. store_run ps NewInMemoryStore = Inr s \<and> abs_run copyValue ps abs_empty a \<and>
    (\<forall>now n. clean n \<longrightarrow> Store_Get now s (fst n) (snd n) = Inr (abs_get now a n))"
proof -
  from mem.run_refines [OF mem.new_ok assms] obtain s where
    s: "mem.run ps NewInMemoryStore = Inr s" "store_ok s" "abs_run copyValue ps abs_empty (store_view s)"
    by (auto simp: mem.new_view)
  with mem.get_spec [OF s(2)] show ?thesis by (auto simp: store_run_mem)
qed

definition sample_name :: name where
  "sample_name = ([''users''], ''x'')"

lemma sample_name_clean: "clean sample_name"
  by (simp add: clean_def sample_name_def)

theorem store_refines_map_witness:
  "\<exists>s. store_run [KPutItem 0 sample_name [(''a'', GNil)] (Some 5), KTick 9, KPut sample_name [(''b'', GNil)]]
      NewInMemoryStore = Inr s \<and>
    Store_Get 20 s [''users''] ''x'' = Inr (Some [(''b'', GNil)])"
proof -
  let ?ps = "[KPutItem 0 sample_name [(''a'', GNil)] (Some 5), KTick 9, KPut sample_name [(''b'', GNil)]]"
  have "list_all clean_op ?ps" using sample_name_clean by (simp add: clean_op_def)
  from store_refines_map [OF this] obtain s a where s: "store_run ?ps NewInMemoryStore = Inr s"
    and a: "abs_run copyValue ?ps abs_empty a"
    and get: "Store_Get 20 s (fst sample_name) (snd sample_name) = Inr (abs_get 20 a sample_name)"
    using sample_name_clean by blast
  from a have "abs_get 20 a sample_name = Some [(''b'', GNil)]"
    by (auto simp: abs_defs copyValue_def mcopy_def elim!: abs_run.cases)
  with s get show ?thesis by (auto simp: sample_name_def)
qed

section \<open>Expired entries\<close>

lemma sweep_keeps_colon_keys:
  assumes "CHR '':'' \<in> set key"
  shows "st_value (sweep now s) ns key = st_value s ns key"
proof -
  have entry: "st_value (sweep_entry now (fk, e) t) ns key = st_value t ns key" for fk e t
  proof (cases "\<exists>n. clean n \<and> fk = fullKey (nsKey (fst n)) (snd n)")
    case True
    then obtain n where n: "clean n" "fk = fullKey (nsKey (fst n)) (snd n)" by blast
    with assms have "key \<noteq> snd n" by (auto simp: clean_def)
    with drop_entry_value [OF n(1), of t ns key] n(2) show ?thesis by simp
  next
    case False
    with drop_entry_other [of fk "st_data t"] show ?thesis by (simp add: st_value_def)
  qed
  have "st_value (fold (sweep_entry now) es t) ns key = st_value t ns key" for es t
    by (induction es arbitrary: t) (auto simp: entry simp del: sweep_entry.simps)
  then show ?thesis by (simp add: sweep_def)
qed

lemma sweep_forgets_deadline:
  assumes "store_ok s" and "mget (st_ttl s) fk = Some d" and "d < now"
  shows "mget (st_ttl (sweep now s)) fk = None"
  using fold_sweep [OF assms(1), of now "st_ttl s"] map_of_SomeD [OF assms(2)] assms(3)
  unfolding sweep_def by auto

text \<open>Deadlines survive puts, and sweeps miss keys with a colon. Putting a value under a name whose deadline
  is set reports success, but the value is invisible from the old deadline on and the next sweep deletes
  it. An entry whose key contains a colon is invisible once its deadline has passed, but the sweep
  removes only the deadline, so the expired entry can be read again forever.\<close>

theorem expired_entries:
  assumes "store_ok s"
  shows "(clean n \<and> mget (st_ttl s) (fullKey (nsKey (fst n)) (snd n)) = Some d \<longrightarrow>
      (\<exists>s'. Store_Put s (fst n) (snd n) v = Inr s' \<and>
        (\<forall>now. Store_Get now s' (fst n) (snd n) = Inr (if now < d then Some (copyValue v) else None)) \<and>
        (\<forall>t now. d < t \<longrightarrow> Store_Get now (sweep t s') (fst n) (snd n) = Inr None))) \<and>
    (CHR '':'' \<in> set key \<and> t0 + ttl < t \<longrightarrow>
      (\<exists>s'. PutItem t0 s ns key v NoIndex (Some ttl) = Inr s' \<and> Store_Get t s' ns key = Inr None \<and>
        (\<forall>now. Store_Get now (sweep t s') ns key = Inr (Some (copyValue v)))))"
proof (intro conjI impI; elim conjE)
  assume n: "clean n" and d: "mget (st_ttl s) (fullKey (nsKey (fst n)) (snd n)) = Some d"
  from mem.put_spec [OF assms n, of v] obtain s' where s': "Store_Put s (fst n) (snd n) v = Inr s'" "store_ok s'"
    "store_view s' = abs_put n (copyValue v) (store_view s)" by blast
  have dl: "ab_deadline (store_view s) n = Some d" using n d by (simp add: store_view_def)
  have "Store_Get now s' (fst n) (snd n) = Inr (if now < d then Some (copyValue v) else None)" for now
    using mem.get_spec [OF s'(2) n, of now] s'(3) dl by (simp add: abs_defs)
  moreover have "Store_Get now (sweep t s') (fst n) (snd n) = Inr None" if "d < t" for t now
    using mem.get_spec [of "sweep t s'" n now] sweep_spec [OF s'(2), of t] n s'(3) dl that by (simp add: abs_defs)
  ultimately show "\<exists>s'. Store_Put s (fst n) (snd n) v = Inr s' \<and>
        (\<forall>now. Store_Get now s' (fst n) (snd n) = Inr (if now < d then Some (copyValue v) else None)) \<and>
        (\<forall>t now. d < t \<longrightarrow> Store_Get now (sweep t s') (fst n) (snd n) = Inr None)"
    using s'(1) by blast
next
  assume key: "CHR '':'' \<in> set key" and t: "t0 + ttl < t"
  let ?s = "with_ttl t0 (nsKey ns) key (Some ttl) (st_write ns key v s)"
  have ok: "store_ok ?s" using assms by (intro ok_ttl ok_write)
  have ttl: "mget (st_ttl ?s) (fullKey (nsKey ns) key) = Some (t0 + ttl)" by (simp add: gomap)
  have "PutItem t0 s ns key v NoIndex (Some ttl) = Inr ?s"
    using assms by (simp add: PutItem_def ifOpen_def store_ok_def index_value_def)
  moreover have "Store_Get t ?s ns key = Inr None"
    using ok ttl t by (simp add: Store_Get_def ifOpen_def store_ok_def st_lookup_value checkTTL_def)
  moreover have "Store_Get now (sweep t ?s) ns key = Inr (Some (copyValue v))" for now
    using sweep_spec [OF ok, of t] sweep_keeps_colon_keys [OF key, of t ?s "nsKey ns"]
      sweep_forgets_deadline [OF ok ttl t]
    by (simp add: Store_Get_def ifOpen_def store_ok_def st_lookup_value checkTTL_def)
  ultimately show "\<exists>s'. PutItem t0 s ns key v NoIndex (Some ttl) = Inr s' \<and> Store_Get t s' ns key = Inr None \<and>
        (\<forall>now. Store_Get now (sweep t s') ns key = Inr (Some (copyValue v)))"
    by blast
qed

theorem expired_entries_witness:
  "\<exists>s'. PutItem 0 NewInMemoryStore [''users''] ''a:b'' [(''x'', GNil)] NoIndex (Some 5) = Inr s' \<and>
     Store_Get 9 s' [''users''] ''a:b'' = Inr None \<and> Store_Get 9 (sweep 9 s') [''users''] ''a:b'' = Inr (Some [(''x'', GNil)])"
  using expired_entries [OF mem.new_ok, of sample_name 0 "[(''x'', GNil)]" "''a:b''" 0 5 9 "[''users'']"]
  by (auto simp: copyValue_def mcopy_def)

section \<open>Searches\<close>

lemma collect_matching_filter:
  assumes "\<forall>x \<in> set xs. \<exists>b. p x = Inr b" and "limit \<le> 0 \<or> int (length acc) < limit"
  shows "collect_matching p limit xs acc =
    Inr (let ys = acc @ filter (\<lambda>x. p x = Inr True) xs in if limit > 0 then take (nat limit) ys else ys)"
  using assms
proof (induction xs arbitrary: acc)
  case Nil
  then show ?case by auto
next
  case (Cons x xs)
  then obtain b where b: "p x = Inr b" by auto
  show ?case
  proof (cases b)
    case False
    with Cons b show ?thesis by simp
  next
    case True
    show ?thesis
    proof (cases "limit > 0 \<and> int (length acc) + 1 \<ge> limit")
      case full: True
      with Cons.prems have "nat limit = Suc (length acc)" by linarith
      with full True b show ?thesis by (simp add: Let_def)
    next
      case more: False
      with Cons.prems have "limit \<le> 0 \<or> int (length (acc @ [x])) < limit" by auto
      with Cons.IH [of "acc @ [x]"] Cons.prems more True b show ?thesis by (auto simp: Let_def)
    qed
  qed
qed

definition live_matches :: "golib \<Rightarrow> int \<Rightarrow> InMemoryStore \<Rightarrow> string list \<Rightarrow> string option \<Rightarrow> gval gomap option \<Rightarrow> string list" where
  "live_matches L now s ns query flt =
     map fst (filter (\<lambda>kv. entry_matches L now s (nsKey ns) query flt kv = Inr True) (mget_or [] (st_data s) (nsKey ns)))"

text \<open>A filtered search returns, in the order of the map, the live entries that match the query and the
  filter, cut to the limit first and then, if the offset is smaller than what is left, without the
  first entries: so a page never exceeds the limit, and an offset that is not smaller than the limit
  returns the first page again.\<close>

theorem search_items_page:
  assumes "\<not> st_closed s" and "Option.bind (Option.bind flt (\<lambda>f. mget f ''$embedding'')) as_vector = None"
    and "\<forall>kv \<in> set (mget_or [] (st_data s) (nsKey ns)). \<exists>b. entry_matches L now s (nsKey ns) query flt kv = Inr b"
    and "0 < limit"
  shows "\<exists>items. SearchItems L now s ns query flt limit offset = Inr items \<and> int (length items) \<le> limit \<and>
    map (\<lambda>i. ItKey (SiItem i)) items =
      (let page = take (nat limit) (live_matches L now s ns query flt)
       in if 0 < offset \<and> offset < int (length page) then drop (nat offset) page else page) \<and>
    (limit \<le> offset \<longrightarrow> SearchItems L now s ns query flt limit offset = SearchItems L now s ns query flt limit 0)"
proof (cases "mget (st_data s) (nsKey ns)")
  case None
  with assms show ?thesis by (auto simp: SearchItems_def ifOpen_def live_matches_def mget_or_def)
next
  case (Some d)
  let ?m = "filter (\<lambda>kv. entry_matches L now s (nsKey ns) query flt kv = Inr True) d"
  let ?item = "\<lambda>(key, value). \<lparr>SiItem = st_item now s (nsKey ns) ns key value, SiScore = None\<rparr>"
  have eq: "SearchItems L now s ns query flt limit off = Inr (apply_offset off (map ?item (take (nat limit) ?m)))" for off
    using assms Some collect_matching_filter [of d "entry_matches L now s (nsKey ns) query flt" limit "[]"]
    by (simp add: SearchItems_def ifOpen_def mget_or_def Let_def)
  have lm: "live_matches L now s ns query flt = map fst ?m" by (simp add: live_matches_def mget_or_def Some)
  have key: "ItKey (SiItem (?item kv)) = fst kv" for kv by (cases kv) (simp add: st_item_def)
  then have keys: "map (\<lambda>i. ItKey (SiItem i)) (map ?item kvs) = map fst kvs" for kvs by simp
  have len: "int (length (map ?item (take (nat limit) ?m))) \<le> limit" using assms(4) by simp
  show ?thesis
    using eq [of offset] eq [of 0] len assms(4) keys
    by (auto simp: apply_offset_def lm Let_def take_map drop_map simp flip: map_map)
qed

definition sample_store :: InMemoryStore where
  "sample_store = NewInMemoryStore\<lparr>st_data := [(''users'', [(''k1'', [(''age'', GInt 3)]), (''k2'', [(''age'', GInt 4)]),
     (''k3'', [(''age'', GInt 9)]), (''k4'', [(''age'', GInt 7)])])]\<rparr>"

theorem search_items_page_witness:
  "\<exists>items. SearchItems sample_lib 0 sample_store [''users''] None (Some [(''age'', GMap [(''$gt'', GInt 3)])]) 2 1 = Inr items \<and>
     map (\<lambda>i. ItKey (SiItem i)) items = [''k3'']"
proof -
  let ?flt = "Some [(''age'', GMap [(''$gt'', GInt 3)])]"
  note defs = entry_matches_def matchFilter_def match_field_def compare_def greaterThan_def checkTTL_def
    sample_store_def NewInMemoryStore_def nsKey_def mget_or_def
  have "\<not> st_closed sample_store" "Option.bind (Option.bind ?flt (\<lambda>f. mget f ''$embedding'')) as_vector = None"
    by (simp_all add: sample_store_def NewInMemoryStore_def)
  moreover have "\<forall>kv \<in> set (mget_or [] (st_data sample_store) (nsKey [''users''])).
      \<exists>b. entry_matches sample_lib 0 sample_store (nsKey [''users'']) None ?flt kv = Inr b"
    by (auto simp: defs)
  moreover have "live_matches sample_lib 0 sample_store [''users''] None ?flt = [''k2'', ''k3'', ''k4'']"
    by (simp add: live_matches_def defs)
  ultimately show ?thesis
    using search_items_page [of sample_store ?flt "[''users'']" sample_lib 0 None 2 1] by (auto simp: Let_def)
qed

section \<open>Batches\<close>

text \<open>The same operations, one call each.\<close>

fun one_by_one :: "int \<Rightarrow> InMemoryStore \<Rightarrow> store_op list \<Rightarrow> InMemoryStore \<times> Result list" where
  "one_by_one now s [] = (s, [])"
| "one_by_one now s (GetOp ns key refresh # ops) =
     (case one_by_one now s ops of (s', rs) \<Rightarrow>
        (s', ok_result (case Store_Get now s ns key of Inr (Some v) \<Rightarrow> OneValue v | _ \<Rightarrow> NoValue) # rs))"
| "one_by_one now s (PutOp ns key value index ttl # ops) =
     (case one_by_one now (case PutItem now s ns key value NoIndex ttl of Inr s1 \<Rightarrow> s1 | Inl e \<Rightarrow> s) ops of
        (s', rs) \<Rightarrow> (s', ok_result NoValue # rs))"
| "one_by_one now s (op # ops) = one_by_one now s ops"

definition get_or_put :: "store_op \<Rightarrow> bool" where
  "get_or_put op = (case op of GetOp ns key r \<Rightarrow> True | PutOp ns key v i ttl \<Rightarrow> True | _ \<Rightarrow> False)"

lemma batch_loop_one_by_one:
  assumes "list_all get_or_put ops" and "\<not> st_closed s"
  shows "batch_loop L now s (ops @ rest) acc =
    (case one_by_one now s ops of (s', rs) \<Rightarrow> batch_loop L now s' rest (acc @ rs))"
  using assms
proof (induction ops arbitrary: s acc)
  case Nil
  then show ?case by simp
next
  case (Cons op ops)
  show ?case
  proof (cases op)
    case (GetOp ns key r)
    with Cons show ?thesis
      by (auto simp: Store_Get_def ifOpen_def split: prod.splits option.splits)
  next
    case (PutOp ns key v i ttl)
    have "PutItem now s ns key v NoIndex ttl = Inr (with_ttl now (nsKey ns) key ttl (st_write ns key v s))"
      using Cons.prems by (simp add: PutItem_def ifOpen_def index_value_def)
    with PutOp Cons.IH [of "with_ttl now (nsKey ns) key ttl (st_write ns key v s)"] Cons.prems
    show ?thesis by (auto split: prod.splits)
  qed (use Cons.prems in \<open>simp_all add: get_or_put_def\<close>)
qed

text \<open>A batch of gets and puts on an open store returns the results and leaves the store of the single
  operations performed one after the other at the same time, the index argument of the puts apart;
  but as soon as it gets to a request to list namespaces it never returns, since that operation
  waits for the lock the batch holds. On a closed store every batch fails at once.\<close>

theorem batch_outcome:
  assumes "list_all get_or_put ops"
  shows "(\<not> st_closed s \<longrightarrow> Batch L now s ops = Some (map_prod id Inr (one_by_one now s ops)) \<and>
      Batch L now s (ops @ ListNamespacesOp conds depth limit offset # rest) = None) \<and>
    (st_closed s \<longrightarrow> Batch L now s anyOps = Some (s, Inl (StoreError ''store is closed'')))"
  using batch_loop_one_by_one [OF assms, of s L now "[]" "[]"]
    batch_loop_one_by_one [OF assms, of s L now "ListNamespacesOp conds depth limit offset # rest" "[]"]
  by (auto simp: Batch_def split: prod.splits)

theorem batch_outcome_witness:
  "Batch sample_lib 0 NewInMemoryStore [PutOp [''u''] ''k'' [(''a'', GNil)] NoIndex None, GetOp [''u''] ''k'' False] =
     Some (map_prod id Inr (one_by_one 0 NewInMemoryStore
       [PutOp [''u''] ''k'' [(''a'', GNil)] NoIndex None, GetOp [''u''] ''k'' False])) \<and>
   snd (one_by_one 0 NewInMemoryStore [PutOp [''u''] ''k'' [(''a'', GNil)] NoIndex None, GetOp [''u''] ''k'' False]) =
     [ok_result NoValue, ok_result (OneValue [(''a'', GNil)])]"
proof -
  have "snd (one_by_one 0 NewInMemoryStore [PutOp [''u''] ''k'' [(''a'', GNil)] NoIndex None, GetOp [''u''] ''k'' False]) =
      [ok_result NoValue, ok_result (OneValue [(''a'', GNil)])]"
    by (simp add: PutItem_def ifOpen_def NewInMemoryStore_def index_value_def with_ttl_def st_write_def
      Store_Get_def st_lookup_def nsKey_def checkTTL_def copyValue_def mcopy_def)
  then show ?thesis
    using batch_outcome [of "[PutOp [''u''] ''k'' [(''a'', GNil)] NoIndex None, GetOp [''u''] ''k'' False]" NewInMemoryStore]
    by (simp add: get_or_put_def NewInMemoryStore_def del: one_by_one.simps)
qed

end
