(* ===== verification/Priority_Queue.thy ===== *)
theory Priority_Queue
  imports Graph_Errors
begin

text \<open>
  The binary heap of background tasks (\<open>PriorityQueue\<close> in \<open>pregel/background.go\<close>). The loops of \<open>heapifyUp\<close> and
  \<open>heapifyDown\<close> are functions on the task list and an index, total because the index moves towards the
  root or towards the leaves. The locale \<open>max_queue\<close> is what a client of a priority queue relies on; its
  lemma on draining a queue is what the heap is for.
\<close>

section \<open>The queue\<close>

record BackgroundTask =
  BtID :: string
  BtName :: string
  BtPriority :: int
  BtCreated :: int

record PriorityQueue =
  pq_tasks :: "BackgroundTask list"

definition NewPriorityQueue :: PriorityQueue where
  "NewPriorityQueue = \<lparr>pq_tasks = []\<rparr>"

definition swap_at :: "nat \<Rightarrow> nat \<Rightarrow> 'a list \<Rightarrow> 'a list" where
  "swap_at i j xs = xs[i := xs ! j, j := xs ! i]"

fun heapifyUp :: "BackgroundTask list \<Rightarrow> nat \<Rightarrow> BackgroundTask list" where
  "heapifyUp tasks index =
     (if index > 0
      then let parent = (index - 1) div 2
           in if BtPriority (tasks ! parent) \<ge> BtPriority (tasks ! index) then tasks
              else heapifyUp (swap_at parent index tasks) parent
      else tasks)"

declare heapifyUp.simps [simp del]

definition larger_child :: "BackgroundTask list \<Rightarrow> nat \<Rightarrow> nat" where
  "larger_child tasks index =
     (let n = length tasks; left = 2 * index + 1; right = 2 * index + 2;
          l1 = (if left < n \<and> BtPriority (tasks ! left) > BtPriority (tasks ! index) then left else index)
      in if right < n \<and> BtPriority (tasks ! right) > BtPriority (tasks ! l1) then right else l1)"

lemma larger_child_cases:
  "larger_child tasks k = k \<or> (larger_child tasks k < length tasks \<and> k < larger_child tasks k)"
  by (auto simp: larger_child_def Let_def)

function heapifyDown :: "BackgroundTask list \<Rightarrow> nat \<Rightarrow> BackgroundTask list" where
  "heapifyDown tasks index =
     (let largest = larger_child tasks index
      in if largest = index then tasks else heapifyDown (swap_at index largest tasks) largest)"
  by pat_completeness auto
termination
proof (relation "measure (\<lambda>(tasks, index). length tasks - index)")
  fix tasks index largest
  assume "largest = larger_child tasks index" and "largest \<noteq> index"
  with larger_child_cases [of tasks index]
  show "((swap_at index largest tasks, largest), tasks, index) \<in> measure (\<lambda>(tasks, index). length tasks - index)"
    by (auto simp: swap_at_def)
qed simp

declare heapifyDown.simps [simp del]

definition pq_Push :: "BackgroundTask \<Rightarrow> PriorityQueue \<Rightarrow> PriorityQueue" where
  "pq_Push task pq = pq\<lparr>pq_tasks := heapifyUp (pq_tasks pq @ [task]) (length (pq_tasks pq))\<rparr>"

definition pq_Pop :: "PriorityQueue \<Rightarrow> (BackgroundTask \<times> PriorityQueue) option" where
  "pq_Pop pq =
     (let tasks = pq_tasks pq
      in if tasks = [] then None
         else let rest = take (length tasks - 1) (tasks[0 := tasks ! (length tasks - 1)])
              in Some (tasks ! 0, pq\<lparr>pq_tasks := (if rest = [] then rest else heapifyDown rest 0)\<rparr>))"

definition pq_Len :: "PriorityQueue \<Rightarrow> nat" where
  "pq_Len pq = length (pq_tasks pq)"

section \<open>The heap invariant\<close>

abbreviation parent :: "nat \<Rightarrow> nat" where
  "parent i \<equiv> (i - 1) div 2"

abbreviation prio :: "BackgroundTask list \<Rightarrow> nat \<Rightarrow> int" where
  "prio xs i \<equiv> BtPriority (xs ! i)"

definition heap :: "BackgroundTask list \<Rightarrow> bool" where
  "heap xs \<longleftrightarrow> (\<forall>i < length xs. 0 < i \<longrightarrow> prio xs i \<le> prio xs (parent i))"

text \<open>A heap but for one place, which may be larger than its parent, or smaller than its children.\<close>

definition heap_but_above :: "nat \<Rightarrow> BackgroundTask list \<Rightarrow> bool" where
  "heap_but_above k xs \<longleftrightarrow>
     (\<forall>i < length xs. 0 < i \<longrightarrow> i \<noteq> k \<longrightarrow> prio xs i \<le> prio xs (parent i)) \<and>
     (\<forall>i < length xs. 0 < i \<longrightarrow> parent i = k \<longrightarrow> 0 < k \<longrightarrow> prio xs i \<le> prio xs (parent k))"

definition heap_but_below :: "nat \<Rightarrow> BackgroundTask list \<Rightarrow> bool" where
  "heap_but_below k xs \<longleftrightarrow>
     (\<forall>i < length xs. 0 < i \<longrightarrow> parent i \<noteq> k \<longrightarrow> prio xs i \<le> prio xs (parent i)) \<and>
     (\<forall>i < length xs. 0 < i \<longrightarrow> parent i = k \<longrightarrow> 0 < k \<longrightarrow> prio xs i \<le> prio xs (parent k))"

lemma swap_at_simps [simp]:
  "length (swap_at i j xs) = length xs"
  "i < length xs \<Longrightarrow> j < length xs \<Longrightarrow> swap_at i j xs ! m = (if m = j then xs ! i else if m = i then xs ! j else xs ! m)"
  "i < length xs \<Longrightarrow> j < length xs \<Longrightarrow> mset (swap_at i j xs) = mset xs"
  by (auto simp: swap_at_def nth_list_update mset_swap)

lemma parent_less: "0 < i \<Longrightarrow> parent i < i"
  by linarith

lemma parent_iff: "0 < i \<Longrightarrow> parent i = k \<longleftrightarrow> i = 2 * k + 1 \<or> i = 2 * k + 2"
  by linarith

lemma up_step:
  assumes h: "heap_but_above k xs" and k: "k < length xs" "0 < k" and lt: "prio xs (parent k) < prio xs k"
  shows "heap_but_above (parent k) (swap_at (parent k) k xs)"
proof -
  let ?p = "parent k" and ?ys = "swap_at (parent k) k xs"
  have p: "?p < k" "?p < length xs" using k by (auto simp: parent_less)
  have above: "prio xs i \<le> prio xs (parent i)" if "i < length xs" "0 < i" "i \<noteq> k" for i
    using h that by (auto simp: heap_but_above_def)
  have child: "prio xs i \<le> prio xs ?p" if "i < length xs" "0 < i" "parent i = k" for i
    using h k(2) that by (auto simp: heap_but_above_def)
  have 1: "prio ?ys i \<le> prio ?ys (parent i)" if i: "i < length xs" "0 < i" "i \<noteq> ?p" for i
  proof (cases "i = k")
    case True
    with lt p k show ?thesis by simp
  next
    case False
    note above [OF i(1,2) False]
    moreover have "prio xs i \<le> prio xs ?p" if "parent i = k" using child [OF i(1,2) that] .
    ultimately show ?thesis using False i p k lt by auto
  qed
  have 2: "prio ?ys i \<le> prio ?ys (parent ?p)" if i: "i < length xs" "0 < i" "parent i = ?p" "0 < ?p" for i
  proof -
    have "parent ?p < ?p" using i(4) by (rule parent_less)
    then have "?ys ! parent ?p = xs ! parent ?p" using p k by simp
    moreover have "?ys ! i = (if i = k then xs ! ?p else xs ! i)"
      using p k parent_less [OF i(2)] i(3) by auto
    moreover have "prio xs ?p \<le> prio xs (parent ?p)" using above [of ?p] p i(4) by simp
    moreover have "prio xs i \<le> prio xs ?p" if "i \<noteq> k" using above [OF i(1,2) that] i(3) by simp
    ultimately show ?thesis by (cases "i = k") auto
  qed
  from 1 2 show ?thesis by (simp add: heap_but_above_def)
qed

lemma heapifyUp_heap:
  assumes "heap_but_above k xs" and "k < length xs"
  shows "heap (heapifyUp xs k) \<and> mset (heapifyUp xs k) = mset xs"
  using assms
proof (induction xs k rule: heapifyUp.induct)
  case (1 xs k)
  consider "k = 0" | "0 < k" "prio xs k \<le> prio xs (parent k)" | "0 < k" "prio xs (parent k) < prio xs k" by linarith
  then show ?case
  proof cases
    case 1
    with "1.prems" show ?thesis by (auto simp: heapifyUp.simps [of xs 0] heap_def heap_but_above_def)
  next
    case 2
    with "1.prems" show ?thesis by (auto simp: heapifyUp.simps [of xs k] heap_def heap_but_above_def Let_def)
  next
    case 3
    have p: "parent k < length (swap_at (parent k) k xs)" using parent_less [OF 3(1)] "1.prems"(2) by simp
    have eq: "heapifyUp xs k = heapifyUp (swap_at (parent k) k xs) (parent k)"
      using 3 by (subst heapifyUp.simps) (simp add: Let_def)
    from "1.IH" [OF 3(1) refl] 3 up_step [OF "1.prems"(1,2) 3] p "1.prems"(2) show ?thesis by (simp add: eq)
  qed
qed

lemma down_step:
  assumes h: "heap_but_below k xs" and k: "k < length xs" and m: "larger_child xs k = m" "m \<noteq> k"
  shows "heap_but_below m (swap_at k m xs)" and "m < length xs"
proof -
  let ?ys = "swap_at k m xs"
  have ml: "m < length xs" and mk: "k < m" using larger_child_cases [of xs k] m by auto
  have pm: "parent m = k" "0 < m" using m by (auto simp: larger_child_def Let_def split: if_splits)
  have big: "prio xs k < prio xs m" using m by (auto simp: larger_child_def Let_def split: if_splits)
  have best: "prio xs i \<le> prio xs m" if "i < length xs" "0 < i" "parent i = k" for i
  proof -
    have "i = 2 * k + 1 \<or> i = 2 * k + 2" using that parent_iff [of i k] by simp
    with that m show ?thesis by (auto simp: larger_child_def Let_def split: if_splits)
  qed
  have below: "prio xs i \<le> prio xs (parent i)" if "i < length xs" "0 < i" "parent i \<noteq> k" for i
    using h that by (auto simp: heap_but_below_def)
  have 1: "prio ?ys i \<le> prio ?ys (parent i)" if i: "i < length xs" "0 < i" "parent i \<noteq> m" for i
  proof (cases "parent i = k")
    case True
    then have "i \<noteq> k" using parent_less [OF i(2)] by auto
    with True best [OF i(1,2)] big i k ml mk show ?thesis by auto
  next
    case False
    then have "i \<noteq> m" using pm by auto
    moreover have "prio xs m \<le> prio xs (parent k)" if "i = k"
      using h that i(2) ml pm by (auto simp: heap_but_below_def)
    ultimately show ?thesis using False below [OF i(1,2) False] i k ml by auto
  qed
  have 2: "prio ?ys i \<le> prio ?ys (parent m)" if i: "i < length xs" "0 < i" "parent i = m" for i
  proof -
    have "i \<noteq> m" "i \<noteq> k" using i parent_less [of i] mk by auto
    moreover have "prio xs i \<le> prio xs m" using below [OF i(1,2)] i(3) m(2) by simp
    ultimately show ?thesis using pm k ml mk by auto
  qed
  from 1 2 show "heap_but_below m ?ys" by (simp add: heap_but_below_def)
  show "m < length xs" by (rule ml)
qed

lemma larger_child_self:
  assumes "larger_child xs k = k" and "i < length xs" and "0 < i" and "parent i = k"
  shows "prio xs i \<le> prio xs k"
proof -
  have "i = 2 * k + 1 \<or> i = 2 * k + 2" using assms parent_iff [of i k] by simp
  with assms(1,2) show ?thesis by (auto simp: larger_child_def Let_def split: if_splits)
qed

lemma heapifyDown_heap:
  assumes "heap_but_below k xs" and "k < length xs"
  shows "heap (heapifyDown xs k) \<and> mset (heapifyDown xs k) = mset xs"
  using assms
proof (induction xs k rule: heapifyDown.induct)
  case (1 xs k)
  show ?case
  proof (cases "larger_child xs k = k")
    case True
    then have "heapifyDown xs k = xs" by (subst heapifyDown.simps) (simp add: Let_def)
    with "1.prems" larger_child_self [OF True] show ?thesis by (force simp: heap_def heap_but_below_def)
  next
    case False
    then have eq: "heapifyDown xs k = heapifyDown (swap_at k (larger_child xs k) xs) (larger_child xs k)"
      by (subst heapifyDown.simps) (simp add: Let_def)
    from "1.IH" [OF refl False] down_step [OF "1.prems" refl False] "1.prems"(2) show ?thesis by (simp add: eq)
  qed
qed

lemma heap_root_max: "heap xs \<Longrightarrow> i < length xs \<Longrightarrow> prio xs i \<le> prio xs 0"
proof (induction i rule: less_induct)
  case (less i)
  show ?case
  proof (cases "i = 0")
    case False
    then have "parent i < i" by (simp add: parent_less)
    with less False have "prio xs (parent i) \<le> prio xs 0" by simp
    moreover have "prio xs i \<le> prio xs (parent i)" using less.prems False by (auto simp: heap_def)
    ultimately show ?thesis by simp
  qed simp
qed

lemma Push_heap:
  assumes "heap (pq_tasks pq)"
  shows "heap (pq_tasks (pq_Push t pq)) \<and> mset (pq_tasks (pq_Push t pq)) = add_mset t (mset (pq_tasks pq))"
proof -
  let ?xs = "pq_tasks pq"
  have "prio (?xs @ [t]) i \<le> prio (?xs @ [t]) (parent i)" if "i < length ?xs" "0 < i" for i
  proof -
    have "parent i < length ?xs" using that parent_less [OF that(2)] by linarith
    with that assms show ?thesis by (simp add: heap_def nth_append)
  qed
  moreover have "parent i \<noteq> length ?xs" if "i < Suc (length ?xs)" "0 < i" for i
    using that parent_less [OF that(2)] by linarith
  ultimately have "heap_but_above (length ?xs) (?xs @ [t])"
    unfolding heap_but_above_def by (metis less_SucE length_append_singleton)
  from heapifyUp_heap [OF this] show ?thesis by (simp add: pq_Push_def)
qed

lemma Pop_heap:
  assumes "heap (pq_tasks pq)" and "pq_tasks pq \<noteq> []"
  shows "\<exists>t pq'. pq_Pop pq = Some (t, pq') \<and> heap (pq_tasks pq') \<and> add_mset t (mset (pq_tasks pq')) = mset (pq_tasks pq) \<and>
    (\<forall>u \<in> set (pq_tasks pq). BtPriority u \<le> BtPriority t)"
proof -
  let ?xs = "pq_tasks pq"
  let ?n = "length ?xs - 1"
  let ?rest = "take ?n (?xs[0 := ?xs ! ?n])"
  obtain t ys where xs: "?xs = t # ys" using assms(2) by (cases ?xs) auto
  have root: "\<forall>u \<in> set ?xs. BtPriority u \<le> BtPriority (?xs ! 0)"
    using heap_root_max [OF assms(1)] by (auto simp: in_set_conv_nth)
  have rest: "?rest = (if ys = [] then [] else last ys # butlast ys)"
    by (auto simp: xs butlast_conv_take last_conv_nth take_Cons' nth_Cons')
  have "mset ?rest = mset ys"
    unfolding rest by (cases ys rule: rev_cases) auto
  moreover have "heap ?rest \<or> heap_but_below 0 ?rest"
  proof -
    have nth: "?rest ! i = ?xs ! i" if "0 < i" "i < ?n" for i using that by simp
    have par0: "0 < parent i" if "parent i \<noteq> 0" for i :: nat using that by simp
    have "prio ?rest i \<le> prio ?rest (parent i)" if i: "i < ?n" "0 < i" "parent i \<noteq> 0" for i
    proof -
      have "parent i < ?n" using i parent_less [OF i(2)] by linarith
      with nth [OF i(2,1)] nth [of "parent i"] i assms(1) show ?thesis by (simp add: heap_def)
    qed
    then show ?thesis by (simp add: heap_but_below_def)
  qed
  moreover have "heap (if ?rest = [] then ?rest else heapifyDown ?rest 0) \<and>
      mset (if ?rest = [] then ?rest else heapifyDown ?rest 0) = mset ?rest"
    if "heap_but_below 0 ?rest"
    using heapifyDown_heap [OF that] by (auto simp: heap_def)
  moreover have "heap_but_below 0 ?rest" if "heap ?rest" using that by (auto simp: heap_def heap_but_below_def)
  ultimately have down: "heap (if ?rest = [] then ?rest else heapifyDown ?rest 0)"
      "mset (if ?rest = [] then ?rest else heapifyDown ?rest 0) = mset ys" by auto
  have "pq_Pop pq = Some (?xs ! 0, pq\<lparr>pq_tasks := (if ?rest = [] then ?rest else heapifyDown ?rest 0)\<rparr>)"
    using assms(2) unfolding pq_Pop_def Let_def by simp
  with down root show ?thesis by (intro exI conjI) (auto simp: xs)
qed

section \<open>The contract of a priority queue\<close>

locale max_queue =
  fixes new :: 'q and push :: "'a \<Rightarrow> 'q \<Rightarrow> 'q" and pop :: "'q \<Rightarrow> ('a \<times> 'q) option"
    and elems :: "'q \<Rightarrow> 'a multiset" and ok :: "'q \<Rightarrow> bool" and rank :: "'a \<Rightarrow> int"
  assumes new_ok: "ok new" and new_elems: "elems new = {#}"
    and push_ok: "ok q \<Longrightarrow> ok (push x q)" and push_elems: "ok q \<Longrightarrow> elems (push x q) = add_mset x (elems q)"
    and pop_none: "ok q \<Longrightarrow> pop q = None \<longleftrightarrow> elems q = {#}"
    and pop_some: "ok q \<Longrightarrow> pop q = Some (x, q') \<Longrightarrow>
      ok q' \<and> elems q = add_mset x (elems q') \<and> (\<forall>y. y \<in># elems q \<longrightarrow> rank y \<le> rank x)"
begin

text \<open>The first elements popped, at most \<open>n\<close> of them.\<close>

fun drain :: "nat \<Rightarrow> 'q \<Rightarrow> 'a list" where
  "drain 0 q = []"
| "drain (Suc n) q = (case pop q of None \<Rightarrow> [] | Some (x, q') \<Rightarrow> x # drain n q')"

lemma drain_ordered:
  assumes "ok q" and "size (elems q) \<le> n"
  shows "mset (drain n q) = elems q \<and> sorted_wrt (\<lambda>x y. rank y \<le> rank x) (drain n q)"
  using assms
proof (induction n arbitrary: q)
  case 0
  then show ?case by simp
next
  case (Suc n)
  show ?case
  proof (cases "pop q")
    case None
    with pop_none [OF Suc.prems(1)] show ?thesis by simp
  next
    case (Some xq)
    obtain x q' where xq: "pop q = Some (x, q')" using Some by (cases xq) auto
    from pop_some [OF Suc.prems(1) this] have p: "ok q'" "elems q = add_mset x (elems q')"
      "\<forall>y. y \<in># elems q \<longrightarrow> rank y \<le> rank x" by auto
    from Suc.IH [OF p(1)] Suc.prems(2) p(2)
    have IH: "mset (drain n q') = elems q'" "sorted_wrt (\<lambda>x y. rank y \<le> rank x) (drain n q')" by auto
    have "rank y \<le> rank x" if "y \<in> set (drain n q')" for y
    proof -
      have "y \<in># elems q" using that by (simp add: p(2) flip: IH(1))
      with p(3) show ?thesis by blast
    qed
    with xq p(2) IH show ?thesis by simp
  qed
qed

lemma fold_push: "ok q \<Longrightarrow> ok (fold push xs q) \<and> elems (fold push xs q) = mset xs + elems q"
  by (induction xs arbitrary: q) (auto simp: push_ok push_elems)

end

interpretation pq: max_queue NewPriorityQueue pq_Push pq_Pop "\<lambda>q. mset (pq_tasks q)" "\<lambda>q. heap (pq_tasks q)" BtPriority
proof
  show "heap (pq_tasks NewPriorityQueue)" by (simp add: NewPriorityQueue_def heap_def)
  show "mset (pq_tasks NewPriorityQueue) = {#}" by (simp add: NewPriorityQueue_def)
  show "pq_Pop q = None \<longleftrightarrow> mset (pq_tasks q) = {#}" for q by (simp add: pq_Pop_def Let_def)
  show "heap (pq_tasks q') \<and> mset (pq_tasks q) = add_mset x (mset (pq_tasks q')) \<and>
      (\<forall>y. y \<in># mset (pq_tasks q) \<longrightarrow> BtPriority y \<le> BtPriority x)"
    if "heap (pq_tasks q)" "pq_Pop q = Some (x, q')" for q x q'
    using that Pop_heap [OF that(1)] by (cases "pq_tasks q = []") (auto simp: pq_Pop_def)
qed (simp_all add: Push_heap)

section \<open>Properties\<close>

fun pop_all :: "nat \<Rightarrow> PriorityQueue \<Rightarrow> BackgroundTask list" where
  "pop_all 0 pq = []"
| "pop_all (Suc n) pq = (case pq_Pop pq of None \<Rightarrow> [] | Some (t, pq') \<Rightarrow> t # pop_all n pq')"

lemma pop_all_stable: "length (pop_all (Suc n) q) \<le> n \<Longrightarrow> pop_all (Suc n) q = pop_all n q"
proof (induction n arbitrary: q)
  case 0
  then show ?case by simp
next
  case (Suc n)
  show ?case
  proof (cases "pq_Pop q")
    case (Some p)
    obtain x q' where p: "p = (x, q')" by (cases p)
    with Some Suc.prems have "length (pop_all (Suc n) q') \<le> n" by simp
    from Suc.IH [OF this] Some p pop_all.simps(2) [of "Suc n" q] pop_all.simps(2) [of n q]
    show ?thesis by (simp del: pop_all.simps)
  qed simp
qed

text \<open>The heap is a priority queue: pushing any tasks onto a new queue and then popping until it is empty
  gives each task exactly once, in the order of decreasing priority, and one more pop finds nothing.\<close>

theorem priority_queue_sorts:
  "mset (pop_all (length ts) (fold pq_Push ts NewPriorityQueue)) = mset ts \<and>
   sorted_wrt (\<lambda>t u. BtPriority u \<le> BtPriority t) (pop_all (length ts) (fold pq_Push ts NewPriorityQueue)) \<and>
   pop_all (Suc (length ts)) (fold pq_Push ts NewPriorityQueue) = pop_all (length ts) (fold pq_Push ts NewPriorityQueue)"
proof -
  have eq: "pop_all n q = pq.drain n q" for n q
    by (induction n arbitrary: q) (auto split: option.splits)
  note fp = pq.fold_push [OF pq.new_ok, of ts, unfolded pq.new_elems]
  have d: "mset (pop_all n (fold pq_Push ts NewPriorityQueue)) = mset ts" if "length ts \<le> n" for n
    using pq.drain_ordered [of "fold pq_Push ts NewPriorityQueue" n] fp that by (simp add: eq)
  let ?q = "fold pq_Push ts NewPriorityQueue"
  have "length (pop_all (Suc (length ts)) ?q) = length ts"
    by (rule mset_eq_length [OF d [OF le_SucI [OF order_refl]]])
  then have "pop_all (Suc (length ts)) ?q = pop_all (length ts) ?q" by (intro pop_all_stable) (simp only: order_refl)
  moreover have "sorted_wrt (\<lambda>t u. BtPriority u \<le> BtPriority t) (pop_all (length ts) ?q)"
    using pq.drain_ordered [of ?q "length ts"] fp by (simp add: eq)
  ultimately show ?thesis using d [of "length ts"] by blast
qed

end
