(* ===== verification/Worker_Pool.thy ===== *)
theory Worker_Pool
  imports Graph_Errors
begin

text \<open>
  The executor that runs the tasks of a superstep (\<open>AsyncExecutor\<close> in \<open>pregel/async.go\<close>). Goroutines interleave, so the executor is a state machine: each
  event is one atomic action of one goroutine (taking a slot from the channel, the check of the
  context under the lock, the send of the result, the deferred return of the slot, the deferred
  removal from the active tasks) or of a caller, and \<open>ax_do\<close> gives the next state, \<open>None\<close> when the action
  is not enabled. What a task function returns is the parameter \<open>fn\<close>: it may depend on whether the
  task's context is cancelled when the function returns.
\<close>

section \<open>The executor\<close>

type_synonym outcome = "gval \<times> gerr option"

datatype phase =
    Queued                \<comment> \<open>waiting in the \<open>select\<close> for a slot\<close>
  | Acquired              \<comment> \<open>holds a slot, before the check of the context\<close>
  | Executing             \<comment> \<open>runs the function\<close>
  | Releasing outcome     \<comment> \<open>result sent, slot not yet returned\<close>
  | Leaving outcome       \<comment> \<open>result sent, no slot, still registered\<close>
  | Done outcome          \<comment> \<open>removed, result channel closed\<close>

record asyncTask =
  AtName :: string
  AtPhase :: phase
  AtCancelled :: bool

record AsyncExecutor =
  ax_max :: nat
  ax_slots :: nat
  ax_tasks :: "asyncTask gomap"
  ax_active :: "string list"

definition NewAsyncExecutor :: "int \<Rightarrow> AsyncExecutor" where
  "NewAsyncExecutor maxConcurrency =
     (let m = (if maxConcurrency \<le> 0 then 10 else nat maxConcurrency)
      in \<lparr>ax_max = m, ax_slots = m, ax_tasks = [], ax_active = []\<rparr>)"

datatype ax_event =
    Execute string string \<comment> \<open>a new task: fresh identifier and name\<close>
  | Acquire string
  | GiveUp string
  | Check string
  | Complete string
  | Release string
  | Leave string
  | ContextDone string    \<comment> \<open>the caller's context is cancelled\<close>
  | CancelAll

definition ctx_error :: gerr where
  "ctx_error = ContextErr ''context canceled''"

definition set_phase :: "string \<Rightarrow> asyncTask \<Rightarrow> phase \<Rightarrow> AsyncExecutor \<Rightarrow> AsyncExecutor" where
  "set_phase i t p s = s\<lparr>ax_tasks := mput i (t\<lparr>AtPhase := p\<rparr>) (ax_tasks s)\<rparr>"

definition cancel_task :: "asyncTask \<Rightarrow> asyncTask" where
  "cancel_task t = t\<lparr>AtCancelled := True\<rparr>"

fun ax_do :: "(string \<Rightarrow> bool \<Rightarrow> outcome) \<Rightarrow> ax_event \<Rightarrow> AsyncExecutor \<Rightarrow> AsyncExecutor option" where
  "ax_do fn (Execute i name) s =
     (case mget (ax_tasks s) i of
        Some t \<Rightarrow> None
      | None \<Rightarrow> Some (s\<lparr>ax_tasks := mput i \<lparr>AtName = name, AtPhase = Queued, AtCancelled = False\<rparr> (ax_tasks s),
                       ax_active := List.insert i (ax_active s)\<rparr>))"
| "ax_do fn (Acquire i) s =
     (case mget (ax_tasks s) i of
        Some t \<Rightarrow> (if AtPhase t = Queued \<and> 0 < ax_slots s
                   then Some (set_phase i t Acquired (s\<lparr>ax_slots := ax_slots s - 1\<rparr>)) else None)
      | None \<Rightarrow> None)"
| "ax_do fn (GiveUp i) s =
     (case mget (ax_tasks s) i of
        Some t \<Rightarrow> (if AtPhase t = Queued \<and> AtCancelled t then Some (set_phase i t (Leaving (GNil, Some ctx_error)) s) else None)
      | None \<Rightarrow> None)"
| "ax_do fn (Check i) s =
     (case mget (ax_tasks s) i of
        Some t \<Rightarrow> (if AtPhase t = Acquired
                   then Some (set_phase i t (if AtCancelled t then Releasing (GNil, Some ctx_error) else Executing) s) else None)
      | None \<Rightarrow> None)"
| "ax_do fn (Complete i) s =
     (case mget (ax_tasks s) i of
        Some t \<Rightarrow> (if AtPhase t = Executing then Some (set_phase i t (Releasing (fn i (AtCancelled t))) s) else None)
      | None \<Rightarrow> None)"
| "ax_do fn (Release i) s =
     (case mget (ax_tasks s) i of
        Some t \<Rightarrow> (case AtPhase t of
            Releasing r \<Rightarrow> (if ax_slots s < ax_max s
                            then Some (set_phase i t (Leaving r) (s\<lparr>ax_slots := ax_slots s + 1\<rparr>)) else None)
          | _ \<Rightarrow> None)
      | None \<Rightarrow> None)"
| "ax_do fn (Leave i) s =
     (case mget (ax_tasks s) i of
        Some t \<Rightarrow> (case AtPhase t of
            Leaving r \<Rightarrow> Some (set_phase i t (Done r) (s\<lparr>ax_active := removeAll i (ax_active s)\<rparr>))
          | _ \<Rightarrow> None)
      | None \<Rightarrow> None)"
| "ax_do fn (ContextDone i) s =
     (case mget (ax_tasks s) i of
        Some t \<Rightarrow> Some (s\<lparr>ax_tasks := mput i (cancel_task t) (ax_tasks s)\<rparr>)
      | None \<Rightarrow> None)"
| "ax_do fn CancelAll s =
     Some (s\<lparr>ax_tasks := map (\<lambda>(i, t). (i, if i \<in> set (ax_active s) then cancel_task t else t)) (ax_tasks s), ax_active := []\<rparr>)"

definition GetActiveTaskCount :: "AsyncExecutor \<Rightarrow> nat" where
  "GetActiveTaskCount s = length (ax_active s)"

text \<open>The events a scheduler can choose that are actions of task goroutines.\<close>

fun internal :: "ax_event \<Rightarrow> bool" where
  "internal (Execute i name) = False"
| "internal (ContextDone i) = False"
| "internal CancelAll = False"
| "internal _ = True"

inductive ax_reach :: "(string \<Rightarrow> bool \<Rightarrow> outcome) \<Rightarrow> int \<Rightarrow> AsyncExecutor \<Rightarrow> bool" for fn maxc where
  ax_start: "ax_reach fn maxc (NewAsyncExecutor maxc)"
| ax_next: "ax_reach fn maxc s \<Longrightarrow> ax_do fn ev s = Some s' \<Longrightarrow> ax_reach fn maxc s'"

fun ax_run :: "(string \<Rightarrow> bool \<Rightarrow> outcome) \<Rightarrow> ax_event list \<Rightarrow> AsyncExecutor \<Rightarrow> AsyncExecutor option" where
  "ax_run fn [] s = Some s"
| "ax_run fn (ev # evs) s = (case ax_do fn ev s of None \<Rightarrow> None | Some s' \<Rightarrow> ax_run fn evs s')"

section \<open>Slots\<close>

fun holds_slot :: "phase \<Rightarrow> bool" where
  "holds_slot Acquired = True"
| "holds_slot Executing = True"
| "holds_slot (Releasing r) = True"
| "holds_slot _ = False"

definition task_count :: "(asyncTask \<Rightarrow> bool) \<Rightarrow> AsyncExecutor \<Rightarrow> nat" where
  "task_count P s = length (filter (\<lambda>(i, t). P t) (ax_tasks s))"

abbreviation holders :: "AsyncExecutor \<Rightarrow> nat" where
  "holders \<equiv> task_count (\<lambda>t. holds_slot (AtPhase t))"

abbreviation executing :: "AsyncExecutor \<Rightarrow> nat" where
  "executing \<equiv> task_count (\<lambda>t. AtPhase t = Executing)"

lemma filter_mput:
  assumes "mget m k = Some old" and "gomap_ok m"
  shows "length (filter (\<lambda>(i, t). P t) (mput k v m)) + (if P old then 1 else 0) =
    length (filter (\<lambda>(i, t). P t) m) + (if P v then 1 else 0)"
  using assms
proof (induction m)
  case (Cons p m)
  obtain j t where p: "p = (j, t)" by (cases p)
  show ?case
  proof (cases "j = k")
    case True
    with Cons.prems p show ?thesis by simp
  next
    case False
    with Cons.prems p have "mget m k = Some old" "gomap_ok m" by (auto simp: gomap_ok_def)
    from Cons.IH [OF this] False show ?thesis by (simp add: p)
  qed
qed simp

lemma count_set_phase:
  assumes "mget (ax_tasks s) i = Some t" and "gomap_ok (ax_tasks s)" and "ax_tasks s' = ax_tasks s"
  shows "holders (set_phase i t p s') + (if holds_slot (AtPhase t) then 1 else 0) = holders s + (if holds_slot p then 1 else 0)"
  using filter_mput [OF assms(1,2), of "\<lambda>t. holds_slot (AtPhase t)" "t\<lparr>AtPhase := p\<rparr>"] assms(3)
  by (simp add: task_count_def set_phase_def)

definition pool_ok :: "AsyncExecutor \<Rightarrow> bool" where
  "pool_ok s \<longleftrightarrow> gomap_ok (ax_tasks s) \<and> ax_slots s + holders s = ax_max s \<and> 0 < ax_max s"

lemma set_phase_simps [simp]:
  "ax_max (set_phase i t p s) = ax_max s" "ax_slots (set_phase i t p s) = ax_slots s"
  "ax_active (set_phase i t p s) = ax_active s"
  "ax_tasks (set_phase i t p s) = mput i (t\<lparr>AtPhase := p\<rparr>) (ax_tasks s)"
  by (simp_all add: set_phase_def)

lemma count_map_snd: "(\<And>i t. P (f i t) = P t) \<Longrightarrow>
  length (filter (\<lambda>(i, t). P t) (map (\<lambda>(i, t). (i, f i t)) m)) = length (filter (\<lambda>(i, t). P t) m)"
  by (induction m) auto

lemma count_mono: "(\<And>t. P t \<Longrightarrow> Q t) \<Longrightarrow>
  length (filter (\<lambda>(i, t). P t) m) \<le> length (filter (\<lambda>(i, t). Q t) m)"
  by (induction m) auto

lemma gomap_ok_map_snd [simp]: "gomap_ok (map (\<lambda>(i, t). (i, f i t)) m) = gomap_ok m"
proof -
  have "mkeys (map (\<lambda>(i, t). (i, f i t)) m) = mkeys m" by (induction m) auto
  then show ?thesis by (simp only: gomap_ok_def)
qed

lemma mget_map_snd: "mget (map (\<lambda>(i, t). (i, f i t)) m) k = map_option (f k) (mget m k)"
  by (induction m) auto

lemma ax_do_pool:
  assumes "pool_ok s" and "ax_do fn ev s = Some s'"
  shows "pool_ok s' \<and> ax_max s' = ax_max s"
proof -
  have ok: "gomap_ok (ax_tasks s)" and inv: "ax_slots s + holders s = ax_max s" and pos: "0 < ax_max s"
    using assms(1) by (auto simp: pool_ok_def)
  note count = count_set_phase [OF _ ok]
  show ?thesis
  proof (cases ev)
    case (Execute i name)
    with assms(2) have new: "mget (ax_tasks s) i = None" by (auto split: option.splits)
    with Execute assms(2) have "s' = s\<lparr>ax_tasks := ax_tasks s @ [(i, \<lparr>AtName = name, AtPhase = Queued, AtCancelled = False\<rparr>)],
        ax_active := List.insert i (ax_active s)\<rparr>"
      by (auto simp: mput_fresh [OF mget_NoneD [OF new]])
    with new ok inv pos show ?thesis
      by (auto simp: pool_ok_def task_count_def gomap_ok_def dest: mget_NoneD)
  next
    case (Acquire i)
    with assms(2) obtain t where t: "mget (ax_tasks s) i = Some t" "AtPhase t = Queued" "0 < ax_slots s"
      "s' = set_phase i t Acquired (s\<lparr>ax_slots := ax_slots s - 1\<rparr>)" by (auto split: option.splits if_splits)
    with count [OF t(1), of "s\<lparr>ax_slots := ax_slots s - 1\<rparr>" Acquired] ok inv pos show ?thesis
      by (auto simp: pool_ok_def)
  next
    case (GiveUp i)
    with assms(2) obtain t where t: "mget (ax_tasks s) i = Some t" "AtPhase t = Queued"
      "s' = set_phase i t (Leaving (GNil, Some ctx_error)) s" by (auto split: option.splits if_splits)
    with count [OF t(1), of s "Leaving (GNil, Some ctx_error)"] ok inv pos show ?thesis by (auto simp: pool_ok_def)
  next
    case (Check i)
    with assms(2) obtain t where t: "mget (ax_tasks s) i = Some t" "AtPhase t = Acquired"
      by (auto split: option.splits if_splits)
    let ?p = "if AtCancelled t then Releasing (GNil, Some ctx_error) else Executing"
    have "s' = set_phase i t ?p s" using Check assms(2) t by simp
    with t count [OF t(1), of s ?p] ok inv pos show ?thesis by (auto simp: pool_ok_def)
  next
    case (Complete i)
    with assms(2) obtain t where t: "mget (ax_tasks s) i = Some t" "AtPhase t = Executing"
      "s' = set_phase i t (Releasing (fn i (AtCancelled t))) s" by (auto split: option.splits if_splits)
    with count [OF t(1), of s "Releasing (fn i (AtCancelled t))"] ok inv pos show ?thesis by (auto simp: pool_ok_def)
  next
    case (Release i)
    with assms(2) obtain t r where t: "mget (ax_tasks s) i = Some t" "AtPhase t = Releasing r"
      "s' = set_phase i t (Leaving r) (s\<lparr>ax_slots := ax_slots s + 1\<rparr>)"
      by (auto split: option.splits if_splits phase.splits)
    with count [OF t(1), of "s\<lparr>ax_slots := ax_slots s + 1\<rparr>" "Leaving r"] ok inv pos show ?thesis by (auto simp: pool_ok_def)
  next
    case (Leave i)
    with assms(2) obtain t r where t: "mget (ax_tasks s) i = Some t" "AtPhase t = Leaving r"
      "s' = set_phase i t (Done r) (s\<lparr>ax_active := removeAll i (ax_active s)\<rparr>)"
      by (auto split: option.splits if_splits phase.splits)
    with count [OF t(1), of "s\<lparr>ax_active := removeAll i (ax_active s)\<rparr>" "Done r"] ok inv pos show ?thesis
      by (auto simp: pool_ok_def)
  next
    case (ContextDone i)
    with assms(2) obtain t where t: "mget (ax_tasks s) i = Some t"
      "s' = s\<lparr>ax_tasks := mput i (cancel_task t) (ax_tasks s)\<rparr>" by (auto split: option.splits)
    with filter_mput [OF t(1) ok, of "\<lambda>t. holds_slot (AtPhase t)" "cancel_task t"] ok inv pos show ?thesis
      by (simp add: pool_ok_def task_count_def cancel_task_def split: if_splits)
  next
    case CancelAll
    let ?f = "\<lambda>i t. if i \<in> set (ax_active s) then cancel_task t else t"
    have "holds_slot (AtPhase (?f i t)) = holds_slot (AtPhase t)" for i t by (simp add: cancel_task_def)
    from count_map_snd [of "\<lambda>t. holds_slot (AtPhase t)" ?f "ax_tasks s", OF this] CancelAll assms(2) ok inv pos
    show ?thesis by (auto simp: pool_ok_def task_count_def simp del: filter_map)
  qed
qed

lemma reach_pool_ok: "ax_reach fn maxc s \<Longrightarrow> pool_ok s \<and> ax_max s = (if maxc \<le> 0 then 10 else nat maxc)"
proof (induction rule: ax_reach.induct)
  case ax_start
  then show ?case by (simp add: pool_ok_def NewAsyncExecutor_def task_count_def Let_def)
next
  case (ax_next s ev s')
  with ax_do_pool show ?case by metis
qed

section \<open>Results and progress\<close>

text \<open>The result of a task, from the moment it is sent.\<close>

fun result_of :: "phase \<Rightarrow> outcome option" where
  "result_of (Releasing r) = Some r"
| "result_of (Leaving r) = Some r"
| "result_of (Done r) = Some r"
| "result_of _ = None"

definition result_ok :: "(string \<Rightarrow> bool \<Rightarrow> outcome) \<Rightarrow> string \<Rightarrow> asyncTask \<Rightarrow> bool" where
  "result_ok fn i t \<longleftrightarrow> (case result_of (AtPhase t) of
     None \<Rightarrow> True
   | Some r \<Rightarrow> r = fn i False \<or> (AtCancelled t \<and> (r = fn i True \<or> r = (GNil, Some ctx_error))))"

definition results_ok :: "(string \<Rightarrow> bool \<Rightarrow> outcome) \<Rightarrow> AsyncExecutor \<Rightarrow> bool" where
  "results_ok fn s \<longleftrightarrow> (\<forall>i t. mget (ax_tasks s) i = Some t \<longrightarrow> result_ok fn i t)"

lemma results_ok_put:
  "results_ok fn s \<Longrightarrow> result_ok fn i t \<Longrightarrow> ax_tasks s' = mput i t (ax_tasks s) \<Longrightarrow> results_ok fn s'"
  by (auto simp: results_ok_def gomap)

lemma results_okD: "results_ok fn s \<Longrightarrow> mget (ax_tasks s) i = Some t \<Longrightarrow> result_ok fn i t"
  by (simp add: results_ok_def)

lemma results_ok_phase:
  "results_ok fn s \<Longrightarrow> ax_tasks r = ax_tasks s \<Longrightarrow> result_ok fn i (t\<lparr>AtPhase := p\<rparr>) \<Longrightarrow> results_ok fn (set_phase i t p r)"
  by (auto intro: results_ok_put)

lemma result_ok_same:
  "result_ok fn i t \<Longrightarrow> result_of p = None \<or> result_of p = result_of (AtPhase t) \<Longrightarrow> result_ok fn i (t\<lparr>AtPhase := p\<rparr>)"
  by (auto simp: result_ok_def split: option.splits)

lemma result_ok_cancelled:
  "AtCancelled t \<Longrightarrow> result_ok fn i (t\<lparr>AtPhase := Leaving (GNil, Some ctx_error)\<rparr>) \<and>
     result_ok fn i (t\<lparr>AtPhase := Releasing (GNil, Some ctx_error)\<rparr>)"
  by (auto simp: result_ok_def)

lemma cancel_result_ok: "result_ok fn i t \<Longrightarrow> result_ok fn i (cancel_task t)"
  by (auto simp: result_ok_def cancel_task_def split: option.splits)

lemma ax_do_results:
  assumes "results_ok fn s" and "ax_do fn ev s = Some s'"
  shows "results_ok fn s'"
proof -
  have keep: "results_ok fn (set_phase i t p r)" if "mget (ax_tasks s) i = Some t" "ax_tasks r = ax_tasks s"
    "result_of p = None \<or> result_of p = result_of (AtPhase t)" for i t p r
    using results_ok_phase [OF assms(1) that(2)] result_ok_same [OF results_okD [OF assms(1) that(1)] that(3)] by blast
  show ?thesis
  proof (cases ev)
    case CancelAll
    with assms show ?thesis by (auto simp: results_ok_def mget_map_snd cancel_result_ok)
  next
    case (ContextDone i)
    with assms(2) obtain t where t: "mget (ax_tasks s) i = Some t"
      and s': "ax_tasks s' = mput i (cancel_task t) (ax_tasks s)" by (auto split: option.splits)
    from results_ok_put [OF assms(1) cancel_result_ok [OF results_okD [OF assms(1) t]] s'] show ?thesis .
  next
    case (Execute i name)
    with assms show ?thesis
      by (auto split: option.splits intro!: results_ok_put [OF assms(1), of i] simp: result_ok_def)
  next
    case (Complete i)
    with assms(2) obtain t where "mget (ax_tasks s) i = Some t" "s' = set_phase i t (Releasing (fn i (AtCancelled t))) s"
      by (auto split: option.splits if_splits)
    with assms(1) show ?thesis by (cases "AtCancelled t") (auto intro!: results_ok_phase simp: result_ok_def)
  next
    case (Acquire i)
    with assms(2) obtain t where "mget (ax_tasks s) i = Some t"
      "s' = set_phase i t Acquired (s\<lparr>ax_slots := ax_slots s - 1\<rparr>)"
      by (auto split: option.splits if_splits)
    with keep show ?thesis by simp
  next
    case (GiveUp i)
    with assms(2) obtain t where "AtCancelled t" "s' = set_phase i t (Leaving (GNil, Some ctx_error)) s"
      by (auto split: option.splits if_splits)
    with results_ok_phase [OF assms(1) refl] result_ok_cancelled show ?thesis by blast
  next
    case (Check i)
    with assms(2) obtain t where t: "mget (ax_tasks s) i = Some t" "AtPhase t = Acquired"
      by (auto split: option.splits if_splits)
    show ?thesis
    proof (cases "AtCancelled t")
      case True
      with Check assms(2) t have "s' = set_phase i t (Releasing (GNil, Some ctx_error)) s" by simp
      with results_ok_phase [OF assms(1) refl] result_ok_cancelled [OF True] show ?thesis by blast
    next
      case False
      with Check assms(2) t have "s' = set_phase i t Executing s" by simp
      with keep [OF t(1) refl, of Executing] show ?thesis by simp
    qed
  next
    case (Release i)
    with assms(2) obtain t o' where "mget (ax_tasks s) i = Some t"
      "AtPhase t = Releasing o'" "s' = set_phase i t (Leaving o') (s\<lparr>ax_slots := ax_slots s + 1\<rparr>)"
      by (auto split: option.splits if_splits phase.splits)
    with keep show ?thesis by simp
  next
    case (Leave i)
    with assms(2) obtain t o' where "mget (ax_tasks s) i = Some t"
      "AtPhase t = Leaving o'" "s' = set_phase i t (Done o') (s\<lparr>ax_active := removeAll i (ax_active s)\<rparr>)"
      by (auto split: option.splits if_splits phase.splits)
    with keep show ?thesis by simp
  qed
qed

text \<open>How much a task still has to do.\<close>

fun phase_work :: "phase \<Rightarrow> nat" where
  "phase_work Queued = 5"
| "phase_work Acquired = 4"
| "phase_work Executing = 3"
| "phase_work (Releasing r) = 2"
| "phase_work (Leaving r) = 1"
| "phase_work (Done r) = 0"

definition work :: "AsyncExecutor \<Rightarrow> nat" where
  "work s = sum_list (map (\<lambda>(i, t). phase_work (AtPhase t)) (ax_tasks s))"

lemma sum_mput:
  assumes "mget m k = Some old"
  shows "sum_list (map (\<lambda>(i, t). f t) (mput k v m)) + f old = sum_list (map (\<lambda>(i, t). f t) m) + (f v :: nat)"
  using assms by (induction m) (auto split: if_splits)

lemma work_set_phase:
  assumes "mget (ax_tasks s) i = Some t" and "ax_tasks s' = ax_tasks s" and "phase_work p < phase_work (AtPhase t)"
  shows "work (set_phase i t p s') < work s"
  using sum_mput [OF assms(1), of "\<lambda>t. phase_work (AtPhase t)" "t\<lparr>AtPhase := p\<rparr>"] assms(2,3)
  by (simp add: work_def)

lemma internal_work: "internal ev \<Longrightarrow> ax_do fn ev s = Some s' \<Longrightarrow> work s' < work s"
  by (cases ev) (auto intro!: work_set_phase split: option.splits if_splits phase.splits)

lemma ax_run_work: "list_all internal evs \<Longrightarrow> ax_run fn evs s = Some s' \<Longrightarrow> length evs + work s' \<le> work s"
  by (induction evs arbitrary: s) (fastforce split: option.splits dest: internal_work)+

definition all_done :: "AsyncExecutor \<Rightarrow> bool" where
  "all_done s \<longleftrightarrow> (\<forall>i t. mget (ax_tasks s) i = Some t \<longrightarrow> (\<exists>r. AtPhase t = Done r))"

lemma all_done_work: "pool_ok s \<Longrightarrow> all_done s \<Longrightarrow> work s = 0"
  by (fastforce simp: work_def all_done_def pool_ok_def gomap_ok_def)

lemma holder_slot:
  assumes "pool_ok s" and "mget (ax_tasks s) i = Some t" and "holds_slot (AtPhase t)"
  shows "ax_slots s < ax_max s"
proof -
  have "(i, t) \<in> set (filter (\<lambda>(i, t). holds_slot (AtPhase t)) (ax_tasks s))"
    using assms(2,3) by (auto dest: map_of_SomeD)
  then have "0 < holders s" unfolding task_count_def by (metis length_pos_if_in_set)
  with assms(1) show ?thesis by (simp add: pool_ok_def)
qed

text \<open>While a task is not done, some goroutine can act: nobody waits for a slot that never comes.\<close>

lemma some_internal:
  assumes "pool_ok s" and "\<not> all_done s"
  shows "\<exists>ev s'. internal ev \<and> ax_do fn ev s = Some s'"
proof (cases "\<exists>i t. mget (ax_tasks s) i = Some t \<and> AtPhase t \<noteq> Queued \<and> (\<forall>r. AtPhase t \<noteq> Done r)")
  case True
  then obtain i t where t: "mget (ax_tasks s) i = Some t" "AtPhase t \<noteq> Queued" "\<forall>r. AtPhase t \<noteq> Done r" by blast
  show ?thesis
  proof (cases "AtPhase t")
    case Acquired
    with t have "ax_do fn (Check i) s \<noteq> None" by simp
    then show ?thesis by (intro exI [of _ "Check i"]) auto
  next
    case Executing
    with t have "ax_do fn (Complete i) s \<noteq> None" by simp
    then show ?thesis by (intro exI [of _ "Complete i"]) auto
  next
    case (Releasing r)
    then have "ax_slots s < ax_max s" using holder_slot [OF assms(1) t(1)] by simp
    with Releasing t have "ax_do fn (Release i) s \<noteq> None" by simp
    then show ?thesis by (intro exI [of _ "Release i"]) auto
  next
    case (Leaving r)
    with t have "ax_do fn (Leave i) s \<noteq> None" by simp
    then show ?thesis by (intro exI [of _ "Leave i"]) auto
  qed (use t in auto)
next
  case False
  with assms(2) obtain i t where t: "mget (ax_tasks s) i = Some t" "AtPhase t = Queued"
    unfolding all_done_def by blast
  have "\<not> holds_slot (AtPhase u)" if "(j, u) \<in> set (ax_tasks s)" for j u
  proof -
    have "mget (ax_tasks s) j = Some u" using that assms(1) by (simp add: pool_ok_def gomap_ok_def)
    with False have "AtPhase u = Queued \<or> (\<exists>r. AtPhase u = Done r)" by blast
    then show ?thesis by auto
  qed
  then have "holders s = 0" by (auto simp: task_count_def filter_empty_conv)
  with assms(1) have "0 < ax_slots s" by (simp add: pool_ok_def)
  with t have "ax_do fn (Acquire i) s \<noteq> None" by simp
  then show ?thesis by (intro exI [of _ "Acquire i"]) auto
qed

lemma reach_results_ok: "ax_reach fn maxc s \<Longrightarrow> results_ok fn s"
proof (induction rule: ax_reach.induct)
  case ax_start
  then show ?case by (simp add: results_ok_def NewAsyncExecutor_def Let_def)
next
  case (ax_next s ev s')
  with ax_do_results show ?case by blast
qed

lemma ax_run_reach: "ax_run fn evs s = Some s' \<Longrightarrow> ax_reach fn maxc s \<Longrightarrow> ax_reach fn maxc s'"
  by (induction evs arbitrary: s) (auto split: option.splits intro: ax_reach.ax_next)

text \<open>C15: The executor never runs more tasks than its concurrency limit, in any interleaving of submissions,
  cancellations and task goroutines: free slots and slots in use always add up to the limit (ten where the
  configured limit is not positive), so a goroutine that returns its slot never blocks. And a result is
  always that of the task's own function, or the cancellation error of a cancelled task.\<close>

theorem pool_bounded:
  assumes "ax_reach fn maxc s"
  shows "ax_slots s + holders s = (if maxc \<le> 0 then 10 else nat maxc) \<and>
    executing s \<le> (if maxc \<le> 0 then 10 else nat maxc) \<and>
    (\<forall>i t r. mget (ax_tasks s) i = Some t \<longrightarrow> AtPhase t = Releasing r \<longrightarrow> ax_do fn (Release i) s \<noteq> None) \<and>
    (\<forall>i t r. mget (ax_tasks s) i = Some t \<longrightarrow> result_of (AtPhase t) = Some r \<longrightarrow>
       r = fn i False \<or> (AtCancelled t \<and> (r = fn i True \<or> r = (GNil, Some ctx_error))))"
proof -
  have pool: "pool_ok s" "ax_max s = (if maxc \<le> 0 then 10 else nat maxc)" using reach_pool_ok [OF assms] by auto
  have sub: "executing s \<le> holders s"
    unfolding task_count_def by (rule count_mono) auto
  have release: "ax_slots s < ax_max s" if "mget (ax_tasks s) i = Some t" "AtPhase t = Releasing r" for i t r
    using holder_slot [OF pool(1) that(1)] that(2) by simp
  have "r = fn i False \<or> (AtCancelled t \<and> (r = fn i True \<or> r = (GNil, Some ctx_error)))"
    if "mget (ax_tasks s) i = Some t" "result_of (AtPhase t) = Some r" for i t r
    using results_okD [OF reach_results_ok [OF assms] that(1)] that(2) by (simp add: result_ok_def)
  moreover have "ax_do fn (Release i) s \<noteq> None" if "mget (ax_tasks s) i = Some t" "AtPhase t = Releasing r" for i t r
    using release [OF that] that by simp
  moreover have "ax_slots s + holders s = (if maxc \<le> 0 then 10 else nat maxc)"
    using pool by (simp add: pool_ok_def)
  moreover from this sub have "executing s \<le> (if maxc \<le> 0 then 10 else nat maxc)" by linarith
  ultimately show ?thesis by blast
qed

definition sample_fn :: "string \<Rightarrow> bool \<Rightarrow> outcome" where
  "sample_fn i c = (GStr i, None)"

definition sample_schedule :: "ax_event list" where
  "sample_schedule = [Execute ''1'' ''a'', Execute ''2'' ''b'', Acquire ''2'', Check ''2'']"

definition sample_pool :: AsyncExecutor where
  "sample_pool = \<lparr>ax_max = 1, ax_slots = 0, ax_tasks = [(''1'', \<lparr>AtName = ''a'', AtPhase = Queued, AtCancelled = False\<rparr>),
     (''2'', \<lparr>AtName = ''b'', AtPhase = Executing, AtCancelled = False\<rparr>)], ax_active = [''2'', ''1'']\<rparr>"

lemma sample_pool_reach: "ax_reach sample_fn 1 sample_pool"
proof -
  have "ax_run sample_fn sample_schedule (NewAsyncExecutor 1) = Some sample_pool"
    by (simp add: sample_schedule_def sample_pool_def NewAsyncExecutor_def set_phase_def)
  from ax_run_reach [OF this ax_reach.ax_start] show ?thesis .
qed

theorem pool_bounded_witness: "ax_slots sample_pool + holders sample_pool = 1 \<and> executing sample_pool = 1"
  using pool_bounded [OF sample_pool_reach] by (simp add: sample_pool_def task_count_def)

text \<open>C16: Every submitted task gets its result. From any reachable state the task goroutines can only make as
  many moves as the unfinished tasks have phases left, and they are never stuck before all tasks are done:
  so every schedule of them that goes on as long as it can is finite and ends with a result for every
  task that was submitted.\<close>

theorem pool_progress:
  assumes "ax_reach fn maxc s" and "list_all internal evs" and "ax_run fn evs s = Some s'"
  shows "length evs \<le> work s \<and>
    ((\<nexists>ev s''. internal ev \<and> ax_do fn ev s' = Some s'') \<longleftrightarrow> all_done s')"
proof -
  have "pool_ok s'" using reach_pool_ok ax_run_reach [OF assms(3,1)] by blast
  moreover have "\<not> (internal ev \<and> ax_do fn ev s' = Some s'')" if "all_done s'" for ev s''
    using all_done_work [OF \<open>pool_ok s'\<close> that] internal_work [of ev fn s' s''] by auto
  ultimately have "(\<nexists>ev s''. internal ev \<and> ax_do fn ev s' = Some s'') \<longleftrightarrow> all_done s'"
    using some_internal [of s' fn] by blast
  with ax_run_work [OF assms(2,3)] show ?thesis by simp
qed

definition sample_rest :: "ax_event list" where
  "sample_rest = [Complete ''2'', Release ''2'', Acquire ''1'', Leave ''2'', Check ''1'', Complete ''1'', Release ''1'', Leave ''1'']"

theorem pool_progress_witness:
  "\<exists>s'. ax_run sample_fn sample_rest sample_pool = Some s' \<and> length sample_rest \<le> work sample_pool \<and>
     (\<nexists>ev s''. internal ev \<and> ax_do sample_fn ev s' = Some s'')"
proof -
  have "ax_run sample_fn sample_rest sample_pool \<noteq> None" and fin: "all_done (the (ax_run sample_fn sample_rest sample_pool))"
    by (simp_all add: sample_rest_def sample_pool_def set_phase_def sample_fn_def all_done_def)
  then obtain s' where s': "ax_run sample_fn sample_rest sample_pool = Some s'" "all_done s'" by auto
  have "list_all internal sample_rest" by (simp add: sample_rest_def)
  from pool_progress [OF sample_pool_reach this s'(1)] s' show ?thesis by blast
qed

end
