(* ===== verification/Node_Cache.thy ===== *)
theory Node_Cache
  imports Sample_Lib
begin

text \<open>
  The cache of node outputs (\<open>pregel/cache.go\<close>): the in-memory cache with its three eviction policies, the
  cache that stores nothing, cache keys, and the executor that asks the cache before it runs a node. The locale
  \<open>output_cache\<close> is what the executor relies on; its lemma says when caching cannot be observed. The
  zero \<open>time.Time\<close> of an entry without expiration is \<open>None\<close>.
\<close>

section \<open>The in-memory cache\<close>

record cacheEntry =
  ce_value :: gval
  ce_expiration :: "int option"
  ce_lastAccess :: int
  ce_hits :: int

datatype EvictionPolicy = EvictLRU | EvictLFU | EvictRandom

record MemoryCache =
  mc_data :: "cacheEntry gomap"
  mc_maxSize :: int
  mc_eviction :: EvictionPolicy

definition NewMemoryCache :: "int \<Rightarrow> EvictionPolicy \<Rightarrow> MemoryCache" where
  "NewMemoryCache maxSize eviction = \<lparr>mc_data = [], mc_maxSize = maxSize, mc_eviction = eviction\<rparr>"

definition expired :: "int \<Rightarrow> cacheEntry \<Rightarrow> bool" where
  "expired now e = (case ce_expiration e of None \<Rightarrow> False | Some x \<Rightarrow> now > x)"

definition Cache_Get :: "int \<Rightarrow> MemoryCache \<Rightarrow> string \<Rightarrow> MemoryCache \<times> gval option" where
  "Cache_Get now c key =
     (case mget (mc_data c) key of
        None \<Rightarrow> (c, None)
      | Some entry \<Rightarrow>
          (if expired now entry then (c, None)
           else (c\<lparr>mc_data := mput key (entry\<lparr>ce_hits := ce_hits entry + 1, ce_lastAccess := now\<rparr>) (mc_data c)\<rparr>,
                 Some (ce_value entry))))"

text \<open>The three loops that choose the entry to evict; the running minimum starts undefined.\<close>

definition lru_choice :: "cacheEntry gomap \<Rightarrow> string" where
  "lru_choice m =
     fst (fold (\<lambda>(k, e) (key, oldest). case oldest of
            None \<Rightarrow> (k, Some (ce_lastAccess e))
          | Some x \<Rightarrow> (if ce_lastAccess e < x then (k, Some (ce_lastAccess e)) else (key, oldest))) m ([], None))"

definition lfu_choice :: "cacheEntry gomap \<Rightarrow> string" where
  "lfu_choice m =
     fst (fold (\<lambda>(k, e) (key, minHits). if minHits = -1 \<or> ce_hits e < minHits then (k, ce_hits e) else (key, minHits)) m ([], -1))"

definition evict_key :: "MemoryCache \<Rightarrow> string" where
  "evict_key c =
     (case mc_eviction c of
        EvictLRU \<Rightarrow> lru_choice (mc_data c)
      | EvictLFU \<Rightarrow> lfu_choice (mc_data c)
      | EvictRandom \<Rightarrow> (case mc_data c of [] \<Rightarrow> [] | (k, e) # m \<Rightarrow> k))"

definition evict :: "MemoryCache \<Rightarrow> MemoryCache" where
  "evict c =
     (if mc_data c = [] then c
      else if evict_key c \<noteq> [] then c\<lparr>mc_data := mdel (evict_key c) (mc_data c)\<rparr> else c)"

definition Cache_Set :: "int \<Rightarrow> MemoryCache \<Rightarrow> string \<Rightarrow> gval \<Rightarrow> int \<Rightarrow> MemoryCache" where
  "Cache_Set now c key value ttl =
     (let c1 = (if int (length (mc_data c)) \<ge> mc_maxSize c then evict c else c)
      in c1\<lparr>mc_data := mput key
            \<lparr>ce_value = value, ce_expiration = (if ttl > 0 then Some (now + ttl) else None),
             ce_lastAccess = now, ce_hits = 0\<rparr> (mc_data c1)\<rparr>)"

definition Cache_Delete :: "MemoryCache \<Rightarrow> string \<Rightarrow> MemoryCache" where
  "Cache_Delete c key = c\<lparr>mc_data := mdel key (mc_data c)\<rparr>"

definition Cache_Clear :: "MemoryCache \<Rightarrow> MemoryCache" where
  "Cache_Clear c = c\<lparr>mc_data := []\<rparr>"

section \<open>The caching executor\<close>

definition GenerateCacheKey :: "golib \<Rightarrow> string \<Rightarrow> gval \<Rightarrow> string" where
  "GenerateCacheKey L nodeName input =
     (case json_marshal L input of
        None \<Rightarrow> nodeName @ CHR '':'' # fmt_T L input
      | Some data \<Rightarrow> nodeName @ CHR '':'' # to_hex L (sha256 L data))"

record CachePolicy =
  CpKeyFunc :: "(gval \<Rightarrow> string) option"
  CpTTL :: "int option"

definition cache_key :: "golib \<Rightarrow> CachePolicy option \<Rightarrow> string \<Rightarrow> gval \<Rightarrow> string" where
  "cache_key L policy nodeName input =
     (case Option.bind policy CpKeyFunc of
        Some f \<Rightarrow> f input
      | None \<Rightarrow> GenerateCacheKey L nodeName input)"

text \<open>The executor, for any cache given by its two operations. \<open>fn\<close> is the node function.\<close>

definition Cached_Execute ::
  "(int \<Rightarrow> 'c \<Rightarrow> string \<Rightarrow> 'c \<times> gval option) \<Rightarrow> (int \<Rightarrow> 'c \<Rightarrow> string \<Rightarrow> gval \<Rightarrow> int \<Rightarrow> 'c) \<Rightarrow>
   golib \<Rightarrow> CachePolicy option \<Rightarrow> int \<Rightarrow> 'c \<Rightarrow> string \<Rightarrow> gval \<Rightarrow> (gval \<Rightarrow> gval res) \<Rightarrow> 'c \<times> gval res" where
  "Cached_Execute get store L policy now c nodeName input fn =
     (let key = cache_key L policy nodeName input
      in case get now c key of
           (c1, Some cached) \<Rightarrow> (c1, Inr cached)
         | (c1, None) \<Rightarrow>
             (case fn input of
                Inl err \<Rightarrow> (c1, Inl err)
              | Inr result \<Rightarrow>
                  (store now c1 key result (case Option.bind policy CpTTL of Some t \<Rightarrow> t | None \<Rightarrow> 0), Inr result)))"

definition Noop_Get :: "int \<Rightarrow> unit \<Rightarrow> string \<Rightarrow> unit \<times> gval option" where
  "Noop_Get now c key = ((), None)"

definition Noop_Set :: "int \<Rightarrow> unit \<Rightarrow> string \<Rightarrow> gval \<Rightarrow> int \<Rightarrow> unit" where
  "Noop_Set now c key value ttl = ()"

section \<open>The contract of a cache\<close>

text \<open>
  \<open>holds c k v\<close>: the cache may answer \<open>v\<close> for \<open>k\<close>. Reading answers only what it holds, and neither reading nor
  writing makes it hold anything but the value written.
\<close>

locale output_cache =
  fixes new :: 'c
    and get :: "int \<Rightarrow> 'c \<Rightarrow> string \<Rightarrow> 'c \<times> gval option"
    and store :: "int \<Rightarrow> 'c \<Rightarrow> string \<Rightarrow> gval \<Rightarrow> int \<Rightarrow> 'c"
    and holds :: "'c \<Rightarrow> string \<Rightarrow> gval \<Rightarrow> bool"
  assumes new_holds: "\<not> holds new k v"
    and get_holds: "get now c k = (c', Some v) \<Longrightarrow> holds c k v"
    and get_keeps: "get now c k = (c', x) \<Longrightarrow> holds c' k' v \<Longrightarrow> holds c k' v"
    and set_holds: "holds (store now c k w ttl) k' v \<Longrightarrow> (k' = k \<and> v = w) \<or> holds c k' v"
begin

text \<open>Every answer the cache holds for the key of an input is the node's own output.\<close>

definition faithful :: "golib \<Rightarrow> CachePolicy option \<Rightarrow> string \<Rightarrow> (gval \<Rightarrow> gval res) \<Rightarrow> gval set \<Rightarrow> 'c \<Rightarrow> bool" where
  "faithful L policy node fn A c \<longleftrightarrow> (\<forall>x \<in> A. \<forall>v. holds c (cache_key L policy node x) v \<longrightarrow> fn x = Inr v)"

lemma execute_faithful:
  assumes "faithful L policy node fn A c" and "x \<in> A" and "inj_on (cache_key L policy node) A"
    and "Cached_Execute get store L policy now c node x fn = (c', r)"
  shows "faithful L policy node fn A c' \<and> r = fn x"
proof -
  let ?k = "cache_key L policy node x"
  obtain c1 a where g: "get now c ?k = (c1, a)" by (cases "get now c ?k")
  have f1: "faithful L policy node fn A c1" using assms(1) get_keeps [OF g] by (auto simp: faithful_def)
  show ?thesis
  proof (cases a)
    case (Some v)
    with get_holds [of now c ?k c1 v] g assms(1,2) have "fn x = Inr v" by (auto simp: faithful_def)
    with Some g f1 assms(4) show ?thesis by (simp add: Cached_Execute_def Let_def)
  next
    case None
    show ?thesis
    proof (cases "fn x")
      case (Inl e)
      with None g f1 assms(4) show ?thesis by (simp add: Cached_Execute_def Let_def)
    next
      case (Inr w)
      let ?c' = "store now c1 ?k w (case Option.bind policy CpTTL of Some t \<Rightarrow> t | None \<Rightarrow> 0)"
      have "fn y = Inr v" if "y \<in> A" "holds ?c' (cache_key L policy node y) v" for y v
        using set_holds [OF that(2)] f1 that(1) assms(2,3) Inr by (auto simp: faithful_def dest: inj_onD)
      with Inr None g assms(4) show ?thesis by (auto simp: Cached_Execute_def Let_def faithful_def)
    qed
  qed
qed

lemma new_faithful: "faithful L policy node fn A new"
  by (simp add: faithful_def new_holds)

end

definition mc_holds :: "MemoryCache \<Rightarrow> string \<Rightarrow> gval \<Rightarrow> bool" where
  "mc_holds c k v \<longleftrightarrow> (\<exists>e. mget (mc_data c) k = Some e \<and> ce_value e = v)"

lemma evict_data: "\<exists>k. mc_data (evict c) = mdel k (mc_data c) \<or> mc_data (evict c) = mc_data c"
  by (auto simp: evict_def)

lemma evict_holds: "mc_holds (evict c) k v \<Longrightarrow> mc_holds c k v"
  using evict_data [of c] by (auto simp: mc_holds_def gomap split: if_splits)

interpretation memory_cache: output_cache "NewMemoryCache n p" Cache_Get Cache_Set mc_holds for n p
proof
  show "\<not> mc_holds (NewMemoryCache n p) k v" for k v by (simp add: mc_holds_def NewMemoryCache_def)
  show "mc_holds c k v" if "Cache_Get now c k = (c', Some v)" for now c k c' v
    using that by (auto simp: Cache_Get_def mc_holds_def split: option.splits if_splits)
  show "mc_holds c k' v" if "Cache_Get now c k = (c', x)" "mc_holds c' k' v" for now c k c' x k' v
    using that by (auto simp: Cache_Get_def mc_holds_def gomap split: option.splits if_splits)
  show "(k' = k \<and> v = w) \<or> mc_holds c k' v" if "mc_holds (Cache_Set now c k w ttl) k' v" for now c k w ttl k' v
  proof -
    let ?c1 = "if int (length (mc_data c)) \<ge> mc_maxSize c then evict c else c"
    have "(k' = k \<and> v = w) \<or> mc_holds ?c1 k' v"
      using that by (auto simp: Cache_Set_def mc_holds_def gomap Let_def split: if_splits)
    then show ?thesis using evict_holds [of c k' v] by (auto split: if_splits)
  qed
qed

interpretation noop_cache: output_cache "()" Noop_Get Noop_Set "\<lambda>c k v. False"
  by unfold_locales (auto simp: Noop_Get_def)

section \<open>Properties\<close>

text \<open>A sequence of executions, each with its time and input.\<close>

fun cached_runs ::
  "golib \<Rightarrow> CachePolicy option \<Rightarrow> string \<Rightarrow> (gval \<Rightarrow> gval res) \<Rightarrow> MemoryCache \<Rightarrow> (int \<times> gval) list \<Rightarrow> gval res list" where
  "cached_runs L policy node fn c [] = []"
| "cached_runs L policy node fn c ((now, x) # xs) =
     (case Cached_Execute Cache_Get Cache_Set L policy now c node x fn of (c', r) \<Rightarrow> r # cached_runs L policy node fn c' xs)"

lemma cached_runs_faithful:
  assumes "memory_cache.faithful L policy node fn A c" and "snd ` set xs \<subseteq> A" and "inj_on (cache_key L policy node) A"
  shows "cached_runs L policy node fn c xs = map (\<lambda>(now, x). fn x) xs"
  using assms
proof (induction xs arbitrary: c)
  case (Cons p xs)
  obtain now x where p: "p = (now, x)" by (cases p)
  obtain c' r where e: "Cached_Execute Cache_Get Cache_Set L policy now c node x fn = (c', r)"
    by (cases "Cached_Execute Cache_Get Cache_Set L policy now c node x fn")
  have "x \<in> A" using Cons.prems(2) p by simp
  from memory_cache.execute_faithful [OF Cons.prems(1) this Cons.prems(3) e] Cons.IH [of c'] Cons.prems p e
  show ?case by simp
qed simp

text \<open>C17: Caching cannot be observed as long as keys are unambiguous: whatever the size, the eviction policy, the
  time to live and the clock, any sequence of cached executions returns what running the node each time
  would return, if the cache key distinguishes the inputs. But the generated key of an input that
  does not marshal names only its type: the second of two such inputs of one type gets the
  output of the first.\<close>

theorem cache_transparent:
  assumes "inj_on (cache_key L policy node) (snd ` set xs)"
  shows "cached_runs L policy node fn (NewMemoryCache maxSize ev) xs = map (\<lambda>(now, x). fn x) xs \<and>
    (json_marshal L x = None \<and> json_marshal L y = None \<and> fmt_T L x = fmt_T L y \<and> fn x = Inr v \<longrightarrow>
       cached_runs L None node fn (NewMemoryCache maxSize ev) [(t, x), (t', y)] = [Inr v, Inr v])"
proof (intro conjI impI; (elim conjE)?)
  show "cached_runs L policy node fn (NewMemoryCache maxSize ev) xs = map (\<lambda>(now, x). fn x) xs"
    by (rule cached_runs_faithful [OF memory_cache.new_faithful order_refl assms])
next
  assume "json_marshal L x = None" "json_marshal L y = None" "fmt_T L x = fmt_T L y" "fn x = Inr v"
  then show "cached_runs L None node fn (NewMemoryCache maxSize ev) [(t, x), (t', y)] = [Inr v, Inr v]"
    by (simp add: Cached_Execute_def cache_key_def GenerateCacheKey_def Cache_Get_def Cache_Set_def
      NewMemoryCache_def evict_def expired_def Let_def)
qed

definition sample_policy :: CachePolicy where
  "sample_policy = \<lparr>CpKeyFunc = Some (\<lambda>x. case x of GStr s \<Rightarrow> s | _ \<Rightarrow> []), CpTTL = Some 5\<rparr>"

definition sample_inputs :: "(int \<times> gval) list" where
  "sample_inputs = [(0, GStr ''a''), (1, GStr ''b''), (2, GStr ''a'')]"

theorem cache_transparent_witness:
  "cached_runs sample_lib (Some sample_policy) ''n'' (\<lambda>x. Inr (GSlice [x])) (NewMemoryCache 1 EvictLRU) sample_inputs =
    [Inr (GSlice [GStr ''a'']), Inr (GSlice [GStr ''b'']), Inr (GSlice [GStr ''a''])]"
proof -
  have "inj_on (cache_key sample_lib (Some sample_policy) ''n'') (snd ` set sample_inputs)"
    by (auto simp: inj_on_def cache_key_def sample_policy_def sample_inputs_def)
  from conjunct1 [OF cache_transparent [OF this]]
  have "cached_runs sample_lib (Some sample_policy) ''n'' (\<lambda>x. Inr (GSlice [x])) (NewMemoryCache 1 EvictLRU) sample_inputs =
    map (\<lambda>(now, x). Inr (GSlice [x])) sample_inputs" .
  then show ?thesis by (simp add: sample_inputs_def del: cached_runs.simps)
qed

section \<open>The size of the cache\<close>

datatype cache_op = CGet int string | CSet int string gval int | CDelete string | CClear

fun cache_do :: "cache_op \<Rightarrow> MemoryCache \<Rightarrow> MemoryCache" where
  "cache_do (CGet now k) c = fst (Cache_Get now c k)"
| "cache_do (CSet now k v ttl) c = Cache_Set now c k v ttl"
| "cache_do (CDelete k) c = Cache_Delete c k"
| "cache_do CClear c = Cache_Clear c"

fun named :: "cache_op \<Rightarrow> bool" where
  "named (CSet now k v ttl) = (k \<noteq> [])"
| "named _ = True"

lemma lru_choice_in:
  assumes "m \<noteq> []"
  shows "lru_choice m \<in> mdom m"
proof -
  let ?f = "\<lambda>(k, e) (key, oldest). case oldest of
            None \<Rightarrow> (k, Some (ce_lastAccess e))
          | Some x \<Rightarrow> (if ce_lastAccess e < x then (k, Some (ce_lastAccess e)) else (key, oldest))"
  have inv: "fst (fold ?f m (key, Some x)) \<in> insert key (mdom m)" for m key x
    by (induction m arbitrary: key x) (auto split: if_splits; blast)+
  obtain k e m' where "m = (k, e) # m'" using assms by (cases m) auto
  with inv [of m' k "ce_lastAccess e"] show ?thesis by (simp add: lru_choice_def)
qed

lemma lfu_choice_in:
  assumes "m \<noteq> []"
  shows "lfu_choice m \<in> mdom m"
proof -
  let ?f = "\<lambda>(k, e) (key, minHits). if minHits = -1 \<or> ce_hits e < minHits then (k, ce_hits e) else (key, minHits)"
  have inv: "fst (fold ?f m (key, x)) \<in> insert key (mdom m)" for m key x
    by (induction m arbitrary: key x) (auto split: if_splits; blast)+
  obtain k e m' where "m = (k, e) # m'" using assms by (cases m) auto
  with inv [of m' k "ce_hits e"] show ?thesis by (simp add: lfu_choice_def)
qed

lemma evict_key_in: "mc_data c \<noteq> [] \<Longrightarrow> evict_key c \<in> mdom (mc_data c)"
  using lru_choice_in lfu_choice_in
  by (auto simp: evict_key_def split: EvictionPolicy.splits list.splits)

lemma length_mdel:
  assumes "gomap_ok m" and "k \<in> mdom m"
  shows "length (mdel k m) = length m - 1"
proof -
  have "set (mkeys (mdel k m)) = mdom m - {k}" by (auto simp: AList.delete_eq)
  moreover have "length (mdel k m) = card (set (mkeys (mdel k m)))" "length m = card (mdom m)"
    using gomap_ok_mdel [OF assms(1)] assms(1) unfolding gomap_ok_def by (metis distinct_card length_map set_map)+
  ultimately show ?thesis using assms(2) by simp
qed

lemma length_mput: "length (mput k v m) = (if k \<in> mdom m then length m else Suc (length m))"
  by (induction m) auto

lemma length_mdel_le: "length (mdel k m) \<le> length m"
  by (simp add: AList.delete_eq)

definition cache_ok :: "MemoryCache \<Rightarrow> bool" where
  "cache_ok c \<longleftrightarrow> gomap_ok (mc_data c) \<and> [] \<notin> mdom (mc_data c) \<and> int (length (mc_data c)) \<le> max 1 (mc_maxSize c)"

lemma mdom_mdel_subset: "mdom (mdel k m) \<subseteq> mdom m"
  by (auto simp: AList.delete_eq)

lemma evict_shrinks:
  assumes "cache_ok c" and "mc_data c \<noteq> []"
  shows "mc_data (evict c) = mdel (evict_key c) (mc_data c) \<and> length (mc_data (evict c)) = length (mc_data c) - 1"
proof -
  have "evict_key c \<in> mdom (mc_data c)" using evict_key_in assms(2) by blast
  moreover from this have "evict_key c \<noteq> []" using assms(1) by (metis cache_ok_def)
  ultimately show ?thesis using assms length_mdel by (auto simp: evict_def cache_ok_def)
qed

lemma evict_ok:
  assumes "cache_ok c"
  shows "cache_ok (evict c) \<and> mc_maxSize (evict c) = mc_maxSize c"
proof (cases "mc_data c = []")
  case False
  note e = evict_shrinks [OF assms False]
  have "[] \<notin> mdom (mdel (evict_key c) (mc_data c))"
    using assms mdom_mdel_subset unfolding cache_ok_def by (metis subsetD)
  with e assms show ?thesis by (auto simp: cache_ok_def evict_def [of c])
qed (use assms in \<open>simp add: evict_def\<close>)

lemma set_data_ok:
  assumes "cache_ok c" and "k \<noteq> []" and "int (length (mc_data c)) < max 1 (mc_maxSize c)"
  shows "cache_ok (c\<lparr>mc_data := mput k e (mc_data c)\<rparr>)"
  using assms by (simp add: cache_ok_def gomap length_mput)

lemma Cache_Set_ok:
  assumes "cache_ok c" and "k \<noteq> []"
  shows "cache_ok (Cache_Set now c k v ttl)"
proof (cases "int (length (mc_data c)) \<ge> mc_maxSize c")
  case True
  have "int (length (mc_data (evict c))) < max 1 (mc_maxSize (evict c))"
  proof (cases "mc_data c = []")
    case False
    with evict_shrinks [OF assms(1) False] evict_ok [OF assms(1)] assms(1) show ?thesis
      by (cases "mc_data c") (auto simp: cache_ok_def)
  qed (simp add: evict_def)
  with True set_data_ok [OF conjunct1 [OF evict_ok [OF assms(1)]] assms(2)] show ?thesis
    by (simp add: Cache_Set_def Let_def)
next
  case False
  with set_data_ok [OF assms] show ?thesis by (simp add: Cache_Set_def Let_def)
qed

lemma cache_do_ok: "cache_ok c \<Longrightarrow> named p \<Longrightarrow> cache_ok (cache_do p c) \<and> mc_maxSize (cache_do p c) = mc_maxSize c"
proof (cases p)
  case (CGet now k)
  then show "cache_ok c \<Longrightarrow> ?thesis"
    by (auto simp: Cache_Get_def cache_ok_def gomap length_mput mdom_get split: option.splits)
next
  case (CSet now k v ttl)
  then show "cache_ok c \<Longrightarrow> named p \<Longrightarrow> ?thesis"
    using Cache_Set_ok [of c k now v ttl] by (simp add: Cache_Set_def evict_def Let_def)
next
  case (CDelete k)
  then show "cache_ok c \<Longrightarrow> ?thesis"
    using mdom_mdel_subset [of k "mc_data c"] length_mdel_le [of k "mc_data c"]
    by (auto simp: Cache_Delete_def cache_ok_def)
next
  case CClear
  then show ?thesis by (simp add: Cache_Clear_def cache_ok_def)
qed

lemma fold_cache_ok: "cache_ok c \<Longrightarrow> list_all named ps \<Longrightarrow> cache_ok (fold cache_do ps c) \<and> mc_maxSize (fold cache_do ps c) = mc_maxSize c"
  by (induction ps arbitrary: c) (auto simp: cache_do_ok)

text \<open>An entry under the empty key that is the oldest is chosen, and not evicted.\<close>

lemma lru_choice_first:
  assumes "\<forall>(k, e') \<in> set m. ce_lastAccess e < ce_lastAccess e'"
  shows "lru_choice (([], e) # m) = []"
proof -
  have "fold (\<lambda>(k, e) (key, oldest). case oldest of
            None \<Rightarrow> (k, Some (ce_lastAccess e))
          | Some x \<Rightarrow> (if ce_lastAccess e < x then (k, Some (ce_lastAccess e)) else (key, oldest))) m (key, Some (ce_lastAccess e)) =
      (key, Some (ce_lastAccess e))" for key :: string
    using assms by (induction m) auto
  then show ?thesis by (simp add: lru_choice_def)
qed

lemma empty_key_grows:
  assumes "mc_data c = ([], e) # m" and "\<forall>(k, e') \<in> set m. ce_lastAccess e < ce_lastAccess e'" and "ce_lastAccess e < now"
    and "mc_eviction c = EvictLRU" and "list_all (\<lambda>k. k \<noteq> []) ks" and "distinct ks" and "mdom m \<inter> set ks = {}"
  shows "length (mc_data (fold (\<lambda>k c. Cache_Set now c k v ttl) ks c)) = length (mc_data c) + length ks"
  using assms
proof (induction ks arbitrary: c m)
  case (Cons k ks)
  have "evict c = c" using lru_choice_first [OF Cons.prems(2)] Cons.prems(1,4) by (simp add: evict_def evict_key_def)
  then have d: "mc_data (Cache_Set now c k v ttl) = ([], e) # m @ [(k, \<lparr>ce_value = v,
      ce_expiration = (if ttl > 0 then Some (now + ttl) else None), ce_lastAccess = now, ce_hits = 0\<rparr>)]"
    and p: "mc_eviction (Cache_Set now c k v ttl) = EvictLRU"
    using Cons.prems(1,4,5,7) mput_fresh [of k m] by (auto simp: Cache_Set_def Let_def)
  from Cons.IH [OF d _ Cons.prems(3) p] Cons.prems d show ?case by auto
qed simp

text \<open>With non-empty keys the cache never holds more entries than its maximal size (one, where that is not
  positive), under every eviction policy and any mix of reads, writes and deletions. An entry under the empty
  key breaks the bound: the least-recently-used policy chooses it while it is the oldest and then does not
  delete it, so the cache grows with every new key.\<close>

theorem cache_bounded:
  assumes "list_all named ops"
  shows "int (length (mc_data (fold cache_do ops (NewMemoryCache n ev)))) \<le> max 1 n \<and>
    (list_all (\<lambda>k. k \<noteq> []) ks \<and> distinct ks \<longrightarrow>
       length (mc_data (fold cache_do (CSet 0 [] v 0 # map (\<lambda>k. CSet 1 k v 0) ks) (NewMemoryCache n EvictLRU))) =
         Suc (length ks))"
proof -
  have "cache_ok (NewMemoryCache n ev)" by (simp add: cache_ok_def NewMemoryCache_def)
  from fold_cache_ok [OF this assms]
  have "int (length (mc_data (fold cache_do ops (NewMemoryCache n ev)))) \<le> max 1 n"
    unfolding cache_ok_def by (metis NewMemoryCache_def MemoryCache.select_convs(2))
  moreover have "length (mc_data (fold cache_do (CSet 0 [] v 0 # map (\<lambda>k. CSet 1 k v 0) ks) (NewMemoryCache n EvictLRU))) =
      Suc (length ks)" if "list_all (\<lambda>k. k \<noteq> []) ks" "distinct ks"
  proof -
    let ?c = "Cache_Set 0 (NewMemoryCache n EvictLRU) [] v 0"
    have c: "mc_data ?c = ([], \<lparr>ce_value = v, ce_expiration = None, ce_lastAccess = 0, ce_hits = 0\<rparr>) # []"
      "mc_eviction ?c = EvictLRU" by (simp_all add: Cache_Set_def NewMemoryCache_def evict_def Let_def)
    have "fold cache_do (map (\<lambda>k. CSet 1 k v 0) ks) ?c = fold (\<lambda>k c. Cache_Set 1 c k v 0) ks ?c"
    proof -
      have "cache_do \<circ> (\<lambda>k. CSet 1 k v 0) = (\<lambda>k c. Cache_Set 1 c k v 0)" by (simp add: fun_eq_iff)
      then show ?thesis by (simp add: fold_map)
    qed
    with empty_key_grows [OF c(1) _ _ c(2), of 1 ks v 0] that c(1) show ?thesis by simp
  qed
  ultimately show ?thesis by blast
qed

theorem cache_bounded_witness:
  "length (mc_data (fold cache_do [CSet 1 ''a'' GNil 0, CSet 2 ''b'' GNil 0, CGet 3 ''a'', CSet 4 ''c'' GNil 0]
     (NewMemoryCache 2 EvictLRU))) \<le> 2 \<and>
   length (mc_data (fold cache_do [CSet 0 [] GNil 0, CSet 1 ''a'' GNil 0, CSet 1 ''b'' GNil 0, CSet 1 ''c'' GNil 0]
     (NewMemoryCache 2 EvictLRU))) = 4"
  using cache_bounded [of "[CSet 1 ''a'' GNil 0, CSet 2 ''b'' GNil 0, CGet 3 ''a'', CSet 4 ''c'' GNil 0]" 2 EvictLRU
    "[''a'', ''b'', ''c'']" GNil]
  by (simp del: fold_simps)

end
