(* ===== verification/Interrupts.thy ===== *)
theory Interrupts
  imports Sample_Lib
begin

text \<open>
  Interrupts from inside a node (\<open>interrupt/interrupt.go\<close>): a node asks a question with \<open>Interrupt\<close>; the first
  time it raises a \<open>GraphInterrupt\<close>, and when the node is run again after a resume, the calls are answered by
  the resume values in order. The state is an \<open>interruptContext\<close>, found in the request's context or, without
  one, the global one; both are in \<open>interrupt_world\<close> together with the process-wide counter of
  identifiers. Each method takes the lock of its context once, as the definitions do.
\<close>

section \<open>Contexts\<close>

record interruptContext =
  ic_resumeValues :: "gval list"
  ic_index :: nat
  ic_nullResume :: gval

definition new_context :: interruptContext where
  "new_context = \<lparr>ic_resumeValues = [], ic_index = 0, ic_nullResume = GNil\<rparr>"

record interrupt_world =
  iw_request :: "interruptContext option"
  iw_global :: interruptContext
  iw_counter :: int

definition WithInterruptContext :: "interrupt_world \<Rightarrow> interrupt_world" where
  "WithInterruptContext w = w\<lparr>iw_request := Some new_context\<rparr>"

definition IsInterruptContext :: "interrupt_world \<Rightarrow> bool" where
  "IsInterruptContext w = (iw_request w \<noteq> None)"

definition the_context :: "interrupt_world \<Rightarrow> interruptContext" where
  "the_context w = (case iw_request w of Some ic \<Rightarrow> ic | None \<Rightarrow> iw_global w)"

definition put_context :: "interruptContext \<Rightarrow> interrupt_world \<Rightarrow> interrupt_world" where
  "put_context ic w =
     (case iw_request w of Some old \<Rightarrow> w\<lparr>iw_request := Some ic\<rparr> | None \<Rightarrow> w\<lparr>iw_global := ic\<rparr>)"

definition consumeNextResumeValue :: "interruptContext \<Rightarrow> interruptContext \<times> gval option" where
  "consumeNextResumeValue ic =
     (if ic_index ic < length (ic_resumeValues ic)
      then (ic\<lparr>ic_index := ic_index ic + 1\<rparr>, Some (ic_resumeValues ic ! ic_index ic))
      else (ic, None))"

definition appendResumeValue :: "gval \<Rightarrow> interruptContext \<Rightarrow> interruptContext" where
  "appendResumeValue v ic = ic\<lparr>ic_resumeValues := ic_resumeValues ic @ [v]\<rparr>"

definition setNullResume :: "gval \<Rightarrow> interruptContext \<Rightarrow> interruptContext" where
  "setNullResume v ic = ic\<lparr>ic_nullResume := v\<rparr>"

definition setResumeValues :: "gval list \<Rightarrow> interruptContext \<Rightarrow> interruptContext" where
  "setResumeValues vs ic = ic\<lparr>ic_resumeValues := vs\<rparr>"

definition ic_reset :: "interruptContext \<Rightarrow> interruptContext" where
  "ic_reset ic = \<lparr>ic_resumeValues = [], ic_index = 0, ic_nullResume = GNil\<rparr>"

section \<open>Operations\<close>

definition generateInterruptID :: "golib \<Rightarrow> int \<Rightarrow> gval \<Rightarrow> string" where
  "generateInterruptID L n value = to_hex L (take 8 (sha256 L (fmt_v L value))) @ CHR ''_'' # fmt_d L n"

definition Interrupt_call :: "golib \<Rightarrow> gval \<Rightarrow> interrupt_world \<Rightarrow> interrupt_world \<times> gval res" where
  "Interrupt_call L value w =
     (case consumeNextResumeValue (the_context w) of
        (ic, Some v) \<Rightarrow> (put_context ic w, Inr v)
      | (ic, None) \<Rightarrow>
          (let v = ic_nullResume ic
           in if v \<noteq> GNil then (put_context (appendResumeValue v (setNullResume GNil ic)) w, Inr v)
              else let n = iw_counter w + 1
                   in (w\<lparr>iw_counter := n\<rparr>, Inl (GraphInterrupt [Interrupt value (generateInterruptID L n value)]))))"

definition GetResumeValues :: "interrupt_world \<Rightarrow> gval list" where
  "GetResumeValues w = ic_resumeValues (the_context w)"

definition GetInterruptIndex :: "interrupt_world \<Rightarrow> nat" where
  "GetInterruptIndex w = ic_index (the_context w)"

definition AppendResumeValue :: "gval \<Rightarrow> interrupt_world \<Rightarrow> interrupt_world" where
  "AppendResumeValue v w = put_context (appendResumeValue v (the_context w)) w"

definition GetNullResume :: "bool \<Rightarrow> interrupt_world \<Rightarrow> interrupt_world \<times> gval" where
  "GetNullResume consume w =
     (if consume then put_context (setNullResume GNil (the_context w)) w else w, ic_nullResume (the_context w))"

definition Reset :: "interrupt_world \<Rightarrow> interrupt_world" where
  "Reset w = put_context (ic_reset (the_context w)) w"

definition SetResumeValues :: "gval list \<Rightarrow> interrupt_world \<Rightarrow> interrupt_world" where
  "SetResumeValues vs w = put_context (setResumeValues vs (the_context w)) w"

definition IsInterrupt :: "gerr option \<Rightarrow> bool" where
  "IsInterrupt err = IsGraphInterrupt err"

definition GetInterruptValue :: "gerr option \<Rightarrow> gval option" where
  "GetInterruptValue err =
     (case err of
        Some (GraphInterrupt (Interrupt v i # is)) \<Rightarrow> Some v
      | Some (GraphInterrupt (OtherItem v # is)) \<Rightarrow> Some v
      | _ \<Rightarrow> None)"

section \<open>A node that asks\<close>

text \<open>
  A node run: it asks its questions in order, keeps the answers, and stops at the first interrupt.
\<close>

fun ask_all :: "golib \<Rightarrow> gval list \<Rightarrow> interrupt_world \<Rightarrow> gval list \<Rightarrow> interrupt_world \<times> gval list res" where
  "ask_all L [] w acc = (w, Inr acc)"
| "ask_all L (q # qs) w acc =
     (case Interrupt_call L q w of
        (w', Inl e) \<Rightarrow> (w', Inl e)
      | (w', Inr a) \<Rightarrow> ask_all L qs w' (acc @ [a]))"

lemma context_simps [simp]:
  "the_context (put_context ic w) = ic"
  "put_context ic (put_context ic' w) = put_context ic w"
  "put_context (the_context w) w = w"
  "iw_counter (put_context ic w) = iw_counter w"
  by (auto simp: the_context_def put_context_def split: option.splits)

lemma ask_consumes:
  assumes "ic_resumeValues (the_context w) = vs" and "ic_index (the_context w) + length qs \<le> length vs"
  shows "ask_all L (qs @ more_qs) w acc =
    ask_all L more_qs (put_context ((the_context w)\<lparr>ic_index := ic_index (the_context w) + length qs\<rparr>) w)
      (acc @ take (length qs) (drop (ic_index (the_context w)) vs))"
  using assms
proof (induction qs arbitrary: w acc)
  case Nil
  then show ?case by simp
next
  case (Cons q qs)
  let ?ic = "(the_context w)\<lparr>ic_index := ic_index (the_context w) + 1\<rparr>"
  have i: "ic_index (the_context w) < length vs" using Cons.prems(2) by simp
  then have "Interrupt_call L q w = (put_context ?ic w, Inr (vs ! ic_index (the_context w)))"
    using Cons.prems(1) by (simp add: Interrupt_call_def consumeNextResumeValue_def)
  moreover have "take (Suc n) (drop j vs) = vs ! j # take n (drop (Suc j) vs)" if "j < length vs" for n j
    using that by (simp add: Cons_nth_drop_Suc [symmetric])
  ultimately show ?case
    using Cons.IH [of "put_context ?ic w" "acc @ [vs ! ic_index (the_context w)]"] Cons.prems i by simp
qed

lemma ask_raises:
  assumes "ic_index (the_context w) \<ge> length (ic_resumeValues (the_context w))" and "ic_nullResume (the_context w) = GNil"
  shows "ask_all L (q # qs) w acc = (w\<lparr>iw_counter := iw_counter w + 1\<rparr>,
    Inl (GraphInterrupt [Interrupt q (generateInterruptID L (iw_counter w + 1) q)]))"
  using assms by (simp add: Interrupt_call_def consumeNextResumeValue_def Let_def)

lemma ask_null:
  assumes "ic_index (the_context w) = length (ic_resumeValues (the_context w))" and "ic_nullResume (the_context w) = v"
    and "v \<noteq> GNil"
  shows "\<exists>w'. ask_all L (q # q' # qs) w acc = ask_all L qs w' (acc @ [v, v]) \<and>
    ic_index (the_context w') = length (ic_resumeValues (the_context w')) \<and> ic_nullResume (the_context w') = GNil \<and>
    iw_counter w' = iw_counter w"
  using assms
  by (auto simp: Interrupt_call_def consumeNextResumeValue_def Let_def setNullResume_def appendResumeValue_def)

text \<open>C18: Resume values answer the questions of a node in order. When the node is run with a request context that
  holds the resume values, and no null resume, the first questions get exactly these values; a node with
  no more questions than values succeeds, otherwise the first question without a value raises an
  interrupt that carries it, from which it can be read back. The global context is not touched. A null
  resume value, however, answers two questions: it is appended to the values without advancing the index.\<close>

theorem resume_answers_in_order:
  assumes "iw_request w = Some \<lparr>ic_resumeValues = vs, ic_index = 0, ic_nullResume = nr\<rparr>"
  shows "(length qs \<le> length vs \<longrightarrow> snd (ask_all L qs w []) = Inr (take (length qs) vs) \<and>
       iw_global (fst (ask_all L qs w [])) = iw_global w) \<and>
    (nr = GNil \<and> length vs < length qs \<longrightarrow> (\<exists>err. snd (ask_all L qs w []) = Inl err \<and> IsInterrupt (Some err) \<and>
       GetInterruptValue (Some err) = Some (qs ! length vs))) \<and>
    (nr \<noteq> GNil \<and> length qs = length vs + 2 \<longrightarrow> snd (ask_all L qs w []) = Inr (vs @ [nr, nr]))"
proof (intro conjI impI; (elim conjE)?)
  have ctx: "the_context w = \<lparr>ic_resumeValues = vs, ic_index = 0, ic_nullResume = nr\<rparr>"
    using assms by (simp add: the_context_def)
  have all: "ask_all L (take (length vs) qs @ rest) w [] =
      ask_all L rest (put_context ((the_context w)\<lparr>ic_index := length vs\<rparr>) w) vs" if "length vs \<le> length qs" for rest
    using ask_consumes [of w vs "take (length vs) qs" L rest "[]"] that by (simp add: ctx)
  {
    assume "length qs \<le> length vs"
    with ask_consumes [of w vs qs L "[]" "[]"]
    have "ask_all L qs w [] = (put_context ((the_context w)\<lparr>ic_index := length qs\<rparr>) w, Inr (take (length qs) vs))"
      by (simp add: ctx)
    then show "snd (ask_all L qs w []) = Inr (take (length qs) vs)"
      "iw_global (fst (ask_all L qs w [])) = iw_global w" using assms by (simp_all add: put_context_def)
  }
  {
    assume nr: "nr = GNil" and len: "length vs < length qs"
    then have "qs = take (length vs) qs @ qs ! length vs # drop (Suc (length vs)) qs" by (simp add: id_take_nth_drop)
    then have "ask_all L qs w [] = ask_all L (qs ! length vs # drop (Suc (length vs)) qs)
        (put_context ((the_context w)\<lparr>ic_index := length vs\<rparr>) w) vs" using all len by (metis less_imp_le)
    with nr show "\<exists>err. snd (ask_all L qs w []) = Inl err \<and> IsInterrupt (Some err) \<and>
        GetInterruptValue (Some err) = Some (qs ! length vs)"
      by (simp add: ask_raises ctx IsInterrupt_def IsGraphInterrupt_def GetInterruptValue_def del: ask_all.simps)
  }
  {
    assume nr: "nr \<noteq> GNil" and len: "length qs = length vs + 2"
    then obtain q q' where d: "drop (length vs) qs = [q, q']"
      by (metis add_diff_cancel_left' length_0_conv length_Suc_conv length_drop numeral_2_eq_2)
    then have "ask_all L qs w [] = ask_all L [q, q'] (put_context ((the_context w)\<lparr>ic_index := length vs\<rparr>) w) vs"
      using all [of "[q, q']"] len append_take_drop_id [of "length vs" qs] by (metis le_add1)
    with ask_null [of "put_context ((the_context w)\<lparr>ic_index := length vs\<rparr>) w" nr L q q' "[]" vs] nr ctx
    show "snd (ask_all L qs w []) = Inr (vs @ [nr, nr])" by (auto simp del: ask_all.simps(2))
  }
qed

definition sample_world :: interrupt_world where
  "sample_world = SetResumeValues [GStr ''yes''] (WithInterruptContext \<lparr>iw_request = None, iw_global = new_context, iw_counter = 0\<rparr>)"

theorem resume_answers_in_order_witness:
  "\<exists>err. snd (ask_all sample_lib [GStr ''really?'', GStr ''sure?''] sample_world []) = Inl err \<and>
     GetInterruptValue (Some err) = Some (GStr ''sure?'')"
proof -
  have "iw_request sample_world = Some \<lparr>ic_resumeValues = [GStr ''yes''], ic_index = 0, ic_nullResume = GNil\<rparr>"
    by (simp add: sample_world_def SetResumeValues_def WithInterruptContext_def put_context_def the_context_def
      new_context_def setResumeValues_def)
  from resume_answers_in_order [OF this, of "[GStr ''really?'', GStr ''sure?'']" sample_lib]
  show ?thesis by (auto simp del: ask_all.simps)
qed

end
