(* ===== verification/Loop_Node.thy ===== *)
theory Loop_Node
  imports Interrupts Engine_Durability
begin

text \<open>
  The loop node (\<open>graph/loop.go\<close>): a node that runs a sub-graph again and again until a condition holds. The
  sub-graph is the parameter \<open>invoke\<close>: its run on a thread and an input, on a world that holds the stores of the
  checkpointers (of any type) and the interrupt contexts, which the sub-graph shares with the loop. When the
  sub-graph is interrupted the loop raises an interrupt of its own whose value is the state to resume from.

  \<open>json.Unmarshal\<close> at the type of that state is the parameter \<open>decode\<close> (\<open>None\<close>: an error).
\<close>

section \<open>Options and state\<close>

record loopOptions =
  lo_maxIterations :: int
  lo_checkpointIDPrefix :: string

definition WithLoopMaxIterations :: "int \<Rightarrow> loopOptions \<Rightarrow> loopOptions" where
  "WithLoopMaxIterations n opts = (if n \<ge> 0 then opts\<lparr>lo_maxIterations := n\<rparr> else opts)"

definition WithLoopCheckpointIDPrefix :: "string \<Rightarrow> loopOptions \<Rightarrow> loopOptions" where
  "WithLoopCheckpointIDPrefix prefix opts = (if prefix \<noteq> [] then opts\<lparr>lo_checkpointIDPrefix := prefix\<rparr> else opts)"

definition getLoopOptions :: "(loopOptions \<Rightarrow> loopOptions) list \<Rightarrow> loopOptions" where
  "getLoopOptions opts = fold (\<lambda>opt o1. opt o1) opts \<lparr>lo_maxIterations = 1024, lo_checkpointIDPrefix = []\<rparr>"

text \<open>A nil \<open>json.RawMessage\<close> is \<open>None\<close>.\<close>

record loopInterruptState =
  LsIteration :: int
  LsCurrentInput :: "string option"
  LsUserFillUpValue :: "string option"

definition raw_message :: "string option \<Rightarrow> gval" where
  "raw_message r = (case r of Some b \<Rightarrow> GTyped (TOther ''json.RawMessage'') (GBytes b)
                            | None \<Rightarrow> GZero (TOther ''json.RawMessage''))"

text \<open>The state as the value of the interrupt.\<close>

definition loop_state_value :: "loopInterruptState \<Rightarrow> gval" where
  "loop_state_value st =
     GStruct ''loopInterruptState''
       [(''Iteration'', True, TInt, GInt (word_of_int (LsIteration st))),
        (''CurrentInput'', True, TOther ''json.RawMessage'', raw_message (LsCurrentInput st)),
        (''UserFillUpValue'', True, TOther ''json.RawMessage'', raw_message (LsUserFillUpValue st))]"

section \<open>Finding the state to resume from\<close>

definition decode_loop_state :: "(string \<Rightarrow> loopInterruptState option) \<Rightarrow> string \<Rightarrow> loopInterruptState option" where
  "decode_loop_state decode b =
     (case decode b of Some st \<Rightarrow> (if LsIteration st > 0 then Some st else None) | None \<Rightarrow> None)"

fun first_loop_state :: "(string \<Rightarrow> loopInterruptState option) \<Rightarrow> gval list \<Rightarrow> loopInterruptState option" where
  "first_loop_state decode [] = None"
| "first_loop_state decode (v # vs) =
     (case (case v of GBytes b \<Rightarrow> decode_loop_state decode b | GStr s \<Rightarrow> decode_loop_state decode s | _ \<Rightarrow> None) of
        Some st \<Rightarrow> Some st
      | None \<Rightarrow> first_loop_state decode vs)"

text \<open>\<open>sub\<close> is the sub-graph state the engine put into the context.\<close>

definition loadLoopSnapshot ::
  "(string \<Rightarrow> loopInterruptState option) \<Rightarrow> gval option \<Rightarrow> interrupt_world \<Rightarrow> loopInterruptState option" where
  "loadLoopSnapshot decode sub iw =
     (case (case sub of Some (GBytes b) \<Rightarrow> decode_loop_state decode b | _ \<Rightarrow> None) of
        Some st \<Rightarrow> Some st
      | None \<Rightarrow> first_loop_state decode (GetResumeValues iw))"

text \<open>What the engine puts there from a loaded checkpoint.\<close>

definition restored_sub_state :: "gval gomap \<Rightarrow> gval option" where
  "restored_sub_state cpData =
     (case mget cpData ''__sub_state__'' of
        Some (GBytes b) \<Rightarrow> Some (GBytes b) | Some (GStr s) \<Rightarrow> Some (GBytes s) | _ \<Rightarrow> None)"

section \<open>The loop\<close>

type_synonym 's sub_invoke = "string \<Rightarrow> gval \<Rightarrow> 's \<times> interrupt_world \<Rightarrow> ('s \<times> interrupt_world) \<times> gval res"

definition subCheckpointID :: "golib \<Rightarrow> string \<Rightarrow> loopOptions \<Rightarrow> int \<Rightarrow> string" where
  "subCheckpointID L key opts i =
     lo_checkpointIDPrefix opts @ '':loop:'' @ key @ '':iter:'' @ fmt_d L i"

definition ErrLoopMaxIterationsExceeded :: gerr where
  "ErrLoopMaxIterationsExceeded = Errorf ''graph: loop max iterations exceeded'' []"

definition ErrLoopResumeStateInvalid :: gerr where
  "ErrLoopResumeStateInvalid = Errorf ''graph: loop resume state invalid'' []"

text \<open>The sub-graph was interrupted with \<open>err\<close>: re-throw with the loop's state.\<close>

definition loop_interrupted ::
  "golib \<Rightarrow> int \<Rightarrow> gval \<Rightarrow> gerr \<Rightarrow> 's \<times> interrupt_world \<Rightarrow> ('s \<times> interrupt_world) \<times> gval res" where
  "loop_interrupted L i current err w =
     (case json_marshal L current of
        None \<Rightarrow> (w, Inl (Errorf ''graph: loop marshal state: %w'' []))
      | Some currentJSON \<Rightarrow>
          (let fillUpJSON = (case GetInterruptValue (Some err) of
                               None \<Rightarrow> None | Some GNil \<Rightarrow> None | Some v \<Rightarrow> json_marshal L v);
               st = \<lparr>LsIteration = i, LsCurrentInput = Some currentJSON, LsUserFillUpValue = fillUpJSON\<rparr>
           in case Interrupt_call L (loop_state_value st) (snd w) of
                (iw, Inl e) \<Rightarrow> ((fst w, iw), Inl e)
              | (iw, Inr v) \<Rightarrow> ((fst w, iw), Inr GNil)))"

function loop_iterate ::
  "golib \<Rightarrow> string \<Rightarrow> 's sub_invoke \<Rightarrow> (int \<Rightarrow> gval \<Rightarrow> gval \<Rightarrow> bool res) \<Rightarrow> loopOptions \<Rightarrow> int \<Rightarrow> gval \<Rightarrow>
   's \<times> interrupt_world \<Rightarrow> ('s \<times> interrupt_world) \<times> gval res" where
  "loop_iterate L key invoke shouldQuit opts i current w =
     (case invoke (subCheckpointID L key opts i) current w of
        (w', Inl err) \<Rightarrow>
          (if IsInterrupt (Some err) then loop_interrupted L i current err w'
           else (w', Inl (Errorf (''graph: loop iteration '' @ fmt_d L i @ '': %w'') [err])))
      | (w', Inr nxt) \<Rightarrow>
          (case shouldQuit i current nxt of
             Inl err \<Rightarrow> (w', Inl (Errorf (''graph: loop condition iteration '' @ fmt_d L i @ '': %w'') [err]))
           | Inr quit \<Rightarrow>
               (if quit then (w', Inr nxt)
                else if i \<ge> lo_maxIterations opts
                  then (w', Inl (Errorf (''%w: '' @ fmt_d L (lo_maxIterations opts)) [ErrLoopMaxIterationsExceeded]))
                else loop_iterate L key invoke shouldQuit opts (i + 1) nxt w')))"
  by pat_completeness auto
termination
  by (relation "measure (\<lambda>(L, key, invoke, shouldQuit, opts, i, current, w). nat (lo_maxIterations opts - i))") auto

declare loop_iterate.simps [simp del]

definition runLoop ::
  "golib \<Rightarrow> (string \<Rightarrow> loopInterruptState option) \<Rightarrow> gval option \<Rightarrow> string \<Rightarrow> 's sub_invoke \<Rightarrow>
   (int \<Rightarrow> gval \<Rightarrow> gval \<Rightarrow> bool res) \<Rightarrow> loopOptions \<Rightarrow> gval \<Rightarrow>
   's \<times> interrupt_world \<Rightarrow> ('s \<times> interrupt_world) \<times> gval res" where
  "runLoop L decode sub key invoke shouldQuit opts input w =
     (let start = (\<lambda>i current. loop_iterate L key invoke shouldQuit opts i
            (if current = GNil then GMap [] else current) w)
      in case loadLoopSnapshot decode sub (snd w) of
           None \<Rightarrow> start 1 input
         | Some snap \<Rightarrow>
             (case LsCurrentInput snap of
                None \<Rightarrow> start (LsIteration snap) input
              | Some text \<Rightarrow>
                  (case json_unmarshal L text of
                     None \<Rightarrow> (w, Inl (Errorf ''%w: decode current input: %w'' [ErrLoopResumeStateInvalid]))
                   | Some decoded \<Rightarrow> start (LsIteration snap) decoded)))"

definition NewLoopNodeFunc ::
  "golib \<Rightarrow> (string \<Rightarrow> loopInterruptState option) \<Rightarrow> string \<Rightarrow> 's sub_invoke option \<Rightarrow>
   (int \<Rightarrow> gval \<Rightarrow> gval \<Rightarrow> bool res) option \<Rightarrow> (loopOptions \<Rightarrow> loopOptions) list \<Rightarrow>
   (gval option \<Rightarrow> gval \<Rightarrow> 's \<times> interrupt_world \<Rightarrow> ('s \<times> interrupt_world) \<times> gval res) res" where
  "NewLoopNodeFunc L decode key sub shouldQuit opts =
     (if key = [] then Inl (Errorf ''graph: loop key is empty'' [])
      else case sub of
             None \<Rightarrow> Inl (Errorf ''graph: loop sub-graph is nil'' [])
           | Some invoke \<Rightarrow>
               (case shouldQuit of
                  None \<Rightarrow> Inl (Errorf ''graph: loop shouldQuit is nil'' [])
                | Some quit \<Rightarrow>
                    (let opts0 = getLoopOptions opts;
                         options = (if lo_checkpointIDPrefix opts0 = [] then opts0\<lparr>lo_checkpointIDPrefix := key\<rparr> else opts0)
                     in Inr (\<lambda>ctx input w. runLoop L decode ctx key invoke quit options input w))))"

section \<open>Unrolling\<close>

text \<open>
  The reference: the sub-graph run \<open>n\<close> times in a row, each time on the output before, with the checkpoint
  threads numbered from \<open>i\<close>. \<open>None\<close> when one of the runs fails.
\<close>

fun sub_runs ::
  "golib \<Rightarrow> string \<Rightarrow> 's sub_invoke \<Rightarrow> loopOptions \<Rightarrow> int \<Rightarrow> nat \<Rightarrow> gval \<Rightarrow> 's \<times> interrupt_world \<Rightarrow>
   (('s \<times> interrupt_world) \<times> gval) option" where
  "sub_runs L key invoke opts i 0 x w = Some (w, x)"
| "sub_runs L key invoke opts i (Suc n) x w =
     (case sub_runs L key invoke opts i n x w of
        None \<Rightarrow> None
      | Some (w', y) \<Rightarrow>
          (case invoke (subCheckpointID L key opts (i + int n)) y w' of
             (w'', Inr z) \<Rightarrow> Some (w'', z) | (w'', Inl e) \<Rightarrow> None))"

text \<open>No quit within the first \<open>n\<close> runs.\<close>

definition goes_on ::
  "golib \<Rightarrow> string \<Rightarrow> 's sub_invoke \<Rightarrow> (int \<Rightarrow> gval \<Rightarrow> gval \<Rightarrow> bool res) \<Rightarrow> loopOptions \<Rightarrow> int \<Rightarrow> nat \<Rightarrow> gval \<Rightarrow>
   's \<times> interrupt_world \<Rightarrow> bool" where
  "goes_on L key invoke shouldQuit opts i n x w \<longleftrightarrow>
     (\<forall>k < n. \<exists>wk yk wk' yk'. sub_runs L key invoke opts i k x w = Some (wk, yk) \<and>
        sub_runs L key invoke opts i (Suc k) x w = Some (wk', yk') \<and> shouldQuit (i + int k) yk yk' = Inr False)"

lemma goes_on_Suc:
  "goes_on L key invoke q opts i (Suc n) x w \<Longrightarrow> goes_on L key invoke q opts i n x w"
  by (auto simp: goes_on_def)

lemma goes_on_last:
  assumes "goes_on L key invoke q opts i (Suc n) x w" and "sub_runs L key invoke opts i (Suc n) x w = Some (w', y)"
  obtains w1 x1 where "sub_runs L key invoke opts i n x w = Some (w1, x1)" and "q (i + int n) x1 y = Inr False"
    and "invoke (subCheckpointID L key opts (i + int n)) x1 w1 = (w', Inr y)"
proof -
  from assms obtain w1 x1 where n: "sub_runs L key invoke opts i n x w = Some (w1, x1)" and "q (i + int n) x1 y = Inr False"
    unfolding goes_on_def by (metis lessI option.inject prod.inject)
  moreover have "invoke (subCheckpointID L key opts (i + int n)) x1 w1 = (w', Inr y)"
    using assms(2) n by (auto split: prod.splits sum.splits)
  ultimately show ?thesis by (rule that)
qed

lemma loop_unroll:
  assumes "goes_on L key invoke q opts i n x w" and "sub_runs L key invoke opts i n x w = Some (w', y)"
    and "i + int n \<le> max (lo_maxIterations opts) i"
  shows "loop_iterate L key invoke q opts i x w = loop_iterate L key invoke q opts (i + int n) y w'"
  using assms
proof (induction n arbitrary: w' y)
  case 0
  then show ?case by simp
next
  case (Suc n)
  obtain wn yn where n: "sub_runs L key invoke opts i n x w = Some (wn, yn)" and quit: "q (i + int n) yn y = Inr False"
    and inv: "invoke (subCheckpointID L key opts (i + int n)) yn wn = (w', Inr y)"
    using goes_on_last [OF Suc.prems(1,2)] .
  have "loop_iterate L key invoke q opts i x w = loop_iterate L key invoke q opts (i + int n) yn wn"
    using Suc.IH [OF goes_on_Suc [OF Suc.prems(1)] n] Suc.prems(3) by simp
  also have "\<dots> = loop_iterate L key invoke q opts (i + int n + 1) y w'"
    using Suc.prems(3) by (subst loop_iterate.simps) (simp add: inv quit max_def split: if_splits)
  finally show ?case by (simp add: algebra_simps)
qed

section \<open>Properties\<close>

lemma runLoop_fresh:
  "loadLoopSnapshot decode sub (snd w) = None \<Longrightarrow> input \<noteq> GNil \<Longrightarrow>
   runLoop L decode sub key invoke q opts input w = loop_iterate L key invoke q opts 1 input w"
  by (simp add: runLoop_def Let_def)

text \<open>C36: A loop node ends. In a fresh run on an input that is not nil it feeds the output of each run of the sub-graph to the next
  one and returns the output of the first run after which the condition holds; when the condition does not hold after as many
  runs as the limit allows (one, for a limit of zero), it fails with the error of the limit and does not run the sub-graph
  again. The comment at the head of the file says otherwise, that the output of the last iteration is returned then.\<close>

theorem loop_outcome:
  fixes invoke :: "'s sub_invoke"
  assumes "loadLoopSnapshot decode sub (snd w) = None" and "input \<noteq> GNil"
  shows "(goes_on L key invoke q opts 1 n input w \<and> int n < max 1 (lo_maxIterations opts) \<and>
      sub_runs L key invoke opts 1 n input w = Some (w1, x) \<and> sub_runs L key invoke opts 1 (Suc n) input w = Some (w2, y) \<and>
      q (1 + int n) x y = Inr True \<longrightarrow>
      runLoop L decode sub key invoke q opts input w = (w2, Inr y)) \<and>
    (goes_on L key invoke q opts 1 (nat (max 1 (lo_maxIterations opts))) input w \<longrightarrow>
      (\<exists>y. sub_runs L key invoke opts 1 (nat (max 1 (lo_maxIterations opts))) input w = Some (w3, y)) \<longrightarrow>
      runLoop L decode sub key invoke q opts input w =
        (w3, Inl (Errorf (''%w: '' @ fmt_d L (lo_maxIterations opts)) [ErrLoopMaxIterationsExceeded])))"
proof (intro conjI impI; (elim conjE exE)?)
  assume go: "goes_on L key invoke q opts 1 n input w" and n: "int n < max 1 (lo_maxIterations opts)"
    and x: "sub_runs L key invoke opts 1 n input w = Some (w1, x)"
    and y: "sub_runs L key invoke opts 1 (Suc n) input w = Some (w2, y)" and quit: "q (1 + int n) x y = Inr True"
  have inv: "invoke (subCheckpointID L key opts (1 + int n)) x w1 = (w2, Inr y)"
    using x y by (auto split: prod.splits sum.splits)
  have "loop_iterate L key invoke q opts 1 input w = loop_iterate L key invoke q opts (1 + int n) x w1"
    using n by (intro loop_unroll [OF go x]) auto
  also have "\<dots> = (w2, Inr y)" by (subst loop_iterate.simps) (simp add: inv quit)
  finally show "runLoop L decode sub key invoke q opts input w = (w2, Inr y)"
    using runLoop_fresh [where q = q and decode = decode, OF assms] by simp
next
  fix y
  let ?m = "nat (max 1 (lo_maxIterations opts))"
  assume go: "goes_on L key invoke q opts 1 ?m input w" and y: "sub_runs L key invoke opts 1 ?m input w = Some (w3, y)"
  define n where "n = ?m - 1"
  have m: "?m = Suc n" "1 + int n = max 1 (lo_maxIterations opts)" by (simp_all add: n_def)
  then have lim: "lo_maxIterations opts \<le> 1 + int n" by linarith
  obtain w1 x where x: "sub_runs L key invoke opts 1 n input w = Some (w1, x)" and quit: "q (1 + int n) x y = Inr False"
    and inv: "invoke (subCheckpointID L key opts (1 + int n)) x w1 = (w3, Inr y)"
    using goes_on_last [OF go [unfolded m(1)] y [unfolded m(1)]] .
  have "loop_iterate L key invoke q opts 1 input w = loop_iterate L key invoke q opts (1 + int n) x w1"
    using m(2) by (intro loop_unroll [OF goes_on_Suc [OF go [unfolded m(1)]] x]) simp
  also have "\<dots> = (w3, Inl (Errorf (''%w: '' @ fmt_d L (lo_maxIterations opts)) [ErrLoopMaxIterationsExceeded]))"
    using lim by (subst loop_iterate.simps) (simp add: inv quit)
  finally show "runLoop L decode sub key invoke q opts input w =
      (w3, Inl (Errorf (''%w: '' @ fmt_d L (lo_maxIterations opts)) [ErrLoopMaxIterationsExceeded]))"
    using runLoop_fresh [where q = q and decode = decode, OF assms] by simp
qed

definition sample_world0 :: "unit \<times> interrupt_world" where
  "sample_world0 = ((), \<lparr>iw_request = None, iw_global = new_context, iw_counter = 0\<rparr>)"

text \<open>A sub-graph that appends a bit to a list, and a loop that quits at the third iteration.\<close>

definition count_sub :: "unit sub_invoke" where
  "count_sub = (\<lambda>t x w. (w, case x of GSlice vs \<Rightarrow> Inr (GSlice (vs @ [GBool True])) | _ \<Rightarrow> Inl EmptyChannelError))"

definition third :: "int \<Rightarrow> gval \<Rightarrow> gval \<Rightarrow> bool res" where
  "third = (\<lambda>i x y. Inr (i = 3))"

lemma count_goes_on: "goes_on L key count_sub third opts 1 2 (GSlice []) sample_world0"
  by (simp add: goes_on_def count_sub_def third_def sample_world0_def numeral_2_eq_2 All_less_Suc)

theorem loop_outcome_witness:
  "runLoop sample_lib (\<lambda>b. None) None ''k'' count_sub third (getLoopOptions []) (GSlice []) sample_world0 =
     (sample_world0, Inr (GSlice [GBool True, GBool True, GBool True]))"
proof -
  let ?o = "getLoopOptions []"
  have load: "loadLoopSnapshot (\<lambda>b. None) None (snd sample_world0) = None"
    by (simp add: loadLoopSnapshot_def sample_world0_def GetResumeValues_def the_context_def new_context_def)
  have ne: "GSlice [] \<noteq> GNil" by simp
  have "goes_on sample_lib ''k'' count_sub third ?o 1 2 (GSlice []) sample_world0 \<and> int 2 < max 1 (lo_maxIterations ?o) \<and>
      sub_runs sample_lib ''k'' count_sub ?o 1 2 (GSlice []) sample_world0 = Some (sample_world0, GSlice [GBool True, GBool True]) \<and>
      sub_runs sample_lib ''k'' count_sub ?o 1 (Suc 2) (GSlice []) sample_world0 =
        Some (sample_world0, GSlice [GBool True, GBool True, GBool True]) \<and>
      third (1 + int 2) (GSlice [GBool True, GBool True]) (GSlice [GBool True, GBool True, GBool True]) = Inr True"
    using count_goes_on by (simp add: getLoopOptions_def count_sub_def third_def numeral_2_eq_2)
  with loop_outcome [of "\<lambda>b. None" None sample_world0 "GSlice []", OF load ne] show ?thesis by blast
qed

text \<open>
  What the loop needs of \<open>encoding/json\<close>. A raw message is written as it stands when it is the output of
  \<open>Marshal\<close>, which is never empty and already compact; any other text may be changed by \<open>Marshal\<close>, and an empty one is
  left out. So only states whose raw messages were written by \<open>Marshal\<close> are read back as they were.
\<close>

definition marshalled :: "golib \<Rightarrow> string option \<Rightarrow> bool" where
  "marshalled L r \<longleftrightarrow> (case r of None \<Rightarrow> True | Some b \<Rightarrow> \<exists>v. json_marshal L v = Some b)"

definition loop_codec :: "golib \<Rightarrow> (string \<Rightarrow> loopInterruptState option) \<Rightarrow> bool" where
  "loop_codec L decode \<longleftrightarrow>
     (\<forall>st b. 0 < LsIteration st \<and> LsIteration st < 2 ^ 63 \<and> marshalled L (LsCurrentInput st) \<and> marshalled L (LsUserFillUpValue st) \<and>
        json_marshal L (loop_state_value st) = Some b \<longrightarrow> decode b = Some st)"

text \<open>C37: An interrupted loop can be resumed. When the sub-graph is interrupted in some iteration of a fresh run and no resume
  value is left, the loop raises an interrupt whose value is its state: the number of the iteration, the JSON text of its input
  and the JSON text of the value of the sub-graph's interrupt. Handed back in JSON as the sub-graph state of the context, this
  value makes the loop go on in the same iteration, on the JSON image of that iteration's input (an empty map for a null). The
  condition on the JSON library is that it reads back a loop state whose raw messages it wrote itself. Whether the state reaches
  the context is another matter: the in-memory checkpointer loses it (theorem loop_state_lost).\<close>

theorem loop_interrupt_resume:
  fixes invoke :: "'s sub_invoke"
  assumes "loadLoopSnapshot decode sub (snd w) = None" and "input \<noteq> GNil"
    and "goes_on L key invoke q opts 1 n input w" and "sub_runs L key invoke opts 1 n input w = Some (w1, x)"
    and "int n < max 1 (lo_maxIterations opts)" and "1 + int n < 2 ^ 63"
    and "invoke (subCheckpointID L key opts (1 + int n)) x w1 = (w2, Inl err)" and "IsInterrupt (Some err)"
    and "length (GetResumeValues (snd w2)) \<le> GetInterruptIndex (snd w2)" and "snd (GetNullResume False (snd w2)) = GNil"
    and "json_marshal L x = Some js" and "json_unmarshal L js = Some x0"
    and "loop_codec L decode"
  shows "\<exists>st i iw. runLoop L decode sub key invoke q opts input w =
        ((fst w2, iw), Inl (GraphInterrupt [Interrupt (loop_state_value st) i])) \<and>
    LsIteration st = 1 + int n \<and> LsCurrentInput st = Some js \<and>
    LsUserFillUpValue st =
      (case GetInterruptValue (Some err) of None \<Rightarrow> None | Some v \<Rightarrow> if v = GNil then None else json_marshal L v) \<and>
    (\<forall>b input' w'. json_marshal L (loop_state_value st) = Some b \<longrightarrow>
       runLoop L decode (Some (GBytes b)) key invoke q opts input' w' =
       loop_iterate L key invoke q opts (1 + int n) (if x0 = GNil then GMap [] else x0) w')"
proof -
  define fill where
    "fill = (case GetInterruptValue (Some err) of None \<Rightarrow> None | Some v \<Rightarrow> if v = GNil then None else json_marshal L v)"
  define st where "st = \<lparr>LsIteration = 1 + int n, LsCurrentInput = Some js, LsUserFillUpValue = fill\<rparr>"
  have fill: "(case GetInterruptValue (Some err) of None \<Rightarrow> None | Some GNil \<Rightarrow> None | Some v \<Rightarrow> json_marshal L v) = fill"
    by (simp add: fill_def split: option.splits gval.splits)
  have "consumeNextResumeValue (the_context (snd w2)) = (the_context (snd w2), None)"
    using assms(9) by (simp add: consumeNextResumeValue_def GetResumeValues_def GetInterruptIndex_def)
  then obtain iw i where ic: "Interrupt_call L (loop_state_value st) (snd w2) =
      (iw, Inl (GraphInterrupt [Interrupt (loop_state_value st) i]))"
    using assms(10) by (simp add: Interrupt_call_def GetNullResume_def Let_def)
  have "loop_iterate L key invoke q opts 1 input w = loop_iterate L key invoke q opts (1 + int n) x w1"
    using assms(5) by (intro loop_unroll [OF assms(3,4)]) auto
  also have "\<dots> = loop_interrupted L (1 + int n) x err w2"
    using assms(8) by (subst loop_iterate.simps) (simp add: assms(7))
  also have "\<dots> = ((fst w2, iw), Inl (GraphInterrupt [Interrupt (loop_state_value st) i]))"
    using ic by (simp add: loop_interrupted_def assms(11) Let_def fill flip: st_def)
  finally have run: "runLoop L decode sub key invoke q opts input w =
      ((fst w2, iw), Inl (GraphInterrupt [Interrupt (loop_state_value st) i]))"
    using runLoop_fresh [where q = q and decode = decode, OF assms(1,2)] by simp
  have raws: "marshalled L (LsCurrentInput st)" "marshalled L (LsUserFillUpValue st)"
    using assms(11) by (auto simp: st_def fill_def marshalled_def split: option.splits)
  have "runLoop L decode (Some (GBytes b)) key invoke q opts input' w' =
      loop_iterate L key invoke q opts (1 + int n) (if x0 = GNil then GMap [] else x0) w'"
    if "json_marshal L (loop_state_value st) = Some b" for b input' w'
  proof -
    have "decode b = Some st" using assms(13) that raws assms(6) by (simp add: loop_codec_def st_def)
    then have "loadLoopSnapshot decode (Some (GBytes b)) (snd w') = Some st"
      by (simp add: loadLoopSnapshot_def decode_loop_state_def st_def)
    then show ?thesis by (simp add: runLoop_def st_def assms(12))
  qed
  with run fill_def show ?thesis by (intro exI [of _ st] exI [of _ i] exI [of _ iw]) (simp add: st_def)
qed

text \<open>
  A small encoding: lists of truth values, and loop states of any content. The number is written in unary, the texts with
  their lengths; an empty text is left out, as by \<open>omitempty\<close>.
\<close>

definition tally :: "nat \<Rightarrow> string" where
  "tally n = replicate n CHR ''1'' @ '':''"

definition read_tally :: "string \<Rightarrow> nat \<times> string" where
  "read_tally s = (length (takeWhile (\<lambda>c. c = CHR ''1'') s), tl (dropWhile (\<lambda>c. c = CHR ''1'') s))"

lemma read_tally [simp]: "read_tally (tally n @ s) = (n, s)"
  by (simp add: read_tally_def tally_def takeWhile_tail dropWhile_append3)

fun raw_text :: "gval \<Rightarrow> string" where
  "raw_text (GTyped t (GBytes b)) = b"
| "raw_text v = []"

fun small_marshal :: "gval \<Rightarrow> string option" where
  "small_marshal (GSlice vs) =
     (if list_all (\<lambda>v. v = GBool True \<or> v = GBool False) vs
      then Some (CHR ''['' # map (\<lambda>v. if v = GBool True then CHR ''t'' else CHR ''f'') vs) else None)"
| "small_marshal (GStruct name [(n1, x1, t1, GInt i), (n2, x2, t2, c), (n3, x3, t3, f)]) =
     Some (tally (nat (sint i)) @ tally (length (raw_text c)) @ raw_text c @ raw_text f)"
| "small_marshal v = None"

definition small_unmarshal :: "string \<Rightarrow> gval option" where
  "small_unmarshal s = (case s of c # cs \<Rightarrow> if c = CHR ''['' then Some (GSlice (map (\<lambda>c. GBool (c = CHR ''t'')) cs)) else None | [] \<Rightarrow> None)"

definition raw_read :: "string \<Rightarrow> string option" where
  "raw_read s = (if s = [] then None else Some s)"

definition small_decode :: "string \<Rightarrow> loopInterruptState option" where
  "small_decode b =
     (let (i, r) = read_tally b; (n, s) = read_tally r
      in Some \<lparr>LsIteration = int i, LsCurrentInput = raw_read (take n s), LsUserFillUpValue = raw_read (drop n s)\<rparr>)"

definition small_lib :: golib where
  "small_lib = sample_lib\<lparr>json_marshal := small_marshal, json_unmarshal := small_unmarshal\<rparr>"

lemma small_marshal_nonempty: "small_marshal v \<noteq> Some []"
  by (induction v rule: small_marshal.induct) (simp_all add: tally_def)

lemma raw_read_message: "marshalled small_lib r \<Longrightarrow> raw_read (raw_text (raw_message r)) = r"
  using small_marshal_nonempty by (fastforce simp: marshalled_def raw_read_def raw_message_def small_lib_def split: option.splits)

lemma sint_small: "- (2 ^ 63) \<le> n \<Longrightarrow> n < 2 ^ 63 \<Longrightarrow> sint (word_of_int n :: 64 word) = n"
  by (simp add: signed_of_int signed_take_bit_int_eq_self_iff)

lemma small_codec: "loop_codec small_lib small_decode"
  unfolding loop_codec_def
proof (intro allI impI; elim conjE)
  fix st b
  assume st: "0 < LsIteration st" "LsIteration st < 2 ^ 63" "marshalled small_lib (LsCurrentInput st)"
    "marshalled small_lib (LsUserFillUpValue st)" and b: "json_marshal small_lib (loop_state_value st) = Some b"
  from b have "b = tally (nat (LsIteration st)) @ tally (length (raw_text (raw_message (LsCurrentInput st)))) @
      raw_text (raw_message (LsCurrentInput st)) @ raw_text (raw_message (LsUserFillUpValue st))"
    using st(1,2) by (simp add: small_lib_def loop_state_value_def sint_small)
  then show "small_decode b = Some st" using st(1) by (simp add: small_decode_def raw_read_message [OF st(3)] raw_read_message [OF st(4)])
qed

text \<open>A sub-graph that runs once and then asks.\<close>

definition ask_sub :: "unit sub_invoke" where
  "ask_sub = (\<lambda>t x w. (w, if x = GSlice [] then Inr (GSlice [GBool True])
                          else Inl (GraphInterrupt [Interrupt (GSlice [GBool False]) ''u''])))"

definition second_state :: loopInterruptState where
  "second_state = \<lparr>LsIteration = 2, LsCurrentInput = Some ''[t'', LsUserFillUpValue = Some ''[f''\<rparr>"

theorem loop_interrupt_resume_witness:
  "runLoop small_lib small_decode (Some (GBytes ''11:11:[t[f'')) ''k'' ask_sub third (getLoopOptions []) (GSlice [GNil]) sample_world0 =
   loop_iterate small_lib ''k'' ask_sub third (getLoopOptions []) 2 (GSlice [GBool True]) sample_world0"
proof -
  let ?o = "getLoopOptions []"
  have "\<exists>st i iw. runLoop small_lib small_decode None ''k'' ask_sub third ?o (GSlice []) sample_world0 =
        ((fst sample_world0, iw), Inl (GraphInterrupt [Interrupt (loop_state_value st) i])) \<and>
    LsIteration st = 1 + int 1 \<and> LsCurrentInput st = Some ''[t'' \<and>
    LsUserFillUpValue st =
      (case GetInterruptValue (Some (GraphInterrupt [Interrupt (GSlice [GBool False]) ''u''])) of
         None \<Rightarrow> None | Some v \<Rightarrow> if v = GNil then None else json_marshal small_lib v) \<and>
    (\<forall>b input' w'. json_marshal small_lib (loop_state_value st) = Some b \<longrightarrow>
       runLoop small_lib small_decode (Some (GBytes b)) ''k'' ask_sub third ?o input' w' =
       loop_iterate small_lib ''k'' ask_sub third ?o (1 + int 1)
         (if GSlice [GBool True] = GNil then GMap [] else GSlice [GBool True]) w')"
    by (rule loop_interrupt_resume [where n = 1 and x = "GSlice [GBool True]" and ?w1.0 = sample_world0 and ?w2.0 = sample_world0,
          OF _ _ _ _ _ _ _ _ _ _ _ _ small_codec])
      (simp_all add: loadLoopSnapshot_def sample_world0_def GetResumeValues_def GetInterruptIndex_def GetNullResume_def third_def
        the_context_def new_context_def goes_on_def getLoopOptions_def ask_sub_def IsInterrupt_def IsGraphInterrupt_def small_lib_def
        small_unmarshal_def)
  then obtain st where st: "LsIteration st = 2" "LsCurrentInput st = Some ''[t''" "LsUserFillUpValue st = Some ''[f''"
    and resume: "\<forall>b input' w'. json_marshal small_lib (loop_state_value st) = Some b \<longrightarrow>
       runLoop small_lib small_decode (Some (GBytes b)) ''k'' ask_sub third ?o input' w' =
       loop_iterate small_lib ''k'' ask_sub third ?o 2 (GSlice [GBool True]) w'"
    by (auto simp: GetInterruptValue_def small_lib_def)
  have "json_marshal small_lib (loop_state_value st) = Some ''11:11:[t[f''"
    by (simp add: st loop_state_value_def small_lib_def raw_message_def tally_def numeral_2_eq_2)
  from resume [rule_format, OF this, of "GSlice [GNil]" sample_world0] show ?thesis by simp
qed

text \<open>A loop state does not survive the in-memory checkpointer. The engine saves the state as bytes, the checkpointer's
  copy turns bytes into base64 text, and the engine hands the text back undecoded: unless base64 text parses as a
  loop state, the resumed loop finds none and starts again at its first iteration.\<close>

theorem loop_state_lost:
  fixes invoke :: "'s sub_invoke"
  assumes "json_lib L" and "first_interrupt results = Some (Interrupt v i # is)" and "v \<noteq> GNil"
    and "json_marshal L v = Some b" and "decode (base64 L b) = None"
    and "first_loop_state decode (GetResumeValues (snd w)) = None"
  shows "restored_sub_state (deepCopyMap L (deepCopyMap L (interrupt_payload L step results rs))) = Some (GBytes (base64 L b)) \<and>
    runLoop L decode (restored_sub_state (deepCopyMap L (deepCopyMap L (interrupt_payload L step results rs))))
      key invoke q opts input w =
    loop_iterate L key invoke q opts 1 (if input = GNil then GMap [] else input) w"
proof -
  have "mget (interrupt_payload L step results rs) ''__sub_state__'' = Some (GBytes b)"
    using assms(2-4) by (simp add: interrupt_payload_def Let_def sub_state_def mget_mcopy gomap_ok_def)
  then have "restored_sub_state (deepCopyMap L (deepCopyMap L (interrupt_payload L step results rs))) = Some (GBytes (base64 L b))"
    using assms(1) by (simp add: restored_sub_state_def json json_copy_def json_lib_def)
  moreover have "loadLoopSnapshot decode (Some (GBytes (base64 L b))) (snd w) = None"
    using assms(5,6) by (simp add: loadLoopSnapshot_def decode_loop_state_def)
  ultimately show ?thesis by (simp add: runLoop_def Let_def)
qed

definition ask_results :: "TaskResult list" where
  "ask_results = [\<lparr>TrName = ''k'', TrOutput = GNil, TrErr = Some (GraphInterrupt [Interrupt (loop_state_value second_state) ''i''])\<rparr>]"

theorem loop_state_lost_witness:
  "runLoop small_lib (\<lambda>b. None) (restored_sub_state (deepCopyMap small_lib (deepCopyMap small_lib
      (interrupt_payload small_lib 3 ask_results sample_run)))) ''k'' count_sub third (getLoopOptions []) (GSlice []) sample_world0 =
   loop_iterate small_lib ''k'' count_sub third (getLoopOptions []) 1 (GSlice []) sample_world0"
proof -
  have lib: "json_lib small_lib" by (simp add: small_lib_def json_lib_def sample_lib_def sample_finite)
  have int: "first_interrupt ask_results = Some (Interrupt (loop_state_value second_state) ''i'' # [])"
    by (simp add: ask_results_def)
  have val: "loop_state_value second_state \<noteq> GNil" "json_marshal small_lib (loop_state_value second_state) = Some ''11:11:[t[f''"
    by (simp_all add: loop_state_value_def small_lib_def second_state_def raw_message_def tally_def numeral_2_eq_2)
  have none: "first_loop_state (\<lambda>b. None) (GetResumeValues (snd sample_world0)) = None"
    by (simp add: sample_world0_def GetResumeValues_def the_context_def new_context_def)
  from conjunct2 [OF loop_state_lost [OF lib int val refl none, where input = "GSlice []" and step = 3 and rs = sample_run
      and key = "''k''" and invoke = count_sub and q = third and opts = "getLoopOptions []"]]
  show ?thesis by simp
qed

end
