(* ===== verification/Parallel_Node.thy ===== *)
theory Parallel_Node
  imports Interrupts
begin

text \<open>
  The parallel node (\<open>graph/parallel.go\<close>): a node that runs a sub-graph on every item of a list, with bounded
  concurrency, and returns the outputs in the order of the items. The run of the sub-graph on an item is the
  parameter \<open>invoke\<close> (checkpoint thread and item); the invocations of one fan-out do not influence each other
  in the model, but their results arrive in the order \<open>order\<close> gives them, which no theorem fixes. When an
  item is interrupted the node raises an interrupt that carries the completed results, and a later run
  takes up the other items. \<open>json.Unmarshal\<close> at the type of that state is the parameter \<open>decode\<close>.
\<close>

section \<open>Options and state\<close>

record parallelOptions =
  po_maxConcurrency :: int

definition WithParallelMaxConcurrency :: "int \<Rightarrow> parallelOptions \<Rightarrow> parallelOptions" where
  "WithParallelMaxConcurrency n opts = (if n \<ge> 0 then opts\<lparr>po_maxConcurrency := n\<rparr> else opts)"

definition getParallelOptions :: "(parallelOptions \<Rightarrow> parallelOptions) list \<Rightarrow> parallelOptions" where
  "getParallelOptions opts = fold (\<lambda>opt o1. opt o1) opts \<lparr>po_maxConcurrency = 0\<rparr>"

record parallelInterruptState =
  PsOriginalInputsJSON :: string
  PsCompletedResults :: "(int \<times> gval) list"
  PsInterruptedIndices :: "int list"
  PsTotalCount :: int
  PsItemCheckpoints :: "string gomap"

record parallelItemResult =
  PrIndex :: int
  PrOutput :: gval
  PrErr :: "gerr option"

text \<open>The state as the value of the interrupt.\<close>

definition parallel_state_value :: "golib \<Rightarrow> parallelInterruptState \<Rightarrow> gval" where
  "parallel_state_value L st =
     GStruct ''parallelInterruptState''
       [(''OriginalInputsJSON'', True, TSlice (TNum ''uint8''), GBytes (PsOriginalInputsJSON st)),
        (''CompletedResults'', True, TMap TInt TAny,
           GTyped (TMap TInt TAny) (GMap (map (\<lambda>(i, v). (fmt_d L i, v)) (PsCompletedResults st)))),
        (''InterruptedIndices'', True, TSlice TInt,
           GTyped (TSlice TInt) (GSlice (map (\<lambda>i. GInt (word_of_int i)) (PsInterruptedIndices st)))),
        (''TotalCount'', True, TInt, GInt (word_of_int (PsTotalCount st))),
        (''ItemCheckpoints'', True, TMap TString (TSlice (TNum ''uint8'')),
           GTyped (TMap TString (TSlice (TNum ''uint8''))) (GMap (map (\<lambda>(k, b). (k, GBytes b)) (PsItemCheckpoints st))))]"

section \<open>Checkpoints of the items\<close>

type_synonym itemCheckpointStore = "string gomap"

definition newItemCheckpointStore :: "string gomap \<Rightarrow> itemCheckpointStore" where
  "newItemCheckpointStore data = mcopy [] data"

definition ics_get :: "itemCheckpointStore \<Rightarrow> string \<Rightarrow> string option" where
  "ics_get s i = mget s i"

definition ics_set :: "string \<Rightarrow> string \<Rightarrow> itemCheckpointStore \<Rightarrow> itemCheckpointStore" where
  "ics_set i payload s = mput i payload s"

definition ics_snapshot :: "itemCheckpointStore \<Rightarrow> string gomap" where
  "ics_snapshot s = mcopy [] s"

section \<open>Running the items\<close>

definition item_thread :: "golib \<Rightarrow> string \<Rightarrow> int \<Rightarrow> string" where
  "item_thread L key idx = ''parallel:'' @ key @ '':item:'' @ fmt_d L idx"

definition runOne ::
  "golib \<Rightarrow> string \<Rightarrow> (string \<Rightarrow> gval \<Rightarrow> gval res) \<Rightarrow> gval list \<Rightarrow> int \<Rightarrow> parallelItemResult" where
  "runOne L key invoke items idx =
     (if idx < 0 \<or> idx \<ge> int (length items)
      then \<lparr>PrIndex = idx, PrOutput = GNil, PrErr = Some (Errorf (''parallel item index '' @ fmt_d L idx @ '' out of bounds'') [])\<rparr>
      else case invoke (item_thread L key idx) (items ! nat idx) of
             Inr out \<Rightarrow> \<lparr>PrIndex = idx, PrOutput = out, PrErr = None\<rparr>
           | Inl (GoPanic m) \<Rightarrow>
               \<lparr>PrIndex = idx, PrOutput = GNil, PrErr = Some (Errorf (''parallel item '' @ fmt_d L idx @ '' panic: %v'') [])\<rparr>
           | Inl err \<Rightarrow> \<lparr>PrIndex = idx, PrOutput = GNil, PrErr = Some err\<rparr>)"

text \<open>The results in the order of their arrival: the first item runs before the others are started.\<close>

definition fanOutItems ::
  "golib \<Rightarrow> string \<Rightarrow> (string \<Rightarrow> gval \<Rightarrow> gval res) \<Rightarrow> gval list \<Rightarrow> int list \<Rightarrow> parallelOptions \<Rightarrow>
   (int list \<Rightarrow> int list) \<Rightarrow> parallelItemResult list" where
  "fanOutItems L key invoke items indices options order =
     (if po_maxConcurrency options \<le> 1 then map (runOne L key invoke items) indices
      else case indices of
             [] \<Rightarrow> []
           | i # is \<Rightarrow> map (runOne L key invoke items) (i # order is))"

section \<open>Collecting\<close>

record collected =
  co_outputs :: "gval list"
  co_completed :: "(int \<times> gval) list"
  co_normalErr :: "gerr option"
  co_hasInterrupt :: bool

definition ErrParallelItemFailed :: gerr where
  "ErrParallelItemFailed = Errorf ''graph: parallel item failed'' []"

definition set_output :: "int \<Rightarrow> gval \<Rightarrow> gval list \<Rightarrow> gval list" where
  "set_output idx v outs = (if 0 \<le> idx \<and> idx < int (length outs) then outs[nat idx := v] else outs)"

definition collect_result :: "golib \<Rightarrow> parallelItemResult \<Rightarrow> collected \<Rightarrow> collected" where
  "collect_result L r c =
     (case PrErr r of
        None \<Rightarrow> c\<lparr>co_outputs := set_output (PrIndex r) (PrOutput r) (co_outputs c),
                  co_completed := AList.update (PrIndex r) (PrOutput r) (co_completed c)\<rparr>
      | Some err \<Rightarrow>
          (if IsInterrupt (Some err) then c\<lparr>co_hasInterrupt := True\<rparr>
           else if co_normalErr c = None
             then c\<lparr>co_normalErr := Some (Errorf (''%w: item '' @ fmt_d L (PrIndex r) @ '': %w'') [ErrParallelItemFailed, err])\<rparr>
           else c))"

fun first_parallel_state :: "(string \<Rightarrow> parallelInterruptState option) \<Rightarrow> gval list \<Rightarrow> parallelInterruptState option" where
  "first_parallel_state decode [] = None"
| "first_parallel_state decode (v # vs) =
     (case (case v of GBytes b \<Rightarrow> decode b | GStr b \<Rightarrow> decode b | _ \<Rightarrow> None) of
        Some st \<Rightarrow> (if PsTotalCount st > 0 then Some st else first_parallel_state decode vs)
      | None \<Rightarrow> first_parallel_state decode vs)"

definition loadParallelSnapshot ::
  "(string \<Rightarrow> parallelInterruptState option) \<Rightarrow> interrupt_world \<Rightarrow> parallelInterruptState option" where
  "loadParallelSnapshot decode w = first_parallel_state decode (GetResumeValues w)"

definition parallel_start :: "gval list \<Rightarrow> parallelInterruptState option \<Rightarrow> int \<times> gval list \<times> int list \<times> itemCheckpointStore" where
  "parallel_start items prev =
     (case prev of
        None \<Rightarrow> (int (length items), replicate (length items) GNil, map int [0..<length items], newItemCheckpointStore [])
      | Some st \<Rightarrow>
          (PsTotalCount st,
           fold (\<lambda>(idx, v) outs. set_output idx v outs) (PsCompletedResults st) (replicate (nat (PsTotalCount st)) GNil),
           PsInterruptedIndices st, newItemCheckpointStore (PsItemCheckpoints st)))"

definition parallel_pending :: "int \<Rightarrow> (int \<times> gval) list \<Rightarrow> int list" where
  "parallel_pending totalCount completed = filter (\<lambda>idx. map_of completed idx = None) [0..totalCount - 1]"

definition runParallel ::
  "golib \<Rightarrow> (string \<Rightarrow> parallelInterruptState option) \<Rightarrow> string \<Rightarrow> (string \<Rightarrow> gval \<Rightarrow> gval res) \<Rightarrow>
   parallelOptions \<Rightarrow> (int list \<Rightarrow> int list) \<Rightarrow> gval list \<Rightarrow> interrupt_world \<Rightarrow> interrupt_world \<times> gval res" where
  "runParallel L decode key invoke options order items w =
     (case parallel_start items (loadParallelSnapshot decode w) of
        (totalCount, outputs, indices, bridge) \<Rightarrow>
          (if indices = [] then (w, Inr (GSlice outputs))
           else let c = fold (collect_result L) (fanOutItems L key invoke items indices options order)
                      \<lparr>co_outputs = outputs, co_completed = [], co_normalErr = None, co_hasInterrupt = False\<rparr>
                in case co_normalErr c of
                     Some err \<Rightarrow> (w, Inl err)
                   | None \<Rightarrow>
                       (if co_hasInterrupt c
                        then case json_marshal L (GSlice items) of
                               None \<Rightarrow> (w, Inl (Errorf ''graph: parallel marshal inputs: %w'' []))
                             | Some inputsJSON \<Rightarrow>
                                 (let st = \<lparr>PsOriginalInputsJSON = inputsJSON, PsCompletedResults = co_completed c,
                                       PsInterruptedIndices = parallel_pending totalCount (co_completed c),
                                       PsTotalCount = totalCount, PsItemCheckpoints = ics_snapshot bridge\<rparr>
                                  in case Interrupt_call L (parallel_state_value L st) w of
                                       (w', Inl e) \<Rightarrow> (w', Inl e)
                                     | (w', Inr v) \<Rightarrow> (w', Inr GNil))
                        else (w, Inr (GSlice (co_outputs c))))))"

definition parallel_items :: "gval \<Rightarrow> gval list res" where
  "parallel_items state =
     (case state of
        GSlice items \<Rightarrow> Inr items
      | GMap m \<Rightarrow>
          (case mget m ''__input__'' of
             Some (GSlice items) \<Rightarrow> Inr items
           | _ \<Rightarrow> (case mget m ''items'' of
                     Some (GSlice items) \<Rightarrow> Inr items
                   | _ \<Rightarrow> Inl (Errorf ''graph: parallel node cannot extract []interface{}'' [])))
      | _ \<Rightarrow> Inl (Errorf ''graph: parallel node expects []interface{} input'' []))"

definition NewParallelNodeFunc ::
  "golib \<Rightarrow> (string \<Rightarrow> parallelInterruptState option) \<Rightarrow> string \<Rightarrow> (string \<Rightarrow> gval \<Rightarrow> gval res) option \<Rightarrow>
   (parallelOptions \<Rightarrow> parallelOptions) list \<Rightarrow>
   ((int list \<Rightarrow> int list) \<Rightarrow> gval \<Rightarrow> interrupt_world \<Rightarrow> interrupt_world \<times> gval res) res" where
  "NewParallelNodeFunc L decode key sub opts =
     (if key = [] then Inl (Errorf ''graph: parallel key is empty'' [])
      else case sub of
             None \<Rightarrow> Inl (Errorf ''graph: parallel sub-graph is nil'' [])
           | Some invoke \<Rightarrow>
               Inr (\<lambda>order state w.
                 case parallel_items state of
                   Inl e \<Rightarrow> (w, Inl e)
                 | Inr items \<Rightarrow> runParallel L decode key invoke (getParallelOptions opts) order items w))"

section \<open>What the collecting loop computes\<close>

lemma length_set_output [simp]: "length (set_output i v outs) = length outs"
  by (simp add: set_output_def)

lemma nth_set_output: "k < length outs \<Longrightarrow> set_output i v outs ! k = (if i = int k then v else outs ! k)"
  by (auto simp: set_output_def nth_list_update)

lemma length_fold_outputs [simp]: "length (fold (\<lambda>(i, v) outs. set_output i v outs) xs outs) = length outs"
  by (induction xs arbitrary: outs) auto

lemma nth_fold_outputs:
  "distinct (map fst xs) \<Longrightarrow> k < length outs \<Longrightarrow>
   fold (\<lambda>(i, v) outs. set_output i v outs) xs outs ! k = (case map_of xs (int k) of Some v \<Rightarrow> v | None \<Rightarrow> outs ! k)"
proof (induction xs arbitrary: outs)
  case (Cons x xs)
  obtain i v where x: "x = (i, v)" by (cases x)
  show ?case
    using Cons.IH [of "set_output i v outs"] Cons.prems
    by (auto simp: x nth_set_output map_of_eq_None_iff [symmetric] split: option.splits)
qed simp

text \<open>The successes among results, as a list of indices and outputs.\<close>

definition successes :: "parallelItemResult list \<Rightarrow> (int \<times> gval) list" where
  "successes rs = map (\<lambda>r. (PrIndex r, PrOutput r)) (filter (\<lambda>r. PrErr r = None) rs)"

lemma collect_outputs:
  "co_outputs (fold (collect_result L) rs c) = fold (\<lambda>(i, v) outs. set_output i v outs) (successes rs) (co_outputs c)"
  by (induction rs arbitrary: c) (auto simp: successes_def collect_result_def split: option.splits)

lemma collect_completed:
  "distinct (map PrIndex rs) \<Longrightarrow> map_of (co_completed (fold (collect_result L) rs c)) i =
     (case map_of (successes rs) i of Some v \<Rightarrow> Some v | None \<Rightarrow> map_of (co_completed c) i)"
proof (induction rs arbitrary: c)
  case (Cons r rs)
  have "map_of (successes rs) (PrIndex r) = None"
    using Cons.prems by (auto simp: successes_def map_of_eq_None_iff)
  with Cons show ?case
    by (auto simp: successes_def collect_result_def update_conv' split: option.splits)
qed (simp add: successes_def)

lemma collect_interrupt:
  "co_hasInterrupt (fold (collect_result L) rs c) \<longleftrightarrow> co_hasInterrupt c \<or> (\<exists>r \<in> set rs. PrErr r \<noteq> None \<and> IsInterrupt (PrErr r))"
  by (induction rs arbitrary: c) (auto simp: collect_result_def split: option.splits)

definition normal_failure :: "parallelItemResult \<Rightarrow> bool" where
  "normal_failure r \<longleftrightarrow> PrErr r \<noteq> None \<and> \<not> IsInterrupt (PrErr r)"

definition failure_of :: "golib \<Rightarrow> parallelItemResult \<Rightarrow> gerr" where
  "failure_of L r = Errorf (''%w: item '' @ fmt_d L (PrIndex r) @ '': %w'') [ErrParallelItemFailed, the (PrErr r)]"

lemma collect_normal:
  "co_normalErr (fold (collect_result L) rs c) =
     (case co_normalErr c of Some e \<Rightarrow> Some e | None \<Rightarrow> map_option (failure_of L) (find normal_failure rs))"
  by (induction rs arbitrary: c)
    (auto simp: collect_result_def normal_failure_def failure_of_def split: option.splits)

section \<open>What a fan-out returns\<close>

lemma runOne_index [simp]: "PrIndex (runOne L key invoke items i) = i"
  by (auto simp: runOne_def split: sum.splits gerr.splits)

lemma fan_out_perm:
  assumes "\<forall>xs. mset (order xs) = mset xs"
  shows "\<exists>js. mset js = mset is \<and> fanOutItems L key invoke items is options order = map (runOne L key invoke items) js"
proof (intro exI conjI)
  let ?js = "if po_maxConcurrency options \<le> 1 then is else case is of [] \<Rightarrow> [] | i # t \<Rightarrow> i # order t"
  show "mset ?js = mset is" using assms by (auto split: list.splits)
  show "fanOutItems L key invoke items is options order = map (runOne L key invoke items) ?js"
    by (auto simp: fanOutItems_def split: list.splits)
qed

lemma successes_runs:
  "distinct js \<Longrightarrow> map_of (successes (map (runOne L key invoke items) js)) i =
     (if i \<in> set js \<and> PrErr (runOne L key invoke items i) = None then Some (PrOutput (runOne L key invoke items i)) else None)"
  by (induction js) (auto simp: successes_def)

lemma successes_distinct: "distinct (map PrIndex rs) \<Longrightarrow> distinct (map fst (successes rs))"
  by (simp add: successes_def comp_def distinct_map_filter)

lemma fan_out_results:
  fixes L :: golib and key :: string and invoke :: "string \<Rightarrow> gval \<Rightarrow> gval res" and items :: "gval list"
    and options :: parallelOptions
  assumes "\<forall>xs. mset (order xs) = mset xs" and "distinct is"
  defines "rs \<equiv> fanOutItems L key invoke items is options order"
  shows "distinct (map PrIndex rs)" and "set rs = runOne L key invoke items ` set is"
    and "map_of (successes rs) i =
      (if i \<in> set is \<and> PrErr (runOne L key invoke items i) = None then Some (PrOutput (runOne L key invoke items i)) else None)"
proof -
  obtain js where js: "mset js = mset is" and eq: "rs = map (runOne L key invoke items) js"
    using fan_out_perm [OF assms(1), of "is"] unfolding rs_def by blast
  have d: "distinct js" "set js = set is"
    using js assms(2) by (metis mset_eq_imp_distinct_iff, metis mset_eq_setD)
  then show "distinct (map PrIndex rs)" "set rs = runOne L key invoke items ` set is" by (simp_all add: eq comp_def)
  show "map_of (successes rs) i =
      (if i \<in> set is \<and> PrErr (runOne L key invoke items i) = None then Some (PrOutput (runOne L key invoke items i)) else None)"
    using successes_runs [OF d(1)] d(2) by (simp add: eq)
qed

text \<open>The state of the collecting loop at the end, whatever the order of arrival.\<close>

lemma collect_fan_out:
  fixes L :: golib and key :: string and invoke :: "string \<Rightarrow> gval \<Rightarrow> gval res" and items :: "gval list"
    and options :: parallelOptions and outs :: "gval list"
  assumes "\<forall>xs. mset (order xs) = mset xs" and "distinct is"
  defines "c \<equiv> fold (collect_result L) (fanOutItems L key invoke items is options order)
    \<lparr>co_outputs = outs, co_completed = [], co_normalErr = None, co_hasInterrupt = False\<rparr>"
    and "run \<equiv> runOne L key invoke items"
  shows "length (co_outputs c) = length outs"
    and "k < length outs \<Longrightarrow> co_outputs c ! k =
      (if int k \<in> set is \<and> PrErr (run (int k)) = None then PrOutput (run (int k)) else outs ! k)"
    and "map_of (co_completed c) i = (if i \<in> set is \<and> PrErr (run i) = None then Some (PrOutput (run i)) else None)"
    and "co_hasInterrupt c \<longleftrightarrow> (\<exists>i \<in> set is. PrErr (run i) \<noteq> None \<and> IsInterrupt (PrErr (run i)))"
    and "co_normalErr c = None \<longleftrightarrow> (\<forall>i \<in> set is. \<not> normal_failure (run i))"
    and "co_normalErr c = Some e \<Longrightarrow> \<exists>i \<in> set is. normal_failure (run i) \<and> e = failure_of L (run i)"
proof -
  note res = fan_out_results [OF assms(1,2), of L key invoke items options]
  show "length (co_outputs c) = length outs" by (simp add: c_def collect_outputs)
  show "co_outputs c ! k =
      (if int k \<in> set is \<and> PrErr (run (int k)) = None then PrOutput (run (int k)) else outs ! k)" if "k < length outs"
    using that by (simp add: c_def collect_outputs run_def nth_fold_outputs [OF successes_distinct [OF res(1)]] res(3))
  show "map_of (co_completed c) i = (if i \<in> set is \<and> PrErr (run i) = None then Some (PrOutput (run i)) else None)"
    by (simp add: c_def collect_completed [OF res(1)] res(3) run_def)
  show "co_hasInterrupt c \<longleftrightarrow> (\<exists>i \<in> set is. PrErr (run i) \<noteq> None \<and> IsInterrupt (PrErr (run i)))"
    by (simp add: c_def collect_interrupt res(2) run_def)
  have n: "co_normalErr c = map_option (failure_of L) (find normal_failure (fanOutItems L key invoke items is options order))"
    by (simp add: c_def collect_normal)
  show "co_normalErr c = None \<longleftrightarrow> (\<forall>i \<in> set is. \<not> normal_failure (run i))"
    by (simp add: n find_None_iff res(2) run_def)
  show "\<exists>i \<in> set is. normal_failure (run i) \<and> e = failure_of L (run i)" if e: "co_normalErr c = Some e"
  proof -
    from e n obtain r where "find normal_failure (fanOutItems L key invoke items is options order) = Some r"
      "e = failure_of L r" by auto
    then have "r \<in> set (fanOutItems L key invoke items is options order)" "normal_failure r" "e = failure_of L r"
      by (auto simp: find_Some_iff in_set_conv_nth)
    then show ?thesis unfolding res(2) run_def by blast
  qed
qed

section \<open>Properties\<close>

text \<open>The sub-graph's run on an item succeeds, or is interrupted.\<close>

definition item_ok :: "golib \<Rightarrow> string \<Rightarrow> (string \<Rightarrow> gval \<Rightarrow> gval res) \<Rightarrow> gval list \<Rightarrow> int \<Rightarrow> bool" where
  "item_ok L key invoke items i \<longleftrightarrow> PrErr (runOne L key invoke items i) = None"

definition item_interrupted :: "golib \<Rightarrow> string \<Rightarrow> (string \<Rightarrow> gval \<Rightarrow> gval res) \<Rightarrow> gval list \<Rightarrow> int \<Rightarrow> bool" where
  "item_interrupted L key invoke items i \<longleftrightarrow>
     PrErr (runOne L key invoke items i) \<noteq> None \<and> IsInterrupt (PrErr (runOne L key invoke items i))"

lemma item_cases: "normal_failure (runOne L key invoke items i) \<longleftrightarrow> \<not> item_ok L key invoke items i \<and> \<not> item_interrupted L key invoke items i"
  by (auto simp: normal_failure_def item_ok_def item_interrupted_def)

lemma fresh_indices: "distinct (map int [0..<n])" "set (map int [0..<n]) = {0..<int n}"
  by (auto simp: distinct_map image_int_atLeastLessThan)

lemma invoke_ok:
  assumes "i < length items" and "invoke (item_thread L key (int i)) (items ! i) = Inr out"
  shows "item_ok L key invoke items (int i) \<and> PrOutput (runOne L key invoke items (int i)) = out"
  using assms by (simp add: item_ok_def runOne_def)

text \<open>C38: The outputs of a parallel node are in the order of its items, whatever the concurrency and the order in which the
  items finish: when the sub-graph succeeds on every item, the node returns exactly the list of the outputs. When some
  item fails, the node fails with the error of an item that did, the first one if the items run one by one.\<close>

theorem parallel_results_in_order:
  assumes "\<forall>xs. mset (order xs) = mset xs" and "loadParallelSnapshot decode w = None"
  shows "(map (\<lambda>i. invoke (item_thread L key (int i)) (items ! i)) [0..<length items] = map Inr outs \<longrightarrow>
      runParallel L decode key invoke options order items w = (w, Inr (GSlice outs))) \<and>
    ((\<exists>i. 0 \<le> i \<and> i < int (length items) \<and> normal_failure (runOne L key invoke items i)) \<longrightarrow>
      (\<exists>i. 0 \<le> i \<and> i < int (length items) \<and> normal_failure (runOne L key invoke items i) \<and>
        runParallel L decode key invoke options order items w = (w, Inl (failure_of L (runOne L key invoke items i))) \<and>
        (po_maxConcurrency options \<le> 1 \<longrightarrow> (\<forall>j. 0 \<le> j \<and> j < i \<longrightarrow> \<not> normal_failure (runOne L key invoke items j)))))"
proof -
  let ?n = "length items"
  define run where "run = runOne L key invoke items"
  define rs where "rs = fanOutItems L key invoke items (map int [0..<?n]) options order"
  define c where "c = fold (collect_result L) rs
    \<lparr>co_outputs = replicate ?n GNil, co_completed = [], co_normalErr = None, co_hasInterrupt = False\<rparr>"
  note spec = collect_fan_out [OF assms(1) fresh_indices(1) [of ?n], where L = L and key = key and invoke = invoke
        and items = items and options = options and outs = "replicate ?n GNil",
      folded rs_def run_def, folded c_def]
  have start: "parallel_start items (loadParallelSnapshot decode w) =
      (int ?n, replicate ?n GNil, map int [0..<?n], newItemCheckpointStore [])"
    by (simp add: parallel_start_def assms(2))
  have part1: "runParallel L decode key invoke options order items w = (w, Inr (GSlice outs))"
    if all: "map (\<lambda>i. invoke (item_thread L key (int i)) (items ! i)) [0..<?n] = map Inr outs"
  proof -
    have len: "length outs = ?n" using arg_cong [OF all, of length] by simp
    have inv: "invoke (item_thread L key (int i)) (items ! i) = Inr (outs ! i)" if "i < ?n" for i
      using arg_cong [OF all, of "\<lambda>xs. xs ! i"] that len by simp
    then have ok: "PrErr (run (int i)) = None" "PrOutput (run (int i)) = outs ! i" if "i < ?n" for i
      using invoke_ok [of i items invoke L key "outs ! i"] that by (simp_all add: run_def item_ok_def)
    then have okz: "PrErr (run i) = None" if "i \<in> {0..<int ?n}" for i
      using that by (metis atLeastLessThan_iff int_nat_eq nat_less_iff)
    then have "co_normalErr c = None" "\<not> co_hasInterrupt c"
      unfolding spec(4,5) fresh_indices(2) by (simp_all add: normal_failure_def)
    moreover have "co_outputs c = outs"
      using spec(1,2) ok by (intro nth_equalityI) (simp_all add: len fresh_indices(2) del: set_map set_upt)
    ultimately show ?thesis
      unfolding runParallel_def start using len by (auto simp: Let_def simp flip: rs_def c_def)
  qed
  have part2: "\<exists>i. 0 \<le> i \<and> i < int ?n \<and> normal_failure (run i) \<and>
        runParallel L decode key invoke options order items w = (w, Inl (failure_of L (run i))) \<and>
        (po_maxConcurrency options \<le> 1 \<longrightarrow> (\<forall>j. 0 \<le> j \<and> j < i \<longrightarrow> \<not> normal_failure (run j)))"
    if bad: "0 \<le> j" "j < int ?n" "normal_failure (run j)" for j
  proof -
    have fails: "co_normalErr c \<noteq> None" using bad unfolding spec(5) fresh_indices(2) by auto
    then have run_eq: "runParallel L decode key invoke options order items w = (w, Inl (the (co_normalErr c)))"
      using bad(2) bad(1) by (auto simp: runParallel_def start Let_def simp flip: rs_def c_def)
    show ?thesis
    proof (cases "po_maxConcurrency options \<le> 1")
      case False
      from fails spec(6) [of "the (co_normalErr c)"] obtain i where "i \<in> {0..<int ?n}" "normal_failure (run i)"
        "the (co_normalErr c) = failure_of L (run i)" unfolding fresh_indices(2) by auto
      with run_eq False show ?thesis by auto
    next
      case True
      then have rs: "rs = map (\<lambda>k. run (int k)) [0..<?n]" by (simp add: rs_def fanOutItems_def run_def)
      have "co_normalErr c = map_option (failure_of L) (find normal_failure rs)" by (simp add: c_def collect_normal)
      with fails obtain r where r: "find normal_failure rs = Some r" "the (co_normalErr c) = failure_of L r" by auto
      then obtain k where k: "k < ?n" "normal_failure (run (int k))" "r = run (int k)" "\<forall>m < k. \<not> normal_failure (run (int m))"
        by (auto simp: find_Some_iff rs)
      have "\<not> normal_failure (run m)" if "0 \<le> m" "m < int k" for m
        using k(4) [rule_format, of "nat m"] that by simp
      with k r run_eq show ?thesis by (intro exI [of _ "int k"]) auto
    qed
  qed
  show ?thesis using part1 part2 unfolding run_def by blast
qed

definition idle_world :: interrupt_world where
  "idle_world = \<lparr>iw_request = None, iw_global = new_context, iw_counter = 0\<rparr>"

lemmas world_defs = idle_world_def new_context_def the_context_def GetResumeValues_def GetInterruptIndex_def GetNullResume_def
  loadParallelSnapshot_def

theorem parallel_results_in_order_witness:
  "runParallel sample_lib (\<lambda>b. None) ''p'' (\<lambda>t x. Inr (GSlice [x])) \<lparr>po_maxConcurrency = 2\<rparr> rev [GBool True, GBool False, GNil] idle_world =
     (idle_world, Inr (GSlice [GSlice [GBool True], GSlice [GBool False], GSlice [GNil]]))"
proof -
  have "\<forall>xs. mset (rev xs) = mset (xs :: int list)" "loadParallelSnapshot (\<lambda>b. None) idle_world = None"
    by (simp_all add: world_defs)
  note pre = this
  have "map (\<lambda>i. (\<lambda>t x. Inr (GSlice [x])) (item_thread sample_lib ''p'' (int i)) ([GBool True, GBool False, GNil] ! i))
      [0..<length [GBool True, GBool False, GNil]] = map Inr [GSlice [GBool True], GSlice [GBool False], GSlice [GNil]]"
    by (simp add: upt_conv_Cons)
  from mp [OF conjunct1 [OF parallel_results_in_order [OF pre]] this] show ?thesis .
qed

lemma interrupt_raised:
  assumes "length (GetResumeValues w) \<le> GetInterruptIndex w" and "snd (GetNullResume False w) = GNil"
  shows "\<exists>w' i. Interrupt_call L v w = (w', Inl (GraphInterrupt [Interrupt v i]))"
proof -
  have "consumeNextResumeValue (the_context w) = (the_context w, None)"
    using assms(1) by (simp add: consumeNextResumeValue_def GetResumeValues_def GetInterruptIndex_def)
  then show ?thesis using assms(2) by (simp add: Interrupt_call_def GetNullResume_def Let_def)
qed

text \<open>A run that ends in an interrupt: the state it carries.\<close>

lemma parallel_interrupts:
  assumes order: "\<forall>xs. mset (order xs) = mset xs" and start: "parallel_start items (loadParallelSnapshot decode w) = (n, outs, is, bridge)"
    and dist: "distinct is" and none: "\<forall>i \<in> set is. \<not> normal_failure (runOne L key invoke items i)"
    and int: "\<exists>i \<in> set is. item_interrupted L key invoke items i"
    and fresh: "length (GetResumeValues w) \<le> GetInterruptIndex w" "snd (GetNullResume False w) = GNil"
    and js: "json_marshal L (GSlice items) = Some js"
  shows "\<exists>st i w'. runParallel L decode key invoke options order items w =
      (w', Inl (GraphInterrupt [Interrupt (parallel_state_value L st) i])) \<and> PsTotalCount st = n \<and>
    PsInterruptedIndices st = filter (\<lambda>i. \<not> (i \<in> set is \<and> item_ok L key invoke items i)) [0..n - 1] \<and>
    (\<forall>i. map_of (PsCompletedResults st) i = (if i \<in> set is \<and> item_ok L key invoke items i
       then Some (PrOutput (runOne L key invoke items i)) else None))"
proof -
  define c where "c = fold (collect_result L) (fanOutItems L key invoke items is options order)
    \<lparr>co_outputs = outs, co_completed = [], co_normalErr = None, co_hasInterrupt = False\<rparr>"
  note spec = collect_fan_out [OF order dist, where L = L and key = key and invoke = invoke
        and items = items and options = options and outs = outs, folded c_def]
  define st where "st = \<lparr>PsOriginalInputsJSON = js, PsCompletedResults = co_completed c,
     PsInterruptedIndices = parallel_pending n (co_completed c), PsTotalCount = n, PsItemCheckpoints = ics_snapshot bridge\<rparr>"
  have "co_normalErr c = None" "co_hasInterrupt c"
    using none int spec(4,5) by (auto simp: item_interrupted_def)
  moreover obtain w' i where "Interrupt_call L (parallel_state_value L st) w =
      (w', Inl (GraphInterrupt [Interrupt (parallel_state_value L st) i]))"
    using interrupt_raised [OF fresh] by blast
  moreover have "is \<noteq> []" using int by auto
  ultimately have "runParallel L decode key invoke options order items w =
      (w', Inl (GraphInterrupt [Interrupt (parallel_state_value L st) i]))"
    unfolding runParallel_def start by (simp add: Let_def js flip: c_def st_def)
  moreover have "PsInterruptedIndices st = filter (\<lambda>i. \<not> (i \<in> set is \<and> item_ok L key invoke items i)) [0..n - 1]"
    by (auto simp: st_def parallel_pending_def spec(3) item_ok_def intro!: filter_cong)
  ultimately show ?thesis
    by (intro exI [of _ st] exI [of _ i] exI [of _ w']) (auto simp: spec(3) item_ok_def st_def)
qed

lemma parallel_resumes:
  assumes order: "\<forall>xs. mset (order xs) = mset xs" and load: "loadParallelSnapshot decode w = Some st"
    and total: "PsTotalCount st = int (length items)" and dist: "distinct (PsInterruptedIndices st)" "distinct (map fst (PsCompletedResults st))"
    and ok: "\<forall>i \<in> set (PsInterruptedIndices st). item_ok L key invoke items i"
  shows "runParallel L decode key invoke options order items w = (w, Inr (GSlice (map (\<lambda>i.
      if int i \<in> set (PsInterruptedIndices st) then PrOutput (runOne L key invoke items (int i))
      else case map_of (PsCompletedResults st) (int i) of Some v \<Rightarrow> v | None \<Rightarrow> GNil) [0..<length items])))"
proof -
  let ?n = "length items" and ?is = "PsInterruptedIndices st"
  define outs where "outs = fold (\<lambda>(i, v) outs. set_output i v outs) (PsCompletedResults st) (replicate ?n GNil)"
  have start: "parallel_start items (loadParallelSnapshot decode w) = (int ?n, outs, ?is, newItemCheckpointStore (PsItemCheckpoints st))"
    by (simp add: parallel_start_def load total outs_def)
  have nth: "outs ! k = (case map_of (PsCompletedResults st) (int k) of Some v \<Rightarrow> v | None \<Rightarrow> GNil)" "length outs = ?n" if "k < ?n" for k
    using that dist(2) by (simp_all add: outs_def nth_fold_outputs split: option.splits)
  have len: "length outs = ?n" by (simp add: outs_def)
  define c where "c = fold (collect_result L) (fanOutItems L key invoke items ?is options order)
    \<lparr>co_outputs = outs, co_completed = [], co_normalErr = None, co_hasInterrupt = False\<rparr>"
  note spec = collect_fan_out [OF order dist(1), where L = L and key = key and invoke = invoke
        and items = items and options = options and outs = outs, folded c_def]
  have c: "co_normalErr c = None" "\<not> co_hasInterrupt c"
    using ok spec(4,5) by (auto simp: item_ok_def normal_failure_def)
  have "co_outputs c = map (\<lambda>i. if int i \<in> set ?is then PrOutput (runOne L key invoke items (int i))
      else case map_of (PsCompletedResults st) (int i) of Some v \<Rightarrow> v | None \<Rightarrow> GNil) [0..<?n]"
    using ok spec(1,2) nth len by (intro nth_equalityI) (auto simp: item_ok_def)
  moreover have "runParallel L decode key invoke options order items w = (w, Inr (GSlice (co_outputs c)))"
    unfolding runParallel_def start using c
    by (cases "?is = []") (simp_all add: Let_def c_def fanOutItems_def)
  ultimately show ?thesis by simp
qed

text \<open>A second interruption loses the first round. When a resumed parallel node is interrupted again, the new state has
  only the results of the second round: every item completed in the first round is listed as interrupted and will
  run again, although only the interrupted items should. And while a resume value is left (the saved
  state itself is one), the interruption is not raised at all: the node returns nil as its output.\<close>

theorem parallel_second_interrupt:
  assumes "\<forall>xs. mset (order xs) = mset xs" and "loadParallelSnapshot decode w = Some prev"
    and "distinct (PsInterruptedIndices prev)"
    and "\<forall>i \<in> set (PsInterruptedIndices prev). \<not> normal_failure (runOne L key invoke items i)"
    and "\<exists>i \<in> set (PsInterruptedIndices prev). item_interrupted L key invoke items i"
    and "json_marshal L (GSlice items) = Some js"
  shows "(length (GetResumeValues w) \<le> GetInterruptIndex w \<and> snd (GetNullResume False w) = GNil \<longrightarrow>
      (\<exists>st i w'. runParallel L decode key invoke options order items w =
          (w', Inl (GraphInterrupt [Interrupt (parallel_state_value L st) i])) \<and>
        (\<forall>j. 0 \<le> j \<and> j < PsTotalCount prev \<and> j \<notin> set (PsInterruptedIndices prev) \<longrightarrow>
           j \<in> set (PsInterruptedIndices st) \<and> map_of (PsCompletedResults st) j = None))) \<and>
    (GetInterruptIndex w < length (GetResumeValues w) \<longrightarrow>
      (\<exists>w'. runParallel L decode key invoke options order items w = (w', Inr GNil)))"
proof (intro conjI impI; (elim conjE)?)
  obtain outs bridge where start: "parallel_start items (loadParallelSnapshot decode w) =
      (PsTotalCount prev, outs, PsInterruptedIndices prev, bridge)"
    by (simp add: parallel_start_def assms(2))
  show "\<exists>st i w'. runParallel L decode key invoke options order items w =
          (w', Inl (GraphInterrupt [Interrupt (parallel_state_value L st) i])) \<and>
        (\<forall>j. 0 \<le> j \<and> j < PsTotalCount prev \<and> j \<notin> set (PsInterruptedIndices prev) \<longrightarrow>
           j \<in> set (PsInterruptedIndices st) \<and> map_of (PsCompletedResults st) j = None)"
    if fresh: "length (GetResumeValues w) \<le> GetInterruptIndex w" "snd (GetNullResume False w) = GNil"
    using parallel_interrupts [OF assms(1) start assms(3-5) fresh assms(6), of options]
    by (elim exE conjE, intro exI conjI) auto
  show "\<exists>w'. runParallel L decode key invoke options order items w = (w', Inr GNil)"
    if left: "GetInterruptIndex w < length (GetResumeValues w)"
  proof -
    define c where "c = fold (collect_result L) (fanOutItems L key invoke items (PsInterruptedIndices prev) options order)
      \<lparr>co_outputs = outs, co_completed = [], co_normalErr = None, co_hasInterrupt = False\<rparr>"
    note spec = collect_fan_out [OF assms(1,3), where L = L and key = key and invoke = invoke
        and items = items and options = options and outs = outs, folded c_def]
    have "co_normalErr c = None" "co_hasInterrupt c" "PsInterruptedIndices prev \<noteq> []"
      using assms(4,5) spec(4,5) by (auto simp: item_interrupted_def)
    moreover have "\<exists>w' u. Interrupt_call L v w = (w', Inr u)" for v
      using left by (simp add: Interrupt_call_def consumeNextResumeValue_def GetResumeValues_def GetInterruptIndex_def)
    ultimately show ?thesis
      unfolding runParallel_def start by (auto simp: Let_def assms(6) split: prod.splits sum.splits simp flip: c_def)
         (metis Pair_inject sum.distinct(1))
  qed
qed

text \<open>C39: What an interrupted parallel node takes up again. When, in a run that resumes no earlier one and has no resume value left,
  some items are interrupted and none fails, the node raises an interrupt with the results of the items that completed. A later
  run that is given the JSON image of this state runs only the other items and, when they all succeed, returns all outputs in
  order, the earlier ones as their JSON images. When some of them are interrupted again, the results of the first run are lost:
  the new interrupt lists every item the first run completed as one to run again, without a result, and with a resume value
  left (the saved state is one until it is consumed) no interrupt is raised at all: the node returns nil as its output.\<close>

theorem parallel_interrupt_resume:
  assumes "\<forall>xs. mset (order xs) = mset xs" and "loadParallelSnapshot decode w = None"
    and "\<forall>i. 0 \<le> i \<and> i < int (length items) \<longrightarrow> \<not> normal_failure (runOne L key invoke items i)"
    and "\<exists>i. 0 \<le> i \<and> i < int (length items) \<and> item_interrupted L key invoke items i"
    and "length (GetResumeValues w) \<le> GetInterruptIndex w" and "snd (GetNullResume False w) = GNil"
    and "json_marshal L (GSlice items) = Some js"
  shows "\<exists>st i w'. runParallel L decode key invoke options order items w =
      (w', Inl (GraphInterrupt [Interrupt (parallel_state_value L st) i])) \<and> PsTotalCount st = int (length items) \<and>
    PsInterruptedIndices st = filter (\<lambda>i. \<not> item_ok L key invoke items i) [0..int (length items) - 1] \<and>
    (\<forall>i. map_of (PsCompletedResults st) i = (if 0 \<le> i \<and> i < int (length items) \<and> item_ok L key invoke items i
       then Some (PrOutput (runOne L key invoke items i)) else None)) \<and>
    (\<forall>invoke2 options2 order2 w2 st2. (\<forall>xs. mset (order2 xs) = mset xs) \<and> loadParallelSnapshot decode w2 = Some st2 \<and>
       PsTotalCount st2 = PsTotalCount st \<and> PsInterruptedIndices st2 = PsInterruptedIndices st \<and>
       distinct (map fst (PsCompletedResults st2)) \<and>
       (\<forall>i. map_of (PsCompletedResults st2) i = map_option (json_copy L) (map_of (PsCompletedResults st) i)) \<and>
       (\<forall>i \<in> set (PsInterruptedIndices st). item_ok L key invoke2 items i) \<longrightarrow>
       runParallel L decode key invoke2 options2 order2 items w2 = (w2, Inr (GSlice (map (\<lambda>i.
         if item_ok L key invoke items (int i) then json_copy L (PrOutput (runOne L key invoke items (int i)))
         else PrOutput (runOne L key invoke2 items (int i))) [0..<length items])))) \<and>
    (\<forall>invoke2 options2 order2 w2 st2. (\<forall>xs. mset (order2 xs) = mset xs) \<and> loadParallelSnapshot decode w2 = Some st2 \<and>
       PsTotalCount st2 = PsTotalCount st \<and> PsInterruptedIndices st2 = PsInterruptedIndices st \<and>
       (\<forall>i \<in> set (PsInterruptedIndices st). \<not> normal_failure (runOne L key invoke2 items i)) \<and>
       (\<exists>i \<in> set (PsInterruptedIndices st). item_interrupted L key invoke2 items i) \<longrightarrow>
       (length (GetResumeValues w2) \<le> GetInterruptIndex w2 \<and> snd (GetNullResume False w2) = GNil \<longrightarrow>
          (\<exists>st3 i3 w3. runParallel L decode key invoke2 options2 order2 items w2 =
              (w3, Inl (GraphInterrupt [Interrupt (parallel_state_value L st3) i3])) \<and>
            (\<forall>j. 0 \<le> j \<and> j < int (length items) \<and> item_ok L key invoke items j \<longrightarrow>
               j \<in> set (PsInterruptedIndices st3) \<and> map_of (PsCompletedResults st3) j = None))) \<and>
       (GetInterruptIndex w2 < length (GetResumeValues w2) \<longrightarrow>
          (\<exists>w3. runParallel L decode key invoke2 options2 order2 items w2 = (w3, Inr GNil))))"
proof -
  let ?n = "length items"
  have start: "parallel_start items (loadParallelSnapshot decode w) =
      (int ?n, replicate ?n GNil, map int [0..<?n], newItemCheckpointStore [])"
    by (simp add: parallel_start_def assms(2))
  have pre: "\<forall>i \<in> set (map int [0..<?n]). \<not> normal_failure (runOne L key invoke items i)"
    "\<exists>i \<in> set (map int [0..<?n]). item_interrupted L key invoke items i"
    unfolding fresh_indices(2) using assms(3,4) by auto
  obtain st i w' where run: "runParallel L decode key invoke options order items w =
      (w', Inl (GraphInterrupt [Interrupt (parallel_state_value L st) i]))" and total: "PsTotalCount st = int ?n"
    and pend: "PsInterruptedIndices st = filter (\<lambda>i. \<not> (i \<in> {0..<int ?n} \<and> item_ok L key invoke items i)) [0..int ?n - 1]"
    and comp: "\<forall>i. map_of (PsCompletedResults st) i = (if i \<in> {0..<int ?n} \<and> item_ok L key invoke items i
       then Some (PrOutput (runOne L key invoke items i)) else None)"
    using parallel_interrupts [OF assms(1) start fresh_indices(1) pre assms(5-7), unfolded fresh_indices(2)] by blast
  have "runParallel L decode key invoke2 options2 order2 items w2 = (w2, Inr (GSlice (map (\<lambda>i.
         if item_ok L key invoke items (int i) then json_copy L (PrOutput (runOne L key invoke items (int i)))
         else PrOutput (runOne L key invoke2 items (int i))) [0..<?n])))"
    if "\<forall>xs. mset (order2 xs) = mset xs" "loadParallelSnapshot decode w2 = Some st2" "PsTotalCount st2 = PsTotalCount st"
      "PsInterruptedIndices st2 = PsInterruptedIndices st" "distinct (map fst (PsCompletedResults st2))"
      "\<forall>i. map_of (PsCompletedResults st2) i = map_option (json_copy L) (map_of (PsCompletedResults st) i)"
      "\<forall>i \<in> set (PsInterruptedIndices st). item_ok L key invoke2 items i" for invoke2 options2 order2 w2 st2
  proof -
    have "distinct (PsInterruptedIndices st2)" by (simp add: that(4) pend)
    from parallel_resumes [OF that(1,2) _ this that(5), of items L key invoke2 options2]
    have "runParallel L decode key invoke2 options2 order2 items w2 = (w2, Inr (GSlice (map (\<lambda>i.
        if int i \<in> set (PsInterruptedIndices st2) then PrOutput (runOne L key invoke2 items (int i))
        else case map_of (PsCompletedResults st2) (int i) of Some v \<Rightarrow> v | None \<Rightarrow> GNil) [0..<?n])))"
      using that(3,4,7) total by simp
    also have "map (\<lambda>i. if int i \<in> set (PsInterruptedIndices st2) then PrOutput (runOne L key invoke2 items (int i))
        else case map_of (PsCompletedResults st2) (int i) of Some v \<Rightarrow> v | None \<Rightarrow> GNil) [0..<?n] =
      map (\<lambda>i. if item_ok L key invoke items (int i) then json_copy L (PrOutput (runOne L key invoke items (int i)))
         else PrOutput (runOne L key invoke2 items (int i))) [0..<?n]"
      by (rule map_cong [OF refl]) (auto simp: that(4,6) pend comp)
    finally show ?thesis .
  qed
  note resumed = this
  have "(length (GetResumeValues w2) \<le> GetInterruptIndex w2 \<and> snd (GetNullResume False w2) = GNil \<longrightarrow>
          (\<exists>st3 i3 w3. runParallel L decode key invoke2 options2 order2 items w2 =
              (w3, Inl (GraphInterrupt [Interrupt (parallel_state_value L st3) i3])) \<and>
            (\<forall>j. 0 \<le> j \<and> j < int ?n \<and> item_ok L key invoke items j \<longrightarrow>
               j \<in> set (PsInterruptedIndices st3) \<and> map_of (PsCompletedResults st3) j = None))) \<and>
       (GetInterruptIndex w2 < length (GetResumeValues w2) \<longrightarrow>
          (\<exists>w3. runParallel L decode key invoke2 options2 order2 items w2 = (w3, Inr GNil)))"
    if again: "\<forall>xs. mset (order2 xs) = mset xs" "loadParallelSnapshot decode w2 = Some st2" "PsTotalCount st2 = PsTotalCount st"
      "PsInterruptedIndices st2 = PsInterruptedIndices st"
      "\<forall>i \<in> set (PsInterruptedIndices st). \<not> normal_failure (runOne L key invoke2 items i)"
      "\<exists>i \<in> set (PsInterruptedIndices st). item_interrupted L key invoke2 items i" for invoke2 options2 order2 w2 st2
  proof -
    have dist: "distinct (PsInterruptedIndices st2)" by (simp add: again(4) pend)
    note second = parallel_second_interrupt [OF again(1,2) dist again(5,6) [folded again(4)] assms(7), of options2]
    have lost: "0 \<le> j \<and> j < PsTotalCount st2 \<and> j \<notin> set (PsInterruptedIndices st2)"
      if "0 \<le> j \<and> j < int ?n \<and> item_ok L key invoke items j" for j
      using that by (simp add: again(3,4) total pend)
    have "\<exists>st3 i3 w3. runParallel L decode key invoke2 options2 order2 items w2 =
              (w3, Inl (GraphInterrupt [Interrupt (parallel_state_value L st3) i3])) \<and>
            (\<forall>j. 0 \<le> j \<and> j < int ?n \<and> item_ok L key invoke items j \<longrightarrow>
               j \<in> set (PsInterruptedIndices st3) \<and> map_of (PsCompletedResults st3) j = None)"
      if "length (GetResumeValues w2) \<le> GetInterruptIndex w2 \<and> snd (GetNullResume False w2) = GNil"
    proof -
      from mp [OF conjunct1 [OF second] that] obtain st3 i3 w3 where
        run3: "runParallel L decode key invoke2 options2 order2 items w2 =
          (w3, Inl (GraphInterrupt [Interrupt (parallel_state_value L st3) i3]))"
        and st3: "\<forall>j. 0 \<le> j \<and> j < PsTotalCount st2 \<and> j \<notin> set (PsInterruptedIndices st2) \<longrightarrow>
           j \<in> set (PsInterruptedIndices st3) \<and> map_of (PsCompletedResults st3) j = None"
        by (elim exE conjE) (rule that)
      have "\<forall>j. 0 \<le> j \<and> j < int ?n \<and> item_ok L key invoke items j \<longrightarrow>
          j \<in> set (PsInterruptedIndices st3) \<and> map_of (PsCompletedResults st3) j = None"
        by (intro allI impI, rule st3 [rule_format], rule lost)
      with run3 show ?thesis by (intro exI conjI)
    qed
    with conjunct2 [OF second] show ?thesis by (intro conjI impI) simp_all
  qed
  note lost_again = this
  show ?thesis
  proof (rule exI [of _ st], rule exI [of _ i], rule exI [of _ w'], intro conjI)
    show "PsInterruptedIndices st = filter (\<lambda>i. \<not> item_ok L key invoke items i) [0..int ?n - 1]"
      unfolding pend by (rule filter_cong) auto
  qed (use run total comp in simp, use run total comp in simp, use run total comp in simp,
       intro allI impI, elim conjE, rule resumed, assumption+, intro allI impI, elim conjE, rule lost_again, assumption+)
qed

definition some_lib :: golib where
  "some_lib = sample_lib\<lparr>json_marshal := (\<lambda>v. Some [])\<rparr>"

definition picky :: "string \<Rightarrow> gval \<Rightarrow> gval res" where
  "picky = (\<lambda>t x. if x = GNil then Inl (GraphInterrupt []) else Inr x)"

definition picky_state :: parallelInterruptState where
  "picky_state = \<lparr>PsOriginalInputsJSON = [], PsCompletedResults = [(0, GBool True)], PsInterruptedIndices = [1],
     PsTotalCount = 2, PsItemCheckpoints = []\<rparr>"

definition picky_decode :: "string \<Rightarrow> parallelInterruptState option" where
  "picky_decode b = (if b = ''P'' then Some picky_state else None)"

definition resumed_world :: interrupt_world where
  "resumed_world = idle_world\<lparr>iw_global := \<lparr>ic_resumeValues = [GBytes ''P''], ic_index = 1, ic_nullResume = GNil\<rparr>\<rparr>"

lemma picky_items:
  "item_ok some_lib ''p'' picky [GBool True, GNil] i \<longleftrightarrow> i = 0"
  "item_interrupted some_lib ''p'' picky [GBool True, GNil] i \<longleftrightarrow> i = 1"
  "normal_failure (runOne some_lib ''p'' picky [GBool True, GNil] i) \<longleftrightarrow> i < 0 \<or> i \<ge> 2"
  "PrOutput (runOne some_lib ''p'' picky [GBool True, GNil] 0) = GBool True"
  "PrOutput (runOne some_lib ''p'' (\<lambda>t x. Inr x) [GBool True, GNil] 1) = GNil"
  "item_ok some_lib ''p'' (\<lambda>t x. Inr x) [GBool True, GNil] 1"
  by (auto simp: item_ok_def item_interrupted_def normal_failure_def runOne_def picky_def IsInterrupt_def IsGraphInterrupt_def
    nth_Cons' nat_eq_iff)

theorem parallel_interrupt_resume_witness:
  "runParallel some_lib picky_decode ''p'' (\<lambda>t x. Inr x) \<lparr>po_maxConcurrency = 0\<rparr> rev [GBool True, GNil] resumed_world =
     (resumed_world, Inr (GSlice [GBool True, GNil]))"
proof -
  have ord: "\<forall>xs. mset (rev xs) = mset (xs :: int list)" by simp
  have load: "loadParallelSnapshot picky_decode idle_world = None" by (simp add: world_defs)
  have none: "\<forall>i. 0 \<le> i \<and> i < int (length [GBool True, GNil]) \<longrightarrow>
      \<not> normal_failure (runOne some_lib ''p'' picky [GBool True, GNil] i)" by (auto simp: picky_items)
  have some: "\<exists>i. 0 \<le> i \<and> i < int (length [GBool True, GNil]) \<and> item_interrupted some_lib ''p'' picky [GBool True, GNil] i"
    by (rule exI [of _ 1]) (simp add: picky_items)
  have idle: "length (GetResumeValues idle_world) \<le> GetInterruptIndex idle_world" "snd (GetNullResume False idle_world) = GNil"
    by (simp_all add: world_defs)
  have js: "json_marshal some_lib (GSlice [GBool True, GNil]) = Some []" by (simp add: some_lib_def)
  have idx: "filter (\<lambda>i. i \<noteq> 0) [0..1 :: int] = [1]" by (simp add: upto.simps)
  have load2: "loadParallelSnapshot picky_decode resumed_world = Some picky_state"
    by (simp add: resumed_world_def world_defs picky_decode_def picky_state_def)
  have up: "[0..<2] = [0, Suc 0]" by (simp add: upt_conv_Cons)
  from parallel_interrupt_resume [OF ord load none some idle js, of "\<lparr>po_maxConcurrency = 0\<rparr>"] show ?thesis
  proof (elim exE conjE)
    fix st i w'
    assume total: "PsTotalCount st = int (length [GBool True, GNil])"
      and pend: "PsInterruptedIndices st = filter (\<lambda>i. \<not> item_ok some_lib ''p'' picky [GBool True, GNil] i) [0..int (length [GBool True, GNil]) - 1]"
      and comp: "\<forall>i. map_of (PsCompletedResults st) i = (if 0 \<le> i \<and> i < int (length [GBool True, GNil]) \<and>
          item_ok some_lib ''p'' picky [GBool True, GNil] i then Some (PrOutput (runOne some_lib ''p'' picky [GBool True, GNil] i)) else None)"
      and resume: "\<forall>invoke2 options2 order2 w2 st2. (\<forall>xs. mset (order2 xs) = mset xs) \<and>
          loadParallelSnapshot picky_decode w2 = Some st2 \<and> PsTotalCount st2 = PsTotalCount st \<and>
          PsInterruptedIndices st2 = PsInterruptedIndices st \<and> distinct (map fst (PsCompletedResults st2)) \<and>
          (\<forall>i. map_of (PsCompletedResults st2) i = map_option (json_copy some_lib) (map_of (PsCompletedResults st) i)) \<and>
          (\<forall>i \<in> set (PsInterruptedIndices st). item_ok some_lib ''p'' invoke2 [GBool True, GNil] i) \<longrightarrow>
          runParallel some_lib picky_decode ''p'' invoke2 options2 order2 [GBool True, GNil] w2 =
            (w2, Inr (GSlice (map (\<lambda>i. if item_ok some_lib ''p'' picky [GBool True, GNil] (int i)
               then json_copy some_lib (PrOutput (runOne some_lib ''p'' picky [GBool True, GNil] (int i)))
               else PrOutput (runOne some_lib ''p'' invoke2 [GBool True, GNil] (int i))) [0..<length [GBool True, GNil]])))"
    have "PsInterruptedIndices st = [1]" using pend idx by (simp add: picky_items)
    moreover have "\<forall>i. map_of (PsCompletedResults picky_state) i = map_option (json_copy some_lib) (map_of (PsCompletedResults st) i)"
      using comp by (simp add: picky_items picky_state_def json_copy_def)
    ultimately have "runParallel some_lib picky_decode ''p'' (\<lambda>t x. Inr x) \<lparr>po_maxConcurrency = 0\<rparr> rev [GBool True, GNil] resumed_world =
        (resumed_world, Inr (GSlice (map (\<lambda>i. if item_ok some_lib ''p'' picky [GBool True, GNil] (int i)
               then json_copy some_lib (PrOutput (runOne some_lib ''p'' picky [GBool True, GNil] (int i)))
               else PrOutput (runOne some_lib ''p'' (\<lambda>t x. Inr x) [GBool True, GNil] (int i))) [0..<length [GBool True, GNil]])))"
      using load2 total picky_items(6)
      by (intro resume [THEN spec [of _ "\<lambda>t x. Inr x"], THEN spec [of _ "\<lparr>po_maxConcurrency = 0\<rparr>"], THEN spec [of _ rev],
            THEN spec [of _ resumed_world], THEN spec [of _ picky_state], THEN mp]) (simp add: picky_state_def)
    then show ?thesis by (simp add: up picky_items json_copy_def)
  qed
qed

theorem parallel_second_interrupt_witness:
  "\<exists>st i w'. runParallel some_lib picky_decode ''p'' picky \<lparr>po_maxConcurrency = 0\<rparr> rev [GBool True, GNil] resumed_world =
     (w', Inl (GraphInterrupt [Interrupt (parallel_state_value some_lib st) i])) \<and> 0 \<in> set (PsInterruptedIndices st)"
proof -
  have ord: "\<forall>xs. mset (rev xs) = mset (xs :: int list)" by simp
  have load: "loadParallelSnapshot picky_decode resumed_world = Some picky_state"
    by (simp add: resumed_world_def world_defs picky_decode_def picky_state_def)
  have pre: "distinct (PsInterruptedIndices picky_state)"
    "\<forall>i \<in> set (PsInterruptedIndices picky_state). \<not> normal_failure (runOne some_lib ''p'' picky [GBool True, GNil] i)"
    "\<exists>i \<in> set (PsInterruptedIndices picky_state). item_interrupted some_lib ''p'' picky [GBool True, GNil] i"
    "json_marshal some_lib (GSlice [GBool True, GNil]) = Some []"
    by (simp add: picky_state_def, simp add: picky_state_def picky_items, simp add: picky_state_def picky_items, simp add: some_lib_def)
  have fresh: "length (GetResumeValues resumed_world) \<le> GetInterruptIndex resumed_world \<and> snd (GetNullResume False resumed_world) = GNil"
    by (simp add: resumed_world_def world_defs)
  have zero: "0 \<le> (0 :: int) \<and> 0 < PsTotalCount picky_state \<and> 0 \<notin> set (PsInterruptedIndices picky_state)" by (simp add: picky_state_def)
  from mp [OF conjunct1 [OF parallel_second_interrupt [OF ord load pre]] fresh] zero show ?thesis by blast
qed

end
