(* ===== verification/Messages.thy ===== *)
theory Messages
  imports State_Graph Registry Priority_Queue
begin

text \<open>
  Conversations (\<open>graph/message.go\<close>): messages, the reducer that merges new messages into a conversation by their
  identifiers, the state helpers, filters, and the conversion to the chat format of the OpenAI interface. A
  \<open>*Message\<close> inside an \<open>interface{}\<close> is a pointer to a struct value (\<open>message_value\<close>), a \<open>[]*Message\<close> a typed slice
  of them (\<open>messages_value\<close>). Pointers to messages are not nil; the code dereferences them unchecked.
\<close>

section \<open>Messages\<close>

record Message =
  MsID :: string
  MsRole :: string
  MsContent :: string
  MsExtra :: "gval gomap"

definition NewMessage :: "string \<Rightarrow> string \<Rightarrow> Message" where
  "NewMessage role content = \<lparr>MsID = [], MsRole = role, MsContent = content, MsExtra = []\<rparr>"

definition NewMessageWithID :: "string \<Rightarrow> string \<Rightarrow> string \<Rightarrow> Message" where
  "NewMessageWithID i role content = \<lparr>MsID = i, MsRole = role, MsContent = content, MsExtra = []\<rparr>"

definition message_type :: gtype where
  "message_type = TStruct ''Message'' [(''ID'', True, TString), (''Role'', True, TString), (''Content'', True, TString),
     (''Extra'', True, TMap TString TAny)]"

definition message_value :: "Message \<Rightarrow> gval" where
  "message_value m = GPtr (GStruct ''Message'' [(''ID'', True, TString, GStr (MsID m)), (''Role'', True, TString, GStr (MsRole m)),
     (''Content'', True, TString, GStr (MsContent m)), (''Extra'', True, TMap TString TAny, GMap (MsExtra m))])"

definition messages_value :: "Message list \<Rightarrow> gval" where
  "messages_value ms = GTyped (TSlice (TPtr message_type)) (GSlice (map message_value ms))"

text \<open>The assertions \<open>v.(*Message)\<close> and \<open>v.([]*Message)\<close>.\<close>

definition as_message :: "gval \<Rightarrow> Message option" where
  "as_message v =
     (case v of
        GPtr (GStruct n [(f1, e1, t1, GStr i), (f2, e2, t2, GStr r), (f3, e3, t3, GStr c), (f4, e4, t4, GMap x)]) \<Rightarrow>
          (if v = message_value \<lparr>MsID = i, MsRole = r, MsContent = c, MsExtra = x\<rparr>
           then Some \<lparr>MsID = i, MsRole = r, MsContent = c, MsExtra = x\<rparr> else None)
      | _ \<Rightarrow> None)"

definition as_messages :: "gval \<Rightarrow> Message list option" where
  "as_messages v =
     (case v of
        GTyped t (GSlice vs) \<Rightarrow> (if t = TSlice (TPtr message_type) then those (map as_message vs) else None)
      | GEmpty t \<Rightarrow> (if t = TSlice (TPtr message_type) then Some [] else None)
      | _ \<Rightarrow> None)"

lemma as_message_value [simp]: "as_message (message_value m) = Some m"
  by (simp add: as_message_def message_value_def)

lemma as_messages_value [simp]: "as_messages (messages_value ms) = Some ms"
proof -
  have "those (map as_message (map message_value ms)) = Some ms" by (induction ms) auto
  then show ?thesis by (simp add: as_messages_def messages_value_def)
qed

lemma as_message_None [simp]: "as_messages (message_value m) = None" "as_message (messages_value ms) = None"
  by (simp_all add: as_messages_def as_message_def message_value_def messages_value_def)

definition MessageRoleUser :: string where "MessageRoleUser = ''user''"
definition MessageRoleAssistant :: string where "MessageRoleAssistant = ''assistant''"
definition MessageRoleSystem :: string where "MessageRoleSystem = ''system''"
definition MessageRoleTool :: string where "MessageRoleTool = ''tool''"
definition MessageRoleFunction :: string where "MessageRoleFunction = ''function''"

definition HumanMessage :: "string \<Rightarrow> Message" where "HumanMessage = NewMessage MessageRoleUser"
definition AIMessage :: "string \<Rightarrow> Message" where "AIMessage = NewMessage MessageRoleAssistant"
definition SystemMessage :: "string \<Rightarrow> Message" where "SystemMessage = NewMessage MessageRoleSystem"

definition ToolMessage :: "string \<Rightarrow> string \<Rightarrow> Message" where
  "ToolMessage content toolCallID =
     (let msg = NewMessage MessageRoleTool content in msg\<lparr>MsExtra := mput ''tool_call_id'' (GStr toolCallID) (MsExtra msg)\<rparr>)"

definition FunctionMessage :: "string \<Rightarrow> string \<Rightarrow> Message" where
  "FunctionMessage content name =
     (let msg = NewMessage MessageRoleFunction content in msg\<lparr>MsExtra := mput ''name'' (GStr name) (MsExtra msg)\<rparr>)"

section \<open>The state of a conversation\<close>

record MessagesState =
  mss_Messages :: "Message list"
  mss_Extra :: "gval gomap"

definition AddMessages :: "Message list \<Rightarrow> MessagesState \<Rightarrow> MessagesState" where
  "AddMessages msgs s = s\<lparr>mss_Messages := mss_Messages s @ msgs\<rparr>"

definition GetLastMessage :: "MessagesState \<Rightarrow> Message option" where
  "GetLastMessage s = (if mss_Messages s = [] then None else Some (mss_Messages s ! (length (mss_Messages s) - 1)))"

definition GetMessagesByRole :: "MessagesState \<Rightarrow> string \<Rightarrow> Message list" where
  "GetMessagesByRole s role = filter (\<lambda>m. MsRole m = role) (mss_Messages s)"

section \<open>The reducer\<close>

text \<open>The first loop: existing messages, each replaced by the first update with its identifier.\<close>

fun keep_or_update :: "Message list \<Rightarrow> Message list \<Rightarrow> Message list \<times> bool gomap \<Rightarrow> Message list \<times> bool gomap" where
  "keep_or_update msgs [] (result, processed) = (result, processed)"
| "keep_or_update msgs (m # ms) (result, processed) =
     (if MsID m = [] then keep_or_update msgs ms (result @ [m], processed)
      else case find (\<lambda>u. MsID u = MsID m) msgs of
             Some u \<Rightarrow> keep_or_update msgs ms (result @ [u], mput (MsID m) True processed)
           | None \<Rightarrow> keep_or_update msgs ms (result @ [m], processed))"

definition by_id :: "Message list \<Rightarrow> Message gomap" where
  "by_id ms = fold (\<lambda>m acc. if MsID m \<noteq> [] then mput (MsID m) m acc else acc) ms []"

text \<open>The second loop: updates that replaced nothing.\<close>

fun append_new :: "Message gomap \<Rightarrow> bool gomap \<Rightarrow> Message list \<Rightarrow> Message list \<Rightarrow> Message list" where
  "append_new existing processed [] result = result"
| "append_new existing processed (m # ms) result =
     (if MsID m = [] then append_new existing processed ms (result @ [m])
      else if \<not> mget_or False processed (MsID m) \<and> mget existing (MsID m) = None
        then append_new existing processed ms (result @ [m])
      else append_new existing processed ms result)"

definition merge_messages :: "Message list \<Rightarrow> Message list \<Rightarrow> Message list" where
  "merge_messages existingMsgs msgs =
     (case keep_or_update msgs existingMsgs ([], []) of
        (result, processed) \<Rightarrow> append_new (by_id existingMsgs) processed msgs result)"

definition AddMessagesReducer :: "gval \<Rightarrow> gval \<Rightarrow> gval res" where
  "AddMessagesReducer existing updates =
     (case (case as_messages updates of Some msgs \<Rightarrow> Some msgs | None \<Rightarrow> map_option (\<lambda>m. [m]) (as_message updates)) of
        None \<Rightarrow> Inl (Errorf ''cannot add messages of type %T'' [])
      | Some msgs \<Rightarrow>
          (if existing = GNil then Inr (messages_value msgs)
           else case as_messages existing of
                  None \<Rightarrow> Inl (Errorf ''existing messages is not []*Message, got %T'' [])
                | Some existingMsgs \<Rightarrow> Inr (messages_value (merge_messages existingMsgs msgs))))"

section \<open>Messages in a state map\<close>

definition GetMessagesFromState :: "gval gomap \<Rightarrow> Message list res" where
  "GetMessagesFromState state =
     (case mget state ''messages'' of
        None \<Rightarrow> Inr []
      | Some v \<Rightarrow>
          (case as_messages v of
             Some msgs \<Rightarrow> Inr msgs
           | None \<Rightarrow>
               (case v of
                  GSlice vs \<Rightarrow>
                    (case those (map as_message vs) of
                       Some msgs \<Rightarrow> Inr msgs
                     | None \<Rightarrow> Inl (Errorf ''message at index %d is not *Message, got %T'' []))
                | _ \<Rightarrow> Inl (Errorf ''messages is not []*Message, got %T'' []))))"

definition AddMessagesToState :: "gval gomap \<Rightarrow> Message list \<Rightarrow> gval gomap res" where
  "AddMessagesToState state msgs =
     (case GetMessagesFromState state of
        Inl err \<Rightarrow> Inl err
      | Inr existing \<Rightarrow> Inr (mput ''messages'' (messages_value (existing @ msgs)) state))"

section \<open>The message graph\<close>

record MessageGraph =
  mg_graph :: stateGraph
  mg_messagesChannel :: string

definition NewMessageGraph :: MessageGraph where
  "NewMessageGraph =
     \<lparr>mg_graph = AddChannel ''messages'' (Some (CLastValue (NewLastValue (GEmpty (TSlice (TPtr message_type))))))
        (NewStateGraph (SValue 0 (SMap TString))),
      mg_messagesChannel = ''messages''\<rparr>"

definition MG_AddNode :: "string \<Rightarrow> node_fn option \<Rightarrow> MessageGraph \<Rightarrow> MessageGraph" where
  "MG_AddNode name action g = g\<lparr>mg_graph := AddNode name action (mg_graph g)\<rparr>"

definition mg_try :: "stateGraph res \<Rightarrow> MessageGraph \<Rightarrow> MessageGraph res" where
  "mg_try r g = (case r of Inl e \<Rightarrow> Inl e | Inr sg \<Rightarrow> Inr (g\<lparr>mg_graph := sg\<rparr>))"

definition MG_AddEdge :: "string \<Rightarrow> string \<Rightarrow> MessageGraph \<Rightarrow> MessageGraph res" where
  "MG_AddEdge startKey endKey g = mg_try (AddEdge startKey endKey (mg_graph g)) g"

definition MG_AddConditionalEdge :: "string \<Rightarrow> edge_fn \<Rightarrow> string gomap \<Rightarrow> MessageGraph \<Rightarrow> MessageGraph res" where
  "MG_AddConditionalEdge source condition edgeMap g = mg_try (AddConditionalEdges source condition edgeMap (mg_graph g)) g"

definition MG_SetEntryPoint :: "string \<Rightarrow> MessageGraph \<Rightarrow> MessageGraph res" where
  "MG_SetEntryPoint node g = mg_try (SetEntryPoint node (mg_graph g)) g"

definition MG_Build :: "golib \<Rightarrow> MessageGraph \<Rightarrow> 'cp compiledGraph res" where
  "MG_Build L g = Compile L [] (mg_graph g)"

definition MG_GetMessages :: "MessageGraph \<Rightarrow> registry \<Rightarrow> Message list" where
  "MG_GetMessages g r =
     (case Registry_Get r (mg_messagesChannel g) of
        None \<Rightarrow> []
      | Some ch \<Rightarrow>
          (case snd (ch_Get ch) of
             Inl e \<Rightarrow> []
           | Inr v \<Rightarrow> (case as_messages v of Some msgs \<Rightarrow> msgs | None \<Rightarrow> [])))"

section \<open>Reading conversations\<close>

definition FormatMessages :: "Message list \<Rightarrow> string list" where
  "FormatMessages msgs = map (\<lambda>m. MsRole m @ '': '' @ MsContent m) msgs"

text \<open>The loops that run from the end.\<close>

fun last_with_role :: "string \<Rightarrow> Message list \<Rightarrow> nat \<Rightarrow> Message option" where
  "last_with_role role msgs 0 = None"
| "last_with_role role msgs (Suc i) =
     (if MsRole (msgs ! i) = role then Some (msgs ! i) else last_with_role role msgs i)"

definition GetLastUserMessage :: "Message list \<Rightarrow> Message option" where
  "GetLastUserMessage msgs = last_with_role MessageRoleUser msgs (length msgs)"

definition GetLastAIMessage :: "Message list \<Rightarrow> Message option" where
  "GetLastAIMessage msgs = last_with_role MessageRoleAssistant msgs (length msgs)"

definition FilterMessagesByRole :: "Message list \<Rightarrow> string list \<Rightarrow> Message list" where
  "FilterMessagesByRole msgs roles =
     (let roleSet = fold (\<lambda>role m. mput role True m) roles []
      in filter (\<lambda>m. mget_or False roleSet (MsRole m)) msgs)"

record MessagesFilter =
  mf_roles :: "string list"
  mf_limit :: int
  mf_offset :: int
  mf_reverse :: bool
  mf_predicate :: "(Message \<Rightarrow> bool) option"

definition NewMessagesFilter :: MessagesFilter where
  "NewMessagesFilter = \<lparr>mf_roles = [], mf_limit = 0, mf_offset = 0, mf_reverse = False, mf_predicate = None\<rparr>"

definition WithRole :: "string list \<Rightarrow> MessagesFilter \<Rightarrow> MessagesFilter" where "WithRole roles f = f\<lparr>mf_roles := roles\<rparr>"
definition WithLimit :: "int \<Rightarrow> MessagesFilter \<Rightarrow> MessagesFilter" where "WithLimit limit f = f\<lparr>mf_limit := limit\<rparr>"
definition WithOffset :: "int \<Rightarrow> MessagesFilter \<Rightarrow> MessagesFilter" where "WithOffset offset f = f\<lparr>mf_offset := offset\<rparr>"
definition WithReverse :: "MessagesFilter \<Rightarrow> MessagesFilter" where "WithReverse f = f\<lparr>mf_reverse := True\<rparr>"
definition WithPredicate :: "(Message \<Rightarrow> bool) \<Rightarrow> MessagesFilter \<Rightarrow> MessagesFilter" where
  "WithPredicate predicate f = f\<lparr>mf_predicate := Some predicate\<rparr>"

text \<open>The swapping loop, with its two indices.\<close>

function reverse_loop :: "nat \<Rightarrow> int \<Rightarrow> 'a list \<Rightarrow> 'a list" where
  "reverse_loop i j xs = (if int i < j then reverse_loop (i + 1) (j - 1) (swap_at i (nat j) xs) else xs)"
  by pat_completeness auto
termination by (relation "measure (\<lambda>(i, j, xs). nat (j - int i))") auto

declare reverse_loop.simps [simp del]

definition Filter :: "MessagesFilter \<Rightarrow> Message list \<Rightarrow> Message list" where
  "Filter f msgs =
     (let r0 = filter (\<lambda>m. (mf_roles f = [] \<or> MsRole m \<in> set (mf_roles f)) \<and>
                 (case mf_predicate f of None \<Rightarrow> True | Some p \<Rightarrow> p m)) msgs;
          r1 = (if mf_offset f > 0 \<and> mf_offset f < int (length r0) then drop (nat (mf_offset f)) r0 else r0);
          r2 = (if mf_limit f > 0 \<and> mf_limit f < int (length r1) then take (nat (mf_limit f)) r1 else r1)
      in if mf_reverse f then reverse_loop 0 (int (length r2) - 1) r2 else r2)"

section \<open>The chat format\<close>

record OpenAIChatMessage =
  oa_Role :: string
  oa_Content :: string
  oa_Name :: string

definition ToOpenAIChatMessage :: "Message \<Rightarrow> OpenAIChatMessage" where
  "ToOpenAIChatMessage m = \<lparr>oa_Role = MsRole m, oa_Content = MsContent m, oa_Name = []\<rparr>"

definition MessagesToOpenAIFormat :: "Message list \<Rightarrow> OpenAIChatMessage list" where
  "MessagesToOpenAIFormat msgs = map (\<lambda>m. \<lparr>oa_Role = MsRole m, oa_Content = MsContent m, oa_Name = []\<rparr>) msgs"

definition OpenAIFormatToMessages :: "OpenAIChatMessage list \<Rightarrow> Message list" where
  "OpenAIFormatToMessages ms = map (\<lambda>o1. \<lparr>MsID = [], MsRole = oa_Role o1, MsContent = oa_Content o1,
     MsExtra = (if oa_Name o1 \<noteq> [] then mput ''name'' (GStr (oa_Name o1)) [] else [])\<rparr>) ms"

section \<open>What merging computes\<close>

definition updated :: "Message list \<Rightarrow> Message \<Rightarrow> Message" where
  "updated msgs m = (if MsID m = [] then m else case find (\<lambda>u. MsID u = MsID m) msgs of Some u \<Rightarrow> u | None \<Rightarrow> m)"

definition merge_spec :: "Message list \<Rightarrow> Message list \<Rightarrow> Message list" where
  "merge_spec old new = map (updated new) old @ filter (\<lambda>m. MsID m = [] \<or> MsID m \<notin> MsID ` set old) new"

lemma keep_or_update_result: "fst (keep_or_update msgs ms (result, processed)) = result @ map (updated msgs) ms"
  by (induction ms arbitrary: result processed) (auto simp: updated_def split: option.splits)

lemma keep_or_update_processed:
  "mget (snd (keep_or_update msgs ms (result, processed))) k \<noteq> None \<Longrightarrow>
   mget processed k \<noteq> None \<or> k \<noteq> [] \<and> k \<in> MsID ` set ms"
proof (induction ms arbitrary: result processed)
  case (Cons m ms)
  show ?case
  proof (cases "MsID m = [] \<or> find (\<lambda>u. MsID u = MsID m) msgs = None")
    case True
    with Cons.prems have "\<exists>r. mget (snd (keep_or_update msgs ms (r, processed))) k \<noteq> None"
      by (auto split: option.splits if_splits)
    with Cons.IH show ?thesis by auto
  next
    case False
    with Cons.prems obtain r where "mget (snd (keep_or_update msgs ms (r, mput (MsID m) True processed))) k \<noteq> None"
      by (auto split: option.splits if_splits)
    from Cons.IH [OF this] False show ?thesis by (auto simp: gomap split: if_splits)
  qed
qed simp

lemma by_id_dom: "mget (by_id ms) k = None \<longleftrightarrow> k = [] \<or> k \<notin> MsID ` set ms"
proof -
  have "mget (fold (\<lambda>m acc. if MsID m \<noteq> [] then mput (MsID m) m acc else acc) ms acc) k = None \<longleftrightarrow>
      mget acc k = None \<and> (k = [] \<or> k \<notin> MsID ` set ms)" for acc :: "Message gomap"
    by (induction ms arbitrary: acc) (auto simp: gomap)
  then show ?thesis by (simp add: by_id_def)
qed

lemma append_new_spec:
  assumes "\<forall>k. mget processed k \<noteq> None \<longrightarrow> mget existing k \<noteq> None"
  shows "append_new existing processed ms result = result @ filter (\<lambda>m. MsID m = [] \<or> mget existing (MsID m) = None) ms"
  using assms
proof (induction existing processed ms result rule: append_new.induct)
  case (2 existing processed m ms result)
  have "mget existing (MsID m) = None \<Longrightarrow> \<not> mget_or False processed (MsID m)"
    using 2(4) by (auto simp: mget_or_def split: option.splits)
  with 2 show ?case by auto
qed simp

lemma merge_messages_spec: "merge_messages old new = merge_spec old new"
proof -
  obtain r p where k: "keep_or_update new old ([], []) = (r, p)" by (cases "keep_or_update new old ([], [])")
  have r: "r = map (updated new) old" using keep_or_update_result [of new old "[]" "[]"] by (simp add: k)
  have p: "\<forall>k. mget p k \<noteq> None \<longrightarrow> mget (by_id old) k \<noteq> None"
    using keep_or_update_processed [of new old "[]" "[]"] unfolding k by_id_dom by auto
  show ?thesis
    by (auto simp: merge_messages_def k append_new_spec [OF p] r merge_spec_def by_id_dom intro!: filter_cong)
qed

lemma find_same_id: "find (\<lambda>u. MsID u = i) ms = Some u \<Longrightarrow> MsID u = i \<and> u \<in> set ms"
  by (auto simp: find_Some_iff)

lemma updated_id [simp]: "MsID (updated new m) = MsID m"
  by (auto simp: updated_def dest: find_same_id split: option.splits)

lemma merge_ids: "map MsID (merge_spec old new) = map MsID old @ map MsID (filter (\<lambda>m. MsID m = [] \<or> MsID m \<notin> MsID ` set old) new)"
  by (simp add: merge_spec_def comp_def)

text \<open>No identifier twice; messages without one do not count.\<close>

definition distinct_ids :: "Message list \<Rightarrow> bool" where
  "distinct_ids ms \<longleftrightarrow> distinct (filter (\<lambda>i. i \<noteq> []) (map MsID ms))"

lemma merge_distinct: "distinct_ids old \<Longrightarrow> distinct_ids new \<Longrightarrow> distinct_ids (merge_spec old new)"
proof -
  assume d: "distinct_ids old" "distinct_ids new"
  let ?new = "filter (\<lambda>m. MsID m = [] \<or> MsID m \<notin> MsID ` set old) new"
  have eq: "filter (\<lambda>i. i \<noteq> []) (map MsID ?new) =
      filter (\<lambda>i. i \<notin> MsID ` set old) (filter (\<lambda>i. i \<noteq> []) (map MsID new))"
    by (induction new) auto
  then have "distinct (filter (\<lambda>i. i \<noteq> []) (map MsID ?new))"
    using distinct_filter [OF d(2) [unfolded distinct_ids_def], of "\<lambda>i. i \<notin> MsID ` set old"] by (simp only: eq)
  with d(1) show ?thesis by (auto simp: distinct_ids_def merge_ids) (metis imageI)
qed

lemma find_distinct: "distinct (map MsID ms) \<Longrightarrow> u \<in> set ms \<Longrightarrow> find (\<lambda>v. MsID v = MsID u) ms = Some u"
  by (induction ms) (auto simp: rev_image_eqI)

lemma updated_fixed:
  assumes "distinct (map MsID new)" "m \<in> set new"
  shows "updated new m = m"
  using find_distinct [OF assms] by (simp add: updated_def)

lemma updated_twice: "distinct (map MsID new) \<Longrightarrow> updated new (updated new m) = updated new m"
proof (cases "MsID m = []")
  case False
  assume d: "distinct (map MsID new)"
  show ?thesis
  proof (cases "find (\<lambda>u. MsID u = MsID m) new")
    case None
    then show ?thesis by (simp add: updated_def)
  next
    case (Some u)
    then have "updated new m = u" "u \<in> set new" using False find_same_id [OF Some] by (simp_all add: updated_def)
    with updated_fixed [OF d] show ?thesis by simp
  qed
qed (simp add: updated_def)

lemma merge_idem:
  assumes "distinct (map MsID new)" and "\<forall>m \<in> set new. MsID m \<noteq> []"
  shows "merge_spec (merge_spec old new) new = merge_spec old new"
proof -
  let ?new = "filter (\<lambda>m. MsID m = [] \<or> MsID m \<notin> MsID ` set old) new"
  have "map (updated new) ?new = ?new" using updated_fixed [OF assms(1)] by (intro map_idI) auto
  moreover have "filter (\<lambda>m. MsID m = [] \<or> MsID m \<notin> MsID ` set (merge_spec old new)) new = []"
    using assms(2) by (auto simp: filter_empty_conv merge_spec_def image_Un image_image)
  ultimately show ?thesis
    by (simp add: merge_spec_def [of "merge_spec old new"]) (simp add: merge_spec_def comp_def updated_twice [OF assms(1)])
qed

lemma nth_swap_at:
  "i < length xs \<Longrightarrow> j < length xs \<Longrightarrow> k < length xs \<Longrightarrow>
   swap_at i j xs ! k = (if k = j then xs ! i else if k = i then xs ! j else xs ! k)"
  by (auto simp: swap_at_def nth_list_update)

lemma reverse_loop_nth:
  "j < int (length xs) \<Longrightarrow> length (reverse_loop i j xs) = length xs \<and>
   (\<forall>k < length xs. reverse_loop i j xs ! k = (if i \<le> k \<and> int k \<le> j then xs ! nat (int i + j - int k) else xs ! k))"
proof (induction i j xs rule: reverse_loop.induct)
  case (1 i j xs)
  show ?case
  proof (cases "int i < j")
    case False
    then have "nat (int i + j - int k) = k" if "i \<le> k" "int k \<le> j" for k using that by linarith
    with False show ?thesis by (simp add: reverse_loop.simps [of i j])
  next
    case True
    let ?ys = "swap_at i (nat j) xs"
    have len: "length ?ys = length xs" by (simp add: swap_at_def)
    have ij: "i < length xs" "nat j < length xs" using True "1.prems" by auto
    have IH: "length (reverse_loop (i + 1) (j - 1) ?ys) = length xs"
      "\<And>k. k < length xs \<Longrightarrow> reverse_loop (i + 1) (j - 1) ?ys ! k =
        (if i + 1 \<le> k \<and> int k \<le> j - 1 then ?ys ! nat (int (i + 1) + (j - 1) - int k) else ?ys ! k)"
      using "1.IH" [OF True] "1.prems" by (simp_all add: len)
    have "reverse_loop i j xs ! k = (if i \<le> k \<and> int k \<le> j then xs ! nat (int i + j - int k) else xs ! k)" if k: "k < length xs" for k
    proof -
      have r: "reverse_loop i j xs ! k =
          (if i + 1 \<le> k \<and> int k \<le> j - 1 then ?ys ! nat (int i + j - int k) else ?ys ! k)"
        using IH(2) [OF k] True by (simp add: reverse_loop.simps [of i j])
      consider "i + 1 \<le> k \<and> int k \<le> j - 1" | "k = i" | "int k = j" "k \<noteq> i" | "k < i \<or> j < int k" using True by linarith
      then show ?thesis
      proof cases
        case 1
        then have "nat (int i + j - int k) < length xs" "nat (int i + j - int k) \<noteq> i" "nat (int i + j - int k) \<noteq> nat j"
          using ij k by linarith+
        with 1 r ij show ?thesis by (simp add: nth_swap_at)
      next
        case 2
        with r ij True show ?thesis by (simp add: nth_swap_at)
      next
        case 3
        then have "k = nat j" "nat (int i + j - int k) = i" "i \<le> k" using True by linarith+
        with 3 r ij True show ?thesis by (simp add: nth_swap_at)
      next
        case 4
        then have "k \<noteq> i" "k \<noteq> nat j" using True by linarith+
        with 4 r ij k True show ?thesis by (auto simp: nth_swap_at)
      qed
    qed
    with IH(1) True show ?thesis by (simp add: reverse_loop.simps [of i j])
  qed
qed

lemma reverse_loop_rev: "reverse_loop 0 (int (length xs) - 1) xs = rev xs"
proof (intro nth_equalityI)
  have spec: "length (reverse_loop 0 (int (length xs) - 1) xs) = length xs"
    "\<And>k. k < length xs \<Longrightarrow> reverse_loop 0 (int (length xs) - 1) xs ! k = xs ! nat (int (length xs) - 1 - int k)"
    using reverse_loop_nth [of "int (length xs) - 1" xs 0] by simp_all
  then show "length (reverse_loop 0 (int (length xs) - 1) xs) = length (rev xs)" by simp
  fix k
  assume "k < length (reverse_loop 0 (int (length xs) - 1) xs)"
  then have k: "k < length xs" using spec(1) by simp
  have "nat (int (length xs) - 1 - int k) = length xs - Suc k" using k by linarith
  with spec(2) [OF k] k show "reverse_loop 0 (int (length xs) - 1) xs ! k = rev xs ! k" by (simp add: rev_nth)
qed

section \<open>Properties\<close>

text \<open>C40: Merging messages into a conversation. Each existing message with an identifier is replaced in place by the first
  update that has its identifier; the updates whose identifier is new, and those without one, follow in order. If
  no identifier occurs twice before, neither in the conversation nor in the update, none does after; and an update
  whose messages all have an identifier, no two the same, has no further effect when it is merged a second time. Without
  these conditions neither holds: two updates with one new identifier are both appended, and a message without an
  identifier is appended each time it is merged.\<close>

theorem add_messages_merges:
  "AddMessagesReducer (messages_value old) (messages_value new) =
     Inr (messages_value (map (\<lambda>m. if MsID m = [] then m else case find (\<lambda>u. MsID u = MsID m) new of Some u \<Rightarrow> u | None \<Rightarrow> m) old @
       filter (\<lambda>m. MsID m = [] \<or> MsID m \<notin> MsID ` set old) new)) \<and>
   (distinct_ids old \<and> distinct_ids new \<longrightarrow>
      (\<exists>r. AddMessagesReducer (messages_value old) (messages_value new) = Inr (messages_value r) \<and> distinct_ids r)) \<and>
   (distinct (map MsID new) \<and> list_all (\<lambda>m. MsID m \<noteq> []) new \<longrightarrow>
      (\<forall>r. AddMessagesReducer (messages_value old) (messages_value new) = Inr r \<longrightarrow>
         AddMessagesReducer r (messages_value new) = Inr r))"
proof -
  have red: "AddMessagesReducer (messages_value ms) (messages_value new) = Inr (messages_value (merge_spec ms new))" for ms
    using merge_messages_spec [of ms new] as_messages_value [of ms]
    by (auto simp: AddMessagesReducer_def messages_value_def [of ms])
  show ?thesis
    using merge_distinct merge_idem [of new old]
    by (auto simp: red list_all_iff) (simp add: merge_spec_def updated_def [abs_def])
qed

definition hello :: Message where "hello = NewMessageWithID ''1'' MessageRoleUser ''hello''"
definition hello2 :: Message where "hello2 = NewMessageWithID ''1'' MessageRoleUser ''hello again''"
definition reply :: Message where "reply = NewMessageWithID ''2'' MessageRoleAssistant ''hi''"

theorem add_messages_merges_witness:
  "AddMessagesReducer (messages_value [hello2, reply]) (messages_value [hello2, reply]) = Inr (messages_value [hello2, reply]) \<and>
   AddMessagesReducer (messages_value [hello]) (messages_value [hello2, reply]) = Inr (messages_value [hello2, reply])"
proof -
  have once: "AddMessagesReducer (messages_value [hello]) (messages_value [hello2, reply]) = Inr (messages_value [hello2, reply])"
    using add_messages_merges [of "[hello]" "[hello2, reply]"]
    by (simp add: hello_def hello2_def reply_def NewMessageWithID_def)
  have "distinct (map MsID [hello2, reply]) \<and> list_all (\<lambda>m. MsID m \<noteq> []) [hello2, reply]"
    by (simp add: hello2_def reply_def NewMessageWithID_def)
  with add_messages_merges [of "[hello]" "[hello2, reply]"] once show ?thesis by blast
qed

text \<open>
  What the chat format keeps: role and content. A page of a filter is cut to the offset first and to the limit after that,
  and an offset beyond the conversation is ignored.
\<close>

lemma openai_roundtrip: "map (\<lambda>m. (MsRole m, MsContent m)) (OpenAIFormatToMessages (MessagesToOpenAIFormat ms)) = map (\<lambda>m. (MsRole m, MsContent m)) ms"
  by (simp add: OpenAIFormatToMessages_def MessagesToOpenAIFormat_def comp_def)

lemma filter_page:
  "mf_reverse f \<Longrightarrow> Filter f ms = rev (Filter (f\<lparr>mf_reverse := False\<rparr>) ms)"
  "0 < mf_limit f \<Longrightarrow> int (length (Filter f ms)) \<le> mf_limit f"
  by (auto simp: Filter_def Let_def reverse_loop_rev)

end
