(* ===== verification/Channel_IO.thy ===== *)
theory Channel_IO
  imports Registry Sample_Lib
begin

text \<open>
  The helpers that write to and read from a registry of channels (\<open>pregel/write.go\<close>, \<open>pregel/read.go\<close>): pending writes
  with a validator and a transformer, batches, and readers with selectors, transformers and triggers. A transformer
  or validator is the function its method computes. Writers and readers hold a pointer to the registry; here
  it is an argument of the operations that use it and a result of those that change it (a read
  changes it too, since reading an ephemeral channel clears it).
\<close>

section \<open>Writes\<close>

record ChannelWriteEntry =
  CwChannel :: string
  CwValue :: gval
  CwOverwrite :: bool
  CwNode :: string
  CwMetadata :: "gval gomap option"

type_synonym write_transformer = "ChannelWriteEntry \<Rightarrow> ChannelWriteEntry res"
type_synonym write_validator = "ChannelWriteEntry \<Rightarrow> gerr option"

definition IdentityWriteTransformer :: write_transformer where
  "IdentityWriteTransformer e = Inr e"

definition MappingWriteTransformer :: "string gomap \<Rightarrow> write_transformer" where
  "MappingWriteTransformer mappings e =
     Inr (case mget mappings (CwChannel e) of Some n \<Rightarrow> e\<lparr>CwChannel := n\<rparr> | None \<Rightarrow> e)"

definition PrefixWriteTransformer :: "string \<Rightarrow> write_transformer" where
  "PrefixWriteTransformer prefix e = Inr (e\<lparr>CwChannel := prefix @ CwChannel e\<rparr>)"

definition MetadataWriteTransformer :: "gval gomap \<Rightarrow> write_transformer" where
  "MetadataWriteTransformer metadata e =
     Inr (e\<lparr>CwMetadata := Some (mcopy (case CwMetadata e of None \<Rightarrow> [] | Some m \<Rightarrow> m) metadata)\<rparr>)"

definition NodeWriteTransformer :: "string \<Rightarrow> write_transformer" where
  "NodeWriteTransformer node e = Inr (if CwNode e = [] then e\<lparr>CwNode := node\<rparr> else e)"

text \<open>\<open>WriteSkipError\<close> is an error like any other to \<open>Write\<close>.\<close>

definition WriteSkipError :: "string \<Rightarrow> gerr" where
  "WriteSkipError channel = Errorf (''write skipped for channel '' @ channel) []"

definition IsWriteSkipError :: "gerr \<Rightarrow> bool" where
  "IsWriteSkipError err =
     (case err of
        Errorf m es \<Rightarrow> es = [] \<and> take (length ''write skipped for channel '') m = ''write skipped for channel ''
      | _ \<Rightarrow> False)"

definition FilterWriteTransformer :: "(ChannelWriteEntry \<Rightarrow> bool) option \<Rightarrow> write_transformer" where
  "FilterWriteTransformer predicate e =
     (case predicate of
        Some p \<Rightarrow> (if \<not> p e then Inl (WriteSkipError (CwChannel e)) else Inr e)
      | None \<Rightarrow> Inr e)"

definition WriteValidationError :: "string \<Rightarrow> string \<Rightarrow> gerr" where
  "WriteValidationError channel message = Errorf (''write validation error for channel '' @ channel @ '': '' @ message) []"

definition NoOpValidator :: write_validator where
  "NoOpValidator e = None"

definition TypeWriteValidator :: "golib \<Rightarrow> gval gomap \<Rightarrow> write_validator" where
  "TypeWriteValidator L types e =
     (case mget types (CwChannel e) of
        None \<Rightarrow> None
      | Some expected \<Rightarrow>
          (if CwValue e \<noteq> GNil \<and> fmt_T L (CwValue e) \<noteq> fmt_T L expected
           then Some (WriteValidationError (CwChannel e)
                        (''expected type '' @ fmt_T L expected @ '', got '' @ fmt_T L (CwValue e)))
           else None))"

definition NonNullWriteValidator :: "string list \<Rightarrow> write_validator" where
  "NonNullWriteValidator whitelist e =
     (if CwChannel e \<in> set whitelist then None
      else if CwValue e = GNil then Some (WriteValidationError (CwChannel e) ''value cannot be nil'')
      else None)"

definition LengthWriteValidator :: "golib \<Rightarrow> int gomap \<Rightarrow> int gomap \<Rightarrow> write_validator" where
  "LengthWriteValidator L minLengths maxLengths e =
     (case (case CwValue e of
              GSlice vs \<Rightarrow> Some (length vs) | GStr s \<Rightarrow> Some (length s) | GMap m \<Rightarrow> Some (length m) | _ \<Rightarrow> None) of
        None \<Rightarrow> None
      | Some n \<Rightarrow>
          (if (case mget minLengths (CwChannel e) of Some low \<Rightarrow> int n < low | None \<Rightarrow> False)
           then Some (WriteValidationError (CwChannel e) (''length '' @ fmt_d L (int n) @ '' is less than minimum''))
           else if (case mget maxLengths (CwChannel e) of Some high \<Rightarrow> int n > high | None \<Rightarrow> False)
           then Some (WriteValidationError (CwChannel e) (''length '' @ fmt_d L (int n) @ '' exceeds maximum''))
           else None))"

record ChannelWrite =
  cw_entries :: "ChannelWriteEntry list"
  cw_transformer :: "write_transformer option"
  cw_validator :: "write_validator option"

definition WithWriteTransformer :: "write_transformer option \<Rightarrow> ChannelWrite \<Rightarrow> ChannelWrite" where
  "WithWriteTransformer transformer cw = cw\<lparr>cw_transformer := transformer\<rparr>"

definition WithValidator :: "write_validator option \<Rightarrow> ChannelWrite \<Rightarrow> ChannelWrite" where
  "WithValidator validator cw = cw\<lparr>cw_validator := validator\<rparr>"

definition NewChannelWrite :: "(ChannelWrite \<Rightarrow> ChannelWrite) list \<Rightarrow> ChannelWrite" where
  "NewChannelWrite opts = fold (\<lambda>opt cw. opt cw) opts
     \<lparr>cw_entries = [], cw_transformer = Some IdentityWriteTransformer, cw_validator = Some NoOpValidator\<rparr>"

definition AddEntry :: "ChannelWriteEntry \<Rightarrow> ChannelWrite \<Rightarrow> ChannelWrite" where
  "AddEntry entry cw = cw\<lparr>cw_entries := cw_entries cw @ [entry]\<rparr>"

definition AddEntries :: "ChannelWriteEntry list \<Rightarrow> ChannelWrite \<Rightarrow> ChannelWrite" where
  "AddEntries entries cw = cw\<lparr>cw_entries := cw_entries cw @ entries\<rparr>"

definition simple_entry :: "string \<Rightarrow> gval \<Rightarrow> bool \<Rightarrow> string \<Rightarrow> ChannelWriteEntry" where
  "simple_entry channel v overwrite node =
     \<lparr>CwChannel = channel, CwValue = v, CwOverwrite = overwrite, CwNode = node, CwMetadata = None\<rparr>"

definition CW_WriteTo :: "string \<Rightarrow> gval \<Rightarrow> ChannelWrite \<Rightarrow> ChannelWrite" where
  "CW_WriteTo channel v = AddEntry (simple_entry channel v False [])"

definition CW_Overwrite :: "string \<Rightarrow> gval \<Rightarrow> ChannelWrite \<Rightarrow> ChannelWrite" where
  "CW_Overwrite channel v = AddEntry (simple_entry channel v True [])"

definition WriteNode :: "string \<Rightarrow> string \<Rightarrow> gval \<Rightarrow> ChannelWrite \<Rightarrow> ChannelWrite" where
  "WriteNode node channel v = AddEntry (simple_entry channel v False node)"

text \<open>The value handed to the channel: behind a \<open>*types.Overwrite\<close> for an overwrite.\<close>

definition written_value :: "ChannelWriteEntry \<Rightarrow> gval" where
  "written_value e = (if CwOverwrite e then GOverwrite (CwValue e) else CwValue e)"

text \<open>One round of the loop of \<open>Write\<close>: \<open>Some\<close> the channel when it was updated.\<close>

definition write_entry ::
  "write_validator option \<Rightarrow> write_transformer option \<Rightarrow> ChannelWriteEntry \<Rightarrow> registry \<Rightarrow> registry \<times> string option res" where
  "write_entry validator transformer entry r =
     (case Option.bind validator (\<lambda>v. v entry) of
        Some err \<Rightarrow> (r, Inl (Errorf (''validation failed for channel '' @ CwChannel entry @ '': %w'') [err]))
      | None \<Rightarrow>
          (case (case transformer of None \<Rightarrow> Inr entry | Some t \<Rightarrow> t entry) of
             Inl err \<Rightarrow> (r, Inl (Errorf (''transformation failed for channel '' @ CwChannel entry @ '': %w'') [err]))
           | Inr e \<Rightarrow>
               (case Registry_Get r (CwChannel e) of
                  None \<Rightarrow> (r, Inl (Errorf (''channel not found: '' @ CwChannel e) []))
                | Some ch \<Rightarrow>
                    (case ch_Update ch [written_value e] of
                       (ch', Inl err) \<Rightarrow>
                         (mput (CwChannel e) ch' r, Inl (Errorf (''failed to update channel '' @ CwChannel e @ '': %w'') [err]))
                     | (ch', Inr upd) \<Rightarrow>
                         (mput (CwChannel e) ch' r, Inr (if upd then Some (CwChannel e) else None))))))"

fun write_loop ::
  "write_validator option \<Rightarrow> write_transformer option \<Rightarrow> ChannelWriteEntry list \<Rightarrow> registry \<Rightarrow> bool gomap \<Rightarrow>
   registry \<times> bool gomap res" where
  "write_loop validator transformer [] r updated = (r, Inr updated)"
| "write_loop validator transformer (entry # entries) r updated =
     (case write_entry validator transformer entry r of
        (r', Inl err) \<Rightarrow> (r', Inl err)
      | (r', Inr c) \<Rightarrow>
          write_loop validator transformer entries r' (case c of Some n \<Rightarrow> mput n True updated | None \<Rightarrow> updated))"

definition CW_Write :: "ChannelWrite \<Rightarrow> registry \<Rightarrow> ChannelWrite \<times> registry \<times> bool gomap res" where
  "CW_Write cw r =
     (case write_loop (cw_validator cw) (cw_transformer cw) (cw_entries cw) r [] of
        (r', Inl err) \<Rightarrow> (cw, r', Inl err)
      | (r', Inr updated) \<Rightarrow> (cw\<lparr>cw_entries := []\<rparr>, r', Inr updated))"

definition CW_Clear :: "ChannelWrite \<Rightarrow> ChannelWrite" where
  "CW_Clear cw = cw\<lparr>cw_entries := []\<rparr>"

definition EntryCount :: "ChannelWrite \<Rightarrow> nat" where
  "EntryCount cw = length (cw_entries cw)"

section \<open>Batches\<close>

record WriteBatch =
  wb_entries :: "ChannelWriteEntry list"

definition NewWriteBatch :: WriteBatch where
  "NewWriteBatch = \<lparr>wb_entries = []\<rparr>"

definition WB_Add :: "ChannelWriteEntry \<Rightarrow> WriteBatch \<Rightarrow> WriteBatch" where
  "WB_Add entry b = b\<lparr>wb_entries := wb_entries b @ [entry]\<rparr>"

definition WB_WriteTo :: "string \<Rightarrow> gval \<Rightarrow> WriteBatch \<Rightarrow> WriteBatch" where
  "WB_WriteTo channel v = WB_Add (simple_entry channel v False [])"

definition WB_Overwrite :: "string \<Rightarrow> gval \<Rightarrow> WriteBatch \<Rightarrow> WriteBatch" where
  "WB_Overwrite channel v = WB_Add (simple_entry channel v True [])"

definition WB_Clear :: "WriteBatch \<Rightarrow> WriteBatch" where
  "WB_Clear b = b\<lparr>wb_entries := []\<rparr>"

record WriteContext =
  wc_Node :: string
  wc_Step :: int
  wc_Writer :: ChannelWrite
  wc_Batches :: "WriteBatch gomap"

definition NewWriteContext :: "string \<Rightarrow> int \<Rightarrow> ChannelWrite \<Rightarrow> WriteContext" where
  "NewWriteContext node step writer = \<lparr>wc_Node = node, wc_Step = step, wc_Writer = writer, wc_Batches = []\<rparr>"

definition CreateBatch :: "string \<Rightarrow> WriteContext \<Rightarrow> WriteContext" where
  "CreateBatch name wc = wc\<lparr>wc_Batches := mput name NewWriteBatch (wc_Batches wc)\<rparr>"

definition Flush :: "WriteContext \<Rightarrow> registry \<Rightarrow> WriteContext \<times> registry \<times> bool gomap res" where
  "Flush wc r =
     (let writer = fold (\<lambda>(name, batch) w. AddEntries (wb_entries batch) w) (wc_Batches wc) (wc_Writer wc)
      in case CW_Write writer r of (writer', r', res) \<Rightarrow> (wc\<lparr>wc_Writer := writer'\<rparr>, r', res))"

section \<open>Reads\<close>

type_synonym channel_selector = "registry \<Rightarrow> string list res"
type_synonym channel_transformer = "gval gomap \<Rightarrow> gval gomap res"

definition AllChannelsSelector :: channel_selector where
  "AllChannelsSelector r = Inr (Registry_Names r)"

definition SpecificChannelsSelector :: "string list \<Rightarrow> channel_selector" where
  "SpecificChannelsSelector names r = Inr (filter (\<lambda>n. Registry_Get r n \<noteq> None) names)"

definition PrefixChannelsSelector :: "string \<Rightarrow> channel_selector" where
  "PrefixChannelsSelector prefix r =
     Inr (filter (\<lambda>n. length n \<ge> length prefix \<and> take (length prefix) n = prefix) (Registry_Names r))"

definition channel_available :: "registry \<Rightarrow> string \<Rightarrow> bool" where
  "channel_available r n = (case Registry_Get r n of Some ch \<Rightarrow> ch_IsAvailable ch | None \<Rightarrow> False)"

definition AvailableChannelsSelector :: channel_selector where
  "AvailableChannelsSelector r = Inr (filter (channel_available r) (Registry_Names r))"

definition IdentityTransformer :: channel_transformer where
  "IdentityTransformer values = Inr values"

definition MappingTransformer :: "string gomap \<Rightarrow> channel_transformer" where
  "MappingTransformer mappings values =
     Inr (fold (\<lambda>(k, v) m. mput (case mget mappings k of Some n \<Rightarrow> n | None \<Rightarrow> k) v m) values [])"

definition FilterTransformer :: "string list \<Rightarrow> channel_transformer" where
  "FilterTransformer keep values = Inr (filter (\<lambda>(k, v). k \<in> set keep) values)"

definition DefaultTransformer :: "gval gomap \<Rightarrow> channel_transformer" where
  "DefaultTransformer defaults values =
     Inr (let r1 = fold (\<lambda>(k, d) m. mput k (case mget values k of Some v \<Rightarrow> v | None \<Rightarrow> d) m) defaults []
          in fold (\<lambda>(k, v) m. if mget m k = None then mput k v m else m) values r1)"

definition MergingTransformer :: "string \<Rightarrow> (gval list \<Rightarrow> gval res) \<Rightarrow> channel_transformer" where
  "MergingTransformer target merger values =
     (case merger (map snd values) of Inl err \<Rightarrow> Inl err | Inr v \<Rightarrow> Inr [(target, v)])"

record ChannelRead =
  cr_selector :: channel_selector
  cr_transformer :: "channel_transformer option"

definition WithSelector :: "channel_selector \<Rightarrow> ChannelRead \<Rightarrow> ChannelRead" where
  "WithSelector selector cr = cr\<lparr>cr_selector := selector\<rparr>"

definition WithTransformer :: "channel_transformer option \<Rightarrow> ChannelRead \<Rightarrow> ChannelRead" where
  "WithTransformer transformer cr = cr\<lparr>cr_transformer := transformer\<rparr>"

definition NewChannelRead :: "(ChannelRead \<Rightarrow> ChannelRead) list \<Rightarrow> ChannelRead" where
  "NewChannelRead opts = fold (\<lambda>opt cr. opt cr) opts
     \<lparr>cr_selector = AllChannelsSelector, cr_transformer = Some IdentityTransformer\<rparr>"

fun read_loop :: "string list \<Rightarrow> registry \<Rightarrow> gval gomap \<Rightarrow> registry \<times> gval gomap" where
  "read_loop [] r values = (r, values)"
| "read_loop (name # names) r values =
     (case Registry_Get r name of
        None \<Rightarrow> read_loop names r values
      | Some ch \<Rightarrow>
          (case ch_Get ch of
             (ch', Inr v) \<Rightarrow> read_loop names (mput name ch' r) (mput name v values)
           | (ch', Inl e) \<Rightarrow> read_loop names (mput name ch' r) values))"

definition CR_Read :: "ChannelRead \<Rightarrow> registry \<Rightarrow> registry \<times> gval gomap res" where
  "CR_Read cr r =
     (case cr_selector cr r of
        Inl err \<Rightarrow> (r, Inl (Errorf ''channel selection failed: %w'' [err]))
      | Inr names \<Rightarrow>
          (case read_loop names r [] of
             (r', values) \<Rightarrow>
               (r', case cr_transformer cr of
                      None \<Rightarrow> Inr values
                    | Some t \<Rightarrow> (case t values of
                                   Inl err \<Rightarrow> Inl (Errorf ''channel transformation failed: %w'' [err])
                                 | Inr vs \<Rightarrow> Inr vs))))"

definition ReadChannel :: "registry \<Rightarrow> string \<Rightarrow> registry \<times> gval res" where
  "ReadChannel r name =
     (case Registry_Get r name of
        Some ch \<Rightarrow> (case ch_Get ch of (ch', res) \<Rightarrow> (mput name ch' r, res))
      | None \<Rightarrow> (r, Inl (Errorf (''channel not found: '' @ name) [])))"

definition HasChannel :: "registry \<Rightarrow> string \<Rightarrow> bool" where
  "HasChannel r name = (Registry_Get r name \<noteq> None)"

datatype Trigger =
    AlwaysTrigger | AnyAvailableTrigger "string list" | AllAvailableTrigger "string list"
  | ChannelChangedTrigger string int

definition NewChannelChangedTrigger :: "string \<Rightarrow> Trigger" where
  "NewChannelChangedTrigger channel = ChannelChangedTrigger channel (- 1)"

fun ShouldTrigger :: "registry \<Rightarrow> Trigger \<Rightarrow> Trigger \<times> bool" where
  "ShouldTrigger r AlwaysTrigger = (AlwaysTrigger, True)"
| "ShouldTrigger r (AnyAvailableTrigger names) = (AnyAvailableTrigger names, list_ex (channel_available r) names)"
| "ShouldTrigger r (AllAvailableTrigger names) = (AllAvailableTrigger names, list_all (channel_available r) names)"
| "ShouldTrigger r (ChannelChangedTrigger channel lastVersion) =
     (case Registry_Get r channel of
        None \<Rightarrow> (ChannelChangedTrigger channel lastVersion, False)
      | Some ch \<Rightarrow>
          (let version = ch_GetVersion ch
           in if version \<ge> 0 \<and> version \<noteq> lastVersion then (ChannelChangedTrigger channel version, True)
              else (ChannelChangedTrigger channel lastVersion, version < 0 \<and> ch_IsAvailable ch)))"

record ReadContext =
  rc_Node :: string
  rc_Step :: int
  rc_Triggers :: "Trigger list"
  rc_Readers :: "ChannelRead gomap"

definition NewReadContext :: "string \<Rightarrow> int \<Rightarrow> ReadContext" where
  "NewReadContext node step = \<lparr>rc_Node = node, rc_Step = step, rc_Triggers = [], rc_Readers = []\<rparr>"

definition AddReader :: "string \<Rightarrow> ChannelRead \<Rightarrow> ReadContext \<Rightarrow> ReadContext" where
  "AddReader name reader rc = rc\<lparr>rc_Readers := mput name reader (rc_Readers rc)\<rparr>"

fun fire_first :: "registry \<Rightarrow> Trigger list \<Rightarrow> Trigger list \<times> bool" where
  "fire_first r [] = ([], False)"
| "fire_first r (t # ts) =
     (case ShouldTrigger r t of
        (t', True) \<Rightarrow> (t' # ts, True)
      | (t', False) \<Rightarrow> map_prod (Cons t') id (fire_first r ts))"

definition ShouldExecute :: "registry \<Rightarrow> ReadContext \<Rightarrow> ReadContext \<times> bool" where
  "ShouldExecute r rc =
     (if rc_Triggers rc = [] then (rc, True)
      else case fire_first r (rc_Triggers rc) of (ts, b) \<Rightarrow> (rc\<lparr>rc_Triggers := ts\<rparr>, b))"

fun read_all :: "ChannelRead gomap \<Rightarrow> registry \<Rightarrow> gval gomap \<Rightarrow> registry \<times> gval gomap res" where
  "read_all [] r combined = (r, Inr combined)"
| "read_all ((name, reader) # readers) r combined =
     (case CR_Read reader r of
        (r', Inl err) \<Rightarrow> (r', Inl (Errorf (''reader '' @ name @ '' failed: %w'') [err]))
      | (r', Inr values) \<Rightarrow>
          read_all readers r' (fold (\<lambda>(k, v) m. mput (name @ CHR ''.'' # k) v m) values combined))"

definition ReadAll :: "ReadContext \<Rightarrow> registry \<Rightarrow> registry \<times> gval gomap res" where
  "ReadAll rc r = read_all (rc_Readers rc) r []"

section \<open>Transformers keep the value\<close>

text \<open>
  The contract of the transformers of the package: they may rename, annotate or reject an entry, but what is written is the
  entry's own value.
\<close>

locale keeps_value =
  fixes transform :: write_transformer
  assumes keeps: "transform e = Inr e' \<Longrightarrow> CwValue e' = CwValue e \<and> CwOverwrite e' = CwOverwrite e"
begin

lemma same_written: "transform e = Inr e' \<Longrightarrow> written_value e' = written_value e"
  using keeps by (simp add: written_value_def)

lemma write_entry_updates:
  assumes "write_entry validator (Some transform) e r = (r', Inr c)"
  obtains n ch ch' upd where "mget r n = Some ch" and "ch_Update ch [written_value e] = (ch', Inr upd)" and "r' = mput n ch' r"
  using assms
  by (auto simp: write_entry_def Registry_Get_def split: option.splits sum.splits prod.splits dest!: same_written)

end

interpretation identity_write: keeps_value IdentityWriteTransformer
  by unfold_locales (simp add: IdentityWriteTransformer_def)

interpretation mapping_write: keeps_value "MappingWriteTransformer mappings" for mappings
  by unfold_locales (auto simp: MappingWriteTransformer_def split: option.splits)

interpretation prefix_write: keeps_value "PrefixWriteTransformer prefix" for "prefix"
  by unfold_locales (auto simp: PrefixWriteTransformer_def)

interpretation metadata_write: keeps_value "MetadataWriteTransformer metadata" for metadata
  by unfold_locales (auto simp: MetadataWriteTransformer_def)

interpretation node_write: keeps_value "NodeWriteTransformer node" for node
  by unfold_locales (auto simp: NodeWriteTransformer_def split: if_splits)

interpretation filter_write: keeps_value "FilterWriteTransformer predicate" for predicate
  by unfold_locales (auto simp: FilterWriteTransformer_def split: option.splits if_splits)

section \<open>The outcome of a write\<close>

text \<open>The registry after all entries, if each of them can be written.\<close>

fun apply_all ::
  "write_validator option \<Rightarrow> write_transformer option \<Rightarrow> ChannelWriteEntry list \<Rightarrow> registry \<Rightarrow> registry option" where
  "apply_all v t [] r = Some r"
| "apply_all v t (e # es) r =
     (case write_entry v t e r of (r', Inr c) \<Rightarrow> apply_all v t es r' | (r', Inl err) \<Rightarrow> None)"

lemma write_loop_all: "apply_all v t es r = Some r' \<Longrightarrow> \<exists>u'. write_loop v t es r u = (r', Inr u')"
  by (induction v t es r u rule: write_loop.induct) (auto split: prod.splits sum.splits)

lemma write_loop_fails:
  "apply_all v t es r = None \<Longrightarrow> \<exists>k rk r' err. k < length es \<and> apply_all v t (take k es) r = Some rk \<and>
     write_entry v t (es ! k) rk = (r', Inl err) \<and> write_loop v t es r u = (r', Inl err)"
proof (induction v t es r u rule: write_loop.induct)
  case (2 v t e es r u)
  obtain r1 x where e: "write_entry v t e r = (r1, x)" by (cases "write_entry v t e r")
  show ?case
  proof (cases x)
    case (Inl err)
    with e show ?thesis by (intro exI [of _ 0]) auto
  next
    case (Inr c)
    with 2(2) e have "apply_all v t es r1 = None" by simp
    from 2(1) [OF e [symmetric] Inr this] obtain k rk r' err where
      "k < length es" "apply_all v t (take k es) r1 = Some rk" "write_entry v t (es ! k) rk = (r', Inl err)"
      "write_loop v t es r1 (case c of Some n \<Rightarrow> mput n True u | None \<Rightarrow> u) = (r', Inl err)" by blast
    with e Inr show ?thesis by (intro exI [of _ "Suc k"]) auto
  qed
qed simp

definition plain_channels :: "ChannelWriteEntry list \<Rightarrow> registry \<Rightarrow> bool" where
  "plain_channels es r \<longleftrightarrow> list_all (\<lambda>e. case mget r (CwChannel e) of Some (CLastValue c) \<Rightarrow> True | _ \<Rightarrow> False) es"

lemma plain_write:
  assumes "mget r (CwChannel e) = Some (CLastValue c)"
  shows "write_entry (Some NoOpValidator) (Some IdentityWriteTransformer) e r =
    (mput (CwChannel e) (CLastValue (c\<lparr>lv_value := written_value e\<rparr>)) r, Inr (Some (CwChannel e)))"
  using assms by (simp add: write_entry_def NoOpValidator_def IdentityWriteTransformer_def Registry_Get_def LastValue_Update_def)

lemma plain_apply:
  assumes "plain_channels es r"
  shows "\<exists>r'. apply_all (Some NoOpValidator) (Some IdentityWriteTransformer) es r = Some r' \<and>
    (\<forall>n. case find (\<lambda>e. CwChannel e = n) (rev es) of
       None \<Rightarrow> mget r' n = mget r n
     | Some e \<Rightarrow> \<exists>c. mget r' n = Some (CLastValue (c\<lparr>lv_value := written_value e\<rparr>)))"
  using assms
proof (induction es arbitrary: r)
  case (Cons e es)
  then obtain c where c: "mget r (CwChannel e) = Some (CLastValue c)"
    by (auto simp: plain_channels_def split: option.splits channel.splits)
  let ?r1 = "mput (CwChannel e) (CLastValue (c\<lparr>lv_value := written_value e\<rparr>)) r"
  have "plain_channels es ?r1"
    using Cons.prems by (auto simp: plain_channels_def list_all_iff gomap split: option.splits)
  from Cons.IH [OF this] obtain r' where r': "apply_all (Some NoOpValidator) (Some IdentityWriteTransformer) es ?r1 = Some r'"
    "\<And>n. case find (\<lambda>e. CwChannel e = n) (rev es) of None \<Rightarrow> mget r' n = mget ?r1 n
      | Some e \<Rightarrow> \<exists>c. mget r' n = Some (CLastValue (c\<lparr>lv_value := written_value e\<rparr>))" by blast
  have "case find (\<lambda>e. CwChannel e = n) (rev (e # es)) of None \<Rightarrow> mget r' n = mget r n
      | Some e \<Rightarrow> \<exists>c. mget r' n = Some (CLastValue (c\<lparr>lv_value := written_value e\<rparr>))" for n
    using r'(2) [of n] by (auto simp: find_append gomap split: option.splits if_splits)
  with r'(1) c show ?case by (auto simp: plain_write)
qed simp

text \<open>What executing the pending writes does. If every entry can be written in turn, all are, and the writer is emptied.
  Otherwise the writes before the first entry that cannot be written have been applied and stay applied, while
  the writer keeps all entries, so that executing it again would write them a second time. Into plain channels
  every write succeeds, and the last entry of a channel is what is read back; for an overwrite that is
  not the value but the wrapper around it.\<close>

theorem channel_write_outcome:
  "(apply_all (cw_validator cw) (cw_transformer cw) (cw_entries cw) r = Some r' \<longrightarrow>
      (\<exists>u. CW_Write cw r = (cw\<lparr>cw_entries := []\<rparr>, r', Inr u))) \<and>
   (apply_all (cw_validator cw) (cw_transformer cw) (cw_entries cw) r = None \<longrightarrow>
      (\<exists>k rk r1 err. k < length (cw_entries cw) \<and>
         apply_all (cw_validator cw) (cw_transformer cw) (take k (cw_entries cw)) r = Some rk \<and>
         write_entry (cw_validator cw) (cw_transformer cw) (cw_entries cw ! k) rk = (r1, Inl err) \<and>
         CW_Write cw r = (cw, r1, Inl err))) \<and>
   (plain_channels es r \<and> es = pre @ e # post \<and> list_all (\<lambda>x. CwChannel x \<noteq> CwChannel e) post \<and> written_value e \<noteq> GMissing \<longrightarrow>
      (\<exists>cw' r' u. CW_Write (AddEntries es (NewChannelWrite [])) r = (cw', r', Inr u) \<and>
         snd (ReadChannel r' (CwChannel e)) = Inr (if CwOverwrite e then GOverwrite (CwValue e) else CwValue e)))"
proof (intro conjI impI)
  assume "apply_all (cw_validator cw) (cw_transformer cw) (cw_entries cw) r = Some r'"
  from write_loop_all [OF this, of "[]"] show "\<exists>u. CW_Write cw r = (cw\<lparr>cw_entries := []\<rparr>, r', Inr u)"
    by (auto simp: CW_Write_def)
next
  assume "apply_all (cw_validator cw) (cw_transformer cw) (cw_entries cw) r = None"
  from write_loop_fails [OF this, of "[]"] show "\<exists>k rk r1 err. k < length (cw_entries cw) \<and>
         apply_all (cw_validator cw) (cw_transformer cw) (take k (cw_entries cw)) r = Some rk \<and>
         write_entry (cw_validator cw) (cw_transformer cw) (cw_entries cw ! k) rk = (r1, Inl err) \<and>
         CW_Write cw r = (cw, r1, Inl err)"
    by (auto simp: CW_Write_def)
next
  assume a: "plain_channels es r \<and> es = pre @ e # post \<and> list_all (\<lambda>x. CwChannel x \<noteq> CwChannel e) post \<and> written_value e \<noteq> GMissing"
  from plain_apply [of es r] a obtain r1 where r1: "apply_all (Some NoOpValidator) (Some IdentityWriteTransformer) es r = Some r1"
    and get: "\<And>n. case find (\<lambda>e. CwChannel e = n) (rev es) of None \<Rightarrow> mget r1 n = mget r n
       | Some e \<Rightarrow> \<exists>c. mget r1 n = Some (CLastValue (c\<lparr>lv_value := written_value e\<rparr>))" by blast
  have "find (\<lambda>x. CwChannel x = CwChannel e) (rev post) = None" using a by (auto simp: find_None_iff list_all_iff)
  then have "find (\<lambda>x. CwChannel x = CwChannel e) (rev es) = Some e" using a by (simp add: find_append)
  with get [of "CwChannel e"] obtain c where "mget r1 (CwChannel e) = Some (CLastValue (c\<lparr>lv_value := written_value e\<rparr>))" by auto
  then have "snd (ReadChannel r1 (CwChannel e)) = Inr (if CwOverwrite e then GOverwrite (CwValue e) else CwValue e)"
    using a by (simp add: ReadChannel_def Registry_Get_def LastValue_Get_def IsMissing_def written_value_def)
  moreover have "\<exists>u. CW_Write (AddEntries es (NewChannelWrite [])) r =
      ((NewChannelWrite []), r1, Inr u)"
    using write_loop_all [OF r1, of "[]"] by (auto simp: CW_Write_def AddEntries_def NewChannelWrite_def)
  ultimately show "\<exists>cw' r' u. CW_Write (AddEntries es (NewChannelWrite [])) r = (cw', r', Inr u) \<and>
         snd (ReadChannel r' (CwChannel e)) = Inr (if CwOverwrite e then GOverwrite (CwValue e) else CwValue e)" by blast
qed

definition one_channel :: registry where
  "one_channel = [(''x'', CLastValue (NewLastValue GNil))]"

theorem channel_write_outcome_witness:
  "\<exists>cw' r' u. CW_Write (AddEntries [simple_entry ''x'' (GInt 1) False [], simple_entry ''x'' (GInt 2) True []] (NewChannelWrite [])) one_channel =
     (cw', r', Inr u) \<and> snd (ReadChannel r' ''x'') = Inr (GOverwrite (GInt 2))"
proof -
  let ?es = "[simple_entry ''x'' (GInt 1) False [], simple_entry ''x'' (GInt 2) True []]"
  have "plain_channels ?es one_channel \<and> ?es = [simple_entry ''x'' (GInt 1) False []] @ simple_entry ''x'' (GInt 2) True [] # [] \<and>
    list_all (\<lambda>x. CwChannel x \<noteq> CwChannel (simple_entry ''x'' (GInt 2) True [])) [] \<and> written_value (simple_entry ''x'' (GInt 2) True []) \<noteq> GMissing"
    by (simp add: plain_channels_def one_channel_def simple_entry_def written_value_def)
  from mp [OF conjunct2 [OF conjunct2 [OF channel_write_outcome]] this] show ?thesis by (simp add: simple_entry_def)
qed

end
