(* ===== verification/Retry_Multi.thy ===== *)
theory Retry_Multi
  imports Retry
begin

text \<open>
  Retries under several policies (\<open>pregel/retry_multi.go\<close>). Each round calls the function directly, looks for the first
  policy that matches the error and hands the remaining attempts to a \<open>RetryExecutor\<close> of that policy; a failure of the
  executor starts the next round. A call is identified by its round and its number in it: \<open>fn r 0\<close> is the direct
  call of round \<open>r\<close>, \<open>fn r a\<close> attempt \<open>a\<close> of the round's executor, whose waits end by \<open>cancel r\<close>. The predicates of
  the presets read the text of an error, here the parameter \<open>txt\<close>.
\<close>

section \<open>The executor\<close>

type_synonym MultiPolicyRetryExecutor = "RetryPolicy list"

definition NewMultiPolicyRetryExecutor :: "RetryPolicy list \<Rightarrow> MultiPolicyRetryExecutor" where
  "NewMultiPolicyRetryExecutor policies = policies"

fun findMatchingPolicy :: "MultiPolicyRetryExecutor \<Rightarrow> gerr \<Rightarrow> RetryPolicy option" where
  "findMatchingPolicy [] err = None"
| "findMatchingPolicy (policy # ps) err =
     (case RetryOn policy of
        None \<Rightarrow> Some policy
      | Some f \<Rightarrow> (if f err then Some policy else findMatchingPolicy ps err))"

lemma findMatchingPolicy_mem: "findMatchingPolicy ps err = Some p \<Longrightarrow> p \<in> set ps"
  by (induction ps) (auto split: option.splits if_splits)

text \<open>The attempt counts of the policies that a count of \<open>n\<close> attempts has not reached.\<close>

definition open_limits :: "MultiPolicyRetryExecutor \<Rightarrow> int \<Rightarrow> int set" where
  "open_limits ps n = {k \<in> MaxAttempts ` set ps. n < k}"

lemma open_limits_shrink:
  assumes "findMatchingPolicy ps err = Some p" and "n < MaxAttempts p"
  shows "card (open_limits ps (MaxAttempts p)) < card (open_limits ps n)"
proof (rule psubset_card_mono)
  show "finite (open_limits ps n)" by (simp add: open_limits_def)
  show "open_limits ps (MaxAttempts p) \<subset> open_limits ps n"
    using assms findMatchingPolicy_mem [OF assms(1)] by (auto simp: open_limits_def)
qed

function multi_loop ::
  "MultiPolicyRetryExecutor \<Rightarrow> (nat \<Rightarrow> nat \<Rightarrow> gerr option) \<Rightarrow> string \<Rightarrow> (nat \<Rightarrow> nat \<Rightarrow> call_result) \<Rightarrow>
   nat \<Rightarrow> int \<Rightarrow> gval res" where
  "multi_loop ps cancel name fn r attempt =
     (case fn r 0 of
        Panics v \<Rightarrow> Inl (GoPanic ''node function'')
      | Ret output None \<Rightarrow> Inr output
      | Ret output (Some err) \<Rightarrow>
          (case findMatchingPolicy ps err of
             None \<Rightarrow> Inl (Errorf (''node '' @ name @ '' failed with non-retryable error: %w'') [err])
           | Some policy \<Rightarrow>
               if attempt + 1 \<ge> MaxAttempts policy
               then Inl (RetryExhaustedError name (attempt + 1) (Some err) output)
               else (let remaining = MaxAttempts policy - (attempt + 1);
                         limitedPolicy = policy\<lparr>MaxAttempts := remaining + 1\<rparr>
                     in case Retry_Execute (NewRetryExecutor (Some limitedPolicy)) (cancel r) name (fn r) of
                          Inr result \<Rightarrow> Inr result
                        | Inl e \<Rightarrow> multi_loop ps cancel name fn (Suc r) (attempt + 1 + remaining))))"
  by pat_completeness auto
termination
  by (relation "measure (\<lambda>(ps, cancel, name, fn, r, attempt). card (open_limits ps attempt))")
    (auto intro!: open_limits_shrink)

declare multi_loop.simps [simp del]

definition Multi_Execute ::
  "MultiPolicyRetryExecutor \<Rightarrow> (nat \<Rightarrow> nat \<Rightarrow> gerr option) \<Rightarrow> string \<Rightarrow> (nat \<Rightarrow> nat \<Rightarrow> call_result) \<Rightarrow> gval res" where
  "Multi_Execute ps cancel name fn =
     (if ps = [] then (case fn 0 0 of
          Panics v \<Rightarrow> Inl (GoPanic ''node function'')
        | Ret output None \<Rightarrow> Inr output
        | Ret output (Some err) \<Rightarrow> Inl err)
      else multi_loop ps cancel name fn 0 0)"

section \<open>Configuration and presets\<close>

record MultiRetryConfig =
  McPolicies :: "RetryPolicy list"

definition NewMultiRetryConfig :: "RetryPolicy list \<Rightarrow> MultiRetryConfig" where
  "NewMultiRetryConfig policies = \<lparr>McPolicies = (if policies = [] then [DefaultRetryPolicy] else policies)\<rparr>"

definition CreateExecutor :: "MultiRetryConfig \<Rightarrow> MultiPolicyRetryExecutor" where
  "CreateExecutor c = NewMultiPolicyRetryExecutor (McPolicies c)"

text \<open>Durations in nanoseconds; \<open>1.5\<close> is the bit pattern \<open>0x3FF8000000000000\<close>.\<close>

definition NetworkErrors_preset :: "(gerr \<Rightarrow> string) \<Rightarrow> RetryPolicy" where
  "NetworkErrors_preset txt = \<lparr>InitialInterval = 100000000, BackoffFactor = 0x4000000000000000, MaxInterval = 30000000000,
     MaxAttempts = 5, Jitter = True, RetryOn = Some (\<lambda>err. NetworkErrors (Some (txt err)))\<rparr>"

definition TemporaryErrors_preset :: "(gerr \<Rightarrow> string) \<Rightarrow> RetryPolicy" where
  "TemporaryErrors_preset txt = \<lparr>InitialInterval = 500000000, BackoffFactor = 0x3FF8000000000000, MaxInterval = 10000000000,
     MaxAttempts = 3, Jitter = True, RetryOn = Some (\<lambda>err. TemporaryErrors (Some (txt err)))\<rparr>"

definition ResourceErrors_preset :: "(gerr \<Rightarrow> string) \<Rightarrow> RetryPolicy" where
  "ResourceErrors_preset txt = \<lparr>InitialInterval = 1000000000, BackoffFactor = 0x3FF8000000000000, MaxInterval = 60000000000,
     MaxAttempts = 10, Jitter = True,
     RetryOn = Some (\<lambda>err. list_ex (contains (txt err))
       [''resource exhausted'', ''too many requests'', ''rate limit'', ''quota exceeded'', ''429'', ''503''])\<rparr>"

definition TimeoutErrors_preset :: "(gerr \<Rightarrow> string) \<Rightarrow> RetryPolicy" where
  "TimeoutErrors_preset txt = \<lparr>InitialInterval = 1000000000, BackoffFactor = 0x4000000000000000, MaxInterval = 30000000000,
     MaxAttempts = 3, Jitter = False,
     RetryOn = Some (\<lambda>err. list_ex (contains (txt err))
       [''timeout'', ''deadline exceeded'', ''context deadline'', ''408'', ''504''])\<rparr>"

definition CreateDefaultMultiPolicy :: "(gerr \<Rightarrow> string) \<Rightarrow> MultiRetryConfig" where
  "CreateDefaultMultiPolicy txt = NewMultiRetryConfig
     [NetworkErrors_preset txt, TemporaryErrors_preset txt, TimeoutErrors_preset txt, ResourceErrors_preset txt]"

section \<open>How often the function is called\<close>

text \<open>The loop in round \<open>r\<close> makes no call of a round beyond \<open>r\<close> plus the limits still open.\<close>

lemma multi_loop_rounds:
  assumes "\<And>k. r \<le> k \<Longrightarrow> k \<le> r + card (open_limits ps n) \<Longrightarrow> fn k = fn' k"
    and "\<And>k. r \<le> k \<Longrightarrow> k \<le> r + card (open_limits ps n) \<Longrightarrow> cancel k = cancel' k"
  shows "multi_loop ps cancel name fn r n = multi_loop ps cancel' name fn' r n"
  using assms
proof (induction ps cancel name fn r n rule: multi_loop.induct)
  case (1 ps cancel name fn r n)
  have same: "fn r = fn' r" "cancel r = cancel' r" using "1.prems" by auto
  have later: "multi_loop ps cancel name fn (Suc r) (n + 1 + (MaxAttempts p - (n + 1))) =
      multi_loop ps cancel' name fn' (Suc r) (n + 1 + (MaxAttempts p - (n + 1)))"
    if out: "fn r 0 = Ret out (Some err)" and p: "findMatchingPolicy ps err = Some p" and lt: "\<not> n + 1 \<ge> MaxAttempts p"
      and ex: "Retry_Execute (NewRetryExecutor (Some (p\<lparr>MaxAttempts := MaxAttempts p - (n + 1) + 1\<rparr>))) (cancel r) name (fn r) = Inl e"
    for out err p e
  proof -
    have "card (open_limits ps (n + 1 + (MaxAttempts p - (n + 1)))) < card (open_limits ps n)"
      using open_limits_shrink [OF p, of n] lt by simp
    then show ?thesis
      using "1.prems" by (intro "1.IH" [OF out _ p lt refl refl ex]) auto
  qed
  show ?case
    by (subst (1 2) multi_loop.simps)
      (use later in \<open>auto simp: Let_def same split: call_result.splits option.splits sum.splits\<close>)
qed

text \<open>A result of the loop is the output of one of the calls.\<close>

lemma retry_loop_output: "retry_loop p cancel name fn a le lo = Inr v \<Longrightarrow> \<exists>b. fn b = Ret v None"
  by (induction p cancel name fn a le lo rule: retry_loop.induct)
    (subst (asm) (2) retry_loop.simps, auto split: if_splits call_result.splits option.splits)

lemma multi_loop_output: "multi_loop ps cancel name fn r n = Inr v \<Longrightarrow> \<exists>k a. fn k a = Ret v None"
proof (induction ps cancel name fn r n rule: multi_loop.induct)
  case (1 ps cancel name fn r n)
  show ?case
    using "1.prems" "1.IH" retry_loop_output [of _ "cancel r" name "fn r" 1 None GNil v]
    by (subst (asm) multi_loop.simps)
      (fastforce simp: Let_def Retry_Execute_def split: call_result.splits option.splits if_splits sum.splits)
qed

lemma open_limits_le: "card (open_limits ps n) \<le> length ps"
proof -
  have "card (open_limits ps n) \<le> card (MaxAttempts ` set ps)" by (rule card_mono) (auto simp: open_limits_def)
  also have "\<dots> \<le> card (set ps)" by (rule card_image_le) simp
  also have "\<dots> \<le> length ps" by (rule card_length)
  finally show ?thesis .
qed

text \<open>A policy applies to an error when it has no predicate or the predicate holds.\<close>

definition applies :: "RetryPolicy \<Rightarrow> gerr \<Rightarrow> bool" where
  "applies p err = (case RetryOn p of None \<Rightarrow> True | Some f \<Rightarrow> f err)"

lemma find_single: "findMatchingPolicy [p] err = (if applies p err then Some p else None)"
  by (simp add: applies_def split: option.splits)

lemma multi_single_round:
  assumes "fn r 0 = Ret out (Some err)" and "applies p err"
  shows "multi_loop [p] cancel name fn r n =
    (if n + 1 \<ge> MaxAttempts p then Inl (RetryExhaustedError name (n + 1) (Some err) out)
     else case Retry_Execute (p\<lparr>MaxAttempts := MaxAttempts p - n\<rparr>) (cancel r) name (fn r) of
            Inr v \<Rightarrow> Inr v
          | Inl e \<Rightarrow> multi_loop [p] cancel name fn (Suc r) (MaxAttempts p))"
  using assms
  by (subst multi_loop.simps) (simp add: find_single NewRetryExecutor_def Let_def algebra_simps split: sum.splits del: findMatchingPolicy.simps)

text \<open>Retrying under several policies ends: there is at most one round more than there are policies, so later calls
  have no influence on the outcome, and a value that is returned is the output of one of the calls. Under a single
  policy of two attempts or more the function is called once more after its executor has given up, for
  whatever reason (also after an interrupt or an error the policy does not retry): if this call succeeds its output is
  returned, and otherwise the attempts are exhausted, one more than the policy allows being reported.\<close>

theorem multi_retry_outcome:
  "(Multi_Execute ps cancel name fn = Inr v \<longrightarrow> (\<exists>r a. fn r a = Ret v None)) \<and>
   ((\<forall>r. r \<le> length ps \<longrightarrow> fn r = fn' r \<and> cancel r = cancel' r) \<longrightarrow>
      Multi_Execute ps cancel name fn = Multi_Execute ps cancel' name fn') \<and>
   (fn 0 0 = Ret out0 (Some e0) \<and> applies p e0 \<and> 2 \<le> MaxAttempts p \<and> Retry_Execute p (cancel 0) name (fn 0) = Inl e1 \<longrightarrow>
      (\<forall>out2. fn 1 0 = Ret out2 None \<longrightarrow> Multi_Execute [p] cancel name fn = Inr out2) \<and>
      (\<forall>out2 e2. fn 1 0 = Ret out2 (Some e2) \<and> applies p e2 \<longrightarrow>
         Multi_Execute [p] cancel name fn = Inl (RetryExhaustedError name (MaxAttempts p + 1) (Some e2) out2)))"
proof (intro conjI impI allI; (elim conjE)?)
  assume "Multi_Execute ps cancel name fn = Inr v"
  then show "\<exists>r a. fn r a = Ret v None"
    using multi_loop_output [of ps cancel name fn 0 0 v]
    by (auto simp: Multi_Execute_def split: if_splits call_result.splits option.splits)
next
  assume same: "\<forall>r. r \<le> length ps \<longrightarrow> fn r = fn' r \<and> cancel r = cancel' r"
  have "multi_loop ps cancel name fn 0 0 = multi_loop ps cancel' name fn' 0 0"
    using same open_limits_le [of ps 0] by (intro multi_loop_rounds) auto
  moreover have "fn 0 = fn' 0" using same by blast
  ultimately show "Multi_Execute ps cancel name fn = Multi_Execute ps cancel' name fn'" by (simp add: Multi_Execute_def)
next
  fix out2
  assume first: "fn 0 0 = Ret out0 (Some e0)" "applies p e0" "2 \<le> MaxAttempts p" "Retry_Execute p (cancel 0) name (fn 0) = Inl e1"
    and last: "fn 1 0 = Ret out2 None"
  have "multi_loop [p] cancel name fn (Suc 0) (MaxAttempts p) = Inr out2"
    using last by (subst multi_loop.simps) simp
  then show "Multi_Execute [p] cancel name fn = Inr out2"
    using first by (simp add: Multi_Execute_def multi_single_round [where r = 0 and n = 0])
next
  fix out2 e2
  assume first: "fn 0 0 = Ret out0 (Some e0)" "applies p e0" "2 \<le> MaxAttempts p" "Retry_Execute p (cancel 0) name (fn 0) = Inl e1"
    and last: "fn 1 0 = Ret out2 (Some e2)" "applies p e2"
  have "multi_loop [p] cancel name fn (Suc 0) (MaxAttempts p) = Inl (RetryExhaustedError name (MaxAttempts p + 1) (Some e2) out2)"
    using last by (simp add: multi_single_round [where r = "Suc 0"])
  then show "Multi_Execute [p] cancel name fn = Inl (RetryExhaustedError name (MaxAttempts p + 1) (Some e2) out2)"
    using first by (simp add: Multi_Execute_def multi_single_round [where r = 0 and n = 0])
qed

text \<open>A node that always interrupts, under the default policy: the interrupt is lost.\<close>

definition interrupting :: "nat \<Rightarrow> nat \<Rightarrow> call_result" where
  "interrupting r a = Ret GNil (Some (GraphInterrupt []))"

theorem multi_retry_outcome_witness:
  "Multi_Execute [DefaultRetryPolicy] (\<lambda>r a. None) ''n'' interrupting =
     Inl (RetryExhaustedError ''n'' 4 (Some (GraphInterrupt [])) GNil)"
proof -
  have "interrupting 0 0 = Ret GNil (Some (GraphInterrupt [])) \<and> applies DefaultRetryPolicy (GraphInterrupt []) \<and>
      2 \<le> MaxAttempts DefaultRetryPolicy \<and>
      Retry_Execute DefaultRetryPolicy ((\<lambda>r a. None) 0) ''n'' (interrupting 0) = Inl (GraphInterrupt [])"
    by (simp add: interrupting_def applies_def DefaultRetryPolicy_def DefaultRetryOn_def Retry_Execute_def
        retry_loop.simps IsGraphInterrupt_def)
  from conjunct2 [OF mp [OF conjunct2 [OF conjunct2 [OF multi_retry_outcome [where fn = interrupting and
      cancel = "\<lambda>r a. None" and name = "''n''" and p = DefaultRetryPolicy]]] this]]
  show ?thesis
    by (simp add: interrupting_def applies_def DefaultRetryPolicy_def DefaultRetryOn_def)
qed

end
