(* ===== verification/Background_Pool.thy ===== *)
theory Background_Pool
  imports Priority_Queue Graph_Errors "HOL-Library.Multiset"
begin

text \<open>
  The pool that runs tasks in the background (\<open>BackgroundExecutor\<close> in \<open>pregel/background.go\<close>), which the engine uses to
  save checkpoints asynchronously. It is a state machine: each event is one atomic action of a caller or of a worker
  goroutine, \<open>bg_do\<close> gives the next state, \<open>None\<close> when the action is not enabled (the goroutine is blocked) and \<open>Inl\<close>
  when it panics. A channel is its buffer and whether it is closed. What the function of a task returns is the
  parameter \<open>fn\<close>, which may depend on whether the task has been cancelled by then. Timers are events that may occur
  at any time.
\<close>

section \<open>The executor\<close>

type_synonym task_outcome = "gval \<times> gerr option"

record bg_entry =
  be_task :: BackgroundTask
  be_cancelled :: bool
  be_result :: "task_outcome option"   \<comment> \<open>the channel \<open>Result\<close>, of capacity one\<close>

datatype bg_worker =
    WLoop                          \<comment> \<open>at the head of the loop of \<open>run\<close>\<close>
  | WSelect nat                    \<comment> \<open>in the \<open>select\<close>, on this stop channel\<close>
  | WExec string                   \<comment> \<open>runs the function of the task\<close>
  | WReport string task_outcome    \<comment> \<open>about to send to the task's channel\<close>
  | WPublish string task_outcome   \<comment> \<open>about to send to the channel of all results\<close>
  | WStopped

record BackgroundExecutor =
  bx_maxWorkers :: nat
  bx_queueSize :: nat
  bx_queue :: "string list"
  bx_queueClosed :: bool
  bx_results :: "(string \<times> task_outcome) list"
  bx_resultsClosed :: bool
  bx_running :: bool
  bx_stops :: "bool list"          \<comment> \<open>the stop channels made so far, and whether they are closed\<close>
  bx_workers :: "bg_worker list"
  bx_tasks :: "bg_entry gomap"
  bx_active :: "string list"
  bx_submitting :: "string list"   \<comment> \<open>tasks whose \<open>Submit\<close> is in its \<open>select\<close>\<close>
  bx_stopping :: nat               \<comment> \<open>calls of \<open>Stop\<close> that wait for the workers\<close>
  bx_closing :: nat                \<comment> \<open>calls of \<open>Stop\<close> that have closed the queue\<close>

definition NewBackgroundExecutor :: "int \<Rightarrow> int \<Rightarrow> BackgroundExecutor" where
  "NewBackgroundExecutor maxWorkers queueSize =
     \<lparr>bx_maxWorkers = (if maxWorkers \<le> 0 then 10 else nat maxWorkers),
      bx_queueSize = (if queueSize \<le> 0 then 100 else nat queueSize),
      bx_queue = [], bx_queueClosed = False, bx_results = [], bx_resultsClosed = False, bx_running = False,
      bx_stops = [False], bx_workers = [], bx_tasks = [], bx_active = [], bx_submitting = [], bx_stopping = 0, bx_closing = 0\<rparr>"

datatype bg_event =
    StartPool
  | StopBegin | StopCloseQueue | StopCloseResults
  | SubmitBegin string string int int   \<comment> \<open>fresh identifier, name, priority, time\<close>
  | SubmitSend string | SubmitFail string
  | CancelTask string
  | WorkerSelect nat | WorkerStop nat | WorkerTake nat | WorkerFinish nat | WorkerReport nat
  | WorkerPublish nat | WorkerTimeout nat
  | ReceiveResult

definition Start_pool :: "BackgroundExecutor \<Rightarrow> BackgroundExecutor" where
  "Start_pool s =
     (if bx_running s then s
      else s\<lparr>bx_running := True, bx_stops := bx_stops s @ [False],
             bx_workers := bx_workers s @ replicate (bx_maxWorkers s) WLoop\<rparr>)"

definition stop_begin :: "BackgroundExecutor \<Rightarrow> BackgroundExecutor" where
  "stop_begin s =
     (if \<not> bx_running s then s
      else s\<lparr>bx_running := False, bx_stops := (bx_stops s)[length (bx_stops s) - 1 := True], bx_stopping := bx_stopping s + 1\<rparr>)"

definition Submit_task :: "string \<Rightarrow> string \<Rightarrow> int \<Rightarrow> int \<Rightarrow> BackgroundExecutor \<Rightarrow> BackgroundExecutor" where
  "Submit_task i name priority now s =
     (if \<not> bx_running s then s
      else s\<lparr>bx_tasks := mput i \<lparr>be_task = \<lparr>BtID = i, BtName = name, BtPriority = priority, BtCreated = now\<rparr>,
                                be_cancelled = False, be_result = None\<rparr> (bx_tasks s),
             bx_active := List.insert i (bx_active s), bx_submitting := bx_submitting s @ [i]\<rparr>)"

definition on_entry :: "string \<Rightarrow> (bg_entry \<Rightarrow> bg_entry) \<Rightarrow> BackgroundExecutor \<Rightarrow> BackgroundExecutor" where
  "on_entry i f s = (case mget (bx_tasks s) i of None \<Rightarrow> s | Some t \<Rightarrow> s\<lparr>bx_tasks := mput i (f t) (bx_tasks s)\<rparr>)"

definition cancel_entry :: "string \<Rightarrow> BackgroundExecutor \<Rightarrow> BackgroundExecutor" where
  "cancel_entry i = on_entry i (\<lambda>t. t\<lparr>be_cancelled := True\<rparr>)"

definition send_result :: "string \<Rightarrow> task_outcome \<Rightarrow> BackgroundExecutor \<Rightarrow> BackgroundExecutor" where
  "send_result i r = on_entry i (\<lambda>t. if be_result t = None then t\<lparr>be_result := Some r\<rparr> else t)"

definition is_cancelled :: "string \<Rightarrow> BackgroundExecutor \<Rightarrow> bool" where
  "is_cancelled i s = (case mget (bx_tasks s) i of Some t \<Rightarrow> be_cancelled t | None \<Rightarrow> False)"

definition set_worker :: "nat \<Rightarrow> bg_worker \<Rightarrow> BackgroundExecutor \<Rightarrow> BackgroundExecutor" where
  "set_worker w ph s = s\<lparr>bx_workers := (bx_workers s)[w := ph]\<rparr>"

definition worker_at :: "BackgroundExecutor \<Rightarrow> nat \<Rightarrow> bg_worker" where
  "worker_at s w = (if w < length (bx_workers s) then bx_workers s ! w else WStopped)"

text \<open>\<open>select\<close> of the loop of a worker: the stop channel, or the queue.\<close>

definition worker_take :: "nat \<Rightarrow> BackgroundExecutor \<Rightarrow> BackgroundExecutor option" where
  "worker_take w s =
     (case bx_queue s of
        i # q \<Rightarrow> Some (set_worker w (WExec i) (s\<lparr>bx_queue := q\<rparr>))
      | [] \<Rightarrow> (if bx_queueClosed s then Some (set_worker w WStopped s) else None))"

definition worker_publish :: "nat \<Rightarrow> string \<Rightarrow> task_outcome \<Rightarrow> BackgroundExecutor \<Rightarrow> BackgroundExecutor res option" where
  "worker_publish w i r s =
     (if bx_resultsClosed s then Some (Inl (GoPanic ''send on closed channel''))
      else if length (bx_results s) < bx_queueSize s
        then Some (Inr (set_worker w WLoop (s\<lparr>bx_results := bx_results s @ [(i, r)]\<rparr>)))
      else None)"

fun bg_do :: "(string \<Rightarrow> bool \<Rightarrow> task_outcome) \<Rightarrow> bg_event \<Rightarrow> BackgroundExecutor \<Rightarrow> BackgroundExecutor res option" where
  "bg_do fn StartPool s = Some (Inr (Start_pool s))"
| "bg_do fn StopBegin s = Some (Inr (stop_begin s))"
| "bg_do fn StopCloseQueue s =
     (if bx_stopping s = 0 then None
      else if bx_queueClosed s then Some (Inl (GoPanic ''close of closed channel''))
      else Some (Inr (s\<lparr>bx_stopping := bx_stopping s - 1, bx_queueClosed := True, bx_closing := bx_closing s + 1\<rparr>)))"
| "bg_do fn StopCloseResults s =
     (if bx_closing s = 0 then None
      else if bx_resultsClosed s then Some (Inl (GoPanic ''close of closed channel''))
      else Some (Inr (s\<lparr>bx_closing := bx_closing s - 1, bx_resultsClosed := True\<rparr>)))"
| "bg_do fn (SubmitBegin i name priority now) s =
     (if mget (bx_tasks s) i = None then Some (Inr (Submit_task i name priority now s)) else None)"
| "bg_do fn (SubmitSend i) s =
     (if i \<notin> set (bx_submitting s) then None
      else if bx_queueClosed s then Some (Inl (GoPanic ''send on closed channel''))
      else if length (bx_queue s) < bx_queueSize s
        then Some (Inr (s\<lparr>bx_queue := bx_queue s @ [i], bx_submitting := remove1 i (bx_submitting s)\<rparr>))
      else None)"
| "bg_do fn (SubmitFail i) s =
     (if i \<in> set (bx_submitting s)
      then Some (Inr (cancel_entry i (s\<lparr>bx_submitting := remove1 i (bx_submitting s)\<rparr>))) else None)"
| "bg_do fn (CancelTask i) s = Some (Inr (if i \<in> set (bx_active s) then cancel_entry i s else s))"
| "bg_do fn (WorkerSelect w) s =
     (case worker_at s w of WLoop \<Rightarrow> Some (Inr (set_worker w (WSelect (length (bx_stops s) - 1)) s)) | _ \<Rightarrow> None)"
| "bg_do fn (WorkerStop w) s =
     (case worker_at s w of
        WSelect g \<Rightarrow> (if g < length (bx_stops s) \<and> bx_stops s ! g then Some (Inr (set_worker w WStopped s)) else None)
      | _ \<Rightarrow> None)"
| "bg_do fn (WorkerTake w) s =
     (case worker_at s w of WSelect g \<Rightarrow> map_option Inr (worker_take w s) | _ \<Rightarrow> None)"
| "bg_do fn (WorkerFinish w) s =
     (case worker_at s w of
        WExec i \<Rightarrow> Some (Inr (set_worker w (WReport i (fn i (is_cancelled i s))) (s\<lparr>bx_active := removeAll i (bx_active s)\<rparr>)))
      | _ \<Rightarrow> None)"
| "bg_do fn (WorkerReport w) s =
     (case worker_at s w of WReport i r \<Rightarrow> Some (Inr (set_worker w (WPublish i r) (send_result i r s))) | _ \<Rightarrow> None)"
| "bg_do fn (WorkerPublish w) s =
     (case worker_at s w of WPublish i r \<Rightarrow> worker_publish w i r s | _ \<Rightarrow> None)"
| "bg_do fn (WorkerTimeout w) s =
     (case worker_at s w of
        WPublish i r \<Rightarrow> (if \<not> bx_resultsClosed s \<and> bx_queueSize s \<le> length (bx_results s) then Some (Inr (set_worker w WLoop s)) else None)
      | _ \<Rightarrow> None)"
| "bg_do fn ReceiveResult s =
     (case bx_results s of r # rs \<Rightarrow> Some (Inr (s\<lparr>bx_results := rs\<rparr>)) | [] \<Rightarrow> None)"

definition GetActiveTasks :: "BackgroundExecutor \<Rightarrow> string list" where
  "GetActiveTasks s = bx_active s"

inductive bg_reach :: "(string \<Rightarrow> bool \<Rightarrow> task_outcome) \<Rightarrow> int \<Rightarrow> int \<Rightarrow> BackgroundExecutor \<Rightarrow> bool" for fn m q where
  bg_start: "bg_reach fn m q (NewBackgroundExecutor m q)"
| bg_next: "bg_reach fn m q s \<Longrightarrow> bg_do fn ev s = Some (Inr s') \<Longrightarrow> bg_reach fn m q s'"

section \<open>Where the tasks are\<close>

fun in_worker :: "bg_worker \<Rightarrow> string list" where
  "in_worker (WExec i) = [i]"
| "in_worker (WReport i r) = [i]"
| "in_worker _ = []"

definition can_return :: "(string \<Rightarrow> bool \<Rightarrow> task_outcome) \<Rightarrow> string \<Rightarrow> task_outcome \<Rightarrow> bool" where
  "can_return fn i r \<longleftrightarrow> (\<exists>c. r = fn i c)"

lemma can_return_fn [simp]: "can_return fn i (fn i c)"
  by (auto simp: can_return_def)

fun from_fn :: "(string \<Rightarrow> bool \<Rightarrow> task_outcome) \<Rightarrow> bg_worker \<Rightarrow> bool" where
  "from_fn fn (WReport i r) = can_return fn i r"
| "from_fn fn (WPublish i r) = can_return fn i r"
| "from_fn fn _ = True"

definition places :: "BackgroundExecutor \<Rightarrow> string multiset" where
  "places s = mset (bx_submitting s) + mset (bx_queue s) + mset (concat (map in_worker (bx_workers s)))"

text \<open>The entry of a task that has not reported yet.\<close>

definition unreported :: "BackgroundExecutor \<Rightarrow> string \<Rightarrow> bool" where
  "unreported s i = (case mget (bx_tasks s) i of Some t \<Rightarrow> be_result t = None | None \<Rightarrow> False)"

definition results_from :: "(string \<Rightarrow> bool \<Rightarrow> task_outcome) \<Rightarrow> BackgroundExecutor \<Rightarrow> bool" where
  "results_from fn s \<longleftrightarrow>
     (\<forall>i t. mget (bx_tasks s) i = Some t \<longrightarrow> pred_option (can_return fn i) (be_result t)) \<and>
     list_all (from_fn fn) (bx_workers s) \<and> list_all (\<lambda>(i, r). can_return fn i r) (bx_results s)"

definition in_bounds :: "BackgroundExecutor \<Rightarrow> bool" where
  "in_bounds s \<longleftrightarrow> length (bx_queue s) \<le> bx_queueSize s \<and> length (bx_results s) \<le> bx_queueSize s"

definition placed :: "BackgroundExecutor \<Rightarrow> bool" where
  "placed s \<longleftrightarrow> (\<forall>i. count (places s) i \<le> 1) \<and> (\<forall>i. i \<in># places s \<longrightarrow> unreported s i)"

lemma mset_concat_update:
  "w < length ws \<Longrightarrow> mset (concat (map f (ws[w := x]))) + mset (f (ws ! w)) = mset (concat (map f ws)) + mset (f x)"
proof (induction ws arbitrary: w)
  case (Cons a ws)
  then show ?case by (cases w) (auto simp: ac_simps)
qed simp

lemma places_set_worker:
  assumes "w < length (bx_workers s)"
  shows "places (set_worker w ph s) + mset (in_worker (bx_workers s ! w)) = places s + mset (in_worker ph)"
  using mset_concat_update [OF assms, of in_worker ph] by (simp add: places_def set_worker_def ac_simps)

lemma worker_at_lt: "worker_at s w \<noteq> WStopped \<Longrightarrow> w < length (bx_workers s) \<and> bx_workers s ! w = worker_at s w"
  by (simp add: worker_at_def split: if_splits)

lemma worker_at_fields [simp]:
  "worker_at (s\<lparr>bx_active := a\<rparr>) w = worker_at s w" "worker_at (s\<lparr>bx_results := rs\<rparr>) w = worker_at s w"
  "worker_at (s\<lparr>bx_queue := q\<rparr>) w = worker_at s w"
  by (simp_all add: worker_at_def)

lemma on_entry_fields [simp]:
  "bx_workers (on_entry i f s) = bx_workers s" "bx_queue (on_entry i f s) = bx_queue s"
  "bx_submitting (on_entry i f s) = bx_submitting s" "bx_results (on_entry i f s) = bx_results s"
  "bx_queueSize (on_entry i f s) = bx_queueSize s" "bx_queueClosed (on_entry i f s) = bx_queueClosed s"
  "bx_resultsClosed (on_entry i f s) = bx_resultsClosed s" "bx_active (on_entry i f s) = bx_active s"
  "bx_maxWorkers (on_entry i f s) = bx_maxWorkers s" "bx_running (on_entry i f s) = bx_running s"
  "bx_stopping (on_entry i f s) = bx_stopping s" "bx_closing (on_entry i f s) = bx_closing s"
  by (simp_all add: on_entry_def split: option.splits)

lemma mget_on_entry: "mget (bx_tasks (on_entry i f s)) j = (if j = i then map_option f (mget (bx_tasks s) i) else mget (bx_tasks s) j)"
  by (auto simp: on_entry_def gomap split: option.splits)

lemma set_worker_fields [simp]:
  "bx_workers (set_worker w ph s) = (bx_workers s)[w := ph]" "bx_queue (set_worker w ph s) = bx_queue s"
  "bx_submitting (set_worker w ph s) = bx_submitting s" "bx_results (set_worker w ph s) = bx_results s"
  "bx_queueSize (set_worker w ph s) = bx_queueSize s" "bx_tasks (set_worker w ph s) = bx_tasks s"
  "bx_queueClosed (set_worker w ph s) = bx_queueClosed s" "bx_resultsClosed (set_worker w ph s) = bx_resultsClosed s"
  "bx_active (set_worker w ph s) = bx_active s" "bx_maxWorkers (set_worker w ph s) = bx_maxWorkers s"
  "bx_running (set_worker w ph s) = bx_running s"
  "bx_stopping (set_worker w ph s) = bx_stopping s" "bx_closing (set_worker w ph s) = bx_closing s"
  by (simp_all add: set_worker_def)

lemmas bg_defs = Start_pool_def stop_begin_def Submit_task_def cancel_entry_def send_result_def worker_take_def
  worker_publish_def

lemma bg_do_bounds: "in_bounds s \<Longrightarrow> bg_do fn ev s = Some (Inr s') \<Longrightarrow> in_bounds s'"
  by (cases ev) (auto simp: in_bounds_def bg_defs split: if_splits bg_worker.splits list.splits)

lemma list_all_update: "list_all P xs \<Longrightarrow> P x \<Longrightarrow> list_all P (xs[w := x])"
  by (auto simp: list_all_iff dest!: set_update_subset_insert [THEN subsetD])

lemma results_from_on_entry:
  assumes "results_from fn s" and "\<And>t. pred_option (can_return fn i) (be_result t) \<Longrightarrow> pred_option (can_return fn i) (be_result (f t))"
  shows "results_from fn (on_entry i f s)"
  using assms unfolding results_from_def by (auto simp: mget_on_entry split: if_splits)

lemma results_from_set_worker:
  "results_from fn s \<Longrightarrow> from_fn fn ph \<Longrightarrow> results_from fn (set_worker w ph s)"
  by (simp add: results_from_def list_all_update)

lemma bg_do_results:
  assumes "results_from fn s" and "bg_do fn ev s = Some (Inr s')"
  shows "results_from fn s'"
proof -
  have here: "from_fn fn (worker_at s w)" for w
    using assms(1) by (auto simp: results_from_def worker_at_def list_all_iff)
  have task_fields: "results_from fn (s\<lparr>bx_queue := q\<rparr>)" "results_from fn (s\<lparr>bx_active := q\<rparr>)"
    "results_from fn (s\<lparr>bx_submitting := q\<rparr>)" for q
    using assms(1) by (simp_all add: results_from_def)
  show ?thesis
  proof (cases ev)
    case (SubmitBegin i name priority now)
    then show ?thesis using assms by (auto simp: results_from_def Submit_task_def gomap split: if_splits)
  next
    case (SubmitFail i)
    then show ?thesis using assms(2) task_fields by (auto simp: cancel_entry_def intro!: results_from_on_entry split: if_splits)
  next
    case (CancelTask i)
    then show ?thesis using assms by (auto simp: cancel_entry_def intro!: results_from_on_entry split: if_splits)
  next
    case (WorkerTake w)
    then show ?thesis using assms task_fields
      by (auto simp: worker_take_def intro!: results_from_set_worker split: if_splits bg_worker.splits list.splits)
  next
    case (WorkerFinish w)
    then show ?thesis using assms(2) task_fields
      by (auto intro!: results_from_set_worker split: bg_worker.splits)
  next
    case (WorkerReport w)
    then show ?thesis using assms here [of w]
      by (auto simp: send_result_def intro!: results_from_set_worker results_from_on_entry split: bg_worker.splits if_splits)
  next
    case (WorkerPublish w)
    then show ?thesis using assms here [of w]
      by (auto simp: worker_publish_def results_from_def list_all_update split: bg_worker.splits if_splits)
  next
    case ReceiveResult
    then show ?thesis using assms by (auto simp: results_from_def split: list.splits)
  qed (use assms in \<open>auto simp: results_from_def Start_pool_def stop_begin_def list_all_update list_all_iff [of _ "replicate _ _"]
      split: if_splits bg_worker.splits\<close>)
qed

lemma unreported_on_entry: "unreported (on_entry i f s) j =
    (if j = i then (case mget (bx_tasks s) i of Some t \<Rightarrow> be_result (f t) = None | None \<Rightarrow> False) else unreported s j)"
  by (auto simp: unreported_def mget_on_entry split: option.splits)

lemma unreported_set_worker [simp]: "unreported (set_worker w ph s) i = unreported s i"
  by (simp add: unreported_def)

text \<open>Moving a task from one place to another keeps the places.\<close>

lemma placed_same: "placed s \<Longrightarrow> places s' = places s \<Longrightarrow> (\<And>i. i \<in># places s \<Longrightarrow> unreported s i \<Longrightarrow> unreported s' i) \<Longrightarrow> placed s'"
  by (simp add: placed_def)

lemma placed_less: "placed s \<Longrightarrow> places s = add_mset k (places s') \<Longrightarrow>
    (\<And>i. i \<noteq> k \<Longrightarrow> unreported s i \<Longrightarrow> unreported s' i) \<Longrightarrow> placed s'"
  unfolding placed_def
  by (metis Suc_eq_plus1 Suc_le_mono add_leE count_add_mset count_greater_zero_iff in_diff_count le_antisym less_one
      not_less_zero union_single_eq_member insert_noteq_member add_mset_add_single not_in_iff zero_le)

lemma placed_more: "placed s \<Longrightarrow> places s' = add_mset k (places s) \<Longrightarrow> k \<notin># places s \<Longrightarrow> unreported s' k \<Longrightarrow>
    (\<And>i. i \<noteq> k \<Longrightarrow> unreported s i \<Longrightarrow> unreported s' i) \<Longrightarrow> placed s'"
  unfolding placed_def by (auto simp: not_in_iff) metis

lemma places_worker_same:
  "worker_at s w \<noteq> WStopped \<Longrightarrow> in_worker ph = in_worker (worker_at s w) \<Longrightarrow> places (set_worker w ph s) = places s"
  using places_set_worker [of w s ph] worker_at_lt [of s w] by auto

lemma places_other_fields [simp]:
  "places (s\<lparr>bx_active := a\<rparr>) = places s" "places (s\<lparr>bx_results := rs\<rparr>) = places s" "places (on_entry i f s) = places s"
  by (simp_all add: places_def)

lemma places_take:
  assumes "worker_at s w = WSelect g" and "bx_queue s = i # q"
  shows "places (set_worker w (WExec i) (s\<lparr>bx_queue := q\<rparr>)) = places s"
  using places_set_worker [of w "s\<lparr>bx_queue := q\<rparr>" "WExec i"] worker_at_lt [of s w] assms
  by (auto simp: places_def)

lemma places_report:
  assumes "worker_at s w = WReport i r"
  shows "places s = add_mset i (places (set_worker w (WPublish i r) (send_result i r s)))"
  using places_set_worker [of w s "WPublish i r"] worker_at_lt [of s w] assms
  by (auto simp: send_result_def places_def set_worker_def)

lemma bg_do_placed:
  assumes "placed s" and "bg_do fn ev s = Some (Inr s')"
  shows "placed s'"
proof (cases ev)
  case (SubmitBegin i name priority now)
  then have new: "mget (bx_tasks s) i = None" and s': "s' = Submit_task i name priority now s"
    using assms(2) by (auto split: if_splits)
  have fresh: "i \<notin># places s" using assms(1) new by (auto simp: placed_def unreported_def)
  show ?thesis
  proof (cases "bx_running s")
    case True
    show ?thesis
      by (rule placed_more [OF assms(1) _ fresh])
        (auto simp: s' True Submit_task_def places_def unreported_def gomap)
  qed (use assms(1) s' in \<open>simp add: Submit_task_def\<close>)
next
  case (SubmitSend i)
  then have mem: "i \<in> set (bx_submitting s)" and s': "s' = s\<lparr>bx_queue := bx_queue s @ [i], bx_submitting := remove1 i (bx_submitting s)\<rparr>"
    using assms(2) by (auto split: if_splits)
  show ?thesis by (rule placed_same [OF assms(1)]) (use mem in \<open>auto simp: s' places_def unreported_def\<close>)
next
  case (SubmitFail i)
  then have mem: "i \<in> set (bx_submitting s)" and s': "s' = cancel_entry i (s\<lparr>bx_submitting := remove1 i (bx_submitting s)\<rparr>)"
    using assms(2) by (auto split: if_splits)
  show ?thesis
    by (rule placed_less [OF assms(1), of i]) (use mem in \<open>auto simp: s' cancel_entry_def places_def mget_on_entry unreported_def\<close>)
next
  case (CancelTask i)
  then have "s' = s \<or> s' = cancel_entry i s" using assms(2) by (auto split: if_splits)
  then show ?thesis
  proof
    assume "s' = cancel_entry i s"
    then show ?thesis
      by (intro placed_same [OF assms(1)]) (auto simp: cancel_entry_def mget_on_entry unreported_def split: option.splits)
  qed (use assms(1) in simp)
next
  case (WorkerSelect w)
  then show ?thesis
    using assms by (auto intro!: placed_same [OF assms(1)] places_worker_same split: bg_worker.splits)
next
  case (WorkerStop w)
  then show ?thesis
    using assms by (auto intro!: placed_same [OF assms(1)] places_worker_same split: bg_worker.splits if_splits)
next
  case (WorkerTake w)
  then show ?thesis
    using assms places_take [of s w]
    by (auto simp: worker_take_def intro!: placed_same [OF assms(1)] places_worker_same split: bg_worker.splits if_splits list.splits)
      (auto simp: unreported_def)
next
  case (WorkerFinish w)
  then obtain i where w: "worker_at s w = WExec i"
    and s': "s' = set_worker w (WReport i (fn i (is_cancelled i s))) (s\<lparr>bx_active := removeAll i (bx_active s)\<rparr>)"
    using assms(2) by (auto split: bg_worker.splits)
  have "places s' = places (s\<lparr>bx_active := removeAll i (bx_active s)\<rparr>)"
    unfolding s' by (rule places_worker_same) (simp_all add: w)
  then show ?thesis by (intro placed_same [OF assms(1)]) (auto simp: s' unreported_def)
next
  case (WorkerReport w)
  then obtain i r where w: "worker_at s w = WReport i r" and s': "s' = set_worker w (WPublish i r) (send_result i r s)"
    using assms(2) by (auto split: bg_worker.splits)
  show ?thesis
    by (rule placed_less [OF assms(1) places_report [OF w, folded s']]) (auto simp: s' send_result_def unreported_on_entry)
next
  case (WorkerPublish w)
  then obtain i r where w: "worker_at s w = WPublish i r" and s': "s' = set_worker w WLoop (s\<lparr>bx_results := bx_results s @ [(i, r)]\<rparr>)"
    using assms(2) by (auto simp: worker_publish_def split: bg_worker.splits if_splits)
  have "places s' = places (s\<lparr>bx_results := bx_results s @ [(i, r)]\<rparr>)"
    unfolding s' by (rule places_worker_same) (simp_all add: w)
  then show ?thesis by (intro placed_same [OF assms(1)]) (auto simp: s' unreported_def)
next
  case (WorkerTimeout w)
  then show ?thesis
    using assms by (auto intro!: placed_same [OF assms(1)] places_worker_same split: bg_worker.splits if_splits)
next
  case StartPool
  then show ?thesis
    using assms by (auto intro!: placed_same [OF assms(1)] simp: Start_pool_def places_def unreported_def)
qed (use assms in \<open>auto intro!: placed_same [OF assms(1)] simp: stop_begin_def places_def unreported_def split: if_splits list.splits\<close>)

section \<open>Workers, closed channels and tasks that were not accepted\<close>

definition workers_counted :: "BackgroundExecutor \<Rightarrow> bool" where
  "workers_counted s \<longleftrightarrow> bx_stops s \<noteq> [] \<and> length (bx_workers s) = bx_maxWorkers s * (length (bx_stops s) - 1)"

lemma bg_do_counted:
  assumes "workers_counted s" and "bg_do fn ev s = Some (Inr s')"
  shows "workers_counted s'"
proof -
  have tasks: "workers_counted (on_entry i f s2) = workers_counted s2" "workers_counted (set_worker w ph s2) = workers_counted s2"
    for i f s2 w ph
    by (simp_all add: workers_counted_def on_entry_def set_worker_def split: option.splits)
  have started: "workers_counted (Start_pool s)"
    using assms(1) by (cases "bx_stops s") (auto simp: workers_counted_def Start_pool_def)
  show ?thesis
    using assms started
    by (cases ev) (auto simp: tasks stop_begin_def Submit_task_def cancel_entry_def send_result_def worker_take_def worker_publish_def
        split: if_splits bg_worker.splits list.splits, (simp_all add: workers_counted_def)?)
qed

text \<open>Channels are closed only after \<open>Stop\<close> has closed a stop channel, and stay closed.\<close>

definition closed_after_stop :: "BackgroundExecutor \<Rightarrow> bool" where
  "closed_after_stop s \<longleftrightarrow> (True \<in> set (bx_stops s) \<or>
     bx_stopping s = 0 \<and> bx_closing s = 0 \<and> \<not> bx_queueClosed s \<and> \<not> bx_resultsClosed s)"

lemma bg_do_closed:
  assumes "closed_after_stop s" and "bx_stops s \<noteq> []" and "bg_do fn ev s = Some (Inr s')"
  shows "closed_after_stop s'"
proof -
  have stops: "bx_stops (on_entry i f s2) = bx_stops s2" "bx_stops (set_worker w ph s2) = bx_stops s2" for i f s2 w ph
    by (simp_all add: on_entry_def set_worker_def split: option.splits)
  have "closed_after_stop (stop_begin s)"
    using assms(1,2) by (auto simp: closed_after_stop_def stop_begin_def set_update_memI)
  with assms show ?thesis
    by (cases ev) (auto simp: closed_after_stop_def stops Start_pool_def Submit_task_def cancel_entry_def send_result_def worker_take_def worker_publish_def
        split: if_splits bg_worker.splits list.splits)
qed

lemma no_panic_before_stop:
  assumes "closed_after_stop s" and "True \<notin> set (bx_stops s)"
  shows "bg_do fn ev s \<noteq> Some (Inl e)"
  using assms by (cases ev) (auto simp: closed_after_stop_def worker_publish_def split: bg_worker.splits if_splits option.splits list.splits)

text \<open>A task that is registered as active but is in no place stays so.\<close>

definition leaked :: "string \<Rightarrow> BackgroundExecutor \<Rightarrow> bool" where
  "leaked i s \<longleftrightarrow> i \<in> set (bx_active s) \<and> i \<notin># places s \<and> mget (bx_tasks s) i \<noteq> None"

lemma worker_in_places:
  assumes "j \<in> set (in_worker (worker_at s w))"
  shows "j \<in># places s"
proof -
  have "worker_at s w \<noteq> WStopped" using assms by auto
  then have "worker_at s w \<in> set (bx_workers s)" using worker_at_lt by (metis nth_mem)
  then show ?thesis using assms by (auto simp: places_def)
qed

text \<open>No step but the submission of a new task adds to the places.\<close>

lemma places_grow:
  assumes "bg_do fn ev s = Some (Inr s')" and "i \<in># places s'" and "mget (bx_tasks s) i \<noteq> None"
  shows "i \<in># places s"
proof -
  have upd: "j \<in># places (set_worker w ph s2) \<Longrightarrow> j \<in> set (in_worker ph) \<or> j \<in># places s2" for j w ph s2
    using set_update_subset_insert [of "bx_workers s2" w ph] by (auto simp: places_def)
  show ?thesis
  proof (cases ev)
    case (WorkerTake w)
    then show ?thesis using assms(1,2)
      by (auto simp: worker_take_def split: bg_worker.splits if_splits list.splits dest!: upd) (auto simp: places_def)
  next
    case (WorkerFinish w)
    then show ?thesis using assms(1,2) worker_in_places [of i s w]
      by (auto split: bg_worker.splits dest!: upd)
  next
    case (WorkerReport w)
    then show ?thesis using assms(1,2) worker_in_places [of i s w]
      by (auto simp: send_result_def split: bg_worker.splits dest!: upd)
  next
    case (WorkerPublish w)
    then show ?thesis using assms(1,2) by (auto simp: worker_publish_def split: bg_worker.splits if_splits dest!: upd)
  next
    case (SubmitBegin k name priority now)
    then show ?thesis using assms by (auto simp: Submit_task_def places_def split: if_splits)
  next
    case (SubmitSend k)
    then show ?thesis using assms by (auto simp: places_def split: if_splits dest: notin_set_remove1)
  next
    case (SubmitFail k)
    then show ?thesis using assms(1,2) by (auto simp: cancel_entry_def places_def split: if_splits dest: notin_set_remove1)
  qed (use assms(1,2) in \<open>auto simp: Start_pool_def stop_begin_def cancel_entry_def split: if_splits bg_worker.splits list.splits dest!: upd\<close>,
      (simp_all add: places_def)?)
qed

lemma bg_do_leaked:
  assumes "leaked i s" and "bg_do fn ev s = Some (Inr s')"
  shows "leaked i s'"
proof -
  have known: "mget (bx_tasks s) i \<noteq> None" and gone: "i \<notin># places s" and active: "i \<in> set (bx_active s)"
    using assms(1) by (auto simp: leaked_def)
  have away: "i \<notin># places s'" using places_grow [OF assms(2) _ known] gone by blast
  have idle: "worker_at s w \<noteq> WExec i" for w using worker_in_places [of i s w] gone by auto
  have "mget (bx_tasks s') i \<noteq> None"
    using known assms(2)
    by (cases ev) (auto simp: bg_defs gomap mget_on_entry split: if_splits bg_worker.splits list.splits)
  moreover have "i \<in> set (bx_active s')"
    using active assms(2) idle
    by (cases ev) (auto simp: bg_defs split: if_splits bg_worker.splits list.splits)
  ultimately show ?thesis using away by (simp add: leaked_def)
qed

fun bg_run :: "(string \<Rightarrow> bool \<Rightarrow> task_outcome) \<Rightarrow> bg_event list \<Rightarrow> BackgroundExecutor \<Rightarrow> BackgroundExecutor option" where
  "bg_run fn [] s = Some s"
| "bg_run fn (ev # evs) s = (case bg_do fn ev s of Some (Inr s') \<Rightarrow> bg_run fn evs s' | _ \<Rightarrow> None)"

lemma bg_run_leaked: "leaked i s \<Longrightarrow> bg_run fn evs s = Some s' \<Longrightarrow> leaked i s'"
  by (induction fn evs s rule: bg_run.induct) (auto split: option.splits sum.splits dest: bg_do_leaked)

lemma fail_leaks:
  assumes "placed s" and "i \<in> set (bx_active s)" and "bg_do fn (SubmitFail i) s = Some (Inr s')"
  shows "leaked i s'"
proof -
  have mem: "i \<in> set (bx_submitting s)" and s': "s' = cancel_entry i (s\<lparr>bx_submitting := remove1 i (bx_submitting s)\<rparr>)"
    using assms(3) by (auto split: if_splits)
  have "places s = add_mset i (places s')" using mem by (simp add: s' cancel_entry_def places_def)
  moreover have "count (places s) i \<le> 1" using assms(1) by (simp add: placed_def)
  moreover have "unreported s i" using assms(1) mem by (auto simp: placed_def places_def)
  ultimately show ?thesis
    using assms(2) by (auto simp: leaked_def not_in_iff s' cancel_entry_def mget_on_entry unreported_def split: option.splits)
qed

text \<open>Tasks that are being submitted are active: a task is in one place only, so no worker removes them.\<close>

definition pending_active :: "BackgroundExecutor \<Rightarrow> bool" where
  "pending_active s \<longleftrightarrow> set (bx_submitting s) \<subseteq> set (bx_active s)"

lemma submitting_not_executing:
  assumes "placed s" and "i \<in> set (bx_submitting s)"
  shows "worker_at s w \<noteq> WExec i"
proof
  assume ex: "worker_at s w = WExec i"
  then have "WExec i \<in> set (bx_workers s)" using worker_at_lt [of s w] by (metis bg_worker.distinct(23) nth_mem)
  then have "i \<in> set (concat (map in_worker (bx_workers s)))" by force
  then have "i \<in># mset (concat (map in_worker (bx_workers s)))" by (simp only: set_mset_mset)
  moreover have "i \<in># mset (bx_submitting s)" using assms(2) by simp
  ultimately have "2 \<le> count (places s) i"
    unfolding places_def count_union count_greater_zero_iff [symmetric] by linarith
  moreover have "count (places s) i \<le> 1" using assms(1) by (simp add: placed_def)
  ultimately show False by linarith
qed

lemma bg_do_pending:
  assumes "placed s" and "pending_active s" and "bg_do fn ev s = Some (Inr s')"
  shows "pending_active s'"
  using assms(2,3) submitting_not_executing [OF assms(1)]
  by (cases ev) (auto simp: pending_active_def bg_defs dest!: set_remove1_subset [THEN subsetD] split: if_splits bg_worker.splits list.splits)

definition bg_ok :: "(string \<Rightarrow> bool \<Rightarrow> task_outcome) \<Rightarrow> BackgroundExecutor \<Rightarrow> bool" where
  "bg_ok fn s \<longleftrightarrow> in_bounds s \<and> results_from fn s \<and> placed s \<and> workers_counted s \<and> closed_after_stop s \<and> pending_active s"

lemma bg_reach_ok: "bg_reach fn m q s \<Longrightarrow> bg_ok fn s"
proof (induction rule: bg_reach.induct)
  case bg_start
  show ?case
    by (simp add: bg_ok_def NewBackgroundExecutor_def in_bounds_def results_from_def placed_def places_def workers_counted_def
        closed_after_stop_def pending_active_def)
next
  case (bg_next s ev s')
  then show ?case
    using bg_do_bounds bg_do_results bg_do_placed bg_do_counted bg_do_closed bg_do_pending
    unfolding bg_ok_def by (metis workers_counted_def)
qed

text \<open>While a task is queued, a worker that has not stopped always has a step to take.\<close>

lemma worker_not_stuck:
  assumes "bx_queue s \<noteq> []" and "worker_at s w \<noteq> WStopped"
  shows "\<exists>ev \<in> {WorkerSelect w, WorkerTake w, WorkerFinish w, WorkerReport w, WorkerPublish w, WorkerTimeout w}. bg_do fn ev s \<noteq> None"
proof (cases "worker_at s w")
  case (WPublish i r)
  then show ?thesis by (cases "bx_resultsClosed s \<or> length (bx_results s) < bx_queueSize s") (auto simp: worker_publish_def)
qed (use assms in \<open>auto simp: worker_take_def split: list.splits\<close>)

text \<open>A closed queue makes every submission panic, also after the pool has been started again.\<close>

lemma submit_after_stop:
  assumes "bx_queueClosed s" and "mget (bx_tasks s) i = None"
  shows "\<exists>s1 s2. bg_do fn StartPool s = Some (Inr s1) \<and> bg_do fn (SubmitBegin i name priority now) s1 = Some (Inr s2) \<and>
    bg_do fn (SubmitSend i) s2 = Some (Inl (GoPanic ''send on closed channel''))"
  using assms by (simp add: Start_pool_def Submit_task_def)

text \<open>The background pool, in every state that any interleaving of callers and workers reaches. The queue stays within its
  size, and there are as many workers as the starts have made. A submitted task is in at most one place (being
  submitted, queued, with a worker), a task with a result is in none and the result is one its function can
  return, so that the function of a task runs at most once; a worker is never stuck while tasks are queued. As long as
  Stop has not been called nothing panics. Once Stop has closed the queue, starting the pool again and
  submitting a task panics; and a task whose submission failed stays among the active tasks for ever.\<close>

theorem background_pool_sound:
  assumes "bg_reach fn m q s"
  shows "length (bx_queue s) \<le> bx_queueSize s \<and>
    length (bx_workers s) = bx_maxWorkers s * (length (bx_stops s) - 1) \<and>
    count (mset (bx_submitting s @ bx_queue s @ concat (map in_worker (bx_workers s)))) i \<le> 1 \<and>
    (mget (bx_tasks s) i = Some t \<and> be_result t = Some r \<longrightarrow>
       (\<exists>c. r = fn i c) \<and> i \<notin> set (bx_submitting s @ bx_queue s @ concat (map in_worker (bx_workers s)))) \<and>
    (bx_queue s \<noteq> [] \<and> worker_at s w \<noteq> WStopped \<longrightarrow>
       (\<exists>ev \<in> {WorkerSelect w, WorkerTake w, WorkerFinish w, WorkerReport w, WorkerPublish w, WorkerTimeout w}. bg_do fn ev s \<noteq> None)) \<and>
    (True \<notin> set (bx_stops s) \<longrightarrow> bg_do fn ev s \<noteq> Some (Inl e)) \<and>
    (bx_queueClosed s \<and> mget (bx_tasks s) i = None \<longrightarrow>
       (\<exists>s1 s2. bg_do fn StartPool s = Some (Inr s1) \<and> bg_do fn (SubmitBegin i name priority now) s1 = Some (Inr s2) \<and>
          bg_do fn (SubmitSend i) s2 = Some (Inl (GoPanic ''send on closed channel'')))) \<and>
    (bg_do fn (SubmitFail i) s = Some (Inr s1) \<and> bg_run fn evs s1 = Some s2 \<longrightarrow> i \<in> set (GetActiveTasks s2))"
proof -
  have ok: "in_bounds s" "results_from fn s" "placed s" "workers_counted s" "closed_after_stop s" "pending_active s"
    using bg_reach_ok [OF assms] by (auto simp: bg_ok_def)
  have reported: "can_return fn i r \<and> i \<notin># places s" if "mget (bx_tasks s) i = Some t" "be_result t = Some r"
    using ok(2,3) that by (force simp: results_from_def placed_def unreported_def)
  have fails: "i \<in> set (GetActiveTasks s2)" if "bg_do fn (SubmitFail i) s = Some (Inr s1)" "bg_run fn evs s1 = Some s2"
  proof -
    have "i \<in> set (bx_active s)" using that(1) ok(6) by (auto simp: pending_active_def split: if_splits)
    from bg_run_leaked [OF fail_leaks [OF ok(3) this that(1)] that(2)] show ?thesis
      by (simp add: leaked_def GetActiveTasks_def)
  qed
  show ?thesis
  proof (intro conjI impI; (elim conjE)?)
    show "length (bx_queue s) \<le> bx_queueSize s" using ok(1) by (simp add: in_bounds_def)
    show "length (bx_workers s) = bx_maxWorkers s * (length (bx_stops s) - 1)" using ok(4) by (simp add: workers_counted_def)
    show "count (mset (bx_submitting s @ bx_queue s @ concat (map in_worker (bx_workers s)))) i \<le> 1"
      using ok(3) by (simp add: placed_def places_def add.assoc)
  qed (use reported fails no_panic_before_stop [OF ok(5)] worker_not_stuck [of s w fn] submit_after_stop [of s i fn name priority now]
      in \<open>auto simp: can_return_def places_def\<close>)
qed

definition bg_sample :: "bg_event list" where
  "bg_sample = [StartPool, SubmitBegin ''a'' ''save'' 0 0, SubmitSend ''a'', WorkerSelect 0, WorkerTake 0, WorkerFinish 0,
     WorkerReport 0, StopBegin, StopCloseQueue]"

lemma bg_run_reach: "bg_run fn evs s = Some s' \<Longrightarrow> bg_reach fn m q s \<Longrightarrow> bg_reach fn m q s'"
  by (induction fn evs s rule: bg_run.induct) (auto split: option.splits sum.splits intro: bg_next)

theorem background_pool_sound_witness:
  "\<exists>s t. bg_run (\<lambda>i c. (GStr i, None)) bg_sample (NewBackgroundExecutor 1 1) = Some s \<and> bx_queueClosed s \<and>
     length (bx_workers s) = 1 \<and> mget (bx_tasks s) ''a'' = Some t \<and> be_result t = Some (GStr ''a'', None) \<and>
     (\<exists>s1 s2. bg_do (\<lambda>i c. (GStr i, None)) StartPool s = Some (Inr s1) \<and>
        bg_do (\<lambda>i c. (GStr i, None)) (SubmitBegin ''b'' ''save'' 0 0) s1 = Some (Inr s2) \<and>
        bg_do (\<lambda>i c. (GStr i, None)) (SubmitSend ''b'') s2 = Some (Inl (GoPanic ''send on closed channel'')))"
proof -
  define s where "s = the (bg_run (\<lambda>i c. (GStr i, None)) bg_sample (NewBackgroundExecutor 1 1))"
  have run: "bg_run (\<lambda>i c. (GStr i, None)) bg_sample (NewBackgroundExecutor 1 1) = Some s"
    "bx_queueClosed s" "bx_maxWorkers s = 1" "length (bx_stops s) = 2" "mget (bx_tasks s) ''b'' = None"
    "map_option be_result (mget (bx_tasks s) ''a'') = Some (Some (GStr ''a'', None))"
    unfolding s_def by code_simp+
  note sound = background_pool_sound [OF bg_run_reach [OF run(1) bg_start]]
  have "length (bx_workers s) = 1" using sound run(3,4) by simp
  moreover note sound [where i = "''b''", THEN conjunct2, THEN conjunct2, THEN conjunct2, THEN conjunct2, THEN conjunct2, THEN conjunct2,
      THEN conjunct1, THEN mp, OF conjI [OF run(2,5)]]
  ultimately show ?thesis using run by (cases "mget (bx_tasks s) ''a''") auto
qed

end
