(* ===== verification/Async_Pipeline.thy ===== *)
theory Async_Pipeline
  imports Worker_Pool Retry
begin

text \<open>
  The rest of \<open>pregel/async.go\<close>: the pipeline the engine runs its tasks through (an executor, a channel of events and one
  of errors), the limiter of the concurrency of single nodes, and the executor of prioritised tasks. The locks make
  the operations of the pipeline atomic; a channel is its buffer and whether it is open. The limiter hands out
  channels that its callers wait on outside its lock, so it is a state machine of atomic actions, with \<open>None\<close> for an
  action that is not enabled.
\<close>

section \<open>Tasks with retries\<close>

text \<open>The function \<open>ExecuteWithRetry\<close> hands to the executor.\<close>

definition ExecuteWithRetry :: "RetryConfig \<Rightarrow> (nat \<Rightarrow> gerr option) \<Rightarrow> string \<Rightarrow> (nat \<Rightarrow> call_result) \<Rightarrow> outcome" where
  "ExecuteWithRetry retryConfig cancel name fn =
     (case Retry_Execute (NewRetryExecutor (Some (RcPolicy retryConfig))) cancel name fn of
        Inr v \<Rightarrow> (v, None)
      | Inl e \<Rightarrow> (GNil, Some e))"

definition ExecuteNode :: "RetryConfig option \<Rightarrow> (nat \<Rightarrow> gerr option) \<Rightarrow> string \<Rightarrow> (nat \<Rightarrow> call_result) \<Rightarrow> outcome" where
  "ExecuteNode retryConfig cancel name fn =
     (case retryConfig of
        Some c \<Rightarrow> ExecuteWithRetry c cancel name fn
      | None \<Rightarrow> (case fn 1 of Ret output err \<Rightarrow> (output, err) | Panics v \<Rightarrow> (GNil, Some (GoPanic ''node function''))))"

section \<open>The pipeline\<close>

record AsyncPipeline =
  ap_executor :: AsyncExecutor
  ap_retryer :: RetryPolicy
  ap_events :: "gval list"
  ap_eventsOpen :: bool
  ap_errors :: "gerr list"
  ap_errorsOpen :: bool
  ap_contexts :: "bool list"    \<comment> \<open>the contexts \<open>Start\<close> has made, and whether they are cancelled\<close>
  ap_running :: bool

definition NewAsyncPipeline :: "int \<Rightarrow> RetryPolicy option \<Rightarrow> AsyncPipeline" where
  "NewAsyncPipeline maxConcurrency retryPolicy =
     \<lparr>ap_executor = NewAsyncExecutor maxConcurrency, ap_retryer = NewRetryExecutor retryPolicy,
      ap_events = [], ap_eventsOpen = True, ap_errors = [], ap_errorsOpen = True, ap_contexts = [], ap_running = False\<rparr>"

definition Pipeline_Start :: "AsyncPipeline \<Rightarrow> AsyncPipeline" where
  "Pipeline_Start p =
     (if ap_running p then p
      else p\<lparr>ap_events := [], ap_eventsOpen := True, ap_errors := [], ap_errorsOpen := True,
             ap_contexts := ap_contexts p @ [False], ap_running := True\<rparr>)"

definition close_channel :: "bool \<Rightarrow> bool res" where
  "close_channel is_open = (if is_open then Inr False else Inl (GoPanic ''close of closed channel''))"

definition Pipeline_Stop :: "AsyncPipeline \<Rightarrow> AsyncPipeline res" where
  "Pipeline_Stop p =
     (if \<not> ap_running p then Inr p
      else let p1 = p\<lparr>ap_contexts := (ap_contexts p)[length (ap_contexts p) - 1 := True],
                      ap_executor := the (ax_do (\<lambda>i c. (GNil, None)) CancelAll (ap_executor p))\<rparr>
           in case close_channel (ap_eventsOpen p1) of
                Inl e \<Rightarrow> Inl e
              | Inr ev \<Rightarrow> (case close_channel (ap_errorsOpen p1) of
                    Inl e \<Rightarrow> Inl e
                  | Inr er \<Rightarrow> Inr (p1\<lparr>ap_eventsOpen := ev, ap_errorsOpen := er, ap_running := False\<rparr>)))"

text \<open>\<open>select\<close> with a default: a full channel drops the value.\<close>

definition try_send :: "nat \<Rightarrow> bool \<Rightarrow> 'a \<Rightarrow> 'a list \<Rightarrow> 'a list res" where
  "try_send capacity is_open v buf =
     (if \<not> is_open then Inl (GoPanic ''send on closed channel'')
      else Inr (if length buf < capacity then buf @ [v] else buf))"

definition EmitEvent :: "gval \<Rightarrow> AsyncPipeline \<Rightarrow> AsyncPipeline res" where
  "EmitEvent event p =
     (if ap_running p
      then (case try_send 100 (ap_eventsOpen p) event (ap_events p) of Inl e \<Rightarrow> Inl e | Inr b \<Rightarrow> Inr (p\<lparr>ap_events := b\<rparr>))
      else Inr p)"

definition EmitError :: "gerr \<Rightarrow> AsyncPipeline \<Rightarrow> AsyncPipeline res" where
  "EmitError err p =
     (if ap_running p
      then (case try_send 10 (ap_errorsOpen p) err (ap_errors p) of Inl e \<Rightarrow> Inl e | Inr b \<Rightarrow> Inr (p\<lparr>ap_errors := b\<rparr>))
      else Inr p)"

definition IsRunning :: "AsyncPipeline \<Rightarrow> bool" where
  "IsRunning p = ap_running p"

datatype pipeline_op = DoStart | DoStop | DoEvent gval | DoError gerr | TakeEvent | TakeError

fun pipeline_do :: "pipeline_op \<Rightarrow> AsyncPipeline \<Rightarrow> AsyncPipeline res" where
  "pipeline_do DoStart p = Inr (Pipeline_Start p)"
| "pipeline_do DoStop p = Pipeline_Stop p"
| "pipeline_do (DoEvent v) p = EmitEvent v p"
| "pipeline_do (DoError e) p = EmitError e p"
| "pipeline_do TakeEvent p = Inr (p\<lparr>ap_events := tl (ap_events p)\<rparr>)"
| "pipeline_do TakeError p = Inr (p\<lparr>ap_errors := tl (ap_errors p)\<rparr>)"

fun pipeline_run :: "pipeline_op list \<Rightarrow> AsyncPipeline \<Rightarrow> AsyncPipeline res" where
  "pipeline_run [] p = Inr p"
| "pipeline_run (x # xs) p = (case pipeline_do x p of Inl e \<Rightarrow> Inl e | Inr p' \<Rightarrow> pipeline_run xs p')"

definition pipeline_ok :: "AsyncPipeline \<Rightarrow> bool" where
  "pipeline_ok p \<longleftrightarrow> length (ap_events p) \<le> 100 \<and> length (ap_errors p) \<le> 10 \<and>
     (ap_running p \<longrightarrow> ap_eventsOpen p \<and> ap_errorsOpen p \<and> ap_contexts p \<noteq> []) \<and>
     False \<notin> set (butlast (ap_contexts p)) \<and> (ap_contexts p \<noteq> [] \<longrightarrow> last (ap_contexts p) = (\<not> ap_running p))"

lemma pipeline_do_ok:
  assumes "pipeline_ok p"
  shows "\<exists>p'. pipeline_do x p = Inr p' \<and> pipeline_ok p'"
proof (cases x)
  case DoStart
  have "False \<notin> set (ap_contexts p)" if "\<not> ap_running p"
    using assms that by (cases "ap_contexts p" rule: rev_cases) (auto simp: pipeline_ok_def)
  then show ?thesis using assms DoStart by (auto simp: pipeline_ok_def Pipeline_Start_def)
next
  case DoStop
  then show ?thesis
    using assms by (cases "ap_contexts p" rule: rev_cases) (auto simp: pipeline_ok_def Pipeline_Stop_def close_channel_def Let_def)
next
  case (DoEvent v)
  then show ?thesis
    using assms by (cases "ap_running p") (simp_all add: pipeline_ok_def EmitEvent_def try_send_def)
next
  case (DoError e)
  then show ?thesis
    using assms by (cases "ap_running p") (simp_all add: pipeline_ok_def EmitError_def try_send_def)
qed (use assms in \<open>auto simp: pipeline_ok_def\<close>)

text \<open>
  No sequence of operations makes a pipeline send on, or close, a closed channel; its buffers stay within their
  capacities, and exactly the context of the running period is not cancelled.
\<close>

lemma pipeline_safe:
  "\<exists>p. pipeline_run xs (NewAsyncPipeline m pol) = Inr p \<and> pipeline_ok p"
proof -
  have "\<exists>p'. pipeline_run xs p = Inr p' \<and> pipeline_ok p'" if "pipeline_ok p" for p
    using that
  proof (induction xs arbitrary: p)
    case (Cons x xs)
    obtain p' where "pipeline_do x p = Inr p'" "pipeline_ok p'" using pipeline_do_ok [OF Cons.prems] by blast
    then show ?case using Cons.IH [of p'] by simp
  qed simp
  then show ?thesis by (simp add: NewAsyncPipeline_def pipeline_ok_def)
qed

section \<open>The limiter\<close>

text \<open>
  A channel of the limiter is its capacity and the number of tokens in it; \<open>cl_limits\<close> has the index of the channel of a
  node. A goroutine waits on a channel, or holds a token of it (\<open>None\<close>: it acquired when the node had no limit).
\<close>

record ConcurrencyLimiter =
  cl_limits :: "nat gomap"
  cl_chans :: "(nat \<times> nat) list"

definition NewConcurrencyLimiter :: ConcurrencyLimiter where
  "NewConcurrencyLimiter = \<lparr>cl_limits = [], cl_chans = []\<rparr>"

definition SetLimit :: "string \<Rightarrow> int \<Rightarrow> ConcurrencyLimiter \<Rightarrow> ConcurrencyLimiter res" where
  "SetLimit node limit l =
     (if limit < 0 then Inl (GoPanic ''makechan: size out of range'')
      else Inr (l\<lparr>cl_chans := cl_chans l @ [(nat limit, nat limit)], cl_limits := mput node (length (cl_chans l)) (cl_limits l)\<rparr>))"

definition take_token :: "nat \<Rightarrow> ConcurrencyLimiter \<Rightarrow> ConcurrencyLimiter option" where
  "take_token c l =
     (case cl_chans l ! c of (cap, n) \<Rightarrow> if 0 < n then Some (l\<lparr>cl_chans := (cl_chans l)[c := (cap, n - 1)]\<rparr>) else None)"

definition Limiter_Release :: "string \<Rightarrow> ConcurrencyLimiter \<Rightarrow> ConcurrencyLimiter" where
  "Limiter_Release node l =
     (case mget (cl_limits l) node of
        None \<Rightarrow> l
      | Some c \<Rightarrow> (case cl_chans l ! c of (cap, n) \<Rightarrow> if n < cap then l\<lparr>cl_chans := (cl_chans l)[c := (cap, n + 1)]\<rparr> else l))"

record limiter_state =
  ls_limiter :: ConcurrencyLimiter
  ls_waiting :: "(string \<times> nat) gomap"
  ls_holding :: "(string \<times> nat option) gomap"

datatype limiter_event = Lookup string string | TakeToken string | WaitCancelled string | ReleaseSlot string

text \<open>\<open>Acquire\<close> reads the channel of the node under the lock (\<open>Lookup\<close>) and waits for a token or the context after it.\<close>

fun limiter_do :: "limiter_event \<Rightarrow> limiter_state \<Rightarrow> limiter_state option" where
  "limiter_do (Lookup g node) s =
     (if mget (ls_waiting s) g \<noteq> None \<or> mget (ls_holding s) g \<noteq> None then None
      else case mget (cl_limits (ls_limiter s)) node of
             None \<Rightarrow> Some (s\<lparr>ls_holding := mput g (node, None) (ls_holding s)\<rparr>)
           | Some c \<Rightarrow> Some (s\<lparr>ls_waiting := mput g (node, c) (ls_waiting s)\<rparr>))"
| "limiter_do (TakeToken g) s =
     (case mget (ls_waiting s) g of
        None \<Rightarrow> None
      | Some (node, c) \<Rightarrow> (case take_token c (ls_limiter s) of
            None \<Rightarrow> None
          | Some l \<Rightarrow> Some (s\<lparr>ls_limiter := l, ls_waiting := mdel g (ls_waiting s), ls_holding := mput g (node, Some c) (ls_holding s)\<rparr>)))"
| "limiter_do (WaitCancelled g) s =
     (if mget (ls_waiting s) g = None then None else Some (s\<lparr>ls_waiting := mdel g (ls_waiting s)\<rparr>))"
| "limiter_do (ReleaseSlot g) s =
     (case mget (ls_holding s) g of
        None \<Rightarrow> None
      | Some (node, c) \<Rightarrow> Some (s\<lparr>ls_limiter := Limiter_Release node (ls_limiter s), ls_holding := mdel g (ls_holding s)\<rparr>))"

fun run_limiter :: "limiter_event list \<Rightarrow> limiter_state \<Rightarrow> limiter_state option" where
  "run_limiter [] s = Some s"
| "run_limiter (ev # evs) s = (case limiter_do ev s of None \<Rightarrow> None | Some s' \<Rightarrow> run_limiter evs s')"

fun set_limits :: "(string \<times> nat) list \<Rightarrow> ConcurrencyLimiter \<Rightarrow> ConcurrencyLimiter" where
  "set_limits [] l = l"
| "set_limits ((node, k) # ks) l = (case SetLimit node (int k) l of Inr l' \<Rightarrow> set_limits ks l' | Inl e \<Rightarrow> l)"

text \<open>The reachable states of a limiter whose limits are set before it is used.\<close>

inductive limiter_reach :: "ConcurrencyLimiter \<Rightarrow> limiter_state \<Rightarrow> bool" for l where
  limiter_start: "limiter_reach l \<lparr>ls_limiter = l, ls_waiting = [], ls_holding = []\<rparr>"
| limiter_next: "limiter_reach l s \<Longrightarrow> limiter_do ev s = Some s' \<Longrightarrow> limiter_reach l s'"

definition holders_of :: "string \<Rightarrow> limiter_state \<Rightarrow> nat" where
  "holders_of node s = length (filter (\<lambda>(g, n, c). n = node) (ls_holding s))"

definition own_channels :: "ConcurrencyLimiter \<Rightarrow> bool" where
  "own_channels l \<longleftrightarrow> gomap_ok (cl_limits l) \<and> (\<forall>node c. mget (cl_limits l) node = Some c \<longrightarrow> c < length (cl_chans l)) \<and>
     (\<forall>n1 n2 c. mget (cl_limits l) n1 = Some c \<and> mget (cl_limits l) n2 = Some c \<longrightarrow> n1 = n2)"

lemma set_limits_own: "own_channels l \<Longrightarrow> own_channels (set_limits ks l)"
proof (induction ks l rule: set_limits.induct)
  case (2 node k ks l)
  have "own_channels l'" if "SetLimit node (int k) l = Inr l'" for l'
    using that 2(2) by (fastforce simp: SetLimit_def own_channels_def gomap split: if_splits)
  then show ?case using 2 by (auto split: sum.splits)
qed simp

lemma length_filter_mput: "mget m k = None \<Longrightarrow> length (filter P (mput k v m)) = length (filter P m) + (if P (k, v) then 1 else 0)"
  by (simp add: mput_fresh mget_NoneD)

lemma length_filter_mdel:
  "gomap_ok m \<Longrightarrow> mget m k = Some v \<Longrightarrow> length (filter P (mdel k m)) + (if P (k, v) then 1 else 0) = length (filter P m)"
proof (induction m)
  case (Cons x m)
  obtain k1 v1 where x: "x = (k1, v1)" by (cases x)
  show ?case
  proof (cases "k1 = k")
    case True
    then have "k \<notin> mdom m" using Cons.prems(1) by (simp add: x gomap_ok_def)
    then show ?thesis using Cons.prems(2) True by (simp add: x delete_id)
  qed (use Cons in \<open>auto simp: x gomap_ok_def\<close>)
qed simp

text \<open>The tokens of a node's channel and the holders of its slots add up to the limit.\<close>

definition limiter_ok :: "ConcurrencyLimiter \<Rightarrow> limiter_state \<Rightarrow> bool" where
  "limiter_ok l0 s \<longleftrightarrow> gomap_ok (ls_holding s) \<and> gomap_ok (ls_waiting s) \<and> cl_limits (ls_limiter s) = cl_limits l0 \<and>
     map fst (cl_chans (ls_limiter s)) = map fst (cl_chans l0) \<and>
     (\<forall>g. mget (ls_waiting s) g = None \<or> mget (ls_holding s) g = None) \<and>
     (\<forall>g node c. mget (ls_waiting s) g = Some (node, c) \<longrightarrow> mget (cl_limits l0) node = Some c) \<and>
     (\<forall>node c. mget (cl_limits l0) node = Some c \<longrightarrow>
        snd (cl_chans (ls_limiter s) ! c) + holders_of node s = fst (cl_chans l0 ! c))"

lemma chan_cap: "map fst xs = map fst ys \<Longrightarrow> c < length ys \<Longrightarrow> fst (xs ! c) = fst (ys ! c)"
  by (metis length_map nth_map)

lemma map_fst_update: "c < length xs \<Longrightarrow> map fst (xs[c := (fst (xs ! c), n)]) = map fst xs"
  by (simp add: map_update list_update_same_conv)

lemma limiter_do_ok:
  assumes own: "own_channels l0" and ok: "limiter_ok l0 s" and step: "limiter_do ev s = Some s'"
  shows "limiter_ok l0 s'"
proof (cases ev)
  case (Lookup g node)
  have w: "mget (ls_waiting s) g = None" and h: "mget (ls_holding s) g = None"
    using step Lookup by (cases "mget (ls_waiting s) g"; cases "mget (ls_holding s) g"; simp)+
  show ?thesis
  proof (cases "mget (cl_limits l0) node")
    case None
    then have s': "s' = s\<lparr>ls_holding := mput g (node, None) (ls_holding s)\<rparr>"
      using ok step Lookup w h by (simp add: limiter_ok_def)
    have "holders_of n s' = holders_of n s" if "mget (cl_limits l0) n = Some c" for n c
      using that None h by (auto simp: s' holders_of_def length_filter_mput)
    then show ?thesis using ok w by (simp add: limiter_ok_def s' gomap)
  next
    case (Some c)
    then have "s' = s\<lparr>ls_waiting := mput g (node, c) (ls_waiting s)\<rparr>"
      using ok step Lookup w h by (simp add: limiter_ok_def)
    then show ?thesis using ok h Some by (simp add: limiter_ok_def holders_of_def gomap)
  qed
next
  case (WaitCancelled g)
  then show ?thesis
    using ok step by (auto simp: limiter_ok_def holders_of_def gomap split: if_splits)
next
  case (TakeToken g)
  then obtain node c l where wait: "mget (ls_waiting s) g = Some (node, c)" and tok: "take_token c (ls_limiter s) = Some l"
    and s': "s' = s\<lparr>ls_limiter := l, ls_waiting := mdel g (ls_waiting s), ls_holding := mput g (node, Some c) (ls_holding s)\<rparr>"
    using step by (auto split: option.splits)
  have chan: "mget (cl_limits l0) node = Some c" and idle: "mget (ls_holding s) g = None"
    using ok wait by (auto simp: limiter_ok_def) (metis option.distinct(1))
  have c: "c < length (cl_chans (ls_limiter s))"
    using ok own chan by (auto simp: limiter_ok_def own_channels_def dest: map_eq_imp_length_eq)
  have l: "l = (ls_limiter s)\<lparr>cl_chans := (cl_chans (ls_limiter s))[c := (fst (cl_chans (ls_limiter s) ! c), snd (cl_chans (ls_limiter s) ! c) - 1)]\<rparr>"
    and some: "0 < snd (cl_chans (ls_limiter s) ! c)"
    using tok by (auto simp: take_token_def split: prod.splits if_splits)
  have holders: "holders_of n s' = holders_of n s + (if n = node then 1 else 0)" for n
    using idle by (simp add: holders_of_def s' length_filter_mput)
  have other: "c' \<noteq> c" if "mget (cl_limits l0) n = Some c'" "n \<noteq> node" for n c'
    using own chan that by (auto simp: own_channels_def)
  have count: "snd ((cl_chans (ls_limiter s))[c := (fst (cl_chans (ls_limiter s) ! c), snd (cl_chans (ls_limiter s) ! c) - 1)] ! c') + holders_of n s'
      = fst (cl_chans l0 ! c')" if "mget (cl_limits l0) n = Some c'" for n c'
  proof -
    have "snd (cl_chans (ls_limiter s) ! c') + holders_of n s = fst (cl_chans l0 ! c')" using ok that by (simp add: limiter_ok_def)
    then show ?thesis using that holders [of n] other [OF that] c chan some by (cases "n = node") (simp_all add: nth_list_update)
  qed
  show ?thesis
    unfolding limiter_ok_def using ok c count by (auto simp: limiter_ok_def l s' gomap map_fst_update)
next
  case (ReleaseSlot g)
  then obtain node h where hold: "mget (ls_holding s) g = Some (node, h)"
    and s': "s' = s\<lparr>ls_limiter := Limiter_Release node (ls_limiter s), ls_holding := mdel g (ls_holding s)\<rparr>"
    using step by (auto split: option.splits)
  have holders: "holders_of n s' + (if n = node then 1 else 0) = holders_of n s" for n
    using ok hold length_filter_mdel [of "ls_holding s" g "(node, h)" "\<lambda>(g, n1, c). n1 = n"]
    by (auto simp: holders_of_def s' limiter_ok_def)
  show ?thesis
  proof (cases "mget (cl_limits l0) node")
    case None
    have "holders_of n s' = holders_of n s" if "mget (cl_limits l0) n = Some c" for n c
      using that None holders [of n] by (cases "n = node") simp_all
    moreover have "Limiter_Release node (ls_limiter s) = ls_limiter s"
      using ok None by (simp add: limiter_ok_def Limiter_Release_def)
    ultimately show ?thesis using ok by (auto simp: limiter_ok_def s' gomap)
  next
    case (Some c)
    then have c: "c < length (cl_chans l0)" "length (cl_chans (ls_limiter s)) = length (cl_chans l0)"
      using ok own by (auto simp: limiter_ok_def own_channels_def dest: map_eq_imp_length_eq)
    have "snd (cl_chans (ls_limiter s) ! c) + holders_of node s = fst (cl_chans l0 ! c)" using ok Some by (simp add: limiter_ok_def)
    moreover have "0 < holders_of node s" using holders [of node] by simp
    moreover have "fst (cl_chans (ls_limiter s) ! c) = fst (cl_chans l0 ! c)"
      using ok c(1) by (auto simp: limiter_ok_def intro: chan_cap)
    ultimately have room: "snd (cl_chans (ls_limiter s) ! c) < fst (cl_chans (ls_limiter s) ! c)" by simp
    have "cl_limits (ls_limiter s) = cl_limits l0" using ok by (simp add: limiter_ok_def)
    then have rel: "Limiter_Release node (ls_limiter s) =
        (ls_limiter s)\<lparr>cl_chans := (cl_chans (ls_limiter s))[c := (fst (cl_chans (ls_limiter s) ! c), snd (cl_chans (ls_limiter s) ! c) + 1)]\<rparr>"
      using Some room by (simp add: Limiter_Release_def case_prod_beta)
    have other: "c' \<noteq> c" if "mget (cl_limits l0) n = Some c'" "n \<noteq> node" for n c'
      using own Some that by (auto simp: own_channels_def)
    have count: "snd ((cl_chans (ls_limiter s))[c := (fst (cl_chans (ls_limiter s) ! c), snd (cl_chans (ls_limiter s) ! c) + 1)] ! c') + holders_of n s'
        = fst (cl_chans l0 ! c')" if "mget (cl_limits l0) n = Some c'" for n c'
    proof -
      have "snd (cl_chans (ls_limiter s) ! c') + holders_of n s = fst (cl_chans l0 ! c')" using ok that by (simp add: limiter_ok_def)
      then show ?thesis using that holders [of n] other [OF that] c Some by (cases "n = node") (simp_all add: nth_list_update)
    qed
    show ?thesis
      unfolding limiter_ok_def
      using ok c count by (auto simp: limiter_ok_def rel s' gomap map_fst_update)
  qed
qed

text \<open>At most as many goroutines hold slots of a node as its limit allows, when limits are set before use.\<close>

definition full_channels :: "ConcurrencyLimiter \<Rightarrow> bool" where
  "full_channels l \<longleftrightarrow> (\<forall>p \<in> set (cl_chans l). snd p = fst p)"

lemma set_limits_full: "full_channels l \<Longrightarrow> full_channels (set_limits ks l)"
  by (induction ks l rule: set_limits.induct) (auto simp: SetLimit_def full_channels_def split: if_splits)

lemma limiter_bounded:
  assumes "limiter_reach l s" and "l = set_limits ks NewConcurrencyLimiter" and "mget (cl_limits l) node = Some c"
  shows "holders_of node s \<le> fst (cl_chans l ! c)"
proof -
  have own: "own_channels l"
    unfolding assms(2) by (rule set_limits_own) (simp add: own_channels_def NewConcurrencyLimiter_def)
  have full: "full_channels l"
    unfolding assms(2) by (rule set_limits_full) (simp add: full_channels_def NewConcurrencyLimiter_def)
  from assms(1) have "limiter_ok l s"
  proof induction
    case limiter_start
    then show ?case using own full by (auto simp: limiter_ok_def holders_of_def own_channels_def full_channels_def)
  qed (rule limiter_do_ok [OF own])
  then show ?thesis using assms(3) by (fastforce simp: limiter_ok_def)
qed

text \<open>A limit that is set again while slots are held is not kept: the old holder's release refills the new channel.\<close>

lemma limit_changed_in_use:
  "(let l1 = projr (SetLimit ''n'' 1 NewConcurrencyLimiter);
        s1 = the (run_limiter [Lookup ''a'' ''n'', TakeToken ''a''] \<lparr>ls_limiter = l1, ls_waiting = [], ls_holding = []\<rparr>);
        l2 = projr (SetLimit ''n'' 1 (ls_limiter s1))
    in map_option (holders_of ''n'') (run_limiter [Lookup ''b'' ''n'', TakeToken ''b'', ReleaseSlot ''a'', Lookup ''c'' ''n'', TakeToken ''c'']
         (s1\<lparr>ls_limiter := l2\<rparr>))) = Some 2"
  by code_simp

section \<open>Prioritised tasks\<close>

text \<open>The executor keeps the order of submission and does not look at the priorities.\<close>

record PriorityTask =
  PtOutcome :: outcome
  PtPriority :: int

record PriorityExecutor =
  pe_tasks :: "PriorityTask list"
  pe_buffer :: nat

definition NewPriorityExecutor :: "int \<Rightarrow> PriorityExecutor res" where
  "NewPriorityExecutor bufferSize =
     (if bufferSize < 0 then Inl (GoPanic ''makechan: size out of range'') else Inr \<lparr>pe_tasks = [], pe_buffer = nat bufferSize\<rparr>)"

definition pe_Submit :: "PriorityTask \<Rightarrow> PriorityExecutor \<Rightarrow> PriorityExecutor res" where
  "pe_Submit task e =
     (if length (pe_tasks e) < pe_buffer e then Inr (e\<lparr>pe_tasks := pe_tasks e @ [task]\<rparr>) else Inl (Errorf ''task queue full'' []))"

text \<open>One round of the loop of \<open>Execute\<close>: the next task in the channel is run and its result sent.\<close>

definition pe_next :: "PriorityExecutor \<Rightarrow> (PriorityExecutor \<times> gval \<times> gerr option \<times> int) option" where
  "pe_next e =
     (case pe_tasks e of
        [] \<Rightarrow> None
      | t # ts \<Rightarrow> Some (e\<lparr>pe_tasks := ts\<rparr>, fst (PtOutcome t), snd (PtOutcome t), PtPriority t))"

end
