(* ===== verification/State_Inspector.thy ===== *)
theory State_Inspector
  imports Engine_Run Memory_Saver Sample_Lib
begin

text \<open>
  Reading and changing the state of a thread from outside a run (\<open>graph/state_inspector.go\<close>): \<open>GetState\<close>,
  \<open>GetStateHistory\<close>, \<open>UpdateState\<close> and \<open>ForkThread\<close> over the checkpointer of a compiled graph. The stored checkpointer is an
  \<open>any\<close>: \<open>cast\<close> is its type assertion to \<open>BaseCheckpointer\<close>, whose operations work on a state of their own. The fields
  \<open>ParentConfig\<close>, \<open>Tasks\<close> and \<open>Interrupts\<close> of a snapshot are never set by the code and are left out. The locale \<open>inspectable\<close>
  extends the contract of a checkpointer by what listing and reading by identifier promise.
\<close>

section \<open>Operations\<close>

record 's inspector_ops = "'s checkpointer_ops" +
  op_List :: "'s \<Rightarrow> gval gomap \<Rightarrow> int \<Rightarrow> gval gomap list res"

record StateSnapshot =
  SsValues :: "gval gomap"
  SsNext :: "string list"
  SsConfig :: "RunnableConfig option"
  SsMetadata :: "gval gomap"
  SsCreatedAt :: int

record StateUpdate =
  SuValues :: "gval gomap"
  SuAsNode :: string
  SuCheckID :: string
  SuThreadID :: string

type_synonym ('cp, 's) cast = "'cp \<Rightarrow> 's inspector_ops option"

definition getCheckpointer :: "('cp, 's) cast \<Rightarrow> 'cp compiledGraph \<Rightarrow> 's inspector_ops res" where
  "getCheckpointer cast cg =
     (case cg_checkpointer cg of
        None \<Rightarrow> Inl (Errorf ''checkpointer is required'' [])
      | Some cp \<Rightarrow> (case cast cp of None \<Rightarrow> Inl (Errorf ''checkpointer is not a BaseCheckpointer'' []) | Some op \<Rightarrow> Inr op))"

definition configurable_of :: "RunnableConfig option \<Rightarrow> gval gomap option" where
  "configurable_of config = (case config of None \<Rightarrow> None | Some c \<Rightarrow> Configurable c)"

definition copy_key :: "gval gomap \<Rightarrow> string \<Rightarrow> gval gomap \<Rightarrow> gval gomap" where
  "copy_key src k dst = (case mget src k of Some v \<Rightarrow> mput k v dst | None \<Rightarrow> dst)"

definition buildCheckpointerConfig :: "RunnableConfig option \<Rightarrow> gval gomap" where
  "buildCheckpointerConfig config =
     (case configurable_of config of
        None \<Rightarrow> []
      | Some m \<Rightarrow> copy_key m ''checkpoint_ns'' (copy_key m ''checkpoint_id'' (copy_key m ''thread_id'' [])))"

definition extractMeta :: "gval gomap \<Rightarrow> gval gomap" where
  "extractMeta cpData =
     (let m1 = (case mget cpData ''__step__'' of Some v \<Rightarrow> [(''step'', v)] | None \<Rightarrow> [])
      in case mget cpData ''__last_completed_node__'' of Some v \<Rightarrow> mput ''last_completed_node'' v m1 | None \<Rightarrow> m1)"

definition determineNextFromCheckpoint :: "gval gomap \<Rightarrow> string list" where
  "determineNextFromCheckpoint cpData = []"

text \<open>The registry of the graph, restored from the entries of the checkpoint that are channels.\<close>

definition fresh_registry :: "channel gomap \<Rightarrow> registry" where
  "fresh_registry chans = fold (\<lambda>(name, ch) r. Registry_Register r name (ch_Copy ch)) chans NewRegistry"

definition snapshot_values :: "channel gomap \<Rightarrow> gval gomap \<Rightarrow> gval gomap res" where
  "snapshot_values chans cpData =
     (let registry = fresh_registry chans;
          filtered = filter (\<lambda>(key, val). Registry_Get registry key \<noteq> None) cpData;
          values = (\<lambda>r. case snd (Registry_GetValues r) of Inr vs \<Rightarrow> Inr vs | Inl e \<Rightarrow> Inr [])
      in if filtered = [] then values registry
         else case Registry_RestoreFromCheckpoint registry filtered of
                (r', Inr _) \<Rightarrow> values r'
              | (r', Inl e) \<Rightarrow> Inl (Errorf ''failed to restore from checkpoint: %w'' [e]))"

definition GetState ::
  "('cp, 's) cast \<Rightarrow> 'cp compiledGraph \<Rightarrow> int \<Rightarrow> 's \<Rightarrow> RunnableConfig option \<Rightarrow> StateSnapshot option res" where
  "GetState cast cg now s config =
     (case getCheckpointer cast cg of
        Inl e \<Rightarrow> Inl e
      | Inr op \<Rightarrow>
          (case op_Get op s (buildCheckpointerConfig config) of
             Inl e \<Rightarrow> Inl (Errorf ''failed to get checkpoint: %w'' [e])
           | Inr None \<Rightarrow> Inr None
           | Inr (Some cpData) \<Rightarrow>
               (case snapshot_values (sg_channels (cg_graph cg)) cpData of
                  Inl e \<Rightarrow> Inl e
                | Inr vs \<Rightarrow> Inr (Some \<lparr>SsValues = vs, SsNext = determineNextFromCheckpoint cpData, SsConfig = config,
                                     SsMetadata = extractMeta cpData, SsCreatedAt = now\<rparr>))))"

text \<open>\<open>GetStateHistory\<close>: the configuration of an entry is that of the call with the entry's identifier.\<close>

definition empty_config :: RunnableConfig where
  "empty_config = \<lparr>Configurable = None, RecursionLimit = 0, Tags = [], CfgMetadata = None, RunID = [], ThreadID = [],
     Durability = DurabilityUnset\<rparr>"

definition entry_config :: "RunnableConfig option \<Rightarrow> gval gomap \<Rightarrow> RunnableConfig" where
  "entry_config config entry =
     (let m = (case configurable_of config of Some m \<Rightarrow> mcopy [] m | None \<Rightarrow> []);
          cpID = (case cfg_string entry ''checkpoint_id'' of Some i \<Rightarrow> i | None \<Rightarrow> [])
      in empty_config\<lparr>Configurable := Some (if cpID \<noteq> [] then mput ''checkpoint_id'' (GStr cpID) m else m)\<rparr>)"

definition dress :: "gval gomap \<Rightarrow> StateSnapshot \<Rightarrow> StateSnapshot" where
  "dress entry snap =
     (let s1 = (case mget entry ''created_at'' of Some (GTime t) \<Rightarrow> snap\<lparr>SsCreatedAt := t\<rparr> | _ \<Rightarrow> snap)
      in case mget entry ''metadata'' of Some (GMap m) \<Rightarrow> s1\<lparr>SsMetadata := m\<rparr> | _ \<Rightarrow> s1)"

fun history_loop ::
  "('cp, 's) cast \<Rightarrow> 'cp compiledGraph \<Rightarrow> int \<Rightarrow> 's \<Rightarrow> RunnableConfig option \<Rightarrow> gval gomap list \<Rightarrow> StateSnapshot list" where
  "history_loop cast cg now s config [] = []"
| "history_loop cast cg now s config (entry # es) =
     (case GetState cast cg now s (Some (entry_config config entry)) of
        Inl e \<Rightarrow> history_loop cast cg now s config es
      | Inr None \<Rightarrow> history_loop cast cg now s config es
      | Inr (Some snap) \<Rightarrow> dress entry snap # history_loop cast cg now s config es)"

definition GetStateHistory ::
  "('cp, 's) cast \<Rightarrow> 'cp compiledGraph \<Rightarrow> int \<Rightarrow> 's \<Rightarrow> RunnableConfig option \<Rightarrow> int \<Rightarrow> RunnableConfig option \<Rightarrow> StateSnapshot list res" where
  "GetStateHistory cast cg now s config limit before =
     (case getCheckpointer cast cg of
        Inl e \<Rightarrow> Inl e
      | Inr op \<Rightarrow>
          (case op_List op s (buildCheckpointerConfig config) limit of
             Inl e \<Rightarrow> Inl (Errorf ''failed to list checkpoints: %w'' [e])
           | Inr entries \<Rightarrow> Inr (history_loop cast cg now s config entries)))"

text \<open>\<open>UpdateState\<close> and \<open>ForkThread\<close> return the changed store; \<open>uuid\<close> is the identifier the checkpointer draws if it needs one.\<close>

definition string_or_empty :: "gval gomap \<Rightarrow> string \<Rightarrow> string" where
  "string_or_empty m k = (case cfg_string m k of Some s \<Rightarrow> s | None \<Rightarrow> [])"

definition updated_config :: "RunnableConfig option \<Rightarrow> string \<Rightarrow> string \<Rightarrow> RunnableConfig" where
  "updated_config config newCPID newThreadID =
     (let m = (case configurable_of config of Some m \<Rightarrow> mcopy [] m | None \<Rightarrow> [])
      in NewRunnableConfig\<lparr>Configurable := Some (mput ''thread_id'' (GStr newThreadID) (mput ''checkpoint_id'' (GStr newCPID) m))\<rparr>)"

definition update_target :: "StateUpdate \<Rightarrow> RunnableConfig option \<Rightarrow> gval gomap" where
  "update_target update config =
     (let c = buildCheckpointerConfig config
      in if SuCheckID update \<noteq> [] then mput ''checkpoint_id'' (GStr (SuCheckID update)) c else c)"

definition UpdateState ::
  "('cp, 's) cast \<Rightarrow> 'cp compiledGraph \<Rightarrow> string \<Rightarrow> int \<Rightarrow> 's \<Rightarrow> RunnableConfig option \<Rightarrow> StateUpdate \<Rightarrow>
   's \<times> RunnableConfig option res" where
  "UpdateState cast cg uuid now s config update =
     (case getCheckpointer cast cg of
        Inl e \<Rightarrow> (s, Inl e)
      | Inr op \<Rightarrow>
          (let cpConfig = update_target update config
           in case op_Get op s cpConfig of
                Inl e \<Rightarrow> (s, Inl (Errorf ''failed to get checkpoint for update: %w'' [e]))
              | Inr None \<Rightarrow> (s, Inl (Errorf ''no checkpoint found for the given config'' []))
              | Inr (Some cpData) \<Rightarrow>
                  (let cpData' = mcopy cpData (SuValues update);
                       newThreadID = (if SuThreadID update \<noteq> [] then SuThreadID update else string_or_empty cpConfig ''thread_id'')
                   in if newThreadID = [] then (s, Inl (Errorf ''thread_id is required for UpdateState'' []))
                      else (case op_Put op uuid now s
                                   [(''thread_id'', GStr newThreadID),
                                    (''parent_checkpoint_id'', GStr (string_or_empty cpConfig ''checkpoint_id'')),
                                    (''checkpoint_id'', GStr [])] cpData' of
                              Inl e \<Rightarrow> (s, Inl (Errorf ''failed to save updated checkpoint: %w'' [e]))
                            | Inr s' \<Rightarrow>
                                (s', Inr (case op_List op s' [(''thread_id'', GStr newThreadID)] 1 of
                                   Inr (entry # es) \<Rightarrow> Some (updated_config config (string_or_empty entry ''checkpoint_id'') newThreadID)
                                 | _ \<Rightarrow> config))))))"

definition ForkThread ::
  "('cp, 's) cast \<Rightarrow> 'cp compiledGraph \<Rightarrow> string \<Rightarrow> int \<Rightarrow> 's \<Rightarrow> string \<Rightarrow> string \<Rightarrow> string \<Rightarrow> 's \<times> RunnableConfig res" where
  "ForkThread cast cg uuid now s sourceThreadID newThreadID sourceCheckpointID =
     (case getCheckpointer cast cg of
        Inl e \<Rightarrow> (s, Inl e)
      | Inr op \<Rightarrow>
          (let cpConfig = (''thread_id'', GStr sourceThreadID) #
                 (if sourceCheckpointID \<noteq> [] then [(''checkpoint_id'', GStr sourceCheckpointID)] else [])
           in case op_Get op s cpConfig of
                Inl e \<Rightarrow> (s, Inl (Errorf ''failed to get source checkpoint: %w'' [e]))
              | Inr None \<Rightarrow> (s, Inl (Errorf (''no checkpoint found for thread '' @ sourceThreadID) []))
              | Inr (Some cpData) \<Rightarrow>
                  (case op_Put op uuid now s [(''thread_id'', GStr newThreadID)] cpData of
                     Inl e \<Rightarrow> (s, Inl (Errorf ''failed to write forked checkpoint: %w'' [e]))
                   | Inr s' \<Rightarrow>
                       (s', Inr (case op_List op s' [(''thread_id'', GStr newThreadID)] 1 of
                          Inr (entry # es) \<Rightarrow>
                            (let newCPID = string_or_empty entry ''checkpoint_id'';
                                 m = [(''thread_id'', GStr newThreadID)]
                             in NewRunnableConfig\<lparr>Configurable :=
                                  Some (if newCPID \<noteq> [] then mput ''checkpoint_id'' (GStr newCPID) m else m)\<rparr>)
                        | _ \<Rightarrow> empty_config\<lparr>Configurable := Some [(''thread_id'', GStr newThreadID)]\<rparr>)))))"

lemmas inspector_defs = getCheckpointer_def configurable_of_def copy_key_def buildCheckpointerConfig_def string_or_empty_def
  cfg_string_def

section \<open>What listing and reading by identifier promise\<close>

text \<open>The identifier a save is stored under: that of the configuration, or the fresh one.\<close>

definition saved_id :: "string \<Rightarrow> gval gomap \<Rightarrow> string" where
  "saved_id i config = (case cfg_string config ''checkpoint_id'' of Some c \<Rightarrow> c | None \<Rightarrow> i)"

definition by_id_of :: "string \<Rightarrow> string \<Rightarrow> gval gomap \<Rightarrow> bool" where
  "by_id_of t c config \<longleftrightarrow> cfg_string config ''thread_id'' = Some t \<and> cfg_string config ''checkpoint_id'' = Some c"

locale inspectable = checkpointer new get put copy
  for new :: 's and get :: "'s \<Rightarrow> gval gomap \<Rightarrow> gval gomap option res"
    and put :: "string \<Rightarrow> int \<Rightarrow> 's \<Rightarrow> gval gomap \<Rightarrow> gval gomap \<Rightarrow> 's res"
    and copy :: "gval gomap \<Rightarrow> gval gomap" +
  fixes lst :: "'s \<Rightarrow> gval gomap \<Rightarrow> int \<Rightarrow> gval gomap list res"
  assumes put_list: "put i now s config cp = Inr s' \<Longrightarrow> cfg_string config ''thread_id'' = Some t \<Longrightarrow>
      cfg_string config' ''thread_id'' = Some t \<Longrightarrow>
      \<exists>e es. lst s' config' 1 = Inr (e # es) \<and> cfg_string e ''checkpoint_id'' = Some (saved_id i config)"
    and put_get_new_id: "put i now s config cp = Inr s' \<Longrightarrow> cfg_string config ''thread_id'' = Some t \<Longrightarrow>
      by_id_of t (saved_id i config) config' \<Longrightarrow> get s config' = Inl e \<Longrightarrow> get s' config' = Inr (Some (copy cp))"
    and put_get_old_id: "put i now s config cp = Inr s' \<Longrightarrow> by_id_of t c config' \<Longrightarrow> get s config' = Inr r \<Longrightarrow>
      get s' config' = Inr r"
begin

abbreviation ops :: "'s inspector_ops" where
  "ops \<equiv> \<lparr>op_Get = get, op_Put = put, op_List = lst\<rparr>"

lemma fork_reads_copy:
  assumes cp: "cg_checkpointer cg = Some cp" "cast cp = Some ops"
    and src: "get s ((''thread_id'', GStr t) # (if c \<noteq> [] then [(''checkpoint_id'', GStr c)] else [])) = Inr (Some d)"
    and new: "i \<noteq> []" "get s [(''thread_id'', GStr t2), (''checkpoint_id'', GStr i)] = Inl e"
  shows "\<exists>s' cfg. ForkThread cast cg i now s t t2 c = (s', Inr cfg) \<and>
    buildCheckpointerConfig (Some cfg) = [(''thread_id'', GStr t2), (''checkpoint_id'', GStr i)] \<and>
    get s' (buildCheckpointerConfig (Some cfg)) = Inr (Some (copy d)) \<and>
    (\<forall>config'. cfg_string config' ''thread_id'' \<noteq> Some t2 \<longrightarrow> get s' config' = get s config')"
proof -
  let ?new = "[(''thread_id'', GStr t2)]"
  have t2: "cfg_string ?new ''thread_id'' = Some t2" "saved_id i ?new = i" by (simp_all add: cfg_string_def saved_id_def)
  obtain s' where s': "put i now s ?new d = Inr s'" using put_ok [OF t2(1)] by blast
  obtain en es where en: "lst s' ?new 1 = Inr (en # es)" "cfg_string en ''checkpoint_id'' = Some i"
    using put_list [OF s' t2(1) t2(1)] t2(2) by auto
  have read: "get s' [(''thread_id'', GStr t2), (''checkpoint_id'', GStr i)] = Inr (Some (copy d))"
    by (rule put_get_new_id [OF s' t2(1) _ new(2)]) (simp add: by_id_of_def cfg_string_def saved_id_def)
  have other: "get s' config' = get s config'" if "cfg_string config' ''thread_id'' \<noteq> Some t2" for config'
    using put_get_other [OF s', of config'] t2(1) that by simp
  show ?thesis
    using s' en src read other cp new(1)
    by (simp add: ForkThread_def getCheckpointer_def Let_def string_or_empty_def buildCheckpointerConfig_def configurable_of_def copy_key_def)
qed

lemma update_reads:
  assumes cp: "cg_checkpointer cg = Some cp" "cast cp = Some ops"
    and src: "get s (update_target u config) = Inr (Some d)"
    and t: "t = (if SuThreadID u \<noteq> [] then SuThreadID u else string_or_empty (update_target u config) ''thread_id'')" "t \<noteq> []"
  shows "\<exists>s' cfg. UpdateState cast cg i now s config u = (s', Inr (Some cfg)) \<and>
    by_id_of t [] (buildCheckpointerConfig (Some cfg)) \<and>
    (\<forall>config'. latest_of t config' \<longrightarrow> get s' config' = Inr (Some (copy (mcopy d (SuValues u))))) \<and>
    (\<forall>config' e. by_id_of t [] config' \<and> get s config' = Inl e \<longrightarrow> get s' config' = Inr (Some (copy (mcopy d (SuValues u))))) \<and>
    (\<forall>config' r. by_id_of t [] config' \<and> get s config' = Inr r \<longrightarrow> get s' config' = Inr r) \<and>
    (\<forall>config'. cfg_string config' ''thread_id'' \<noteq> Some t \<longrightarrow> get s' config' = get s config')"
proof -
  let ?new = "[(''thread_id'', GStr t), (''parent_checkpoint_id'', GStr (string_or_empty (update_target u config) ''checkpoint_id'')),
      (''checkpoint_id'', GStr [])]"
  have tid: "cfg_string ?new ''thread_id'' = Some t" "saved_id i ?new = []" by (simp_all add: cfg_string_def saved_id_def)
  obtain s' where s': "put i now s ?new (mcopy d (SuValues u)) = Inr s'" using put_ok [OF tid(1)] by blast
  have "cfg_string [(''thread_id'', GStr t)] ''thread_id'' = Some t" by (simp add: cfg_string_def)
  from put_list [OF s' tid(1) this] obtain en es
    where en: "lst s' [(''thread_id'', GStr t)] 1 = Inr (en # es)" "cfg_string en ''checkpoint_id'' = Some []"
    using tid(2) by auto
  have upd: "UpdateState cast cg i now s config u = (s', Inr (Some (updated_config config [] t)))"
    using s' en src cp t by (simp add: UpdateState_def getCheckpointer_def Let_def string_or_empty_def)
  have "by_id_of t [] (buildCheckpointerConfig (Some (updated_config config [] t)))"
    by (simp add: by_id_of_def updated_config_def Let_def inspector_defs gomap split: option.splits)
  then show ?thesis
    using upd put_get [OF s' tid(1)] put_get_new_id [OF s' tid(1)] put_get_old_id [OF s'] put_get_other [OF s'] tid
    by (intro exI [of _ s'] exI [of _ "updated_config config [] t"] conjI allI impI) auto
qed

end

lemma ms_put_list:
  assumes "ms_Put L i now s config cp = Inr s'" and "cfg_string config ''thread_id'' = Some t"
    and "cfg_string config' ''thread_id'' = Some t"
  shows "\<exists>e es. ms_List L s' config' 1 = Inr (e # es) \<and> cfg_string e ''checkpoint_id'' = Some (saved_id i config)"
  using assms by (auto simp: ms_defs gomap saved_id_def list_entry_def cfg_string_def nth_append)

lemma ms_put_get_new_id:
  assumes "ms_Put L i now s config cp = Inr s'" and "cfg_string config ''thread_id'' = Some t"
    and "by_id_of t (saved_id i config) config'" and "ms_Get L s config' = Inl e"
  shows "ms_Get L s' config' = Inr (Some (deepCopyMap L (deepCopyMap L cp)))"
  using assms by (auto simp: ms_defs by_id_of_def saved_id_def gomap find_append split: option.splits)

lemma ms_put_get_old_id:
  assumes "ms_Put L i now s config cp = Inr s'" and "by_id_of t c config'" and "ms_Get L s config' = Inr r"
  shows "ms_Get L s' config' = Inr r"
  using assms by (auto simp: ms_defs by_id_of_def gomap find_append split: option.splits if_splits)

interpretation memory_inspect: inspectable NewMemorySaver "ms_Get L" "ms_Put L" "\<lambda>cp. deepCopyMap L (deepCopyMap L cp)" "ms_List L"
  for L
  by unfold_locales (fact ms_put_list ms_put_get_new_id ms_put_get_old_id)+

section \<open>Forks and updates\<close>

text \<open>The in-memory checkpointer as the checkpointer of a graph.\<close>

definition memory_inspector :: "golib \<Rightarrow> MemorySaver inspector_ops" where
  "memory_inspector L = \<lparr>op_Get = ms_Get L, op_Put = ms_Put L, op_List = ms_List L\<rparr>"

lemma ms_Get_copied:
  assumes "ms_Get L s config = Inr (Some d)"
  shows "\<exists>d0. d = deepCopyMap L d0"
  using assms by (auto simp: ms_defs split: option.splits if_splits)

text \<open>What \<open>GetState\<close> shows depends on the configuration only through the checkpoint it reads.\<close>

lemma GetState_read:
  assumes "cg_checkpointer cg = Some cp" and "cast cp = Some (memory_inspector L)"
    and "ms_Get L s (buildCheckpointerConfig config) = Inr (Some d)"
  shows "GetState cast cg now s config = (case snapshot_values (sg_channels (cg_graph cg)) d of
      Inl e \<Rightarrow> Inl e
    | Inr vs \<Rightarrow> Inr (Some \<lparr>SsValues = vs, SsNext = [], SsConfig = config, SsMetadata = extractMeta d, SsCreatedAt = now\<rparr>))"
  using assms by (simp add: GetState_def getCheckpointer_def memory_inspector_def determineNextFromCheckpoint_def split: sum.splits)

text \<open>A fork is a copy and nothing else. Forking the latest checkpoint of a thread into another thread succeeds, and the
  state read through the returned configuration has the values and the metadata the source thread shows; the state
  of every thread but the new one, the source included, is what it was.\<close>

theorem fork_thread_copies:
  assumes "json_lib L" and "cg_checkpointer cg = Some cp" and "cast cp = Some (memory_inspector L)"
    and "GetState cast cg now s (Some (NewRunnableConfig\<lparr>Configurable := Some [(''thread_id'', GStr t)]\<rparr>)) = Inr (Some snap)"
    and "uuid \<noteq> []" and "ms_Get L s [(''thread_id'', GStr t2), (''checkpoint_id'', GStr uuid)] = Inl e"
  shows "\<exists>s' cfg. ForkThread cast cg uuid now s t t2 [] = (s', Inr cfg) \<and>
    (\<exists>snap'. GetState cast cg now s' (Some cfg) = Inr (Some snap') \<and>
       SsValues snap' = SsValues snap \<and> SsMetadata snap' = SsMetadata snap) \<and>
    (\<forall>config. cfg_string (buildCheckpointerConfig config) ''thread_id'' \<noteq> Some t2 \<longrightarrow>
       GetState cast cg now s' config = GetState cast cg now s config)"
proof -
  let ?src = "Some (NewRunnableConfig\<lparr>Configurable := Some [(''thread_id'', GStr t)]\<rparr>)"
  have src: "buildCheckpointerConfig ?src = [(''thread_id'', GStr t)]" by (simp add: inspector_defs)
  obtain d where d: "ms_Get L s [(''thread_id'', GStr t)] = Inr (Some d)"
    using assms(2-4) src
    by (auto simp: GetState_def getCheckpointer_def memory_inspector_def split: sum.splits option.splits)
  have copied: "deepCopyMap L (deepCopyMap L d) = d" using ms_Get_copied [OF d] assms(1) by (auto simp: json)
  obtain s' cfg where fork: "ForkThread cast cg uuid now s t t2 [] = (s', Inr cfg)"
    and read: "ms_Get L s' (buildCheckpointerConfig (Some cfg)) = Inr (Some d)"
    and other: "\<forall>config'. cfg_string config' ''thread_id'' \<noteq> Some t2 \<longrightarrow> ms_Get L s' config' = ms_Get L s config'"
    using memory_inspect.fork_reads_copy [where cast = cast and L = L, OF assms(2) assms(3) [unfolded memory_inspector_def], of s t "[]" d uuid t2 e now]
      d assms(5,6) copied by auto
  have "\<exists>snap'. GetState cast cg now s' (Some cfg) = Inr (Some snap') \<and>
       SsValues snap' = SsValues snap \<and> SsMetadata snap' = SsMetadata snap"
    using GetState_read [where cast = cast and L = L, OF assms(2,3), of s ?src d now]
      GetState_read [where cast = cast and L = L, OF assms(2,3) read, of now] assms(4) d src
    by (auto split: sum.splits)
  moreover have "GetState cast cg now s' config = GetState cast cg now s config"
    if "cfg_string (buildCheckpointerConfig config) ''thread_id'' \<noteq> Some t2" for config
    using other that assms(2,3) by (simp add: GetState_def getCheckpointer_def memory_inspector_def)
  ultimately show ?thesis using fork by blast
qed

text \<open>A graph with one channel and a store whose thread \<open>a\<close> holds a value for it.\<close>

definition demo_graph :: "unit compiledGraph" where
  "demo_graph = \<lparr>cg_graph = AddChannel ''x'' (Some (CLastValue (NewLastValue GNil))) (NewStateGraph SNil),
     cg_checkpointer = Some (), cg_interrupts = [], cg_interruptsAfter = [], cg_recursionLimit = 10, cg_debug = False,
     cg_nodeTriggerMode = NodeTriggerAnyPredecessor\<rparr>"

definition demo_cast :: "(unit, MemorySaver) cast" where
  "demo_cast cp = Some (memory_inspector sample_lib)"

definition demo_store :: MemorySaver where
  "demo_store = projr (ms_Put sample_lib ''c1'' 0 NewMemorySaver [(''thread_id'', GStr ''a'')] [(''x'', GBool True)])"

definition thread_a :: "RunnableConfig option" where
  "thread_a = Some (NewRunnableConfig\<lparr>Configurable := Some [(''thread_id'', GStr ''a'')]\<rparr>)"

text \<open>C33: What an update of the state does. It adds a checkpoint with the updated entries to the thread, which is from then
  on the latest one, and leaves the other threads alone. But every checkpoint an update makes has the empty
  identifier, and the returned configuration asks for it: that of the first update of a thread reads the
  updated state, that of any later one still reads what the first update made.\<close>

theorem update_state_outcome:
  assumes "json_lib L" and "cg_checkpointer cg = Some cp" and "cast cp = Some (memory_inspector L)"
    and "ms_Get L s (update_target u config) = Inr (Some d)" and "gomap_ok (SuValues u)"
    and "t = (if SuThreadID u \<noteq> [] then SuThreadID u else string_or_empty (update_target u config) ''thread_id'')" and "t \<noteq> []"
  shows "\<exists>s' cfg new. UpdateState cast cg uuid now s config u = (s', Inr (Some cfg)) \<and>
    (\<forall>k. mget new k = (case mget (SuValues u) k of Some v \<Rightarrow> Some (deepCopy L v) | None \<Rightarrow> mget d k)) \<and>
    (\<forall>config'. latest_of t config' \<longrightarrow> ms_Get L s' config' = Inr (Some new)) \<and>
    (\<forall>config'. cfg_string config' ''thread_id'' \<noteq> Some t \<longrightarrow> ms_Get L s' config' = ms_Get L s config') \<and>
    (\<forall>e. ms_Get L s (buildCheckpointerConfig (Some cfg)) = Inl e \<longrightarrow>
       ms_Get L s' (buildCheckpointerConfig (Some cfg)) = Inr (Some new)) \<and>
    (\<forall>first. ms_Get L s (buildCheckpointerConfig (Some cfg)) = Inr first \<longrightarrow>
       ms_Get L s' (buildCheckpointerConfig (Some cfg)) = Inr first)"
proof -
  obtain s' cfg where upd: "UpdateState cast cg uuid now s config u = (s', Inr (Some cfg))"
    and cfg: "by_id_of t [] (buildCheckpointerConfig (Some cfg))"
    and reads: "\<forall>config'. latest_of t config' \<longrightarrow> ms_Get L s' config' = Inr (Some (deepCopyMap L (deepCopyMap L (mcopy d (SuValues u)))))"
      "\<forall>config' e. by_id_of t [] config' \<and> ms_Get L s config' = Inl e \<longrightarrow>
         ms_Get L s' config' = Inr (Some (deepCopyMap L (deepCopyMap L (mcopy d (SuValues u)))))"
      "\<forall>config' r. by_id_of t [] config' \<and> ms_Get L s config' = Inr r \<longrightarrow> ms_Get L s' config' = Inr r"
      "\<forall>config'. cfg_string config' ''thread_id'' \<noteq> Some t \<longrightarrow> ms_Get L s' config' = ms_Get L s config'"
    using memory_inspect.update_reads [where cast = cast and L = L, OF assms(2) assms(3) [unfolded memory_inspector_def] assms(4,6,7), of uuid now] by blast
  obtain d0 where d0: "d = deepCopyMap L d0" using ms_Get_copied [OF assms(4)] by blast
  have new: "mget (deepCopyMap L (deepCopyMap L (mcopy d (SuValues u)))) k =
      (case mget (SuValues u) k of Some v \<Rightarrow> Some (deepCopy L v) | None \<Rightarrow> mget d k)" for k
    using assms(1,5) by (auto simp: d0 json mget_mcopy map_add_def option.map_comp comp_def split: option.splits)
  show ?thesis using upd cfg reads new by blast
qed

lemma demo_read: "GetState demo_cast demo_graph 1 demo_store thread_a =
    Inr (Some \<lparr>SsValues = [(''x'', GBool True)], SsNext = [], SsConfig = thread_a, SsMetadata = [], SsCreatedAt = 1\<rparr>)"
  by code_simp

theorem fork_thread_copies_witness:
  "\<exists>s' cfg snap. ForkThread demo_cast demo_graph ''c2'' 1 demo_store ''a'' ''b'' [] = (s', Inr cfg) \<and>
     GetState demo_cast demo_graph 1 s' (Some cfg) = Inr (Some snap) \<and> SsValues snap = [(''x'', GBool True)]"
proof -
  have missing: "ms_Get sample_lib demo_store [(''thread_id'', GStr ''b''), (''checkpoint_id'', GStr ''c2'')] =
      Inl (Errorf (''checkpoint not found: c2'') [])"
    by code_simp
  from fork_thread_copies [where cast = demo_cast and cg = demo_graph and s = demo_store, OF sample_json_lib _ _ demo_read [unfolded thread_a_def] _ missing]
  show ?thesis by (auto simp: demo_graph_def demo_cast_def)
qed

definition set_x :: "bool \<Rightarrow> StateUpdate" where
  "set_x b = \<lparr>SuValues = [(''x'', GBool b)], SuAsNode = [], SuCheckID = [], SuThreadID = []\<rparr>"

definition demo_updated :: MemorySaver where
  "demo_updated = fst (UpdateState demo_cast demo_graph ''c2'' 2 demo_store thread_a (set_x False))"

theorem update_state_outcome_witness:
  "\<exists>s' cfg. UpdateState demo_cast demo_graph ''c3'' 3 demo_updated thread_a (set_x True) = (s', Inr (Some cfg)) \<and>
     ms_Get sample_lib s' [(''thread_id'', GStr ''a'')] = Inr (Some [(''x'', GBool True)]) \<and>
     ms_Get sample_lib s' (buildCheckpointerConfig (Some cfg)) = Inr (Some [(''x'', GBool False)])"
proof -
  let ?u = "updated_config thread_a [] ''a''"
  have d: "ms_Get sample_lib demo_updated (update_target (set_x True) thread_a) = Inr (Some [(''x'', GBool False)])"
    and t: "''a'' = (if SuThreadID (set_x True) \<noteq> [] then SuThreadID (set_x True)
      else string_or_empty (update_target (set_x True) thread_a) ''thread_id'')"
    and cfg: "snd (UpdateState demo_cast demo_graph ''c3'' 3 demo_updated thread_a (set_x True)) = Inr (Some ?u)"
    and first: "ms_Get sample_lib demo_updated (buildCheckpointerConfig (Some ?u)) = Inr (Some [(''x'', GBool False)])"
    and latest: "ms_Get sample_lib (fst (UpdateState demo_cast demo_graph ''c3'' 3 demo_updated thread_a (set_x True))) [(''thread_id'', GStr ''a'')] =
      Inr (Some [(''x'', GBool True)])"
    by code_simp+
  from update_state_outcome [where cast = demo_cast and cg = demo_graph and uuid = "''c3''" and now = 3, OF sample_json_lib _ _ d _ t]
  obtain s' cfg where "UpdateState demo_cast demo_graph ''c3'' 3 demo_updated thread_a (set_x True) = (s', Inr (Some cfg))"
    and "\<forall>first. ms_Get sample_lib demo_updated (buildCheckpointerConfig (Some cfg)) = Inr first \<longrightarrow>
       ms_Get sample_lib s' (buildCheckpointerConfig (Some cfg)) = Inr first"
    by (auto simp: demo_graph_def demo_cast_def set_x_def gomap_ok_def)
  then show ?thesis using cfg first latest by auto
qed

end
