(* ===== verification/Subgraphs.thy ===== *)
theory Subgraphs
  imports Engine_Run Sample_Lib
begin

text \<open>
  Subgraphs. \<open>graph/compiled.go\<close>: compiled graphs that form a tree by pointers to their subgraphs and their parent, with
  checkpoint namespaces and the maps that relate checkpoints of a parent and a subgraph. The graphs live in an explicit
  store, a list whose indices are the addresses; an allocation appends. \<open>pregel/subgraph.go\<close>: the manager of
  subgraph engines with its stack of namespaces, and the view of a registry restricted to a namespace.
\<close>

section \<open>The store of compiled graphs\<close>

record 'cp CompiledStateGraph =
  cs_graph :: "'cp compiledGraph"
  cs_subgraphs :: "nat gomap"
  cs_parent :: "nat option"
  cs_namespace :: string
  cs_checkpointMap :: "string gomap"

type_synonym 'cp graphs = "'cp CompiledStateGraph list"

definition NSSep :: string where "NSSep = ''|''"
definition NSEnd :: string where "NSEnd = '':''"

text \<open>The argument of \<open>NewCompiledStateGraph\<close> by its dynamic type.\<close>

datatype 'cp any_graph = BaseGraph "'cp compiledGraph" | StateGraphAt nat | OtherGraph

definition NewCompiledStateGraph :: "'cp any_graph \<Rightarrow> 'cp graphs \<Rightarrow> ('cp graphs \<times> nat) res" where
  "NewCompiledStateGraph base h =
     (case base of
        BaseGraph v \<Rightarrow> Inr (h @ [\<lparr>cs_graph = v, cs_subgraphs = [], cs_parent = None, cs_namespace = [], cs_checkpointMap = []\<rparr>], length h)
      | StateGraphAt a \<Rightarrow> Inr (h, a)
      | OtherGraph \<Rightarrow> Inl (GoPanic ''NewCompiledStateGraph requires *compiledGraph or *CompiledStateGraph''))"

definition buildSubgraphNamespace :: "string \<Rightarrow> string \<Rightarrow> string" where
  "buildSubgraphNamespace parentNS subgraphName = (if parentNS = [] then subgraphName else parentNS @ NSSep @ subgraphName)"

definition buildTaskPath :: "string \<Rightarrow> string \<Rightarrow> string" where
  "buildTaskPath namespace subgraphName =
     (if namespace = [] then subgraphName @ NSEnd else namespace @ NSSep @ subgraphName @ NSEnd)"

definition generateCheckpointID :: "string \<Rightarrow> string" where
  "generateCheckpointID uuid = ''ckp_'' @ uuid"

text \<open>\<open>subgraph\<close> is \<open>None\<close> when it is not a \<open>*stateGraph\<close>.\<close>

definition AddSubgraph :: "golib \<Rightarrow> nat \<Rightarrow> string \<Rightarrow> stateGraph option \<Rightarrow> 'cp graphs \<Rightarrow> 'cp graphs \<times> unit res" where
  "AddSubgraph L c name subgraph h =
     (if mget (cs_subgraphs (h ! c)) name \<noteq> None then (h, Inl (Errorf (''subgraph '' @ name @ '' already exists'') []))
      else case subgraph of
             None \<Rightarrow> (h, Inl (Errorf ''subgraph type does not support Compile'' []))
           | Some sg \<Rightarrow>
               (case Compile L [] sg of
                  Inl err \<Rightarrow> (h, Inl (Errorf (''failed to compile subgraph '' @ name @ '': %w'') [err]))
                | Inr compiled \<Rightarrow>
                    (let child = \<lparr>cs_graph = compiled, cs_subgraphs = [], cs_parent = Some c,
                                  cs_namespace = buildSubgraphNamespace (cs_namespace (h ! c)) name, cs_checkpointMap = []\<rparr>
                     in (h[c := (h ! c)\<lparr>cs_subgraphs := mput name (length h) (cs_subgraphs (h ! c))\<rparr>] @ [child], Inr ()))))"

definition GetSubgraph :: "'cp graphs \<Rightarrow> nat \<Rightarrow> string \<Rightarrow> nat option" where
  "GetSubgraph h c name = mget (cs_subgraphs (h ! c)) name"

definition GetSubgraphs :: "'cp graphs \<Rightarrow> nat \<Rightarrow> nat gomap" where
  "GetSubgraphs h c = mcopy [] (cs_subgraphs (h ! c))"

definition GetNamespace :: "'cp graphs \<Rightarrow> nat \<Rightarrow> string" where
  "GetNamespace h c = cs_namespace (h ! c)"

definition GetParent :: "'cp graphs \<Rightarrow> nat \<Rightarrow> nat option" where
  "GetParent h c = cs_parent (h ! c)"

definition IsRoot :: "'cp graphs \<Rightarrow> nat \<Rightarrow> bool" where
  "IsRoot h c \<longleftrightarrow> cs_parent (h ! c) = None"

definition GetCheckpointMap :: "'cp graphs \<Rightarrow> nat \<Rightarrow> string gomap" where
  "GetCheckpointMap h c = mcopy [] (cs_checkpointMap (h ! c))"

text \<open>The configuration \<open>Invoke\<close> and \<open>Stream\<close> hand to the base graph: the caller's own, with the namespace written into it.\<close>

definition namespaced_config :: "'cp graphs \<Rightarrow> nat \<Rightarrow> RunnableConfig option \<Rightarrow> RunnableConfig" where
  "namespaced_config h c config =
     (let rc = (case config of Some rc \<Rightarrow> rc
                | None \<Rightarrow> \<lparr>Configurable = None, RecursionLimit = 0, Tags = [], CfgMetadata = None, RunID = [], ThreadID = [], Durability = DurabilityUnset\<rparr>)
      in Config_Set ''checkpoint_ns'' (GStr (cs_namespace (h ! c))) rc)"

definition set_mapping :: "nat \<Rightarrow> string \<Rightarrow> string \<Rightarrow> 'cp graphs \<Rightarrow> 'cp graphs" where
  "set_mapping a k v h = h[a := (h ! a)\<lparr>cs_checkpointMap := mput k v (cs_checkpointMap (h ! a))\<rparr>]"

definition MigrateCheckpoint :: "string \<Rightarrow> nat \<Rightarrow> string \<Rightarrow> string \<Rightarrow> 'cp graphs \<Rightarrow> 'cp graphs \<times> string res" where
  "MigrateCheckpoint uuid c checkpointID toSubgraph h =
     (if toSubgraph = [] then
        (case cs_parent (h ! c) of
           None \<Rightarrow> (h, Inl (Errorf ''no parent graph to migrate to'' []))
         | Some p \<Rightarrow> (case mget (cs_checkpointMap (h ! c)) checkpointID of
               None \<Rightarrow> (h, Inl (Errorf (''no parent checkpoint mapping found for '' @ checkpointID) []))
             | Some parentCheckpointID \<Rightarrow> (h, Inr parentCheckpointID)))
      else (case mget (cs_subgraphs (h ! c)) toSubgraph of
              None \<Rightarrow> (h, Inl (Errorf (''subgraph '' @ toSubgraph @ '' not found'') []))
            | Some s \<Rightarrow>
                (let newCheckpointID = generateCheckpointID uuid
                 in (set_mapping c checkpointID newCheckpointID (set_mapping s newCheckpointID checkpointID h), Inr newCheckpointID))))"

section \<open>The tree of graphs\<close>

text \<open>Children know their parent and their namespace, and lie behind it in the store, so that the pointers form a forest.\<close>

definition child_ok :: "'cp graphs \<Rightarrow> nat \<Rightarrow> string \<Rightarrow> nat \<Rightarrow> bool" where
  "child_ok h c name s \<longleftrightarrow> c < s \<and> s < length h \<and> cs_parent (h ! s) = Some c \<and>
     cs_namespace (h ! s) = buildSubgraphNamespace (cs_namespace (h ! c)) name"

definition graphs_ok :: "'cp graphs \<Rightarrow> bool" where
  "graphs_ok h \<longleftrightarrow> (\<forall>c < length h. gomap_ok (cs_subgraphs (h ! c)) \<and>
     (\<forall>name s. mget (cs_subgraphs (h ! c)) name = Some s \<longrightarrow> child_ok h c name s) \<and>
     (\<forall>p. cs_parent (h ! c) = Some p \<longrightarrow> p < c \<and> (\<exists>name. mget (cs_subgraphs (h ! p)) name = Some c)))"

lemma graphs_ok_append:
  assumes "graphs_ok h" and "cs_subgraphs g = []" and "cs_parent g = None"
  shows "graphs_ok (h @ [g])"
proof -
  have old: "(h @ [g]) ! i = h ! i" if "i < length h" for i using that by (simp add: nth_append)
  have child: "child_ok (h @ [g]) c n s" if "c < length h" "child_ok h c n s" for c n s
    using that by (auto simp: child_ok_def nth_append)
  show ?thesis
    unfolding graphs_ok_def
  proof (intro allI impI)
    fix c
    assume c: "c < length (h @ [g])"
    show "gomap_ok (cs_subgraphs ((h @ [g]) ! c)) \<and>
      (\<forall>name s. mget (cs_subgraphs ((h @ [g]) ! c)) name = Some s \<longrightarrow> child_ok (h @ [g]) c name s) \<and>
      (\<forall>p. cs_parent ((h @ [g]) ! c) = Some p \<longrightarrow> p < c \<and> (\<exists>name. mget (cs_subgraphs ((h @ [g]) ! p)) name = Some c))"
    proof (cases "c = length h")
      case False
      then have "c < length h" using c by simp
      then show ?thesis using assms(1) old child by (fastforce simp: graphs_ok_def)
    qed (simp add: assms)
  qed
qed

lemma graphs_ok_new: "graphs_ok h \<Longrightarrow> NewCompiledStateGraph base h = Inr (h', a) \<Longrightarrow> graphs_ok h'"
  by (cases base) (auto simp: NewCompiledStateGraph_def intro: graphs_ok_append)

lemma graphs_ok_add:
  assumes "graphs_ok h" and "c < length h" and "AddSubgraph L c name subgraph h = (h', r)"
  shows "graphs_ok h'"
proof (cases r)
  case (Inl e)
  then have "h' = h" using assms(3) by (auto simp: AddSubgraph_def Let_def split: if_splits option.splits sum.splits)
  then show ?thesis using assms(1) by simp
next
  case (Inr u)
  then obtain compiled where new: "mget (cs_subgraphs (h ! c)) name = None"
    and h': "h' = h[c := (h ! c)\<lparr>cs_subgraphs := mput name (length h) (cs_subgraphs (h ! c))\<rparr>] @
      [\<lparr>cs_graph = compiled, cs_subgraphs = [], cs_parent = Some c,
        cs_namespace = buildSubgraphNamespace (cs_namespace (h ! c)) name, cs_checkpointMap = []\<rparr>]"
    using assms(3) by (auto simp: AddSubgraph_def Let_def split: if_splits option.splits sum.splits)
  have old: "cs_namespace (h' ! i) = cs_namespace (h ! i)" "cs_parent (h' ! i) = cs_parent (h ! i)"
    "cs_subgraphs (h' ! i) = (if i = c then mput name (length h) (cs_subgraphs (h ! c)) else cs_subgraphs (h ! i))"
    if "i < length h" for i
    using that by (cases "i = c"; simp add: h' nth_append)+
  have fresh: "h' ! length h = \<lparr>cs_graph = compiled, cs_subgraphs = [], cs_parent = Some c,
      cs_namespace = buildSubgraphNamespace (cs_namespace (h ! c)) name, cs_checkpointMap = []\<rparr>" "length h' = Suc (length h)"
    by (simp_all add: h' nth_append)
  have keep: "child_ok h' d n s" if "d < length h" "child_ok h d n s" for d n s
    using that old fresh by (auto simp: child_ok_def)
  show ?thesis
    unfolding graphs_ok_def
  proof (intro allI impI conjI)
    fix d
    assume d: "d < length h'"
    show "gomap_ok (cs_subgraphs (h' ! d))"
      using d assms(1,2) old fresh by (cases "d = length h") (auto simp: graphs_ok_def)
    show "child_ok h' d n s" if "mget (cs_subgraphs (h' ! d)) n = Some s" for n s
    proof (cases "d = c \<and> n = name")
      case True
      then show ?thesis using that assms(2) old fresh by (auto simp: child_ok_def gomap)
    next
      case False
      then have "d < length h \<and> mget (cs_subgraphs (h ! d)) n = Some s"
        using that d old fresh by (cases "d = length h") (auto simp: gomap split: if_splits)
      then show ?thesis using assms(1) keep by (auto simp: graphs_ok_def)
    qed
    show "p < d" if "cs_parent (h' ! d) = Some p" for p
      using that d assms(1,2) old fresh by (cases "d = length h") (auto simp: graphs_ok_def)
    show "\<exists>n. mget (cs_subgraphs (h' ! p)) n = Some d" if "cs_parent (h' ! d) = Some p" for p
    proof (cases "d = length h")
      case True
      then show ?thesis using that assms(2) old fresh by (auto simp: gomap)
    next
      case False
      then have dl: "d < length h" using d fresh by simp
      then have "cs_parent (h ! d) = Some p" using that old by simp
      then obtain n where n: "p < d" "mget (cs_subgraphs (h ! p)) n = Some d"
        using assms(1) [unfolded graphs_ok_def, rule_format, OF dl] by blast
      then have "mget (cs_subgraphs (h' ! p)) n = Some d" using dl old new by (auto simp: gomap)
      then show ?thesis by blast
    qed
  qed
qed

lemma set_mapping_nth:
  "set_mapping a k v h ! i = (if i = a \<and> a < length h then (h ! a)\<lparr>cs_checkpointMap := mput k v (cs_checkpointMap (h ! a))\<rparr> else h ! i)"
  by (cases "a < length h") (simp_all add: set_mapping_def nth_list_update list_update_beyond)

lemma set_mapping_fields [simp]:
  "cs_subgraphs (set_mapping a k v h ! i) = cs_subgraphs (h ! i)" "cs_parent (set_mapping a k v h ! i) = cs_parent (h ! i)"
  "cs_namespace (set_mapping a k v h ! i) = cs_namespace (h ! i)" "length (set_mapping a k v h) = length h"
  by (simp_all add: set_mapping_nth) (simp add: set_mapping_def)

lemma graphs_ok_mapping [simp]: "graphs_ok (set_mapping a k v h) = graphs_ok h"
  by (simp only: graphs_ok_def child_ok_def set_mapping_fields)

lemma graphs_ok_migrate: "graphs_ok h \<Longrightarrow> MigrateCheckpoint uuid c cp sub h = (h', r) \<Longrightarrow> graphs_ok h'"
  by (auto simp: MigrateCheckpoint_def Let_def split: if_splits option.splits)

text \<open>The stores that the operations reach.\<close>

inductive graphs_reach :: "golib \<Rightarrow> 'cp graphs \<Rightarrow> bool" for L where
  reach_empty: "graphs_reach L []"
| reach_new: "graphs_reach L h \<Longrightarrow> NewCompiledStateGraph base h = Inr (h', a) \<Longrightarrow> graphs_reach L h'"
| reach_add: "graphs_reach L h \<Longrightarrow> c < length h \<Longrightarrow> AddSubgraph L c name subgraph h = (h', r) \<Longrightarrow> graphs_reach L h'"
| reach_migrate: "graphs_reach L h \<Longrightarrow> c < length h \<Longrightarrow> MigrateCheckpoint uuid c cp sub h = (h', r2) \<Longrightarrow> graphs_reach L h'"

lemma graphs_reach_ok: "graphs_reach L h \<Longrightarrow> graphs_ok h"
proof (induction rule: graphs_reach.induct)
  case reach_empty
  then show ?case by (simp add: graphs_ok_def)
qed (auto intro: graphs_ok_new graphs_ok_add graphs_ok_migrate)

text \<open>C34: Migrating a checkpoint to a subgraph and back. In every reachable store a subgraph knows its parent and its namespace
  is the parent's with its own name; a checkpoint migrated to it gets a new identifier, and migrating this
  identifier back gives the original one, no other graph being touched. But the same map of a graph in the
  middle of the tree also holds the way to its own parent: after the migration, going from the
  checkpoint to the parent graph leads to the identifier of the subgraph's checkpoint.\<close>

theorem subgraph_migration:
  assumes "graphs_reach L h" and "c < length h" and "GetSubgraph h c sub = Some s" and "sub \<noteq> []"
    and "MigrateCheckpoint uuid c cp sub h = (h', Inr n)"
  shows "GetParent h' s = Some c \<and> GetNamespace h' s = buildSubgraphNamespace (GetNamespace h' c) sub \<and>
    MigrateCheckpoint uuid2 s n [] h' = (h', Inr cp) \<and>
    (\<forall>a. a \<noteq> c \<and> a \<noteq> s \<longrightarrow> h' ! a = h ! a) \<and>
    (\<forall>p. GetParent h c = Some p \<longrightarrow> MigrateCheckpoint uuid2 c cp [] h' = (h', Inr n))"
proof -
  have child: "child_ok h c sub s"
    using graphs_reach_ok [OF assms(1)] assms(2,3) by (auto simp: graphs_ok_def GetSubgraph_def)
  then have s: "c < s" "s < length h" by (auto simp: child_ok_def)
  have h': "h' = set_mapping c cp n (set_mapping s n cp h)"
    using assms(3-5) by (auto simp: MigrateCheckpoint_def GetSubgraph_def Let_def)
  have at: "h' ! s = (h ! s)\<lparr>cs_checkpointMap := mput n cp (cs_checkpointMap (h ! s))\<rparr>"
    "h' ! c = (h ! c)\<lparr>cs_checkpointMap := mput cp n (cs_checkpointMap (h ! c))\<rparr>"
    "a \<noteq> c \<Longrightarrow> a \<noteq> s \<Longrightarrow> h' ! a = h ! a" for a
    using s assms(2) by (simp_all add: h' set_mapping_def)
  show ?thesis
    using child by (simp add: at GetParent_def GetNamespace_def child_ok_def MigrateCheckpoint_def gomap)
qed

text \<open>A root graph with a subgraph \<open>a\<close> that has a subgraph \<open>b\<close>; the checkpoint \<open>p\<close> of the root migrates down to both.\<close>

definition leaf_graph :: stateGraph where
  "leaf_graph = (NewStateGraph (SValue 0 (SMap TString)))\<lparr>sg_nodes := [(''n'', new_node ''n'' None)], sg_entryPoint := ''n'', sg_finishPoints := [''n'']\<rparr>"

definition nested :: "unit graphs" where
  "nested = (let h0 = fst (projr (NewCompiledStateGraph (BaseGraph (projr (Compile sample_lib [] leaf_graph))) []));
                 h1 = fst (AddSubgraph sample_lib 0 ''a'' (Some leaf_graph) h0);
                 h2 = fst (AddSubgraph sample_lib 1 ''b'' (Some leaf_graph) h1)
             in fst (MigrateCheckpoint ''1'' 0 ''p'' ''a'' h2))"

lemma nested_reach: "graphs_reach sample_lib nested"
proof -
  let ?h0 = "fst (projr (NewCompiledStateGraph (BaseGraph (projr (Compile sample_lib [] leaf_graph))) [])) :: unit graphs"
  let ?h1 = "fst (AddSubgraph sample_lib 0 ''a'' (Some leaf_graph) ?h0)"
  let ?h2 = "fst (AddSubgraph sample_lib 1 ''b'' (Some leaf_graph) ?h1)"
  have len: "0 < length ?h0" "1 < length ?h1" "0 < length ?h2" by code_simp+
  have "graphs_reach sample_lib ?h0"
    by (rule reach_new [OF reach_empty, of "BaseGraph (projr (Compile sample_lib [] leaf_graph))" _ 0]) (simp add: NewCompiledStateGraph_def)
  then have "graphs_reach sample_lib ?h1"
    by (rule reach_add [OF _ len(1)]) (rule prod.collapse [symmetric])
  then have "graphs_reach sample_lib ?h2"
    by (rule reach_add [OF _ len(2)]) (rule prod.collapse [symmetric])
  then show ?thesis
    unfolding nested_def Let_def by (rule reach_migrate [OF _ len(3)]) (rule prod.collapse [symmetric])
qed

theorem subgraph_migration_witness:
  "MigrateCheckpoint ''3'' 1 ''ckp_1'' [] nested = (nested, Inr ''p'') \<and>
   (\<exists>h'. MigrateCheckpoint ''2'' 1 ''ckp_1'' ''b'' nested = (h', Inr ''ckp_2'') \<and>
      MigrateCheckpoint ''3'' 2 ''ckp_2'' [] h' = (h', Inr ''ckp_1'') \<and>
      MigrateCheckpoint ''3'' 1 ''ckp_1'' [] h' = (h', Inr ''ckp_2''))"
proof -
  let ?m = "MigrateCheckpoint ''2'' 1 ''ckp_1'' ''b'' nested"
  have eval: "1 < length nested" "GetSubgraph nested 1 ''b'' = Some 2" "snd ?m = Inr ''ckp_2''" "GetParent nested 1 = Some 0"
    "snd (MigrateCheckpoint ''3'' 1 ''ckp_1'' [] nested) = Inr ''p''"
    by code_simp+
  then have m: "?m = (fst ?m, Inr ''ckp_2'')" by (metis prod.collapse)
  have up: "fst (MigrateCheckpoint ''3'' 1 ''ckp_1'' [] nested) = nested" by (simp add: MigrateCheckpoint_def split: option.splits)
  from subgraph_migration [OF nested_reach eval(1,2) _ m, of "''3''"] m eval(4)
  show ?thesis using eval(5) up by (metis list.distinct(1) prod.collapse)
qed

section \<open>The subgraph manager\<close>

text \<open>\<open>sm_parent\<close> and the engines of the subgraphs are the engines themselves; \<open>None\<close> in \<open>SubgraphConfig\<close> is a graph that is not a state graph.\<close>

record SubgraphManager =
  sm_parent :: Engine
  sm_subgraphs :: "Engine gomap"
  sm_namespaceStack :: "string list"
  sm_checkpointNS :: "string gomap"

record SubgraphConfig =
  SgName :: string
  SgGraph :: "stateGraph option"

definition NewSubgraphManager :: "Engine \<Rightarrow> SubgraphManager" where
  "NewSubgraphManager parentEngine =
     \<lparr>sm_parent = parentEngine, sm_subgraphs = [], sm_namespaceStack = [], sm_checkpointNS = []\<rparr>"

definition CreateSubgraph :: "SubgraphConfig \<Rightarrow> SubgraphManager \<Rightarrow> SubgraphManager \<times> Engine res" where
  "CreateSubgraph config m =
     (if mget (sm_subgraphs m) (SgName config) \<noteq> None
      then (m, Inl (Errorf (''subgraph '' @ SgName config @ '' already exists'') []))
      else let e = (case SgGraph config of
                      Some sg \<Rightarrow> NewEngine sg (case en_config (sm_parent m) of None \<Rightarrow> [] | Some c \<Rightarrow> [Engine_WithConfig (Some c)])
                    | None \<Rightarrow> sm_parent m)
           in (m\<lparr>sm_subgraphs := mput (SgName config) e (sm_subgraphs m)\<rparr>, Inr e))"

definition Manager_GetSubgraph :: "SubgraphManager \<Rightarrow> string \<Rightarrow> Engine option" where
  "Manager_GetSubgraph m name = mget (sm_subgraphs m) name"

definition PushNamespace :: "string \<Rightarrow> SubgraphManager \<Rightarrow> SubgraphManager" where
  "PushNamespace ns m = m\<lparr>sm_namespaceStack := sm_namespaceStack m @ [ns]\<rparr>"

definition PopNamespace :: "SubgraphManager \<Rightarrow> SubgraphManager" where
  "PopNamespace m = m\<lparr>sm_namespaceStack := butlast (sm_namespaceStack m)\<rparr>"

definition CurrentNamespace :: "SubgraphManager \<Rightarrow> string" where
  "CurrentNamespace m = (if sm_namespaceStack m = [] then [] else last (sm_namespaceStack m))"

fun join :: "string \<Rightarrow> string list \<Rightarrow> string" where
  "join sep [] = []"
| "join sep [x] = x"
| "join sep (x # xs) = x @ sep @ join sep xs"

definition BuildNamespacePath :: "SubgraphManager \<Rightarrow> string" where
  "BuildNamespacePath m = join NSSep (sm_namespaceStack m)"

text \<open>The node function runs between the push and the pop: \<open>call\<close> is what it does to the manager, and its result.\<close>

definition ExecuteInSubgraph ::
  "(node_fn \<Rightarrow> gval \<Rightarrow> SubgraphManager \<Rightarrow> SubgraphManager \<times> gval res) \<Rightarrow> string \<Rightarrow> string \<Rightarrow> gval \<Rightarrow> SubgraphManager \<Rightarrow> SubgraphManager \<times> gval res" where
  "ExecuteInSubgraph call subgraphName nodeName input m =
     (case Manager_GetSubgraph m subgraphName of
        None \<Rightarrow> (m, Inl (Errorf (''subgraph '' @ subgraphName @ '' not found'') []))
      | Some e \<Rightarrow>
          (let m1 = PushNamespace subgraphName m
           in case mget (sg_nodes (en_graph e)) nodeName of
                None \<Rightarrow> (PopNamespace m1, Inl (Errorf (''node '' @ nodeName @ '' not found in subgraph'') []))
              | Some node \<Rightarrow>
                  (case NdFunction node of
                     None \<Rightarrow> (PopNamespace m1, Inl (Errorf (''node '' @ nodeName @ '' has no executable function'') []))
                   | Some f \<Rightarrow> (case call f input m1 of (m2, r) \<Rightarrow> (PopNamespace m2, r)))))"

definition ExecuteRecursive ::
  "int \<Rightarrow> (node_fn \<Rightarrow> gval \<Rightarrow> SubgraphManager \<Rightarrow> SubgraphManager \<times> gval res) \<Rightarrow> string \<Rightarrow> string \<Rightarrow> gval \<Rightarrow> int \<Rightarrow>
   SubgraphManager \<Rightarrow> SubgraphManager \<times> gval res" where
  "ExecuteRecursive maxDepth call subgraphName nodeName input depth m =
     (if depth > maxDepth then (m, Inl (Errorf ''recursion depth limit exceeded'' []))
      else ExecuteInSubgraph call subgraphName nodeName input m)"

definition MigrateToSubgraph :: "string \<Rightarrow> string \<Rightarrow> string \<Rightarrow> SubgraphManager \<Rightarrow> SubgraphManager \<times> string" where
  "MigrateToSubgraph uuid threadID subgraphName m =
     (m\<lparr>sm_checkpointNS := mput threadID (BuildNamespacePath m @ NSSep @ subgraphName) (sm_checkpointNS m)\<rparr>, uuid)"

definition MigrateFromSubgraph :: "string \<Rightarrow> SubgraphManager \<Rightarrow> SubgraphManager" where
  "MigrateFromSubgraph threadID m = m\<lparr>sm_checkpointNS := mdel threadID (sm_checkpointNS m)\<rparr>"

record Command =
  CmGraph :: string
  CmUpdate :: gval
  CmResume :: gval
  CmGoto :: gval

definition ResolveParentCommand :: "Command \<Rightarrow> SubgraphManager \<Rightarrow> Command res" where
  "ResolveParentCommand cmd m =
     (if sm_namespaceStack m = [] then Inl (Errorf ''no parent graph to resolve to'' [])
      else Inr (cmd\<lparr>CmGoto := GStr ''__parent__''\<rparr>))"

text \<open>A node that leaves the stack as it found it: the manager's stack is the same after the call as before, on every branch.\<close>

lemma stack_balanced:
  assumes "\<And>f x m m2 r. call f x m = (m2, r) \<Longrightarrow> sm_namespaceStack m2 = sm_namespaceStack m"
  shows "sm_namespaceStack (fst (ExecuteInSubgraph call sub nd inp m)) = sm_namespaceStack m"
  using assms
  by (auto simp: ExecuteInSubgraph_def PushNamespace_def PopNamespace_def Let_def split: option.splits prod.splits)

section \<open>The registry of a namespace\<close>

record NamespaceIsolatedRegistry =
  ni_namespace :: string
  ni_prefix :: string

definition NewNamespaceIsolatedRegistry :: "string \<Rightarrow> NamespaceIsolatedRegistry" where
  "NewNamespaceIsolatedRegistry namespace = \<lparr>ni_namespace = namespace, ni_prefix = (if namespace \<noteq> [] then namespace @ NSSep else [])\<rparr>"

definition Isolated_Get :: "NamespaceIsolatedRegistry \<Rightarrow> registry \<Rightarrow> string \<Rightarrow> channel option" where
  "Isolated_Get n r name = Registry_Get r (ni_prefix n @ name)"

text \<open>\<open>channel\<close> is \<open>None\<close> when it does not implement the interface.\<close>

definition Isolated_Register :: "NamespaceIsolatedRegistry \<Rightarrow> registry \<Rightarrow> string \<Rightarrow> channel option \<Rightarrow> registry" where
  "Isolated_Register n r name ch = (case ch of Some c \<Rightarrow> Registry_Register r (ni_prefix n @ name) c | None \<Rightarrow> r)"

definition Isolated_CreateCheckpoint :: "NamespaceIsolatedRegistry \<Rightarrow> registry \<Rightarrow> gval gomap" where
  "Isolated_CreateCheckpoint n r =
     mput ''prefix'' (GStr (ni_prefix n)) (mput ''namespace'' (GStr (ni_namespace n)) (Registry_CreateCheckpoint r))"

definition has_prefix :: "string \<Rightarrow> string \<Rightarrow> bool" where
  "has_prefix s pre \<longleftrightarrow> length pre \<le> length s \<and> take (length pre) s = pre"

definition Isolated_GetValues :: "NamespaceIsolatedRegistry \<Rightarrow> registry \<Rightarrow> registry \<times> gval gomap res" where
  "Isolated_GetValues n r =
     (case Registry_GetValues r of
        (r', Inl e) \<Rightarrow> (r', Inl e)
      | (r', Inr allValues) \<Rightarrow>
          (r', Inr (fold (\<lambda>(key, v) acc. if has_prefix key (ni_prefix n) then mput (drop (length (ni_prefix n)) key) v acc else acc)
             allValues [])))"

end
