(* ===== verification/State_Types.thy ===== *)
theory State_Types
  imports Engine_Values Sample_Lib
begin

text \<open>
  Type preservation of the conversions between a state as a map and as a struct (\<open>mapToStateSchema\<close> and
  \<open>toMap\<close> of \<open>pregel/engine.go\<close>). A value conforms to a type when its dynamic type is that type, every
  value conforming to \<open>interface{}\<close>; a value is well typed when the fields of every struct in it conform to their
  declared types, which the Go runtime guarantees of the values a program can build.
\<close>

definition conforms :: "gval \<Rightarrow> gtype \<Rightarrow> bool" where
  "conforms v t \<longleftrightarrow> t = TAny \<or> type_of v = Some t"

fun well_typed :: "gval \<Rightarrow> bool" where
  "well_typed (GSlice vs) \<longleftrightarrow> (\<forall>v\<in>set vs. well_typed v)"
| "well_typed (GMap m) \<longleftrightarrow> (\<forall>(k, v)\<in>set m. well_typed v)"
| "well_typed (GOverwrite v) \<longleftrightarrow> well_typed v"
| "well_typed (GOverwriter v) \<longleftrightarrow> well_typed v"
| "well_typed (GPtr v) \<longleftrightarrow> well_typed v"
| "well_typed (GStruct n fs) \<longleftrightarrow> (\<forall>(f, e, t, v)\<in>set fs. conforms v t \<and> well_typed v)"
| "well_typed (GTyped t v) \<longleftrightarrow> well_typed v"
| "well_typed v \<longleftrightarrow> True"

lemma zero_conforms: "conforms (zero_value t) t"
  by (cases t) (auto simp: conforms_def comp_def split_def)

lemma zero_well_typed: "well_typed (zero_value t)"
proof (induction t rule: zero_value.induct)
  case (7 n fs)
  then have "well_typed (zero_value t)" if "(f, e, t) \<in> set fs" for f e t
    using that by blast
  then show ?case by (auto simp: zero_conforms)
qed simp_all

text \<open>The documented contract of \<open>reflect.Value.Convert\<close>: the result has the type asked for and is a value of the runtime.\<close>

definition convert_sound :: "golib \<Rightarrow> bool" where
  "convert_sound L \<longleftrightarrow> (\<forall>v t w. well_typed v \<and> reflect_convert L v t = Some w \<longrightarrow> conforms w t \<and> well_typed w)"

section \<open>The fields of the struct\<close>

definition field_type :: "string \<times> bool \<times> gtype \<times> string \<Rightarrow> string \<times> bool \<times> gtype" where
  "field_type f = (case f of (name, exported, t, tag) \<Rightarrow> (name, exported, t))"

definition panicking :: "gval gomap \<Rightarrow> string \<times> bool \<times> gtype \<times> string \<Rightarrow> bool" where
  "panicking m f \<longleftrightarrow> fst (snd f) \<and> mget m (fst f) = Some GNil"

text \<open>The value of a field when the conversion does not panic.\<close>

definition field_value :: "golib \<Rightarrow> gval gomap \<Rightarrow> string \<times> bool \<times> gtype \<times> string \<Rightarrow> gval" where
  "field_value L m f =
     (case f of (name, exported, t, tag) \<Rightarrow>
        (case (if exported then mget m name else None) of
           None \<Rightarrow> zero_value t
         | Some v \<Rightarrow> if assignable v t then v
                     else (case reflect_convert L v t of Some w \<Rightarrow> w | None \<Rightarrow> zero_value t)))"

lemma schema_field_eq:
  "schema_field L m f =
     (if panicking m f then Inl (GoPanic ''reflect: call of reflect.Value.Type on zero Value'')
      else Inr (case f of (name, exported, t, tag) \<Rightarrow> (name, exported, t, field_value L m f)))"
proof -
  obtain name exported t tag where f: "f = (name, exported, t, tag)" by (cases f)
  show ?thesis
  proof (cases "mget m name")
    case None
    then show ?thesis by (simp add: f schema_field_def panicking_def field_value_def)
  next
    case (Some v)
    then show ?thesis
      by (cases v) (simp_all add: f schema_field_def panicking_def field_value_def split: option.split)
  qed
qed

lemma field_value_typed:
  assumes "convert_sound L" and "well_typed (GMap m)"
  shows "conforms (field_value L m (name, exported, t, tag)) t \<and> well_typed (field_value L m (name, exported, t, tag))"
proof (cases "if exported then mget m name else None")
  case None
  then show ?thesis by (simp add: field_value_def zero_conforms zero_well_typed)
next
  case (Some v)
  then have v: "well_typed v" using assms(2) by (auto dest: map_of_SomeD split: if_splits)
  show ?thesis
  proof (cases "assignable v t")
    case True
    with Some v show ?thesis by (auto simp: field_value_def assignable_def conforms_def)
  next
    case False
    with Some v assms(1) show ?thesis
      by (cases "reflect_convert L v t") (simp_all add: field_value_def convert_sound_def zero_conforms zero_well_typed)
  qed
qed

lemma res_list_Inrs [simp]: "res_list (map Inr ys) = Inr ys"
  by (induction ys) simp_all

lemma res_list_isl: "(\<exists>e. res_list rs = Inl e) \<longleftrightarrow> (\<exists>r\<in>set rs. isl r)"
  by (induction rs rule: res_list.induct) (auto split: sum.splits)

definition input_struct :: "golib \<Rightarrow> gval gomap \<Rightarrow> string \<Rightarrow> (string \<times> bool \<times> gtype \<times> string) list \<Rightarrow> gval" where
  "input_struct L m n fs = GStruct n (map (\<lambda>(name, exported, t, tag). (name, exported, t, field_value L m (name, exported, t, tag))) fs)"

lemma schema_fields_result:
  "res_list (map (schema_field L m) fs) = Inr vs \<Longrightarrow> \<not> (\<exists>f\<in>set fs. panicking m f) \<and> GStruct n vs = input_struct L m n fs"
proof -
  assume res: "res_list (map (schema_field L m) fs) = Inr vs"
  have no: "\<forall>f\<in>set fs. \<not> panicking m f"
  proof
    fix f assume "f \<in> set fs"
    then have "\<not> isl (schema_field L m f)"
      using res res_list_isl [of "map (schema_field L m) fs"] by (simp add: image_iff)
    then show "\<not> panicking m f" by (simp add: schema_field_eq split: if_splits)
  qed
  then have eq: "map (schema_field L m) fs = map Inr (map (\<lambda>f. case f of (name, exported, t, tag) \<Rightarrow> (name, exported, t, field_value L m f)) fs)"
    by (simp add: schema_field_eq)
  have "vs = map (\<lambda>f. case f of (name, exported, t, tag) \<Rightarrow> (name, exported, t, field_value L m f)) fs"
    using res unfolding eq res_list_Inrs by simp
  with no show ?thesis by (auto simp: input_struct_def split_def)
qed

lemma mapToStateSchema_struct:
  "mapToStateSchema L (SValue p (SStruct n fs)) (GMap m) = Inr v \<Longrightarrow>
     \<not> (\<exists>f\<in>set fs. panicking m f) \<and> v = (if p > 0 then GPtr (input_struct L m n fs) else input_struct L m n fs)"
  using schema_fields_result [of L m fs _ n]
  by (cases "res_list (map (schema_field L m) fs)") (auto simp: mapToStateSchema_def)

lemma input_struct_typed:
  assumes "convert_sound L" and "well_typed (GMap m)"
  shows "well_typed (input_struct L m n fs)" and "type_of (input_struct L m n fs) = Some (TStruct n (map field_type fs))"
  using field_value_typed [OF assms] by (auto simp: input_struct_def field_type_def split_def comp_def)

lemma input_struct_entries:
  assumes "distinct (map fst fs)"
  shows "\<exists>out. entries_of (input_struct L m n fs) = Some out \<and>
    (\<forall>name x. mget out name = Some x \<longleftrightarrow> (\<exists>t tag. (name, True, t, tag) \<in> set fs \<and> x = field_value L m (name, True, t, tag)))"
proof -
  let ?field = "\<lambda>(name, exported, t, tag). (name, exported, t, field_value L m (name, exported, t, tag))"
  define out where "out = map (\<lambda>(f, e, t, v). (f, v)) (filter (\<lambda>(f, e, t, v). e) (map ?field fs))"
  have keys: "map fst out = map fst (filter (\<lambda>f. fst (snd f)) fs)"
    unfolding out_def by (induction fs) (auto split: prod.splits)
  have d: "distinct (map fst out)"
    unfolding keys using assms by (simp add: distinct_map_filter)
  have mem: "(name, x) \<in> set out \<longleftrightarrow> (\<exists>t tag. (name, True, t, tag) \<in> set fs \<and> x = field_value L m (name, True, t, tag))" for name x
    unfolding out_def by (induction fs) (auto split: prod.splits)
  have "mget (mcopy [] out) = map_of out"
    using d by (simp add: mget_mcopy gomap_ok_def)
  moreover have "entries_of (input_struct L m n fs) = Some (mcopy [] out)"
    by (simp add: input_struct_def out_def)
  ultimately show ?thesis
    using d mem by (simp add: map_of_eq_Some_iff)
qed

text \<open>C35: The state a node receives has the type of the schema. For a map of well-typed values and a struct
  schema, the conversion panics exactly when an exported field has the entry nil; otherwise the result is well
  typed and its type is the schema's struct, behind one pointer when the schema is given by pointers, and
  turning it back into a map gives exactly one entry for each exported field: the entry of the map when it fits the
  type of the field, its conversion when it can be converted, and the zero value of the type otherwise.\<close>

theorem node_input_typed:
  assumes "convert_sound L" and "well_typed (GMap m)" and "distinct (map fst fs)"
  shows "case mapToStateSchema L (SValue p (SStruct n fs)) (GMap m) of
      Inl e \<Rightarrow> (\<exists>f\<in>set fs. panicking m f)
    | Inr v \<Rightarrow> \<not> (\<exists>f\<in>set fs. panicking m f) \<and> well_typed v \<and>
        type_of v = Some (if p > 0 then TPtr (TStruct n (map field_type fs)) else TStruct n (map field_type fs)) \<and>
        (\<exists>out. toMap v = Inr out \<and>
          (\<forall>name x. mget out name = Some x \<longleftrightarrow>
             (\<exists>t tag. (name, True, t, tag) \<in> set fs \<and> x = field_value L m (name, True, t, tag))))"
proof (cases "mapToStateSchema L (SValue p (SStruct n fs)) (GMap m)")
  case (Inl e)
  then have "\<exists>r\<in>set (map (schema_field L m) fs). isl r"
    unfolding res_list_isl [symmetric] by (simp add: mapToStateSchema_def split: sum.splits)
  then have "\<exists>f\<in>set fs. panicking m f"
    by (auto simp: schema_field_eq simp del: split_paired_Ex split: if_splits)
  with Inl show ?thesis by simp
next
  case (Inr v)
  then have v: "v = (if p > 0 then GPtr (input_struct L m n fs) else input_struct L m n fs)"
    and no: "\<not> (\<exists>f\<in>set fs. panicking m f)"
    by (blast dest: mapToStateSchema_struct)+
  obtain out where "entries_of (input_struct L m n fs) = Some out"
    and out: "\<forall>name x. mget out name = Some x \<longleftrightarrow>
      (\<exists>t tag. (name, True, t, tag) \<in> set fs \<and> x = field_value L m (name, True, t, tag))"
    using input_struct_entries [OF assms(3)] by blast
  then have "toMap v = Inr out" by (simp add: v toMap_def input_struct_def)
  with out no Inr show ?thesis
    using input_struct_typed [OF assms(1,2), of n fs] by (simp add: v)
qed

definition typed_fields :: "(string \<times> bool \<times> gtype \<times> string) list" where
  "typed_fields = [(''Count'', True, TInt, []), (''Name'', True, TString, []), (''hidden'', False, TInt, [])]"

text \<open>A count that fits, a name that is a number and cannot be converted, an entry for a field that is not exported.\<close>

definition typed_input :: "gval gomap" where
  "typed_input = [(''Count'', GInt 3), (''Name'', GInt 4), (''hidden'', GInt 5), (''other'', GNil)]"

theorem node_input_typed_witness:
  "mapToStateSchema sample_lib (SValue 1 (SStruct ''S'' typed_fields)) (GMap typed_input) =
     Inr (GPtr (input_struct sample_lib typed_input ''S'' typed_fields)) \<and>
   well_typed (GPtr (input_struct sample_lib typed_input ''S'' typed_fields)) \<and>
   (\<exists>out. toMap (GPtr (input_struct sample_lib typed_input ''S'' typed_fields)) = Inr out \<and>
      mget out ''Count'' = Some (GInt 3) \<and> mget out ''Name'' = Some (GStr []) \<and> mget out ''hidden'' = None)"
proof -
  have hyps: "convert_sound sample_lib" "well_typed (GMap typed_input)" "distinct (map fst typed_fields)"
    by (simp_all add: convert_sound_def sample_lib_def typed_input_def typed_fields_def)
  have run: "mapToStateSchema sample_lib (SValue 1 (SStruct ''S'' typed_fields)) (GMap typed_input) =
      Inr (GPtr (input_struct sample_lib typed_input ''S'' typed_fields))"
    by code_simp
  have vals: "field_value sample_lib typed_input (''Count'', True, TInt, []) = GInt 3"
    "field_value sample_lib typed_input (''Name'', True, TString, []) = GStr []"
    by code_simp+
  from node_input_typed [OF hyps, of 1 "''S''"] run obtain out
    where wt: "well_typed (GPtr (input_struct sample_lib typed_input ''S'' typed_fields))"
      and "toMap (GPtr (input_struct sample_lib typed_input ''S'' typed_fields)) = Inr out"
      and at: "\<And>name x. mget out name = Some x \<longleftrightarrow>
        (\<exists>t tag. (name, True, t, tag) \<in> set typed_fields \<and> x = field_value sample_lib typed_input (name, True, t, tag))"
    by (simp only: sum.case) blast
  moreover have "mget out ''Count'' = Some (GInt 3)" "mget out ''Name'' = Some (GStr [])"
    using vals by (auto simp: at typed_fields_def)
  moreover have "mget out ''hidden'' \<noteq> Some x" for x
    by (auto simp: at typed_fields_def)
  ultimately show ?thesis using run by (metis not_Some_eq)
qed

end
