(* ===== verification/Scratchpad.thy ===== *)
theory Scratchpad
  imports Go_Base
begin

text \<open>
  The scratchpad of a run (\<open>types/scratchpad.go\<close>): data, counters and metadata shared by the nodes, stacks kept in the
  data, node-local contexts, snapshots, merging and expiry. Snapshots are about aliasing, so the maps, slices, stacks and
  node contexts are objects of an explicit heap and the scratchpad holds references to them. Every operation runs under the
  lock; the clock is an argument (nanoseconds), as is the depth to which nested values are copied: the Go routine
  recurses without a bound and overflows the stack on a map that contains itself.
\<close>

section \<open>Values and objects\<close>

text \<open>\<open>SV\<close> is a value that is neither a \<open>map[string]interface\{\}\<close>, a \<open>[]interface\{\}\<close> nor a pointer to an object of this file.\<close>

datatype sval = SV gval | SRef nat

datatype obj = OMap "sval gomap" | OSlice "sval list" | OStack "sval list" | OCtx "sval gomap"

type_synonym sp_heap = "obj list"

definition obj_at :: "sp_heap \<Rightarrow> nat \<Rightarrow> obj option" where
  "obj_at h a = (if a < length h then Some (h ! a) else None)"

definition alloc :: "obj \<Rightarrow> sp_heap \<Rightarrow> sp_heap \<times> sval" where
  "alloc x h = (h @ [x], SRef (length h))"

section \<open>Deep copies\<close>

fun copy_all :: "(sp_heap \<Rightarrow> 'a \<Rightarrow> (sp_heap \<times> 'b) option) \<Rightarrow> sp_heap \<Rightarrow> 'a list \<Rightarrow> (sp_heap \<times> 'b list) option" where
  "copy_all f h [] = Some (h, [])"
| "copy_all f h (x # xs) =
     (case f h x of
        None \<Rightarrow> None
      | Some (h1, y) \<Rightarrow> (case copy_all f h1 xs of None \<Rightarrow> None | Some (h2, ys) \<Rightarrow> Some (h2, y # ys)))"

definition copy_entry :: "(sp_heap \<Rightarrow> sval \<Rightarrow> (sp_heap \<times> sval) option) \<Rightarrow> sp_heap \<Rightarrow> string \<times> sval \<Rightarrow> (sp_heap \<times> string \<times> sval) option" where
  "copy_entry f h e = (case f h (snd e) of None \<Rightarrow> None | Some (h1, w) \<Rightarrow> Some (h1, fst e, w))"

text \<open>Stacks and node contexts are shared with the copy.\<close>

primrec deepCopyValue :: "nat \<Rightarrow> sp_heap \<Rightarrow> sval \<Rightarrow> (sp_heap \<times> sval) option" where
  "deepCopyValue 0 h v = None"
| "deepCopyValue (Suc n) h v =
     (case v of
        SV x \<Rightarrow> Some (h, v)
      | SRef a \<Rightarrow>
          (case obj_at h a of
             Some (OMap m) \<Rightarrow> map_option (\<lambda>(h1, m'). alloc (OMap m') h1) (copy_all (copy_entry (deepCopyValue n)) h m)
           | Some (OSlice vs) \<Rightarrow> map_option (\<lambda>(h1, vs'). alloc (OSlice vs') h1) (copy_all (deepCopyValue n) h vs)
           | _ \<Rightarrow> Some (h, v)))"

definition copy_map :: "nat \<Rightarrow> sp_heap \<Rightarrow> sval gomap \<Rightarrow> (sp_heap \<times> sval gomap) option" where
  "copy_map n h m = copy_all (copy_entry (deepCopyValue n)) h m"

definition sp_deepCopyMap :: "nat \<Rightarrow> sp_heap \<Rightarrow> sval gomap option \<Rightarrow> (sp_heap \<times> sval gomap option) option" where
  "sp_deepCopyMap n h src =
     (case src of None \<Rightarrow> Some (h, None) | Some m \<Rightarrow> map_option (\<lambda>(h1, m'). (h1, Some m')) (copy_map n h m))"

section \<open>The scratchpad\<close>

record PregelScratchpad =
  sp_data :: "sval gomap"
  sp_counters :: "64 word gomap"
  sp_metadata :: "sval gomap"
  sp_createdAt :: int
  sp_lastAccess :: int
  sp_step :: "64 word"
  sp_stop :: bool
  sp_callCounter :: "64 word"
  sp_interruptCounter :: "64 word"
  sp_resume :: bool
  sp_subgraphCounter :: "64 word"

definition NewPregelScratchpad :: "int \<Rightarrow> PregelScratchpad" where
  "NewPregelScratchpad now =
     \<lparr>sp_data = [], sp_counters = [], sp_metadata = [], sp_createdAt = now, sp_lastAccess = now, sp_step = 0, sp_stop = False,
      sp_callCounter = 0, sp_interruptCounter = 0, sp_resume = False, sp_subgraphCounter = 0\<rparr>"

definition sp_Get :: "int \<Rightarrow> string \<Rightarrow> PregelScratchpad \<Rightarrow> PregelScratchpad \<times> sval option" where
  "sp_Get now key p = (p\<lparr>sp_lastAccess := now\<rparr>, mget (sp_data p) key)"

definition sp_Set :: "int \<Rightarrow> string \<Rightarrow> sval \<Rightarrow> PregelScratchpad \<Rightarrow> PregelScratchpad" where
  "sp_Set now key v p = p\<lparr>sp_data := mput key v (sp_data p), sp_lastAccess := now\<rparr>"

definition sp_Delete :: "int \<Rightarrow> string \<Rightarrow> PregelScratchpad \<Rightarrow> PregelScratchpad" where
  "sp_Delete now key p = p\<lparr>sp_data := mdel key (sp_data p), sp_lastAccess := now\<rparr>"

definition sp_Has :: "PregelScratchpad \<Rightarrow> string \<Rightarrow> bool" where
  "sp_Has p key \<longleftrightarrow> mget (sp_data p) key \<noteq> None"

definition sp_GetAll :: "PregelScratchpad \<Rightarrow> sval gomap" where
  "sp_GetAll p = mcopy [] (sp_data p)"

definition sp_Clear :: "int \<Rightarrow> PregelScratchpad \<Rightarrow> PregelScratchpad" where
  "sp_Clear now p = p\<lparr>sp_data := [], sp_counters := [], sp_lastAccess := now\<rparr>"

definition SetCounter :: "int \<Rightarrow> string \<Rightarrow> 64 word \<Rightarrow> PregelScratchpad \<Rightarrow> PregelScratchpad" where
  "SetCounter now key v p = p\<lparr>sp_counters := mput key v (sp_counters p), sp_lastAccess := now\<rparr>"

definition GetCounter :: "PregelScratchpad \<Rightarrow> string \<Rightarrow> 64 word" where
  "GetCounter p key = mget_or 0 (sp_counters p) key"

definition IncrementCounter :: "int \<Rightarrow> string \<Rightarrow> PregelScratchpad \<Rightarrow> PregelScratchpad \<times> 64 word" where
  "IncrementCounter now key p =
     (let p1 = p\<lparr>sp_counters := mput key (GetCounter p key + 1) (sp_counters p), sp_lastAccess := now\<rparr> in (p1, GetCounter p1 key))"

definition DecrementCounter :: "int \<Rightarrow> string \<Rightarrow> PregelScratchpad \<Rightarrow> PregelScratchpad \<times> 64 word" where
  "DecrementCounter now key p =
     (let p1 = p\<lparr>sp_counters := mput key (GetCounter p key - 1) (sp_counters p), sp_lastAccess := now\<rparr> in (p1, GetCounter p1 key))"

definition ResetCounter :: "int \<Rightarrow> string \<Rightarrow> PregelScratchpad \<Rightarrow> PregelScratchpad" where
  "ResetCounter now key p = p\<lparr>sp_counters := mdel key (sp_counters p), sp_lastAccess := now\<rparr>"

definition ListCounters :: "PregelScratchpad \<Rightarrow> 64 word gomap" where
  "ListCounters p = mcopy [] (sp_counters p)"

definition SetMetadata :: "int \<Rightarrow> string \<Rightarrow> sval \<Rightarrow> PregelScratchpad \<Rightarrow> PregelScratchpad" where
  "SetMetadata now key v p = p\<lparr>sp_metadata := mput key v (sp_metadata p), sp_lastAccess := now\<rparr>"

definition GetMetadata :: "PregelScratchpad \<Rightarrow> string \<Rightarrow> sval option" where
  "GetMetadata p key = mget (sp_metadata p) key"

definition GetAllMetadata :: "PregelScratchpad \<Rightarrow> sval gomap" where
  "GetAllMetadata p = mcopy [] (sp_metadata p)"

definition SetStep :: "int \<Rightarrow> 64 word \<Rightarrow> PregelScratchpad \<Rightarrow> PregelScratchpad" where
  "SetStep now s p = p\<lparr>sp_step := s, sp_lastAccess := now\<rparr>"

definition SetStop :: "int \<Rightarrow> bool \<Rightarrow> PregelScratchpad \<Rightarrow> PregelScratchpad" where
  "SetStop now b p = p\<lparr>sp_stop := b, sp_lastAccess := now\<rparr>"

definition SetResume :: "int \<Rightarrow> bool \<Rightarrow> PregelScratchpad \<Rightarrow> PregelScratchpad" where
  "SetResume now b p = p\<lparr>sp_resume := b, sp_lastAccess := now\<rparr>"

definition IncrementCallCounter :: "int \<Rightarrow> PregelScratchpad \<Rightarrow> PregelScratchpad \<times> 64 word" where
  "IncrementCallCounter now p = (p\<lparr>sp_callCounter := sp_callCounter p + 1, sp_lastAccess := now\<rparr>, sp_callCounter p + 1)"

definition IncrementInterruptCounter :: "int \<Rightarrow> PregelScratchpad \<Rightarrow> PregelScratchpad \<times> 64 word" where
  "IncrementInterruptCounter now p =
     (p\<lparr>sp_interruptCounter := sp_interruptCounter p + 1, sp_lastAccess := now\<rparr>, sp_interruptCounter p + 1)"

definition IncrementSubgraphCounter :: "int \<Rightarrow> PregelScratchpad \<Rightarrow> PregelScratchpad \<times> 64 word" where
  "IncrementSubgraphCounter now p =
     (p\<lparr>sp_subgraphCounter := sp_subgraphCounter p + 1, sp_lastAccess := now\<rparr>, sp_subgraphCounter p + 1)"

record ScratchpadStats =
  DataSize :: nat
  CountersCount :: nat
  MetadataSize :: nat
  NodeContexts :: nat
  StCreatedAt :: int
  StLastAccess :: int

definition Stats :: "PregelScratchpad \<Rightarrow> ScratchpadStats" where
  "Stats p = \<lparr>DataSize = length (sp_data p), CountersCount = length (sp_counters p), MetadataSize = length (sp_metadata p),
     NodeContexts = 0, StCreatedAt = sp_createdAt p, StLastAccess = sp_lastAccess p\<rparr>"

section \<open>Stacks\<close>

definition Stack_Push :: "nat \<Rightarrow> sval \<Rightarrow> sp_heap \<Rightarrow> sp_heap" where
  "Stack_Push a v h = (case obj_at h a of Some (OStack xs) \<Rightarrow> h[a := OStack (xs @ [v])] | _ \<Rightarrow> h)"

definition Stack_Pop :: "nat \<Rightarrow> sp_heap \<Rightarrow> sp_heap \<times> sval option" where
  "Stack_Pop a h =
     (case obj_at h a of
        Some (OStack xs) \<Rightarrow> if xs = [] then (h, None) else (h[a := OStack (butlast xs)], Some (last xs))
      | _ \<Rightarrow> (h, None))"

definition Stack_ToSlice :: "nat \<Rightarrow> sp_heap \<Rightarrow> sval list" where
  "Stack_ToSlice a h = (case obj_at h a of Some (OStack xs) \<Rightarrow> xs | _ \<Rightarrow> [])"

definition Stack_Peek :: "nat \<Rightarrow> sp_heap \<Rightarrow> sval option" where
  "Stack_Peek a h = (let xs = Stack_ToSlice a h in if xs = [] then None else Some (last xs))"

definition Stack_Size :: "nat \<Rightarrow> sp_heap \<Rightarrow> nat" where
  "Stack_Size a h = length (Stack_ToSlice a h)"

text \<open>The stack under a key: the address of the object when the data holds a \<open>*Stack\<close> there.\<close>

definition stack_under :: "string \<Rightarrow> sp_heap \<Rightarrow> PregelScratchpad \<Rightarrow> nat option" where
  "stack_under key h p =
     (case mget (sp_data p) key of
        Some (SRef a) \<Rightarrow> (case obj_at h a of Some (OStack xs) \<Rightarrow> Some a | _ \<Rightarrow> None)
      | _ \<Rightarrow> None)"

definition ScratchpadStack_Push :: "int \<Rightarrow> string \<Rightarrow> sval \<Rightarrow> sp_heap \<times> PregelScratchpad \<Rightarrow> sp_heap \<times> PregelScratchpad" where
  "ScratchpadStack_Push now key v s =
     (case s of (h, p) \<Rightarrow>
        (case stack_under key h p of
           Some a \<Rightarrow> (Stack_Push a v h, sp_Set now key (SRef a) p)
         | None \<Rightarrow> (h @ [OStack [v]], sp_Set now key (SRef (length h)) p)))"

definition ScratchpadStack_Pop :: "int \<Rightarrow> string \<Rightarrow> sp_heap \<times> PregelScratchpad \<Rightarrow> (sp_heap \<times> PregelScratchpad) \<times> sval option" where
  "ScratchpadStack_Pop now key s =
     (case s of (h, p) \<Rightarrow>
        (case stack_under key h p of
           None \<Rightarrow> ((h, p\<lparr>sp_lastAccess := now\<rparr>), None)
         | Some a \<Rightarrow>
             (let (h1, v) = Stack_Pop a h
              in if Stack_Size a h1 = 0 then ((h1, sp_Delete now key p), v)
                 else ((h1, sp_Set now key (SRef a) p), v))))"

definition ScratchpadStack_Peek :: "int \<Rightarrow> string \<Rightarrow> sp_heap \<times> PregelScratchpad \<Rightarrow> (sp_heap \<times> PregelScratchpad) \<times> sval option" where
  "ScratchpadStack_Peek now key s =
     (case s of (h, p) \<Rightarrow>
        ((h, p\<lparr>sp_lastAccess := now\<rparr>), case stack_under key h p of None \<Rightarrow> None | Some a \<Rightarrow> Stack_Peek a h))"

definition ScratchpadStack_Size :: "int \<Rightarrow> string \<Rightarrow> sp_heap \<times> PregelScratchpad \<Rightarrow> (sp_heap \<times> PregelScratchpad) \<times> nat" where
  "ScratchpadStack_Size now key s =
     (case s of (h, p) \<Rightarrow>
        ((h, p\<lparr>sp_lastAccess := now\<rparr>), case stack_under key h p of None \<Rightarrow> 0 | Some a \<Rightarrow> Stack_Size a h))"

definition ScratchpadStack_Clear :: "int \<Rightarrow> string \<Rightarrow> sp_heap \<times> PregelScratchpad \<Rightarrow> sp_heap \<times> PregelScratchpad" where
  "ScratchpadStack_Clear now key s = (case s of (h, p) \<Rightarrow> (h, sp_Delete now key p))"

section \<open>Node-local contexts\<close>

definition ctx_prefix :: string where "ctx_prefix = ''_node_ctx:''"

text \<open>The test of the code: longer than ten bytes, the first ten being the prefix.\<close>

definition is_ctx_key :: "string \<Rightarrow> bool" where
  "is_ctx_key k \<longleftrightarrow> length k > 10 \<and> take 10 k = ctx_prefix"

definition nc_data :: "sp_heap \<Rightarrow> nat \<Rightarrow> sval gomap" where
  "nc_data h a = (case obj_at h a of Some (OCtx m) \<Rightarrow> m | _ \<Rightarrow> [])"

definition nc_write :: "nat \<Rightarrow> sval gomap \<Rightarrow> sp_heap \<Rightarrow> sp_heap" where
  "nc_write a m h = (case obj_at h a of Some (OCtx m0) \<Rightarrow> h[a := OCtx m] | _ \<Rightarrow> h)"

definition nc_Get :: "nat \<Rightarrow> string \<Rightarrow> sp_heap \<Rightarrow> sval option" where "nc_Get a key h = mget (nc_data h a) key"
definition nc_Set :: "nat \<Rightarrow> string \<Rightarrow> sval \<Rightarrow> sp_heap \<Rightarrow> sp_heap" where "nc_Set a key v h = nc_write a (mput key v (nc_data h a)) h"
definition nc_Delete :: "nat \<Rightarrow> string \<Rightarrow> sp_heap \<Rightarrow> sp_heap" where "nc_Delete a key h = nc_write a (mdel key (nc_data h a)) h"
definition nc_Clear :: "nat \<Rightarrow> sp_heap \<Rightarrow> sp_heap" where "nc_Clear a h = nc_write a [] h"
definition nc_GetAll :: "nat \<Rightarrow> sp_heap \<Rightarrow> sval gomap" where "nc_GetAll a h = mcopy [] (nc_data h a)"

definition ctx_under :: "string \<Rightarrow> sp_heap \<Rightarrow> PregelScratchpad \<Rightarrow> nat option" where
  "ctx_under key h p =
     (case mget (sp_data p) key of
        Some (SRef a) \<Rightarrow> (case obj_at h a of Some (OCtx m) \<Rightarrow> Some a | _ \<Rightarrow> None)
      | _ \<Rightarrow> None)"

definition NodeContext :: "string \<Rightarrow> sp_heap \<times> PregelScratchpad \<Rightarrow> (sp_heap \<times> PregelScratchpad) \<times> nat" where
  "NodeContext nodeName s =
     (case s of (h, p) \<Rightarrow>
        (case ctx_under (ctx_prefix @ nodeName) h p of
           Some a \<Rightarrow> ((h, p), a)
         | None \<Rightarrow> ((h @ [OCtx []], p\<lparr>sp_data := mput (ctx_prefix @ nodeName) (SRef (length h)) (sp_data p)\<rparr>), length h)))"

definition ClearNodeContext :: "string \<Rightarrow> PregelScratchpad \<Rightarrow> PregelScratchpad" where
  "ClearNodeContext nodeName p = p\<lparr>sp_data := mdel (ctx_prefix @ nodeName) (sp_data p)\<rparr>"

definition user_data :: "sval gomap \<Rightarrow> sval gomap" where
  "user_data m = filter (\<lambda>(k, v). \<not> is_ctx_key k) m"

definition ctx_data :: "sval gomap \<Rightarrow> sval gomap" where
  "ctx_data m = filter (\<lambda>(k, v). is_ctx_key k) m"

definition ClearAllNodeContexts :: "PregelScratchpad \<Rightarrow> PregelScratchpad" where
  "ClearAllNodeContexts p = p\<lparr>sp_data := user_data (sp_data p)\<rparr>"

section \<open>Snapshots\<close>

record ScratchpadSnapshot =
  SnData :: "sval gomap"
  SnCounters :: "64 word gomap"
  SnMetadata :: "sval gomap"
  SnStep :: "64 word"
  SnCallCount :: "64 word"
  SnInterrupts :: "64 word"
  SnSubGraphs :: "64 word"

definition Snapshot :: "nat \<Rightarrow> sp_heap \<Rightarrow> PregelScratchpad \<Rightarrow> (sp_heap \<times> ScratchpadSnapshot) option" where
  "Snapshot n h p =
     (case copy_map n h (user_data (sp_data p)) of
        None \<Rightarrow> None
      | Some (h1, dataCopy) \<Rightarrow>
          (case copy_map n h1 (sp_metadata p) of
             None \<Rightarrow> None
           | Some (h2, metaCopy) \<Rightarrow>
               Some (h2, \<lparr>SnData = dataCopy, SnCounters = sp_counters p, SnMetadata = metaCopy, SnStep = sp_step p,
                  SnCallCount = sp_callCounter p, SnInterrupts = sp_interruptCounter p, SnSubGraphs = sp_subgraphCounter p\<rparr>)))"

text \<open>The metadata of the snapshot is taken over entry by entry, without a copy of the values.\<close>

definition Restore :: "nat \<Rightarrow> sp_heap \<Rightarrow> ScratchpadSnapshot option \<Rightarrow> PregelScratchpad \<Rightarrow> (sp_heap \<times> PregelScratchpad) option" where
  "Restore n h snap p =
     (case snap of
        None \<Rightarrow> Some (h, p)
      | Some s \<Rightarrow>
          (let nodeCtxs = ctx_data (sp_data p)
           in case copy_map n h (SnData s) of
                None \<Rightarrow> None
              | Some (h1, dat) \<Rightarrow>
                  Some (h1, p\<lparr>sp_data := mcopy dat nodeCtxs, sp_counters := mcopy [] (SnCounters s), sp_metadata := mcopy [] (SnMetadata s),
                     sp_step := SnStep s, sp_callCounter := SnCallCount s, sp_interruptCounter := SnInterrupts s,
                     sp_subgraphCounter := SnSubGraphs s\<rparr>)))"

section \<open>Merging\<close>

definition add_counters :: "64 word gomap \<Rightarrow> 64 word gomap \<Rightarrow> 64 word gomap" where
  "add_counters cs others = fold (\<lambda>(k, v) m. mput k (mget_or 0 m k + v) m) others cs"

definition MergeFrom :: "nat \<Rightarrow> int \<Rightarrow> sp_heap \<Rightarrow> PregelScratchpad option \<Rightarrow> PregelScratchpad \<Rightarrow> (sp_heap \<times> PregelScratchpad) option" where
  "MergeFrom n now h other p =
     (case other of
        None \<Rightarrow> Some (h, p)
      | Some oth \<Rightarrow>
          (case copy_map n h (user_data (sp_data oth)) of
             None \<Rightarrow> None
           | Some (h1, otherData) \<Rightarrow>
               (case copy_map n h1 (sp_metadata oth) of
                  None \<Rightarrow> None
                | Some (h2, otherMeta) \<Rightarrow>
                    Some (h2, p\<lparr>sp_data := mcopy (sp_data p) otherData,
                       sp_counters := add_counters (sp_counters p) (sp_counters oth),
                       sp_metadata := mcopy (sp_metadata p) otherMeta,
                       sp_step := (if sint (sp_step oth) > sint (sp_step p) then sp_step oth else sp_step p),
                       sp_callCounter := sp_callCounter p + sp_callCounter oth,
                       sp_interruptCounter := sp_interruptCounter p + sp_interruptCounter oth,
                       sp_subgraphCounter := sp_subgraphCounter p + sp_subgraphCounter oth,
                       sp_lastAccess := now\<rparr>))))"

section \<open>Expiry\<close>

definition duration :: "int \<Rightarrow> sval" where "duration d = SV (GNum ''time.Duration'' d)"

definition SetTimeout :: "int \<Rightarrow> int \<Rightarrow> PregelScratchpad \<Rightarrow> PregelScratchpad" where
  "SetTimeout now d p =
     p\<lparr>sp_metadata := mput ''_timeout_start'' (SV (GTime now)) (mput ''_timeout_ttl'' (duration d) (sp_metadata p))\<rparr>"

text \<open>\<open>time.Since\<close>: the difference, saturated at the bounds of a duration.\<close>

definition since :: "int \<Rightarrow> int \<Rightarrow> int" where
  "since now start = max (- (2 ^ 63)) (min (2 ^ 63 - 1) (now - start))"

definition IsExpired :: "int \<Rightarrow> PregelScratchpad \<Rightarrow> bool" where
  "IsExpired now p =
     (case mget (sp_metadata p) ''_timeout_ttl'' of
        Some (SV (GNum nm ttl)) \<Rightarrow>
          (if nm \<noteq> ''time.Duration'' \<or> ttl \<le> 0 then False
           else case mget (sp_metadata p) ''_timeout_start'' of
                  Some (SV (GTime start)) \<Rightarrow> since now start > ttl
                | _ \<Rightarrow> False)
      | _ \<Rightarrow> False)"

text \<open>The test is made again under the write lock, at a later time.\<close>

definition ClearExpired :: "int \<Rightarrow> int \<Rightarrow> PregelScratchpad \<Rightarrow> PregelScratchpad \<times> bool" where
  "ClearExpired now now2 p =
     (if \<not> IsExpired now p then (p, False)
      else if \<not> IsExpired now2 p then (p, False)
      else (p\<lparr>sp_data := [], sp_counters := [],
              sp_metadata := mdel ''_timeout_start'' (mdel ''_timeout_ttl'' (sp_metadata p)), sp_lastAccess := now2\<rparr>, True))"

section \<open>What a value shows\<close>

text \<open>
  The tree a value shows to a depth of \<open>n\<close>, \<open>None\<close> when it is deeper or refers to nothing; maps and slices at
  addresses below \<open>k\<close> are refused, so that a tree shown for \<open>k\<close> does not depend on the objects below \<open>k\<close>.
\<close>

datatype tree = Leaf gval | Shared nat | MapT "(string \<times> tree) list" | SliceT "tree list"

definition opt_entry :: "(sval \<Rightarrow> tree option) \<Rightarrow> string \<times> sval \<Rightarrow> (string \<times> tree) option" where
  "opt_entry f e = map_option (Pair (fst e)) (f (snd e))"

primrec view :: "nat \<Rightarrow> nat \<Rightarrow> sp_heap \<Rightarrow> sval \<Rightarrow> tree option" where
  "view k 0 h v = None"
| "view k (Suc n) h v =
     (case v of
        SV x \<Rightarrow> Some (Leaf x)
      | SRef a \<Rightarrow>
          (case obj_at h a of
             None \<Rightarrow> None
           | Some (OMap m) \<Rightarrow> if a < k then None else map_option MapT (those (map (opt_entry (view k n h)) m))
           | Some (OSlice vs) \<Rightarrow> if a < k then None else map_option SliceT (those (map (view k n h) vs))
           | _ \<Rightarrow> Some (Shared a)))"

definition show_map :: "nat \<Rightarrow> nat \<Rightarrow> sp_heap \<Rightarrow> sval gomap \<Rightarrow> (string \<times> tree) list option" where
  "show_map k n h m = those (map (opt_entry (view k n h)) m)"

text \<open>A later heap: no object is freed or changes its kind, and the objects from \<open>k\<close> on are as they were.\<close>

definition container :: "obj \<Rightarrow> bool" where
  "container x \<longleftrightarrow> (case x of OMap m \<Rightarrow> True | OSlice vs \<Rightarrow> True | _ \<Rightarrow> False)"

definition later :: "nat \<Rightarrow> sp_heap \<Rightarrow> sp_heap \<Rightarrow> bool" where
  "later k h g \<longleftrightarrow> length h \<le> length g \<and>
     (\<forall>a < length h. (k \<le> a \<longrightarrow> g ! a = h ! a) \<and> container (g ! a) = container (h ! a))"

lemma later_append [simp]: "later k h (h @ ext)"
  by (simp add: later_def nth_append)

lemma later_refl [simp]: "later k h h"
  by (simp add: later_def)

text \<open>Writing an object below \<open>k\<close>.\<close>

lemma later_write: "later k h g \<Longrightarrow> a < k \<Longrightarrow> container x = container (g ! a) \<Longrightarrow> later k h (g[a := x])"
  unfolding later_def by (metis length_list_update nth_list_update_eq nth_list_update_neq order_less_le_trans not_less)

lemma laterD:
  assumes "later k h g" and "obj_at h a = Some x"
  shows "\<exists>y. obj_at g a = Some y \<and> (k \<le> a \<longrightarrow> y = x) \<and> container y = container x"
  using assms by (auto simp: later_def obj_at_def split: if_splits)

lemma those_mono:
  assumes "those (map f xs) = Some ys" and "\<And>x y. x \<in> set xs \<Longrightarrow> f x = Some y \<Longrightarrow> g x = Some y"
  shows "those (map g xs) = Some ys"
  using assms by (induction xs arbitrary: ys) (auto split: option.splits)

lemma view_SRef:
  "view k (Suc n) h (SRef a) = Some t \<longleftrightarrow>
     (\<exists>x. obj_at h a = Some x \<and>
       (case x of
          OMap m \<Rightarrow> k \<le> a \<and> (\<exists>ts. those (map (opt_entry (view k n h)) m) = Some ts \<and> t = MapT ts)
        | OSlice vs \<Rightarrow> k \<le> a \<and> (\<exists>ts. those (map (view k n h) vs) = Some ts \<and> t = SliceT ts)
        | _ \<Rightarrow> t = Shared a))"
  by (auto split: option.splits obj.splits)

lemma view_later:
  assumes "view k n h v = Some t" and "later k' h g" and "k' \<le> k"
  shows "view k' n g v = Some t"
  using assms
proof (induction n arbitrary: v t)
  case 0
  then show ?case by simp
next
  case (Suc n)
  show ?case
  proof (cases v)
    case (SV x)
    with Suc.prems(1) show ?thesis by simp
  next
    case (SRef a)
    with Suc.prems(1) obtain x where x: "obj_at h a = Some x"
      and t: "case x of
          OMap m \<Rightarrow> k \<le> a \<and> (\<exists>ts. those (map (opt_entry (view k n h)) m) = Some ts \<and> t = MapT ts)
        | OSlice vs \<Rightarrow> k \<le> a \<and> (\<exists>ts. those (map (view k n h) vs) = Some ts \<and> t = SliceT ts)
        | _ \<Rightarrow> t = Shared a"
      unfolding SRef view_SRef by blast
    from laterD [OF assms(2) x] obtain y where y: "obj_at g a = Some y" "k' \<le> a \<longrightarrow> y = x" "container y = container x" by blast
    have step: "opt_entry (view k' n g) e = Some z" if "opt_entry (view k n h) e = Some z" for e z
      using that Suc.IH [OF _ assms(2,3)] by (auto simp: opt_entry_def)
    show ?thesis
    proof (cases x)
      case (OMap m)
      with t y assms(3) show ?thesis
        by (auto simp: SRef intro: those_mono step)
    next
      case (OSlice vs)
      with t y assms(3) show ?thesis
        by (auto simp: SRef intro: those_mono Suc.IH [OF _ assms(2,3)])
    qed (use t y in \<open>auto simp: SRef container_def split: obj.splits\<close>)
  qed
qed

lemma show_map_later: "show_map k n h m = Some ts \<Longrightarrow> later k' h g \<Longrightarrow> k' \<le> k \<Longrightarrow> show_map k' n g m = Some ts"
  unfolding show_map_def by (erule those_mono) (auto simp: opt_entry_def intro: view_later)

section \<open>Copies are equal and fresh\<close>

text \<open>Copying the elements of a list one after another, each on the heap the copies before it have extended.\<close>

lemma copy_all_fresh:
  assumes "those (map (look h) xs) = Some ts"
    and copy: "\<And>g x t. look g x = Some t \<Longrightarrow> \<exists>ext y. f g x = Some (g @ ext, y) \<and> fresh (length g) (g @ ext) y = Some t"
    and grow: "\<And>g ext x t. look g x = Some t \<Longrightarrow> look (g @ ext) x = Some t"
    and keep: "\<And>k k' g ext y t. fresh k g y = Some t \<Longrightarrow> k' \<le> k \<Longrightarrow> fresh k' (g @ ext) y = Some t"
  shows "\<exists>ext ys. copy_all f h xs = Some (h @ ext, ys) \<and> those (map (fresh (length h) (h @ ext)) ys) = Some ts"
  using assms(1)
proof (induction xs arbitrary: h ts)
  case Nil
  then show ?case by simp
next
  case (Cons x xs)
  then obtain t us where t: "look h x = Some t" and us: "those (map (look h) xs) = Some us" and ts: "ts = t # us"
    by (auto split: option.splits)
  from copy [OF t] obtain e y where y: "f h x = Some (h @ e, y)" "fresh (length h) (h @ e) y = Some t" by blast
  have "those (map (look (h @ e)) xs) = Some us" using us by (rule those_mono) (rule grow)
  from Cons.IH [OF this] obtain e2 ys where ys: "copy_all f (h @ e) xs = Some (h @ e @ e2, ys)"
    "those (map (fresh (length (h @ e)) (h @ e @ e2)) ys) = Some us" by auto
  have "those (map (fresh (length h) (h @ e @ e2)) ys) = Some us"
    using ys(2)
  proof (rule those_mono)
    fix z u assume "fresh (length (h @ e)) (h @ e @ e2) z = Some u"
    from keep [OF this, of "length h" "[]"] show "fresh (length h) (h @ e @ e2) z = Some u" by simp
  qed
  moreover have "fresh (length h) (h @ e @ e2) y = Some t" using keep [OF y(2)] by simp
  ultimately show ?case by (auto simp: y ys ts)
qed

lemma copy_entry_fresh:
  assumes "\<And>g v t. view 0 n g v = Some t \<Longrightarrow> \<exists>ext w. deepCopyValue n g v = Some (g @ ext, w) \<and> view (length g) n (g @ ext) w = Some t"
    and "opt_entry (view 0 n g) e = Some t"
  shows "\<exists>ext w. copy_entry (deepCopyValue n) g e = Some (g @ ext, w) \<and> opt_entry (view (length g) n (g @ ext)) w = Some t"
proof -
  from assms(2) obtain u where u: "view 0 n g (snd e) = Some u" and t: "t = (fst e, u)" by (auto simp: opt_entry_def)
  from assms(1) [OF u] show ?thesis by (auto simp: copy_entry_def opt_entry_def t)
qed

lemma view_grow: "view 0 n g v = Some t \<Longrightarrow> view 0 n (g @ ext) v = Some t"
  by (erule view_later) simp_all

lemma view_keep: "view k n g v = Some t \<Longrightarrow> k' \<le> k \<Longrightarrow> view k' n (g @ ext) v = Some t"
  by (erule view_later) simp_all

lemma entry_grow: "opt_entry (view 0 n g) e = Some t \<Longrightarrow> opt_entry (view 0 n (g @ ext)) e = Some t"
  by (auto simp: opt_entry_def intro: view_grow)

lemma entry_keep: "opt_entry (view k n g) e = Some t \<Longrightarrow> k' \<le> k \<Longrightarrow> opt_entry (view k' n (g @ ext)) e = Some t"
  by (auto simp: opt_entry_def intro: view_keep)

definition copies :: "nat \<Rightarrow> bool" where
  "copies n \<longleftrightarrow> (\<forall>h v t. view 0 n h v = Some t \<longrightarrow>
     (\<exists>ext w. deepCopyValue n h v = Some (h @ ext, w) \<and> view (length h) n (h @ ext) w = Some t))"

lemma copy_slice_fresh:
  assumes "copies n" and "those (map (view 0 n h) vs) = Some ts"
  shows "\<exists>ext vs'. copy_all (deepCopyValue n) h vs = Some (h @ ext, vs') \<and> those (map (view (length h) n (h @ ext)) vs') = Some ts"
  by (rule copy_all_fresh [where look = "view 0 n" and fresh = "\<lambda>k. view k n", OF assms(2)])
    (use assms(1) view_grow view_keep in \<open>auto simp: copies_def\<close>)

lemma copy_entries_fresh:
  assumes "copies n" and "those (map (opt_entry (view 0 n h)) m) = Some ts"
  shows "\<exists>ext m'. copy_all (copy_entry (deepCopyValue n)) h m = Some (h @ ext, m') \<and>
    those (map (opt_entry (view (length h) n (h @ ext))) m') = Some ts"
  by (rule copy_all_fresh [where look = "\<lambda>g. opt_entry (view 0 n g)" and fresh = "\<lambda>k g. opt_entry (view k n g)", OF assms(2)])
    (use copy_entry_fresh assms(1) entry_grow entry_keep in \<open>auto simp: copies_def\<close>)

lemma copies_all: "copies n"
proof (induction n)
  case 0
  then show ?case by (simp add: copies_def)
next
  case (Suc n)
  have "\<exists>ext w. deepCopyValue (Suc n) h v = Some (h @ ext, w) \<and> view (length h) (Suc n) (h @ ext) w = Some t"
    if shown: "view 0 (Suc n) h v = Some t" for h v t
  proof (cases v)
    case (SV x)
    with shown show ?thesis by simp
  next
    case (SRef a)
    with shown obtain x where x: "obj_at h a = Some x"
      and t: "case x of
          OMap m \<Rightarrow> 0 \<le> a \<and> (\<exists>ts. those (map (opt_entry (view 0 n h)) m) = Some ts \<and> t = MapT ts)
        | OSlice vs \<Rightarrow> 0 \<le> a \<and> (\<exists>ts. those (map (view 0 n h) vs) = Some ts \<and> t = SliceT ts)
        | _ \<Rightarrow> t = Shared a"
      unfolding SRef view_SRef by blast
    show ?thesis
    proof (cases x)
      case (OMap m)
      with t obtain ts where ts: "those (map (opt_entry (view 0 n h)) m) = Some ts" "t = MapT ts" by auto
      from copy_entries_fresh [OF Suc ts(1)] obtain ext m' where
        m': "copy_all (copy_entry (deepCopyValue n)) h m = Some (h @ ext, m')"
        "those (map (opt_entry (view (length h) n (h @ ext))) m') = Some ts" by blast
      have "those (map (opt_entry (view (length h) n ((h @ ext) @ [OMap m']))) m') = Some ts"
        using m'(2) by (rule those_mono) (erule entry_keep, simp)
      then show ?thesis
        using m' x OMap ts(2) by (auto simp: SRef alloc_def obj_at_def nth_append)
    next
      case (OSlice vs)
      with t obtain ts where ts: "those (map (view 0 n h) vs) = Some ts" "t = SliceT ts" by auto
      from copy_slice_fresh [OF Suc ts(1)] obtain ext vs' where
        vs': "copy_all (deepCopyValue n) h vs = Some (h @ ext, vs')"
        "those (map (view (length h) n (h @ ext)) vs') = Some ts" by blast
      have "those (map (view (length h) n ((h @ ext) @ [OSlice vs'])) vs') = Some ts"
        using vs'(2) by (rule those_mono) (erule view_keep, simp)
      then show ?thesis
        using vs' x OSlice ts(2) by (auto simp: SRef alloc_def obj_at_def nth_append)
    qed (use t x SRef in \<open>auto simp: obj_at_def split: if_splits\<close>)
  qed
  then show ?case by (simp add: copies_def del: deepCopyValue.simps view.simps)
qed

lemma copy_map_fresh:
  assumes "show_map 0 n h m = Some ts"
  shows "\<exists>ext m'. copy_map n h m = Some (h @ ext, m') \<and> show_map (length h) n (h @ ext) m' = Some ts"
  using copy_entries_fresh [OF copies_all] assms unfolding copy_map_def show_map_def by blast

lemma show_map_keys: "show_map k n h m = Some ts \<Longrightarrow> map fst ts = map fst m"
  unfolding show_map_def by (induction m arbitrary: ts) (auto simp: opt_entry_def split: option.splits)

lemma copy_map_keys: "copy_map n h m = Some (h', m') \<Longrightarrow> map fst m' = map fst m"
  unfolding copy_map_def
  by (induction m arbitrary: h h' m') (auto simp: copy_entry_def split: option.splits)

section \<open>Snapshots restore\<close>

text \<open>The kinds of keys separate again what \<open>Restore\<close> puts together.\<close>

lemma split_restored:
  assumes "gomap_ok dat" and "\<And>k. k \<in> fst ` set dat \<Longrightarrow> \<not> is_ctx_key k" and "gomap_ok ctxs" and "\<And>k. k \<in> fst ` set ctxs \<Longrightarrow> is_ctx_key k"
  shows "user_data (mcopy dat ctxs) = dat \<and> ctx_data (mcopy dat ctxs) = ctxs"
proof -
  have "mcopy dat cs = dat @ cs" if "gomap_ok cs" "fst ` set cs \<inter> fst ` set dat = {}" for cs
    using that
  proof (induction cs rule: rev_induct)
    case Nil
    then show ?case by (simp add: mcopy_def)
  next
    case (snoc c cs)
    obtain k v where c: "c = (k, v)" by (cases c)
    have "mcopy dat cs = dat @ cs" using snoc by (auto simp: gomap_ok_def)
    moreover have "k \<notin> fst ` set (dat @ cs)" using snoc.prems by (auto simp: c gomap_ok_def)
    ultimately show ?case by (simp add: mcopy_def c mput_fresh)
  qed
  then have eq: "mcopy dat ctxs = dat @ ctxs" using assms by blast
  have "filter (\<lambda>(k, v). \<not> is_ctx_key k) dat = dat" "filter (\<lambda>(k, v). is_ctx_key k) dat = []"
    using assms(2) by (force simp: filter_id_conv filter_empty_conv)+
  moreover have "filter (\<lambda>(k, v). is_ctx_key k) ctxs = ctxs" "filter (\<lambda>(k, v). \<not> is_ctx_key k) ctxs = []"
    using assms(4) by (force simp: filter_id_conv filter_empty_conv)+
  ultimately show ?thesis by (simp add: eq user_data_def ctx_data_def)
qed

lemma user_data_keys: "k \<in> fst ` set (user_data m) \<Longrightarrow> \<not> is_ctx_key k"
  by (auto simp: user_data_def)

lemma ctx_data_keys: "k \<in> fst ` set (ctx_data m) \<Longrightarrow> is_ctx_key k"
  by (auto simp: ctx_data_def)

lemma gomap_ok_parts: "gomap_ok m \<Longrightarrow> gomap_ok (user_data m) \<and> gomap_ok (ctx_data m)"
  by (simp add: gomap_ok_def user_data_def ctx_data_def distinct_map_filter)

lemma mcopy_Nil_ok: "gomap_ok m \<Longrightarrow> mcopy [] m = m"
proof (induction m rule: rev_induct)
  case (snoc c cs)
  obtain k v where c: "c = (k, v)" by (cases c)
  have "mcopy [] cs = cs" "k \<notin> fst ` set cs" using snoc by (auto simp: gomap_ok_def c)
  then show ?case by (simp add: mcopy_def c mput_fresh)
qed (simp add: mcopy_def)

lemma Restore_reads:
  assumes "show_map 0 n g (SnData s) = Some D" and "gomap_ok (SnData s)" and "\<And>k. k \<in> fst ` set (SnData s) \<Longrightarrow> \<not> is_ctx_key k"
    and "gomap_ok (SnCounters s)" and "gomap_ok (SnMetadata s)" and "gomap_ok (sp_data q)"
  shows "\<exists>ext dat. Restore n g (Some s) q =
      Some (g @ ext, q\<lparr>sp_data := dat, sp_counters := SnCounters s, sp_metadata := SnMetadata s, sp_step := SnStep s,
        sp_callCounter := SnCallCount s, sp_interruptCounter := SnInterrupts s, sp_subgraphCounter := SnSubGraphs s\<rparr>) \<and>
    show_map 0 n (g @ ext) (user_data dat) = Some D \<and> ctx_data dat = ctx_data (sp_data q)"
proof -
  from copy_map_fresh [OF assms(1)] obtain ext r where
    r: "copy_map n g (SnData s) = Some (g @ ext, r)" "show_map (length g) n (g @ ext) r = Some D" by blast
  have "map fst r = map fst (SnData s)" by (rule copy_map_keys [OF r(1)])
  then have keys: "gomap_ok r" "\<And>k. k \<in> fst ` set r \<Longrightarrow> \<not> is_ctx_key k"
    using assms(2,3) by (simp_all add: gomap_ok_def flip: set_map)
  have "user_data (mcopy r (ctx_data (sp_data q))) = r" "ctx_data (mcopy r (ctx_data (sp_data q))) = ctx_data (sp_data q)"
    using split_restored [OF keys(1) _ conjunct2 [OF gomap_ok_parts [OF assms(6)]], of] keys(2) ctx_data_keys by blast+
  moreover have "show_map 0 n (g @ ext) r = Some D"
    by (rule show_map_later [OF r(2), where g = "g @ ext"]) (simp_all add: later_def)
  ultimately show ?thesis
    using assms(4,5)
    by (intro exI [of _ ext] exI [of _ "mcopy r (ctx_data (sp_data q))"]) (simp add: Restore_def r(1) Let_def mcopy_Nil_ok)
qed

text \<open>C32: A snapshot restores the scratchpad, but not the contents of its stacks. When the data and the metadata show finite trees,
  taking a snapshot succeeds. Whatever happens to the scratchpad afterwards, and whatever is written to the maps, slices,
  stacks and contexts that existed when it was taken, restoring it gives back the same trees of data and metadata, the counters and the
  step, and keeps the node contexts and the flags of the scratchpad it is restored into. Stacks appear in the trees
  only as references to shared objects: the restored scratchpad has the same stacks, with what was pushed on them since (lemma
  pushed_value_survives_restore below). The restored metadata is the
  snapshot's own, not a copy.\<close>

theorem snapshot_restores:
  assumes "gomap_ok (sp_data p)" and "gomap_ok (sp_counters p)" and "gomap_ok (sp_metadata p)"
    and "show_map 0 n h (user_data (sp_data p)) = Some D" and "show_map 0 n h (sp_metadata p) = Some M"
    and "gomap_ok (sp_data q)"
  shows "\<exists>h1 s. Snapshot n h p = Some (h1, s) \<and>
    (\<forall>g. later (length h) h1 g \<longrightarrow>
      (\<exists>g' r. Restore n g (Some s) q = Some (g', r) \<and>
         show_map 0 n g' (user_data (sp_data r)) = Some D \<and> show_map 0 n g' (sp_metadata r) = Some M \<and>
         sp_metadata r = SnMetadata s \<and> ctx_data (sp_data r) = ctx_data (sp_data q) \<and>
         sp_counters r = sp_counters p \<and> sp_step r = sp_step p \<and> sp_callCounter r = sp_callCounter p \<and>
         sp_interruptCounter r = sp_interruptCounter p \<and> sp_subgraphCounter r = sp_subgraphCounter p \<and>
         sp_stop r = sp_stop q \<and> sp_resume r = sp_resume q))"
proof -
  let ?d = "user_data (sp_data p)"
  from copy_map_fresh [OF assms(4)] obtain e1 d where d: "copy_map n h ?d = Some (h @ e1, d)" "show_map (length h) n (h @ e1) d = Some D" by blast
  have "show_map 0 n (h @ e1) (sp_metadata p) = Some M" by (rule show_map_later [OF assms(5)]) simp_all
  from copy_map_fresh [OF this] obtain e2 m where
    m: "copy_map n (h @ e1) (sp_metadata p) = Some ((h @ e1) @ e2, m)" "show_map (length (h @ e1)) n ((h @ e1) @ e2) m = Some M" by blast
  define s where "s = \<lparr>SnData = d, SnCounters = sp_counters p, SnMetadata = m, SnStep = sp_step p,
    SnCallCount = sp_callCounter p, SnInterrupts = sp_interruptCounter p, SnSubGraphs = sp_subgraphCounter p\<rparr>"
  have snap: "Snapshot n h p = Some ((h @ e1) @ e2, s)" by (simp add: Snapshot_def d m s_def)
  have d': "show_map (length h) n ((h @ e1) @ e2) d = Some D"
    by (rule show_map_later [OF d(2)]) (rule later_append, simp)
  have ok: "gomap_ok (SnData s)" "gomap_ok (SnMetadata s)" "gomap_ok (SnCounters s)"
    using copy_map_keys [OF d(1)] copy_map_keys [OF m(1)] assms(2,3) gomap_ok_parts [OF assms(1)] by (simp_all add: gomap_ok_def s_def)
  have user: "\<not> is_ctx_key k" if "k \<in> fst ` set (SnData s)" for k
    using that copy_map_keys [OF d(1)] user_data_keys [of k "sp_data p"] by (simp add: s_def flip: set_map)
  have "\<exists>g' r. Restore n g (Some s) q = Some (g', r) \<and>
         show_map 0 n g' (user_data (sp_data r)) = Some D \<and> show_map 0 n g' (sp_metadata r) = Some M \<and>
         sp_metadata r = SnMetadata s \<and> ctx_data (sp_data r) = ctx_data (sp_data q) \<and>
         sp_counters r = sp_counters p \<and> sp_step r = sp_step p \<and> sp_callCounter r = sp_callCounter p \<and>
         sp_interruptCounter r = sp_interruptCounter p \<and> sp_subgraphCounter r = sp_subgraphCounter p \<and>
         sp_stop r = sp_stop q \<and> sp_resume r = sp_resume q"
    if g: "later (length h) ((h @ e1) @ e2) g" for g
  proof -
    have "show_map (length h) n g d = Some D" by (rule show_map_later [OF d' g]) simp
    then have D: "show_map 0 n g (SnData s) = Some D" unfolding s_def by (auto intro: show_map_later simp: later_def)
    from Restore_reads [OF D ok(1) user ok(3,2) assms(6)] obtain ext dat where
      "Restore n g (Some s) q = Some (g @ ext, q\<lparr>sp_data := dat, sp_counters := SnCounters s, sp_metadata := SnMetadata s,
        sp_step := SnStep s, sp_callCounter := SnCallCount s, sp_interruptCounter := SnInterrupts s, sp_subgraphCounter := SnSubGraphs s\<rparr>)"
      "show_map 0 n (g @ ext) (user_data dat) = Some D" "ctx_data dat = ctx_data (sp_data q)" by blast
    moreover have "show_map (length h) n g m = Some M" by (rule show_map_later [OF m(2) g]) simp
    then have "show_map 0 n (g @ ext) m = Some M" by (rule show_map_later) simp_all
    ultimately show ?thesis by (simp add: s_def)
  qed
  with snap show ?thesis by blast
qed

text \<open>A pad with a map under \<open>m\<close>, a stack under \<open>s\<close> and a context of a node; afterwards the map is overwritten and the stack grows.\<close>

definition demo_heap :: sp_heap where
  "demo_heap = [OMap [(''x'', SV (GBool True))], OStack [SV GNil], OCtx []]"

definition demo_pad :: PregelScratchpad where
  "demo_pad = (NewPregelScratchpad 0)\<lparr>sp_data := [(''m'', SRef 0), (''s'', SRef 1), (ctx_prefix @ ''a'', SRef 2)],
     sp_counters := [(''c'', 7)], sp_metadata := [(''t'', SRef 0)], sp_step := 4\<rparr>"

definition demo_snap :: "sp_heap \<times> ScratchpadSnapshot" where
  "demo_snap = the (Snapshot 3 demo_heap demo_pad)"

definition demo_heap2 :: sp_heap where
  "demo_heap2 = (fst demo_snap)[0 := OMap [], 1 := OStack [SV GNil, SV (GBool False)]]"

definition demo_after :: PregelScratchpad where
  "demo_after = (NewPregelScratchpad 9)\<lparr>sp_data := [(ctx_prefix @ ''b'', SRef 2)], sp_stop := True\<rparr>"

theorem snapshot_restores_witness:
  "\<exists>g' r. Restore 3 demo_heap2 (Some (snd demo_snap)) demo_after = Some (g', r) \<and>
     show_map 0 3 g' (user_data (sp_data r)) = Some [(''m'', MapT [(''x'', Leaf (GBool True))]), (''s'', Shared 1)] \<and>
     show_map 0 3 g' (sp_metadata r) = Some [(''t'', MapT [(''x'', Leaf (GBool True))])] \<and>
     ctx_data (sp_data r) = [(ctx_prefix @ ''b'', SRef 2)] \<and> sp_counters r = [(''c'', 7)] \<and> sp_step r = 4 \<and> sp_stop r"
proof -
  have hyps: "gomap_ok (sp_data demo_pad)" "gomap_ok (sp_counters demo_pad)" "gomap_ok (sp_metadata demo_pad)"
    "show_map 0 3 demo_heap (user_data (sp_data demo_pad)) = Some [(''m'', MapT [(''x'', Leaf (GBool True))]), (''s'', Shared 1)]"
    "show_map 0 3 demo_heap (sp_metadata demo_pad) = Some [(''t'', MapT [(''x'', Leaf (GBool True))])]"
    "gomap_ok (sp_data demo_after)"
    by code_simp+
  have snap: "Snapshot 3 demo_heap demo_pad = Some (fst demo_snap, snd demo_snap)"
    unfolding demo_snap_def by code_simp
  have old: "later (length demo_heap) (fst demo_snap) demo_heap2"
    unfolding demo_heap2_def by (rule later_write, rule later_write, rule later_refl) code_simp+
  have flags: "sp_stop demo_after" "ctx_data (sp_data demo_after) = [(ctx_prefix @ ''b'', SRef 2)]"
    "sp_counters demo_pad = [(''c'', 7)]" "sp_step demo_pad = 4"
    by code_simp+
  from snapshot_restores [OF hyps, unfolded snap option.inject prod.inject] old obtain g' r where
    "Restore 3 demo_heap2 (Some (snd demo_snap)) demo_after = Some (g', r)"
    "show_map 0 3 g' (user_data (sp_data r)) = Some [(''m'', MapT [(''x'', Leaf (GBool True))]), (''s'', Shared 1)]"
    "show_map 0 3 g' (sp_metadata r) = Some [(''t'', MapT [(''x'', Leaf (GBool True))])]"
    "ctx_data (sp_data r) = ctx_data (sp_data demo_after)" "sp_counters r = sp_counters demo_pad" "sp_step r = sp_step demo_pad"
    "sp_stop r = sp_stop demo_after"
    by blast
  with flags show ?thesis by auto
qed

section \<open>Shared stacks, cyclic values, merging\<close>

text \<open>What is pushed on a stack after the snapshot is still there after the restore.\<close>

lemma pushed_value_survives_restore:
  "(case Snapshot 3 demo_heap demo_pad of
      Some (h1, snap) \<Rightarrow>
        (case ScratchpadStack_Push 5 ''s'' (SV (GBool False)) (h1, demo_pad) of
           (h2, p2) \<Rightarrow> (case Restore 3 h2 (Some snap) p2 of
                         Some (h3, p3) \<Rightarrow> snd (ScratchpadStack_Size 6 ''s'' (h3, p3)) = 2 \<and> snd (ScratchpadStack_Size 6 ''s'' (demo_heap, demo_pad)) = 1
                       | None \<Rightarrow> False))
    | None \<Rightarrow> False)"
  by code_simp

text \<open>A map that contains itself is never copied: the Go routine recurses for ever.\<close>

lemma cyclic_copy_diverges:
  assumes "obj_at h a = Some (OMap ((k, SRef a) # m))"
  shows "deepCopyValue n h (SRef a) = None"
  using assms by (induction n) (auto simp: copy_entry_def)

lemma mget_add_counters:
  "gomap_ok others \<Longrightarrow> mget_or 0 (add_counters cs others) k = mget_or 0 cs k + mget_or 0 others k"
proof (induction others arbitrary: cs)
  case Nil
  then show ?case by (simp add: add_counters_def mget_or_def)
next
  case (Cons e es)
  obtain k' v where e: "e = (k', v)" by (cases e)
  have "mget es k' = None" using Cons.prems by (simp add: e gomap_ok_def map_of_eq_None_iff)
  with Cons.IH [of "mput k' (mget_or 0 cs k' + v) cs"] Cons.prems show ?case
    by (auto simp: e add_counters_def gomap_ok_def mget_or_def gomap)
qed

text \<open>
  Merging: the entries of the other scratchpad that are not node contexts replace those of the receiver, as fresh
  copies showing the same trees; counters add up modulo \<open>2^64\<close>, the step is the larger one.
\<close>

lemma merge_from_result:
  assumes "gomap_ok (sp_data oth)" and "gomap_ok (sp_counters oth)" and "gomap_ok (sp_metadata oth)"
    and "show_map 0 n h (user_data (sp_data oth)) = Some D" and "show_map 0 n h (sp_metadata oth) = Some M"
  shows "\<exists>ext d m r. MergeFrom n now h (Some oth) p = Some (h @ ext, r) \<and>
    show_map (length h) n (h @ ext) d = Some D \<and> show_map (length h) n (h @ ext) m = Some M \<and>
    mget (sp_data r) = mget (sp_data p) ++ mget d \<and> mget (sp_metadata r) = mget (sp_metadata p) ++ mget m \<and>
    (\<forall>k. GetCounter r k = GetCounter p k + GetCounter oth k) \<and>
    sint (sp_step r) = max (sint (sp_step p)) (sint (sp_step oth)) \<and> sp_callCounter r = sp_callCounter p + sp_callCounter oth"
proof -
  from copy_map_fresh [OF assms(4)] obtain e1 d where
    d: "copy_map n h (user_data (sp_data oth)) = Some (h @ e1, d)" "show_map (length h) n (h @ e1) d = Some D" by blast
  have "show_map 0 n (h @ e1) (sp_metadata oth) = Some M" by (rule show_map_later [OF assms(5)]) simp_all
  from copy_map_fresh [OF this] obtain e2 m where
    m: "copy_map n (h @ e1) (sp_metadata oth) = Some ((h @ e1) @ e2, m)" "show_map (length (h @ e1)) n ((h @ e1) @ e2) m = Some M" by blast
  have "gomap_ok d" "gomap_ok m"
    using copy_map_keys [OF d(1)] copy_map_keys [OF m(1)] assms(3) gomap_ok_parts [OF assms(1)] by (simp_all add: gomap_ok_def)
  moreover have "show_map (length h) n ((h @ e1) @ e2) d = Some D"
    by (rule show_map_later [OF d(2)]) (rule later_append, simp)
  moreover have "show_map (length h) n ((h @ e1) @ e2) m = Some M"
    using show_map_later [OF m(2), of "length h" "(h @ e1) @ e2"] by (simp add: later_def)
  ultimately show ?thesis
    by (intro exI [of _ "e1 @ e2"] exI [of _ d] exI [of _ m])
      (simp add: MergeFrom_def d(1) m(1) mget_mcopy mget_add_counters [OF assms(2)] GetCounter_def)
qed

text \<open>A stack of the scratchpad returns what was pushed last, and its key disappears with its last value.\<close>

lemma scratchpad_stack_lifo:
  assumes "ScratchpadStack_Push now key v (h, p) = (h1, p1)"
  shows "snd (ScratchpadStack_Pop now2 key (h1, p1)) = Some v \<and>
    stack_under key (fst (fst (ScratchpadStack_Pop now2 key (h1, p1)))) (snd (fst (ScratchpadStack_Pop now2 key (h1, p1)))) =
      (case stack_under key h p of Some a \<Rightarrow> if Stack_ToSlice a h = [] then None else Some a | None \<Rightarrow> None)"
proof (cases "stack_under key h p")
  case None
  with assms show ?thesis
    by (auto simp: ScratchpadStack_Push_def ScratchpadStack_Pop_def Stack_Pop_def Stack_Size_def Stack_ToSlice_def stack_under_def
      sp_Set_def sp_Delete_def obj_at_def gomap)
next
  case (Some a)
  then obtain xs where a: "a < length h" "h ! a = OStack xs" "mget (sp_data p) key = Some (SRef a)"
    by (auto simp: stack_under_def obj_at_def split: option.splits sval.splits obj.splits if_splits)
  with assms Some show ?thesis
    by (auto simp: ScratchpadStack_Push_def Stack_Push_def ScratchpadStack_Pop_def Stack_Pop_def Stack_Size_def Stack_ToSlice_def
      stack_under_def sp_Set_def sp_Delete_def obj_at_def gomap)
qed

text \<open>The context of the node with the empty name is not recognised as one, and is part of every snapshot and merge.\<close>

lemma empty_node_context_leaks: "\<not> is_ctx_key (ctx_prefix @ []) \<and> (\<forall>c name. is_ctx_key (ctx_prefix @ c # name))"
  by (simp add: is_ctx_key_def ctx_prefix_def)

end
