(* ===== verification/Managed.thy ===== *)
theory Managed
  imports Go_Base
begin

text \<open>
  Managed values and the runtime of a node (\<open>managed/managed.go\<close>): values read from a scratchpad, the
  runtime record with its merge and override operations, the configuration maps that carry it, and
  checkpoint namespaces. Runtimes are shared by pointer, so configurations hold addresses into a list of
  runtimes; a function value is known by a name. \<open>FormatDuration\<close> prints floating-point numbers and is left out.
\<close>

section \<open>Managed values\<close>

datatype ManagedValue =
    IsLastStep bool | CurrentStep "64 word" | ConfigValue string gval | TaskID string | NodeName string

text \<open>
  The scratchpad handed to \<open>Get\<close>, by dynamic type: a type assertion to \<open>map[string]interface\{\}\<close> does not match the
  named type \<open>PregelScratchpad\<close> of the same package.
\<close>

type_synonym ManagedPad = "gval gomap"

datatype pad_arg = PadNil | PadMap "gval gomap" | PadScratch ManagedPad | PadOther gval

definition as_string_map :: "pad_arg \<Rightarrow> gval gomap option" where
  "as_string_map s = (case s of PadMap m \<Rightarrow> Some m | _ \<Rightarrow> None)"

definition pad_entry :: "pad_arg \<Rightarrow> string \<Rightarrow> gval option" where
  "pad_entry s key = (case as_string_map s of None \<Rightarrow> None | Some m \<Rightarrow> mget m key)"

text \<open>The receiver is updated by a successful read.\<close>

fun mv_Get :: "pad_arg \<Rightarrow> ManagedValue \<Rightarrow> ManagedValue \<times> gval" where
  "mv_Get s (IsLastStep v) = (let w = (case pad_entry s ''is_last_step'' of Some (GBool b) \<Rightarrow> b | _ \<Rightarrow> v) in (IsLastStep w, GBool w))"
| "mv_Get s (CurrentStep v) = (let w = (case pad_entry s ''current_step'' of Some (GInt n) \<Rightarrow> n | _ \<Rightarrow> v) in (CurrentStep w, GInt w))"
| "mv_Get s (TaskID v) = (let w = (case pad_entry s ''task_id'' of Some (GStr x) \<Rightarrow> x | _ \<Rightarrow> v) in (TaskID w, GStr w))"
| "mv_Get s (NodeName v) = (let w = (case pad_entry s ''node_name'' of Some (GStr x) \<Rightarrow> x | _ \<Rightarrow> v) in (NodeName w, GStr w))"
| "mv_Get s (ConfigValue key dflt) =
     (ConfigValue key dflt,
      case pad_entry s ''configurable'' of
        Some (GMap c) \<Rightarrow> (case mget c key of Some v \<Rightarrow> v | None \<Rightarrow> dflt)
      | _ \<Rightarrow> dflt)"

fun mv_Name :: "ManagedValue \<Rightarrow> string" where
  "mv_Name (IsLastStep v) = ''IsLastStep''"
| "mv_Name (CurrentStep v) = ''CurrentStep''"
| "mv_Name (TaskID v) = ''TaskID''"
| "mv_Name (NodeName v) = ''NodeName''"
| "mv_Name (ConfigValue key d) = ''ConfigValue['' @ key @ '']''"

text \<open>A copy is a new object with the same fields.\<close>

definition mv_Copy :: "ManagedValue \<Rightarrow> ManagedValue" where "mv_Copy v = v"

definition NewIsLastStep :: ManagedValue where "NewIsLastStep = IsLastStep False"
definition NewCurrentStep :: ManagedValue where "NewCurrentStep = CurrentStep 0"
definition NewConfigValue :: "string \<Rightarrow> gval \<Rightarrow> ManagedValue" where "NewConfigValue key d = ConfigValue key d"
definition NewTaskID :: ManagedValue where "NewTaskID = TaskID []"
definition NewNodeName :: ManagedValue where "NewNodeName = NodeName []"

text \<open>\<open>Set\<close> and \<open>Increment\<close> are methods of \<open>*IsLastStep\<close> and \<open>*CurrentStep\<close> only.\<close>

definition IsLastStep_Set :: "bool \<Rightarrow> ManagedValue" where "IsLastStep_Set b = IsLastStep b"
definition CurrentStep_Set :: "64 word \<Rightarrow> ManagedValue" where "CurrentStep_Set n = CurrentStep n"

fun CurrentStep_Increment :: "ManagedValue \<Rightarrow> ManagedValue" where
  "CurrentStep_Increment (CurrentStep n) = CurrentStep (n + 1)"
| "CurrentStep_Increment v = v"

type_synonym ManagedValueMapping = "ManagedValue gomap"

definition NewManagedValueMapping :: ManagedValueMapping where "NewManagedValueMapping = []"
definition mvm_Register :: "string \<Rightarrow> ManagedValue \<Rightarrow> ManagedValueMapping \<Rightarrow> ManagedValueMapping" where "mvm_Register name v m = mput name v m"
definition mvm_Get :: "ManagedValueMapping \<Rightarrow> string \<Rightarrow> ManagedValue option" where "mvm_Get m name = mget m name"
definition mvm_Contains :: "ManagedValueMapping \<Rightarrow> string \<Rightarrow> bool" where "mvm_Contains m name \<longleftrightarrow> mget m name \<noteq> None"
definition mvm_Names :: "ManagedValueMapping \<Rightarrow> string list" where "mvm_Names m = mkeys m"

section \<open>Specifications and reflection\<close>

text \<open>A factory makes the same new value at every call.\<close>

record ManagedValueSpec =
  SpName :: string
  SpFactory :: "ManagedValue option"
  SpDefault :: gval

definition NewManagedValueSpec :: "string \<Rightarrow> ManagedValue option \<Rightarrow> gval \<Rightarrow> ManagedValueSpec" where
  "NewManagedValueSpec name factory d = \<lparr>SpName = name, SpFactory = factory, SpDefault = d\<rparr>"

definition Spec_Create :: "ManagedValueSpec \<Rightarrow> ManagedValue option" where
  "Spec_Create s = SpFactory s"

definition Spec_GetValue :: "pad_arg \<Rightarrow> ManagedValueSpec \<Rightarrow> gval" where
  "Spec_GetValue scratchpad s =
     (if scratchpad \<noteq> PadNil
      then case SpFactory s of Some mv \<Rightarrow> snd (mv_Get scratchpad mv) | None \<Rightarrow> SpDefault s
      else SpDefault s)"

datatype any_value = AnyManaged ManagedValue | AnySpec ManagedValueSpec | AnyOther gval

definition IsManagedValue :: "any_value \<Rightarrow> bool" where
  "IsManagedValue v \<longleftrightarrow> (case v of AnyManaged m \<Rightarrow> True | _ \<Rightarrow> False)"

definition IsManagedValueSpec :: "any_value \<Rightarrow> bool" where
  "IsManagedValueSpec v \<longleftrightarrow> (case v of AnySpec s \<Rightarrow> True | _ \<Rightarrow> False)"

definition IsValueManaged :: "any_value \<Rightarrow> bool" where
  "IsValueManaged v \<longleftrightarrow> (if v = AnyOther GNil then False else IsManagedValue v \<or> IsManagedValueSpec v)"

definition GetManagedValueName :: "any_value \<Rightarrow> string" where
  "GetManagedValueName v = (case v of AnyManaged m \<Rightarrow> mv_Name m | AnySpec s \<Rightarrow> SpName s | AnyOther x \<Rightarrow> [])"

text \<open>The fields of a struct, or of the struct behind a pointer: whether they are exported, and their values; \<open>None\<close> for other kinds.\<close>

definition ExtractManagedValues :: "(bool \<times> any_value) list option \<Rightarrow> ManagedValue list" where
  "ExtractManagedValues obj =
     (case obj of
        None \<Rightarrow> []
      | Some fs \<Rightarrow> concat (map (\<lambda>(exported, v). if exported then (case v of AnyManaged m \<Rightarrow> [m] | _ \<Rightarrow> []) else []) fs))"

definition ExtractManagedValueSpecs :: "(bool \<times> any_value) list option \<Rightarrow> ManagedValueSpec list" where
  "ExtractManagedValueSpecs obj =
     (case obj of
        None \<Rightarrow> []
      | Some fs \<Rightarrow> concat (map (\<lambda>(exported, v). if exported then (case v of AnySpec s \<Rightarrow> [s] | _ \<Rightarrow> []) else []) fs))"

section \<open>The scratchpad of the package\<close>

definition pad_int :: "ManagedPad \<Rightarrow> string \<Rightarrow> 64 word" where
  "pad_int p key = (case mget p key of Some (GInt n) \<Rightarrow> n | _ \<Rightarrow> 0)"

definition GetCallCounter :: "ManagedPad \<Rightarrow> 64 word" where "GetCallCounter p = pad_int p ''call_counter''"
definition pad_IncrementCallCounter :: "ManagedPad \<Rightarrow> ManagedPad" where
  "pad_IncrementCallCounter p = mput ''call_counter'' (GInt (GetCallCounter p + 1)) p"
definition SetCallCounter :: "64 word \<Rightarrow> ManagedPad \<Rightarrow> ManagedPad" where
  "SetCallCounter v p = mput ''call_counter'' (GInt v) p"
definition GetInterruptCounter :: "ManagedPad \<Rightarrow> 64 word" where "GetInterruptCounter p = pad_int p ''interrupt_counter''"
definition pad_IncrementInterruptCounter :: "ManagedPad \<Rightarrow> ManagedPad" where
  "pad_IncrementInterruptCounter p = mput ''interrupt_counter'' (GInt (GetInterruptCounter p + 1)) p"
definition GetSubgraphCounter :: "ManagedPad \<Rightarrow> 64 word" where "GetSubgraphCounter p = pad_int p ''subgraph_counter''"
definition pad_IncrementSubgraphCounter :: "ManagedPad \<Rightarrow> ManagedPad" where
  "pad_IncrementSubgraphCounter p = mput ''subgraph_counter'' (GInt (GetSubgraphCounter p + 1)) p"
definition pad_Get :: "ManagedPad \<Rightarrow> string \<Rightarrow> gval option" where "pad_Get p key = mget p key"
definition pad_Set :: "string \<Rightarrow> gval \<Rightarrow> ManagedPad \<Rightarrow> ManagedPad" where "pad_Set key v p = mput key v p"
definition pad_Delete :: "string \<Rightarrow> ManagedPad \<Rightarrow> ManagedPad" where "pad_Delete key p = mdel key p"
definition pad_Clear :: "ManagedPad \<Rightarrow> ManagedPad" where "pad_Clear p = fold mdel (mkeys p) p"
definition pad_Clone :: "ManagedPad \<Rightarrow> ManagedPad" where "pad_Clone p = mcopy [] p"

section \<open>Runtimes\<close>

text \<open>\<open>None\<close> is a nil map or function; \<open>GNil\<close> is a nil interface.\<close>

record Runtime =
  rt_TaskID :: string
  rt_NodeName :: string
  rt_Step :: "64 word"
  rt_Configurable :: "gval gomap option"
  rt_CheckpointNS :: string
  rt_Context :: gval
  rt_Store :: gval
  rt_StreamWriter :: "string option"
  rt_Previous :: gval

definition NewRuntime :: Runtime where
  "NewRuntime = \<lparr>rt_TaskID = [], rt_NodeName = [], rt_Step = 0, rt_Configurable = Some [], rt_CheckpointNS = [],
     rt_Context = GNil, rt_Store = GNil, rt_StreamWriter = None, rt_Previous = GNil\<rparr>"

definition DEFAULT_RUNTIME :: Runtime where
  "DEFAULT_RUNTIME = \<lparr>rt_TaskID = [], rt_NodeName = [], rt_Step = 0, rt_Configurable = None, rt_CheckpointNS = [],
     rt_Context = GNil, rt_Store = GNil, rt_StreamWriter = None, rt_Previous = GNil\<rparr>"

definition cloneMap :: "gval gomap option \<Rightarrow> gval gomap option" where
  "cloneMap src = map_option (mcopy []) src"

definition Runtime_Clone :: "Runtime \<Rightarrow> Runtime" where
  "Runtime_Clone r = r\<lparr>rt_Configurable := cloneMap (rt_Configurable r)\<rparr>"

definition nil_to :: "gval \<Rightarrow> gval \<Rightarrow> gval" where "nil_to v d = (if v \<noteq> GNil then v else d)"

definition Runtime_Merge :: "Runtime option \<Rightarrow> Runtime \<Rightarrow> string + Runtime" where
  "Runtime_Merge other r =
     (case other of
        None \<Rightarrow> Inr (Runtime_Clone r)
      | Some ot \<Rightarrow>
          (let c = Runtime_Clone r;
               merged = c\<lparr>rt_Context := nil_to (rt_Context ot) (rt_Context c), rt_Store := nil_to (rt_Store ot) (rt_Store c),
                 rt_StreamWriter := (if rt_StreamWriter ot \<noteq> None then rt_StreamWriter ot else rt_StreamWriter c),
                 rt_Previous := nil_to (rt_Previous ot) (rt_Previous c),
                 rt_TaskID := (if rt_TaskID ot \<noteq> [] then rt_TaskID ot else rt_TaskID c),
                 rt_NodeName := (if rt_NodeName ot \<noteq> [] then rt_NodeName ot else rt_NodeName c),
                 rt_Step := (if rt_Step ot \<noteq> 0 then rt_Step ot else rt_Step c),
                 rt_CheckpointNS := (if rt_CheckpointNS ot \<noteq> [] then rt_CheckpointNS ot else rt_CheckpointNS c)\<rparr>
           in case (rt_Configurable ot, rt_Configurable c) of
                (None, _) \<Rightarrow> Inr merged
              | (Some [], _) \<Rightarrow> Inr merged
              | (Some (e # es), None) \<Rightarrow> Inl ''assignment to entry in nil map''
              | (Some es, Some m) \<Rightarrow> Inr (merged\<lparr>rt_Configurable := Some (mcopy m es)\<rparr>)))"

definition Runtime_Set :: "string \<Rightarrow> gval \<Rightarrow> Runtime \<Rightarrow> Runtime" where
  "Runtime_Set key v r =
     r\<lparr>rt_Configurable := Some (mput key v (case rt_Configurable r of None \<Rightarrow> [] | Some m \<Rightarrow> m))\<rparr>"

definition Runtime_Get :: "Runtime \<Rightarrow> string \<Rightarrow> gval option" where
  "Runtime_Get r key = (case rt_Configurable r of None \<Rightarrow> None | Some m \<Rightarrow> mget m key)"

text \<open>A stream writer among the overrides is a value of a function type, named by its constructor argument.\<close>

datatype override = OvVal gval | OvWriter string

definition ov_any :: "override gomap \<Rightarrow> string \<Rightarrow> gval \<Rightarrow> gval" where
  "ov_any o0 key d = (case mget o0 key of Some (OvVal v) \<Rightarrow> v | Some (OvWriter w) \<Rightarrow> GTyped (TOther ''func'') (GStr w) | None \<Rightarrow> d)"

definition ov_string :: "override gomap \<Rightarrow> string \<Rightarrow> string \<Rightarrow> string" where
  "ov_string o0 key d = (case mget o0 key of Some (OvVal (GStr s)) \<Rightarrow> s | _ \<Rightarrow> d)"

definition Runtime_Override :: "override gomap \<Rightarrow> Runtime \<Rightarrow> Runtime" where
  "Runtime_Override o0 r =
     (let n = Runtime_Clone r
      in n\<lparr>rt_Context := ov_any o0 ''context'' (rt_Context n), rt_Store := ov_any o0 ''store'' (rt_Store n),
           rt_StreamWriter := (case mget o0 ''stream_writer'' of Some (OvWriter w) \<Rightarrow> Some w | _ \<Rightarrow> rt_StreamWriter n),
           rt_Previous := ov_any o0 ''previous'' (rt_Previous n),
           rt_TaskID := ov_string o0 ''task_id'' (rt_TaskID n),
           rt_NodeName := ov_string o0 ''node_name'' (rt_NodeName n),
           rt_Step := (case mget o0 ''step'' of Some (OvVal (GInt s)) \<Rightarrow> s | _ \<Rightarrow> rt_Step n),
           rt_CheckpointNS := ov_string o0 ''checkpoint_ns'' (rt_CheckpointNS n)\<rparr>)"

section \<open>Configuration maps\<close>

text \<open>A configuration value: a plain value, a pointer to a runtime, a function \<open>func(...interface\{\})\<close>, or a nested map.\<close>

datatype cfg_value = CVal gval | CRuntime nat | CSend string | CMap "(string \<times> cfg_value) list"

type_synonym config_map = "cfg_value gomap option"

definition config_string :: "config_map \<Rightarrow> string \<Rightarrow> string" where
  "config_string config key =
     (case config of None \<Rightarrow> [] | Some m \<Rightarrow> (case mget m key of Some (CVal (GStr s)) \<Rightarrow> s | _ \<Rightarrow> []))"

definition cfg_set :: "string \<Rightarrow> cfg_value \<Rightarrow> config_map \<Rightarrow> config_map" where
  "cfg_set key v config = map_option (mput key v) config"

definition GetTaskID :: "config_map \<Rightarrow> string" where "GetTaskID config = config_string config ''__task_id__''"

text \<open>A runtime that is not found is a new one, which the configuration does not hold.\<close>

definition GetRuntime :: "config_map \<Rightarrow> Runtime list \<Rightarrow> Runtime list \<times> nat" where
  "GetRuntime config rts =
     (case config of
        None \<Rightarrow> (rts @ [NewRuntime], length rts)
      | Some m \<Rightarrow> (case mget m ''__runtime__'' of Some (CRuntime a) \<Rightarrow> (rts, a) | _ \<Rightarrow> (rts @ [NewRuntime], length rts)))"

definition SetRuntime :: "nat \<Rightarrow> config_map \<Rightarrow> config_map" where "SetRuntime a config = cfg_set ''__runtime__'' (CRuntime a) config"

definition cfg_any :: "config_map \<Rightarrow> string \<Rightarrow> cfg_value" where
  "cfg_any config key = (case config of None \<Rightarrow> CVal GNil | Some m \<Rightarrow> mget_or (CVal GNil) m key)"

definition GetReader :: "config_map \<Rightarrow> cfg_value" where "GetReader config = cfg_any config ''__read__''"
definition SetReader :: "cfg_value \<Rightarrow> config_map \<Rightarrow> config_map" where "SetReader v config = cfg_set ''__read__'' v config"

definition GetSend :: "config_map \<Rightarrow> string option" where
  "GetSend config = (case config of None \<Rightarrow> None | Some m \<Rightarrow> (case mget m ''__send__'' of Some (CSend f) \<Rightarrow> Some f | _ \<Rightarrow> None))"

definition SetSend :: "string \<Rightarrow> config_map \<Rightarrow> config_map" where "SetSend f config = cfg_set ''__send__'' (CSend f) config"
definition GetWriter :: "config_map \<Rightarrow> cfg_value" where "GetWriter config = cfg_any config ''__writer__''"
definition SetWriter :: "cfg_value \<Rightarrow> config_map \<Rightarrow> config_map" where "SetWriter v config = cfg_set ''__writer__'' v config"

definition Managed_PatchConfig :: "config_map \<Rightarrow> config_map \<Rightarrow> cfg_value gomap" where
  "Managed_PatchConfig base updates =
     (let b = (case base of None \<Rightarrow> [] | Some m \<Rightarrow> m)
      in case updates of None \<Rightarrow> b | Some u \<Rightarrow> mcopy (mcopy [] b) u)"

definition PatchConfigurable :: "config_map \<Rightarrow> config_map \<Rightarrow> cfg_value gomap" where
  "PatchConfigurable base updates =
     (let b = (case base of None \<Rightarrow> [] | Some m \<Rightarrow> m)
      in case updates of
           None \<Rightarrow> b
         | Some u \<Rightarrow>
             (let c0 = (case mget b ''__configurable__'' of Some (CMap m) \<Rightarrow> mcopy [] m | _ \<Rightarrow> [])
              in mput ''__configurable__'' (CMap (mcopy c0 u)) (mcopy [] b)))"

definition GetConfigurable :: "config_map \<Rightarrow> cfg_value gomap option" where
  "GetConfigurable config =
     (case config of None \<Rightarrow> None | Some m \<Rightarrow> (case mget m ''__configurable__'' of Some (CMap c) \<Rightarrow> Some c | _ \<Rightarrow> None))"

definition GetCheckpointNS :: "config_map \<Rightarrow> string" where "GetCheckpointNS config = config_string config ''__checkpoint_ns__''"
definition SetCheckpointNS :: "string \<Rightarrow> config_map \<Rightarrow> config_map" where
  "SetCheckpointNS ns config = cfg_set ''__checkpoint_ns__'' (CVal (GStr ns)) config"

section \<open>Checkpoint namespaces\<close>

definition splitCheckpointNS :: "string \<Rightarrow> string list" where
  "splitCheckpointNS ns = str_split CHR ''|'' ns"

definition ParseCheckpointNS :: "string \<Rightarrow> string list" where
  "ParseCheckpointNS ns = (if ns = [] then [] else splitCheckpointNS ns)"

text \<open>The loop appends the separator and the next part to the result.\<close>

definition joinCheckpointNS :: "string list \<Rightarrow> string" where
  "joinCheckpointNS parts = (case parts of [] \<Rightarrow> [] | x # xs \<Rightarrow> fold (\<lambda>part result. result @ ''|'' @ part) xs x)"

definition hex_digit :: "char \<Rightarrow> bool" where
  "hex_digit c \<longleftrightarrow> c \<in> set ''0123456789abcdef''"

text \<open>The regular expression: groups of 8, 4, 4, 4 and 12 lower-case hexadecimal digits between dashes.\<close>

fun hex_groups :: "nat list \<Rightarrow> string \<Rightarrow> bool" where
  "hex_groups [] s \<longleftrightarrow> s = []"
| "hex_groups [n] s \<longleftrightarrow> length s = n \<and> list_all hex_digit s"
| "hex_groups (n # ns) s \<longleftrightarrow>
     length s > n \<and> list_all hex_digit (take n s) \<and> s ! n = CHR ''-'' \<and> hex_groups ns (drop (Suc n) s)"

definition isTaskID :: "string \<Rightarrow> bool" where
  "isTaskID s \<longleftrightarrow> hex_groups [8, 4, 4, 4, 12] s"

definition RecastCheckpointNS :: "string \<Rightarrow> string" where
  "RecastCheckpointNS ns =
     (let parts = splitCheckpointNS ns
      in if parts = [] then []
         else if isTaskID (last parts) then joinCheckpointNS (butlast parts) else ns)"

definition FormatCheckpoint :: "golib \<Rightarrow> gval gomap option \<Rightarrow> string" where
  "FormatCheckpoint L checkpoint =
     (case checkpoint of
        None \<Rightarrow> ''{}''
      | Some m \<Rightarrow>
          fst (fold (\<lambda>(k, v) (result, first).
            (result @ (if first then [] else '', '') @ [CHR 34] @ k @ [CHR 34] @ '': '' @ fmt_v L v, False)) m (''{'', True)) @ ''}'')"

definition FormatTask :: "golib \<Rightarrow> gval \<Rightarrow> string" where
  "FormatTask L task = (if task = GNil then ''nil'' else fmt_v L task)"

definition FormatValue :: "golib \<Rightarrow> gval \<Rightarrow> string" where
  "FormatValue L v = (if v = GNil then ''null'' else fmt_v L v)"

section \<open>Reading a scratchpad\<close>

text \<open>
  The scratchpad type of the package is not the map type the managed values look for: read through it, every managed value
  returns what it had, and a specification its factory's initial value.
\<close>

lemma scratchpad_not_read:
  "mv_Get (PadScratch p) v = mv_Get PadNil v" "fst (mv_Get (PadScratch p) v) = v"
  by (cases v; simp add: pad_entry_def as_string_map_def)+

lemma managed_value_reads:
  "mget m ''current_step'' = Some (GInt n) \<Longrightarrow> mv_Get (PadMap m) (CurrentStep k) = (CurrentStep n, GInt n)"
  "mget m ''task_id'' = Some (GStr s) \<Longrightarrow> mv_Get (PadMap m) (TaskID t) = (TaskID s, GStr s)"
  "mget m ''configurable'' = Some (GMap c) \<Longrightarrow> mget c key = Some v \<Longrightarrow> snd (mv_Get (PadMap m) (ConfigValue key d)) = v"
  by (simp_all add: pad_entry_def as_string_map_def)

lemma pad_Clear_empty: "pad_Clear p = []"
proof -
  have sub: "set (fold mdel ks m) \<subseteq> {e \<in> set m. fst e \<notin> set ks}" for ks and m :: ManagedPad
    by (induction ks arbitrary: m) (fastforce simp: AList.delete_eq)+
  have "set (fold mdel (mkeys p) p) = {}"
  proof (rule equals0I)
    fix e assume "e \<in> set (fold mdel (mkeys p) p)"
    with sub [of "mkeys p" p] show False by fastforce
  qed
  then show ?thesis by (simp add: pad_Clear_def)
qed

section \<open>Namespaces\<close>

lemma joinCheckpointNS_join: "joinCheckpointNS ps = str_join CHR ''|'' ps"
proof -
  have shift: "fold (\<lambda>part result. result @ ''|'' @ part) xs (a @ b) = a @ fold (\<lambda>part result. result @ ''|'' @ part) xs b" for xs and a b :: string
    by (induction xs arbitrary: b) simp_all
  show ?thesis
  proof (induction ps rule: induct_list012)
    case (3 x y xs)
    then show ?case using shift [of xs "x @ ''|''" y] by (simp add: joinCheckpointNS_def)
  qed (simp_all add: joinCheckpointNS_def)
qed

lemma hex_groups_chars: "hex_groups ns s \<Longrightarrow> c \<in> set s \<Longrightarrow> hex_digit c \<or> c = CHR ''-''"
proof (induction ns s rule: hex_groups.induct)
  case (3 n m ns s)
  then have "s = take n s @ CHR ''-'' # drop (Suc n) s" using id_take_nth_drop [of n s] by simp
  from arg_cong [OF this, of set] have "set s = set (take n s) \<union> {CHR ''-''} \<union> set (drop (Suc n) s)" by simp
  with 3 show ?case by (auto simp: list_all_iff)
qed (auto simp: list_all_iff)

text \<open>
  Joining and parsing a namespace are inverse, and recasting removes exactly a last part that is a task identifier; a
  level of the form \<open>name:id\<close>, the one the engine's constants describe, is never taken for one.
\<close>

lemma namespace_recast:
  assumes "\<forall>p\<in>set ps. CHR ''|'' \<notin> set p" and "ps \<noteq> []" and "joinCheckpointNS ps \<noteq> []"
  shows "ParseCheckpointNS (joinCheckpointNS ps) = ps"
    and "RecastCheckpointNS (joinCheckpointNS ps) = (if isTaskID (last ps) then joinCheckpointNS (butlast ps) else joinCheckpointNS ps)"
  using assms by (simp_all add: joinCheckpointNS_join ParseCheckpointNS_def splitCheckpointNS_def RecastCheckpointNS_def str_split_join)

lemma level_with_id_not_recast: "\<not> isTaskID (name @ '':'' @ tid)"
proof
  assume "isTaskID (name @ '':'' @ tid)"
  then have "hex_digit CHR '':'' \<or> CHR '':'' = CHR ''-''" unfolding isTaskID_def by (rule hex_groups_chars) simp
  then show False by (simp add: hex_digit_def)
qed

section \<open>Merging runtimes\<close>

text \<open>Runtimes with the same fields and the same configurable entries, whatever the order of the map.\<close>

definition same_runtime :: "Runtime \<Rightarrow> Runtime \<Rightarrow> bool" where
  "same_runtime a b \<longleftrightarrow> a\<lparr>rt_Configurable := None\<rparr> = b\<lparr>rt_Configurable := None\<rparr> \<and> Runtime_Get a = Runtime_Get b"

definition runtime_ok :: "Runtime \<Rightarrow> bool" where
  "runtime_ok r \<longleftrightarrow> (case rt_Configurable r of None \<Rightarrow> False | Some m \<Rightarrow> gomap_ok m)"

definition merge_rt :: "Runtime \<Rightarrow> Runtime \<Rightarrow> Runtime" where
  "merge_rt r ot = projr (Runtime_Merge (Some ot) r)"

lemma merge_defined:
  assumes "runtime_ok a" and "runtime_ok b"
  shows "Runtime_Merge (Some b) a = Inr (merge_rt a b) \<and> runtime_ok (merge_rt a b) \<and>
    Runtime_Get (merge_rt a b) = Runtime_Get a ++ Runtime_Get b"
proof -
  obtain m where m: "rt_Configurable a = Some m" "gomap_ok m" using assms(1) by (auto simp: runtime_ok_def split: option.splits)
  obtain k where k: "rt_Configurable b = Some k" "gomap_ok k" using assms(2) by (auto simp: runtime_ok_def split: option.splits)
  have "gomap_ok (mcopy [] m)" "mget (mcopy [] m) = mget m" using m(2) by (simp_all add: mget_mcopy gomap_ok_mcopy)
  moreover have "Runtime_Get r = mget cs" if "rt_Configurable r = Some cs" for r cs
    using that by (simp add: Runtime_Get_def fun_eq_iff)
  ultimately show ?thesis
    using k(2)
    by (cases k) (simp_all add: merge_rt_def Runtime_Merge_def Runtime_Clone_def cloneMap_def m(1) k(1) runtime_ok_def
      mget_mcopy gomap_ok_mcopy Let_def del: map_of.simps(2))
qed

text \<open>The fields beside the map: the argument's unless they are zero.\<close>

definition pick :: "'a \<Rightarrow> 'a \<Rightarrow> 'a \<Rightarrow> 'a" where "pick z b a = (if b \<noteq> z then b else a)"

lemma pick_laws: "pick z (pick z c b) a = pick z c (pick z b a)" "pick z z a = a" "pick z a z = a"
  by (simp_all add: pick_def)

definition over :: "Runtime \<Rightarrow> Runtime \<Rightarrow> Runtime" where
  "over a b =
    \<lparr>rt_TaskID = pick [] (rt_TaskID b) (rt_TaskID a), rt_NodeName = pick [] (rt_NodeName b) (rt_NodeName a),
     rt_Step = pick 0 (rt_Step b) (rt_Step a), rt_Configurable = None,
     rt_CheckpointNS = pick [] (rt_CheckpointNS b) (rt_CheckpointNS a),
     rt_Context = pick GNil (rt_Context b) (rt_Context a), rt_Store = pick GNil (rt_Store b) (rt_Store a),
     rt_StreamWriter = pick None (rt_StreamWriter b) (rt_StreamWriter a),
     rt_Previous = pick GNil (rt_Previous b) (rt_Previous a)\<rparr>"

lemma over_map: "over (a\<lparr>rt_Configurable := x\<rparr>) b = over a b" "over a (b\<lparr>rt_Configurable := x\<rparr>) = over a b"
  by (simp_all add: over_def)

lemma over_assoc: "over (over a b) c = over a (over b c)"
  by (simp add: over_def pick_laws)

lemma over_new: "over a NewRuntime = a\<lparr>rt_Configurable := None\<rparr>" "over NewRuntime a = a\<lparr>rt_Configurable := None\<rparr>"
  by (simp_all add: over_def NewRuntime_def pick_laws)

lemma merge_fields:
  assumes "runtime_ok a" and "runtime_ok b"
  shows "(merge_rt a b)\<lparr>rt_Configurable := None\<rparr> = over a b"
proof -
  obtain m where m: "rt_Configurable a = Some m" using assms(1) by (auto simp: runtime_ok_def split: option.splits)
  obtain k where k: "rt_Configurable b = Some k" using assms(2) by (auto simp: runtime_ok_def split: option.splits)
  show ?thesis
    by (cases k) (simp_all add: merge_rt_def Runtime_Merge_def Runtime_Clone_def cloneMap_def m k Let_def over_def nil_to_def pick_def)
qed

lemma merge_assoc:
  assumes "runtime_ok a" and "runtime_ok b" and "runtime_ok c"
  shows "same_runtime (merge_rt (merge_rt a b) c) (merge_rt a (merge_rt b c))"
proof -
  note ab = merge_defined [OF assms(1,2)] and bc = merge_defined [OF assms(2,3)]
  have "over (merge_rt a b) c = over a (merge_rt b c)"
    using over_map(1) [where a = "merge_rt a b" and x = None and b = c] over_map(2) [where a = a and b = "merge_rt b c" and x = None]
    by (simp only: merge_fields [OF assms(1,2)] merge_fields [OF assms(2,3)] over_assoc)
  with ab bc assms show ?thesis
    by (simp add: same_runtime_def merge_fields merge_defined [of "merge_rt a b" c] merge_defined [of a "merge_rt b c"])
qed

lemma NewRuntime_ok: "runtime_ok NewRuntime" "Runtime_Get NewRuntime = Map.empty"
  by (simp_all add: runtime_ok_def NewRuntime_def Runtime_Get_def fun_eq_iff)

text \<open>Merging runtimes. Among runtimes whose configurable map is allocated, merging never panics, is associative and has
  the new runtime as its neutral element; the entries of the argument win and its zero fields leave those of the receiver. On a receiver without
  a map, such as the default runtime, merging panics exactly when the argument has a configurable entry.\<close>

theorem runtime_merge_laws:
  assumes "runtime_ok a" and "runtime_ok b" and "runtime_ok c" and "rt_Configurable d = None"
  shows "(\<exists>ab bc. Runtime_Merge (Some b) a = Inr ab \<and> Runtime_Merge (Some c) b = Inr bc \<and> Runtime_Get ab = Runtime_Get a ++ Runtime_Get b \<and>
      (\<exists>l r. Runtime_Merge (Some c) ab = Inr l \<and> Runtime_Merge (Some bc) a = Inr r \<and> same_runtime l r)) \<and>
    (\<exists>l r. Runtime_Merge (Some NewRuntime) a = Inr l \<and> Runtime_Merge (Some a) NewRuntime = Inr r \<and> same_runtime l a \<and> same_runtime r a) \<and>
    (isl (Runtime_Merge (Some a) d) \<longleftrightarrow> (\<exists>k v. Runtime_Get a k = Some v))"
proof -
  note ab = merge_defined [OF assms(1,2)] and bc = merge_defined [OF assms(2,3)]
  have "Runtime_Merge (Some c) (merge_rt a b) = Inr (merge_rt (merge_rt a b) c)"
    "Runtime_Merge (Some (merge_rt b c)) a = Inr (merge_rt a (merge_rt b c))"
    using ab bc merge_defined [of "merge_rt a b" c] merge_defined [of a "merge_rt b c"] assms by blast+
  with ab bc merge_assoc [OF assms(1-3)] have assoc: "\<exists>ab bc. Runtime_Merge (Some b) a = Inr ab \<and> Runtime_Merge (Some c) b = Inr bc \<and>
      Runtime_Get ab = Runtime_Get a ++ Runtime_Get b \<and>
      (\<exists>l r. Runtime_Merge (Some c) ab = Inr l \<and> Runtime_Merge (Some bc) a = Inr r \<and> same_runtime l r)" by blast
  have neutral: "same_runtime (merge_rt a NewRuntime) a" "same_runtime (merge_rt NewRuntime a) a"
    using merge_defined [OF assms(1) NewRuntime_ok(1)] merge_defined [OF NewRuntime_ok(1) assms(1)]
    by (simp_all add: same_runtime_def merge_fields assms(1) NewRuntime_ok over_new)
  obtain m where m: "rt_Configurable a = Some m" using assms(1) by (auto simp: runtime_ok_def split: option.splits)
  have "isl (Runtime_Merge (Some a) d) \<longleftrightarrow> (\<exists>k v. Runtime_Get a k = Some v)"
    by (cases m) (auto simp: Runtime_Merge_def Runtime_Clone_def cloneMap_def Runtime_Get_def assms(4) m Let_def)
  with assoc neutral merge_defined [OF assms(1) NewRuntime_ok(1)] merge_defined [OF NewRuntime_ok(1) assms(1)]
  show ?thesis by blast
qed

definition rt_a :: Runtime where "rt_a = NewRuntime\<lparr>rt_TaskID := ''t'', rt_Configurable := Some [(''x'', GBool True)]\<rparr>"
definition rt_b :: Runtime where "rt_b = NewRuntime\<lparr>rt_Step := 2, rt_Configurable := Some [(''x'', GBool False), (''y'', GNil)]\<rparr>"

theorem runtime_merge_laws_witness:
  "(\<exists>ab. Runtime_Merge (Some rt_b) rt_a = Inr ab \<and> Runtime_Get ab ''x'' = Some (GBool False)) \<and> isl (Runtime_Merge (Some rt_a) DEFAULT_RUNTIME)"
proof -
  have ok: "runtime_ok rt_a" "runtime_ok rt_b" "rt_Configurable DEFAULT_RUNTIME = None"
    by (simp_all add: runtime_ok_def rt_a_def rt_b_def DEFAULT_RUNTIME_def gomap_ok_def)
  have "Runtime_Get rt_b ''x'' = Some (GBool False)" "Runtime_Get rt_a ''x'' = Some (GBool True)"
    by (simp_all add: Runtime_Get_def rt_a_def rt_b_def)
  with runtime_merge_laws [OF ok(1,2) ok(1) ok(3)] show ?thesis by (metis map_add_find_right)
qed

end
