(* ===== verification/Event_Stream.thy ===== *)
theory Event_Stream
  imports Go_Base "HOL-Library.Sublist"
begin

text \<open>
  The stream of execution events (\<open>pregel/stream.go\<close>): the stream manager with its bounded event channel and
  the filter of each mode, the writer nodes use, the cancellable event stream and the stream processor. The
  clock is an argument, an error is known by its text, and a channel is the list of the events in its buffer. What a node or the
  consumer does in between is another step of the machine.
\<close>

section \<open>Events\<close>

datatype StreamEventType =
    EventTypeCheckpoint | EventTypeTaskStart | EventTypeTaskEnd | EventTypeUpdate | EventTypeValues | EventTypeInterrupt
  | EventTypeError | EventTypeFinal | EventTypeDebug

datatype StreamMode =
    StreamModeValues | StreamModeUpdates | StreamModeCustom | StreamModeMessages | StreamModeCheckpoints | StreamModeTasks
  | StreamModeDebug | StreamModeOther string

record StreamEvent =
  SeType :: StreamEventType
  SeTimestamp :: int
  SeStep :: int
  SeNode :: string
  SeTaskID :: string
  SeData :: gval
  SeError :: "string option"

definition NewStreamEvent :: "StreamEventType \<Rightarrow> int \<Rightarrow> int \<Rightarrow> StreamEvent" where
  "NewStreamEvent eventType now step =
     \<lparr>SeType = eventType, SeTimestamp = now, SeStep = step, SeNode = [], SeTaskID = [], SeData = GMap [], SeError = None\<rparr>"

section \<open>The stream manager\<close>

record StreamManager =
  sm_mode :: StreamMode
  sm_eventCh :: "StreamEvent list"
  sm_bufferSize :: nat
  sm_includeFilter :: "StreamEventType list"
  sm_closed :: bool

text \<open>The event types a mode sets to true.\<close>

fun setupIncludeFilter :: "StreamMode \<Rightarrow> StreamEventType list" where
  "setupIncludeFilter StreamModeValues = [EventTypeValues, EventTypeFinal]"
| "setupIncludeFilter StreamModeUpdates = [EventTypeUpdate, EventTypeFinal]"
| "setupIncludeFilter StreamModeTasks = [EventTypeTaskStart, EventTypeTaskEnd, EventTypeError, EventTypeFinal]"
| "setupIncludeFilter StreamModeCheckpoints = [EventTypeCheckpoint, EventTypeFinal]"
| "setupIncludeFilter StreamModeDebug =
     [EventTypeCheckpoint, EventTypeTaskStart, EventTypeTaskEnd, EventTypeUpdate, EventTypeValues, EventTypeInterrupt,
      EventTypeError, EventTypeDebug, EventTypeFinal]"
| "setupIncludeFilter _ = [EventTypeValues, EventTypeFinal]"

definition NewStreamManager :: "StreamMode \<Rightarrow> int \<Rightarrow> StreamManager" where
  "NewStreamManager mode bufferSize =
     \<lparr>sm_mode = mode, sm_eventCh = [], sm_bufferSize = nat (if bufferSize \<le> 0 then 100 else bufferSize),
      sm_includeFilter = setupIncludeFilter mode, sm_closed = False\<rparr>"

definition shouldEmit :: "StreamManager \<Rightarrow> StreamEventType \<Rightarrow> bool" where
  "shouldEmit sm t \<longleftrightarrow> t \<in> set (sm_includeFilter sm)"

text \<open>A closed manager and a full channel drop the event.\<close>

definition emit :: "StreamEvent \<Rightarrow> StreamManager \<Rightarrow> StreamManager" where
  "emit event sm =
     (if sm_closed sm then sm
      else if length (sm_eventCh sm) < sm_bufferSize sm then sm\<lparr>sm_eventCh := sm_eventCh sm @ [event]\<rparr>
      else sm)"

definition EmitCheckpoint :: "int \<Rightarrow> int \<Rightarrow> gval gomap \<Rightarrow> StreamManager \<Rightarrow> StreamManager" where
  "EmitCheckpoint now step checkpoint sm =
     (if \<not> shouldEmit sm EventTypeCheckpoint then sm
      else emit ((NewStreamEvent EventTypeCheckpoint now step)\<lparr>SeData := GMap [(''checkpoint'', GMap checkpoint)]\<rparr>) sm)"

definition EmitTaskStart :: "int \<Rightarrow> int \<Rightarrow> string \<Rightarrow> string \<Rightarrow> StreamManager \<Rightarrow> StreamManager" where
  "EmitTaskStart now step node taskID sm =
     (if \<not> shouldEmit sm EventTypeTaskStart then sm
      else emit ((NewStreamEvent EventTypeTaskStart now step)
             \<lparr>SeNode := node, SeTaskID := taskID, SeData := GMap [(''node'', GStr node), (''task_id'', GStr taskID)]\<rparr>) sm)"

text \<open>\<open>durationText\<close> is the text of the duration.\<close>

definition EmitTaskEnd :: "int \<Rightarrow> int \<Rightarrow> string \<Rightarrow> string \<Rightarrow> gval \<Rightarrow> string \<Rightarrow> string option \<Rightarrow> StreamManager \<Rightarrow> StreamManager" where
  "EmitTaskEnd now step node taskID output durationText err sm =
     (if \<not> shouldEmit sm EventTypeTaskEnd then sm
      else emit ((NewStreamEvent EventTypeTaskEnd now step)
             \<lparr>SeNode := node, SeTaskID := taskID, SeError := err,
              SeData := GMap [(''node'', GStr node), (''task_id'', GStr taskID), (''output'', output), (''duration'', GStr durationText)]\<rparr>) sm)"

definition EmitUpdate :: "int \<Rightarrow> int \<Rightarrow> string \<Rightarrow> gval \<Rightarrow> StreamManager \<Rightarrow> StreamManager" where
  "EmitUpdate now step node output sm =
     (if \<not> shouldEmit sm EventTypeUpdate then sm
      else emit ((NewStreamEvent EventTypeUpdate now step)
             \<lparr>SeNode := node, SeData := GMap [(''node'', GStr node), (''output'', output)]\<rparr>) sm)"

definition EmitValues :: "int \<Rightarrow> int \<Rightarrow> gval gomap \<Rightarrow> StreamManager \<Rightarrow> StreamManager" where
  "EmitValues now step values sm =
     (if \<not> shouldEmit sm EventTypeValues then sm
      else emit ((NewStreamEvent EventTypeValues now step)\<lparr>SeData := GMap [(''values'', GMap values)]\<rparr>) sm)"

definition EmitInterrupt :: "int \<Rightarrow> int \<Rightarrow> string list \<Rightarrow> StreamManager \<Rightarrow> StreamManager" where
  "EmitInterrupt now step interrupts sm =
     (if \<not> shouldEmit sm EventTypeInterrupt then sm
      else emit ((NewStreamEvent EventTypeInterrupt now step)
             \<lparr>SeData := GMap [(''interrupts'', GTyped (TSlice TString) (GSlice (map GStr interrupts)))]\<rparr>) sm)"

definition Stream_EmitError :: "int \<Rightarrow> int \<Rightarrow> string \<Rightarrow> string \<Rightarrow> StreamManager \<Rightarrow> StreamManager" where
  "Stream_EmitError now step err node sm =
     (if \<not> shouldEmit sm EventTypeError then sm
      else emit ((NewStreamEvent EventTypeError now step)
             \<lparr>SeNode := node, SeError := Some err, SeData := GMap [(''node'', GStr node), (''error'', GStr err)]\<rparr>) sm)"

definition EmitDebug :: "int \<Rightarrow> int \<Rightarrow> string \<Rightarrow> gval \<Rightarrow> StreamManager \<Rightarrow> StreamManager" where
  "EmitDebug now step message dat sm =
     (if \<not> shouldEmit sm EventTypeDebug then sm
      else emit ((NewStreamEvent EventTypeDebug now step)\<lparr>SeData := GMap [(''message'', GStr message), (''data'', dat)]\<rparr>) sm)"

text \<open>The final event is sent without the test for a closed manager: it waits while the channel is full and panics on a closed one.\<close>

datatype send_outcome = Sent StreamManager | Waits | SendPanics

definition final_event :: "int \<Rightarrow> int \<Rightarrow> gval \<Rightarrow> StreamEvent" where
  "final_event now step state = (NewStreamEvent EventTypeFinal now step)\<lparr>SeData := GMap [(''state'', state)]\<rparr>"

definition EmitFinal :: "int \<Rightarrow> int \<Rightarrow> gval \<Rightarrow> StreamManager \<Rightarrow> send_outcome" where
  "EmitFinal now step state sm =
     (if \<not> shouldEmit sm EventTypeFinal then Sent sm
      else if sm_closed sm then SendPanics
      else if length (sm_eventCh sm) < sm_bufferSize sm then Sent (sm\<lparr>sm_eventCh := sm_eventCh sm @ [final_event now step state]\<rparr>)
      else Waits)"

definition Stream_Close :: "StreamManager \<Rightarrow> StreamManager" where
  "Stream_Close sm = (if \<not> sm_closed sm then sm\<lparr>sm_closed := True\<rparr> else sm)"

text \<open>A receive from \<open>Events()\<close>: an event, the end of a closed and drained channel, or nothing yet.\<close>

datatype receive_outcome = Received StreamEvent StreamManager | EndOfStream | NothingYet

definition receive :: "StreamManager \<Rightarrow> receive_outcome" where
  "receive sm =
     (case sm_eventCh sm of
        e # es \<Rightarrow> Received e (sm\<lparr>sm_eventCh := es\<rparr>)
      | [] \<Rightarrow> if sm_closed sm then EndOfStream else NothingYet)"

section \<open>The writer of a node\<close>

record StreamWriter =
  sw_step :: int
  sw_node :: string

definition StreamWriter_Write :: "int \<Rightarrow> StreamWriter \<Rightarrow> gval \<Rightarrow> StreamManager \<Rightarrow> StreamManager" where
  "StreamWriter_Write now w dat sm = EmitDebug now (sw_step w) (''custom output from node '' @ sw_node w) dat sm"

definition WriteJSON :: "golib \<Rightarrow> int \<Rightarrow> StreamWriter \<Rightarrow> gval \<Rightarrow> StreamManager \<Rightarrow> StreamManager \<times> bool" where
  "WriteJSON L now w dat sm =
     (case json_marshal L dat of None \<Rightarrow> (sm, False) | Some j \<Rightarrow> (StreamWriter_Write now w (GBytes j) sm, True))"

section \<open>The cancellable event stream\<close>

record EventStream =
  es_events :: "StreamEvent list"
  es_errors :: "string list"
  es_cancelled :: bool

definition NewEventStream :: EventStream where
  "NewEventStream = \<lparr>es_events = [], es_errors = [], es_cancelled = False\<rparr>"

datatype es_outcome = EsDone EventStream | EsWaits | EsPanics

text \<open>\<open>Cancel\<close> cancels the context and closes both channels; closing them again panics.\<close>

definition es_Cancel :: "EventStream \<Rightarrow> es_outcome" where
  "es_Cancel es = (if es_cancelled es then EsPanics else EsDone (es\<lparr>es_cancelled := True\<rparr>))"

text \<open>On a cancelled stream both cases of the \<open>select\<close> are ready, and \<open>pick_send\<close> says which one the runtime takes.\<close>

definition es_Emit :: "bool \<Rightarrow> StreamEvent \<Rightarrow> EventStream \<Rightarrow> es_outcome" where
  "es_Emit pick_send event es =
     (if es_cancelled es then (if pick_send then EsPanics else EsDone es)
      else if length (es_events es) < 100 then EsDone (es\<lparr>es_events := es_events es @ [event]\<rparr>) else EsWaits)"

definition es_EmitError :: "bool \<Rightarrow> string \<Rightarrow> EventStream \<Rightarrow> es_outcome" where
  "es_EmitError pick_send err es =
     (if es_cancelled es then (if pick_send then EsPanics else EsDone es)
      else if length (es_errors es) < 10 then EsDone (es\<lparr>es_errors := es_errors es @ [err]\<rparr>) else EsWaits)"

section \<open>The stream processor\<close>

text \<open>The handler's effect is the list of the events it has been called with.\<close>

record StreamProcessor =
  sp_filter :: "StreamEvent \<Rightarrow> bool"
  sp_transform :: "StreamEvent \<Rightarrow> string + StreamEvent"

definition NewStreamProcessor :: StreamProcessor where
  "NewStreamProcessor = \<lparr>sp_filter = (\<lambda>e. True), sp_transform = Inr\<rparr>"

definition WithFilter :: "(StreamEvent \<Rightarrow> bool) \<Rightarrow> StreamProcessor \<Rightarrow> StreamProcessor" where "WithFilter f sp = sp\<lparr>sp_filter := f\<rparr>"
definition WithTransform :: "(StreamEvent \<Rightarrow> string + StreamEvent) \<Rightarrow> StreamProcessor \<Rightarrow> StreamProcessor" where
  "WithTransform f sp = sp\<lparr>sp_transform := f\<rparr>"

definition Process :: "StreamProcessor \<Rightarrow> StreamEvent \<Rightarrow> StreamEvent list \<Rightarrow> StreamEvent list \<times> string option" where
  "Process sp event handled =
     (if \<not> sp_filter sp event then (handled, None)
      else case sp_transform sp event of Inl err \<Rightarrow> (handled, Some err) | Inr e \<Rightarrow> (handled @ [e], None))"

text \<open>What the \<open>select\<close> of the loop sees next: an event, the cancelled context or the closed channel.\<close>

datatype stream_input = InEvent StreamEvent | InCancelled | InClosed

datatype process_result = StreamEnded | StreamFailed string | StreamCancelled | StillOpen

fun ProcessStream :: "StreamProcessor \<Rightarrow> stream_input list \<Rightarrow> StreamEvent list \<Rightarrow> StreamEvent list \<times> process_result" where
  "ProcessStream sp [] handled = (handled, StillOpen)"
| "ProcessStream sp (InCancelled # is) handled = (handled, StreamCancelled)"
| "ProcessStream sp (InClosed # is) handled = (handled, StreamEnded)"
| "ProcessStream sp (InEvent e # is) handled =
     (case Process sp e handled of
        (handled', Some err) \<Rightarrow> (handled', StreamFailed err)
      | (handled', None) \<Rightarrow> ProcessStream sp is handled')"

section \<open>What is delivered\<close>

text \<open>The calls of the engine that emit, with the event each one builds.\<close>

datatype stream_call =
    CallCheckpoint int int "gval gomap" | CallTaskStart int int string string
  | CallTaskEnd int int string string gval string "string option" | CallUpdate int int string gval
  | CallValues int int "gval gomap" | CallInterrupt int int "string list" | CallError int int string string
  | CallDebug int int string gval

fun stream_do :: "stream_call \<Rightarrow> StreamManager \<Rightarrow> StreamManager" where
  "stream_do (CallCheckpoint now step c) sm = EmitCheckpoint now step c sm"
| "stream_do (CallTaskStart now step n t) sm = EmitTaskStart now step n t sm"
| "stream_do (CallTaskEnd now step n t v d e) sm = EmitTaskEnd now step n t v d e sm"
| "stream_do (CallUpdate now step n v) sm = EmitUpdate now step n v sm"
| "stream_do (CallValues now step vs) sm = EmitValues now step vs sm"
| "stream_do (CallInterrupt now step ns) sm = EmitInterrupt now step ns sm"
| "stream_do (CallError now step e n) sm = Stream_EmitError now step e n sm"
| "stream_do (CallDebug now step m v) sm = EmitDebug now step m v sm"

text \<open>The event a call builds, as a manager that lets everything through receives it.\<close>

definition call_event :: "stream_call \<Rightarrow> StreamEvent" where
  "call_event c = hd (sm_eventCh (stream_do c (NewStreamManager StreamModeDebug 1)))"

lemmas emit_defs = EmitCheckpoint_def EmitTaskStart_def EmitTaskEnd_def EmitUpdate_def EmitValues_def EmitInterrupt_def
  Stream_EmitError_def EmitDebug_def NewStreamEvent_def

lemma stream_do_emits:
  "SeType (call_event c) \<noteq> EventTypeFinal"
  "stream_do c sm = (if shouldEmit sm (SeType (call_event c)) then emit (call_event c) sm else sm)"
  by (cases c; simp add: call_event_def emit_defs emit_def NewStreamManager_def shouldEmit_def)+

text \<open>
  The manager, the events received so far, and the events that were admitted: those the mode lets through, emitted before the manager was closed.
\<close>

inductive stream_reach :: "StreamMode \<Rightarrow> int \<Rightarrow> StreamManager \<Rightarrow> StreamEvent list \<Rightarrow> StreamEvent list \<Rightarrow> bool" for mode buf where
  reach_start: "stream_reach mode buf (NewStreamManager mode buf) [] []"
| reach_call: "stream_reach mode buf sm got sent \<Longrightarrow>
    sent' = (if shouldEmit sm (SeType (call_event c)) \<and> \<not> sm_closed sm then sent @ [call_event c] else sent) \<Longrightarrow>
    stream_reach mode buf (stream_do c sm) got sent'"
| reach_final: "stream_reach mode buf sm got sent \<Longrightarrow> EmitFinal now step st sm = Sent sm' \<Longrightarrow>
    stream_reach mode buf sm' got (sent @ [final_event now step st])"
| reach_receive: "stream_reach mode buf sm got sent \<Longrightarrow> receive sm = Received e sm' \<Longrightarrow> stream_reach mode buf sm' (got @ [e]) sent"
| reach_close: "stream_reach mode buf sm got sent \<Longrightarrow> stream_reach mode buf (Stream_Close sm) got sent"

definition is_final :: "StreamEvent \<Rightarrow> bool" where "is_final e \<longleftrightarrow> SeType e = EventTypeFinal"

definition stream_ok :: "StreamMode \<Rightarrow> int \<Rightarrow> StreamManager \<Rightarrow> StreamEvent list \<Rightarrow> StreamEvent list \<Rightarrow> bool" where
  "stream_ok mode buf sm got sent \<longleftrightarrow>
     sm_includeFilter sm = setupIncludeFilter mode \<and> sm_bufferSize sm = nat (if buf \<le> 0 then 100 else buf) \<and>
     length (sm_eventCh sm) \<le> sm_bufferSize sm \<and> (length sent \<le> sm_bufferSize sm \<longrightarrow> got @ sm_eventCh sm = sent) \<and>
     subseq (got @ sm_eventCh sm) sent \<and> filter is_final (got @ sm_eventCh sm) = filter is_final sent \<and>
     (\<forall>e\<in>set sent. SeType e \<in> set (setupIncludeFilter mode))"

lemma final_always: "EventTypeFinal \<in> set (setupIncludeFilter mode)"
  by (cases mode) simp_all

lemma subseq_snoc: "subseq xs ys \<Longrightarrow> subseq xs (ys @ [y])"
  by (rule subseq_rev_drop_many)

lemma subseq_keep: "subseq (xs @ zs) ys \<Longrightarrow> subseq (xs @ zs @ [y]) (ys @ [y])"
  using list_emb_append_mono [of "(=)" "xs @ zs" ys "[y]" "[y]"] by simp

lemma emit_ok:
  assumes "stream_ok mode buf sm got sent" and "shouldEmit sm (SeType e)" and "\<not> is_final e" and "\<not> sm_closed sm"
  shows "stream_ok mode buf (emit e sm) got (sent @ [e])"
  using assms unfolding stream_ok_def emit_def shouldEmit_def
  by (auto simp: subseq_snoc subseq_keep)

lemma stream_reach_ok: "stream_reach mode buf sm got sent \<Longrightarrow> stream_ok mode buf sm got sent"
proof (induction rule: stream_reach.induct)
  case reach_start
  then show ?case by (auto simp: stream_ok_def NewStreamManager_def)
next
  case (reach_call sm got sent sent' c)
  show ?case
  proof (cases "shouldEmit sm (SeType (call_event c)) \<and> \<not> sm_closed sm")
    case True
    with reach_call emit_ok [of mode buf sm got sent "call_event c"] stream_do_emits(1) [of c] show ?thesis
      by (simp add: stream_do_emits(2) is_final_def)
  next
    case False
    with reach_call show ?thesis by (auto simp: stream_do_emits(2) emit_def)
  qed
next
  case (reach_final sm got sent now step st sm')
  then have "sm' = sm\<lparr>sm_eventCh := sm_eventCh sm @ [final_event now step st]\<rparr>" "length (sm_eventCh sm) < sm_bufferSize sm"
    using final_always [of mode] by (auto simp: EmitFinal_def shouldEmit_def stream_ok_def split: if_splits)
  with reach_final.IH show ?case
    using final_always [of mode]
    by (auto simp: stream_ok_def is_final_def final_event_def NewStreamEvent_def subseq_keep)
next
  case (reach_receive sm got sent e sm')
  then obtain es where "sm_eventCh sm = e # es" "sm' = sm\<lparr>sm_eventCh := es\<rparr>"
    by (auto simp: receive_def split: list.splits if_splits)
  with reach_receive.IH show ?case by (simp add: stream_ok_def)
next
  case (reach_close sm got sent)
  then show ?case by (simp add: stream_ok_def Stream_Close_def)
qed

text \<open>C31: What a stream delivers. In every state reachable from a new manager, the events received and buffered
  are a subsequence of the admitted ones, in their order and of the types of the mode, and all of them while no more
  were admitted than the channel holds; the buffer never exceeds its size. Final events are never lost:
  their emission waits while the channel is full, which a receive ends, and panics exactly when the manager
  is closed.\<close>

theorem stream_delivery:
  assumes "stream_reach mode buf sm got sent"
  shows "subseq (got @ sm_eventCh sm) sent \<and> (\<forall>e\<in>set sent. SeType e \<in> set (setupIncludeFilter mode)) \<and>
    length (sm_eventCh sm) \<le> nat (if buf \<le> 0 then 100 else buf) \<and>
    (length sent \<le> nat (if buf \<le> 0 then 100 else buf) \<longrightarrow> got @ sm_eventCh sm = sent) \<and>
    filter is_final (got @ sm_eventCh sm) = filter is_final sent \<and>
    (EmitFinal now step st sm = SendPanics \<longleftrightarrow> sm_closed sm) \<and>
    (EmitFinal now step st sm = Waits \<longrightarrow> (\<exists>e sm'. receive sm = Received e sm' \<and> EmitFinal now step st sm' \<noteq> Waits))"
proof -
  have ok: "stream_ok mode buf sm got sent" by (rule stream_reach_ok [OF assms])
  then have final: "shouldEmit sm EventTypeFinal" using final_always [of mode] by (simp add: stream_ok_def shouldEmit_def)
  have "\<exists>e sm'. receive sm = Received e sm' \<and> EmitFinal now step st sm' \<noteq> Waits" if "EmitFinal now step st sm = Waits"
  proof -
    have full: "length (sm_eventCh sm) = sm_bufferSize sm"
      using that ok by (auto simp: EmitFinal_def stream_ok_def split: if_splits)
    moreover have "0 < sm_bufferSize sm" using ok by (simp add: stream_ok_def)
    ultimately obtain e es where "sm_eventCh sm = e # es" by (cases "sm_eventCh sm") auto
    with full show ?thesis by (auto simp: receive_def EmitFinal_def)
  qed
  with ok final show ?thesis by (auto simp: stream_ok_def EmitFinal_def)
qed

text \<open>A values stream with room for one event: the second event is dropped, the final one is sent after the first is received.\<close>

definition one_values :: stream_call where "one_values = CallValues 0 1 []"

theorem stream_delivery_witness:
  "\<exists>sm got sent. subseq (got @ sm_eventCh sm) sent \<and> length sent = 3 \<and> length (got @ sm_eventCh sm) = 2 \<and>
     filter is_final (got @ sm_eventCh sm) = [final_event 5 2 GNil] \<and> EmitFinal 6 2 GNil (Stream_Close sm) = SendPanics"
proof -
  let ?m0 = "NewStreamManager StreamModeValues 1"
  let ?m1 = "stream_do one_values ?m0"
  let ?e = "call_event one_values"
  have admitted: "shouldEmit ?m0 (SeType ?e) \<and> \<not> sm_closed ?m0" "shouldEmit ?m1 (SeType ?e) \<and> \<not> sm_closed ?m1" by code_simp+
  have r1: "stream_reach StreamModeValues 1 ?m1 [] [?e]"
    using reach_call [OF reach_start, where sent' = "[?e]" and c = one_values] admitted by simp
  have r2: "stream_reach StreamModeValues 1 (stream_do one_values ?m1) [] [?e, ?e]"
    using reach_call [OF r1, where sent' = "[?e, ?e]" and c = one_values] admitted by simp
  have "receive (stream_do one_values ?m1) = Received ?e ?m0" by code_simp
  from reach_receive [OF r2 this] have r3: "stream_reach StreamModeValues 1 ?m0 [?e] [?e, ?e]" by simp
  let ?m4 = "?m0\<lparr>sm_eventCh := [final_event 5 2 GNil]\<rparr>"
  have "EmitFinal 5 2 GNil ?m0 = Sent ?m4" by code_simp
  from reach_final [OF r3 this] have r4: "stream_reach StreamModeValues 1 ?m4 [?e] [?e, ?e, final_event 5 2 GNil]" by simp
  have "filter is_final [?e, final_event 5 2 GNil] = [final_event 5 2 GNil]" by code_simp
  moreover have "sm_closed (Stream_Close ?m4)" by (simp add: Stream_Close_def)
  moreover note stream_delivery [OF r4] stream_delivery [OF reach_close [OF r4], of 6 2 GNil]
  ultimately show ?thesis
    by (intro exI [of _ ?m4] exI [of _ "[?e]"] exI [of _ "[?e, ?e, final_event 5 2 GNil]"]) auto
qed

text \<open>Custom output of nodes is emitted as debug events: it is dropped in every mode but the debug mode, the custom mode included.\<close>

lemma custom_output_lost: "stream_reach mode buf sm got sent \<Longrightarrow> mode \<noteq> StreamModeDebug \<Longrightarrow> StreamWriter_Write now w d sm = sm"
  by (drule stream_reach_ok) (cases mode; simp add: stream_ok_def StreamWriter_Write_def EmitDebug_def shouldEmit_def)

text \<open>
  Processing a stream: the handler has seen the transformed events that pass the filter, up to the first one whose
  transformation fails.
\<close>

lemma process_stream_prefix:
  "\<forall>e\<in>set es. sp_filter sp e \<longrightarrow> (\<exists>t. sp_transform sp e = Inr t) \<Longrightarrow>
   ProcessStream sp (map InEvent es @ is) handled =
   ProcessStream sp is (handled @ map (projr \<circ> sp_transform sp) (filter (sp_filter sp) es))"
  by (induction es arbitrary: handled) (auto simp: Process_def)

lemma process_stream_fails:
  "\<forall>e\<in>set es. sp_filter sp e \<longrightarrow> (\<exists>t. sp_transform sp e = Inr t) \<Longrightarrow> sp_filter sp e \<Longrightarrow> sp_transform sp e = Inl err \<Longrightarrow>
   ProcessStream sp (map InEvent es @ InEvent e # is) handled =
     (handled @ map (projr \<circ> sp_transform sp) (filter (sp_filter sp) es), StreamFailed err)"
  by (simp add: process_stream_prefix Process_def)

end
