(* ===== verification/Optimized_Engine.thy ===== *)
theory Optimized_Engine
  imports Engine_Run Store
begin

text \<open>
  The optimised engine (\<open>pregel/optimized.go\<close>): dependencies between tasks and the steps they are bumped to, the
  order of tasks by priority and path, the deterministic variant of applying writes with its finish notification, and the
  queue of tasks ordered by the length of their paths. The notification of one task only prints a line and is left out.
\<close>

section \<open>Tasks with paths\<close>

record PathTask = Task +
  TkPath :: "string list"

record PathResult = TaskResult +
  TrPath :: "string list"

record OptimizedEngineConfig =
  OcBumpStep :: bool
  OcFinishNotification :: bool
  OcTaskPriority :: bool

record TaskWithPriority =
  TpTask :: PathTask
  TpPriority :: "64 word"
  TpNamespace :: string
  TpPath :: "string list"

text \<open>A \<open>map[string]bool\<close> in which only true is stored is the list of its keys; \<open>stepQueue\<close> is a map from step numbers.\<close>

record PregelOptimizedEngine =
  oe_engine :: Engine
  oe_config :: OptimizedEngineConfig
  oe_taskPriorityQueue :: "TaskWithPriority list"
  oe_stepQueue :: "(int \<times> string list) list"
  oe_seenChannels :: "string list gomap"
  oe_readyChannels :: "string list"
  oe_finishedTasks :: "string list"
  oe_taskDependencies :: "string list gomap"
  oe_channelVersions :: "int gomap"

definition NewPregelOptimizedEngine :: "Engine \<Rightarrow> OptimizedEngineConfig option \<Rightarrow> PregelOptimizedEngine" where
  "NewPregelOptimizedEngine baseEngine config =
     \<lparr>oe_engine = baseEngine,
      oe_config = (case config of Some c \<Rightarrow> c | None \<Rightarrow> \<lparr>OcBumpStep = True, OcFinishNotification = True, OcTaskPriority = True\<rparr>),
      oe_taskPriorityQueue = [], oe_stepQueue = [], oe_seenChannels = [], oe_readyChannels = [], oe_finishedTasks = [],
      oe_taskDependencies = [], oe_channelVersions = []\<rparr>"

section \<open>Dependencies and steps\<close>

definition steps_at :: "(int \<times> string list) list \<Rightarrow> int \<Rightarrow> string list" where
  "steps_at q step = (case map_of q step of None \<Rightarrow> [] | Some ts \<Rightarrow> ts)"

definition has_seen_all :: "PregelOptimizedEngine \<Rightarrow> string list \<Rightarrow> string \<Rightarrow> bool" where
  "has_seen_all e updated task =
     (case mget (oe_seenChannels e) task of None \<Rightarrow> True | Some seen \<Rightarrow> (\<forall>c\<in>set updated. c \<in> set seen))"

definition bump_one :: "int \<Rightarrow> string list \<Rightarrow> string \<Rightarrow> PregelOptimizedEngine \<Rightarrow> PregelOptimizedEngine" where
  "bump_one completedStep updated depTask e =
     (if has_seen_all e updated depTask
      then e\<lparr>oe_stepQueue := AList.update (completedStep + 1) (steps_at (oe_stepQueue e) (completedStep + 1) @ [depTask]) (oe_stepQueue e),
             oe_seenChannels := mput depTask (fold List.insert updated (mget_or [] (oe_seenChannels e) depTask)) (oe_seenChannels e)\<rparr>
      else e)"

definition BumpStep :: "string \<Rightarrow> int \<Rightarrow> string list \<Rightarrow> PregelOptimizedEngine \<Rightarrow> PregelOptimizedEngine" where
  "BumpStep taskName completedStep updated e =
     (let e1 = e\<lparr>oe_finishedTasks := List.insert taskName (oe_finishedTasks e)\<rparr>
      in fold (bump_one completedStep updated) (mget_or [] (oe_taskDependencies e) taskName) e1)"

definition AddTaskDependency :: "string \<Rightarrow> string \<Rightarrow> PregelOptimizedEngine \<Rightarrow> PregelOptimizedEngine" where
  "AddTaskDependency fromTask toTask e =
     e\<lparr>oe_taskDependencies := mput toTask (mget_or [] (oe_taskDependencies e) toTask @ [fromTask]) (oe_taskDependencies e)\<rparr>"

definition GetTaskDependencies :: "PregelOptimizedEngine \<Rightarrow> string \<Rightarrow> string list" where
  "GetTaskDependencies e taskName = mget_or [] (oe_taskDependencies e) taskName"

definition IsTaskReady :: "PregelOptimizedEngine \<Rightarrow> string \<Rightarrow> bool" where
  "IsTaskReady e taskName \<longleftrightarrow>
     (if mget_or [] (oe_taskDependencies e) taskName = [] then True
      else \<forall>dep\<in>set (mget_or [] (oe_taskDependencies e) taskName). dep \<in> set (oe_finishedTasks e))"

definition hasSeenChannel :: "PregelOptimizedEngine \<Rightarrow> string \<Rightarrow> string \<Rightarrow> bool" where
  "hasSeenChannel e taskName channel \<longleftrightarrow> channel \<in> set (mget_or [] (oe_seenChannels e) taskName)"

definition ClearFinishedTasks :: "PregelOptimizedEngine \<Rightarrow> PregelOptimizedEngine" where
  "ClearFinishedTasks e = e\<lparr>oe_finishedTasks := []\<rparr>"

definition GetFinishedTasks :: "PregelOptimizedEngine \<Rightarrow> string list" where
  "GetFinishedTasks e = oe_finishedTasks e"

text \<open>Dependencies and channel versions stay.\<close>

definition Optimized_Reset :: "PregelOptimizedEngine \<Rightarrow> PregelOptimizedEngine" where
  "Optimized_Reset e =
     e\<lparr>oe_taskPriorityQueue := [], oe_stepQueue := [], oe_seenChannels := [], oe_readyChannels := [], oe_finishedTasks := []\<rparr>"

definition getTriggersForNode :: "PregelOptimizedEngine \<Rightarrow> string \<Rightarrow> string list" where
  "getTriggersForNode e nodeName =
     (case GetNode (en_graph (oe_engine e)) nodeName of None \<Rightarrow> [] | Some n \<Rightarrow> remdups (getTriggers (Some n)))"

definition getCurrentNamespace :: "PregelOptimizedEngine \<Rightarrow> string" where
  "getCurrentNamespace e =
     (case en_config (oe_engine e) of
        None \<Rightarrow> []
      | Some c \<Rightarrow> (case Config_Get c ''namespace'' of Some (GStr s) \<Rightarrow> s | _ \<Rightarrow> []))"

section \<open>The order of tasks\<close>

text \<open>The first difference of two paths of the same length: negative, positive, or none.\<close>

fun compare_paths :: "string list \<Rightarrow> string list \<Rightarrow> int" where
  "compare_paths (x # xs) (y # ys) = (if x \<noteq> y then (if x < y then -1 else 1) else compare_paths xs ys)"
| "compare_paths _ _ = 0"

definition compareTaskPriority :: "'a PathTask_scheme \<Rightarrow> 'a PathTask_scheme \<Rightarrow> int" where
  "compareTaskPriority t1 t2 =
     (if length (TkPath t1) \<noteq> length (TkPath t2) then int (length (TkPath t1)) - int (length (TkPath t2))
      else if compare_paths (TkPath t1) (TkPath t2) \<noteq> 0 then compare_paths (TkPath t1) (TkPath t2)
      else if TkName t1 \<noteq> TkName t2 then (if TkName t1 < TkName t2 then -1 else 1)
      else 0)"

record TaskPriority =
  PrName :: string
  PrPath :: "string list"
  PrPriority :: "64 word"

definition NewTaskPriority :: "string \<Rightarrow> string list \<Rightarrow> 64 word \<Rightarrow> TaskPriority" where
  "NewTaskPriority name path priority = \<lparr>PrName = name, PrPath = path, PrPriority = priority\<rparr>"

text \<open>The difference of the priorities wraps around.\<close>

definition Compare :: "TaskPriority \<Rightarrow> TaskPriority \<Rightarrow> int" where
  "Compare tp other =
     (if PrPriority tp \<noteq> PrPriority other then sint (PrPriority tp - PrPriority other)
      else if length (PrPath tp) \<noteq> length (PrPath other) then int (length (PrPath tp)) - int (length (PrPath other))
      else compare_paths (PrPath tp) (PrPath other))"

definition priority_of :: "TaskWithPriority \<Rightarrow> TaskPriority" where
  "priority_of t = NewTaskPriority (TkName (TpTask t)) (TpPath t) (TpPriority t)"

definition GetNextPriorityTask :: "golib \<Rightarrow> PregelOptimizedEngine \<Rightarrow> PregelOptimizedEngine \<times> TaskWithPriority option" where
  "GetNextPriorityTask L e =
     (if oe_taskPriorityQueue e = [] then (e, None)
      else case sort_slice L (\<lambda>a b. Compare (priority_of a) (priority_of b) < 0) (oe_taskPriorityQueue e) of
             [] \<Rightarrow> (e\<lparr>oe_taskPriorityQueue := []\<rparr>, None)
           | t # ts \<Rightarrow> (e\<lparr>oe_taskPriorityQueue := ts\<rparr>, Some t))"

text \<open>The task is queued and run at once; it is never taken off the queue. A nil function panics.\<close>

definition ExecuteTaskWithPriority ::
  "nat \<Rightarrow> PathTask \<Rightarrow> 64 word \<Rightarrow> string \<Rightarrow> PregelOptimizedEngine \<Rightarrow> PregelOptimizedEngine \<times> (gval + TaskResult)" where
  "ExecuteTaskWithPriority step task priority namespace e =
     (e\<lparr>oe_taskPriorityQueue := oe_taskPriorityQueue e @
          [\<lparr>TpTask = task, TpPriority = priority, TpNamespace = namespace, TpPath = [namespace, TkName task]\<rparr>]\<rparr>,
      case call_fn (TkFunc task) step 1 GNil of
        Panics v \<Rightarrow> Inl v
      | Ret out err \<Rightarrow> Inr \<lparr>TrName = TkName task, TrOutput = out, TrErr = err\<rparr>)"

section \<open>Applying writes\<close>

definition result_less :: "PathResult \<Rightarrow> PathResult \<Rightarrow> bool" where
  "result_less a b =
     (if length (TrPath a) \<noteq> length (TrPath b) then length (TrPath a) < length (TrPath b)
      else if compare_paths (TrPath a) (TrPath b) \<noteq> 0 then compare_paths (TrPath a) (TrPath b) < 0
      else TrName a < TrName b)"

fun opt_collect :: "PathResult list \<Rightarrow> gval list gomap \<Rightarrow> gval list gomap res" where
  "opt_collect [] writes = Inr writes"
| "opt_collect (res # results) writes =
     (if TrErr res \<noteq> None then opt_collect results writes
      else case toMap (TrOutput res) of
             Inl err \<Rightarrow> Inl (Errorf ''failed to convert output to map: %w'' [err])
           | Inr m \<Rightarrow>
               opt_collect results
                 (fold (\<lambda>(key, v) w. if v = GNil then w else mput key (mget_or [] w key @ [v]) w) m writes))"

definition note_update :: "string \<Rightarrow> PregelOptimizedEngine \<Rightarrow> PregelOptimizedEngine" where
  "note_update channelName e =
     (let e1 = e\<lparr>oe_readyChannels := List.insert channelName (oe_readyChannels e)\<rparr>
      in if OcBumpStep (oe_config e)
         then e1\<lparr>oe_channelVersions := mput channelName (mget_or 0 (oe_channelVersions e) channelName + 1) (oe_channelVersions e),
                 oe_engine := (oe_engine e)\<lparr>en_currentCheckpoint := map_option (IncrementChannel channelName) (en_currentCheckpoint (oe_engine e))\<rparr>\<rparr>
         else e1)"

fun opt_apply ::
  "gval list gomap \<Rightarrow> PregelOptimizedEngine \<Rightarrow> registry \<Rightarrow> string list \<Rightarrow> PregelOptimizedEngine \<times> registry \<times> string list res" where
  "opt_apply [] e r updated = (e, r, Inr updated)"
| "opt_apply ((name, values) # rest) e r updated =
     (case Registry_Get r name of
        None \<Rightarrow> opt_apply rest e r updated
      | Some ch \<Rightarrow>
          (case ch_Update ch (filter (\<lambda>v. v \<noteq> GNil) values) of
             (ch', Inl err) \<Rightarrow> (e, Registry_Register r name ch', Inl (Errorf (''failed to update channel '' @ name @ '': %w'') [err]))
           | (ch', Inr upd) \<Rightarrow>
               (if upd then opt_apply rest (note_update name e) (Registry_Register r name ch') (List.insert name updated)
                else opt_apply rest e (Registry_Register r name ch') updated)))"

definition finish_all :: "registry \<Rightarrow> registry" where
  "finish_all r = map (\<lambda>(name, ch). (name, fst (ch_Finish ch))) r"

definition OptimizedApplyWrites ::
  "golib \<Rightarrow> registry \<Rightarrow> PathResult list \<Rightarrow> string list \<Rightarrow> PregelOptimizedEngine \<Rightarrow> PregelOptimizedEngine \<times> registry \<times> string list res" where
  "OptimizedApplyWrites L r results triggers e =
     (case opt_collect (sort_slice L result_less results) [] of
        Inl err \<Rightarrow> (e, r, Inl err)
      | Inr writes \<Rightarrow>
          (case opt_apply writes e r [] of
             (e1, r1, Inl err) \<Rightarrow> (e1, r1, Inl err)
           | (e1, r1, Inr updated) \<Rightarrow>
               (if OcFinishNotification (oe_config e) \<and> updated \<noteq> [] \<and> (\<forall>t\<in>set triggers. t \<in> set updated)
                then (e1, finish_all r1, Inr updated) else (e1, r1, Inr updated))))"

definition PrepareNextTasksOptimized ::
  "golib \<Rightarrow> run_env \<Rightarrow> PregelOptimizedEngine \<Rightarrow> nat \<Rightarrow> registry option \<Rightarrow> string list \<Rightarrow> string \<Rightarrow> gval \<Rightarrow> (Task list \<times> string list) res" where
  "PrepareNextTasksOptimized L env e step reg visited trigger currentState =
     (case reg of
        None \<Rightarrow> Inl (Errorf ''PrepareNextTasksOptimized: invalid registry type'' [])
      | Some r \<Rightarrow> prepareNextTasks L env (oe_engine e) step r visited trigger currentState)"

section \<open>The queue by path length\<close>

type_synonym PriorityTaskQueue = "PathTask list"

definition NewPriorityTaskQueue :: PriorityTaskQueue where "NewPriorityTaskQueue = []"

text \<open>One pass of insertion sort: the task at position \<open>i\<close> moves down while its path is shorter than the one before it.\<close>

fun sift :: "nat \<Rightarrow> PriorityTaskQueue \<Rightarrow> PriorityTaskQueue" where
  "sift 0 ts = ts"
| "sift (Suc i) ts =
     (if length (TkPath (ts ! Suc i)) < length (TkPath (ts ! i))
      then sift i (ts[Suc i := ts ! i, i := ts ! Suc i]) else ts)"

definition ptq_Push :: "PathTask \<Rightarrow> PriorityTaskQueue \<Rightarrow> PriorityTaskQueue" where
  "ptq_Push task ts = sift (length ts) (ts @ [task])"

definition ptq_Pop :: "PriorityTaskQueue \<Rightarrow> PriorityTaskQueue \<times> PathTask option" where
  "ptq_Pop ts = (case ts of [] \<Rightarrow> ([], None) | t # rest \<Rightarrow> (rest, Some t))"

definition ptq_Len :: "PriorityTaskQueue \<Rightarrow> nat" where "ptq_Len ts = length ts"

abbreviation depth :: "PathTask \<Rightarrow> nat" where "depth t \<equiv> length (TkPath t)"

text \<open>Moving an element over the longer ones before it.\<close>

lemma sift_moves:
  assumes "\<forall>y\<in>set ys. depth x < depth y" and "xs = [] \<or> depth (last xs) \<le> depth x"
  shows "sift (length (xs @ ys)) ((xs @ ys) @ x # zs) = xs @ x # ys @ zs"
  using assms
proof (induction ys arbitrary: zs rule: rev_induct)
  case Nil
  then show ?case
    by (cases xs rule: rev_cases) (auto simp: nth_append)
next
  case (snoc y ys)
  let ?ts = "(xs @ ys @ [y]) @ x # zs"
  have at: "?ts ! Suc (length (xs @ ys)) = x" "?ts ! length (xs @ ys) = y" by (simp_all add: nth_append)
  have swap: "?ts[Suc (length (xs @ ys)) := y, length (xs @ ys) := x] = (xs @ ys) @ x # y # zs"
    by (simp add: list_update_append)
  have "sift (length (xs @ ys @ [y])) ?ts = sift (length (xs @ ys)) ((xs @ ys) @ x # y # zs)"
    using snoc.prems at swap by simp
  also have "\<dots> = xs @ x # ys @ y # zs" using snoc by simp
  finally show ?case by simp
qed

lemma longer_after:
  assumes "sorted (map depth ts)" and "y \<in> set (dropWhile (\<lambda>y. depth y \<le> depth x) ts)"
  shows "depth x < depth y"
  using assms by (induction ts) (auto split: if_splits)

lemma Push_insert:
  assumes "sorted (map depth ts)"
  shows "ptq_Push x ts = takeWhile (\<lambda>y. depth y \<le> depth x) ts @ x # dropWhile (\<lambda>y. depth y \<le> depth x) ts"
proof -
  let ?xs = "takeWhile (\<lambda>y. depth y \<le> depth x) ts" and ?ys = "dropWhile (\<lambda>y. depth y \<le> depth x) ts"
  have "?xs = [] \<or> depth (last ?xs) \<le> depth x"
    using set_takeWhileD [of "last ?xs" "\<lambda>y. depth y \<le> depth x" ts] last_in_set [of ?xs] by blast
  moreover have "\<forall>y\<in>set ?ys. depth x < depth y" using longer_after [OF assms] by blast
  ultimately show ?thesis
    using sift_moves [of ?ys x ?xs "[]"] by (simp add: ptq_Push_def)
qed

lemma Push_sorts:
  assumes "sort_key depth us = ts"
  shows "sort_key depth (us @ [x]) = ptq_Push x ts"
proof -
  have sorted: "sorted (map depth ts)" using assms by (metis sorted_sort_key)
  let ?P = "\<lambda>y. depth y \<le> depth x"
  have push: "ptq_Push x ts = takeWhile ?P ts @ x # dropWhile ?P ts" by (rule Push_insert [OF sorted])
  note longer = longer_after [OF sorted, of _ x]
  show ?thesis
  proof (rule properties_for_sort_key)
    have "mset ts = mset us" using assms by (metis mset_sort)
    then show "mset (ptq_Push x ts) = mset (us @ [x])"
      using mset_append [of "takeWhile ?P ts" "dropWhile ?P ts"] unfolding push takeWhile_dropWhile_id by simp
  next
    fix k assume "k \<in> set (ptq_Push x ts)"
    have stable: "filter (\<lambda>y. depth k = depth y) ts = filter (\<lambda>y. depth k = depth y) us"
      using assms sort_key_stable [of depth "depth k" us] by (simp add: eq_commute [of "depth k"])
    let ?F = "filter (\<lambda>y. depth k = depth y)"
    have split: "?F (takeWhile ?P ts) @ ?F (dropWhile ?P ts) = ?F us"
      using stable filter_append [of _ "takeWhile ?P ts" "dropWhile ?P ts"] unfolding takeWhile_dropWhile_id by metis
    show "?F (ptq_Push x ts) = ?F (us @ [x])"
    proof (cases "depth k = depth x")
      case True
      then have "?F (dropWhile ?P ts) = []"
        using longer unfolding filter_empty_conv by (metis less_irrefl)
      with True split show ?thesis by (simp add: push)
    next
      case False
      with split show ?thesis by (simp add: push)
    qed
  next
    have "sorted (map depth (takeWhile ?P ts))" "sorted (map depth (dropWhile ?P ts))"
      using sorted by (metis map_append sorted_append takeWhile_dropWhile_id)+
    then show "sorted (map depth (ptq_Push x ts))"
      unfolding push using longer by (auto simp: sorted_append less_imp_le dest!: set_takeWhileD) (meson le_less_trans less_imp_le)+
  qed
qed

fun take_all :: "nat \<Rightarrow> PriorityTaskQueue \<Rightarrow> PathTask list" where
  "take_all 0 ts = []"
| "take_all (Suc n) ts = (case ptq_Pop ts of (rest, Some t) \<Rightarrow> t # take_all n rest | (rest, None) \<Rightarrow> [])"

lemma take_all_list: "take_all (length ts) ts = ts"
  by (induction ts) (simp_all add: ptq_Pop_def)

lemma fold_ptq_push: "fold ptq_Push us (sort_key depth vs) = sort_key depth (vs @ us)"
  by (induction us arbitrary: vs) (simp_all add: Push_sorts [OF refl, symmetric] del: sort_key_simps)

text \<open>The queue of the optimised engine. Pushing tasks one by one and popping them all gives the tasks in the order of
  a stable sort by the length of their paths; no task is lost, and tasks with paths of the same length leave in the order they came.\<close>

theorem priority_task_queue_sorts:
  "take_all (length us) (fold ptq_Push us NewPriorityTaskQueue) = sort_key (\<lambda>t. length (TkPath t)) us"
proof -
  have "fold ptq_Push us NewPriorityTaskQueue = sort_key depth us"
    using fold_ptq_push [of us "[]"] by (simp add: NewPriorityTaskQueue_def)
  then show ?thesis using take_all_list [of "sort_key depth us"] by simp
qed

section \<open>Readiness is turned around\<close>

text \<open>The engine after a list of calls that each declare the first task to depend on the second.\<close>

definition declared :: "(string \<times> string) list \<Rightarrow> PregelOptimizedEngine \<Rightarrow> PregelOptimizedEngine" where
  "declared ds e = fold (\<lambda>(f, t). AddTaskDependency f t) ds e"

lemma declared_dependencies:
  "mget_or [] (oe_taskDependencies (declared ds e)) t = mget_or [] (oe_taskDependencies e) t @ map fst (filter (\<lambda>(f, u). u = t) ds)"
  by (induction ds arbitrary: e) (auto simp: declared_def AddTaskDependency_def mget_or_def gomap)

lemma declared_finished [simp]: "oe_finishedTasks (declared ds e) = oe_finishedTasks e"
  by (induction ds arbitrary: e) (auto simp: declared_def AddTaskDependency_def)

lemma bump_one_fields: "oe_finishedTasks (bump_one s u d e) = oe_finishedTasks e" "oe_taskDependencies (bump_one s u d e) = oe_taskDependencies e"
  by (simp_all add: bump_one_def)

lemma fold_bump_fields:
  "oe_finishedTasks (fold (bump_one s u) ds e) = oe_finishedTasks e" "oe_taskDependencies (fold (bump_one s u) ds e) = oe_taskDependencies e"
  by (induction ds arbitrary: e) (simp_all add: bump_one_fields)

lemma BumpStep_fields:
  "set (oe_finishedTasks (BumpStep t s u e)) = insert t (set (oe_finishedTasks e))"
  "oe_taskDependencies (BumpStep t s u e) = oe_taskDependencies e"
  by (simp_all add: BumpStep_def Let_def fold_bump_fields)

text \<open>The tasks that finish one after another.\<close>

definition finished_tasks :: "(string \<times> int \<times> string list) list \<Rightarrow> PregelOptimizedEngine \<Rightarrow> PregelOptimizedEngine" where
  "finished_tasks fs e = fold (\<lambda>(t, s, u). BumpStep t s u) fs e"

lemma finished_tasks_fields:
  "set (oe_finishedTasks (finished_tasks fs e)) = fst ` set fs \<union> set (oe_finishedTasks e)"
  "oe_taskDependencies (finished_tasks fs e) = oe_taskDependencies e"
  by (induction fs arbitrary: e) (auto simp: finished_tasks_def BumpStep_fields split: prod.splits)

text \<open>When a task counts as ready. After dependencies have been declared and tasks have finished, a task is ready exactly when every task
  declared to depend on it has finished. So a task is ready although what it depends on has not finished, and a task that
  another one waits for is not ready before that one has finished.\<close>

theorem ready_waits_for_dependents:
  "IsTaskReady (finished_tasks fs (declared ds (NewPregelOptimizedEngine base config))) t \<longleftrightarrow>
     {f. (f, t) \<in> set ds} \<subseteq> fst ` set fs"
proof -
  let ?e = "declared ds (NewPregelOptimizedEngine base config)"
  have "mget_or [] (oe_taskDependencies ?e) t = map fst (filter (\<lambda>(f, u). u = t) ds)"
    using declared_dependencies [of ds "NewPregelOptimizedEngine base config" t]
    by (simp add: NewPregelOptimizedEngine_def mget_or_def)
  moreover have "oe_finishedTasks ?e = []" by (simp add: NewPregelOptimizedEngine_def)
  moreover have "set (map fst (filter (\<lambda>(f, u). u = t) ds)) = {f. (f, t) \<in> set ds}" by force
  ultimately show ?thesis
    unfolding IsTaskReady_def finished_tasks_fields by (auto simp: finished_tasks_fields subset_iff simp del: set_map set_filter)
qed

lemma dependent_ready_too_early:
  assumes "a \<noteq> b"
  shows "IsTaskReady (AddTaskDependency a b (NewPregelOptimizedEngine base config)) a"
    and "\<not> IsTaskReady (AddTaskDependency a b (NewPregelOptimizedEngine base config)) b"
  using assms by (simp_all add: IsTaskReady_def AddTaskDependency_def NewPregelOptimizedEngine_def mget_or_def)

section \<open>Orders\<close>

lemma compare_paths_order:
  "length xs = length ys \<Longrightarrow> (compare_paths xs ys < 0 \<longleftrightarrow> xs < ys) \<and> (compare_paths xs ys = 0 \<longleftrightarrow> xs = ys)"
  by (induction xs ys rule: compare_paths.induct) auto

text \<open>The comparison of tasks is the lexicographic order of path length, path and name.\<close>

lemma compareTaskPriority_less:
  "compareTaskPriority t1 t2 < 0 \<longleftrightarrow>
     length (TkPath t1) < length (TkPath t2) \<or>
     length (TkPath t1) = length (TkPath t2) \<and> (TkPath t1 < TkPath t2 \<or> TkPath t1 = TkPath t2 \<and> TkName t1 < TkName t2)"
  using compare_paths_order [of "TkPath t1" "TkPath t2"]
  by (auto simp: compareTaskPriority_def)

text \<open>Priorities far apart compare the wrong way round: the difference overflows.\<close>

lemma Compare_overflows:
  "Compare (NewTaskPriority a p (- (2 ^ 63))) (NewTaskPriority b p 1) > 0"
  by (simp add: Compare_def NewTaskPriority_def)

lemma Compare_in_range:
  assumes "PrPriority x \<noteq> PrPriority y" and "- (2 ^ 62) \<le> sint (PrPriority x)" "sint (PrPriority x) < 2 ^ 62"
    and "- (2 ^ 62) \<le> sint (PrPriority y)" "sint (PrPriority y) < 2 ^ 62"
  shows "Compare x y < 0 \<longleftrightarrow> sint (PrPriority x) < sint (PrPriority y)"
proof -
  have "sint (PrPriority x - PrPriority y) = sint (PrPriority x) - sint (PrPriority y)"
    using assms by (simp add: sint_word_ariths signed_take_bit_int_eq_self)
  with assms(1) show ?thesis by (simp add: Compare_def)
qed

end
