(* ===== verification/Async_Cache.thy ===== *)
theory Async_Cache
  imports Node_Cache
begin

text \<open>
  The asynchronous cache and its executor (\<open>pregel/cache_async.go\<close>). Operations are put into a bounded channel and
  processed by workers, so the cache, the operations on their way and the executions that wait for an answer are one state machine; each
  step is what one goroutine does between two points where it can wait. A result channel is known by a number. Without an asynchronous policy
  the executor uses the cache directly.
\<close>

section \<open>The cache\<close>

datatype CacheResult = Found gval | Missing | CacheError gerr

datatype asyncCacheOp = OpGet nat string | OpSet nat string gval int | OpDelete nat string

text \<open>An execution with its input: waiting for an answer, holding a result to be stored, or returned.\<close>

datatype execution = Waiting gval nat | Computed gval gval | Returned gval "gval res"

text \<open>\<open>ac_workers\<close> counts the workers that have not returned, \<open>ac_taken\<close> holds the operations they have received and not yet processed.\<close>

record AsyncMemoryCache =
  ac_cache :: MemoryCache
  ac_workerCh :: "asyncCacheOp list"
  ac_taken :: "asyncCacheOp list"
  ac_workers :: nat
  ac_stopped :: bool
  ac_answers :: "(nat \<times> CacheResult) list"
  ac_next :: nat
  ac_execs :: "execution list"

definition NewAsyncMemoryCache :: "int \<Rightarrow> EvictionPolicy \<Rightarrow> int \<Rightarrow> AsyncMemoryCache" where
  "NewAsyncMemoryCache maxSize ev numWorkers =
     \<lparr>ac_cache = NewMemoryCache maxSize ev, ac_workerCh = [], ac_taken = [], ac_workers = nat (if numWorkers \<le> 0 then 4 else numWorkers),
      ac_stopped = False, ac_answers = [], ac_next = 0, ac_execs = []\<rparr>"

text \<open>A send to the channel of operations, \<open>None\<close> while it is full; \<open>ctx_done\<close> is the error of the context when the other case of the \<open>select\<close> is taken.\<close>

definition send_op :: "(nat \<Rightarrow> asyncCacheOp) \<Rightarrow> gerr option \<Rightarrow> AsyncMemoryCache \<Rightarrow> (AsyncMemoryCache \<times> nat) option" where
  "send_op op ctx_done c =
     (case ctx_done of
        Some err \<Rightarrow> Some (c\<lparr>ac_answers := (ac_next c, CacheError err) # ac_answers c, ac_next := Suc (ac_next c)\<rparr>, ac_next c)
      | None \<Rightarrow>
          if length (ac_workerCh c) < 1000
          then Some (c\<lparr>ac_workerCh := ac_workerCh c @ [op (ac_next c)], ac_next := Suc (ac_next c)\<rparr>, ac_next c)
          else None)"

definition AGet :: "string \<Rightarrow> gerr option \<Rightarrow> AsyncMemoryCache \<Rightarrow> (AsyncMemoryCache \<times> nat) option" where
  "AGet key ctx_done c = send_op (\<lambda>ch. OpGet ch key) ctx_done c"

definition ASet :: "string \<Rightarrow> gval \<Rightarrow> int \<Rightarrow> gerr option \<Rightarrow> AsyncMemoryCache \<Rightarrow> (AsyncMemoryCache \<times> nat) option" where
  "ASet key v ttl ctx_done c = send_op (\<lambda>ch. OpSet ch key v ttl) ctx_done c"

definition ADelete :: "string \<Rightarrow> gerr option \<Rightarrow> AsyncMemoryCache \<Rightarrow> (AsyncMemoryCache \<times> nat) option" where
  "ADelete key ctx_done c = send_op (\<lambda>ch. OpDelete ch key) ctx_done c"

text \<open>The answer to a write is a nil error, which no execution waits for.\<close>

fun processOp :: "int \<Rightarrow> asyncCacheOp \<Rightarrow> AsyncMemoryCache \<Rightarrow> AsyncMemoryCache" where
  "processOp now (OpGet ch key) c =
     (case Cache_Get now (ac_cache c) key of
        (m, r) \<Rightarrow> c\<lparr>ac_cache := m, ac_answers := (ch, case r of Some v \<Rightarrow> Found v | None \<Rightarrow> Missing) # ac_answers c\<rparr>)"
| "processOp now (OpSet ch key v ttl) c = c\<lparr>ac_cache := Cache_Set now (ac_cache c) key v ttl\<rparr>"
| "processOp now (OpDelete ch key) c = c\<lparr>ac_cache := Cache_Delete (ac_cache c) key\<rparr>"

text \<open>\<open>worker\<close>: an idle worker receives an operation, or returns when it sees that the cache was stopped.\<close>

definition worker_receives :: "AsyncMemoryCache \<Rightarrow> AsyncMemoryCache option" where
  "worker_receives c =
     (case ac_workerCh c of
        op # ops \<Rightarrow> if length (ac_taken c) < ac_workers c then Some (c\<lparr>ac_workerCh := ops, ac_taken := ac_taken c @ [op]\<rparr>) else None
      | [] \<Rightarrow> None)"

definition worker_returns :: "AsyncMemoryCache \<Rightarrow> AsyncMemoryCache option" where
  "worker_returns c =
     (if ac_stopped c \<and> length (ac_taken c) < ac_workers c then Some (c\<lparr>ac_workers := ac_workers c - 1\<rparr>) else None)"

definition worker_processes :: "int \<Rightarrow> nat \<Rightarrow> AsyncMemoryCache \<Rightarrow> AsyncMemoryCache option" where
  "worker_processes now i c =
     (if i < length (ac_taken c)
      then Some (processOp now (ac_taken c ! i) (c\<lparr>ac_taken := take i (ac_taken c) @ drop (Suc i) (ac_taken c)\<rparr>)) else None)"

text \<open>A second \<open>Stop\<close> closes a closed channel and panics (\<open>None\<close>).\<close>

definition AsyncCache_Stop :: "AsyncMemoryCache \<Rightarrow> AsyncMemoryCache option" where
  "AsyncCache_Stop c = (if ac_stopped c then None else Some (c\<lparr>ac_stopped := True\<rparr>))"

section \<open>The executor\<close>

record AsyncCachePolicy =
  AcpKeyFunc :: "(gval \<Rightarrow> string) option"
  AcpTTL :: "int option"
  AcpAsync :: bool

definition async_key :: "golib \<Rightarrow> AsyncCachePolicy option \<Rightarrow> string \<Rightarrow> gval \<Rightarrow> string" where
  "async_key L policy nodeName input =
     (case Option.bind policy AcpKeyFunc of Some f \<Rightarrow> f input | None \<Rightarrow> GenerateCacheKey L nodeName input)"

definition policy_ttl :: "AsyncCachePolicy option \<Rightarrow> int" where
  "policy_ttl policy = (case Option.bind policy AcpTTL of Some t \<Rightarrow> t | None \<Rightarrow> 0)"

definition policy_async :: "AsyncCachePolicy option \<Rightarrow> bool" where
  "policy_async policy = (case policy of Some p \<Rightarrow> AcpAsync p | None \<Rightarrow> False)"

text \<open>The function runs after a miss.\<close>

definition exec_miss :: "(gval \<Rightarrow> gval res) \<Rightarrow> gval \<Rightarrow> execution" where
  "exec_miss fn x = (case fn x of Inl err \<Rightarrow> Returned x (Inl err) | Inr r \<Rightarrow> Computed x r)"

text \<open>The start of an execution: it sends its read, or, without an asynchronous policy, reads the cache itself.\<close>

definition exec_start ::
  "golib \<Rightarrow> AsyncCachePolicy option \<Rightarrow> string \<Rightarrow> (gval \<Rightarrow> gval res) \<Rightarrow> int \<Rightarrow> gval \<Rightarrow> gerr option \<Rightarrow> AsyncMemoryCache \<Rightarrow> AsyncMemoryCache option" where
  "exec_start L policy node fn now input ctx_done c =
     (if policy_async policy
      then case AGet (async_key L policy node input) ctx_done c of
             None \<Rightarrow> None
           | Some (c1, ch) \<Rightarrow> Some (c1\<lparr>ac_execs := ac_execs c1 @ [Waiting input ch]\<rparr>)
      else case Cache_Get now (ac_cache c) (async_key L policy node input) of
             (m, Some cached) \<Rightarrow> Some (c\<lparr>ac_cache := m, ac_execs := ac_execs c @ [Returned input (Inr cached)]\<rparr>)
           | (m, None) \<Rightarrow> Some (c\<lparr>ac_cache := m, ac_execs := ac_execs c @ [exec_miss fn input]\<rparr>))"

text \<open>The answer arrives: an error or a hit is returned, a miss runs the function.\<close>

definition exec_answer :: "(gval \<Rightarrow> gval res) \<Rightarrow> nat \<Rightarrow> AsyncMemoryCache \<Rightarrow> AsyncMemoryCache option" where
  "exec_answer fn j c =
     (if j < length (ac_execs c)
      then case ac_execs c ! j of
             Waiting x ch \<Rightarrow>
               (case map_of (ac_answers c) ch of
                  Some (CacheError err) \<Rightarrow> Some (c\<lparr>ac_execs := (ac_execs c)[j := Returned x (Inl err)]\<rparr>)
                | Some (Found v) \<Rightarrow> Some (c\<lparr>ac_execs := (ac_execs c)[j := Returned x (Inr v)]\<rparr>)
                | Some Missing \<Rightarrow>
                    Some (c\<lparr>ac_execs := (ac_execs c)[j := exec_miss fn x]\<rparr>)
                | None \<Rightarrow> None)
           | _ \<Rightarrow> None
      else None)"

text \<open>The context is done while the execution waits.\<close>

definition exec_cancel :: "gerr \<Rightarrow> nat \<Rightarrow> AsyncMemoryCache \<Rightarrow> AsyncMemoryCache option" where
  "exec_cancel err j c =
     (if j < length (ac_execs c)
      then case ac_execs c ! j of Waiting x ch \<Rightarrow> Some (c\<lparr>ac_execs := (ac_execs c)[j := Returned x (Inl err)]\<rparr>) | _ \<Rightarrow> None
      else None)"

text \<open>The result is handed to the cache with the background context, or stored, then returned.\<close>

definition exec_store :: "golib \<Rightarrow> AsyncCachePolicy option \<Rightarrow> string \<Rightarrow> int \<Rightarrow> nat \<Rightarrow> AsyncMemoryCache \<Rightarrow> AsyncMemoryCache option" where
  "exec_store L policy node now j c =
     (if j < length (ac_execs c)
      then case ac_execs c ! j of
             Computed x r \<Rightarrow>
               if policy_async policy
               then case ASet (async_key L policy node x) r (policy_ttl policy) None c of
                      None \<Rightarrow> None
                    | Some (c1, ch) \<Rightarrow> Some (c1\<lparr>ac_execs := (ac_execs c1)[j := Returned x (Inr r)]\<rparr>)
               else Some (c\<lparr>ac_cache := Cache_Set now (ac_cache c) (async_key L policy node x) r (policy_ttl policy),
                            ac_execs := (ac_execs c)[j := Returned x (Inr r)]\<rparr>)
           | _ \<Rightarrow> None
      else None)"

datatype ac_event =
    EvStart int gval "gerr option" | EvReceive | EvProcess int nat | EvReturn | EvStop | EvAnswer nat | EvCancel gerr nat | EvStore int nat
  | EvDelete string "gerr option"

fun ac_do :: "golib \<Rightarrow> AsyncCachePolicy option \<Rightarrow> string \<Rightarrow> (gval \<Rightarrow> gval res) \<Rightarrow> ac_event \<Rightarrow> AsyncMemoryCache \<Rightarrow> AsyncMemoryCache option" where
  "ac_do L policy node fn (EvStart now x d) c = exec_start L policy node fn now x d c"
| "ac_do L policy node fn EvReceive c = worker_receives c"
| "ac_do L policy node fn (EvProcess now i) c = worker_processes now i c"
| "ac_do L policy node fn EvReturn c = worker_returns c"
| "ac_do L policy node fn EvStop c = AsyncCache_Stop c"
| "ac_do L policy node fn (EvAnswer j) c = exec_answer fn j c"
| "ac_do L policy node fn (EvCancel err j) c = exec_cancel err j c"
| "ac_do L policy node fn (EvStore now j) c = exec_store L policy node now j c"
| "ac_do L policy node fn (EvDelete key d) c = map_option fst (ADelete key d c)"

inductive ac_reach :: "golib \<Rightarrow> AsyncCachePolicy option \<Rightarrow> string \<Rightarrow> (gval \<Rightarrow> gval res) \<Rightarrow> int \<Rightarrow> EvictionPolicy \<Rightarrow> int \<Rightarrow> AsyncMemoryCache \<Rightarrow> bool"
  for L policy node fn maxSize ev workers where
  ac_start: "ac_reach L policy node fn maxSize ev workers (NewAsyncMemoryCache maxSize ev workers)"
| ac_step: "ac_reach L policy node fn maxSize ev workers c \<Longrightarrow> ac_do L policy node fn e c = Some c' \<Longrightarrow>
    ac_reach L policy node fn maxSize ev workers c'"

section \<open>Invariant\<close>

definition pending_ops :: "AsyncMemoryCache \<Rightarrow> asyncCacheOp set" where
  "pending_ops c = set (ac_workerCh c) \<union> set (ac_taken c)"

fun op_channel :: "asyncCacheOp \<Rightarrow> nat" where
  "op_channel (OpGet ch k) = ch"
| "op_channel (OpSet ch k v t) = ch"
| "op_channel (OpDelete ch k) = ch"

fun exec_input :: "execution \<Rightarrow> gval" where
  "exec_input (Waiting x ch) = x"
| "exec_input (Computed x r) = x"
| "exec_input (Returned x r) = x"

text \<open>A value that may stand under a key: the function's own result for every input with that key.\<close>

definition good :: "(gval \<Rightarrow> string) \<Rightarrow> (gval \<Rightarrow> gval res) \<Rightarrow> gval set \<Rightarrow> string \<Rightarrow> gval \<Rightarrow> bool" where
  "good key fn A k v \<longleftrightarrow> (\<forall>y\<in>A. key y = k \<longrightarrow> fn y = Inr v)"

definition exec_ok :: "(gval \<Rightarrow> string) \<Rightarrow> (gval \<Rightarrow> gval res) \<Rightarrow> gval set \<Rightarrow> AsyncMemoryCache \<Rightarrow> execution \<Rightarrow> bool" where
  "exec_ok key fn A c ex =
     (case ex of
        Waiting x ch \<Rightarrow> x \<in> A \<and> ch < ac_next c \<and> (\<forall>k. OpGet ch k \<in> pending_ops c \<longrightarrow> k = key x) \<and>
          (\<forall>v. map_of (ac_answers c) ch = Some (Found v) \<longrightarrow> fn x = Inr v) \<and>
          (map_of (ac_answers c) ch \<noteq> None \<or> (\<exists>k. OpGet ch k \<in> pending_ops c))
      | Computed x r \<Rightarrow> x \<in> A \<and> fn x = Inr r
      | Returned x r \<Rightarrow> x \<in> A \<and> (\<forall>v. r = Inr v \<longrightarrow> fn x = Inr v))"

definition acache_ok :: "(gval \<Rightarrow> string) \<Rightarrow> (gval \<Rightarrow> gval res) \<Rightarrow> gval set \<Rightarrow> AsyncMemoryCache \<Rightarrow> bool" where
  "acache_ok key fn A c \<longleftrightarrow>
     (\<forall>k v. mc_holds (ac_cache c) k v \<longrightarrow> good key fn A k v) \<and>
     (\<forall>op\<in>pending_ops c. op_channel op < ac_next c) \<and> (\<forall>ch k v t. OpSet ch k v t \<in> pending_ops c \<longrightarrow> good key fn A k v) \<and>
     (\<forall>a\<in>set (ac_answers c). fst a < ac_next c)"

definition ac_ok :: "(gval \<Rightarrow> string) \<Rightarrow> (gval \<Rightarrow> gval res) \<Rightarrow> gval set \<Rightarrow> AsyncMemoryCache \<Rightarrow> bool" where
  "ac_ok key fn A c \<longleftrightarrow> acache_ok key fn A c \<and> (\<forall>ex\<in>set (ac_execs c). exec_ok key fn A c ex) \<and>
     (\<not> ac_stopped c \<longrightarrow> 0 < ac_workers c) \<and> length (ac_taken c) \<le> ac_workers c"

text \<open>Sending an operation keeps what holds of the others; its channel is new.\<close>

lemma no_answer: "acache_ok key fn A c \<Longrightarrow> map_of (ac_answers c) (ac_next c) = None"
  by (auto simp: acache_ok_def map_of_eq_None_iff)

definition sendable :: "(gval \<Rightarrow> string) \<Rightarrow> (gval \<Rightarrow> gval res) \<Rightarrow> gval set \<Rightarrow> (nat \<Rightarrow> asyncCacheOp) \<Rightarrow> bool" where
  "sendable key fn A op \<longleftrightarrow> (\<forall>n. op_channel (op n) = n) \<and> (\<forall>n m k v t. op n = OpSet m k v t \<longrightarrow> good key fn A k v)"

lemma send_cases:
  assumes "send_op op d c = Some (c', ch)"
  obtains (cancelled) err where "ch = ac_next c" "c' = c\<lparr>ac_answers := (ch, CacheError err) # ac_answers c, ac_next := Suc ch\<rparr>"
  | (sent) "ch = ac_next c" "c' = c\<lparr>ac_workerCh := ac_workerCh c @ [op ch], ac_next := Suc ch\<rparr>"
  using assms by (auto simp: send_op_def split: option.splits if_splits)

lemma send_cache_ok:
  assumes "acache_ok key fn A c" and "sendable key fn A op" and "send_op op d c = Some (c', ch)"
  shows "acache_ok key fn A c'"
  using assms(3)
proof (cases rule: send_cases)
  case (cancelled err)
  with assms(1) show ?thesis by (auto simp: acache_ok_def pending_ops_def less_SucI)
next
  case sent
  have "pending_ops c' = insert (op ch) (pending_ops c)" by (auto simp: sent pending_ops_def)
  moreover have "good key fn A k v" if "OpSet m k v t \<in> insert (op ch) (pending_ops c)" for m k v t
    using that assms(1,2) unfolding acache_ok_def sendable_def by (metis insert_iff)
  moreover have "op_channel (op ch) = ch" using assms(2) by (simp add: sendable_def)
  ultimately show ?thesis using assms(1) sent by (auto simp: acache_ok_def less_SucI)
qed

lemma send_exec_ok:
  assumes "sendable key fn A op" and "send_op op d c = Some (c', ch)" and "exec_ok key fn A c ex"
  shows "exec_ok key fn A c' ex"
proof (cases ex)
  case (Waiting x n)
  show ?thesis
    using assms(2)
  proof (cases rule: send_cases)
    case (cancelled err)
    with assms(3) show ?thesis by (auto simp: Waiting exec_ok_def pending_ops_def)
  next
    case sent
    have new: "pending_ops c' = insert (op ch) (pending_ops c)" by (auto simp: sent pending_ops_def)
    have "n < ch" using assms(3) sent(1) by (simp add: Waiting exec_ok_def)
    then have "OpGet n k \<noteq> op ch" for k using assms(1) by (metis less_irrefl op_channel.simps(1) sendable_def)
    with assms(3) new sent show ?thesis by (auto simp: Waiting exec_ok_def)
  qed
qed (use assms(3) in \<open>simp_all add: exec_ok_def\<close>)

lemma send_rest:
  "send_op op d c = Some (c', ch) \<Longrightarrow> ac_execs c' = ac_execs c \<and> ac_workers c' = ac_workers c \<and> ac_stopped c' = ac_stopped c \<and>
     ac_taken c' = ac_taken c \<and> ac_next c' = Suc ch \<and> ch = ac_next c"
  by (erule send_cases) auto

lemma send_ok:
  assumes "ac_ok key fn A c" and "sendable key fn A op" and "send_op op d c = Some (c', ch)"
  shows "ac_ok key fn A c'"
  using assms send_cache_ok [of key fn A c op d c' ch] send_exec_ok [of key fn A op d c c' ch] send_rest [OF assms(3)]
  by (auto simp: ac_ok_def)

lemma exec_ok_same:
  "pending_ops c' = pending_ops c \<Longrightarrow> ac_answers c' = ac_answers c \<Longrightarrow> ac_next c' = ac_next c \<Longrightarrow> exec_ok key fn A c' ex = exec_ok key fn A c ex"
  by (simp add: exec_ok_def cong: execution.case_cong)

lemma cache_ok_same:
  "pending_ops c' = pending_ops c \<Longrightarrow> ac_answers c' = ac_answers c \<Longrightarrow> ac_next c' = ac_next c \<Longrightarrow> ac_cache c' = ac_cache c \<Longrightarrow>
   acache_ok key fn A c' = acache_ok key fn A c"
  by (simp add: acache_ok_def)

lemma start_async_ok:
  assumes "ac_ok (async_key L policy node) fn A c" and "x \<in> A" and "policy_async policy" and "exec_start L policy node fn now x d c = Some c'"
  shows "ac_ok (async_key L policy node) fn A c'"
proof -
  let ?key = "async_key L policy node" and ?op = "\<lambda>ch. OpGet ch (async_key L policy node x)"
  obtain c1 ch where send: "send_op ?op d c = Some (c1, ch)" and c': "c' = c1\<lparr>ac_execs := ac_execs c1 @ [Waiting x ch]\<rparr>"
    using assms(3,4) by (auto simp: exec_start_def AGet_def split: option.splits)
  have ok1: "ac_ok ?key fn A c1" by (rule send_ok [OF assms(1) _ send]) (simp add: sendable_def)
  have old: "map_of (ac_answers c) ch = None" "OpGet ch k \<notin> pending_ops c" for k
    using assms(1) no_answer [of ?key fn A c] send_rest [OF send] by (force simp: ac_ok_def acache_ok_def)+
  have "exec_ok ?key fn A c1 (Waiting x ch)"
    using send
  proof (cases rule: send_cases)
    case (cancelled err)
    with assms(2) old show ?thesis by (auto simp: exec_ok_def pending_ops_def)
  next
    case sent
    have "pending_ops c1 = insert (OpGet ch (?key x)) (pending_ops c)" by (auto simp: sent pending_ops_def)
    with sent assms(2) old show ?thesis by (auto simp: exec_ok_def)
  qed
  with ok1 show ?thesis by (simp add: ac_ok_def c' exec_ok_def acache_ok_def pending_ops_def cong: execution.case_cong)
qed

lemma cache_update_ok:
  assumes "ac_ok key fn A c" and "\<forall>k v. mc_holds m k v \<longrightarrow> good key fn A k v"
  shows "ac_ok key fn A (c\<lparr>ac_cache := m\<rparr>)"
proof -
  let ?c = "c\<lparr>ac_cache := m\<rparr>"
  have eq: "pending_ops ?c = pending_ops c" "ac_answers ?c = ac_answers c" "ac_next ?c = ac_next c" by (simp_all add: pending_ops_def)
  from assms show ?thesis
    unfolding ac_ok_def exec_ok_same [OF eq(1-3)] by (simp add: acache_ok_def eq)
qed

lemma add_exec_ok: "ac_ok key fn A c \<Longrightarrow> exec_ok key fn A c ex \<Longrightarrow> ac_ok key fn A (c\<lparr>ac_execs := ac_execs c @ [ex]\<rparr>)"
proof -
  assume ok: "ac_ok key fn A c" "exec_ok key fn A c ex"
  let ?c = "c\<lparr>ac_execs := ac_execs c @ [ex]\<rparr>"
  have eq: "pending_ops ?c = pending_ops c" "ac_answers ?c = ac_answers c" "ac_next ?c = ac_next c" "ac_cache ?c = ac_cache c" by (simp_all add: pending_ops_def)
  from ok show ?thesis
    unfolding ac_ok_def exec_ok_same [OF eq(1-3)] cache_ok_same [OF eq] by simp
qed

lemma exec_ok_final:
  "exec_ok key fn A c (exec_miss fn x) \<longleftrightarrow> x \<in> A"
  "exec_ok key fn A c (Returned x (Inl e)) \<longleftrightarrow> x \<in> A"
  "exec_ok key fn A c (Returned x (Inr v)) \<longleftrightarrow> x \<in> A \<and> fn x = Inr v"
  by (auto simp: exec_ok_def exec_miss_def split: sum.splits)

lemma exec_miss_input [simp]: "exec_input (exec_miss fn x) = x"
  by (simp add: exec_miss_def split: sum.splits)

lemma start_ok:
  assumes "ac_ok (async_key L policy node) fn A c" and "x \<in> A" and "exec_start L policy node fn now x d c = Some c'"
  shows "ac_ok (async_key L policy node) fn A c'"
proof (cases "policy_async policy")
  case True
  then show ?thesis using assms by (auto intro: start_async_ok)
next
  case False
  let ?key = "async_key L policy node"
  obtain m a where g: "Cache_Get now (ac_cache c) (?key x) = (m, a)" by (cases "Cache_Get now (ac_cache c) (?key x)")
  have held: "mc_holds (ac_cache c) k v \<Longrightarrow> good ?key fn A k v" for k v using assms(1) by (simp add: ac_ok_def acache_ok_def)
  define c1 where "c1 = c\<lparr>ac_cache := m\<rparr>"
  have ok1: "ac_ok ?key fn A c1"
    unfolding c1_def by (rule cache_update_ok [OF assms(1)]) (use held memory_cache.get_keeps [OF g] in blast)
  obtain ex where "c' = c1\<lparr>ac_execs := ac_execs c1 @ [ex]\<rparr>" "exec_ok ?key fn A c1 ex"
  proof (cases a)
    case None
    with that [of "exec_miss fn x"] show ?thesis using False assms(2,3) g by (auto simp: exec_start_def c1_def exec_ok_final)
  next
    case (Some v)
    then have "good ?key fn A (?key x) v" using held memory_cache.get_holds g by blast
    then have "fn x = Inr v" using assms(2) by (simp add: good_def)
    with Some that [of "Returned x (Inr v)"] show ?thesis using False assms(2,3) g by (auto simp: exec_start_def c1_def exec_ok_final)
  qed
  with ok1 show ?thesis by (simp add: add_exec_ok)
qed

lemma receive_ok: "ac_ok key fn A c \<Longrightarrow> worker_receives c = Some c' \<Longrightarrow> ac_ok key fn A c'"
proof -
  assume ok: "ac_ok key fn A c" and step: "worker_receives c = Some c'"
  obtain op q where c': "ac_workerCh c = op # q" "length (ac_taken c) < ac_workers c" "c' = c\<lparr>ac_workerCh := q, ac_taken := ac_taken c @ [op]\<rparr>"
    using step by (auto simp: worker_receives_def split: list.splits if_splits)
  have eq: "pending_ops c' = pending_ops c" "ac_answers c' = ac_answers c" "ac_next c' = ac_next c" "ac_cache c' = ac_cache c" by (auto simp: pending_ops_def c')
  from ok show ?thesis
    unfolding ac_ok_def exec_ok_same [OF eq(1-3)] cache_ok_same [OF eq] using c' by simp
qed

lemma update_exec_ok:
  assumes "ac_ok key fn A c" and "exec_ok key fn A c ex"
  shows "ac_ok key fn A (c\<lparr>ac_execs := (ac_execs c)[j := ex]\<rparr>)"
proof -
  let ?c = "c\<lparr>ac_execs := (ac_execs c)[j := ex]\<rparr>"
  have eq: "pending_ops ?c = pending_ops c" "ac_answers ?c = ac_answers c" "ac_next ?c = ac_next c" "ac_cache ?c = ac_cache c" by (simp_all add: pending_ops_def)
  have "\<forall>e\<in>set ((ac_execs c)[j := ex]). exec_ok key fn A c e"
    using assms set_update_subset_insert [of "ac_execs c" j ex] unfolding ac_ok_def by blast
  with assms(1) show ?thesis
    unfolding ac_ok_def exec_ok_same [OF eq(1-3)] cache_ok_same [OF eq] by simp
qed

lemma answer_ok: "ac_ok key fn A c \<Longrightarrow> exec_answer fn j c = Some c' \<Longrightarrow> ac_ok key fn A c'"
proof -
  assume ok: "ac_ok key fn A c" and step: "exec_answer fn j c = Some c'"
  then obtain x ch where j: "j < length (ac_execs c)" "ac_execs c ! j = Waiting x ch"
    by (auto simp: exec_answer_def split: if_splits execution.splits)
  then have "exec_ok key fn A c (Waiting x ch)" using ok nth_mem [OF j(1)] by (simp add: ac_ok_def)
  then have x: "x \<in> A" "map_of (ac_answers c) ch = Some (Found v) \<Longrightarrow> fn x = Inr v" for v by (simp_all add: exec_ok_def)
  obtain ex where "c' = c\<lparr>ac_execs := (ac_execs c)[j := ex]\<rparr>" "exec_ok key fn A c ex"
    using step j x by (auto simp: exec_answer_def exec_ok_final split: option.splits CacheResult.splits)
  with ok show ?thesis by (simp add: update_exec_ok)
qed

lemma cancel_ok: "ac_ok key fn A c \<Longrightarrow> exec_cancel err j c = Some c' \<Longrightarrow> ac_ok key fn A c'"
proof -
  assume ok: "ac_ok key fn A c" and step: "exec_cancel err j c = Some c'"
  then obtain x ch where j: "j < length (ac_execs c)" "ac_execs c ! j = Waiting x ch" "c' = c\<lparr>ac_execs := (ac_execs c)[j := Returned x (Inl err)]\<rparr>"
    by (auto simp: exec_cancel_def split: if_splits execution.splits)
  then have "exec_ok key fn A c (Waiting x ch)" using ok nth_mem [OF j(1)] by (simp add: ac_ok_def)
  then show ?thesis using ok j(3) by (auto intro: update_exec_ok simp: exec_ok_def)
qed

lemma exec_store_ok:
  assumes "ac_ok (async_key L policy node) fn A c" and "inj_on (async_key L policy node) A" and "exec_store L policy node now j c = Some c'"
  shows "ac_ok (async_key L policy node) fn A c'"
proof -
  let ?key = "async_key L policy node"
  obtain x r where j: "j < length (ac_execs c)" "ac_execs c ! j = Computed x r"
    using assms(3) by (auto simp: exec_store_def split: if_splits execution.splits)
  have x: "x \<in> A" "fn x = Inr r" using assms(1) nth_mem [OF j(1)] j(2) by (auto simp: ac_ok_def exec_ok_def dest: bspec)
  then have new: "good ?key fn A (?key x) r" using assms(2) by (auto simp: good_def dest: inj_onD)
  obtain c1 where c1: "ac_ok ?key fn A c1" and c': "c' = c1\<lparr>ac_execs := (ac_execs c1)[j := Returned x (Inr r)]\<rparr>"
  proof (cases "policy_async policy")
    case True
    then obtain c1 ch where send: "send_op (\<lambda>ch. OpSet ch (?key x) r (policy_ttl policy)) None c = Some (c1, ch)"
      and c': "c' = c1\<lparr>ac_execs := (ac_execs c1)[j := Returned x (Inr r)]\<rparr>"
      using assms(3) j by (auto simp: exec_store_def ASet_def split: option.splits)
    have "ac_ok ?key fn A c1" by (rule send_ok [OF assms(1) _ send]) (simp add: sendable_def new)
    then show ?thesis by (rule that [OF _ c'])
  next
    case False
    have "ac_ok ?key fn A (c\<lparr>ac_cache := Cache_Set now (ac_cache c) (?key x) r (policy_ttl policy)\<rparr>)"
      by (rule cache_update_ok [OF assms(1)]) (use assms(1) new memory_cache.set_holds in \<open>(auto simp: ac_ok_def acache_ok_def)[]\<close>; metis)
    with that False show ?thesis using assms(3) j by (simp add: exec_store_def)
  qed
  show ?thesis unfolding c' by (intro update_exec_ok c1) (simp add: exec_ok_final x)
qed

text \<open>Processing an operation: the answer to a read is what the cache holds under the key of the execution that waits for it.\<close>

lemma delete_holds: "mc_holds (Cache_Delete c k) k' v \<Longrightarrow> mc_holds c k' v"
  by (auto simp: mc_holds_def Cache_Delete_def gomap split: if_splits)

lemma process_cache:
  assumes "\<forall>k v. mc_holds (ac_cache c) k v \<longrightarrow> good key fn A k v" and "\<forall>ch k v t. op = OpSet ch k v t \<longrightarrow> good key fn A k v"
    and "mc_holds (ac_cache (processOp now op c)) k v"
  shows "good key fn A k v"
proof (cases op)
  case (OpGet ch key')
  then show ?thesis
    using assms(1,3) memory_cache.get_keeps [of now "ac_cache c" key'] by (auto split: prod.splits)
next
  case (OpSet ch key' w ttl)
  then show ?thesis using assms memory_cache.set_holds [of now "ac_cache c" key' w ttl k v] by auto
next
  case (OpDelete ch key')
  then show ?thesis using assms(1,3) delete_holds by auto
qed

lemma process_fields:
  "ac_execs (processOp now op c) = ac_execs c" "ac_workers (processOp now op c) = ac_workers c" "ac_stopped (processOp now op c) = ac_stopped c"
  "ac_taken (processOp now op c) = ac_taken c" "ac_next (processOp now op c) = ac_next c" "pending_ops (processOp now op c) = pending_ops c"
  "\<exists>new. ac_answers (processOp now op c) = new @ ac_answers c \<and> (\<forall>a\<in>set new. \<exists>k. op = OpGet (fst a) k)"
  by (cases op; auto simp: pending_ops_def split: prod.splits)+

lemma process_answer:
  assumes "map_of (ac_answers (processOp now op c)) ch = Some (Found v)"
  shows "map_of (ac_answers c) ch = Some (Found v) \<or> (\<exists>k. op = OpGet ch k \<and> mc_holds (ac_cache c) k v)"
  using assms memory_cache.get_holds [of now "ac_cache c"]
  by (cases op) (fastforce split: prod.splits if_splits option.splits)+

lemma process_ok:
  assumes "ac_ok key fn A c" and "worker_processes now i c = Some c'"
  shows "ac_ok key fn A c'"
proof -
  let ?op = "ac_taken c ! i" and ?c1 = "c\<lparr>ac_taken := take i (ac_taken c) @ drop (Suc i) (ac_taken c)\<rparr>"
  have i: "i < length (ac_taken c)" and c': "c' = processOp now ?op ?c1"
    using assms(2) by (auto simp: worker_processes_def split: if_splits)
  have "set (ac_taken c) = insert ?op (set (take i (ac_taken c)) \<union> set (drop (Suc i) (ac_taken c)))"
    using arg_cong [OF id_take_nth_drop [OF i], of set] by simp
  then have ops: "pending_ops c = insert ?op (pending_ops ?c1)" by (auto simp: pending_ops_def)
  have cok: "acache_ok key fn A c" using assms(1) by (simp add: ac_ok_def)
  have setop: "\<forall>ch k v t. ?op = OpSet ch k v t \<longrightarrow> good key fn A k v" using cok ops by (auto simp: acache_ok_def)
  have ch: "op_channel ?op < ac_next c" using cok ops by (simp add: acache_ok_def)
  obtain new where new: "ac_answers c' = new @ ac_answers c" "\<forall>a\<in>set new. \<exists>k. ?op = OpGet (fst a) k"
    using process_fields(7) [of now ?op ?c1] c' by auto
  have "acache_ok key fn A c'"
  proof -
    have "good key fn A k v" if "mc_holds (ac_cache c') k v" for k v
      using process_cache [of ?c1 key fn A ?op now k v] cok setop that by (simp add: c' acache_ok_def)
    moreover have "\<forall>a\<in>set (ac_answers c'). fst a < ac_next c" using new ch cok by (auto simp: acache_ok_def)
    ultimately show ?thesis using cok ops by (simp add: acache_ok_def c' process_fields)
  qed
  moreover have "exec_ok key fn A c' ex" if "exec_ok key fn A c ex" for ex
  proof (cases ex)
    case (Waiting x n)
    with that have w: "x \<in> A" "n < ac_next c" "\<And>k. OpGet n k \<in> pending_ops c \<Longrightarrow> k = key x" "\<And>v. map_of (ac_answers c) n = Some (Found v) \<Longrightarrow> fn x = Inr v"
      "map_of (ac_answers c) n \<noteq> None \<or> (\<exists>k. OpGet n k \<in> pending_ops c)" by (auto simp: exec_ok_def)
    have "fn x = Inr v" if "map_of (ac_answers c') n = Some (Found v)" for v
    proof -
      from process_answer [of now ?op ?c1 n v] that c'
      have "map_of (ac_answers c) n = Some (Found v) \<or> (\<exists>k. ?op = OpGet n k \<and> mc_holds (ac_cache c) k v)" by simp
      then show ?thesis
      proof (elim disjE exE conjE)
        fix k assume k: "?op = OpGet n k" "mc_holds (ac_cache c) k v"
        have "k = key x" by (rule w(3)) (use ops k(1) in simp)
        then show ?thesis using k(2) w(1) cok unfolding acache_ok_def good_def by blast
      qed (rule w(4))
    qed
    moreover have "map_of (ac_answers c') n \<noteq> None \<or> (\<exists>k. OpGet n k \<in> pending_ops ?c1)"
    proof (cases "\<exists>k. ?op = OpGet n k")
      case True
      then show ?thesis by (auto simp: c' split: prod.splits)
    next
      case False
      then have "OpGet n k \<in> pending_ops c \<Longrightarrow> OpGet n k \<in> pending_ops ?c1" for k unfolding ops by (metis insertE)
      with w(5) new(1) show ?thesis by (auto simp: map_add_def split: option.splits)
    qed
    ultimately show ?thesis using w ops by (simp add: Waiting exec_ok_def c' process_fields)
  qed (use that in \<open>simp_all add: exec_ok_def\<close>)
  moreover have "length (ac_taken c') \<le> ac_workers c'" using assms(1) i by (auto simp: ac_ok_def c' process_fields)
  ultimately show ?thesis using assms(1) by (simp add: ac_ok_def c' process_fields)
qed

lemma inputs_update: "j < length xs \<Longrightarrow> exec_input ex = exec_input (xs ! j) \<Longrightarrow> map exec_input (xs[j := ex]) = map exec_input xs"
  by (metis list_update_id map_update)

lemma inputs_answer: "exec_answer fn j c = Some c' \<Longrightarrow> map exec_input (ac_execs c') = map exec_input (ac_execs c)"
  unfolding exec_answer_def
  by (auto split: if_splits execution.splits option.splits CacheResult.splits intro!: inputs_update)

lemma inputs_cancel: "exec_cancel err j c = Some c' \<Longrightarrow> map exec_input (ac_execs c') = map exec_input (ac_execs c)"
  unfolding exec_cancel_def by (auto split: if_splits execution.splits intro!: inputs_update)

lemma inputs_store: "exec_store L policy node now j c = Some c' \<Longrightarrow> map exec_input (ac_execs c') = map exec_input (ac_execs c)"
  unfolding exec_store_def ASet_def
  by (auto split: if_splits execution.splits option.splits dest!: send_rest intro!: inputs_update)

lemma inputs_grow:
  assumes "ac_do L policy node fn e c = Some c'"
  shows "set (map exec_input (ac_execs c)) \<subseteq> set (map exec_input (ac_execs c'))"
proof (cases e)
  case (EvStart now x d)
  with assms show ?thesis by (auto simp: exec_start_def AGet_def dest!: send_rest split: option.splits if_splits prod.splits)
next
  case EvReceive
  with assms show ?thesis by (auto simp: worker_receives_def split: list.splits if_splits)
next
  case (EvProcess now i)
  with assms show ?thesis by (auto simp: worker_processes_def process_fields split: if_splits)
next
  case EvReturn
  with assms show ?thesis by (auto simp: worker_returns_def split: if_splits)
next
  case EvStop
  with assms show ?thesis by (auto simp: AsyncCache_Stop_def split: if_splits)
next
  case (EvDelete key d)
  with assms show ?thesis by (auto simp: ADelete_def dest!: send_rest)
next
  case (EvAnswer j)
  with assms inputs_answer [of fn j c c'] show ?thesis by (simp del: set_map)
next
  case (EvCancel err j)
  with assms inputs_cancel [of err j c c'] show ?thesis by (simp del: set_map)
next
  case (EvStore now j)
  with assms inputs_store [of L policy node now j c c'] show ?thesis by (simp del: set_map)
qed

lemma ac_ok_same:
  assumes "ac_ok key fn A c" and eq: "pending_ops c' = pending_ops c" "ac_answers c' = ac_answers c" "ac_next c' = ac_next c" "ac_cache c' = ac_cache c"
    and "ac_execs c' = ac_execs c" "\<not> ac_stopped c' \<longrightarrow> 0 < ac_workers c'" "length (ac_taken c') \<le> ac_workers c'"
  shows "ac_ok key fn A c'"
  using assms(1,6-) unfolding ac_ok_def exec_ok_same [OF eq(1-3)] cache_ok_same [OF eq] by simp

lemma ac_do_ok:
  assumes "ac_ok (async_key L policy node) fn A c" and "ac_do L policy node fn e c = Some c'"
    and "exec_input ` set (ac_execs c') \<subseteq> A" and "inj_on (async_key L policy node) A"
  shows "ac_ok (async_key L policy node) fn A c'"
proof (cases e)
  case (EvStart now x d)
  then have "x \<in> A" using assms(2,3) by (auto simp: exec_start_def split: option.splits if_splits prod.splits)
  with EvStart assms show ?thesis by (auto intro: start_ok)
next
  case EvReturn
  with assms(2) show ?thesis
    by (intro ac_ok_same [OF assms(1)]) (auto simp: worker_returns_def pending_ops_def split: if_splits)
next
  case EvStop
  with assms(1,2) show ?thesis
    by (intro ac_ok_same [OF assms(1)]) (auto simp: AsyncCache_Stop_def pending_ops_def ac_ok_def split: if_splits)
next
  case (EvDelete key d)
  then obtain ch where "send_op (\<lambda>ch. OpDelete ch key) d c = Some (c', ch)" using assms(2) by (auto simp: ADelete_def)
  then show ?thesis by (rule send_ok [OF assms(1), rotated]) (simp add: sendable_def)
next
  case EvReceive
  with assms(1,2) show ?thesis by (auto intro: receive_ok)
next
  case (EvProcess now i)
  with assms(1,2) show ?thesis by (auto intro: process_ok)
next
  case (EvAnswer j)
  with assms(1,2) show ?thesis by (auto intro: answer_ok)
next
  case (EvCancel err j)
  with assms(1,2) show ?thesis by (auto intro: cancel_ok)
next
  case (EvStore now j)
  with assms show ?thesis by (auto intro: exec_store_ok)
qed

lemma ac_reach_ok:
  assumes "ac_reach L policy node fn maxSize ev workers c" and "exec_input ` set (ac_execs c) \<subseteq> A" and "inj_on (async_key L policy node) A"
  shows "ac_ok (async_key L policy node) fn A c"
  using assms(1,2)
proof (induction rule: ac_reach.induct)
  case ac_start
  then show ?case
    by (simp add: NewAsyncMemoryCache_def ac_ok_def acache_ok_def pending_ops_def memory_cache.new_holds)
next
  case (ac_step c e c')
  then show ?case using inputs_grow [OF ac_step.hyps(2), unfolded set_map] ac_do_ok [OF _ ac_step.hyps(2) _ assms(3)] by blast
qed

section \<open>Properties\<close>

text \<open>C30: Asynchronous caching. In every interleaving of executions, workers, deletions, cancellations and the stop of the cache, an execution that
  returns a value returns the one its own input gives, if the cache key distinguishes the inputs of the executions. While the cache has
  not been stopped an execution that waits is not stuck: its answer has arrived, or a worker can take
  an operation or finish one.\<close>

theorem async_cache_transparent:
  assumes "ac_reach L policy node fn maxSize ev workers c" and "inj_on (async_key L policy node) (exec_input ` set (ac_execs c))"
  shows "(\<forall>x v. Returned x (Inr v) \<in> set (ac_execs c) \<longrightarrow> fn x = Inr v) \<and>
    (\<forall>j x ch. j < length (ac_execs c) \<and> ac_execs c ! j = Waiting x ch \<and> \<not> ac_stopped c \<longrightarrow>
       exec_answer fn j c \<noteq> None \<or> worker_receives c \<noteq> None \<or> worker_processes now 0 c \<noteq> None)"
proof -
  have ok: "ac_ok (async_key L policy node) fn (exec_input ` set (ac_execs c)) c"
    by (rule ac_reach_ok [OF assms(1) order_refl assms(2)])
  have "exec_answer fn j c \<noteq> None \<or> worker_receives c \<noteq> None \<or> worker_processes now 0 c \<noteq> None"
    if "j < length (ac_execs c)" "ac_execs c ! j = Waiting x ch" "\<not> ac_stopped c" for j x ch
  proof -
    have "map_of (ac_answers c) ch \<noteq> None \<or> (\<exists>k. OpGet ch k \<in> pending_ops c)"
      using ok that(2) nth_mem [OF that(1)] by (auto simp: ac_ok_def exec_ok_def dest!: bspec)
    then show ?thesis
    proof
      assume "map_of (ac_answers c) ch \<noteq> None"
      with that show ?thesis by (auto simp: exec_answer_def split: CacheResult.splits sum.splits)
    next
      assume "\<exists>k. OpGet ch k \<in> pending_ops c"
      moreover have "0 < ac_workers c" using ok that(3) by (simp add: ac_ok_def)
      ultimately show ?thesis
        by (cases "ac_taken c"; cases "ac_workerCh c") (auto simp: worker_receives_def worker_processes_def pending_ops_def)
    qed
  qed
  moreover have "fn x = Inr v" if "Returned x (Inr v) \<in> set (ac_execs c)" for x v
    using ok that by (auto simp: ac_ok_def exec_ok_def dest!: bspec)
  ultimately show ?thesis by blast
qed

text \<open>A run of the machine, \<open>None\<close> when an event is not possible.\<close>

fun ac_run :: "golib \<Rightarrow> AsyncCachePolicy option \<Rightarrow> string \<Rightarrow> (gval \<Rightarrow> gval res) \<Rightarrow> ac_event list \<Rightarrow> AsyncMemoryCache \<Rightarrow> AsyncMemoryCache option" where
  "ac_run L policy node fn [] c = Some c"
| "ac_run L policy node fn (e # es) c = (case ac_do L policy node fn e c of None \<Rightarrow> None | Some c1 \<Rightarrow> ac_run L policy node fn es c1)"

lemma ac_run_reach:
  "ac_reach L policy node fn m ev w c \<Longrightarrow> ac_run L policy node fn es c = Some c' \<Longrightarrow> ac_reach L policy node fn m ev w c'"
  by (induction es arbitrary: c) (auto split: option.splits intro: ac_step)

text \<open>One execution misses and stores its result; a second one with the same input hits, a third one waits.\<close>

definition hit_events :: "ac_event list" where
  "hit_events = [EvStart 0 (GStr ''a'') None, EvReceive, EvProcess 0 0, EvAnswer 0, EvStore 0 0, EvReceive, EvProcess 1 0,
     EvStart 0 (GStr ''a'') None, EvReceive, EvProcess 2 0, EvAnswer 1, EvStart 0 (GStr ''b'') None]"

definition async_policy :: AsyncCachePolicy where
  "async_policy = \<lparr>AcpKeyFunc = Some (\<lambda>x. case x of GStr s \<Rightarrow> s | _ \<Rightarrow> []), AcpTTL = None, AcpAsync = True\<rparr>"

definition wrap :: "gval \<Rightarrow> gval res" where "wrap x = Inr (GSlice [x])"

definition hit_state :: AsyncMemoryCache where
  "hit_state = the (ac_run sample_lib (Some async_policy) ''n'' wrap hit_events (NewAsyncMemoryCache 5 EvictLRU 2))"

theorem async_cache_transparent_witness:
  "map exec_input (ac_execs hit_state) = [GStr ''a'', GStr ''a'', GStr ''b''] \<and>
   ac_execs hit_state ! 1 = Returned (GStr ''a'') (Inr (GSlice [GStr ''a''])) \<and> wrap (GStr ''a'') = Inr (GSlice [GStr ''a'']) \<and>
   ((\<exists>c. exec_answer wrap 2 hit_state = Some c) \<or> (\<exists>c. worker_receives hit_state = Some c) \<or> (\<exists>c. worker_processes 3 0 hit_state = Some c))"
proof -
  have execs: "ac_execs hit_state = [Returned (GStr ''a'') (Inr (GSlice [GStr ''a''])), Returned (GStr ''a'') (Inr (GSlice [GStr ''a''])), Waiting (GStr ''b'') 3]"
    "\<not> ac_stopped hit_state"
    by code_simp+
  have "ac_run sample_lib (Some async_policy) ''n'' wrap hit_events (NewAsyncMemoryCache 5 EvictLRU 2) = Some hit_state"
    unfolding hit_state_def by code_simp
  then have reach: "ac_reach sample_lib (Some async_policy) ''n'' wrap 5 EvictLRU 2 hit_state" by (rule ac_run_reach [OF ac_start])
  have inj: "inj_on (async_key sample_lib (Some async_policy) ''n'') (exec_input ` set (ac_execs hit_state))"
    by (auto simp: execs inj_on_def async_key_def async_policy_def)
  from async_cache_transparent [OF reach inj, of 3] execs show ?thesis by (auto simp: less_Suc_eq)
qed

text \<open>
  With two workers a read may overtake the write before it, so that an execution does not see a result stored before it
  started; and after the cache is stopped and its workers have returned, a waiting execution ends only by cancellation.
\<close>

lemma read_overtakes_write:
  "(case ac_run sample_lib (Some async_policy) ''n'' wrap
      [EvStart 0 (GStr ''a'') None, EvReceive, EvProcess 0 0, EvAnswer 0, EvStore 0 0, EvStart 0 (GStr ''a'') None,
       EvReceive, EvReceive, EvProcess 1 1, EvAnswer 1] (NewAsyncMemoryCache 5 EvictLRU 2) of
      None \<Rightarrow> False | Some c \<Rightarrow> ac_execs c ! 1 = Computed (GStr ''a'') (GSlice [GStr ''a'']))"
  by code_simp

lemma stopped_execution_waits:
  assumes "ac_workers c = 0" and "ac_taken c = []" and "j < length (ac_execs c)" and "ac_execs c ! j = Waiting x ch"
    and "map_of (ac_answers c) ch = None"
  shows "worker_receives c = None" "worker_processes now i c = None" "exec_answer fn j c = None"
    "\<exists>c'. exec_cancel err j c = Some c'"
  using assms by (auto simp: worker_receives_def worker_processes_def exec_answer_def exec_cancel_def split: list.splits)

end
