(* ===== verification/Event_Log.thy ===== *)
theory Event_Log
  imports Graph_Errors
begin

text \<open>
  Event sourcing (\<open>harness/events\<close>): events, the logical clock, filters, the in-memory store and the recorder. An event is a value: the
  sources share it by pointer and change it only in \<open>Append\<close>, which returns the changed events here. The contract of an event
  log is the locale \<open>event_log\<close>; the readers of logs (replay, fork, diff) are proved correct over it.
\<close>

section \<open>Events\<close>

type_synonym EventType = string

definition EventGraphStart :: EventType where "EventGraphStart = ''graph.start''"
definition EventGraphEnd :: EventType where "EventGraphEnd = ''graph.end''"
definition EventStepStart :: EventType where "EventStepStart = ''step.start''"
definition EventStepEnd :: EventType where "EventStepEnd = ''step.end''"
definition EventNodeStart :: EventType where "EventNodeStart = ''node.start''"
definition EventNodeEnd :: EventType where "EventNodeEnd = ''node.end''"
definition EventStateWrite :: EventType where "EventStateWrite = ''state.write''"
definition EventToolCallStart :: EventType where "EventToolCallStart = ''tool.call.start''"
definition EventToolCallResult :: EventType where "EventToolCallResult = ''tool.call.result''"
definition EventLLMCallStart :: EventType where "EventLLMCallStart = ''llm.call.start''"
definition EventLLMCallChunk :: EventType where "EventLLMCallChunk = ''llm.call.chunk''"
definition EventLLMCallEnd :: EventType where "EventLLMCallEnd = ''llm.call.end''"
definition EventMemoryRead :: EventType where "EventMemoryRead = ''memory.read''"
definition EventMemoryWrite :: EventType where "EventMemoryWrite = ''memory.write''"
definition EventApprovalRequest :: EventType where "EventApprovalRequest = ''approval.request''"
definition EventCheckpointCreated :: EventType where "EventCheckpointCreated = ''checkpoint.created''"
definition EventCheckpointRestored :: EventType where "EventCheckpointRestored = ''checkpoint.restored''"
definition EventInterrupt :: EventType where "EventInterrupt = ''interrupt''"
definition EventResume :: EventType where "EventResume = ''resume''"
definition EventError :: EventType where "EventError = ''error''"
definition EventRetry :: EventType where "EventRetry = ''retry''"
definition EventFork :: EventType where "EventFork = ''fork''"
definition EventSubAgentCallStart :: EventType where "EventSubAgentCallStart = ''subagent.call.start''"
definition EventSubAgentCallEnd :: EventType where "EventSubAgentCallEnd = ''subagent.call.end''"
definition EventSessionValueSet :: EventType where "EventSessionValueSet = ''session.value.set''"
definition EventSessionTransfer :: EventType where "EventSessionTransfer = ''session.transfer''"

lemmas event_types = EventGraphStart_def EventGraphEnd_def EventStepStart_def EventStepEnd_def EventNodeStart_def EventNodeEnd_def
  EventStateWrite_def EventToolCallStart_def EventToolCallResult_def EventLLMCallStart_def EventLLMCallChunk_def EventLLMCallEnd_def
  EventMemoryRead_def EventMemoryWrite_def EventApprovalRequest_def EventCheckpointCreated_def EventCheckpointRestored_def
  EventInterrupt_def EventResume_def EventError_def EventRetry_def EventFork_def EventSubAgentCallStart_def EventSubAgentCallEnd_def
  EventSessionValueSet_def EventSessionTransfer_def

text \<open>Clocks are \<open>uint64\<close>; a nil payload or metadata map is \<open>None\<close>.\<close>

record Event =
  evID :: string
  evType :: EventType
  evTimestamp :: int
  evClock :: "64 word"
  evTraceID :: string
  evParentID :: string
  evCausedBy :: "string list"
  evThreadID :: string
  evStep :: int
  evNode :: string
  evTaskID :: string
  evPayload :: "string option"
  evMetadata :: "gval gomap option"
  evDeterministic :: bool
  evHash :: string

text \<open>\<open>ident\<close> is the text \<open>evt-<clock>-<time>\<close>.\<close>

definition NewEvent :: "string \<Rightarrow> int \<Rightarrow> EventType \<Rightarrow> 64 word \<Rightarrow> Event" where
  "NewEvent ident now ty clock =
     \<lparr>evID = ident, evType = ty, evTimestamp = now, evClock = clock, evTraceID = [], evParentID = [], evCausedBy = [], evThreadID = [],
      evStep = 0, evNode = [], evTaskID = [], evPayload = None, evMetadata = Some [], evDeterministic = False, evHash = []\<rparr>"

definition computeHash :: "golib \<Rightarrow> Event \<Rightarrow> string" where
  "computeHash L e =
     to_hex L (sha256 L
       ((case evPayload e of None \<Rightarrow> [] | Some p \<Rightarrow> p) @
        (case evMetadata e of None \<Rightarrow> [] | Some m \<Rightarrow> (case json_marshal L (GMap m) of None \<Rightarrow> [] | Some s \<Rightarrow> s))))"

definition Seal :: "golib \<Rightarrow> Event \<Rightarrow> Event" where
  "Seal L e = e\<lparr>evHash := computeHash L e\<rparr>"

text \<open>The typed payloads. Floating-point numbers are bit patterns.\<close>

record TokenUsage =
  PromptTokens :: int
  CompletionTokens :: int
  TotalTokens :: int

record ToolCallPayload =
  tcToolName :: string
  tcArguments :: "gval gomap"
  tcResult :: gval
  tcDurationMs :: int
  tcError :: string
  tcRetryCount :: int

record LLMCallPayload =
  lcModel :: string
  lcProvider :: string
  lcMessages :: "gval list"
  lcTokens :: TokenUsage
  lcContent :: string
  lcChunks :: int
  lcDurationMs :: int
  lcCost :: "64 word"

record StateTransitionPayload =
  stChannel :: string
  stOldValue :: gval
  stNewValue :: gval
  stReducer :: string

record MemoryWritePayload =
  mwStore :: string
  mwOperation :: string
  mwKey :: string
  mwValue :: gval
  mwScore :: "64 word"

record ApprovalPayload =
  apRequestID :: string
  apAction :: string
  apContext :: gval
  apDecision :: string
  apLatencyMs :: int

record SubAgentCallPayload =
  saSubAgentName :: string
  saInput :: gval
  saOutput :: gval
  saDepth :: int
  saDurationMs :: int
  saError :: string

record SessionValuePayload =
  svKey :: string
  svValue :: gval

record SessionTransferPayload =
  sfFromAgent :: string
  sfToAgent :: string
  sfReason :: string
  sfInput :: gval

datatype payload =
    PTool ToolCallPayload | PLLM LLMCallPayload | PState StateTransitionPayload | PMemory MemoryWritePayload | PApproval ApprovalPayload
  | PSubAgent SubAgentCallPayload | PSession SessionValuePayload | PTransfer SessionTransferPayload

text \<open>
  \<open>encoding/json\<close> on these structs: the text of a payload (\<open>None\<close>: it does not marshal) and what a text leaves in a zero struct, with
  whether an error is returned; and the same for whole events.
\<close>

record eventlib =
  marshal_payload :: "payload \<Rightarrow> string option"
  unmarshal_tool :: "string \<Rightarrow> ToolCallPayload \<times> bool"
  unmarshal_llm :: "string \<Rightarrow> LLMCallPayload \<times> bool"
  unmarshal_state :: "string \<Rightarrow> StateTransitionPayload \<times> bool"
  marshal_event :: "Event \<Rightarrow> string option"
  unmarshal_event :: "string \<Rightarrow> Event option"
  marshal_events :: "Event list \<Rightarrow> string option"

section \<open>The logical clock\<close>

definition NewLogicalClock :: "64 word" where "NewLogicalClock = 0"
definition Tick :: "64 word \<Rightarrow> 64 word \<times> 64 word" where "Tick c = (c + 1, c + 1)"
definition Clock_Now :: "64 word \<Rightarrow> 64 word" where "Clock_Now c = c"
definition Clock_Reset :: "64 word \<Rightarrow> 64 word" where "Clock_Reset c = 0"

section \<open>Filters\<close>

text \<open>A zero time is \<open>None\<close>. The limit is not read by \<open>Matches\<close>, nor by the stores.\<close>

record EventFilter =
  fTraceID :: string
  fThreadID :: string
  fTypes :: "EventType list"
  fNode :: string
  fFromClock :: "64 word"
  fToClock :: "64 word"
  fFromTime :: "int option"
  fToTime :: "int option"
  fLimit :: int

definition no_filter :: EventFilter where
  "no_filter = \<lparr>fTraceID = [], fThreadID = [], fTypes = [], fNode = [], fFromClock = 0, fToClock = 0, fFromTime = None, fToTime = None, fLimit = 0\<rparr>"

definition Matches :: "EventFilter \<Rightarrow> Event \<Rightarrow> bool" where
  "Matches f e =
     (if fTraceID f \<noteq> [] \<and> evTraceID e \<noteq> fTraceID f then False
      else if fThreadID f \<noteq> [] \<and> evThreadID e \<noteq> fThreadID f then False
      else if fTypes f \<noteq> [] \<and> evType e \<notin> set (fTypes f) then False
      else if fNode f \<noteq> [] \<and> evNode e \<noteq> fNode f then False
      else if 0 < fFromClock f \<and> evClock e < fFromClock f then False
      else if 0 < fToClock f \<and> fToClock f < evClock e then False
      else if (case fFromTime f of None \<Rightarrow> False | Some t \<Rightarrow> evTimestamp e < t) then False
      else if (case fToTime f of None \<Rightarrow> False | Some t \<Rightarrow> t < evTimestamp e) then False
      else True)"

section \<open>Iterators\<close>

record sliceIterator =
  it_events :: "Event list"
  it_pos :: nat

definition Iter_Next :: "sliceIterator \<Rightarrow> sliceIterator \<times> Event option" where
  "Iter_Next it =
     (if length (it_events it) \<le> it_pos it then (it, None)
      else (it\<lparr>it_pos := it_pos it + 1\<rparr>, Some (it_events it ! it_pos it)))"

definition Iter_Close :: "sliceIterator \<Rightarrow> sliceIterator" where
  "Iter_Close it = it\<lparr>it_events := []\<rparr>"

text \<open>The loop of the readers: all events until the iterator is exhausted.\<close>

function drain_events :: "sliceIterator \<Rightarrow> Event list" where
  "drain_events it = (case Iter_Next it of (it', None) \<Rightarrow> [] | (it', Some e) \<Rightarrow> e # drain_events it')"
  by auto
termination
  by (relation "measure (\<lambda>it. length (it_events it) - it_pos it)") (auto simp: Iter_Next_def split: if_splits)

declare drain_events.simps [simp del]

lemma drain_all: "drain_events it = drop (it_pos it) (it_events it)"
proof (induction it rule: drain_events.induct)
  case (1 it)
  show ?case
  proof (cases "it_pos it < length (it_events it)")
    case True
    then have step: "Iter_Next it = (it\<lparr>it_pos := it_pos it + 1\<rparr>, Some (it_events it ! it_pos it))" by (simp add: Iter_Next_def)
    from 1 [OF step [symmetric] refl] True show ?thesis
      by (subst drain_events.simps) (simp add: step Cons_nth_drop_Suc)
  next
    case False
    then show ?thesis by (subst drain_events.simps) (simp add: Iter_Next_def)
  qed
qed

section \<open>The in-memory store\<close>

text \<open>A subscription is its buffered channel.\<close>

record MemoryEventStore =
  ms_events :: "Event list"
  ms_byID :: "Event gomap"
  ms_clock :: "64 word"
  ms_subs :: "(int \<times> Event list) list"
  ms_subID :: int

definition NewMemoryEventStore :: MemoryEventStore where
  "NewMemoryEventStore = \<lparr>ms_events = [], ms_byID = [], ms_clock = 0, ms_subs = [], ms_subID = 0\<rparr>"

text \<open>An event with clock 0 gets the next value of the clock of the store.\<close>

definition stamp :: "golib \<Rightarrow> 64 word \<Rightarrow> Event \<Rightarrow> 64 word \<times> Event" where
  "stamp L clock e =
     (if evClock e = 0 then (clock + 1, Seal L (e\<lparr>evClock := clock + 1\<rparr>)) else (clock, Seal L e))"

definition dispatch :: "Event \<Rightarrow> (int \<times> Event list) list \<Rightarrow> (int \<times> Event list) list" where
  "dispatch e subs = map (\<lambda>(i, ch). (i, if length ch < 256 then ch @ [e] else ch)) subs"

fun Mem_Append :: "golib \<Rightarrow> MemoryEventStore \<Rightarrow> Event list \<Rightarrow> MemoryEventStore \<times> Event list" where
  "Mem_Append L s [] = (s, [])"
| "Mem_Append L s (e # es) =
     (case stamp L (ms_clock s) e of
        (clock, e1) \<Rightarrow>
          (case Mem_Append L (s\<lparr>ms_clock := clock, ms_events := ms_events s @ [e1], ms_byID := mput (evID e1) e1 (ms_byID s),
                                ms_subs := dispatch e1 (ms_subs s)\<rparr>) es of
             (s', es1) \<Rightarrow> (s', e1 # es1)))"

definition Mem_Stream :: "MemoryEventStore \<Rightarrow> EventFilter \<Rightarrow> sliceIterator" where
  "Mem_Stream s f = \<lparr>it_events = filter (Matches f) (ms_events s), it_pos = 0\<rparr>"

definition Mem_Get :: "MemoryEventStore \<Rightarrow> string \<Rightarrow> Event option" where
  "Mem_Get s i = mget (ms_byID s) i"

definition range_events :: "Event list \<Rightarrow> 64 word \<Rightarrow> 64 word \<Rightarrow> EventFilter \<Rightarrow> Event list" where
  "range_events evs from to f = filter (\<lambda>e. \<not> evClock e < from \<and> \<not> (0 < to \<and> to < evClock e) \<and> Matches f e) evs"

definition Mem_Range :: "MemoryEventStore \<Rightarrow> 64 word \<Rightarrow> 64 word \<Rightarrow> EventFilter \<Rightarrow> Event list" where
  "Mem_Range s from to f = range_events (ms_events s) from to f"

text \<open>The position of the first event at or after the clock, 0 when there is none.\<close>

fun seek_pos :: "Event list \<Rightarrow> 64 word \<Rightarrow> nat option" where
  "seek_pos [] clock = None"
| "seek_pos (e # es) clock = (if clock \<le> evClock e then Some 0 else map_option Suc (seek_pos es clock))"

definition seek_events :: "Event list \<Rightarrow> 64 word \<Rightarrow> sliceIterator" where
  "seek_events evs clock = \<lparr>it_events = drop (case seek_pos evs clock of None \<Rightarrow> 0 | Some i \<Rightarrow> i) evs, it_pos = 0\<rparr>"

definition Mem_Seek :: "MemoryEventStore \<Rightarrow> 64 word \<Rightarrow> sliceIterator" where
  "Mem_Seek s clock = seek_events (ms_events s) clock"

definition Mem_Length :: "MemoryEventStore \<Rightarrow> nat" where
  "Mem_Length s = length (ms_events s)"

record EventSnapshot =
  snID :: string
  snTraceID :: string
  snClock :: "64 word"
  snCreatedAt :: int
  snData :: string

definition take_snapshot :: "golib \<Rightarrow> eventlib \<Rightarrow> int \<Rightarrow> Event list \<Rightarrow> 64 word \<Rightarrow> string \<Rightarrow> EventSnapshot res" where
  "take_snapshot L J now evs clock traceID =
     (case marshal_events J evs of
        None \<Rightarrow> Inl (Errorf ''marshal snapshot'' [])
      | Some data \<Rightarrow>
          Inr \<lparr>snID = ''snap-'' @ traceID @ ''-'' @ fmt_d L (uint clock), snTraceID = traceID, snClock = clock, snCreatedAt = now, snData = data\<rparr>)"

definition Mem_CreateSnapshot :: "golib \<Rightarrow> eventlib \<Rightarrow> int \<Rightarrow> MemoryEventStore \<Rightarrow> string \<Rightarrow> EventSnapshot res" where
  "Mem_CreateSnapshot L J now s traceID = take_snapshot L J now (ms_events s) (ms_clock s) traceID"

definition Mem_RestoreSnapshot :: "MemoryEventStore \<Rightarrow> string \<Rightarrow> sliceIterator" where
  "Mem_RestoreSnapshot s snapshotID = Mem_Seek s 0"

text \<open>The filter of a subscription is not used. \<open>Mem_Unsubscribe\<close> is the goroutine that waits for the end of the context, \<open>Mem_Receive\<close> a
  receive of the subscriber.\<close>

definition Mem_Subscribe :: "MemoryEventStore \<Rightarrow> EventFilter \<Rightarrow> MemoryEventStore \<times> int" where
  "Mem_Subscribe s f = (let i = ms_subID s + 1 in (s\<lparr>ms_subID := i, ms_subs := AList.update i [] (ms_subs s)\<rparr>, i))"

definition Mem_Unsubscribe :: "MemoryEventStore \<Rightarrow> int \<Rightarrow> MemoryEventStore" where
  "Mem_Unsubscribe s i = s\<lparr>ms_subs := AList.delete i (ms_subs s)\<rparr>"

definition Mem_Receive :: "MemoryEventStore \<Rightarrow> int \<Rightarrow> (MemoryEventStore \<times> Event) option" where
  "Mem_Receive s i =
     (case map_of (ms_subs s) i of
        Some (e # ch) \<Rightarrow> Some (s\<lparr>ms_subs := AList.update i ch (ms_subs s)\<rparr>, e)
      | _ \<Rightarrow> None)"

definition Mem_GC :: "int \<Rightarrow> int \<Rightarrow> MemoryEventStore \<Rightarrow> MemoryEventStore" where
  "Mem_GC now retention s =
     (let cutoff = now - retention
      in s\<lparr>ms_events := filter (\<lambda>e. cutoff < evTimestamp e) (ms_events s),
           ms_byID := fold (\<lambda>e m. if cutoff < evTimestamp e then m else mdel (evID e) m) (ms_events s) (ms_byID s)\<rparr>)"

section \<open>The recorder\<close>

text \<open>
  \<open>EventRecorder\<close>: its own clock and the identifiers it writes into every event; the store is an argument. A method is the list of the calls of
  \<open>record\<close> it makes, each with the type of the event and the function that fills it in; the engine calls the methods whose name starts with \<open>On\<close>.
\<close>

record EventRecorder =
  rc_clock :: "64 word"
  rc_traceID :: string
  rc_threadID :: string

definition NewEventRecorder :: "string \<Rightarrow> string \<Rightarrow> EventRecorder" where
  "NewEventRecorder traceID threadID = \<lparr>rc_clock = NewLogicalClock, rc_traceID = traceID, rc_threadID = threadID\<rparr>"

type_synonym rec_entry = "EventType \<times> (Event \<Rightarrow> Event)"

definition fresh_event :: "golib \<Rightarrow> EventRecorder \<Rightarrow> 64 word \<Rightarrow> string \<times> int \<Rightarrow> rec_entry \<Rightarrow> Event" where
  "fresh_event L r clock at entry =
     Seal L (snd entry ((NewEvent (fst at) (snd at) (fst entry) clock)\<lparr>evTraceID := rc_traceID r, evThreadID := rc_threadID r\<rparr>))"

text \<open>An error of \<open>Append\<close> is ignored.\<close>

definition record_event ::
  "('s \<Rightarrow> Event list \<Rightarrow> 's \<times> Event list res) \<Rightarrow> golib \<Rightarrow> EventRecorder \<times> 's \<Rightarrow> string \<times> int \<Rightarrow> rec_entry \<Rightarrow> EventRecorder \<times> 's" where
  "record_event app L rs at entry =
     (case Tick (rc_clock (fst rs)) of
        (clock, v) \<Rightarrow> ((fst rs)\<lparr>rc_clock := clock\<rparr>, fst (app (snd rs) [fresh_event L (fst rs) v at entry])))"

fun record_all ::
  "('s \<Rightarrow> Event list \<Rightarrow> 's \<times> Event list res) \<Rightarrow> golib \<Rightarrow> EventRecorder \<times> 's \<Rightarrow> ((string \<times> int) \<times> rec_entry) list \<Rightarrow> EventRecorder \<times> 's" where
  "record_all app L rs [] = rs"
| "record_all app L rs ((at, entry) # es) = record_all app L (record_event app L rs at entry) es"

definition with_meta :: "string \<Rightarrow> gval \<Rightarrow> Event \<Rightarrow> Event" where
  "with_meta k v e = e\<lparr>evMetadata := Some (mput k v (case evMetadata e of None \<Rightarrow> [] | Some m \<Rightarrow> m))\<rparr>"

definition with_payload :: "eventlib \<Rightarrow> payload \<Rightarrow> Event \<Rightarrow> Event" where
  "with_payload J p e = e\<lparr>evPayload := marshal_payload J p\<rparr>"

definition with_error :: "string option \<Rightarrow> Event \<Rightarrow> Event" where
  "with_error err e = (case err of None \<Rightarrow> e | Some m \<Rightarrow> with_meta ''error'' (GStr m) e)"

definition RecordModelCall ::
  "eventlib \<Rightarrow> string \<Rightarrow> string \<Rightarrow> gval list \<Rightarrow> string \<Rightarrow> TokenUsage \<Rightarrow> int \<Rightarrow> 64 word \<Rightarrow> rec_entry list" where
  "RecordModelCall J model provider messages content tokens durationMs cost =
     [(EventLLMCallStart, \<lambda>e. with_meta ''provider'' (GStr provider) (with_meta ''model'' (GStr model) (e\<lparr>evDeterministic := False\<rparr>))),
      (EventLLMCallEnd, \<lambda>e. with_payload J (PLLM \<lparr>lcModel = model, lcProvider = provider, lcMessages = messages, lcTokens = tokens, lcContent = content,
         lcChunks = 0, lcDurationMs = durationMs, lcCost = cost\<rparr>) (e\<lparr>evDeterministic := False\<rparr>))]"

definition RecordLLMChunk :: "string \<Rightarrow> string \<Rightarrow> rec_entry list" where
  "RecordLLMChunk model chunk =
     [(EventLLMCallChunk, \<lambda>e. with_meta ''chunk'' (GStr chunk) (with_meta ''model'' (GStr model) (e\<lparr>evDeterministic := False\<rparr>)))]"

definition RecordToolCall ::
  "eventlib \<Rightarrow> string \<Rightarrow> gval gomap \<Rightarrow> gval \<Rightarrow> int \<Rightarrow> int \<Rightarrow> string \<Rightarrow> rec_entry list" where
  "RecordToolCall J toolName arguments result durationMs retryCount errStr =
     [(EventToolCallStart, with_meta ''tool'' (GStr toolName)),
      (EventToolCallResult, \<lambda>e. (let e1 = with_payload J (PTool \<lparr>tcToolName = toolName, tcArguments = arguments, tcResult = result,
           tcDurationMs = durationMs, tcError = errStr, tcRetryCount = retryCount\<rparr>) e
         in if errStr \<noteq> [] then e1\<lparr>evDeterministic := False\<rparr> else e1))]"

definition RecordSubAgentCall :: "eventlib \<Rightarrow> string \<Rightarrow> gval \<Rightarrow> gval \<Rightarrow> int \<Rightarrow> int \<Rightarrow> string \<Rightarrow> rec_entry list" where
  "RecordSubAgentCall J subAgentName input outcome depth durationMs errStr =
     [(EventSubAgentCallStart, with_payload J (PSubAgent \<lparr>saSubAgentName = subAgentName, saInput = input, saOutput = GNil, saDepth = depth,
         saDurationMs = 0, saError = []\<rparr>)),
      (EventSubAgentCallEnd, \<lambda>e. (let e1 = with_payload J (PSubAgent \<lparr>saSubAgentName = subAgentName, saInput = GNil, saOutput = outcome,
           saDepth = depth, saDurationMs = durationMs, saError = errStr\<rparr>) e
         in if errStr \<noteq> [] then e1\<lparr>evDeterministic := False\<rparr> else e1))]"

definition RecordSessionValue :: "eventlib \<Rightarrow> string \<Rightarrow> gval \<Rightarrow> rec_entry list" where
  "RecordSessionValue J key v = [(EventSessionValueSet, with_payload J (PSession \<lparr>svKey = key, svValue = v\<rparr>))]"

definition RecordSessionTransfer :: "eventlib \<Rightarrow> string \<Rightarrow> string \<Rightarrow> string \<Rightarrow> gval \<Rightarrow> rec_entry list" where
  "RecordSessionTransfer J fromAgent toAgent reason input =
     [(EventSessionTransfer, with_payload J (PTransfer \<lparr>sfFromAgent = fromAgent, sfToAgent = toAgent, sfReason = reason, sfInput = input\<rparr>))]"

definition RecordStateWrite :: "eventlib \<Rightarrow> string \<Rightarrow> gval \<Rightarrow> gval \<Rightarrow> string \<Rightarrow> rec_entry list" where
  "RecordStateWrite J channel oldValue newValue reducer =
     [(EventStateWrite, with_payload J (PState \<lparr>stChannel = channel, stOldValue = oldValue, stNewValue = newValue, stReducer = reducer\<rparr>))]"

definition RecordMemoryWrite :: "eventlib \<Rightarrow> string \<Rightarrow> string \<Rightarrow> string \<Rightarrow> gval \<Rightarrow> 64 word \<Rightarrow> rec_entry list" where
  "RecordMemoryWrite J store operation key v score =
     [(EventMemoryWrite, with_payload J (PMemory \<lparr>mwStore = store, mwOperation = operation, mwKey = key, mwValue = v, mwScore = score\<rparr>))]"

definition RecordMemoryRead :: "eventlib \<Rightarrow> string \<Rightarrow> string \<Rightarrow> 64 word \<Rightarrow> rec_entry list" where
  "RecordMemoryRead J store key score =
     [(EventMemoryRead, with_payload J (PMemory \<lparr>mwStore = store, mwOperation = [], mwKey = key, mwValue = GNil, mwScore = score\<rparr>))]"

definition RecordApproval :: "eventlib \<Rightarrow> string \<Rightarrow> string \<Rightarrow> gval \<Rightarrow> string \<Rightarrow> int \<Rightarrow> rec_entry list" where
  "RecordApproval J requestID action ctx decision latencyMs =
     [(EventApprovalRequest, with_payload J (PApproval \<lparr>apRequestID = requestID, apAction = action, apContext = ctx, apDecision = decision,
         apLatencyMs = latencyMs\<rparr>))]"

definition RecordError :: "string \<Rightarrow> rec_entry list" where
  "RecordError errMsg = [(EventError, with_meta ''error'' (GStr errMsg))]"

definition RecordRetry :: "string \<Rightarrow> rec_entry list" where
  "RecordRetry detail = [(EventRetry, with_meta ''detail'' (GStr detail))]"

definition OnRunStart :: "string \<Rightarrow> string \<Rightarrow> rec_entry list" where
  "OnRunStart graphName threadID = [(EventGraphStart, with_meta ''graph_name'' (GStr graphName))]"

definition OnRunEnd :: "string \<Rightarrow> string \<Rightarrow> string option \<Rightarrow> rec_entry list" where
  "OnRunEnd graphName threadID err = [(EventGraphEnd, \<lambda>e. with_error err (with_meta ''graph_name'' (GStr graphName) e))]"

definition OnStepStart :: "int \<Rightarrow> 64 word \<Rightarrow> rec_entry list" where
  "OnStepStart step taskCount = [(EventStepStart, \<lambda>e. with_meta ''task_count'' (GInt taskCount) (e\<lparr>evStep := step\<rparr>))]"

definition OnStepEnd :: "int \<Rightarrow> string option \<Rightarrow> rec_entry list" where
  "OnStepEnd step err = [(EventStepEnd, \<lambda>e. with_error err (e\<lparr>evStep := step\<rparr>))]"

definition OnNodeStart :: "string \<Rightarrow> int \<Rightarrow> rec_entry list" where
  "OnNodeStart nodeName step = [(EventNodeStart, \<lambda>e. e\<lparr>evNode := nodeName, evStep := step\<rparr>)]"

definition OnNodeEnd :: "string \<Rightarrow> int \<Rightarrow> gval \<Rightarrow> string option \<Rightarrow> rec_entry list" where
  "OnNodeEnd nodeName step outcome err = [(EventNodeEnd, \<lambda>e. with_error err (e\<lparr>evNode := nodeName, evStep := step\<rparr>))]"

definition OnCheckpointSave :: "string \<Rightarrow> string \<Rightarrow> int \<Rightarrow> rec_entry list" where
  "OnCheckpointSave threadID checkpointID step =
     [(EventCheckpointCreated, \<lambda>e. with_meta ''checkpoint_id'' (GStr checkpointID) (e\<lparr>evThreadID := threadID, evStep := step\<rparr>))]"

definition OnCheckpointLoad :: "string \<Rightarrow> string \<Rightarrow> int \<Rightarrow> rec_entry list" where
  "OnCheckpointLoad threadID checkpointID step =
     [(EventCheckpointRestored, \<lambda>e. with_meta ''checkpoint_id'' (GStr checkpointID) (e\<lparr>evThreadID := threadID, evStep := step\<rparr>))]"

definition OnCheckpointUpdate :: "string \<Rightarrow> string \<Rightarrow> rec_entry list" where
  "OnCheckpointUpdate threadID asNode = [(EventStateWrite, \<lambda>e. e\<lparr>evThreadID := threadID, evNode := asNode\<rparr>)]"

definition OnInterrupt :: "string list \<Rightarrow> int \<Rightarrow> rec_entry list" where
  "OnInterrupt nodeNames step =
     [(EventInterrupt, \<lambda>e. with_meta ''interrupt_nodes'' (GTyped (TSlice TString) (GSlice (map GStr nodeNames))) (e\<lparr>evStep := step\<rparr>))]"

definition OnResume :: "string \<Rightarrow> rec_entry list" where
  "OnResume threadID = [(EventResume, \<lambda>e. e\<lparr>evThreadID := threadID\<rparr>)]"

text \<open>The calls a recorder can make: those of any sequence of its methods.\<close>

inductive recorded :: "eventlib \<Rightarrow> rec_entry list \<Rightarrow> bool" for J where
  none: "recorded J []"
| model_call: "recorded J es \<Longrightarrow> recorded J (es @ RecordModelCall J m p ms c t d x)"
| llm_chunk: "recorded J es \<Longrightarrow> recorded J (es @ RecordLLMChunk m c)"
| tool_call: "recorded J es \<Longrightarrow> recorded J (es @ RecordToolCall J n a r d k err)"
| sub_agent: "recorded J es \<Longrightarrow> recorded J (es @ RecordSubAgentCall J n i v dep d err)"
| session_value: "recorded J es \<Longrightarrow> recorded J (es @ RecordSessionValue J k v)"
| session_transfer: "recorded J es \<Longrightarrow> recorded J (es @ RecordSessionTransfer J f t rn i)"
| state_write: "recorded J es \<Longrightarrow> recorded J (es @ RecordStateWrite J ch ov nv rd)"
| memory_write: "recorded J es \<Longrightarrow> recorded J (es @ RecordMemoryWrite J s q k v x)"
| memory_read: "recorded J es \<Longrightarrow> recorded J (es @ RecordMemoryRead J s k x)"
| approval: "recorded J es \<Longrightarrow> recorded J (es @ RecordApproval J q a cx dn l)"
| run_error: "recorded J es \<Longrightarrow> recorded J (es @ RecordError q)"
| retried: "recorded J es \<Longrightarrow> recorded J (es @ RecordRetry q)"
| run_start: "recorded J es \<Longrightarrow> recorded J (es @ OnRunStart g th)"
| run_end: "recorded J es \<Longrightarrow> recorded J (es @ OnRunEnd g th e)"
| step_start: "recorded J es \<Longrightarrow> recorded J (es @ OnStepStart st k)"
| step_end: "recorded J es \<Longrightarrow> recorded J (es @ OnStepEnd st e)"
| node_start: "recorded J es \<Longrightarrow> recorded J (es @ OnNodeStart n st)"
| node_end: "recorded J es \<Longrightarrow> recorded J (es @ OnNodeEnd n st v e)"
| checkpoint_save: "recorded J es \<Longrightarrow> recorded J (es @ OnCheckpointSave th cp st)"
| checkpoint_load: "recorded J es \<Longrightarrow> recorded J (es @ OnCheckpointLoad th cp st)"
| checkpoint_update: "recorded J es \<Longrightarrow> recorded J (es @ OnCheckpointUpdate th n)"
| interrupted: "recorded J es \<Longrightarrow> recorded J (es @ OnInterrupt ns st)"
| resumed: "recorded J es \<Longrightarrow> recorded J (es @ OnResume th)"

lemmas recorder_methods = RecordModelCall_def RecordLLMChunk_def RecordToolCall_def RecordSubAgentCall_def RecordSessionValue_def
  RecordSessionTransfer_def RecordStateWrite_def RecordMemoryWrite_def RecordMemoryRead_def RecordApproval_def RecordError_def
  RecordRetry_def OnRunStart_def OnRunEnd_def OnStepStart_def OnStepEnd_def OnNodeStart_def OnNodeEnd_def OnCheckpointSave_def
  OnCheckpointLoad_def OnCheckpointUpdate_def OnInterrupt_def OnResume_def

text \<open>What every call keeps of a fresh event.\<close>

definition keeps_identity :: "(Event \<Rightarrow> Event) \<Rightarrow> bool" where
  "keeps_identity f \<longleftrightarrow> (\<forall>e. evID (f e) = evID e \<and> evType (f e) = evType e \<and> evClock (f e) = evClock e \<and> evTraceID (f e) = evTraceID e)"

lemma recorded_safe: "recorded J es \<Longrightarrow> entry \<in> set es \<Longrightarrow> keeps_identity (snd entry)"
  by (induction rule: recorded.induct)
    (auto simp: recorder_methods keeps_identity_def with_meta_def with_payload_def with_error_def Let_def split: option.splits)

section \<open>The contract of an event log\<close>

text \<open>What \<open>Append\<close> makes of an event: it is sealed, and keeps its clock if it has one.\<close>

definition stamped :: "golib \<Rightarrow> Event \<Rightarrow> Event \<Rightarrow> bool" where
  "stamped L e e' \<longleftrightarrow> e' = Seal L (e\<lparr>evClock := evClock e'\<rparr>) \<and> (evClock e \<noteq> 0 \<longrightarrow> evClock e' = evClock e)"

locale event_log =
  fixes L :: golib
    and app :: "'s \<Rightarrow> Event list \<Rightarrow> 's \<times> Event list res"
    and stream :: "'s \<Rightarrow> EventFilter \<Rightarrow> sliceIterator"
    and get :: "'s \<Rightarrow> string \<Rightarrow> Event option"
    and log :: "'s \<Rightarrow> Event list"
    and wf :: "'s \<Rightarrow> bool"
  assumes app_log: "wf s \<Longrightarrow> app s es = (s', Inr es') \<Longrightarrow> wf s' \<and> log s' = log s @ es'"
    and app_stamped: "wf s \<Longrightarrow> app s es = (s', Inr es') \<Longrightarrow> list_all2 (stamped L) es es'"
    and stream_log: "drain_events (stream s f) = filter (Matches f) (log s)"
    and get_sound: "wf s \<Longrightarrow> get s i = Some e \<Longrightarrow> e \<in> set (log s) \<and> evID e = i"

text \<open>A log whose \<open>Append\<close> does not fail, and a recorder over it.\<close>

locale reliable_log = event_log +
  assumes app_ok: "\<exists>s' es'. app s es = (s', Inr es')"

fun recorded_events :: "golib \<Rightarrow> EventRecorder \<Rightarrow> 64 word \<Rightarrow> ((string \<times> int) \<times> rec_entry) list \<Rightarrow> Event list" where
  "recorded_events L r clock [] = []"
| "recorded_events L r clock ((at, entry) # es) = fresh_event L r (clock + 1) at entry # recorded_events L r (clock + 1) es"

definition by_trace :: "string \<Rightarrow> EventFilter" where
  "by_trace t = no_filter\<lparr>fTraceID := t\<rparr>"

lemma matches_by_trace: "Matches (by_trace t) e \<longleftrightarrow> t = [] \<or> evTraceID e = t"
  by (simp add: Matches_def by_trace_def no_filter_def)

lemma hash_fields [simp]:
  "computeHash L (e\<lparr>evClock := c\<rparr>) = computeHash L e" "computeHash L (e\<lparr>evHash := h\<rparr>) = computeHash L e"
  "computeHash L (Seal L e) = computeHash L e" "evHash (Seal L e) = computeHash L e"
  by (simp_all add: computeHash_def Seal_def)

lemma seal_fields [simp]:
  "evID (Seal L e) = evID e" "evType (Seal L e) = evType e" "evClock (Seal L e) = evClock e" "evTraceID (Seal L e) = evTraceID e"
  "evPayload (Seal L e) = evPayload e" "evMetadata (Seal L e) = evMetadata e" "evNode (Seal L e) = evNode e" "evStep (Seal L e) = evStep e"
  by (simp_all add: Seal_def)

lemma seal_seal [simp]: "Seal L (Seal L e) = Seal L e"
  by (simp add: Seal_def)

lemma fresh_event_fields:
  assumes "keeps_identity (snd entry)"
  shows "evType (fresh_event L r c at entry) = fst entry" "evClock (fresh_event L r c at entry) = c"
    "evTraceID (fresh_event L r c at entry) = rc_traceID r" "Seal L (fresh_event L r c at entry) = fresh_event L r c at entry"
  using assms by (simp_all add: fresh_event_def keeps_identity_def NewEvent_def)

lemma fresh_clock: "uint c + 1 < 2 ^ 64 \<Longrightarrow> uint (c + 1) = uint c + 1" "uint c + 1 < 2 ^ 64 \<Longrightarrow> (c + 1 :: 64 word) \<noteq> 0"
proof -
  assume "uint c + 1 < 2 ^ 64"
  then show "uint (c + 1) = uint c + 1" by (simp add: uint_word_ariths)
  with uint_ge_0 [of c] show "(c + 1 :: 64 word) \<noteq> 0" by (metis add_nonneg_eq_0_iff uint_0_eq zero_le_one zero_neq_one)
qed

lemma recorded_events_fields:
  assumes "\<forall>e\<in>set es. keeps_identity (snd (snd e))" and "uint c + int (length es) < 2 ^ 64"
  shows "map evType (recorded_events L r c es) = map (fst \<circ> snd) es \<and>
    map (uint \<circ> evClock) (recorded_events L r c es) = map (\<lambda>i. uint c + 1 + int i) [0..<length es] \<and>
    (\<forall>e\<in>set (recorded_events L r c es). evTraceID e = rc_traceID r \<and> evHash e = computeHash L e)"
  using assms
proof (induction es arbitrary: c)
  case (Cons p es)
  obtain at entry where p: "p = (at, entry)" by (cases p)
  have c: "uint (c + 1) = uint c + 1" using Cons.prems(2) by (intro fresh_clock) simp
  have hash: "evHash (fresh_event L r (c + 1) at entry) = computeHash L (fresh_event L r (c + 1) at entry)" by (simp add: fresh_event_def)
  have "map (\<lambda>i. uint c + 1 + int i) [0..<Suc (length es)] = (uint c + 1) # map (\<lambda>i. uint (c + 1) + 1 + int i) [0..<length es]"
    by (simp add: map_upt_Suc c del: upt_Suc)
  with Cons.IH [of "c + 1"] Cons.prems c hash fresh_event_fields [of entry L r "c + 1" at] show ?case by (simp add: p del: upt_Suc)
qed simp

lemma stamped_same: "stamped L e e' \<Longrightarrow> evClock e \<noteq> 0 \<Longrightarrow> Seal L e = e \<Longrightarrow> e' = e"
proof -
  assume "stamped L e e'" "evClock e \<noteq> 0" and seal: "Seal L e = e"
  then have "e' = Seal L (e\<lparr>evClock := evClock e\<rparr>)" unfolding stamped_def by metis
  also have "e\<lparr>evClock := evClock e\<rparr> = e" by simp
  finally show "e' = e" by (simp only: seal)
qed

context reliable_log
begin

lemma record_one:
  assumes "wf s" and "keeps_identity (snd entry)" and "uint (rc_clock r) + 1 < 2 ^ 64"
  obtains s' where "record_event app L (r, s) at entry = (r\<lparr>rc_clock := rc_clock r + 1\<rparr>, s')" "wf s'"
    "log s' = log s @ [fresh_event L r (rc_clock r + 1) at entry]"
proof -
  let ?e = "fresh_event L r (rc_clock r + 1) at entry"
  obtain s' es' where a: "app s [?e] = (s', Inr es')" using app_ok by blast
  have "list_all2 (stamped L) [?e] es'" by (rule app_stamped [OF assms(1) a])
  then obtain e' where es': "es' = [e']" "stamped L ?e e'" by (auto simp: list_all2_Cons1)
  have "evClock ?e \<noteq> 0" using fresh_event_fields(2) [OF assms(2)] fresh_clock(2) [OF assms(3)] by simp
  then have "e' = ?e"
    using stamped_same [OF es'(2) _ fresh_event_fields(4) [OF assms(2)]] by simp
  with es' a app_log [OF assms(1) a] show ?thesis by (intro that [of s']) (simp_all add: record_event_def Tick_def)
qed

lemma record_log:
  assumes "wf s" and "\<forall>e\<in>set es. keeps_identity (snd (snd e))" and "uint (rc_clock r) + int (length es) < 2 ^ 64"
    and "record_all app L (r, s) es = (r', s')"
  shows "wf s' \<and> log s' = log s @ recorded_events L r (rc_clock r) es"
  using assms
proof (induction es arbitrary: r s)
  case (Cons p es)
  obtain at entry where p: "p = (at, entry)" by (cases p)
  have less: "uint (rc_clock r) + 1 < 2 ^ 64" using Cons.prems(3) by simp
  obtain s1 where s1: "record_event app L (r, s) at entry = (r\<lparr>rc_clock := rc_clock r + 1\<rparr>, s1)" "wf s1"
    "log s1 = log s @ [fresh_event L r (rc_clock r + 1) at entry]"
    by (rule record_one [OF Cons.prems(1) _ less]) (use Cons.prems(2) in \<open>auto simp: p\<close>)
  have "recorded_events L (r\<lparr>rc_clock := c\<rparr>) c' es = recorded_events L r c' es" for c c'
    by (induction es arbitrary: c') (auto simp: fresh_event_def)
  with Cons.IH [of s1 "r\<lparr>rc_clock := rc_clock r + 1\<rparr>"] Cons.prems s1 fresh_clock(1) [OF less] show ?case by (simp add: p)
qed simp

lemma recorded_trace:
  assumes "wf s" and "recorded J (map snd es)" and "int (length es) < 2 ^ 64" and "t \<noteq> []" and "\<forall>e\<in>set (log s). evTraceID e \<noteq> t"
    and "record_all app L (NewEventRecorder t th, s) es = (r', s')"
  shows "map evType (drain_events (stream s' (by_trace t))) = map (fst \<circ> snd) es"
    "map (uint \<circ> evClock) (drain_events (stream s' (by_trace t))) = map (\<lambda>i. 1 + int i) [0..<length es]"
    "\<forall>e\<in>set (drain_events (stream s' (by_trace t))). evHash e = computeHash L e"
proof -
  let ?r = "NewEventRecorder t th"
  have safe: "\<forall>e\<in>set es. keeps_identity (snd (snd e))" using recorded_safe [OF assms(2)] by auto
  have c: "uint (rc_clock ?r) = 0" "rc_traceID ?r = t" by (simp_all add: NewEventRecorder_def NewLogicalClock_def)
  have n: "uint (rc_clock ?r) + int (length es) < 2 ^ 64" using assms(3) c by simp
  note f = recorded_events_fields [OF safe n, of L ?r]
  have "drain_events (stream s' (by_trace t)) = recorded_events L ?r (rc_clock ?r) es"
    using record_log [OF assms(1) safe n assms(6)] assms(4,5) f c by (simp add: stream_log matches_by_trace)
  with f c show "map evType (drain_events (stream s' (by_trace t))) = map (fst \<circ> snd) es"
    "map (uint \<circ> evClock) (drain_events (stream s' (by_trace t))) = map (\<lambda>i. 1 + int i) [0..<length es]"
    "\<forall>e\<in>set (drain_events (stream s' (by_trace t))). evHash e = computeHash L e" by simp_all
qed

end

section \<open>The in-memory store meets the contract\<close>

definition mem_append :: "golib \<Rightarrow> MemoryEventStore \<Rightarrow> Event list \<Rightarrow> MemoryEventStore \<times> Event list res" where
  "mem_append L s es = (case Mem_Append L s es of (s', es') \<Rightarrow> (s', Inr es'))"

definition mem_ok :: "MemoryEventStore \<Rightarrow> bool" where
  "mem_ok s \<longleftrightarrow> (\<forall>i e. mget (ms_byID s) i = Some e \<longrightarrow> e \<in> set (ms_events s) \<and> evID e = i)"

lemma stamp_stamped: "stamp L clock e = (clock', e') \<Longrightarrow> stamped L e e'"
  by (auto simp: stamp_def stamped_def Seal_def split: if_splits)

lemma mem_append_log:
  "mem_ok s \<Longrightarrow> Mem_Append L s es = (s', es') \<Longrightarrow> mem_ok s' \<and> ms_events s' = ms_events s @ es' \<and> list_all2 (stamped L) es es'"
proof (induction L s es arbitrary: s' es' rule: Mem_Append.induct)
  case (2 L s e es)
  obtain clock e1 where st: "stamp L (ms_clock s) e = (clock, e1)" by (cases "stamp L (ms_clock s) e")
  let ?s = "s\<lparr>ms_clock := clock, ms_events := ms_events s @ [e1], ms_byID := mput (evID e1) e1 (ms_byID s), ms_subs := dispatch e1 (ms_subs s)\<rparr>"
  have ok: "mem_ok ?s" using 2(2) by (auto simp: mem_ok_def gomap split: if_splits)
  obtain s2 es2 where rest: "Mem_Append L ?s es = (s2, es2)" by (cases "Mem_Append L ?s es")
  from "2.IH" [OF st [symmetric] ok rest] "2.prems"(2) stamp_stamped [OF st] st rest show ?case by auto
qed simp

lemma mem_gc_ok: "mem_ok s \<Longrightarrow> mem_ok (Mem_GC now retention s)"
proof -
  assume ok: "mem_ok s"
  let ?old = "\<lambda>e. \<not> now - retention < evTimestamp e"
  have del: "mget (fold (\<lambda>e m. if now - retention < evTimestamp e then m else mdel (evID e) m) es m) i =
      (if \<exists>e\<in>set es. ?old e \<and> evID e = i then None else mget m i)" for es m i
    by (induction es arbitrary: m) (auto simp: gomap)
  show ?thesis using ok by (auto simp: mem_ok_def Mem_GC_def Let_def del split: if_splits)
qed

interpretation mem_log: reliable_log L "mem_append L" Mem_Stream Mem_Get ms_events mem_ok for L
proof
  show "mem_ok s' \<and> ms_events s' = ms_events s @ es'" if "mem_ok s" "mem_append L s es = (s', Inr es')" for s es s' es'
    using mem_append_log [OF that(1)] that(2) by (auto simp: mem_append_def split: prod.splits)
  show "list_all2 (stamped L) es es'" if "mem_ok s" "mem_append L s es = (s', Inr es')" for s es s' es'
    using mem_append_log [OF that(1)] that(2) by (auto simp: mem_append_def split: prod.splits)
  show "drain_events (Mem_Stream s f) = filter (Matches f) (ms_events s)" for s f by (simp add: drain_all Mem_Stream_def)
  show "e \<in> set (ms_events s) \<and> evID e = i" if "mem_ok s" "Mem_Get s i = Some e" for s i e using that by (simp add: mem_ok_def Mem_Get_def)
  show "\<exists>s' es'. mem_append L s es = (s', Inr es')" for s es by (simp add: mem_append_def split: prod.splits)
qed

section \<open>Subscribers, positions and clocks\<close>

text \<open>A subscriber that keeps up receives every event appended after its subscription, in order, whatever its filter.\<close>

lemma dispatch_get: "map_of (dispatch e subs) i = map_option (\<lambda>ch. if length ch < 256 then ch @ [e] else ch) (map_of subs i)"
  by (induction subs) (auto simp: dispatch_def)

lemma subscriber_receives:
  "Mem_Append L s es = (s', es') \<Longrightarrow> map_of (ms_subs s) i = Some ch \<Longrightarrow> length ch + length es \<le> 256 \<Longrightarrow> map_of (ms_subs s') i = Some (ch @ es')"
proof (induction L s es arbitrary: s' es' ch rule: Mem_Append.induct)
  case (2 L s e es)
  obtain clock e1 where st: "stamp L (ms_clock s) e = (clock, e1)" by (cases "stamp L (ms_clock s) e")
  let ?s = "s\<lparr>ms_clock := clock, ms_events := ms_events s @ [e1], ms_byID := mput (evID e1) e1 (ms_byID s), ms_subs := dispatch e1 (ms_subs s)\<rparr>"
  obtain s2 es2 where rest: "Mem_Append L ?s es = (s2, es2)" by (cases "Mem_Append L ?s es")
  have "map_of (ms_subs ?s) i = Some (ch @ [e1])" using "2.prems"(2,3) by (simp add: dispatch_get)
  from "2.IH" [OF st [symmetric] rest this] "2.prems" st rest show ?case by simp
qed simp

text \<open>A position after the last event is taken for the first one.\<close>

lemma seek_past_end: "\<forall>e\<in>set evs. evClock e < clock \<Longrightarrow> drain_events (seek_events evs clock) = evs"
proof -
  assume "\<forall>e\<in>set evs. evClock e < clock"
  then have "seek_pos evs clock = None" by (induction evs) auto
  then show ?thesis by (simp add: seek_events_def drain_all)
qed

text \<open>A store does not take notice of the clocks events bring along, so that clocks may repeat.\<close>

lemma clocks_repeat:
  "evClock e = 1 \<Longrightarrow> evClock e' = 0 \<Longrightarrow> map evClock (ms_events (fst (Mem_Append L NewMemoryEventStore [e, e']))) = [1, 1]"
  by (simp add: stamp_def NewMemoryEventStore_def)

end
