(* ===== verification/Replay.thy ===== *)
theory Replay
  imports Event_Log Engine_Run Sample_Lib
begin

text \<open>
  Replay, fork and comparison of recorded executions (\<open>harness/replay\<close>) over any event log: the operations of the log a reader uses are
  arguments, and the lemmas are proved in the locale \<open>event_log\<close>. Times and fresh identifiers are arguments; durations are left out.
\<close>

section \<open>Overrides and results\<close>

type_synonym ModelOverrideFunc = "gval list \<Rightarrow> string \<Rightarrow> string option res"
type_synonym ToolOverrideFunc = "string \<Rightarrow> gval gomap \<Rightarrow> gval \<Rightarrow> gval res"
type_synonym StateOverrideFunc = "gval gomap \<Rightarrow> gval gomap option res"

definition ReplayExactTools :: ToolOverrideFunc where
  "ReplayExactTools = (\<lambda>toolName args recorded. Inr recorded)"

definition ReplayLiveTools :: ToolOverrideFunc where
  "ReplayLiveTools = (\<lambda>toolName args recorded. Inr GNil)"

definition ReplaySubstituteModel :: "(string \<Rightarrow> string) \<Rightarrow> ModelOverrideFunc" where
  "ReplaySubstituteModel fn = (\<lambda>messages recorded. Inr (Some (fn recorded)))"

record ReplayConfig =
  rpTraceID :: string
  rpStart :: "64 word"
  rpEnd :: "64 word"
  rpModelOverride :: "ModelOverrideFunc option"
  rpToolOverride :: "ToolOverrideFunc option"
  rpStateOverride :: "StateOverrideFunc option"
  rpDiffEnabled :: bool

datatype DivergenceType = DivergenceMissing | DivergenceExtra | DivergenceMismatch

record EventDivergence =
  dvClock :: "64 word"
  dvOriginalEvent :: "Event option"
  dvReplayEvent :: "Event option"
  dvType :: DivergenceType
  dvDescription :: string

record ReplayMetrics =
  rmTotalEvents :: int
  rmDivergenceCount :: int
  rmMatchCount :: int

record ReplayResult =
  rrEvents :: "Event list"
  rrOriginalLen :: nat
  rrReplayLen :: nat
  rrDivergences :: "EventDivergence list"
  rrMetrics :: ReplayMetrics

section \<open>Replay\<close>

text \<open>On values a deep copy rebuilds the map of metadata.\<close>

definition copyEvent :: "Event \<Rightarrow> Event" where
  "copyEvent e = e\<lparr>evMetadata := map_option (mcopy []) (evMetadata e)\<rparr>"

definition zero_tool :: ToolCallPayload where
  "zero_tool = \<lparr>tcToolName = [], tcArguments = [], tcResult = GNil, tcDurationMs = 0, tcError = [], tcRetryCount = 0\<rparr>"

definition zero_llm :: LLMCallPayload where
  "zero_llm = \<lparr>lcModel = [], lcProvider = [], lcMessages = [], lcTokens = \<lparr>PromptTokens = 0, CompletionTokens = 0, TotalTokens = 0\<rparr>,
     lcContent = [], lcChunks = 0, lcDurationMs = 0, lcCost = 0\<rparr>"

definition zero_state :: StateTransitionPayload where
  "zero_state = \<lparr>stChannel = [], stOldValue = GNil, stNewValue = GNil, stReducer = []\<rparr>"

text \<open>\<open>parsePayload\<close>: a nil payload leaves the zero value.\<close>

definition parse_with :: "(string \<Rightarrow> 'a \<times> bool) \<Rightarrow> 'a \<Rightarrow> Event \<Rightarrow> 'a" where
  "parse_with unmarshal zero e = (case evPayload e of None \<Rightarrow> zero | Some p \<Rightarrow> fst (unmarshal p))"

abbreviation llm_payload :: "eventlib \<Rightarrow> Event \<Rightarrow> LLMCallPayload" where
  "llm_payload J e \<equiv> parse_with (unmarshal_llm J) zero_llm e"

abbreviation tool_payload :: "eventlib \<Rightarrow> Event \<Rightarrow> ToolCallPayload" where
  "tool_payload J e \<equiv> parse_with (unmarshal_tool J) zero_tool e"

abbreviation state_payload :: "eventlib \<Rightarrow> Event \<Rightarrow> StateTransitionPayload" where
  "state_payload J e \<equiv> parse_with (unmarshal_state J) zero_state e"

text \<open>An event with a new payload, sealed; a payload that does not marshal becomes nil.\<close>

definition repack :: "golib \<Rightarrow> eventlib \<Rightarrow> Event \<Rightarrow> payload \<Rightarrow> Event" where
  "repack L J e p = Seal L ((copyEvent e)\<lparr>evPayload := marshal_payload J p\<rparr>)"

text \<open>The state override applies to the first state write.\<close>

fun override_state :: "golib \<Rightarrow> eventlib \<Rightarrow> StateOverrideFunc \<Rightarrow> Event list \<Rightarrow> Event list res" where
  "override_state L J f [] = Inr []"
| "override_state L J f (e # es) =
     (if evType e = EventStateWrite
      then let st = state_payload J e
           in case f [(stChannel st, stNewValue st)] of
                Inl err \<Rightarrow> Inl err
              | Inr None \<Rightarrow> Inr (e # es)
              | Inr (Some m) \<Rightarrow>
                  (case mget m (stChannel st) of
                     None \<Rightarrow> Inr (e # es)
                   | Some v \<Rightarrow> Inr (repack L J e (PState (st\<lparr>stNewValue := v\<rparr>)) # es))
      else case override_state L J f es of Inl err \<Rightarrow> Inl err | Inr es' \<Rightarrow> Inr (e # es'))"

definition replay_event :: "golib \<Rightarrow> eventlib \<Rightarrow> ModelOverrideFunc \<Rightarrow> ToolOverrideFunc \<Rightarrow> Event \<Rightarrow> Event res" where
  "replay_event L J modelOverride toolOverride e =
     (if evType e = EventLLMCallEnd
      then let payload = llm_payload J e
           in case modelOverride (lcMessages payload) (lcContent payload) of
                Inl err \<Rightarrow> Inl err
              | Inr None \<Rightarrow> Inr (copyEvent e)
              | Inr (Some c) \<Rightarrow> Inr (repack L J e (PLLM (payload\<lparr>lcContent := c\<rparr>)))
      else if evType e = EventToolCallResult
      then let payload = tool_payload J e
           in case toolOverride (tcToolName payload) (tcArguments payload) (tcResult payload) of
                Inl err \<Rightarrow> Inl err
              | Inr v \<Rightarrow> (if v = GNil then Inr (copyEvent e) else Inr (repack L J e (PTool (payload\<lparr>tcResult := v\<rparr>))))
      else Inr (copyEvent e))"

fun replay_all :: "(Event \<Rightarrow> Event res) \<Rightarrow> Event list \<Rightarrow> Event list res" where
  "replay_all f [] = Inr []"
| "replay_all f (e # es) =
     (case f e of
        Inl err \<Rightarrow> Inl err
      | Inr e' \<Rightarrow> (case replay_all f es of Inl err \<Rightarrow> Inl err | Inr es' \<Rightarrow> Inr (e' # es')))"

definition mismatch :: "Event \<Rightarrow> Event \<Rightarrow> string \<Rightarrow> EventDivergence" where
  "mismatch e r why = \<lparr>dvClock = evClock e, dvOriginalEvent = Some e, dvReplayEvent = Some r, dvType = DivergenceMismatch, dvDescription = why\<rparr>"

fun diffEventLists :: "Event list \<Rightarrow> Event list \<Rightarrow> EventDivergence list" where
  "diffEventLists [] [] = []"
| "diffEventLists [] (r # rs) =
     \<lparr>dvClock = evClock r, dvOriginalEvent = None, dvReplayEvent = Some r, dvType = DivergenceExtra,
      dvDescription = ''replay produced extra event''\<rparr> # diffEventLists [] rs"
| "diffEventLists (e # es) [] =
     \<lparr>dvClock = evClock e, dvOriginalEvent = Some e, dvReplayEvent = None, dvType = DivergenceMissing,
      dvDescription = ''original event missing in replay''\<rparr> # diffEventLists es []"
| "diffEventLists (e # es) (r # rs) =
     (if evType e \<noteq> evType r then [mismatch e r ''event type mismatch''] else []) @
     (if evHash e \<noteq> evHash r then [mismatch e r ''payload mismatch (hash differs)''] else []) @ diffEventLists es rs"

definition replay_filter :: "ReplayConfig \<Rightarrow> EventFilter" where
  "replay_filter cfg = no_filter\<lparr>fTraceID := rpTraceID cfg, fFromClock := rpStart cfg, fToClock := rpEnd cfg\<rparr>"

text \<open>The two phases that compute the lists compared: the recorded events, with the state override, and the replayed ones.\<close>

definition replayed_lists :: "golib \<Rightarrow> eventlib \<Rightarrow> ReplayConfig \<Rightarrow> Event list \<Rightarrow> (Event list \<times> Event list) res" where
  "replayed_lists L J cfg evs =
     (let modelOverride = (case rpModelOverride cfg of Some f \<Rightarrow> f | None \<Rightarrow> (\<lambda>messages recorded. Inr (Some recorded)));
          toolOverride = (case rpToolOverride cfg of Some f \<Rightarrow> f | None \<Rightarrow> (\<lambda>toolName args recorded. Inr recorded))
      in case (case rpStateOverride cfg of None \<Rightarrow> Inr evs | Some f \<Rightarrow> override_state L J f evs) of
           Inl err \<Rightarrow> Inl err
         | Inr originals \<Rightarrow>
             (case replay_all (replay_event L J modelOverride toolOverride) originals of
                Inl err \<Rightarrow> Inl err
              | Inr replayed \<Rightarrow> Inr (originals, replayed)))"

text \<open>\<open>out\<close> is the output store with its \<open>Append\<close>, \<open>None\<close> for nil. The state of the output store is returned too.\<close>

definition Replay ::
  "('s \<Rightarrow> Event list \<Rightarrow> 's \<times> Event list res) \<Rightarrow> golib \<Rightarrow> eventlib \<Rightarrow> (EventFilter \<Rightarrow> sliceIterator) \<Rightarrow> ReplayConfig \<Rightarrow> 's option \<Rightarrow>
   's option \<times> ReplayResult res" where
  "Replay app L J stream cfg out =
     (let evs = drain_events (stream (replay_filter cfg))
      in case replayed_lists L J cfg evs of
           Inl err \<Rightarrow> (out, Inl err)
         | Inr (originals, replayed) \<Rightarrow>
             (let divergences = (if rpDiffEnabled cfg then diffEventLists originals replayed else []);
                  result = \<lparr>rrEvents = [], rrOriginalLen = length evs, rrReplayLen = length replayed, rrDivergences = divergences,
                    rrMetrics = \<lparr>rmTotalEvents = int (length replayed), rmDivergenceCount = int (length divergences),
                      rmMatchCount = int (length replayed) - int (length divergences)\<rparr>\<rparr>
              in case out of
                   None \<Rightarrow> (None, Inr result)
                 | Some s \<Rightarrow>
                     (case app s replayed of
                        (s', Inl err) \<Rightarrow> (Some s', Inl err)
                      | (s', Inr appended) \<Rightarrow> (Some s', Inr (result\<lparr>rrEvents := appended\<rparr>)))))"

section \<open>Reconstruction of a checkpoint\<close>

text \<open>The fold over the events: the map, the completed nodes, the last one, the last step.\<close>

record build_state =
  bs_cp :: "gval gomap"
  bs_completed :: "string list"
  bs_last :: string
  bs_step :: int

definition build_event :: "eventlib \<Rightarrow> Event \<Rightarrow> build_state \<Rightarrow> build_state" where
  "build_event J e b =
     (if evType e = EventStateWrite
      then let st = state_payload J e
           in if stChannel st \<noteq> [] then b\<lparr>bs_cp := mput (stChannel st) (stNewValue st) (bs_cp b)\<rparr> else b
      else if evType e = EventNodeEnd
      then b\<lparr>bs_completed := bs_completed b @ [evNode e], bs_last := evNode e\<rparr>
      else if evType e = EventStepEnd
      then if bs_step b < evStep e then b\<lparr>bs_step := evStep e\<rparr> else b
      else b)"

definition id_keys :: "string list" where
  "id_keys = [''thread_id'', ''checkpoint_id'', ''__pregel_checkpoint_id'']"

definition BuildCheckpoint :: "golib \<Rightarrow> eventlib \<Rightarrow> string \<Rightarrow> Event list \<Rightarrow> string \<Rightarrow> gval gomap \<times> string" where
  "BuildCheckpoint L J nano evs threadID =
     (let checkpointID = ''fork-cp-'' @ threadID @ ''-'' @ nano;
          cp0 = mput ''__pregel_checkpoint_id'' (GStr checkpointID) (mput ''checkpoint_id'' (GStr checkpointID) (mput ''thread_id'' (GStr threadID) []));
          b = fold (build_event J) evs \<lparr>bs_cp = cp0, bs_completed = [], bs_last = [], bs_step = 0\<rparr>;
          cp1 = (if 2 < length (bs_cp b)
                 then case json_marshal L (GMap (filter (\<lambda>(k, v). k \<notin> set id_keys) (bs_cp b))) of
                        Some ls \<Rightarrow> mput ''__last_state__'' (GStr ls) (bs_cp b) | None \<Rightarrow> bs_cp b
                 else bs_cp b);
          cp2 = (if bs_completed b \<noteq> [] then mput ''__completed_tasks__'' (GStr (str_join (char_of (0 :: nat)) (bs_completed b))) cp1 else cp1);
          cp3 = (if bs_last b \<noteq> [] then mput ''__last_completed_node__'' (GStr (bs_last b)) cp2 else cp2)
      in (mput ''__step__'' (GFloat (f64_of_int L (bs_step b))) cp3, checkpointID))"

section \<open>Fork\<close>

record ForkConfig =
  fkTraceID :: string
  fkPoint :: string

record ForkResult =
  frForkTraceID :: string
  frForkEvents :: "Event list"
  frParentTraceID :: string
  frForkPoint :: string
  frFinalState :: gval

definition fork_marker :: "golib \<Rightarrow> string \<times> int \<Rightarrow> ForkConfig \<Rightarrow> Event" where
  "fork_marker L at cfg =
     Seal L (with_meta ''parent_trace'' (GStr (fkTraceID cfg))
       ((NewEvent (fst at) (snd at) EventFork 0)\<lparr>evTraceID := fkTraceID cfg @ ''_fork_'' @ fkPoint cfg, evParentID := fkPoint cfg,
          evCausedBy := [fkPoint cfg]\<rparr>))"

text \<open>
  \<open>resumeFromCheckpoint\<close>. The checkpointer is given by its \<open>Put\<close>, \<open>run\<close> is the run of the fork engine without input: it gets the state of the
  checkpointer, because an engine may have been built with it, but neither the checkpoint nor a configuration. The end of the fork
  is recorded in the output store.
\<close>

definition resumeFromCheckpoint ::
  "('s \<Rightarrow> Event list \<Rightarrow> 's \<times> Event list res) \<Rightarrow> ('c \<Rightarrow> gval gomap \<Rightarrow> gval gomap \<Rightarrow> 'c res) \<Rightarrow> ('c \<Rightarrow> 'c \<times> gval res) \<Rightarrow>
   golib \<Rightarrow> eventlib \<Rightarrow> string \<Rightarrow> string \<times> int \<Rightarrow> ForkConfig \<Rightarrow> Event list \<Rightarrow> 's option \<Rightarrow> 'c \<Rightarrow> ('s option \<times> 'c) \<times> gval res" where
  "resumeFromCheckpoint app put run L J nano at cfg pre out c =
     (let threadID = (if fkTraceID cfg = [] then ''fork-'' @ fkPoint cfg else fkTraceID cfg)
      in case BuildCheckpoint L J nano pre threadID of
           (cp, cpID) \<Rightarrow>
             (case put c [(''thread_id'', GStr threadID), (''checkpoint_id'', GStr cpID)] cp of
                Inl err \<Rightarrow> ((out, c), Inl (Errorf ''save fork checkpoint: %w'' [err]))
              | Inr c1 \<Rightarrow>
                  (case run c1 of
                     (c2, Inl err) \<Rightarrow> ((out, c2), Inl err)
                   | (c2, Inr final) \<Rightarrow>
                       (let forkEnd = Seal L (with_meta ''fork_replay'' (GBool True)
                              ((NewEvent (fst at) (snd at) EventGraphEnd 0)\<lparr>evTraceID := fkTraceID cfg @ ''_fork_'' @ fkPoint cfg\<rparr>))
                        in ((map_option (\<lambda>s. fst (app s [forkEnd])) out, c2), Inr final)))))"

text \<open>\<open>engine\<close> says whether a fork engine is configured.\<close>

definition Fork ::
  "('s \<Rightarrow> Event list \<Rightarrow> 's \<times> Event list res) \<Rightarrow> ('c \<Rightarrow> gval gomap \<Rightarrow> gval gomap \<Rightarrow> 'c res) \<Rightarrow> ('c \<Rightarrow> 'c \<times> gval res) option \<Rightarrow>
   golib \<Rightarrow> eventlib \<Rightarrow> string \<Rightarrow> string \<times> int \<Rightarrow> string \<times> int \<Rightarrow> (EventFilter \<Rightarrow> sliceIterator) \<Rightarrow> (string \<Rightarrow> Event option) \<Rightarrow> ForkConfig \<Rightarrow>
   's option \<Rightarrow> 'c \<Rightarrow> ('s option \<times> 'c) \<times> ForkResult res" where
  "Fork app put engine L J nano at at2 stream get cfg out c =
     (case get (fkPoint cfg) of
        None \<Rightarrow> ((out, c), Inl (Errorf (''event not found: '' @ fkPoint cfg) []))
      | Some forkEvent \<Rightarrow>
          (let pre = drain_events (stream (no_filter\<lparr>fTraceID := fkTraceID cfg, fToClock := evClock forkEvent - 1\<rparr>));
               forkEvents = pre @ [fork_marker L at cfg];
               result = (\<lambda>evs final. \<lparr>frForkTraceID = fkTraceID cfg @ ''_fork_'' @ fkPoint cfg, frForkEvents = evs, frParentTraceID = fkTraceID cfg,
                 frForkPoint = fkPoint cfg, frFinalState = final\<rparr>)
           in case (case out of None \<Rightarrow> (None, Inr forkEvents)
                      | Some s \<Rightarrow> (case app s forkEvents of (s', r) \<Rightarrow> (Some s', r))) of
                (out1, Inl err) \<Rightarrow> ((out1, c), Inl err)
              | (out1, Inr evs) \<Rightarrow>
                  (case engine of
                     None \<Rightarrow> ((out1, c), Inr (result evs GNil))
                   | Some run \<Rightarrow>
                       (case resumeFromCheckpoint app put run L J nano at2 cfg pre out1 c of
                          (oc, Inl err) \<Rightarrow> (oc, Inl (Errorf ''fork resume: %w'' [err]))
                        | (oc, Inr final) \<Rightarrow> (oc, Inr (result evs final))))))"

section \<open>Comparison of two traces\<close>

record EventMismatch =
  mmClock :: "64 word"
  mmLeftEvent :: Event
  mmRightEvent :: Event
  mmField :: string
  mmLeftValue :: string
  mmRightValue :: string

text \<open>\<open>Diff\<close> sets no values in state and tool differences.\<close>

record StateDiff =
  sdClock :: "64 word"
  sdKey :: string

record ToolCallDiff =
  tdIndex :: nat
  tdToolName :: string

record LLMResponseDiff =
  ldIndex :: nat
  ldLeftContent :: string
  ldRightContent :: string

record DiffResult =
  dfMissingInRight :: "Event list"
  dfMissingInLeft :: "Event list"
  dfMismatched :: "EventMismatch list"
  dfStateDiff :: "StateDiff gomap"
  dfToolCallDiff :: "ToolCallDiff list"
  dfLLMResponseDiff :: "LLMResponseDiff list"

definition extractContent :: "eventlib \<Rightarrow> Event \<Rightarrow> string" where
  "extractContent J e =
     (case evPayload e of
        None \<Rightarrow> []
      | Some p \<Rightarrow> (case unmarshal_llm J p of (payload, failed) \<Rightarrow> if failed then [] else lcContent payload))"

definition extractToolName :: "eventlib \<Rightarrow> Event \<Rightarrow> string" where
  "extractToolName J e =
     (case evPayload e of
        None \<Rightarrow> []
      | Some p \<Rightarrow> (case unmarshal_tool J p of (payload, failed) \<Rightarrow> if failed then [] else tcToolName payload))"

definition readAllEvents :: "(EventFilter \<Rightarrow> sliceIterator) \<Rightarrow> string \<Rightarrow> Event list" where
  "readAllEvents stream traceID = drain_events (stream (no_filter\<lparr>fTraceID := traceID\<rparr>))"

definition by_clock :: "Event list \<Rightarrow> (64 word \<times> Event) list" where
  "by_clock evs = fold (\<lambda>e m. AList.update (evClock e) e m) evs []"

text \<open>The differences at one clock; slicing a hash shorter than 16 bytes panics.\<close>

definition type_mismatch :: "64 word \<Rightarrow> Event \<Rightarrow> Event \<Rightarrow> EventMismatch list" where
  "type_mismatch clock l r =
     (if evType l \<noteq> evType r
      then [\<lparr>mmClock = clock, mmLeftEvent = l, mmRightEvent = r, mmField = ''type'', mmLeftValue = evType l, mmRightValue = evType r\<rparr>] else [])"

definition payload_mismatch :: "64 word \<Rightarrow> Event \<Rightarrow> Event \<Rightarrow> EventMismatch list res" where
  "payload_mismatch clock l r =
     (if evHash l \<noteq> evHash r
      then if length (evHash l) < 16 \<or> length (evHash r) < 16 then Inl (GoPanic ''slice bounds out of range'')
           else Inr [\<lparr>mmClock = clock, mmLeftEvent = l, mmRightEvent = r, mmField = ''payload'', mmLeftValue = take 16 (evHash l),
                       mmRightValue = take 16 (evHash r)\<rparr>]
      else Inr [])"

definition categorise :: "eventlib \<Rightarrow> 64 word \<Rightarrow> Event \<Rightarrow> Event \<Rightarrow> DiffResult \<Rightarrow> DiffResult" where
  "categorise J clock l r d =
     (if evType l = EventLLMCallEnd
      then d\<lparr>dfLLMResponseDiff := dfLLMResponseDiff d @
             [\<lparr>ldIndex = length (dfLLMResponseDiff d), ldLeftContent = extractContent J l, ldRightContent = extractContent J r\<rparr>]\<rparr>
      else if evType l = EventToolCallResult
      then d\<lparr>dfToolCallDiff := dfToolCallDiff d @ [\<lparr>tdIndex = length (dfToolCallDiff d), tdToolName = extractToolName J l\<rparr>]\<rparr>
      else if evType l = EventStateWrite \<and> evNode l \<noteq> []
      then d\<lparr>dfStateDiff := mput (evNode l) \<lparr>sdClock = clock, sdKey = evNode l\<rparr> (dfStateDiff d)\<rparr>
      else d)"

definition diff_clock ::
  "eventlib \<Rightarrow> (64 word \<times> Event) list \<Rightarrow> (64 word \<times> Event) list \<Rightarrow> 64 word \<Rightarrow> DiffResult \<Rightarrow> DiffResult res" where
  "diff_clock J lm rm clock d =
     (case (map_of lm clock, map_of rm clock) of
        (Some l, None) \<Rightarrow> Inr (d\<lparr>dfMissingInRight := dfMissingInRight d @ [l]\<rparr>)
      | (None, Some r) \<Rightarrow> Inr (d\<lparr>dfMissingInLeft := dfMissingInLeft d @ [r]\<rparr>)
      | (Some l, Some r) \<Rightarrow>
          (case payload_mismatch clock l r of
             Inl err \<Rightarrow> Inl err
           | Inr ms \<Rightarrow> Inr (categorise J clock l r (d\<lparr>dfMismatched := dfMismatched d @ type_mismatch clock l r @ ms\<rparr>)))
      | (None, None) \<Rightarrow> Inr d)"

fun diff_loop ::
  "eventlib \<Rightarrow> (64 word \<times> Event) list \<Rightarrow> (64 word \<times> Event) list \<Rightarrow> 64 word list \<Rightarrow> DiffResult \<Rightarrow> DiffResult res" where
  "diff_loop J lm rm [] d = Inr d"
| "diff_loop J lm rm (c # cs) d = (case diff_clock J lm rm c d of Inl err \<Rightarrow> Inl err | Inr d' \<Rightarrow> diff_loop J lm rm cs d')"

text \<open>\<open>order\<close> is the order in which the map of all clocks is ranged over.\<close>

definition Diff ::
  "eventlib \<Rightarrow> (64 word list \<Rightarrow> 64 word list) \<Rightarrow> (EventFilter \<Rightarrow> sliceIterator) \<Rightarrow> (EventFilter \<Rightarrow> sliceIterator) \<Rightarrow> string \<Rightarrow> string \<Rightarrow> DiffResult res" where
  "Diff J order left right leftTraceID rightTraceID =
     (let ls = readAllEvents left leftTraceID; rs = readAllEvents right rightTraceID
      in diff_loop J (by_clock ls) (by_clock rs) (order (remdups (map evClock (ls @ rs))))
           \<lparr>dfMissingInRight = [], dfMissingInLeft = [], dfMismatched = [], dfStateDiff = [], dfToolCallDiff = [], dfLLMResponseDiff = []\<rparr>)"

section \<open>Lemmas on replay\<close>

definition meta_ok :: "Event \<Rightarrow> bool" where
  "meta_ok e = (case evMetadata e of None \<Rightarrow> True | Some m \<Rightarrow> gomap_ok m)"

lemma copyEvent_id: "meta_ok e \<Longrightarrow> copyEvent e = e"
  by (cases e) (auto simp: copyEvent_def meta_ok_def split: option.splits)

lemma copyEvent_fields [simp]:
  "evID (copyEvent e) = evID e" "evType (copyEvent e) = evType e" "evClock (copyEvent e) = evClock e" "evTraceID (copyEvent e) = evTraceID e"
  "evHash (copyEvent e) = evHash e" "evPayload (copyEvent e) = evPayload e"
  by (simp_all add: copyEvent_def)

lemma repack_fields [simp]:
  "evID (repack L J e p) = evID e" "evType (repack L J e p) = evType e" "evClock (repack L J e p) = evClock e" "evTraceID (repack L J e p) = evTraceID e"
  by (simp_all add: repack_def)

text \<open>What a replayed event keeps of the original: all that identifies it, and, unless it ends a model call or a tool call, its hash.\<close>

definition replays :: "Event \<Rightarrow> Event \<Rightarrow> bool" where
  "replays e r \<longleftrightarrow> evID r = evID e \<and> evType r = evType e \<and> evClock r = evClock e \<and> evTraceID r = evTraceID e \<and>
     (evType e \<notin> {EventLLMCallEnd, EventToolCallResult} \<longrightarrow> evHash r = evHash e)"

lemma replay_event_replays: "replay_event L J mo to e = Inr r \<Longrightarrow> replays e r"
  by (auto simp: replay_event_def replays_def Let_def split: if_splits sum.splits option.splits)

lemma replay_all_related: "replay_all f es = Inr rs \<Longrightarrow> (\<And>e r. f e = Inr r \<Longrightarrow> P e r) \<Longrightarrow> list_all2 P es rs"
  by (induction es arbitrary: rs) (auto split: sum.splits)

lemma override_state_length: "override_state L J f es = Inr es' \<Longrightarrow> length es' = length es"
  by (induction es arbitrary: es') (auto simp: Let_def split: if_splits sum.splits option.splits)

lemma diff_of_replayed:
  "list_all2 replays es rs \<Longrightarrow>
   diffEventLists es rs = map (\<lambda>(e, r). mismatch e r ''payload mismatch (hash differs)'') (filter (\<lambda>(e, r). evHash e \<noteq> evHash r) (zip es rs))"
  by (induction rule: list_all2_induct) (auto simp: replays_def)

lemma replayed_lists_related:
  assumes "replayed_lists L J cfg evs = Inr (originals, replayed)"
  shows "length originals = length evs \<and> list_all2 replays originals replayed"
proof -
  have "list_all2 replays originals replayed"
    using assms replay_all_related [OF _ replay_event_replays] by (auto simp: replayed_lists_def Let_def split: sum.splits)
  moreover have "length originals = length evs"
    using assms override_state_length by (auto simp: replayed_lists_def Let_def split: sum.splits option.splits)
  ultimately show ?thesis by simp
qed

text \<open>An event whose payload survives decoding and encoding.\<close>

definition canonical :: "eventlib \<Rightarrow> Event \<Rightarrow> bool" where
  "canonical J e \<longleftrightarrow>
     (evType e = EventLLMCallEnd \<longrightarrow> (\<exists>p. evPayload e = Some p \<and> marshal_payload J (PLLM (fst (unmarshal_llm J p))) = Some p)) \<and>
     (evType e = EventToolCallResult \<longrightarrow> (\<exists>p. evPayload e = Some p \<and> marshal_payload J (PTool (fst (unmarshal_tool J p))) = Some p))"

lemma repack_same: "meta_ok e \<Longrightarrow> evPayload e = Some p \<Longrightarrow> marshal_payload J q = Some p \<Longrightarrow> evHash e = computeHash L e \<Longrightarrow> repack L J e q = e"
  by (cases e) (simp add: repack_def copyEvent_id Seal_def computeHash_def)

lemma exact_event:
  assumes "canonical J e" and "meta_ok e" and "evHash e = computeHash L e"
  shows "replay_event L J (\<lambda>messages recorded. Inr (Some recorded)) (\<lambda>toolName args recorded. Inr recorded) e = Inr e"
proof -
  have types: "EventLLMCallEnd \<noteq> EventToolCallResult" by (simp add: event_types)
  consider (llm) "evType e = EventLLMCallEnd" | (tool) "evType e = EventToolCallResult" | (rest) "evType e \<noteq> EventLLMCallEnd" "evType e \<noteq> EventToolCallResult"
    by blast
  then show ?thesis
  proof cases
    case llm
    then obtain p where p: "evPayload e = Some p" "marshal_payload J (PLLM (fst (unmarshal_llm J p))) = Some p" using assms(1) by (auto simp: canonical_def)
    then show ?thesis using llm repack_same [OF assms(2) p(1,2) assms(3)] by (simp add: replay_event_def parse_with_def)
  next
    case tool
    then obtain p where p: "evPayload e = Some p" "marshal_payload J (PTool (fst (unmarshal_tool J p))) = Some p" using assms(1) by (auto simp: canonical_def)
    then show ?thesis using tool types repack_same [OF assms(2) p(1,2) assms(3)] by (simp add: replay_event_def parse_with_def copyEvent_id [OF assms(2)] Let_def)
  next
    case rest
    then show ?thesis by (simp add: replay_event_def copyEvent_id [OF assms(2)])
  qed
qed

lemma exact_all:
  "\<forall>e\<in>set es. canonical J e \<and> meta_ok e \<and> evHash e = computeHash L e \<Longrightarrow>
   replay_all (replay_event L J (\<lambda>messages recorded. Inr (Some recorded)) (\<lambda>toolName args recorded. Inr recorded)) es = Inr es"
  by (induction es) (simp_all add: exact_event)

lemma diff_self: "diffEventLists es es = []"
  by (induction es) simp_all

text \<open>A replay without overrides of events that are sealed and canonical.\<close>

definition exact_config :: "string \<Rightarrow> ReplayConfig" where
  "exact_config t = \<lparr>rpTraceID = t, rpStart = 0, rpEnd = 0, rpModelOverride = None, rpToolOverride = None, rpStateOverride = None, rpDiffEnabled = True\<rparr>"

lemma exact_filter: "replay_filter (exact_config t) = by_trace t"
  by (simp add: replay_filter_def exact_config_def by_trace_def no_filter_def)

lemma exact_replay:
  assumes "\<forall>e\<in>set (drain_events (stream (by_trace t))). canonical J e \<and> meta_ok e \<and> evHash e = computeHash L e"
  shows "\<exists>res. Replay app L J stream (exact_config t) None = (None, Inr res) \<and> rrDivergences res = [] \<and>
    rrOriginalLen res = length (drain_events (stream (by_trace t))) \<and> rrReplayLen res = rrOriginalLen res \<and>
    rmMatchCount (rrMetrics res) = int (rrReplayLen res)"
proof -
  let ?evs = "drain_events (stream (by_trace t))"
  have "replayed_lists L J (exact_config t) ?evs = Inr (?evs, ?evs)"
    using exact_all [OF assms] by (simp add: replayed_lists_def exact_config_def)
  moreover have "rpDiffEnabled (exact_config t)" by (simp add: exact_config_def)
  ultimately show ?thesis by (simp add: Replay_def exact_filter Let_def diff_self)
qed

section \<open>Properties\<close>

text \<open>Replay with overrides. A replay that succeeds produces one event for each recorded one, the comparison reports only ends of model calls and of tool
  calls whose payload changed, each at most once, and the number of matching events is what is left; the count is never negative.\<close>

theorem replay_divergences:
  assumes "Replay app L J stream cfg None = (None, Inr res)"
  shows "rrOriginalLen res = length (drain_events (stream (replay_filter cfg))) \<and> rrReplayLen res = rrOriginalLen res \<and>
    0 \<le> rmMatchCount (rrMetrics res) \<and> rmMatchCount (rrMetrics res) + rmDivergenceCount (rrMetrics res) = int (rrReplayLen res) \<and>
    (\<forall>d\<in>set (rrDivergences res). \<exists>e r. d = mismatch e r ''payload mismatch (hash differs)'' \<and>
       evType e \<in> {EventLLMCallEnd, EventToolCallResult} \<and> evType r = evType e \<and> evID r = evID e \<and> evHash r \<noteq> evHash e)"
proof -
  let ?evs = "drain_events (stream (replay_filter cfg))"
  obtain originals replayed where lists: "replayed_lists L J cfg ?evs = Inr (originals, replayed)"
    and res: "rrOriginalLen res = length ?evs" "rrReplayLen res = length replayed"
      "rrDivergences res = (if rpDiffEnabled cfg then diffEventLists originals replayed else [])"
      "rmDivergenceCount (rrMetrics res) = int (length (rrDivergences res))"
      "rmMatchCount (rrMetrics res) = int (length replayed) - int (length (rrDivergences res))"
    using assms by (auto simp: Replay_def Let_def split: sum.splits)
  from replayed_lists_related [OF lists] have len: "length originals = length ?evs" and rel: "list_all2 replays originals replayed" by simp_all
  then have same: "length replayed = length ?evs" by (simp add: list_all2_lengthD [symmetric])
  note diff = diff_of_replayed [OF rel]
  have "length (rrDivergences res) \<le> length replayed"
    using length_filter_le [of "\<lambda>(e, r). evHash e \<noteq> evHash r" "zip originals replayed"] by (simp add: res(3) diff)
  moreover have "\<exists>e r. d = mismatch e r ''payload mismatch (hash differs)'' \<and>
       evType e \<in> {EventLLMCallEnd, EventToolCallResult} \<and> evType r = evType e \<and> evID r = evID e \<and> evHash r \<noteq> evHash e"
    if d: "d \<in> set (rrDivergences res)" for d
  proof -
    obtain e r where er: "(e, r) \<in> set (zip originals replayed)" "evHash e \<noteq> evHash r" "d = mismatch e r ''payload mismatch (hash differs)''"
      using d by (auto simp: res(3) diff split: if_splits)
    then have "replays e r" using rel by (auto simp: list_all2_iff)
    with er show ?thesis by (intro exI [of _ e] exI [of _ r]) (auto simp: replays_def)
  qed
  ultimately show ?thesis using res same by auto
qed

text \<open>What a recorder writes is ready for replay.\<close>

lemma with_meta_ok: "meta_ok e \<Longrightarrow> meta_ok (with_meta k v e)"
  by (auto simp: meta_ok_def with_meta_def gomap_ok_def split: option.splits intro: distinct_update)

lemma meta_ok_fields:
  "meta_ok (e\<lparr>evDeterministic := b\<rparr>) = meta_ok e" "meta_ok (e\<lparr>evStep := n\<rparr>) = meta_ok e" "meta_ok (e\<lparr>evNode := s\<rparr>) = meta_ok e"
  "meta_ok (e\<lparr>evThreadID := s\<rparr>) = meta_ok e" "meta_ok (e\<lparr>evPayload := p\<rparr>) = meta_ok e"
  by (simp_all add: meta_ok_def)

lemma recorded_meta_ok: "recorded J es \<Longrightarrow> entry \<in> set es \<Longrightarrow> meta_ok e \<Longrightarrow> meta_ok (snd entry e)"
  by (induction rule: recorded.induct)
    (auto simp: recorder_methods with_meta_ok with_error_def Let_def with_payload_def meta_ok_fields split: option.splits)

lemma recorded_events_meta:
  "\<forall>e\<in>set es. \<forall>x. meta_ok x \<longrightarrow> meta_ok (snd (snd e) x) \<Longrightarrow> \<forall>e\<in>set (recorded_events L r c es). meta_ok e"
proof (induction es arbitrary: c)
  case (Cons p es)
  obtain at entry where p: "p = (at, entry)" by (cases p)
  let ?x = "(NewEvent (fst at) (snd at) (fst entry) (c + 1))\<lparr>evTraceID := rc_traceID r, evThreadID := rc_threadID r\<rparr>"
  have "meta_ok ?x" by (simp add: meta_ok_def NewEvent_def)
  then have "meta_ok (snd entry ?x)" using Cons.prems by (simp add: p)
  then have "meta_ok (fresh_event L r (c + 1) at entry)" by (simp add: fresh_event_def meta_ok_def)
  with Cons show ?case by (simp add: p)
qed simp

text \<open>C26: Recording and replaying. A trace written by a recorder into a store that has no event of it yet has one event for each call, numbered from one,
  and its replay without overrides finds no divergence, if its payloads survive decoding and encoding.\<close>

theorem record_replay:
  assumes "mem_ok s" and "recorded J (map snd es)" and "int (length es) < 2 ^ 64" and "t \<noteq> []" and "\<forall>e\<in>set (ms_events s). evTraceID e \<noteq> t"
    and "record_all (mem_append L) L (NewEventRecorder t th, s) es = (r', s')"
    and "\<forall>e\<in>set (drain_events (Mem_Stream s' (by_trace t))). canonical J e"
  shows "map evType (drain_events (Mem_Stream s' (by_trace t))) = map (fst \<circ> snd) es \<and>
    map (uint \<circ> evClock) (drain_events (Mem_Stream s' (by_trace t))) = map (\<lambda>i. 1 + int i) [0..<length es] \<and>
    (\<exists>res. Replay app L J (Mem_Stream s') (exact_config t) None = (None, Inr res) \<and> rrDivergences res = [] \<and>
       rrOriginalLen res = length es \<and> rmMatchCount (rrMetrics res) = int (length es))"
proof -
  let ?r = "NewEventRecorder t th"
  have c: "uint (rc_clock ?r) = 0" "rc_traceID ?r = t" by (simp_all add: NewEventRecorder_def NewLogicalClock_def)
  have n: "uint (rc_clock ?r) + int (length es) < 2 ^ 64" using assms(3) c by simp
  have safe: "\<forall>e\<in>set es. keeps_identity (snd (snd e))" "\<forall>e\<in>set es. \<forall>x. meta_ok x \<longrightarrow> meta_ok (snd (snd e) x)"
    using recorded_safe [OF assms(2)] recorded_meta_ok [OF assms(2)] by auto
  note trace = mem_log.recorded_trace [OF assms(1-6)]
  have "drain_events (Mem_Stream s' (by_trace t)) = recorded_events L ?r (rc_clock ?r) es"
    using mem_log.record_log [OF assms(1) safe(1) n assms(6)] assms(4,5) recorded_events_fields [OF safe(1) n, of L ?r] c
    by (simp add: mem_log.stream_log matches_by_trace)
  then have "\<forall>e\<in>set (drain_events (Mem_Stream s' (by_trace t))). meta_ok e" using recorded_events_meta [OF safe(2)] by simp
  with assms(7) trace(3) have "\<forall>e\<in>set (drain_events (Mem_Stream s' (by_trace t))). canonical J e \<and> meta_ok e \<and> evHash e = computeHash L e" by simp
  from exact_replay [of "Mem_Stream s'", OF this, of app] trace(1,2) map_eq_imp_length_eq [OF trace(1)] show ?thesis by auto
qed

lemma before_fork: "(to :: 64 word) \<noteq> 0 \<Longrightarrow> 0 < to - 1 \<and> to - 1 < c \<longleftrightarrow> to \<noteq> 1 \<and> to \<le> c"
proof -
  assume to: "to \<noteq> 0"
  then have "unat (to - 1) = unat to - 1" by (simp add: unat_minus_one)
  moreover have "0 < unat to" using to by (simp add: unat_gt_0)
  moreover have "to = 1 \<longleftrightarrow> unat to = 1" by (metis unat_1 word_unat_eq_iff)
  ultimately show ?thesis by (auto simp: word_less_nat_alt word_le_nat_alt)
qed

context event_log
begin

lemma fork_of_log:
  assumes "wf s" and "get s (fkPoint cfg) = Some fe" and "evClock fe \<noteq> 0"
  shows "fe \<in> set (log s) \<and>
    (\<exists>res. Fork out_app put None L J nano at at2 (stream s) (get s) cfg None c = ((None, c), Inr res) \<and>
      frForkEvents res =
        filter (\<lambda>e. (fkTraceID cfg = [] \<or> evTraceID e = fkTraceID cfg) \<and> (evClock fe = 1 \<or> evClock e < evClock fe)) (log s) @
        [fork_marker L at cfg])"
proof -
  have "Matches (no_filter\<lparr>fTraceID := t, fToClock := evClock fe - 1\<rparr>) e \<longleftrightarrow> (t = [] \<or> evTraceID e = t) \<and> (evClock fe = 1 \<or> evClock e < evClock fe)" for t e
    using before_fork [OF assms(3), of "evClock e"] by (auto simp: Matches_def no_filter_def)
  then have "drain_events (stream s (no_filter\<lparr>fTraceID := fkTraceID cfg, fToClock := evClock fe - 1\<rparr>)) =
      filter (\<lambda>e. (fkTraceID cfg = [] \<or> evTraceID e = fkTraceID cfg) \<and> (evClock fe = 1 \<or> evClock e < evClock fe)) (log s)"
    unfolding stream_log by (intro filter_cong refl)
  with assms(2) get_sound [OF assms(1,2)] show ?thesis by (simp add: Fork_def Let_def)
qed

end

text \<open>Fork. Without an output store and an engine the events of a fork are the events of the trace before the fork point in the order of the log and a
  marker; but a fork at clock 1 has all events of the trace, also those after the fork point, because the upper bound 0 means no bound.\<close>

theorem fork_events:
  assumes "mem_ok s" and "Mem_Get s (fkPoint cfg) = Some fe" and "evClock fe \<noteq> 0"
  shows "fe \<in> set (ms_events s) \<and>
    (\<exists>res. Fork app put None L J nano at at2 (Mem_Stream s) (Mem_Get s) cfg None c = ((None, c), Inr res) \<and>
      frForkEvents res =
        filter (\<lambda>e. (fkTraceID cfg = [] \<or> evTraceID e = fkTraceID cfg) \<and> (evClock fe = 1 \<or> evClock e < evClock fe)) (ms_events s) @
        [fork_marker L at cfg])"
  by (rule mem_log.fork_of_log [OF assms])

section \<open>The reconstructed checkpoint\<close>

definition reserved_keys :: "string list" where
  "reserved_keys = [''__last_state__'', ''__completed_tasks__'', ''__last_completed_node__'', ''__step__'']"

text \<open>The writes, the ended nodes and the ended steps of a list of events, in order.\<close>

definition state_writes :: "eventlib \<Rightarrow> Event list \<Rightarrow> gval gomap" where
  "state_writes J evs =
     map (\<lambda>e. (stChannel (state_payload J e), stNewValue (state_payload J e)))
       (filter (\<lambda>e. evType e = EventStateWrite \<and> stChannel (state_payload J e) \<noteq> []) evs)"

definition ended_nodes :: "Event list \<Rightarrow> string list" where
  "ended_nodes evs = map evNode (filter (\<lambda>e. evType e = EventNodeEnd) evs)"

definition ended_steps :: "Event list \<Rightarrow> int list" where
  "ended_steps evs = map evStep (filter (\<lambda>e. evType e = EventStepEnd) evs)"

lemma build_types: "EventStateWrite \<noteq> EventNodeEnd" "EventStateWrite \<noteq> EventStepEnd" "EventNodeEnd \<noteq> EventStepEnd"
  by (simp_all add: event_types)

lemma build_fold:
  "bs_completed (fold (build_event J) evs b) = bs_completed b @ ended_nodes evs"
  "bs_last (fold (build_event J) evs b) = last (bs_last b # ended_nodes evs)"
  "bs_step (fold (build_event J) evs b) = fold max (ended_steps evs) (bs_step b)"
  by (induction evs arbitrary: b)
    (auto simp: build_event_def ended_nodes_def ended_steps_def Let_def build_types build_types [symmetric] max_def)

lemma build_writes: "mget (bs_cp (fold (build_event J) evs b)) = mget (bs_cp b) ++ mget (rev (state_writes J evs))"
proof (induction evs arbitrary: b)
  case (Cons e evs)
  show ?case
  proof (cases "evType e = EventStateWrite \<and> stChannel (state_payload J e) \<noteq> []")
    case True
    let ?k = "stChannel (state_payload J e)" and ?v = "stNewValue (state_payload J e)"
    have one: "mget (bs_cp (build_event J e b)) = (mget (bs_cp b))(?k \<mapsto> ?v)" using True by (auto simp: build_event_def Let_def gomap fun_upd_def)
    have "rev (state_writes J (e # evs)) = rev (state_writes J evs) @ [(?k, ?v)]" using True by (simp add: state_writes_def)
    then have "mget (rev (state_writes J (e # evs))) = [?k \<mapsto> ?v] ++ mget (rev (state_writes J evs))" by simp
    moreover have "(mget (bs_cp b))(?k \<mapsto> ?v) ++ w = mget (bs_cp b) ++ ([?k \<mapsto> ?v] ++ w)" for w by (auto simp: map_add_def fun_eq_iff split: option.splits)
    ultimately show ?thesis unfolding fold_simps Cons one by (simp only:)
  next
    case False
    then have "bs_cp (build_event J e b) = bs_cp b" by (auto simp: build_event_def Let_def)
    with False Cons show ?thesis by (auto simp: state_writes_def)
  qed
qed (simp add: state_writes_def)

text \<open>The keys of the result.\<close>

lemma BuildCheckpoint_keys:
  fixes L J nano evs t
  defines "cp \<equiv> fst (BuildCheckpoint L J nano evs t)"
  shows "k \<notin> set reserved_keys \<union> set id_keys \<Longrightarrow> mget cp k = mget (rev (state_writes J evs)) k"
    "ended_nodes evs \<noteq> [] \<Longrightarrow> mget cp ''__completed_tasks__'' = Some (GStr (str_join (char_of (0 :: nat)) (ended_nodes evs)))"
    "ended_nodes evs = [] \<Longrightarrow> mget cp ''__completed_tasks__'' = mget (rev (state_writes J evs)) ''__completed_tasks__''"
    "last ([] # ended_nodes evs) \<noteq> [] \<Longrightarrow> mget cp ''__last_completed_node__'' = Some (GStr (last ([] # ended_nodes evs)))"
    "last ([] # ended_nodes evs) = [] \<Longrightarrow> mget cp ''__last_completed_node__'' = mget (rev (state_writes J evs)) ''__last_completed_node__''"
    "mget cp ''__step__'' = Some (GFloat (f64_of_int L (fold max (ended_steps evs) 0)))"
  unfolding cp_def BuildCheckpoint_def Let_def fst_conv
  by (simp_all add: gomap build_fold build_writes reserved_keys_def id_keys_def map_add_def split: option.splits)

lemma restored_nodes:
  assumes "mget cp ''__completed_tasks__'' = Some (GStr (str_join (char_of (0 :: nat)) ns))" and "ns \<noteq> []"
    and "\<forall>n\<in>set ns. n \<noteq> [] \<and> char_of (0 :: nat) \<notin> set n"
  shows "set (restored_tasks cp) = set ns"
proof -
  have ins: "set (fold List.insert xs acc) = set xs \<union> set acc" for xs acc :: "string list" by (induction xs arbitrary: acc) auto
  have "str_join (char_of (0 :: nat)) ns \<noteq> []" using assms(2,3) by (auto simp: str_join_Nil_iff)
  moreover have "str_split (char_of (0 :: nat)) (str_join (char_of (0 :: nat)) ns) = ns" using assms(2,3) by (intro str_split_join) auto
  ultimately show ?thesis by (simp add: restored_tasks_def assms(1) deserializeStringSet_def ins)
qed

text \<open>C27: The checkpoint of a fork. The checkpoint built from recorded events holds for each channel the value written last and for the engine that restores it
  the nodes that ended, the last of them and the highest step that ended, if node names are not empty and have no NUL and no channel is named as a key
  of the engine.\<close>

theorem checkpoint_of_events:
  assumes "\<forall>k\<in>set reserved_keys. mget (rev (state_writes J evs)) k = None"
    and "\<forall>n\<in>set (ended_nodes evs). n \<noteq> [] \<and> char_of (0 :: nat) \<notin> set n"
  shows "(\<forall>k. k \<notin> set reserved_keys \<union> set id_keys \<longrightarrow> mget (fst (BuildCheckpoint L J nano evs t)) k = mget (rev (state_writes J evs)) k) \<and>
    set (restored_tasks (fst (BuildCheckpoint L J nano evs t))) = set (ended_nodes evs) \<and>
    restored_last (fst (BuildCheckpoint L J nano evs t)) = last ([] # ended_nodes evs) \<and>
    mget (fst (BuildCheckpoint L J nano evs t)) ''__step__'' = Some (GFloat (f64_of_int L (fold max (ended_steps evs) 0)))"
proof -
  let ?cp = "fst (BuildCheckpoint L J nano evs t)"
  note keys = BuildCheckpoint_keys [where L = L and J = J and nano = nano and evs = evs and t = t]
  have "set (restored_tasks ?cp) = set (ended_nodes evs)"
  proof (cases "ended_nodes evs = []")
    case True
    then show ?thesis using keys(3) assms(1) by (simp add: restored_tasks_def reserved_keys_def)
  next
    case False
    then show ?thesis by (intro restored_nodes keys(2) assms(2))
  qed
  moreover have "restored_last ?cp = last ([] # ended_nodes evs)"
    using keys(4,5) assms(1) by (cases "last ([] # ended_nodes evs) = []") (simp_all add: restored_last_def reserved_keys_def)
  ultimately show ?thesis using keys(1,6) by blast
qed

lemma by_clock_get: "map_of (by_clock evs) = map_of (rev (map (\<lambda>e. (evClock e, e)) evs))"
proof -
  have "map_of (fold (\<lambda>e m. AList.update (evClock e) e m) evs m) = map_of m ++ map_of (rev (map (\<lambda>e. (evClock e, e)) evs))" for m
    by (induction evs arbitrary: m) (simp_all add: update_conv' map_add_assoc [symmetric])
  then show ?thesis by (simp add: by_clock_def)
qed

section \<open>What a comparison lists\<close>

lemma diff_types: "EventLLMCallEnd \<noteq> EventToolCallResult" "EventLLMCallEnd \<noteq> EventStateWrite" "EventToolCallResult \<noteq> EventStateWrite"
  by (simp_all add: event_types)

text \<open>The contribution of one clock to each list: events only one side has, mismatches, model calls, tool results and state writes.\<close>

type_synonym clock_map = "64 word \<Rightarrow> Event option"

definition only_in :: "clock_map \<Rightarrow> clock_map \<Rightarrow> 64 word \<Rightarrow> Event set" where
  "only_in l r c = {e. l c = Some e \<and> r c = None}"

definition unequal :: "clock_map \<Rightarrow> clock_map \<Rightarrow> 64 word \<Rightarrow> (64 word \<times> string) set" where
  "unequal l r c = {(c, f) |f e e'. l c = Some e \<and> r c = Some e' \<and>
     (f = ''type'' \<and> evType e \<noteq> evType e' \<or> f = ''payload'' \<and> evHash e \<noteq> evHash e')}"

definition of_type :: "string \<Rightarrow> clock_map \<Rightarrow> clock_map \<Rightarrow> 64 word \<Rightarrow> (Event \<times> Event) set" where
  "of_type t l r c = {(e, e') |e e'. l c = Some e \<and> r c = Some e' \<and> evType e = t}"

lemmas contributions = only_in_def unequal_def of_type_def

definition mismatches :: "DiffResult \<Rightarrow> (64 word \<times> string) set" where
  "mismatches d = (\<lambda>m. (mmClock m, mmField m)) ` set (dfMismatched d)"

definition contents :: "DiffResult \<Rightarrow> (string \<times> string) set" where
  "contents d = (\<lambda>x. (ldLeftContent x, ldRightContent x)) ` set (dfLLMResponseDiff d)"

definition tool_names :: "DiffResult \<Rightarrow> string set" where
  "tool_names d = tdToolName ` set (dfToolCallDiff d)"

lemma categorise_report:
  "dfMissingInRight (categorise J c l r d) = dfMissingInRight d" "dfMissingInLeft (categorise J c l r d) = dfMissingInLeft d"
  "dfMismatched (categorise J c l r d) = dfMismatched d"
  "contents (categorise J c l r d) = contents d \<union> (if evType l = EventLLMCallEnd then {(extractContent J l, extractContent J r)} else {})"
  "tool_names (categorise J c l r d) = tool_names d \<union> (if evType l = EventToolCallResult then {extractToolName J l} else {})"
  "mdom (dfStateDiff (categorise J c l r d)) = mdom (dfStateDiff d) \<union> (if evType l = EventStateWrite \<and> evNode l \<noteq> [] then {evNode l} else {})"
  using diff_types by (auto simp: categorise_def contents_def tool_names_def gomap)

lemma diff_clock_report:
  assumes "\<forall>e\<in>ran lf \<union> ran ri. 16 \<le> length (evHash e)" and "lf = map_of lm" and "ri = map_of rm"
  shows "\<exists>d'. diff_clock J lm rm c d = Inr d' \<and>
    set (dfMissingInRight d') = set (dfMissingInRight d) \<union> only_in lf ri c \<and>
    set (dfMissingInLeft d') = set (dfMissingInLeft d) \<union> only_in ri lf c \<and>
    mismatches d' = mismatches d \<union> unequal lf ri c \<and>
    contents d' = contents d \<union> (\<lambda>(l, r). (extractContent J l, extractContent J r)) ` of_type EventLLMCallEnd lf ri c \<and>
    tool_names d' = tool_names d \<union> (\<lambda>(l, r). extractToolName J l) ` of_type EventToolCallResult lf ri c \<and>
    mdom (dfStateDiff d') = mdom (dfStateDiff d) \<union> ((\<lambda>(l, r). evNode l) ` of_type EventStateWrite lf ri c - {[]})"
proof (cases "lf c")
  case None
  then show ?thesis using assms(2,3) by (cases "ri c") (auto simp: diff_clock_def contributions mismatches_def contents_def tool_names_def)
next
  case l: (Some l)
  show ?thesis
  proof (cases "ri c")
    case None
    with l show ?thesis using assms(2,3) by (auto simp: diff_clock_def contributions mismatches_def contents_def tool_names_def)
  next
    case r: (Some r)
    have "16 \<le> length (evHash l)" "16 \<le> length (evHash r)" using assms(1) l r by (auto simp: ran_def)
    then obtain ms where ms: "payload_mismatch c l r = Inr ms"
      "(\<lambda>m. (mmClock m, mmField m)) ` set ms = (if evHash l \<noteq> evHash r then {(c, ''payload'')} else {})"
      by (cases "evHash l = evHash r") (simp_all add: payload_mismatch_def)
    have ty: "(\<lambda>m. (mmClock m, mmField m)) ` set (type_mismatch c l r) = (if evType l \<noteq> evType r then {(c, ''type'')} else {})"
      by (simp add: type_mismatch_def)
    let ?d = "d\<lparr>dfMismatched := dfMismatched d @ type_mismatch c l r @ ms\<rparr>"
    have c: "diff_clock J lm rm c d = Inr (categorise J c l r ?d)" using l r ms(1) assms(2,3) by (simp add: diff_clock_def)
    have mm: "mismatches (categorise J c l r ?d) = mismatches d \<union> unequal lf ri c"
      unfolding mismatches_def categorise_report by (simp add: image_Un ty ms(2)) (auto simp: unequal_def l r)
    have ct: "contents ?d = contents d" "tool_names ?d = tool_names d" by (simp_all add: contents_def tool_names_def)
    show ?thesis
      unfolding c by (intro exI [of _ "categorise J c l r ?d"] conjI refl mm)
        (simp_all add: categorise_report ct only_in_def of_type_def l r, auto)
  qed
qed

lemma diff_loop_report:
  assumes "\<forall>e\<in>ran lf \<union> ran ri. 16 \<le> length (evHash e)" and "lf = map_of lm" and "ri = map_of rm"
  shows "\<exists>d'. diff_loop J lm rm cs d = Inr d' \<and>
    set (dfMissingInRight d') = set (dfMissingInRight d) \<union> \<Union> (only_in lf ri ` set cs) \<and>
    set (dfMissingInLeft d') = set (dfMissingInLeft d) \<union> \<Union> (only_in ri lf ` set cs) \<and>
    mismatches d' = mismatches d \<union> \<Union> (unequal lf ri ` set cs) \<and>
    contents d' = contents d \<union> (\<lambda>(l, r). (extractContent J l, extractContent J r)) ` \<Union> (of_type EventLLMCallEnd lf ri ` set cs) \<and>
    tool_names d' = tool_names d \<union> (\<lambda>(l, r). extractToolName J l) ` \<Union> (of_type EventToolCallResult lf ri ` set cs) \<and>
    mdom (dfStateDiff d') = mdom (dfStateDiff d) \<union> ((\<lambda>(l, r). evNode l) ` \<Union> (of_type EventStateWrite lf ri ` set cs) - {[]})"
proof (induction cs arbitrary: d)
  case (Cons c cs)
  from diff_clock_report [OF assms, of J c d] obtain d1 where
    d1: "diff_clock J lm rm c d = Inr d1" and f: "set (dfMissingInRight d1) = set (dfMissingInRight d) \<union> only_in lf ri c"
      "set (dfMissingInLeft d1) = set (dfMissingInLeft d) \<union> only_in ri lf c" "mismatches d1 = mismatches d \<union> unequal lf ri c"
      "contents d1 = contents d \<union> (\<lambda>(l, r). (extractContent J l, extractContent J r)) ` of_type EventLLMCallEnd lf ri c"
      "tool_names d1 = tool_names d \<union> (\<lambda>(l, r). extractToolName J l) ` of_type EventToolCallResult lf ri c"
      "mdom (dfStateDiff d1) = mdom (dfStateDiff d) \<union> ((\<lambda>(l, r). evNode l) ` of_type EventStateWrite lf ri c - {[]})"
    by (elim exE conjE)
  have step: "diff_loop J lm rm (c # cs) d = diff_loop J lm rm cs d1" by (simp add: d1)
  from Cons [of d1] show ?case
    unfolding step f by (elim exE, intro exI, elim conjE, intro conjI) (simp_all only: list.set image_insert Union_insert image_Un Un_Diff Un_assoc)
qed simp

text \<open>Clocks outside the traces contribute nothing.\<close>

lemma contributes:
  assumes "\<And>c. l c \<noteq> None \<or> r c \<noteq> None \<Longrightarrow> c \<in> C"
  shows "\<Union> (only_in l r ` C) = {e. \<exists>c. l c = Some e \<and> r c = None}" "\<Union> (only_in r l ` C) = {e. \<exists>c. l c = None \<and> r c = Some e}"
    "\<Union> (unequal l r ` C) = {(c, f) |c f e e'. l c = Some e \<and> r c = Some e' \<and>
       (f = ''type'' \<and> evType e \<noteq> evType e' \<or> f = ''payload'' \<and> evHash e \<noteq> evHash e')}"
    "\<Union> (of_type t l r ` C) = {(e, e'). \<exists>c. l c = Some e \<and> r c = Some e' \<and> evType e = t}"
proof -
  have "l c = Some e \<Longrightarrow> c \<in> C" "r c = Some e \<Longrightarrow> c \<in> C" for c e using assms by auto
  then show "\<Union> (only_in l r ` C) = {e. \<exists>c. l c = Some e \<and> r c = None}" "\<Union> (only_in r l ` C) = {e. \<exists>c. l c = None \<and> r c = Some e}"
    "\<Union> (unequal l r ` C) = {(c, f) |c f e e'. l c = Some e \<and> r c = Some e' \<and>
       (f = ''type'' \<and> evType e \<noteq> evType e' \<or> f = ''payload'' \<and> evHash e \<noteq> evHash e')}"
    "\<Union> (of_type t l r ` C) = {(e, e'). \<exists>c. l c = Some e \<and> r c = Some e' \<and> evType e = t}"
    unfolding only_in_def unequal_def of_type_def by blast+
qed

text \<open>C28: Comparison of traces. In whatever order the clocks are visited, for hashes of at least sixteen characters (a shorter one that differs makes the code
  panic), the comparison of two traces lists exactly this, the last event with a clock counting. Missing on a side are the events
  at the clocks where only the other trace has one. Mismatched are the clocks where both have one and their types or their
  hashes differ. Besides, wherever both have one, equal or not, it lists the contents of the left model calls that ended and of their partners, the
  names of the left tool results and the nodes of the left state writes.\<close>

theorem diff_report:
  assumes "\<And>xs. set (order xs) = set xs" and "\<forall>e\<in>set (ms_events s) \<union> set (ms_events s'). 16 \<le> length (evHash e)"
    and "lf = map_of (rev (map (\<lambda>e. (evClock e, e)) (drain_events (Mem_Stream s (by_trace t)))))"
    and "ri = map_of (rev (map (\<lambda>e. (evClock e, e)) (drain_events (Mem_Stream s' (by_trace t')))))"
  shows "\<exists>d. Diff J order (Mem_Stream s) (Mem_Stream s') t t' = Inr d \<and>
    set (dfMissingInRight d) = {e. \<exists>c. lf c = Some e \<and> ri c = None} \<and>
    set (dfMissingInLeft d) = {e. \<exists>c. lf c = None \<and> ri c = Some e} \<and>
    (\<lambda>m. (mmClock m, mmField m)) ` set (dfMismatched d) =
      {(c, f) |c f l r. lf c = Some l \<and> ri c = Some r \<and>
         (f = ''type'' \<and> evType l \<noteq> evType r \<or> f = ''payload'' \<and> evHash l \<noteq> evHash r)} \<and>
    (\<lambda>x. (ldLeftContent x, ldRightContent x)) ` set (dfLLMResponseDiff d) =
      {(extractContent J l, extractContent J r) |c l r. lf c = Some l \<and> ri c = Some r \<and> evType l = EventLLMCallEnd} \<and>
    tdToolName ` set (dfToolCallDiff d) = {extractToolName J l |c l r. lf c = Some l \<and> ri c = Some r \<and> evType l = EventToolCallResult} \<and>
    mdom (dfStateDiff d) = {evNode l |c l r. lf c = Some l \<and> ri c = Some r \<and> evType l = EventStateWrite \<and> evNode l \<noteq> []}"
proof -
  let ?ls = "drain_events (Mem_Stream s (by_trace t))" and ?rs = "drain_events (Mem_Stream s' (by_trace t'))"
  let ?l = "map_of (by_clock ?ls)" and ?r = "map_of (by_clock ?rs)"
  have maps: "?l = lf" "?r = ri" by (simp_all add: by_clock_get assms(3,4))
  have ran: "ran (map_of (by_clock evs)) \<subseteq> set evs" for evs by (auto simp: by_clock_get ran_def dest!: map_of_SomeD)
  have long: "\<forall>e\<in>ran ?l \<union> ran ?r. 16 \<le> length (evHash e)"
  proof
    fix e assume "e \<in> ran ?l \<union> ran ?r"
    then have "e \<in> set ?ls \<union> set ?rs" using ran by blast
    then have "e \<in> set (ms_events s) \<union> set (ms_events s')" unfolding mem_log.stream_log by auto
    with assms(2) show "16 \<le> length (evHash e)" by blast
  qed
  define cs where "cs = order (remdups (map evClock (?ls @ ?rs)))"
  let ?d = "\<lparr>dfMissingInRight = [], dfMissingInLeft = [], dfMismatched = [], dfStateDiff = [], dfToolCallDiff = [], dfLLMResponseDiff = []\<rparr>"
  have start: "Diff J order (Mem_Stream s) (Mem_Stream s') t t' = diff_loop J (by_clock ?ls) (by_clock ?rs) cs ?d"
    by (simp only: Diff_def Let_def readAllEvents_def by_trace_def cs_def)
  have all: "c \<in> set cs" if "lf c \<noteq> None \<or> ri c \<noteq> None" for c
    using that unfolding cs_def assms(1) by (auto simp: assms(3,4) dest!: map_of_SomeD)
  have parts: "\<Union> (only_in lf ri ` set cs) = {e. \<exists>c. lf c = Some e \<and> ri c = None}"
    "\<Union> (only_in ri lf ` set cs) = {e. \<exists>c. lf c = None \<and> ri c = Some e}"
    "\<Union> (unequal lf ri ` set cs) = {(c, f) |c f e e'. lf c = Some e \<and> ri c = Some e' \<and>
       (f = ''type'' \<and> evType e \<noteq> evType e' \<or> f = ''payload'' \<and> evHash e \<noteq> evHash e')}"
    "\<Union> (of_type k lf ri ` set cs) = {(e, e'). \<exists>c. lf c = Some e \<and> ri c = Some e' \<and> evType e = k}" for k
    by (rule contributes [OF all], assumption)+
  have d0: "mismatches ?d = {}" "contents ?d = {}" "tool_names ?d = {}" by (simp_all add: mismatches_def contents_def tool_names_def)
  obtain d where d: "Diff J order (Mem_Stream s) (Mem_Stream s') t t' = Inr d"
    and f: "set (dfMissingInRight d) = {e. \<exists>c. lf c = Some e \<and> ri c = None}"
      "set (dfMissingInLeft d) = {e. \<exists>c. lf c = None \<and> ri c = Some e}"
      "mismatches d = {(c, f) |c f e e'. lf c = Some e \<and> ri c = Some e' \<and>
         (f = ''type'' \<and> evType e \<noteq> evType e' \<or> f = ''payload'' \<and> evHash e \<noteq> evHash e')}"
      "contents d = (\<lambda>(l, r). (extractContent J l, extractContent J r)) ` {(e, e'). \<exists>c. lf c = Some e \<and> ri c = Some e' \<and> evType e = EventLLMCallEnd}"
      "tool_names d = (\<lambda>(l, r). extractToolName J l) ` {(e, e'). \<exists>c. lf c = Some e \<and> ri c = Some e' \<and> evType e = EventToolCallResult}"
      "mdom (dfStateDiff d) = (\<lambda>(l, r). evNode l) ` {(e, e'). \<exists>c. lf c = Some e \<and> ri c = Some e' \<and> evType e = EventStateWrite} - {[]}"
  proof -
    from diff_loop_report [OF long refl refl, of J cs ?d] obtain d where "diff_loop J (by_clock ?ls) (by_clock ?rs) cs ?d = Inr d"
      "set (dfMissingInRight d) = \<Union> (only_in lf ri ` set cs)" "set (dfMissingInLeft d) = \<Union> (only_in ri lf ` set cs)"
      "mismatches d = \<Union> (unequal lf ri ` set cs)"
      "contents d = (\<lambda>(l, r). (extractContent J l, extractContent J r)) ` \<Union> (of_type EventLLMCallEnd lf ri ` set cs)"
      "tool_names d = (\<lambda>(l, r). extractToolName J l) ` \<Union> (of_type EventToolCallResult lf ri ` set cs)"
      "mdom (dfStateDiff d) = (\<lambda>(l, r). evNode l) ` \<Union> (of_type EventStateWrite lf ri ` set cs) - {[]}"
      unfolding maps d0 DiffResult.select_convs list.set list.map Un_empty_left image_empty by (elim exE conjE)
    then show thesis unfolding parts by (rule that [unfolded start])
  qed
  have "contents d = {(extractContent J l, extractContent J r) |c l r. lf c = Some l \<and> ri c = Some r \<and> evType l = EventLLMCallEnd}"
    "tool_names d = {extractToolName J l |c l r. lf c = Some l \<and> ri c = Some r \<and> evType l = EventToolCallResult}"
    "mdom (dfStateDiff d) = {evNode l |c l r. lf c = Some l \<and> ri c = Some r \<and> evType l = EventStateWrite \<and> evNode l \<noteq> []}"
    unfolding f(4-6) by auto
  with d f(1-3) show ?thesis unfolding mismatches_def contents_def tool_names_def by (intro exI [of _ d] conjI)
qed

section \<open>Examples\<close>

text \<open>A concrete encoding of payloads: the text is one field.\<close>

definition sample_events :: eventlib where
  "sample_events =
     \<lparr>marshal_payload = (\<lambda>p. case p of PLLM q \<Rightarrow> Some (lcContent q) | PTool q \<Rightarrow> Some (tcToolName q) | PState q \<Rightarrow> Some (stChannel q) | _ \<Rightarrow> None),
      unmarshal_tool = (\<lambda>s. (zero_tool\<lparr>tcToolName := s\<rparr>, False)), unmarshal_llm = (\<lambda>s. (zero_llm\<lparr>lcContent := s\<rparr>, False)),
      unmarshal_state = (\<lambda>s. (zero_state\<lparr>stChannel := s, stNewValue := GStr s\<rparr>, False)),
      marshal_event = (\<lambda>e. None), unmarshal_event = (\<lambda>s. None), marshal_events = (\<lambda>es. None)\<rparr>"

definition sample_calls :: "rec_entry list" where
  "sample_calls =
     ((([] @ OnRunStart ''g'' ''th'') @ RecordModelCall sample_events ''m'' ''p'' [] ''recorded answer text'' \<lparr>PromptTokens = 1, CompletionTokens = 1, TotalTokens = 2\<rparr> 5 0) @
      RecordStateWrite sample_events ''x'' GNil (GStr ''x'') ''last'') @ OnNodeEnd ''n'' 1 GNil None"

definition sample_entries :: "((string \<times> int) \<times> rec_entry) list" where
  "sample_entries = zip [(''e1'', 1), (''e2'', 2), (''e3'', 3), (''e4'', 4), (''e5'', 5)] sample_calls"

definition sample_log :: MemoryEventStore where
  "sample_log = snd (record_all (mem_append sample_lib) sample_lib (NewEventRecorder ''t'' ''th'', NewMemoryEventStore) sample_entries)"

lemma sample_recorded: "recorded sample_events (map snd sample_entries)"
proof -
  have "map snd sample_entries = sample_calls" by (simp add: sample_entries_def sample_calls_def recorder_methods)
  then show ?thesis by (simp only: sample_calls_def recorded.intros)
qed

lemma new_mem_ok: "mem_ok NewMemoryEventStore"
  by (simp add: mem_ok_def NewMemoryEventStore_def)

text \<open>The events it holds.\<close>

definition sample_event :: "string \<Rightarrow> int \<Rightarrow> EventType \<Rightarrow> 64 word \<Rightarrow> Event" where
  "sample_event ident now ty clock = (NewEvent ident now ty clock)\<lparr>evTraceID := ''t'', evThreadID := ''th''\<rparr>"

definition sample_trace :: "Event list" where
  "sample_trace =
     [(sample_event ''e1'' 1 EventGraphStart 1)\<lparr>evMetadata := Some [(''graph_name'', GStr ''g'')]\<rparr>,
      (sample_event ''e2'' 2 EventLLMCallStart 2)\<lparr>evMetadata := Some [(''model'', GStr ''m''), (''provider'', GStr ''p'')]\<rparr>,
      (sample_event ''e3'' 3 EventLLMCallEnd 3)\<lparr>evPayload := Some ''recorded answer text'', evHash := ''recorded answer text''\<rparr>,
      (sample_event ''e4'' 4 EventStateWrite 4)\<lparr>evPayload := Some ''x'', evHash := ''x''\<rparr>,
      (sample_event ''e5'' 5 EventNodeEnd 5)\<lparr>evStep := 1, evNode := ''n''\<rparr>]"

lemma sample_log_events: "ms_events sample_log = sample_trace" "ms_byID sample_log = map (\<lambda>e. (evID e, e)) sample_trace"
  by (simp_all add: sample_log_def sample_entries_def sample_calls_def recorder_methods record_event_def mem_append_def fresh_event_def Tick_def
    NewEventRecorder_def NewLogicalClock_def NewMemoryEventStore_def stamp_def NewEvent_def with_meta_def with_payload_def with_error_def
    Seal_def computeHash_def sample_events_def sample_lib_def dispatch_def sample_trace_def sample_event_def)

lemma sample_log_ok: "mem_ok sample_log"
  by (auto simp: mem_ok_def sample_log_events sample_trace_def sample_event_def NewEvent_def split: if_splits)

lemma sample_stream: "drain_events (Mem_Stream sample_log (by_trace ''t'')) = sample_trace"
  by (simp add: mem_log.stream_log matches_by_trace sample_log_events sample_trace_def sample_event_def)

definition shout_config :: ReplayConfig where
  "shout_config = (exact_config ''t'')\<lparr>rpModelOverride := Some (ReplaySubstituteModel (\<lambda>s. s @ ''!''))\<rparr>"

lemma shout_filter: "replay_filter shout_config = by_trace ''t''"
  by (simp add: replay_filter_def shout_config_def exact_config_def by_trace_def no_filter_def)

theorem replay_divergences_witness:
  "\<exists>res. Replay (\<lambda>s es. (s :: unit, Inr es)) sample_lib sample_events (Mem_Stream sample_log) shout_config None = (None, Inr res) \<and>
     rrReplayLen res = 5 \<and> length (rrDivergences res) = 1 \<and> rmMatchCount (rrMetrics res) + rmDivergenceCount (rrMetrics res) = 5"
proof -
  obtain res where run: "Replay (\<lambda>s es. (s :: unit, Inr es)) sample_lib sample_events (Mem_Stream sample_log) shout_config None = (None, Inr res)"
    and one: "length (rrDivergences res) = 1"
    by (simp add: Replay_def shout_filter sample_stream)
      (simp add: replayed_lists_def shout_config_def exact_config_def sample_trace_def sample_event_def replay_event_def event_types Let_def
        ReplaySubstituteModel_def parse_with_def sample_events_def zero_llm_def repack_def copyEvent_def Seal_def computeHash_def NewEvent_def
        sample_lib_def)
  from replay_divergences [OF run] have "rrReplayLen res = 5" by (simp add: shout_filter sample_stream sample_trace_def)
  with replay_divergences [OF run] run one show ?thesis by auto
qed

theorem record_replay_witness:
  "map (uint \<circ> evClock) (drain_events (Mem_Stream sample_log (by_trace ''t''))) = [1, 2, 3, 4, 5] \<and>
   (\<exists>res. Replay (\<lambda>s es. (s :: unit, Inr es)) sample_lib sample_events (Mem_Stream sample_log) (exact_config ''t'') None = (None, Inr res) \<and>
      rrDivergences res = [] \<and> rmMatchCount (rrMetrics res) = 5)"
proof -
  let ?run = "record_all (mem_append sample_lib) sample_lib (NewEventRecorder ''t'' ''th'', NewMemoryEventStore) sample_entries"
  have run: "?run = (fst ?run, sample_log)" by (simp add: sample_log_def)
  have five: "length sample_entries = 5" by (simp add: sample_entries_def sample_calls_def recorder_methods)
  have canon: "\<forall>e\<in>set (drain_events (Mem_Stream sample_log (by_trace ''t''))). canonical sample_events e"
    unfolding sample_stream by (simp add: sample_trace_def sample_event_def NewEvent_def canonical_def event_types sample_events_def)
  have none: "\<forall>e\<in>set (ms_events NewMemoryEventStore). evTraceID e \<noteq> ''t''" by (simp add: NewMemoryEventStore_def)
  from record_replay [OF new_mem_ok sample_recorded _ _ none run canon, of "\<lambda>s es. (s :: unit, Inr es)"] five show ?thesis
    by (auto simp: upt_rec)
qed

definition sample_fork :: ForkConfig where
  "sample_fork = \<lparr>fkTraceID = ''t'', fkPoint = ''e3''\<rparr>"

theorem fork_events_witness:
  "\<exists>res. Fork (\<lambda>s es. (s :: unit, Inr es)) (\<lambda>c cfg cp. Inr c) None sample_lib sample_events ''0'' (''f'', 9) (''g'', 9)
      (Mem_Stream sample_log) (Mem_Get sample_log) sample_fork None () = ((None, ()), Inr res) \<and>
    frForkEvents res = take 2 sample_trace @ [fork_marker sample_lib (''f'', 9) sample_fork]"
proof -
  have get: "Mem_Get sample_log (fkPoint sample_fork) = Some (sample_trace ! 2)"
    by (simp add: Mem_Get_def sample_log_events sample_fork_def sample_trace_def sample_event_def NewEvent_def)
  have clock: "evClock (sample_trace ! 2) = 3" by (simp add: sample_trace_def sample_event_def NewEvent_def)
  have pre: "filter (\<lambda>e. (fkTraceID sample_fork = [] \<or> evTraceID e = fkTraceID sample_fork) \<and> (evClock (sample_trace ! 2) = 1 \<or> evClock e < evClock (sample_trace ! 2)))
      (ms_events sample_log) = take 2 sample_trace"
    by (simp add: clock sample_log_events sample_fork_def) (simp add: sample_trace_def sample_event_def NewEvent_def)
  show ?thesis
    using fork_events [OF sample_log_ok get, of "\<lambda>s es. (s :: unit, Inr es)" "\<lambda>c cfg cp. Inr c" sample_lib sample_events "''0''" "(''f'', 9)" "(''g'', 9)" "()"]
    unfolding pre by (simp add: clock)
qed

theorem checkpoint_of_events_witness:
  "mget (fst (BuildCheckpoint sample_lib sample_events ''0'' sample_trace ''t'')) ''x'' = Some (GStr ''x'') \<and>
   set (restored_tasks (fst (BuildCheckpoint sample_lib sample_events ''0'' sample_trace ''t''))) = {''n''} \<and>
   restored_last (fst (BuildCheckpoint sample_lib sample_events ''0'' sample_trace ''t'')) = ''n''"
proof -
  have w: "state_writes sample_events sample_trace = [(''x'', GStr ''x'')]"
    by (simp add: state_writes_def sample_trace_def sample_event_def NewEvent_def event_types parse_with_def sample_events_def zero_state_def)
  have n: "ended_nodes sample_trace = [''n'']"
    by (simp add: ended_nodes_def sample_trace_def sample_event_def NewEvent_def event_types)
  have nul: "char_of (0 :: nat) \<noteq> CHR ''n''" by code_simp
  have "\<forall>k\<in>set reserved_keys. mget (rev (state_writes sample_events sample_trace)) k = None" by (simp add: w reserved_keys_def)
  from checkpoint_of_events [OF this, of sample_lib "''0''" "''t''"] n nul show ?thesis by (simp add: w reserved_keys_def id_keys_def)
qed

definition one_event_log :: MemoryEventStore where
  "one_event_log = fst (Mem_Append sample_lib NewMemoryEventStore [sample_trace ! 2])"

theorem diff_report_witness:
  "\<exists>d. Diff sample_events (\<lambda>xs. xs) (Mem_Stream one_event_log) (Mem_Stream one_event_log) ''t'' ''t'' = Inr d \<and>
     dfMissingInRight d = [] \<and> dfMismatched d = [] \<and> dfLLMResponseDiff d \<noteq> []"
proof -
  let ?s = "one_event_log" and ?m = "map_of [(3 :: 64 word, sample_trace ! 2)]"
  have ev: "ms_events ?s = [sample_trace ! 2]"
    by (simp add: one_event_log_def NewMemoryEventStore_def sample_trace_def sample_event_def NewEvent_def stamp_def Seal_def computeHash_def sample_lib_def)
  have f: "evClock (sample_trace ! 2) = 3" "evTraceID (sample_trace ! 2) = ''t''" "evHash (sample_trace ! 2) = ''recorded answer text''"
    "evType (sample_trace ! 2) = EventLLMCallEnd"
    by (simp_all add: sample_trace_def sample_event_def NewEvent_def)
  have same: "set ((\<lambda>xs. xs) xs) = set xs" for xs :: "64 word list" by simp
  have long: "\<forall>e\<in>set (ms_events ?s) \<union> set (ms_events ?s). 16 \<le> length (evHash e)" by (simp add: ev f)
  have m: "?m = map_of (rev (map (\<lambda>e. (evClock e, e)) (drain_events (Mem_Stream ?s (by_trace ''t'')))))"
    by (simp add: mem_log.stream_log ev f matches_by_trace)
  from diff_report [OF same long m m, of sample_events] show ?thesis
  proof (elim exE conjE)
    fix d
    assume d: "Diff sample_events (\<lambda>xs. xs) (Mem_Stream ?s) (Mem_Stream ?s) ''t'' ''t'' = Inr d"
      and r1: "set (dfMissingInRight d) = {e. \<exists>c. ?m c = Some e \<and> ?m c = None}"
      and r2: "(\<lambda>m. (mmClock m, mmField m)) ` set (dfMismatched d) =
        {(c, f) |c f l r. ?m c = Some l \<and> ?m c = Some r \<and> (f = ''type'' \<and> evType l \<noteq> evType r \<or> f = ''payload'' \<and> evHash l \<noteq> evHash r)}"
      and r3: "(\<lambda>x. (ldLeftContent x, ldRightContent x)) ` set (dfLLMResponseDiff d) =
        {(extractContent sample_events l, extractContent sample_events r) |c l r. ?m c = Some l \<and> ?m c = Some r \<and> evType l = EventLLMCallEnd}"
    have "set (dfMissingInRight d) = {}" unfolding r1 by simp
    moreover have "(\<lambda>m. (mmClock m, mmField m)) ` set (dfMismatched d) = {}" unfolding r2 by fastforce
    moreover have "?m 3 = Some (sample_trace ! 2)" by simp
    then have "(extractContent sample_events (sample_trace ! 2), extractContent sample_events (sample_trace ! 2)) \<in>
        (\<lambda>x. (ldLeftContent x, ldRightContent x)) ` set (dfLLMResponseDiff d)"
      unfolding r3 using f(4) by blast
    then have "dfLLMResponseDiff d \<noteq> []" by auto
    ultimately show ?thesis using d by simp
  qed
qed

end
