(* ===== verification/Event_Files.thy ===== *)
theory Event_Files
  imports Replay
begin

text \<open>
  The event store in files (\<open>harness/events/localfile.go\<close>). The directory is a map from file names to contents; a segment file holds one
  event per line. \<open>fs_err\<close> is the error the system gives when a file cannot be opened. A write that was opened succeeds.
\<close>

section \<open>Segment files\<close>

text \<open>\<open>%04d\<close>.\<close>

definition digit :: "nat \<Rightarrow> char" where "digit d = char_of (48 + d)"

fun decimal :: "nat \<Rightarrow> string" where
  "decimal n = (if n < 10 then [digit n] else decimal (n div 10) @ [digit (n mod 10)])"

declare decimal.simps [simp del]

definition pad4 :: "nat \<Rightarrow> string" where
  "pad4 n = replicate (4 - length (decimal n)) (digit 0) @ decimal n"

definition segment_name :: "string \<Rightarrow> nat \<Rightarrow> string" where
  "segment_name trace seg = ''events_'' @ trace @ ''_'' @ pad4 seg @ ''.jsonl''"

definition is_segment :: "string \<Rightarrow> bool" where
  "is_segment name \<longleftrightarrow> take 7 name = ''events_'' \<and> drop (length name - 6) name = ''.jsonl'' \<and> 6 \<le> length name"

definition newline :: char where "newline = char_of (10 :: nat)"

record LocalFileEventStore =
  lf_files :: "string gomap"
  lf_segment :: nat
  lf_maxSize :: int
  lf_cached :: "Event list"
  lf_clock :: "64 word"

text \<open>The lines of a file: a scanner gives no empty last line, and stops with an error at a line that does not fit into its buffer of one megabyte.
  \<open>TrimSpace\<close> also removes the carriage return the scanner drops.\<close>

definition scan_lines :: "string \<Rightarrow> string list" where
  "scan_lines content = (let ls = str_split newline content in if last ls = [] then butlast ls else ls)"

fun read_lines :: "golib \<Rightarrow> eventlib \<Rightarrow> string list \<Rightarrow> Event list res" where
  "read_lines L J [] = Inr []"
| "read_lines L J (l # ls) =
     (if 1048576 \<le> length l then Inl (Errorf ''bufio.Scanner: token too long'' [])
      else if trim_space L l = [] then read_lines L J ls
      else case unmarshal_event J (trim_space L l) of
             None \<Rightarrow> Inl (Errorf ''unmarshal event: %w'' [])
           | Some e \<Rightarrow> (case read_lines L J ls of Inl err \<Rightarrow> Inl err | Inr es \<Rightarrow> Inr (e # es)))"

definition readSegmentFile :: "golib \<Rightarrow> eventlib \<Rightarrow> string \<Rightarrow> Event list res" where
  "readSegmentFile L J content = read_lines L J (scan_lines content)"

section \<open>Opening a store\<close>

fun read_segments :: "golib \<Rightarrow> eventlib \<Rightarrow> string gomap \<Rightarrow> string list \<Rightarrow> Event list res" where
  "read_segments L J files [] = Inr []"
| "read_segments L J files (f # fs) =
     (case readSegmentFile L J (mget_or [] files f) of
        Inl err \<Rightarrow> Inl (Errorf (''read segment '' @ f @ '': %w'') [err])
      | Inr es \<Rightarrow> (case read_segments L J files fs of Inl err \<Rightarrow> Inl err | Inr es' \<Rightarrow> Inr (es @ es')))"

definition max_clock :: "Event list \<Rightarrow> 64 word" where
  "max_clock es = fold (\<lambda>e c. if c < evClock e then evClock e else c) es 0"

definition loadExisting :: "golib \<Rightarrow> eventlib \<Rightarrow> LocalFileEventStore \<Rightarrow> LocalFileEventStore res" where
  "loadExisting L J s =
     (case read_segments L J (lf_files s) (sort (filter is_segment (mkeys (lf_files s)))) of
        Inl err \<Rightarrow> Inl err
      | Inr es \<Rightarrow> Inr (s\<lparr>lf_cached := es, lf_clock := (if 0 < max_clock es then max_clock es else lf_clock s)\<rparr>))"

definition NewLocalFileEventStore :: "golib \<Rightarrow> eventlib \<Rightarrow> string gomap \<Rightarrow> LocalFileEventStore res" where
  "NewLocalFileEventStore L J files =
     (case loadExisting L J \<lparr>lf_files = files, lf_segment = 0, lf_maxSize = 64 * 1024 * 1024, lf_cached = [], lf_clock = 0\<rparr> of
        Inl err \<Rightarrow> Inl (Errorf ''load existing segments: %w'' [err])
      | Inr s \<Rightarrow> Inr s)"

section \<open>Operations\<close>

text \<open>The file of the current segment, or of the next one when it is too big, is opened, and created, before the event is marshalled.\<close>

definition rotate :: "Event \<Rightarrow> LocalFileEventStore \<Rightarrow> LocalFileEventStore" where
  "rotate e s =
     (case mget (lf_files s) (segment_name (evTraceID e) (lf_segment s)) of
        Some content \<Rightarrow> (if lf_maxSize s < int (length content) then s\<lparr>lf_segment := lf_segment s + 1\<rparr> else s)
      | None \<Rightarrow> s)"

definition appendToFileLocked ::
  "eventlib \<Rightarrow> (string \<Rightarrow> gerr option) \<Rightarrow> Event \<Rightarrow> LocalFileEventStore \<Rightarrow> LocalFileEventStore \<times> unit res" where
  "appendToFileLocked J fs_err e s0 =
     (let s = rotate e s0; f = segment_name (evTraceID e) (lf_segment s); content = mget_or [] (lf_files s) f
      in case fs_err f of
           Some err \<Rightarrow> (s, Inl (Errorf ''open segment file: %w'' [err]))
         | None \<Rightarrow>
             (case marshal_event J e of
                None \<Rightarrow> (s\<lparr>lf_files := mput f content (lf_files s)\<rparr>, Inl (Errorf ''marshal event: %w'' []))
              | Some data \<Rightarrow> (s\<lparr>lf_files := mput f (content @ data @ [newline]) (lf_files s)\<rparr>, Inr ())))"

fun LF_Append ::
  "golib \<Rightarrow> eventlib \<Rightarrow> (string \<Rightarrow> gerr option) \<Rightarrow> LocalFileEventStore \<Rightarrow> Event list \<Rightarrow> LocalFileEventStore \<times> Event list res" where
  "LF_Append L J fs_err s [] = (s, Inr [])"
| "LF_Append L J fs_err s (e # es) =
     (case stamp L (lf_clock s) e of
        (clock, e1) \<Rightarrow>
          (case appendToFileLocked J fs_err e1 (s\<lparr>lf_clock := clock, lf_cached := lf_cached s @ [e1]\<rparr>) of
             (s1, Inl err) \<Rightarrow> (s1, Inl err)
           | (s1, Inr u) \<Rightarrow>
               (case LF_Append L J fs_err s1 es of
                  (s2, Inl err) \<Rightarrow> (s2, Inl err)
                | (s2, Inr es1) \<Rightarrow> (s2, Inr (e1 # es1)))))"

definition LF_Stream :: "LocalFileEventStore \<Rightarrow> EventFilter \<Rightarrow> sliceIterator" where
  "LF_Stream s f = \<lparr>it_events = filter (Matches f) (lf_cached s), it_pos = 0\<rparr>"

definition LF_Get :: "LocalFileEventStore \<Rightarrow> string \<Rightarrow> Event option" where
  "LF_Get s i = find (\<lambda>e. evID e = i) (lf_cached s)"

definition LF_Range :: "LocalFileEventStore \<Rightarrow> 64 word \<Rightarrow> 64 word \<Rightarrow> EventFilter \<Rightarrow> Event list" where
  "LF_Range s from to f = range_events (lf_cached s) from to f"

definition LF_Seek :: "LocalFileEventStore \<Rightarrow> 64 word \<Rightarrow> sliceIterator" where
  "LF_Seek s clock = seek_events (lf_cached s) clock"

definition LF_Length :: "LocalFileEventStore \<Rightarrow> nat" where
  "LF_Length s = length (lf_cached s)"

definition LF_CreateSnapshot :: "golib \<Rightarrow> eventlib \<Rightarrow> int \<Rightarrow> LocalFileEventStore \<Rightarrow> string \<Rightarrow> EventSnapshot res" where
  "LF_CreateSnapshot L J now s traceID = take_snapshot L J now (lf_cached s) (lf_clock s) traceID"

definition LF_RestoreSnapshot :: "LocalFileEventStore \<Rightarrow> string \<Rightarrow> sliceIterator" where
  "LF_RestoreSnapshot s snapshotID = LF_Seek s 0"

fun rewrite_events :: "eventlib \<Rightarrow> (string \<Rightarrow> gerr option) \<Rightarrow> Event list \<Rightarrow> LocalFileEventStore \<Rightarrow> LocalFileEventStore \<times> unit res" where
  "rewrite_events J fs_err [] s = (s, Inr ())"
| "rewrite_events J fs_err (e # es) s =
     (case appendToFileLocked J fs_err e s of (s1, Inl err) \<Rightarrow> (s1, Inl err) | (s1, Inr u) \<Rightarrow> rewrite_events J fs_err es s1)"

definition LF_GC :: "eventlib \<Rightarrow> (string \<Rightarrow> gerr option) \<Rightarrow> int \<Rightarrow> int \<Rightarrow> LocalFileEventStore \<Rightarrow> LocalFileEventStore \<times> unit res" where
  "LF_GC J fs_err now retention s =
     (let keep = filter (\<lambda>e. now - retention < evTimestamp e) (lf_cached s)
      in rewrite_events J fs_err keep
           (s\<lparr>lf_cached := keep, lf_segment := 0, lf_files := filter (\<lambda>(f, c). \<not> is_segment f) (lf_files s)\<rparr>))"

section \<open>The store meets the contract of a log\<close>

lemma append_file_cached: "appendToFileLocked J fs_err e s = (s', r) \<Longrightarrow> lf_cached s' = lf_cached s"
  by (auto simp: appendToFileLocked_def rotate_def Let_def split: option.splits if_splits)

lemma LF_Append_log:
  "LF_Append L J fs_err s es = (s', Inr es') \<Longrightarrow> lf_cached s' = lf_cached s @ es' \<and> list_all2 (stamped L) es es'"
proof (induction es arbitrary: s s' es')
  case (Cons e es)
  obtain clock e1 where st: "stamp L (lf_clock s) e = (clock, e1)" by (cases "stamp L (lf_clock s) e")
  obtain s1 r where w: "appendToFileLocked J fs_err e1 (s\<lparr>lf_clock := clock, lf_cached := lf_cached s @ [e1]\<rparr>) = (s1, r)" by fastforce
  obtain s2 r2 where a: "LF_Append L J fs_err s1 es = (s2, r2)" by fastforce
  from Cons.prems st w a obtain es1 where "r2 = Inr es1" "s' = s2" "es' = e1 # es1" by (auto split: sum.splits)
  with Cons.IH [of s1 s2 es1] a append_file_cached [OF w] stamp_stamped [OF st] show ?case by simp
qed simp

interpretation file_log: event_log L "LF_Append L J fs_err" LF_Stream LF_Get lf_cached "\<lambda>s. True" for L J fs_err
proof
  show "True \<and> lf_cached s' = lf_cached s @ es'" if "LF_Append L J fs_err s es = (s', Inr es')" for s es s' es' using LF_Append_log [OF that] by simp
  show "list_all2 (stamped L) es es'" if "LF_Append L J fs_err s es = (s', Inr es')" for s es s' es' using LF_Append_log [OF that] by simp
  show "drain_events (LF_Stream s f) = filter (Matches f) (lf_cached s)" for s f by (simp add: drain_all LF_Stream_def)
  show "e \<in> set (lf_cached s) \<and> evID e = i" if "LF_Get s i = Some e" for s i e
    using that by (auto simp: LF_Get_def find_Some_iff)
qed

section \<open>Names of segments\<close>

lemma decimal_small: "n < 10 \<Longrightarrow> decimal n = [digit n]"
  by (simp add: decimal.simps)

lemma pad4_digits:
  assumes "n < 10000"
  shows "pad4 n = [digit (n div 1000), digit (n div 100 mod 10), digit (n div 10 mod 10), digit (n mod 10)]"
proof -
  have step: "decimal m = decimal (m div 10) @ [digit (m mod 10)]" if "10 \<le> m" for m using that by (subst decimal.simps) simp
  have rep: "replicate 3 x = [x, x, x]" "replicate 2 x = [x, x]" for x :: char by (simp_all add: numeral_eq_Suc)
  consider "n < 10" | "10 \<le> n" "n < 100" | "100 \<le> n" "n < 1000" | "1000 \<le> n" by linarith
  then show ?thesis
  proof cases
    case 1
    then show ?thesis by (simp add: pad4_def decimal_small rep)
  next
    case 2
    then have "decimal n = [digit (n div 10), digit (n mod 10)]" using step [of n] decimal_small [of "n div 10"] by simp
    with 2 show ?thesis by (simp add: pad4_def rep)
  next
    case 3
    then have "decimal n = [digit (n div 100), digit (n div 10 mod 10), digit (n mod 10)]"
      using step [of n] step [of "n div 10"] decimal_small [of "n div 100"] by (simp add: div_mult2_eq [symmetric])
    with 3 show ?thesis by (simp add: pad4_def)
  next
    case 4
    then have "decimal n = [digit (n div 1000), digit (n div 100 mod 10), digit (n div 10 mod 10), digit (n mod 10)]"
      using assms step [of n] step [of "n div 10"] step [of "n div 100"] decimal_small [of "n div 1000"] by (simp add: div_mult2_eq [symmetric])
    then show ?thesis by (simp add: pad4_def)
  qed
qed

lemma digit_less: "a < b \<Longrightarrow> b < 10 \<Longrightarrow> digit a < digit b"
  by (simp add: digit_def less_char_def)

lemma pad4_length: "n < 10000 \<Longrightarrow> length (pad4 n) = 4"
  by (simp add: pad4_digits)

lemma div10_less: "m < n \<Longrightarrow> m div 10 < n div 10 \<or> m div 10 = n div 10 \<and> m mod 10 < n mod (10 :: nat)"
  using div_mult_mod_eq [of m 10] div_mult_mod_eq [of n 10] div_le_mono [of m n 10] by linarith

lemma pad4_less: "m < n \<Longrightarrow> n < 10000 \<Longrightarrow> pad4 m < pad4 n"
proof -
  assume *: "m < n" "n < 10000"
  have div: "k div 10 div 10 = k div 100" "k div 100 div 10 = k div (1000 :: nat)" for k by (simp_all add: div_mult2_eq [symmetric])
  have top: "n div 1000 < 10" using * by simp
  have eq: "m div 10 = n div 10 \<Longrightarrow> m div 100 = n div 100" "m div 100 = n div 100 \<Longrightarrow> m div 1000 = n div 1000" by (metis div(1), metis div(2))
  have "m div 1000 < n div 1000 \<and> n div 1000 < 10 \<or> m div 1000 = n div 1000 \<and>
      (m div 100 mod 10 < n div 100 mod 10 \<or> m div 100 mod 10 = n div 100 mod 10 \<and>
        (m div 10 mod 10 < n div 10 mod 10 \<or> m div 10 mod 10 = n div 10 mod 10 \<and> m mod 10 < n mod 10))"
    using div10_less [OF *(1)] div10_less [of "m div 10" "n div 10", unfolded div] div10_less [of "m div 100" "n div 100", unfolded div] top eq by auto
  then show ?thesis using * by (auto simp: pad4_digits digit_less)
qed

lemma prefix_less: "xs @ ys < xs @ (zs :: string) \<longleftrightarrow> ys < zs"
  by (induction xs) auto

lemma suffix_less: "length us = length ws \<Longrightarrow> us < ws \<Longrightarrow> us @ vs < ws @ (zs :: string)"
  by (induction us ws rule: list_induct2) auto

lemma segment_name_mono: "m \<le> n \<Longrightarrow> n < 10000 \<Longrightarrow> segment_name t m \<le> segment_name t n"
proof -
  assume *: "m \<le> n" "n < 10000"
  show ?thesis
  proof (cases "m = n")
    case False
    then have "pad4 m < pad4 n" using * by (intro pad4_less) simp_all
    then have "pad4 m @ ''.jsonl'' < pad4 n @ ''.jsonl''" using * pad4_length [of m] pad4_length [of n] by (intro suffix_less) simp_all
    then have "segment_name t m < segment_name t n" unfolding segment_name_def prefix_less .
    then show ?thesis by (rule less_imp_le)
  qed simp
qed

lemma segment_name_is_segment: "is_segment (segment_name t n)"
  by (simp add: is_segment_def segment_name_def)

section \<open>What the files hold\<close>

text \<open>The lines of the events of a segment.\<close>

definition encode :: "eventlib \<Rightarrow> Event list \<Rightarrow> string" where
  "encode J es = concat (map (\<lambda>e. the (marshal_event J e) @ [newline]) es)"

text \<open>The files hold the events of the cache, each in the segment it was written to, and the number of the segment never decreased.\<close>

definition in_file :: "string \<Rightarrow> nat \<times> Event \<Rightarrow> bool" where
  "in_file f w \<longleftrightarrow> segment_name (evTraceID (snd w)) (fst w) = f"

definition holds_events :: "eventlib \<Rightarrow> LocalFileEventStore \<Rightarrow> (nat \<times> Event) list \<Rightarrow> bool" where
  "holds_events J s ws \<longleftrightarrow> sorted (map fst ws) \<and> (\<forall>w\<in>set ws. fst w \<le> lf_segment s) \<and> gomap_ok (lf_files s) \<and>
     (\<forall>f. is_segment f \<longrightarrow> mget (lf_files s) f =
        (if \<exists>w\<in>set ws. in_file f w then Some (encode J (map snd (filter (in_file f) ws))) else None))"

lemma rotate_holds: "holds_events J s ws \<Longrightarrow> holds_events J (rotate e s) ws"
  by (force simp: holds_events_def rotate_def le_SucI split: option.splits)

lemma append_holds:
  assumes "holds_events J s ws" and "appendToFileLocked J fs_err e s = (s', Inr u)"
  shows "\<exists>k. holds_events J s' (ws @ [(k, e)])"
proof -
  let ?s = "rotate e s"
  let ?k = "lf_segment ?s"
  let ?f = "segment_name (evTraceID e) ?k"
  obtain data where data: "marshal_event J e = Some data" "s' = ?s\<lparr>lf_files := mput ?f (mget_or [] (lf_files ?s) ?f @ data @ [newline]) (lf_files ?s)\<rparr>"
    using assms(2) by (auto simp: appendToFileLocked_def Let_def split: option.splits)
  have ok: "holds_events J ?s ws" by (rule rotate_holds [OF assms(1)])
  have get: "mget (lf_files ?s) f = (if \<exists>w\<in>set ws. in_file f w then Some (encode J (map snd (filter (in_file f) ws))) else None)" if "is_segment f" for f
    using ok that by (simp add: holds_events_def)
  have none: "filter (in_file f) ws = []" if "\<not> (\<exists>w\<in>set ws. in_file f w)" for f using that by (simp add: filter_empty_conv)
  have "mget_or [] (lf_files ?s) ?f = encode J (map snd (filter (in_file ?f) ws))"
    using get [OF segment_name_is_segment] none by (auto simp: mget_or_def encode_def)
  then have new: "mget_or [] (lf_files ?s) ?f @ data @ [newline] = encode J (map snd (filter (in_file ?f) (ws @ [(?k, e)])))"
    by (simp add: encode_def in_file_def data)
  have "mget (lf_files s') f = (if \<exists>w\<in>set (ws @ [(?k, e)]). in_file f w then Some (encode J (map snd (filter (in_file f) (ws @ [(?k, e)])))) else None)"
    if "is_segment f" for f
    using get [OF that] new by (cases "f = ?f") (auto simp: data gomap in_file_def)
  with ok data have "holds_events J s' (ws @ [(?k, e)])" by (auto simp: holds_events_def sorted_append)
  then show ?thesis ..
qed

section \<open>A session and the next one\<close>

text \<open>The states of a store that was opened on a directory without segments, by successful operations.\<close>

inductive lf_session :: "golib \<Rightarrow> eventlib \<Rightarrow> (string \<Rightarrow> gerr option) \<Rightarrow> LocalFileEventStore \<Rightarrow> bool" for L J fs_err where
  opened: "gomap_ok files \<Longrightarrow> filter is_segment (mkeys files) = [] \<Longrightarrow> NewLocalFileEventStore L J files = Inr s \<Longrightarrow> lf_session L J fs_err s"
| appended: "lf_session L J fs_err s \<Longrightarrow> LF_Append L J fs_err s es = (s', Inr es') \<Longrightarrow> lf_session L J fs_err s'"
| collected: "lf_session L J fs_err s \<Longrightarrow> LF_GC J fs_err now retention s = (s', Inr u) \<Longrightarrow> lf_session L J fs_err s'"

lemma holds_fields: "holds_events J (s\<lparr>lf_clock := c, lf_cached := es\<rparr>) ws = holds_events J s ws"
  by (simp add: holds_events_def)

lemma append_all_holds:
  "holds_events J s ws \<Longrightarrow> LF_Append L J fs_err s es = (s', Inr es') \<Longrightarrow> \<exists>ws'. holds_events J s' (ws @ ws') \<and> map snd ws' = es'"
proof (induction es arbitrary: s ws s' es')
  case (Cons e es)
  obtain clock e1 where st: "stamp L (lf_clock s) e = (clock, e1)" by (cases "stamp L (lf_clock s) e")
  obtain s1 r where w: "appendToFileLocked J fs_err e1 (s\<lparr>lf_clock := clock, lf_cached := lf_cached s @ [e1]\<rparr>) = (s1, r)" by fastforce
  obtain s2 r2 where a: "LF_Append L J fs_err s1 es = (s2, r2)" by fastforce
  from Cons.prems(2) st w a obtain u es1 where r: "r = Inr u" "r2 = Inr es1" "s' = s2" "es' = e1 # es1" by (auto split: sum.splits)
  obtain k where "holds_events J s1 (ws @ [(k, e1)])"
    using append_holds [OF _ w [unfolded r(1)], of ws] Cons.prems(1) by (auto simp: holds_fields)
  from Cons.IH [OF this a [unfolded r(2)]] obtain ws' where "holds_events J s2 ((ws @ [(k, e1)]) @ ws')" "map snd ws' = es1" by blast
  then show ?case using r by (intro exI [of _ "(k, e1) # ws'"]) simp
qed auto

lemma rewrite_holds:
  "holds_events J s ws \<Longrightarrow> rewrite_events J fs_err es s = (s', Inr u) \<Longrightarrow> \<exists>ws'. holds_events J s' (ws @ ws') \<and> map snd ws' = es \<and> lf_cached s' = lf_cached s"
proof (induction es arbitrary: s ws)
  case (Cons e es)
  obtain s1 v where w: "appendToFileLocked J fs_err e s = (s1, Inr v)" "rewrite_events J fs_err es s1 = (s', Inr u)"
    using Cons.prems(2) by (auto split: prod.splits sum.splits)
  obtain k where "holds_events J s1 (ws @ [(k, e)])" using append_holds [OF Cons.prems(1) w(1)] by blast
  from Cons.IH [OF this w(2)] obtain ws' where "holds_events J s' ((ws @ [(k, e)]) @ ws')" "map snd ws' = es" "lf_cached s' = lf_cached s1" by blast
  then show ?case using append_file_cached [OF w(1)] by (intro exI [of _ "(k, e) # ws'"]) simp
qed auto

lemma session_holds: "lf_session L J fs_err s \<Longrightarrow> \<exists>ws. holds_events J s ws \<and> map snd ws = lf_cached s"
proof (induction rule: lf_session.induct)
  case (opened files s)
  then have s: "s = \<lparr>lf_files = files, lf_segment = 0, lf_maxSize = 64 * 1024 * 1024, lf_cached = [], lf_clock = 0\<rparr>"
    by (simp add: NewLocalFileEventStore_def loadExisting_def max_clock_def)
  have "mget files f = None" if "is_segment f" for f using opened(2) that by (auto simp: map_of_eq_None_iff filter_empty_conv)
  then have "holds_events J s []" using opened(1) by (simp add: holds_events_def s)
  then show ?case by (intro exI [of _ "[]"]) (simp add: s)
next
  case (appended s es s' es')
  then obtain ws where ws: "holds_events J s ws" "map snd ws = lf_cached s" by blast
  from append_all_holds [OF ws(1) appended.hyps(2)] obtain ws' where "holds_events J s' (ws @ ws')" "map snd ws' = es'" by blast
  then show ?case using ws LF_Append_log [OF appended.hyps(2)] by (intro exI [of _ "ws @ ws'"]) simp
next
  case (collected s now retention s' u)
  then obtain ws where ws: "holds_events J s ws" by blast
  let ?keep = "filter (\<lambda>e. now - retention < evTimestamp e) (lf_cached s)"
  let ?s = "s\<lparr>lf_cached := ?keep, lf_segment := 0, lf_files := filter (\<lambda>(f, c). \<not> is_segment f) (lf_files s)\<rparr>"
  have "mget (lf_files ?s) f = None" if "is_segment f" for f using that by (auto simp: map_of_eq_None_iff)
  moreover have "gomap_ok (lf_files ?s)" using ws by (simp add: holds_events_def gomap_ok_def distinct_map_filter)
  ultimately have "holds_events J ?s []" by (simp add: holds_events_def)
  from rewrite_holds [OF this] collected.hyps(2) show ?case by (force simp: LF_GC_def Let_def)
qed

text \<open>An event whose text is one short line that decodes to an event of the same trace. What it decodes to need not be the event: an empty metadata map
  is left out of the text, and the numbers in it come back as \<open>float64\<close>.\<close>

definition reread :: "eventlib \<Rightarrow> Event \<Rightarrow> Event" where
  "reread J e = the (unmarshal_event J (the (marshal_event J e)))"

definition codec_ok :: "golib \<Rightarrow> eventlib \<Rightarrow> Event \<Rightarrow> bool" where
  "codec_ok L J e \<longleftrightarrow>
     (case marshal_event J e of
        None \<Rightarrow> False
      | Some d \<Rightarrow> (case unmarshal_event J d of None \<Rightarrow> False | Some e' \<Rightarrow> evTraceID e' = evTraceID e) \<and> trim_space L d = d \<and> d \<noteq> [] \<and> newline \<notin> set d \<and> length d < 1048576)"

lemma reread_trace: "codec_ok L J e \<Longrightarrow> evTraceID (reread J e) = evTraceID e"
  by (auto simp: codec_ok_def reread_def split: option.splits)

lemma scan_encode: "\<forall>e\<in>set es. codec_ok L J e \<Longrightarrow> scan_lines (encode J es) = map (the \<circ> marshal_event J) es"
proof -
  assume ok: "\<forall>e\<in>set es. codec_ok L J e"
  then have "str_split newline (encode J es) = map (the \<circ> marshal_event J) es @ [[]]"
    by (induction es) (auto simp: encode_def codec_ok_def str_split_append split: option.splits)
  then show ?thesis by (simp add: scan_lines_def)
qed

lemma read_encode: "\<forall>e\<in>set es. codec_ok L J e \<Longrightarrow> readSegmentFile L J (encode J es) = Inr (map (reread J) es)"
proof -
  assume ok: "\<forall>e\<in>set es. codec_ok L J e"
  then have "read_lines L J (map (the \<circ> marshal_event J) es) = Inr (map (reread J) es)"
    by (induction es) (auto simp: codec_ok_def reread_def split: option.splits)
  then show ?thesis by (simp add: readSegmentFile_def scan_encode [OF ok])
qed

text \<open>Reading a sorted list bucket by bucket gives the list.\<close>

lemma first_bucket:
  "sorted (map g xs) \<Longrightarrow> \<forall>x\<in>set xs. k \<le> g x \<Longrightarrow> filter (\<lambda>x. g x = k) xs @ filter (\<lambda>x. g x \<noteq> k) xs = xs"
proof (induction xs)
  case (Cons x xs)
  show ?case
  proof (cases "g x = k")
    case False
    then have "\<forall>y\<in>set xs. g y \<noteq> k" using Cons.prems by force
    then have "filter (\<lambda>x. g x = k) xs = []" "filter (\<lambda>x. g x \<noteq> k) xs = xs" by (simp_all add: filter_empty_conv)
    with False show ?thesis by simp
  qed (use Cons in simp)
qed simp

lemma buckets:
  assumes "sorted (map g xs)" and "sorted ks" and "distinct ks" and "g ` set xs \<subseteq> set ks"
  shows "concat (map (\<lambda>k. filter (\<lambda>x. g x = k) xs) ks) = xs"
  using assms
proof (induction ks arbitrary: xs)
  case (Cons k ks)
  let ?ys = "filter (\<lambda>x. g x \<noteq> k) xs"
  have "\<forall>x\<in>set xs. k \<le> g x" using Cons.prems(2,4) by auto
  note split = first_bucket [OF Cons.prems(1) this]
  have "sorted (map g ?ys)" using Cons.prems(1) by (simp add: sorted_filter)
  then have "concat (map (\<lambda>k. filter (\<lambda>x. g x = k) ?ys) ks) = ?ys" using Cons.prems by (intro Cons.IH) auto
  moreover have "filter (\<lambda>x. g x = k') ?ys = filter (\<lambda>x. g x = k') xs" if "k' \<in> set ks" for k'
    using that Cons.prems(3) by (auto intro!: filter_cong)
  ultimately show ?case using split by (simp cong: map_cong)
qed auto

lemma read_segments_holds:
  assumes "holds_events J s ws" and "\<forall>w\<in>set ws. codec_ok L J (snd w)" and "\<forall>f\<in>set fs. is_segment f"
  shows "read_segments L J (lf_files s) fs = Inr (map (reread J) (concat (map (\<lambda>f. map snd (filter (in_file f) ws)) fs)))"
  using assms(3)
proof (induction fs)
  case (Cons f fs)
  have "mget_or [] (lf_files s) f = encode J (map snd (filter (in_file f) ws))"
    using assms(1) Cons.prems by (auto simp: holds_events_def mget_or_def encode_def filter_empty_conv)
  moreover have "readSegmentFile L J (encode J (map snd (filter (in_file f) ws))) = Inr (map (reread J) (map snd (filter (in_file f) ws)))"
    by (rule read_encode) (use assms(2) in auto)
  ultimately show ?case using Cons by simp
qed simp

lemma segment_keys:
  assumes "holds_events J s ws"
  shows "set (sort (filter is_segment (mkeys (lf_files s)))) = {f. \<exists>w\<in>set ws. in_file f w}" "distinct (sort (filter is_segment (mkeys (lf_files s))))"
proof -
  have "f \<in> mdom (lf_files s) \<longleftrightarrow> (\<exists>w\<in>set ws. in_file f w)" if "is_segment f" for f
    using assms that by (auto simp: holds_events_def mdom_get split: if_splits)
  then show "set (sort (filter is_segment (mkeys (lf_files s)))) = {f. \<exists>w\<in>set ws. in_file f w}"
    using segment_name_is_segment by (auto simp: in_file_def)
  show "distinct (sort (filter is_segment (mkeys (lf_files s))))" using assms by (simp add: holds_events_def gomap_ok_def)
qed

lemma trace_in_order:
  assumes "sorted (map fst ws)" and "\<forall>w\<in>set ws. fst w < 10000" and "sorted fs" and "distinct fs" and "set fs = {f. \<exists>w\<in>set ws. in_file f w}"
  shows "filter (\<lambda>e. evTraceID e = t) (concat (map (\<lambda>f. map snd (filter (in_file f) ws)) fs)) = filter (\<lambda>e. evTraceID e = t) (map snd ws)"
proof -
  let ?g = "\<lambda>w. segment_name (evTraceID (snd w)) (fst w)" and ?xs = "filter (\<lambda>w. evTraceID (snd w) = t) ws"
  have "sorted (map fst ?xs)" using assms(1) by (simp add: sorted_filter)
  then have "sorted (map (segment_name t) (map fst ?xs))"
    using assms(2) by (auto simp: sorted_iff_nth_mono intro!: segment_name_mono dest: nth_mem)
  moreover have "map ?g ?xs = map (segment_name t) (map fst ?xs)" by simp
  ultimately have sorted: "sorted (map ?g ?xs)" by (simp only:)
  have "?g ` set ?xs \<subseteq> set fs" unfolding assms(5) by (auto simp: in_file_def)
  from buckets [OF sorted assms(3,4) this] have all: "concat (map (\<lambda>f. filter (\<lambda>w. ?g w = f) ?xs) fs) = ?xs" .
  have "filter (\<lambda>e. evTraceID e = t) (map snd (filter (in_file f) ws)) = map snd (filter (\<lambda>w. ?g w = f) ?xs)" for f
    by (simp add: filter_map o_def in_file_def conj_commute)
  then have "filter (\<lambda>e. evTraceID e = t) (concat (map (\<lambda>f. map snd (filter (in_file f) ws)) fs)) = map snd (concat (map (\<lambda>f. filter (\<lambda>w. ?g w = f) ?xs) fs))"
    by (simp add: filter_concat map_concat o_def)
  then show ?thesis unfolding all by (simp add: filter_map o_def)
qed

lemma max_clock_fold: "c \<le> fold (\<lambda>e c. if c < evClock e then evClock e else c) es c \<and>
    (\<forall>e\<in>set es. evClock e \<le> fold (\<lambda>e c. if c < evClock e then evClock e else c) es c)"
proof (induction es arbitrary: c)
  case (Cons e es)
  let ?c = "if c < evClock e then evClock e else c"
  have "c \<le> ?c" "evClock e \<le> ?c" by auto
  with Cons [of ?c] show ?case by (auto split del: if_split intro: order_trans)
qed simp

lemma max_clock_bound: "e \<in> set es \<Longrightarrow> evClock e \<le> max_clock es"
  using max_clock_fold [where es = es] by (simp add: max_clock_def)

text \<open>C29: Durability of the event log. The files of a session that began on a directory without segments hold all its events: opening the directory
  again succeeds, gives what the lines of the events of every trace decode to, in the order in which the events were appended, gives no other
  event, and continues with a clock that is not below any of theirs, if every event is a short line that decodes to an event of the same trace
  and fewer than ten thousand segments were written.\<close>

theorem reopen_keeps_traces:
  assumes "lf_session L J fs_err s" and "\<forall>e\<in>set (lf_cached s). codec_ok L J e" and "lf_segment s < 10000"
  shows "\<exists>s'. NewLocalFileEventStore L J (lf_files s) = Inr s' \<and> lf_files s' = lf_files s \<and>
    (\<forall>t. filter (\<lambda>e. evTraceID e = t) (lf_cached s') = map (reread J) (filter (\<lambda>e. evTraceID e = t) (lf_cached s))) \<and>
    mset (lf_cached s') = image_mset (reread J) (mset (lf_cached s)) \<and> (\<forall>e\<in>set (lf_cached s'). evClock e \<le> lf_clock s')"
proof -
  obtain ws where ws: "holds_events J s ws" "map snd ws = lf_cached s" using session_holds [OF assms(1)] by blast
  let ?fs = "sort (filter is_segment (mkeys (lf_files s)))"
  define es where "es = concat (map (\<lambda>f. map snd (filter (in_file f) ws)) ?fs)"
  let ?es = "map (reread J) es"
  let ?s' = "\<lparr>lf_files = lf_files s, lf_segment = 0, lf_maxSize = 64 * 1024 * 1024, lf_cached = ?es, lf_clock = (if 0 < max_clock ?es then max_clock ?es else 0)\<rparr>"
  have sorted: "sorted (map fst ws)" and small: "\<forall>w\<in>set ws. fst w < 10000" using ws(1) assms(3) by (auto simp: holds_events_def)
  have codec: "\<forall>w\<in>set ws. codec_ok L J (snd w)" using assms(2) unfolding ws(2) [symmetric] by auto
  from read_segments_holds [OF ws(1) this, of ?fs] have read: "read_segments L J (lf_files s) ?fs = Inr ?es" by (simp add: es_def)
  have reopen: "NewLocalFileEventStore L J (lf_files s) = Inr ?s'" by (simp add: NewLocalFileEventStore_def loadExisting_def read)
  have trace: "filter (\<lambda>e. evTraceID e = t) es = filter (\<lambda>e. evTraceID e = t) (lf_cached s)" for t
    using trace_in_order [OF sorted small _ segment_keys(2,1) [OF ws(1)]] by (simp add: ws(2) es_def)
  have "set es \<subseteq> snd ` set ws" by (auto simp: es_def)
  then have same: "evTraceID (reread J e) = evTraceID e" if "e \<in> set es" for e
    using that codec reread_trace by blast
  have "filter (\<lambda>e. evTraceID e = t) ?es = map (reread J) (filter (\<lambda>e. evTraceID e = t) es)" for t
    unfolding filter_map o_def by (rule arg_cong [where f = "map (reread J)"]) (rule filter_cong, simp_all add: same)
  then have "filter (\<lambda>e. evTraceID e = t) ?es = map (reread J) (filter (\<lambda>e. evTraceID e = t) (lf_cached s))" for t by (simp only: trace)
  moreover have "count (mset es) e = count (mset (lf_cached s)) e" for e
    using arg_cong [OF trace [of "evTraceID e"], of "\<lambda>xs. count (mset xs) e"] by simp
  then have "mset es = mset (lf_cached s)" by (rule multiset_eqI)
  moreover have "evClock e \<le> lf_clock ?s'" if "e \<in> set ?es" for e
    using max_clock_bound [OF that] by (auto simp: word_gt_0)
  ultimately show ?thesis using reopen by (intro exI [of _ ?s']) simp
qed

text \<open>A write opens at most one new segment.\<close>

lemma segments_bound: "LF_Append L J fs_err s es = (s', r) \<Longrightarrow> lf_segment s' \<le> lf_segment s + length es"
proof (induction es arbitrary: s s' r)
  case (Cons e es)
  obtain clock e1 where st: "stamp L (lf_clock s) e = (clock, e1)" by (cases "stamp L (lf_clock s) e")
  obtain s1 r1 where w: "appendToFileLocked J fs_err e1 (s\<lparr>lf_clock := clock, lf_cached := lf_cached s @ [e1]\<rparr>) = (s1, r1)" by fastforce
  then have one: "lf_segment s1 \<le> lf_segment s + 1"
    by (auto simp: appendToFileLocked_def rotate_def Let_def split: option.splits if_splits)
  obtain s2 r2 where a: "LF_Append L J fs_err s1 es = (s2, r2)" by fastforce
  from Cons.prems st w a have "s' = s1 \<or> s' = s2" by (auto split: sum.splits)
  with one Cons.IH [OF a] show ?case by auto
qed simp

text \<open>
  The number of the segment starts again at 0 when a store is opened, so that later events go to files before the last one; an event whose file cannot
  be opened stays in the cache although \<open>Append\<close> fails.
\<close>

lemma reopened_segment: "NewLocalFileEventStore L J files = Inr s \<Longrightarrow> lf_segment s = 0"
  by (auto simp: NewLocalFileEventStore_def loadExisting_def split: sum.splits)

lemma failed_append_cached:
  "evClock e \<noteq> 0 \<Longrightarrow> fs_err (segment_name (evTraceID e) (lf_segment (rotate (Seal L e) s))) = Some err \<Longrightarrow>
   LF_Append L J fs_err s [e] = (s', r) \<Longrightarrow> lf_cached s' = lf_cached s @ [Seal L e] \<and> lf_files s' = lf_files s \<and> (\<exists>m. r = Inl m)"
  by (auto simp: stamp_def appendToFileLocked_def Let_def rotate_def split: option.splits if_splits)

text \<open>An encoding of events that have only an identifier and a trace.\<close>

definition file_events :: eventlib where
  "file_events = sample_events\<lparr>
     marshal_event := (\<lambda>e. Some (evID e @ ''|'' @ evTraceID e)),
     unmarshal_event := (\<lambda>s. case str_split CHR ''|'' s of
        [i, t] \<Rightarrow> Some ((NewEvent i 0 EventNodeEnd 1)\<lparr>evTraceID := t\<rparr>) | _ \<Rightarrow> None)\<rparr>"

definition file_event :: "string \<Rightarrow> string \<Rightarrow> Event" where
  "file_event i t = (NewEvent i 0 EventNodeEnd 1)\<lparr>evTraceID := t\<rparr>"

definition empty_files :: LocalFileEventStore where
  "empty_files = \<lparr>lf_files = [], lf_segment = 0, lf_maxSize = 64 * 1024 * 1024, lf_cached = [], lf_clock = 0\<rparr>"

definition two_traces :: LocalFileEventStore where
  "two_traces = fst (LF_Append sample_lib file_events (\<lambda>f. None) empty_files [file_event ''b'' ''y'', file_event ''a'' ''x'', file_event ''c'' ''y''])"

lemma two_traces_run:
  "LF_Append sample_lib file_events (\<lambda>f. None) empty_files [file_event ''b'' ''y'', file_event ''a'' ''x'', file_event ''c'' ''y''] =
   (two_traces, Inr [file_event ''b'' ''y'', file_event ''a'' ''x'', file_event ''c'' ''y''])"
  by (simp add: two_traces_def empty_files_def file_event_def NewEvent_def stamp_def Seal_def computeHash_def sample_lib_def appendToFileLocked_def
      rotate_def file_events_def Let_def split: option.splits)

theorem reopen_keeps_traces_witness:
  "\<exists>s'. NewLocalFileEventStore sample_lib file_events (lf_files two_traces) = Inr s' \<and>
    filter (\<lambda>e. evTraceID e = ''y'') (lf_cached s') = [file_event ''b'' ''y'', file_event ''c'' ''y''] \<and> size (mset (lf_cached s')) = 3"
proof -
  have opened: "NewLocalFileEventStore sample_lib file_events [] = Inr empty_files"
    by (simp add: NewLocalFileEventStore_def loadExisting_def empty_files_def max_clock_def)
  have "lf_session sample_lib file_events (\<lambda>f. None) empty_files" by (rule lf_session.opened [OF _ _ opened]) simp_all
  then have session: "lf_session sample_lib file_events (\<lambda>f. None) two_traces" by (rule lf_session.appended [OF _ two_traces_run])
  have cached: "lf_cached two_traces = [file_event ''b'' ''y'', file_event ''a'' ''x'', file_event ''c'' ''y'']"
    using LF_Append_log [OF two_traces_run] by (simp add: empty_files_def)
  have codec: "\<forall>e\<in>set (lf_cached two_traces). codec_ok sample_lib file_events e"
    by (simp add: cached codec_ok_def file_events_def file_event_def NewEvent_def sample_lib_def newline_def) code_simp
  have "lf_segment two_traces < 10000" using segments_bound [OF two_traces_run] by (simp add: empty_files_def)
  with reopen_keeps_traces [OF session codec] obtain s' where s': "NewLocalFileEventStore sample_lib file_events (lf_files two_traces) = Inr s'"
    "filter (\<lambda>e. evTraceID e = ''y'') (lf_cached s') = map (reread file_events) (filter (\<lambda>e. evTraceID e = ''y'') (lf_cached two_traces))"
    "mset (lf_cached s') = image_mset (reread file_events) (mset (lf_cached two_traces))" by blast
  have reread: "reread file_events (file_event i t) = file_event i t" if "(i, t) \<in> {(''b'', ''y''), (''c'', ''y'')}" for i t
    using that by (auto simp: reread_def file_events_def) code_simp+
  have "filter (\<lambda>e. evTraceID e = ''y'') (lf_cached two_traces) = [file_event ''b'' ''y'', file_event ''c'' ''y'']"
    unfolding cached by (simp add: file_event_def)
  moreover have "map (reread file_events) [file_event ''b'' ''y'', file_event ''c'' ''y''] = [file_event ''b'' ''y'', file_event ''c'' ''y'']"
    by (simp add: reread)
  ultimately have "filter (\<lambda>e. evTraceID e = ''y'') (lf_cached s') = [file_event ''b'' ''y'', file_event ''c'' ''y'']" using s'(2) by simp
  with s' cached show ?thesis by (intro exI [of _ s']) simp
qed

end
