(* ===== verification/Chunk_Stream.thy ===== *)
theory Chunk_Stream
  imports Graph_Errors
begin

text \<open>
  Streams of chunks (\<open>types/stream.go\<close>): the stream over a Go channel with its iterator, the filtering and mapping streams around one, and
  the duplex stream that merges several. Emitting is two steps, since the test for a closed stream and the send are not atomic. A call that
  would wait gives \<open>None\<close>; when the context is done while a channel operation is possible too, either may be taken, which the caller
  states by passing the error of the context or not.
\<close>

section \<open>Chunks and the channel stream\<close>

record StreamChunk =
  ck_Mode :: string
  ck_Data :: gval
  ck_Step :: int
  ck_Node :: string
  ck_Metadata :: "gval gomap option"
  ck_Timestamp :: int
  ck_Index :: int

record ChannelStream =
  cs_mode :: string
  cs_ch :: "StreamChunk list"
  cs_size :: nat
  cs_closed :: bool

definition NewChannelStream :: "string \<Rightarrow> nat \<Rightarrow> ChannelStream" where
  "NewChannelStream mode bufferSize = \<lparr>cs_mode = mode, cs_ch = [], cs_size = bufferSize, cs_closed = False\<rparr>"

definition StreamClosed :: gerr where "StreamClosed = Errorf ''stream is closed'' []"

definition StreamError_text :: "string \<Rightarrow> string \<Rightarrow> string" where
  "StreamError_text code msg = (if code \<noteq> [] then code @ '': '' @ msg else msg)"

definition stamp_chunk :: "int \<Rightarrow> StreamChunk \<Rightarrow> ChannelStream \<Rightarrow> StreamChunk" where
  "stamp_chunk now c s = c\<lparr>ck_Mode := cs_mode s, ck_Timestamp := now\<rparr>"

text \<open>The send of a stamped chunk; a send to a closed channel panics. Only buffered channels are modelled: over a channel of size zero Go
  hands a chunk directly to a waiting receiver, here nothing is ever sent.\<close>

definition send_chunk :: "gerr option \<Rightarrow> StreamChunk \<Rightarrow> ChannelStream \<Rightarrow> (ChannelStream \<times> unit res) option" where
  "send_chunk done_err c s =
     (case done_err of
        Some err \<Rightarrow> Some (s, Inl err)
      | None \<Rightarrow>
          if cs_closed s then Some (s, Inl (GoPanic ''send on closed channel''))
          else if length (cs_ch s) < cs_size s then Some (s\<lparr>cs_ch := cs_ch s @ [c]\<rparr>, Inr ())
          else None)"

text \<open>\<open>Emit\<close> when nothing happens between its two steps.\<close>

definition Chan_Emit :: "int \<Rightarrow> gerr option \<Rightarrow> StreamChunk \<Rightarrow> ChannelStream \<Rightarrow> (ChannelStream \<times> unit res) option" where
  "Chan_Emit now done_err c s =
     (if cs_closed s then Some (s, Inl StreamClosed) else send_chunk done_err (stamp_chunk now c s) s)"

definition Chan_Close :: "ChannelStream \<Rightarrow> ChannelStream" where
  "Chan_Close s = (if cs_closed s then s else s\<lparr>cs_closed := True\<rparr>)"

definition Chan_IsClosed :: "ChannelStream \<Rightarrow> bool" where "Chan_IsClosed s = cs_closed s"

definition Chan_Mode :: "ChannelStream \<Rightarrow> string" where "Chan_Mode s = cs_mode s"

definition EOF :: gerr where "EOF = Errorf ''EOF'' []"

text \<open>The iterator over a channel is whether it is closed.\<close>

definition chan_next ::
  "gerr option \<Rightarrow> bool \<Rightarrow> ChannelStream \<Rightarrow> ((bool \<times> ChannelStream) \<times> StreamChunk res) option" where
  "chan_next done_err closed s =
     (if closed then Some ((closed, s), Inl EOF)
      else case done_err of
             Some err \<Rightarrow> Some ((closed, s), Inl err)
           | None \<Rightarrow>
               (case cs_ch s of
                  c # cs \<Rightarrow> Some ((closed, s\<lparr>cs_ch := cs\<rparr>), Inr c)
                | [] \<Rightarrow> if cs_closed s then Some ((True, s), Inl EOF) else None))"

definition chan_has_more :: "bool \<Rightarrow> ChannelStream \<Rightarrow> bool" where
  "chan_has_more closed s = (\<not> closed \<and> 0 < length (cs_ch s))"

section \<open>Filters and mappings\<close>

text \<open>A stream with the filters and mappings around a channel stream, and its iterator. A nil function is \<open>None\<close>. The field \<open>peeked\<close> of the filtering
  iterator is never set.\<close>

datatype stream_expr =
    OverChannel
  | FilterStream stream_expr "(StreamChunk \<Rightarrow> bool) option"
  | MapStream stream_expr "(StreamChunk \<Rightarrow> StreamChunk) option"

datatype stream_iter =
    channelIterator bool
  | filterIterator stream_iter "(StreamChunk \<Rightarrow> bool) option" "gerr option"
  | mapIterator stream_iter "(StreamChunk \<Rightarrow> StreamChunk) option"

definition passes :: "(StreamChunk \<Rightarrow> bool) option \<Rightarrow> StreamChunk \<Rightarrow> bool" where
  "passes f c = (case f of None \<Rightarrow> True | Some p \<Rightarrow> p c)"

definition mapped :: "(StreamChunk \<Rightarrow> StreamChunk) option \<Rightarrow> StreamChunk \<Rightarrow> StreamChunk" where
  "mapped f c = (case f of None \<Rightarrow> c | Some g \<Rightarrow> g c)"

fun stream_Emit :: "int \<Rightarrow> gerr option \<Rightarrow> stream_expr \<Rightarrow> StreamChunk \<Rightarrow> ChannelStream \<Rightarrow> (ChannelStream \<times> unit res) option" where
  "stream_Emit now d OverChannel c s = Chan_Emit now d c s"
| "stream_Emit now d (FilterStream p f) c s = (if passes f c then stream_Emit now d p c s else Some (s, Inr ()))"
| "stream_Emit now d (MapStream p f) c s = stream_Emit now d p (mapped f c) s"

fun stream_Iterator :: "stream_expr \<Rightarrow> stream_iter" where
  "stream_Iterator OverChannel = channelIterator False"
| "stream_Iterator (FilterStream p f) = filterIterator (stream_Iterator p) f None"
| "stream_Iterator (MapStream p f) = mapIterator (stream_Iterator p) f"

text \<open>\<open>Close\<close>, \<open>IsClosed\<close> and \<open>Mode\<close> go through to the channel.\<close>

fun stream_Close :: "stream_expr \<Rightarrow> ChannelStream \<Rightarrow> ChannelStream" where
  "stream_Close OverChannel s = Chan_Close s"
| "stream_Close (FilterStream p f) s = stream_Close p s"
| "stream_Close (MapStream p f) s = stream_Close p s"

fun stream_IsClosed :: "stream_expr \<Rightarrow> ChannelStream \<Rightarrow> bool" where
  "stream_IsClosed OverChannel s = Chan_IsClosed s"
| "stream_IsClosed (FilterStream p f) s = stream_IsClosed p s"
| "stream_IsClosed (MapStream p f) s = stream_IsClosed p s"

fun stream_Mode :: "stream_expr \<Rightarrow> ChannelStream \<Rightarrow> string" where
  "stream_Mode OverChannel s = Chan_Mode s"
| "stream_Mode (FilterStream p f) s = stream_Mode p s"
| "stream_Mode (MapStream p f) s = stream_Mode p s"

text \<open>The loop of the filtering iterator; \<open>n\<close> bounds its turns. Each turn takes a chunk from the channel, so that the length of the channel is enough.\<close>

fun filter_loop ::
  "nat \<Rightarrow> (stream_iter \<Rightarrow> ChannelStream \<Rightarrow> ((stream_iter \<times> ChannelStream) \<times> StreamChunk res) option) \<Rightarrow> (StreamChunk \<Rightarrow> bool) option \<Rightarrow>
   stream_iter \<Rightarrow> ChannelStream \<Rightarrow> ((stream_iter \<times> ChannelStream) \<times> StreamChunk res) option" where
  "filter_loop n step f src s =
     (case step src s of
        None \<Rightarrow> None
      | Some ((src', s'), Inl err) \<Rightarrow> Some ((filterIterator src' f (Some err), s'), Inl err)
      | Some ((src', s'), Inr c) \<Rightarrow>
          if passes f c then Some ((filterIterator src' f None, s'), Inr c)
          else (case n of 0 \<Rightarrow> None | Suc k \<Rightarrow> filter_loop k step f src' s'))"

primrec iter_size :: "stream_iter \<Rightarrow> nat" where
  "iter_size (channelIterator b) = 0"
| "iter_size (filterIterator i f e) = Suc (iter_size i)"
| "iter_size (mapIterator i f) = Suc (iter_size i)"

text \<open>\<open>k\<close> is the depth of the iterator.\<close>

fun iter_at :: "nat \<Rightarrow> gerr option \<Rightarrow> stream_iter \<Rightarrow> ChannelStream \<Rightarrow> ((stream_iter \<times> ChannelStream) \<times> StreamChunk res) option" where
  "iter_at k d (channelIterator closed) s =
     (case chan_next d closed s of None \<Rightarrow> None | Some ((closed', s'), r) \<Rightarrow> Some ((channelIterator closed', s'), r))"
| "iter_at (Suc k) d (filterIterator src f (Some err)) s = Some ((filterIterator src f (Some err), s), Inl err)"
| "iter_at (Suc k) d (filterIterator src f None) s = filter_loop (length (cs_ch s)) (iter_at k d) f src s"
| "iter_at (Suc k) d (mapIterator src f) s =
     (case iter_at k d src s of
        None \<Rightarrow> None
      | Some ((src', s'), Inl err) \<Rightarrow> Some ((mapIterator src' f, s'), Inl err)
      | Some ((src', s'), Inr c) \<Rightarrow> Some ((mapIterator src' f, s'), Inr (mapped f c)))"
| "iter_at 0 d it s = None"

definition iter_Next :: "gerr option \<Rightarrow> stream_iter \<Rightarrow> ChannelStream \<Rightarrow> ((stream_iter \<times> ChannelStream) \<times> StreamChunk res) option" where
  "iter_Next d it s = iter_at (iter_size it) d it s"

fun iter_HasMore :: "stream_iter \<Rightarrow> ChannelStream \<Rightarrow> bool" where
  "iter_HasMore (channelIterator closed) s = chan_has_more closed s"
| "iter_HasMore (filterIterator src f err) s = (case err of Some e \<Rightarrow> False | None \<Rightarrow> iter_HasMore src s)"
| "iter_HasMore (mapIterator src f) s = iter_HasMore src s"

fun iter_close :: "stream_iter \<Rightarrow> stream_iter" where
  "iter_close (channelIterator closed) = channelIterator True"
| "iter_close (filterIterator src f err) = filterIterator (iter_close src) f err"
| "iter_close (mapIterator src f) = mapIterator (iter_close src) f"

section \<open>What a reader receives\<close>

text \<open>What becomes of one chunk when it is emitted, outer streams first, and when it is read, inner streams first.\<close>

fun emit_one :: "stream_expr \<Rightarrow> StreamChunk \<Rightarrow> StreamChunk option" where
  "emit_one OverChannel c = Some c"
| "emit_one (FilterStream p f) c = (if passes f c then emit_one p c else None)"
| "emit_one (MapStream p f) c = emit_one p (mapped f c)"

fun read_one :: "stream_expr \<Rightarrow> StreamChunk \<Rightarrow> StreamChunk option" where
  "read_one OverChannel c = Some c"
| "read_one (FilterStream p f) c = (case read_one p c of None \<Rightarrow> None | Some y \<Rightarrow> if passes f y then Some y else None)"
| "read_one (MapStream p f) c = map_option (mapped f) (read_one p c)"

lemma next_found:
  "cs_ch s = pre @ c # post \<Longrightarrow> \<forall>x\<in>set pre. read_one p x = None \<Longrightarrow> read_one p c = Some y \<Longrightarrow>
   iter_at (iter_size (stream_Iterator p)) None (stream_Iterator p) s = Some ((stream_Iterator p, s\<lparr>cs_ch := post\<rparr>), Inr y)"
proof (induction p arbitrary: s pre c post y)
  case OverChannel
  then show ?case by (cases pre) (auto simp: chan_next_def)
next
  case (MapStream p f)
  from MapStream.prems obtain y' where y': "read_one p c = Some y'" "y = mapped f y'" by auto
  have "\<forall>x\<in>set pre. read_one p x = None" using MapStream.prems(2) by auto
  from MapStream.IH [OF MapStream.prems(1) this y'(1)] y'(2) show ?case by simp
next
  case (FilterStream p f)
  let ?it = "stream_Iterator p"
  let ?step = "iter_at (iter_size ?it) None"
  have "filter_loop n ?step f ?it s = Some ((filterIterator ?it f None, s\<lparr>cs_ch := post\<rparr>), Inr y)"
    if "length pre \<le> n" "cs_ch s = pre @ c # post" "\<forall>x\<in>set pre. read_one (FilterStream p f) x = None" "read_one (FilterStream p f) c = Some y" for n s pre
    using that
  proof (induction n arbitrary: s pre rule: less_induct)
    case (less n)
    from less.prems(4) have c: "read_one p c = Some y" "passes f y" by (auto split: option.splits if_splits)
    show ?case
    proof (cases "\<forall>x\<in>set pre. read_one p x = None")
      case True
      from FilterStream.IH [OF less.prems(2) True c(1)] c(2) show ?thesis by (subst filter_loop.simps) simp
    next
      case False
      then obtain a x b where pre: "pre = a @ x # b" "read_one p x \<noteq> None" "\<forall>z\<in>set a. read_one p z = None"
        using split_list_first_prop [of pre "\<lambda>x. read_one p x \<noteq> None"] by blast
      then obtain z where z: "read_one p x = Some z" by auto
      with less.prems(3) pre(1) have no: "\<not> passes f z" by (auto split: if_splits)
      obtain k where k: "n = Suc k" using less.prems(1) pre(1) by (cases n) auto
      have "cs_ch s = a @ x # (b @ c # post)" using less.prems(2) pre(1) by simp
      from FilterStream.IH [OF this pre(3) z] have step: "?step ?it s = Some ((?it, s\<lparr>cs_ch := b @ c # post\<rparr>), Inr z)" .
      have "filter_loop k ?step f ?it (s\<lparr>cs_ch := b @ c # post\<rparr>) = Some ((filterIterator ?it f None, s\<lparr>cs_ch := b @ c # post, cs_ch := post\<rparr>), Inr y)"
        using less.prems pre(1) by (intro less.IH) (auto simp: k)
      with step no k show ?thesis by (subst filter_loop.simps) simp
    qed
  qed
  from this [of pre "length (cs_ch s)" s] FilterStream.prems show ?case by simp
qed

lemma next_not_found:
  "\<forall>x\<in>set (cs_ch s). read_one p x = None \<Longrightarrow> cs_closed s \<Longrightarrow>
   \<exists>it' s'. iter_at (iter_size (stream_Iterator p)) None (stream_Iterator p) s = Some ((it', s'), Inl EOF)"
proof (induction p arbitrary: s)
  case OverChannel
  then show ?case by (cases "cs_ch s") (auto simp: chan_next_def)
next
  case (MapStream p f)
  then show ?case using MapStream.IH [of s] by fastforce
next
  case (FilterStream p f)
  let ?it = "stream_Iterator p"
  let ?step = "iter_at (iter_size ?it) None"
  have "\<exists>it' s'. filter_loop n ?step f ?it s = Some ((it', s'), Inl EOF)"
    if "length (cs_ch s) \<le> n" "\<forall>x\<in>set (cs_ch s). read_one (FilterStream p f) x = None" "cs_closed s" for n s
    using that
  proof (induction n arbitrary: s rule: less_induct)
    case (less n)
    show ?case
    proof (cases "\<forall>x\<in>set (cs_ch s). read_one p x = None")
      case True
      from FilterStream.IH [OF True less.prems(3)] show ?thesis by (subst filter_loop.simps) auto
    next
      case False
      then obtain a x b where ch: "cs_ch s = a @ x # b" "read_one p x \<noteq> None" "\<forall>z\<in>set a. read_one p z = None"
        using split_list_first_prop [of "cs_ch s" "\<lambda>x. read_one p x \<noteq> None"] by blast
      then obtain z where z: "read_one p x = Some z" by auto
      with less.prems(2) ch(1) have no: "\<not> passes f z" by (auto split: if_splits)
      obtain k where k: "n = Suc k" using less.prems(1) ch(1) by (cases n) auto
      have "\<exists>it' s'. filter_loop k ?step f ?it (s\<lparr>cs_ch := b\<rparr>) = Some ((it', s'), Inl EOF)"
        using less.prems ch(1) by (intro less.IH) (auto simp: k)
      with next_found [OF ch(1,3) z] no k show ?thesis by (subst filter_loop.simps) simp
    qed
  qed
  from this [of s "length (cs_ch s)"] FilterStream.prems show ?case by simp
qed

text \<open>Reading until the end, in at most \<open>n\<close> calls, and whether the end was reached.\<close>

fun drain_pipe :: "nat \<Rightarrow> stream_iter \<Rightarrow> ChannelStream \<Rightarrow> StreamChunk list \<times> bool" where
  "drain_pipe 0 it s = ([], False)"
| "drain_pipe (Suc n) it s =
     (case iter_Next None it s of
        Some ((it', s'), Inr c) \<Rightarrow> (case drain_pipe n it' s' of (cs, b) \<Rightarrow> (c # cs, b))
      | Some ((it', s'), Inl err) \<Rightarrow> ([], err = EOF)
      | None \<Rightarrow> ([], False))"

lemma map_filter_none: "\<forall>x\<in>set xs. f x = None \<Longrightarrow> List.map_filter f xs = []"
  by (induction xs) (simp_all add: List.map_filter_simps)

lemma map_filter_append: "List.map_filter f (xs @ ys) = List.map_filter f xs @ List.map_filter f ys"
  by (simp add: List.map_filter_def)

lemma drain_pipe_result:
  "length (cs_ch s) < n \<Longrightarrow> cs_closed s \<Longrightarrow> drain_pipe n (stream_Iterator p) s = (List.map_filter (read_one p) (cs_ch s), True)"
proof (induction n arbitrary: s)
  case (Suc n)
  show ?case
  proof (cases "\<forall>x\<in>set (cs_ch s). read_one p x = None")
    case True
    from next_not_found [OF True Suc.prems(2)] show ?thesis by (auto simp: iter_Next_def map_filter_none [OF True])
  next
    case False
    then obtain a x b where ch: "cs_ch s = a @ x # b" "read_one p x \<noteq> None" "\<forall>z\<in>set a. read_one p z = None"
      using split_list_first_prop [of "cs_ch s" "\<lambda>x. read_one p x \<noteq> None"] by blast
    then obtain z where z: "read_one p x = Some z" by auto
    have "drain_pipe n (stream_Iterator p) (s\<lparr>cs_ch := b\<rparr>) = (List.map_filter (read_one p) b, True)"
      using Suc.IH [of "s\<lparr>cs_ch := b\<rparr>"] Suc.prems ch(1) by simp
    with next_found [OF ch(1,3) z] z show ?thesis
      by (simp add: iter_Next_def ch(1) map_filter_append map_filter_none [OF ch(3)] List.map_filter_simps)
  qed
qed simp

fun emit_all :: "stream_expr \<Rightarrow> (int \<times> StreamChunk) list \<Rightarrow> ChannelStream \<Rightarrow> ChannelStream option" where
  "emit_all p [] s = Some s"
| "emit_all p ((now, c) # cs) s = (case stream_Emit now None p c s of Some (s', Inr u) \<Rightarrow> emit_all p cs s' | _ \<Rightarrow> None)"

definition emitted :: "string \<Rightarrow> stream_expr \<Rightarrow> int \<times> StreamChunk \<Rightarrow> StreamChunk option" where
  "emitted mode p e = map_option (\<lambda>c. c\<lparr>ck_Mode := mode, ck_Timestamp := fst e\<rparr>) (emit_one p (snd e))"

lemma emit_step:
  "\<not> cs_closed s \<Longrightarrow> length (cs_ch s) < cs_size s \<Longrightarrow>
   stream_Emit now None p c s = Some (s\<lparr>cs_ch := cs_ch s @ (case emitted (cs_mode s) p (now, c) of None \<Rightarrow> [] | Some y \<Rightarrow> [y])\<rparr>, Inr ())"
  by (induction p arbitrary: c) (auto simp: Chan_Emit_def send_chunk_def stamp_chunk_def emitted_def split: option.splits)

lemma emit_all_pipe:
  "\<not> cs_closed s \<Longrightarrow> length (cs_ch s) + length cs \<le> cs_size s \<Longrightarrow>
   emit_all p cs s = Some (s\<lparr>cs_ch := cs_ch s @ List.map_filter (emitted (cs_mode s) p) cs\<rparr>)"
proof (induction cs arbitrary: s)
  case (Cons e cs)
  obtain now c where e: "e = (now, c)" by (cases e)
  let ?new = "case emitted (cs_mode s) p (now, c) of None \<Rightarrow> [] | Some y \<Rightarrow> [y]"
  let ?s = "s\<lparr>cs_ch := cs_ch s @ ?new\<rparr>"
  have one: "stream_Emit now None p c s = Some (?s, Inr ())" using Cons.prems by (intro emit_step) simp_all
  have "length ?new \<le> 1" by (simp split: option.splits)
  then have rest: "emit_all p cs ?s = Some (?s\<lparr>cs_ch := cs_ch ?s @ List.map_filter (emitted (cs_mode ?s) p) cs\<rparr>)"
    using Cons.prems by (intro Cons.IH) simp_all
  have "List.map_filter (emitted (cs_mode s) p) ((now, c) # cs) = ?new @ List.map_filter (emitted (cs_mode s) p) cs"
    by (simp add: List.map_filter_simps split: option.splits)
  with one rest show ?case by (simp add: e)
qed (simp add: List.map_filter_simps)

lemma stream_Close_chan: "stream_Close p s = Chan_Close s"
  by (induction p) simp_all

lemma map_filter_compose: "List.map_filter g (List.map_filter f xs) = List.map_filter (\<lambda>x. Option.bind (f x) g) xs"
  by (induction xs) (auto simp: List.map_filter_simps split: option.splits)

text \<open>C?: Filtered and mapped streams. Chunks emitted through a stream into a buffer that holds them, read through its iterator after the stream was closed,
  are what the filters and mappings make of them, in order and up to the end of the stream: applied when they are emitted, from the outside
  in, and once more when they are read, from the inside out.\<close>

theorem stream_applies_twice:
  assumes "length cs \<le> n"
  shows "\<exists>s. emit_all p cs (NewChannelStream mode n) = Some s \<and>
    drain_pipe (Suc (length cs)) (stream_Iterator p) (stream_Close p s) =
      (List.map_filter (\<lambda>e. Option.bind (emitted mode p e) (read_one p)) cs, True)"
proof -
  let ?s = "(NewChannelStream mode n)\<lparr>cs_ch := List.map_filter (emitted mode p) cs\<rparr>"
  have "emit_all p cs (NewChannelStream mode n) = Some ?s"
    using emit_all_pipe [of "NewChannelStream mode n" cs p] assms by (simp add: NewChannelStream_def)
  moreover have "length (List.map_filter (emitted mode p) cs) \<le> length cs" by (simp add: List.map_filter_def)
  then have "drain_pipe (Suc (length cs)) (stream_Iterator p) (stream_Close p ?s) = (List.map_filter (read_one p) (List.map_filter (emitted mode p) cs), True)"
    using drain_pipe_result [of "Chan_Close ?s" "Suc (length cs)" p] by (simp add: stream_Close_chan Chan_Close_def NewChannelStream_def)
  ultimately show ?thesis by (simp add: map_filter_compose)
qed

section \<open>The duplex stream\<close>

text \<open>
  The sources are channel streams here. Each has a goroutine (\<open>multiplex\<close>) that takes a chunk (\<open>dx_hold\<close>), forwards it and ends at the end of its source or
  when the context is cancelled.
\<close>

record DuplexStream =
  dx_sources :: "ChannelStream list"
  dx_hold :: "StreamChunk option list"
  dx_exited :: "bool list"
  dx_output :: ChannelStream
  dx_cancelled :: bool

definition NewDuplexStream :: "ChannelStream list \<Rightarrow> DuplexStream" where
  "NewDuplexStream streams =
     \<lparr>dx_sources = streams, dx_hold = map (\<lambda>s. None) streams, dx_exited = map (\<lambda>s. False) streams,
      dx_output = NewChannelStream ''values'' 100, dx_cancelled = False\<rparr>"

definition tag_source :: "nat \<Rightarrow> StreamChunk \<Rightarrow> StreamChunk" where
  "tag_source i c = c\<lparr>ck_Metadata := Some (mput ''source'' (GInt (of_nat i)) (case ck_Metadata c of None \<Rightarrow> [] | Some m \<Rightarrow> m))\<rparr>"

text \<open>One receive of the goroutine of source \<open>i\<close>.\<close>

definition dx_take :: "nat \<Rightarrow> DuplexStream \<Rightarrow> DuplexStream option" where
  "dx_take i d =
     (if i < length (dx_sources d) \<and> \<not> dx_exited d ! i \<and> dx_hold d ! i = None
      then case chan_next None False (dx_sources d ! i) of
             None \<Rightarrow> None
           | Some ((b, s), Inr c) \<Rightarrow> Some (d\<lparr>dx_sources := (dx_sources d)[i := s], dx_hold := (dx_hold d)[i := Some (tag_source i c)]\<rparr>)
           | Some ((b, s), Inl err) \<Rightarrow> Some (d\<lparr>dx_exited := (dx_exited d)[i := True]\<rparr>)
      else None)"

text \<open>It forwards the chunk, or ends if the output refuses it.\<close>

definition dx_forward :: "int \<Rightarrow> nat \<Rightarrow> DuplexStream \<Rightarrow> DuplexStream option" where
  "dx_forward now i d =
     (if i < length (dx_sources d) \<and> \<not> dx_exited d ! i
      then case dx_hold d ! i of
             None \<Rightarrow> None
           | Some c \<Rightarrow>
               (case Chan_Emit now None c (dx_output d) of
                  None \<Rightarrow> None
                | Some (out, Inr u) \<Rightarrow> Some (d\<lparr>dx_output := out, dx_hold := (dx_hold d)[i := None]\<rparr>)
                | Some (out, Inl err) \<Rightarrow> Some (d\<lparr>dx_hold := (dx_hold d)[i := None], dx_exited := (dx_exited d)[i := True]\<rparr>))
      else None)"

text \<open>After the cancellation it ends, wherever it waits; a chunk it holds is lost.\<close>

definition dx_stop :: "nat \<Rightarrow> DuplexStream \<Rightarrow> DuplexStream option" where
  "dx_stop i d =
     (if i < length (dx_sources d) \<and> \<not> dx_exited d ! i \<and> dx_cancelled d
      then Some (d\<lparr>dx_hold := (dx_hold d)[i := None], dx_exited := (dx_exited d)[i := True]\<rparr>) else None)"

text \<open>\<open>Close\<close>: the cancellation, and what follows once all goroutines have ended.\<close>

definition dx_cancel :: "DuplexStream \<Rightarrow> DuplexStream" where
  "dx_cancel d = d\<lparr>dx_cancelled := True\<rparr>"

definition dx_finish :: "DuplexStream \<Rightarrow> DuplexStream option" where
  "dx_finish d =
     (if dx_cancelled d \<and> list_all id (dx_exited d)
      then Some (d\<lparr>dx_sources := map Chan_Close (dx_sources d), dx_output := Chan_Close (dx_output d)\<rparr>) else None)"

text \<open>
  A run together with what was emitted to each source, what was put into the output by which goroutine (\<open>None\<close> for a call of \<open>Emit\<close> on the duplex
  stream itself), and how many chunks were received from it.
\<close>

record dx_log =
  lg_sent :: "StreamChunk list list"
  lg_put :: "(nat option \<times> StreamChunk) list"
  lg_got :: nat

datatype dx_event =
    DxTake nat | DxForward int nat | DxStop nat | DxCancel | DxFinish
  | DxSource int nat StreamChunk | DxCloseSource nat | DxEmit int StreamChunk | DxReceive

definition put_of :: "nat option \<Rightarrow> ChannelStream \<Rightarrow> ChannelStream \<Rightarrow> dx_log \<Rightarrow> dx_log" where
  "put_of who out out' lg = lg\<lparr>lg_put := lg_put lg @ map (\<lambda>c. (who, c)) (drop (length (cs_ch out)) (cs_ch out'))\<rparr>"

fun dx_do :: "dx_event \<Rightarrow> DuplexStream \<times> dx_log \<Rightarrow> (DuplexStream \<times> dx_log) option" where
  "dx_do (DxTake i) (d, lg) = map_option (\<lambda>d'. (d', lg)) (dx_take i d)"
| "dx_do (DxForward now i) (d, lg) = map_option (\<lambda>d'. (d', put_of (Some i) (dx_output d) (dx_output d') lg)) (dx_forward now i d)"
| "dx_do (DxStop i) (d, lg) = map_option (\<lambda>d'. (d', lg)) (dx_stop i d)"
| "dx_do DxCancel (d, lg) = Some (dx_cancel d, lg)"
| "dx_do DxFinish (d, lg) = map_option (\<lambda>d'. (d', lg)) (dx_finish d)"
| "dx_do (DxSource now i c) (d, lg) =
     (if i < length (dx_sources d)
      then case Chan_Emit now None c (dx_sources d ! i) of
             Some (s, Inr u) \<Rightarrow>
               Some (d\<lparr>dx_sources := (dx_sources d)[i := s]\<rparr>, lg\<lparr>lg_sent := (lg_sent lg)[i := lg_sent lg ! i @ [c]]\<rparr>)
           | _ \<Rightarrow> None
      else None)"
| "dx_do (DxCloseSource i) (d, lg) = (if i < length (dx_sources d) then Some (d\<lparr>dx_sources := (dx_sources d)[i := Chan_Close (dx_sources d ! i)]\<rparr>, lg) else None)"
| "dx_do (DxEmit now c) (d, lg) =
     (case Chan_Emit now None c (dx_output d) of
        Some (out, Inr u) \<Rightarrow> Some (d\<lparr>dx_output := out\<rparr>, put_of None (dx_output d) out lg)
      | _ \<Rightarrow> None)"
| "dx_do DxReceive (d, lg) =
     (case chan_next None False (dx_output d) of
        Some ((b, out), Inr c) \<Rightarrow> Some (d\<lparr>dx_output := out\<rparr>, lg\<lparr>lg_got := lg_got lg + 1\<rparr>)
      | _ \<Rightarrow> None)"

inductive dx_reach :: "ChannelStream list \<Rightarrow> DuplexStream \<times> dx_log \<Rightarrow> bool" for streams where
  dx_start: "dx_reach streams (NewDuplexStream streams, \<lparr>lg_sent = map cs_ch streams, lg_put = [], lg_got = 0\<rparr>)"
| dx_step: "dx_reach streams x \<Longrightarrow> dx_do e x = Some y \<Longrightarrow> dx_reach streams y"

text \<open>What the duplex stream keeps of a chunk.\<close>

definition core :: "StreamChunk \<Rightarrow> gval \<times> int \<times> string \<times> int" where
  "core c = (ck_Data c, ck_Step c, ck_Node c, ck_Index c)"

definition forwarded :: "nat \<Rightarrow> dx_log \<Rightarrow> StreamChunk list" where
  "forwarded i lg = map snd (filter (\<lambda>(who, c). who = Some i) (lg_put lg))"

definition tagged :: "nat \<Rightarrow> StreamChunk \<Rightarrow> bool" where
  "tagged i c = (case ck_Metadata c of None \<Rightarrow> False | Some m \<Rightarrow> mget m ''source'' = Some (GInt (of_nat i)))"

definition held :: "DuplexStream \<Rightarrow> nat \<Rightarrow> StreamChunk list" where
  "held d i = (case dx_hold d ! i of None \<Rightarrow> [] | Some c \<Rightarrow> [c])"

definition source_ok :: "DuplexStream \<times> dx_log \<Rightarrow> nat \<Rightarrow> bool" where
  "source_ok x i \<longleftrightarrow> (case x of (d, lg) \<Rightarrow>
     (\<not> dx_cancelled d \<longrightarrow>
        map core (lg_sent lg ! i) = map core (forwarded i lg) @ map core (held d i) @ map core (cs_ch (dx_sources d ! i))) \<and>
     (\<forall>c\<in>set (forwarded i lg) \<union> set (held d i). tagged i c))"

definition dx_ok :: "nat \<Rightarrow> DuplexStream \<times> dx_log \<Rightarrow> bool" where
  "dx_ok n x \<longleftrightarrow> (case x of (d, lg) \<Rightarrow>
     length (dx_sources d) = n \<and> length (dx_hold d) = n \<and> length (dx_exited d) = n \<and> length (lg_sent lg) = n \<and>
     cs_ch (dx_output d) = drop (lg_got lg) (map snd (lg_put lg)) \<and> lg_got lg \<le> length (lg_put lg) \<and>
     (cs_closed (dx_output d) \<longrightarrow> dx_cancelled d) \<and> (\<forall>i<n. source_ok x i))"

lemma emit_sends: "Chan_Emit now None c s = Some (s', Inr u) \<Longrightarrow> \<not> cs_closed s \<and> s' = s\<lparr>cs_ch := cs_ch s @ [stamp_chunk now c s]\<rparr>"
  by (auto simp: Chan_Emit_def send_chunk_def split: if_splits)

lemma core_simps [simp]: "core (stamp_chunk now c s) = core c" "core (tag_source i c) = core c"
  "tagged i (stamp_chunk now c s) = tagged i c" "tagged i (tag_source i c)"
  by (simp_all add: core_def stamp_chunk_def tag_source_def tagged_def gomap)

lemma put_of_sends: "put_of who out (out\<lparr>cs_ch := cs_ch out @ [c]\<rparr>) lg = lg\<lparr>lg_put := lg_put lg @ [(who, c)]\<rparr>"
  by (simp add: put_of_def)

lemma source_ok_same:
  "source_ok (d, lg) i \<Longrightarrow> dx_cancelled d' = dx_cancelled d \<Longrightarrow> dx_hold d' ! i = dx_hold d ! i \<Longrightarrow> cs_ch (dx_sources d' ! i) = cs_ch (dx_sources d ! i) \<Longrightarrow>
   lg_sent lg' ! i = lg_sent lg ! i \<Longrightarrow> forwarded i lg' = forwarded i lg \<Longrightarrow> source_ok (d', lg') i"
  by (simp add: source_ok_def held_def)

lemma dx_ok_source: "dx_ok n (d, lg) \<Longrightarrow> i < n \<Longrightarrow> source_ok (d, lg) i"
  by (simp add: dx_ok_def)

lemma dx_take_ok:
  assumes "dx_ok n (d, lg)" and "dx_take k d = Some d'"
  shows "dx_ok n (d', lg)"
proof -
  from assms(2) have k: "k < length (dx_sources d)" "dx_hold d ! k = None" by (auto simp: dx_take_def split: if_splits)
  from assms(2) consider (chunk) c cs where "cs_ch (dx_sources d ! k) = c # cs"
      "d' = d\<lparr>dx_sources := (dx_sources d)[k := (dx_sources d ! k)\<lparr>cs_ch := cs\<rparr>], dx_hold := (dx_hold d)[k := Some (tag_source k c)]\<rparr>"
    | (ends) "d' = d\<lparr>dx_exited := (dx_exited d)[k := True]\<rparr>"
    by (auto simp: dx_take_def chan_next_def split: if_splits list.splits)
  then show ?thesis
  proof cases
    case chunk
    have "source_ok (d', lg) i" if "i < n" for i
    proof (cases "i = k")
      case True
      then show ?thesis using assms(1) k chunk that by (auto simp: dx_ok_def source_ok_def held_def)
    next
      case False
      then show ?thesis by (intro source_ok_same [OF dx_ok_source [OF assms(1) that]]) (simp_all add: chunk(2))
    qed
    then show ?thesis using assms(1) chunk(2) by (auto simp: dx_ok_def)
  next
    case ends
    then have "source_ok (d', lg) i" if "i < n" for i by (intro source_ok_same [OF dx_ok_source [OF assms(1) that]]) (simp_all add: ends)
    then show ?thesis using assms(1) ends by (auto simp: dx_ok_def)
  qed
qed

lemma dx_forward_ok:
  assumes "dx_ok n (d, lg)" and "dx_forward now k d = Some d'"
  shows "dx_ok n (d', put_of (Some k) (dx_output d) (dx_output d') lg)"
proof -
  from assms(2) obtain c where k: "k < length (dx_sources d)" "dx_hold d ! k = Some c" by (auto simp: dx_forward_def split: if_splits option.splits)
  from assms(2) k consider (sent) "\<not> cs_closed (dx_output d)"
      "d' = d\<lparr>dx_output := (dx_output d)\<lparr>cs_ch := cs_ch (dx_output d) @ [stamp_chunk now c (dx_output d)]\<rparr>, dx_hold := (dx_hold d)[k := None]\<rparr>"
    | (refused) "cs_closed (dx_output d)" "d' = d\<lparr>dx_hold := (dx_hold d)[k := None], dx_exited := (dx_exited d)[k := True]\<rparr>"
    by (auto simp: dx_forward_def Chan_Emit_def send_chunk_def split: if_splits)
  then show ?thesis
  proof cases
    case sent
    let ?lg = "lg\<lparr>lg_put := lg_put lg @ [(Some k, stamp_chunk now c (dx_output d))]\<rparr>"
    have lg: "put_of (Some k) (dx_output d) (dx_output d') lg = ?lg" using put_of_sends sent(2) by simp
    have "source_ok (d', ?lg) i" if "i < n" for i
    proof (cases "i = k")
      case True
      then show ?thesis using assms(1) k sent that by (auto simp: dx_ok_def source_ok_def held_def forwarded_def)
    next
      case False
      then show ?thesis by (intro source_ok_same [OF dx_ok_source [OF assms(1) that]]) (simp_all add: sent(2) forwarded_def)
    qed
    then show ?thesis unfolding lg using assms(1) sent by (auto simp: dx_ok_def)
  next
    case refused
    have lg: "put_of (Some k) (dx_output d) (dx_output d') lg = lg" by (simp add: put_of_def refused(2))
    have "source_ok (d', lg) i" if "i < n" for i
      using assms(1) refused that k by (cases "i = k") (auto simp: dx_ok_def source_ok_def held_def)
    then show ?thesis unfolding lg using assms(1) refused by (auto simp: dx_ok_def)
  qed
qed

lemma dx_do_ok:
  assumes "dx_ok n x" and "dx_do e x = Some y"
  shows "dx_ok n y"
proof -
  obtain d lg where x: "x = (d, lg)" by (cases x)
  note ok = assms(1) [unfolded x] and step = assms(2) [unfolded x]
  have source: "source_ok (d', lg') i"
    if "i < n" "dx_cancelled d' = dx_cancelled d" "dx_hold d' = dx_hold d" "cs_ch (dx_sources d' ! i) = cs_ch (dx_sources d ! i)"
      "lg_sent lg' = lg_sent lg" "forwarded i lg' = forwarded i lg" for d' lg' i
    by (rule source_ok_same [OF dx_ok_source [OF ok that(1)] that(2)]) (simp_all add: that)
  show ?thesis
  proof (cases e)
    case (DxTake i)
    with step ok show ?thesis by (auto intro: dx_take_ok)
  next
    case (DxForward now i)
    with step ok show ?thesis by (auto intro: dx_forward_ok)
  next
    case (DxStop i)
    with step obtain y': "y = (d\<lparr>dx_hold := (dx_hold d)[i := None], dx_exited := (dx_exited d)[i := True]\<rparr>, lg)" and "dx_cancelled d" "i < length (dx_sources d)"
      by (auto simp: dx_stop_def split: if_splits)
    with ok show ?thesis by (auto simp: dx_ok_def source_ok_def held_def nth_list_update)
  next
    case DxCancel
    with step ok show ?thesis by (auto simp: dx_ok_def source_ok_def held_def dx_cancel_def)
  next
    case DxFinish
    with step obtain y': "y = (d\<lparr>dx_sources := map Chan_Close (dx_sources d), dx_output := Chan_Close (dx_output d)\<rparr>, lg)" and "dx_cancelled d"
      by (auto simp: dx_finish_def split: if_splits)
    with ok show ?thesis by (auto simp: dx_ok_def source_ok_def held_def Chan_Close_def)
  next
    case (DxSource now i c)
    with step obtain u where i: "i < length (dx_sources d)"
      and y': "y = (d\<lparr>dx_sources := (dx_sources d)[i := (dx_sources d ! i)\<lparr>cs_ch := cs_ch (dx_sources d ! i) @ [stamp_chunk now c (dx_sources d ! i)]\<rparr>]\<rparr>,
                 lg\<lparr>lg_sent := (lg_sent lg)[i := lg_sent lg ! i @ [c]]\<rparr>)"
      by (auto split: if_splits option.splits sum.splits dest!: emit_sends)
    have "source_ok y j" if "j < n" for j
      using ok i that by (cases "j = i") (auto simp: y' dx_ok_def source_ok_def held_def forwarded_def)
    with ok show ?thesis by (auto simp: y' dx_ok_def)
  next
    case (DxCloseSource i)
    with step have y': "y = (d\<lparr>dx_sources := (dx_sources d)[i := Chan_Close (dx_sources d ! i)]\<rparr>, lg)" and i: "i < length (dx_sources d)" by (auto split: if_splits)
    have "cs_ch (Chan_Close s) = cs_ch s" for s by (simp add: Chan_Close_def)
    then have "source_ok y j" if "j < n" for j unfolding y' using that i by (intro source) (auto simp: nth_list_update)
    with ok show ?thesis by (auto simp: y' dx_ok_def)
  next
    case (DxEmit now c)
    let ?c = "stamp_chunk now c (dx_output d)"
    from DxEmit step have "\<not> cs_closed (dx_output d)" and y': "y = (d\<lparr>dx_output := (dx_output d)\<lparr>cs_ch := cs_ch (dx_output d) @ [?c]\<rparr>\<rparr>, lg\<lparr>lg_put := lg_put lg @ [(None, ?c)]\<rparr>)"
      by (auto split: option.splits sum.splits simp: put_of_sends dest!: emit_sends)
    have "source_ok y j" if "j < n" for j unfolding y' using that by (intro source) (auto simp: forwarded_def)
    with ok y' show ?thesis by (auto simp: dx_ok_def)
  next
    case DxReceive
    with step obtain c cs where ch: "cs_ch (dx_output d) = c # cs" and y': "y = (d\<lparr>dx_output := (dx_output d)\<lparr>cs_ch := cs\<rparr>\<rparr>, lg\<lparr>lg_got := lg_got lg + 1\<rparr>)"
      by (auto simp: chan_next_def split: option.splits sum.splits list.splits if_splits)
    have "source_ok y j" if "j < n" for j unfolding y' using that by (intro source) (auto simp: forwarded_def)
    moreover have "drop (lg_got lg) (map snd (lg_put lg)) = c # cs" using ok ch by (simp add: dx_ok_def)
    then have "drop (Suc (lg_got lg)) (map snd (lg_put lg)) = cs" "lg_got lg < length (lg_put lg)"
      by (metis drop_Suc list.sel(3) tl_drop, metis drop_all length_map list.distinct(1) not_less)
    ultimately show ?thesis using ok by (auto simp: y' dx_ok_def)
  qed
qed

lemma dx_reach_ok: "dx_reach streams x \<Longrightarrow> dx_ok (length streams) x"
proof (induction rule: dx_reach.induct)
  case dx_start
  show ?case by (simp add: dx_ok_def source_ok_def held_def forwarded_def NewDuplexStream_def NewChannelStream_def)
next
  case (dx_step x e y)
  then show ?case by (auto intro: dx_do_ok)
qed

text \<open>C22: Merging streams. In every interleaving of the sources, the goroutines of a duplex stream, direct emissions and the reader, until it is cancelled, what was
  emitted to a source is what its goroutine forwarded, what it holds and what is still in the source, in this order; every chunk it forwarded carries
  the number of the source; and the reader has received the chunks put into the output in order, the others are in the output.\<close>

theorem duplex_keeps_order:
  assumes "dx_reach streams (d, lg)" and "\<not> dx_cancelled d" and "i < length streams"
  shows "map core (lg_sent lg ! i) = map core (forwarded i lg) @ map core (held d i) @ map core (cs_ch (dx_sources d ! i)) \<and>
    (\<forall>c\<in>set (forwarded i lg). tagged i c) \<and> map snd (lg_put lg) = take (lg_got lg) (map snd (lg_put lg)) @ cs_ch (dx_output d)"
proof -
  have ok: "dx_ok (length streams) (d, lg)" using dx_reach_ok [OF assms(1)] by simp
  then have "source_ok (d, lg) i" "cs_ch (dx_output d) = drop (lg_got lg) (map snd (lg_put lg))" using assms(3) by (simp_all add: dx_ok_def)
  with assms(2) show ?thesis by (simp add: source_ok_def)
qed

text \<open>The output stays open when all sources have ended: the reader waits.\<close>

lemma duplex_output_stays_open:
  assumes "dx_reach streams (d, lg)" and "\<not> dx_cancelled d" and "cs_ch (dx_output d) = []"
  shows "chan_next None False (dx_output d) = None"
proof -
  have "dx_ok (length streams) (d, lg)" using dx_reach_ok [OF assms(1)] by simp
  then show ?thesis using assms(2,3) by (auto simp: dx_ok_def chan_next_def)
qed

section \<open>Examples\<close>

definition sample_chunk :: "string \<Rightarrow> StreamChunk" where
  "sample_chunk v = \<lparr>ck_Mode = [], ck_Data = GStr v, ck_Step = 0, ck_Node = ''n'', ck_Metadata = None, ck_Timestamp = 0, ck_Index = 0\<rparr>"

definition shout :: "StreamChunk \<Rightarrow> StreamChunk" where
  "shout c = (case ck_Data c of GStr v \<Rightarrow> c\<lparr>ck_Data := GStr (v @ ''!'')\<rparr> | _ \<Rightarrow> c)"

theorem stream_applies_twice_witness:
  "\<exists>s. emit_all (MapStream OverChannel (Some shout)) [(1, sample_chunk ''a''), (2, sample_chunk ''b'')] (NewChannelStream ''values'' 5) = Some s \<and>
    map ck_Data (fst (drain_pipe 3 (stream_Iterator (MapStream OverChannel (Some shout))) (stream_Close (MapStream OverChannel (Some shout)) s))) = [GStr ''a!!'', GStr ''b!!'']"
proof -
  obtain s where s: "emit_all (MapStream OverChannel (Some shout)) [(1, sample_chunk ''a''), (2, sample_chunk ''b'')] (NewChannelStream ''values'' 5) = Some s"
    "drain_pipe 3 (stream_Iterator (MapStream OverChannel (Some shout))) (stream_Close (MapStream OverChannel (Some shout)) s) =
      (List.map_filter (\<lambda>e. Option.bind (emitted ''values'' (MapStream OverChannel (Some shout)) e) (read_one (MapStream OverChannel (Some shout))))
         [(1, sample_chunk ''a''), (2, sample_chunk ''b'')], True)"
    using stream_applies_twice [of "[(1, sample_chunk ''a''), (2, sample_chunk ''b'')]" 5 "MapStream OverChannel (Some shout)" "''values''"]
    by (auto simp: numeral_eq_Suc)
  then show ?thesis
    by (intro exI [of _ s]) (simp add: List.map_filter_simps emitted_def mapped_def shout_def sample_chunk_def)
qed

definition two_sources :: "ChannelStream list" where
  "two_sources = [NewChannelStream ''values'' 2, NewChannelStream ''values'' 2]"

definition dx_state1 :: "DuplexStream \<times> dx_log" where
  "dx_state1 = the (dx_do (DxSource 1 1 (sample_chunk ''a'')) (NewDuplexStream two_sources, \<lparr>lg_sent = map cs_ch two_sources, lg_put = [], lg_got = 0\<rparr>))"

definition dx_state2 :: "DuplexStream \<times> dx_log" where
  "dx_state2 = the (dx_do (DxTake 1) dx_state1)"

theorem duplex_keeps_order_witness:
  "map core (lg_sent (snd dx_state2) ! 1) = map core (held (fst dx_state2) 1) \<and> ck_Data (hd (held (fst dx_state2) 1)) = GStr ''a''"
proof -
  note defs = dx_state1_def dx_state2_def two_sources_def NewDuplexStream_def NewChannelStream_def Chan_Emit_def send_chunk_def dx_take_def chan_next_def
  have one: "dx_do (DxSource 1 1 (sample_chunk ''a'')) (NewDuplexStream two_sources, \<lparr>lg_sent = map cs_ch two_sources, lg_put = [], lg_got = 0\<rparr>) = Some dx_state1"
    by (simp add: defs)
  have two: "dx_do (DxTake 1) dx_state1 = Some dx_state2" by (simp add: defs)
  have reach: "dx_reach two_sources dx_state2" by (rule dx_step [OF dx_step [OF dx_start one] two])
  have st: "\<not> dx_cancelled (fst dx_state2)" "lg_put (snd dx_state2) = []" "cs_ch (dx_sources (fst dx_state2) ! 1) = []"
    "ck_Data (hd (held (fst dx_state2) 1)) = GStr ''a''"
    by (simp_all add: defs held_def tag_source_def stamp_chunk_def sample_chunk_def)
  have "1 < length two_sources" by (simp add: two_sources_def)
  from duplex_keeps_order [OF _ st(1) this, of "snd dx_state2"] reach st show ?thesis by (simp add: forwarded_def)
qed

end
