(* ===== verification/Task_Decorator.thy ===== *)
theory Task_Decorator
  imports Node_Cache Retry Run_Config
begin

text \<open>
  Decorated tasks and entrypoints (\<open>task/decorator.go\<close>): the decorator with its cache and its retries, and entrypoints, which compile their
  graph once and forward to it. A decorated function is given by what its attempts do (\<open>Retry\<close>); \<open>cancel\<close> and the times are as there. The call of an
  entrypoint takes the context as the one value the code reads from it, the execution context.
\<close>

section \<open>Decorators\<close>

record tCacheEntry =
  te_value :: gval
  te_expiresAt :: "int option"

record TaskDecorator =
  td_name :: string
  td_retryPolicy :: "RetryPolicy option"
  td_cachePolicy :: "CachePolicy option"
  td_metadata :: "gval gomap"
  td_cache :: "tCacheEntry gomap"

type_synonym decorator_option = "TaskDecorator \<Rightarrow> TaskDecorator"

definition WithName :: "string \<Rightarrow> decorator_option" where
  "WithName name d = d\<lparr>td_name := name\<rparr>"

definition WithRetryPolicy :: "RetryPolicy option \<Rightarrow> decorator_option" where
  "WithRetryPolicy policy d = d\<lparr>td_retryPolicy := policy\<rparr>"

definition WithCachePolicy :: "CachePolicy option \<Rightarrow> decorator_option" where
  "WithCachePolicy policy d = d\<lparr>td_cachePolicy := policy\<rparr>"

definition WithTaskMetadata :: "gval gomap \<Rightarrow> decorator_option" where
  "WithTaskMetadata metadata d = d\<lparr>td_metadata := metadata\<rparr>"

definition NewDecorator :: "string \<Rightarrow> decorator_option list \<Rightarrow> TaskDecorator" where
  "NewDecorator uuid opts =
     fold (\<lambda>opt d. opt d) opts \<lparr>td_name = uuid, td_retryPolicy = None, td_cachePolicy = None, td_metadata = [], td_cache = []\<rparr>"

definition task_cache_key :: "golib \<Rightarrow> gval \<Rightarrow> string" where
  "task_cache_key L input = to_hex L (sha256 L (fmt_v L input))"

text \<open>\<open>getCached\<close> and \<open>setCached\<close> on the map, with the time to live of the policy. The zero time of an entry is before any other.\<close>

definition task_cache_get :: "int option \<Rightarrow> int \<Rightarrow> tCacheEntry gomap \<Rightarrow> string \<Rightarrow> tCacheEntry gomap \<times> gval option" where
  "task_cache_get ttl now m key =
     (case mget m key of
        None \<Rightarrow> (m, None)
      | Some entry \<Rightarrow>
          if ttl = None \<or> (case te_expiresAt entry of None \<Rightarrow> False | Some x \<Rightarrow> now < x) then (m, Some (te_value entry))
          else (mdel key m, None))"

definition task_cache_set :: "int option \<Rightarrow> int \<Rightarrow> tCacheEntry gomap \<Rightarrow> string \<Rightarrow> gval \<Rightarrow> tCacheEntry gomap" where
  "task_cache_set ttl now m key v = mput key \<lparr>te_value = v, te_expiresAt = map_option (\<lambda>d. now + d) ttl\<rparr> m"

definition getCached :: "golib \<Rightarrow> CachePolicy \<Rightarrow> int \<Rightarrow> gval \<Rightarrow> TaskDecorator \<Rightarrow> TaskDecorator \<times> gval option" where
  "getCached L policy now input d =
     (case task_cache_get (CpTTL policy) now (td_cache d) (task_cache_key L input) of (m, v) \<Rightarrow> (d\<lparr>td_cache := m\<rparr>, v))"

definition setCached :: "golib \<Rightarrow> CachePolicy \<Rightarrow> int \<Rightarrow> gval \<Rightarrow> gval \<Rightarrow> TaskDecorator \<Rightarrow> TaskDecorator" where
  "setCached L policy now input v d = d\<lparr>td_cache := task_cache_set (CpTTL policy) now (td_cache d) (task_cache_key L input) v\<rparr>"

record TaskContext =
  tx_Name :: string
  tx_ID :: string
  tx_Input :: gval
  tx_Output :: gval
  tx_Error :: "gerr option"
  tx_Attempt :: int
  tx_Metadata :: "gval gomap"
  tx_Start :: int
  tx_End :: "int option"

text \<open>The backoff before the next attempt; \<open>pow\<close> is \<open>math.Pow\<close> and \<open>r\<close> the random number of the jitter.\<close>

definition addJitter :: "golib \<Rightarrow> 64 word \<Rightarrow> int \<Rightarrow> int" where
  "addJitter L r d =
     (let delta = f64_mul L (f64_of_int L d) 0x3FD0000000000000;
          jitter = f64_mul L (f64_add L (f64_mul L r 0x4000000000000000) 0xBFF0000000000000) delta
      in sint (word_of_int (d + f64_to_int L jitter) :: 64 word))"

definition task_backoff :: "golib \<Rightarrow> (64 word \<Rightarrow> 64 word \<Rightarrow> 64 word) \<Rightarrow> 64 word \<Rightarrow> nat \<Rightarrow> RetryPolicy \<Rightarrow> int" where
  "task_backoff L pow r attempt policy =
     (let backoff = min (f64_to_int L (f64_mul L (f64_of_int L (InitialInterval policy))
                         (pow (BackoffFactor policy) (f64_of_int L (int attempt - 1))))) (MaxInterval policy)
      in if Jitter policy then addJitter L r backoff else backoff)"

text \<open>\<open>executeWithRetry\<close> from attempt \<open>a\<close> on; \<open>clock a\<close> is the time when attempt \<open>a\<close> has returned.\<close>

function task_retry ::
  "RetryPolicy \<Rightarrow> string \<Rightarrow> (nat \<Rightarrow> gerr option) \<Rightarrow> (nat \<Rightarrow> int) \<Rightarrow> (nat \<Rightarrow> gval \<Rightarrow> call_result) \<Rightarrow>
   nat \<Rightarrow> gerr option \<Rightarrow> TaskContext \<Rightarrow> TaskContext \<times> call_result" where
  "task_retry p name cancel clock fn a lastErr tx =
     (let failed = (\<lambda>last t tx. (tx\<lparr>tx_End := Some t, tx_Error := last\<rparr>,
            Ret GNil (Some (Errorf (''task '' @ name @ '' failed after %d attempts: %w'') (case last of None \<Rightarrow> [] | Some e \<Rightarrow> [e])))));
          tx1 = tx\<lparr>tx_Attempt := int a\<rparr>
      in if int a \<le> MaxAttempts p
         then case fn a (tx_Input tx) of
                Panics v \<Rightarrow> (tx1, Panics v)
              | Ret output None \<Rightarrow> (tx1\<lparr>tx_End := Some (clock a), tx_Output := output\<rparr>, Ret output None)
              | Ret output (Some err) \<Rightarrow>
                  if (case RetryOn p of Some f \<Rightarrow> \<not> f err | None \<Rightarrow> False)
                    then (tx1, Ret GNil (Some (Errorf (''task '' @ name @ '' failed with non-retryable error: %w'') [err])))
                  else if int a \<ge> MaxAttempts p then failed (Some err) (clock a) tx1
                  else (case cancel a of
                          Some c \<Rightarrow> (tx1, Ret GNil (Some c))
                        | None \<Rightarrow> task_retry p name cancel clock fn (Suc a) (Some err) tx1)
         else failed lastErr (clock (a - 1)) tx)"
  by pat_completeness auto
termination
  by (relation "measure (\<lambda>(p, name, cancel, clock, fn, a, e, tx). nat (MaxAttempts p + 1 - int a))") auto

declare task_retry.simps [simp del]

definition executeWithRetry ::
  "RetryPolicy \<Rightarrow> string \<Rightarrow> (nat \<Rightarrow> gerr option) \<Rightarrow> (nat \<Rightarrow> int) \<Rightarrow> (nat \<Rightarrow> gval \<Rightarrow> call_result) \<Rightarrow> TaskContext \<Rightarrow> TaskContext \<times> call_result" where
  "executeWithRetry p name cancel clock fn tx = task_retry p name cancel clock fn 1 None tx"

text \<open>
  One call of a wrapped function: \<open>uuid\<close> names it, \<open>now\<close> is the time of its start, \<open>later\<close> the time when the output is stored. The task
  context is not handed to the function.
\<close>

record task_call =
  ca_uuid :: string
  ca_now :: int
  ca_later :: int
  ca_cancel :: "nat \<Rightarrow> gerr option"
  ca_clock :: "nat \<Rightarrow> int"

definition new_task_context :: "TaskDecorator \<Rightarrow> task_call \<Rightarrow> gval \<Rightarrow> TaskContext" where
  "new_task_context d ca input =
     \<lparr>tx_Name = td_name d, tx_ID = ca_uuid ca, tx_Input = input, tx_Output = GNil, tx_Error = None, tx_Attempt = 0,
      tx_Metadata = td_metadata d, tx_Start = ca_now ca, tx_End = None\<rparr>"

definition keep_output :: "golib \<Rightarrow> int \<Rightarrow> gval \<Rightarrow> call_result \<Rightarrow> TaskDecorator \<Rightarrow> TaskDecorator" where
  "keep_output L now input r d =
     (case (r, td_cachePolicy d) of (Ret output None, Some policy) \<Rightarrow> setCached L policy now input output d | _ \<Rightarrow> d)"

definition Wrap ::
  "golib \<Rightarrow> (nat \<Rightarrow> gval \<Rightarrow> call_result) \<Rightarrow> task_call \<Rightarrow> gval \<Rightarrow> TaskDecorator \<Rightarrow> TaskDecorator \<times> call_result" where
  "Wrap L fn ca input d =
     (let tx = new_task_context d ca input;
          (d1, cached) = (case td_cachePolicy d of None \<Rightarrow> (d, None) | Some policy \<Rightarrow> getCached L policy (ca_now ca) input d)
      in case cached of
           Some v \<Rightarrow> (d1, Ret v None)
         | None \<Rightarrow>
             (case td_retryPolicy d1 of
                Some p \<Rightarrow>
                  (case executeWithRetry p (td_name d1) (ca_cancel ca) (ca_clock ca) fn tx of
                     (tx', r) \<Rightarrow> (keep_output L (ca_later ca) input r d1, r))
              | None \<Rightarrow> (let r = fn 1 input in (keep_output L (ca_later ca) input r d1, r))))"

definition Retryable_decorator :: "string \<Rightarrow> int \<Rightarrow> 64 word \<Rightarrow> TaskDecorator" where
  "Retryable_decorator uuid maxAttempts backoffFactor =
     NewDecorator uuid [WithRetryPolicy (Some (DefaultRetryPolicy\<lparr>MaxAttempts := maxAttempts, BackoffFactor := backoffFactor\<rparr>))]"

definition Cached_decorator :: "string \<Rightarrow> int \<Rightarrow> TaskDecorator" where
  "Cached_decorator uuid ttl = NewDecorator uuid [WithCachePolicy (Some \<lparr>CpKeyFunc = None, CpTTL = Some ttl\<rparr>)]"

definition Named_decorator :: "string \<Rightarrow> string \<Rightarrow> TaskDecorator" where
  "Named_decorator uuid name = NewDecorator uuid [WithName name]"

text \<open>\<open>Compose\<close>: the last decorator is applied first.\<close>

definition Compose :: "('f \<Rightarrow> 'f) list \<Rightarrow> 'f \<Rightarrow> 'f" where
  "Compose decorators fn = fold (\<lambda>dec f. dec f) (rev decorators) fn"


section \<open>Caching and retrying\<close>

definition te_holds :: "tCacheEntry gomap \<Rightarrow> string \<Rightarrow> gval \<Rightarrow> bool" where
  "te_holds m k v \<longleftrightarrow> (\<exists>e. mget m k = Some e \<and> te_value e = v)"

interpretation task_cache: output_cache "[]" "task_cache_get ttl" "\<lambda>now m k v t. task_cache_set ttl later m k v" te_holds for ttl later
proof
  show "\<not> te_holds [] k v" for k v by (simp add: te_holds_def)
  show "te_holds m k v" if "task_cache_get ttl now m k = (m', Some v)" for now m k m' v
    using that by (auto simp: task_cache_get_def te_holds_def split: option.splits if_splits)
  show "te_holds m k' v" if "task_cache_get ttl now m k = (m', x)" "te_holds m' k' v" for now m k m' x k' v
    using that by (auto simp: task_cache_get_def te_holds_def gomap split: option.splits if_splits)
  show "(k' = k \<and> v = w) \<or> te_holds m k' v" if "te_holds (task_cache_set ttl later m k w) k' v" for m k w k' v
    using that by (auto simp: task_cache_set_def te_holds_def gomap split: if_splits)
qed

text \<open>What the attempts of one call come to without the cache.\<close>

definition attempts :: "TaskDecorator \<Rightarrow> (nat \<Rightarrow> gval \<Rightarrow> call_result) \<Rightarrow> task_call \<Rightarrow> gval \<Rightarrow> call_result" where
  "attempts d fn ca input =
     (case td_retryPolicy d of
        None \<Rightarrow> fn 1 input
      | Some p \<Rightarrow> snd (executeWithRetry p (td_name d) (ca_cancel ca) (ca_clock ca) fn (new_task_context d ca input)))"

lemma attempts_cache [simp]: "attempts (d\<lparr>td_cache := m\<rparr>) fn ca input = attempts d fn ca input"
  by (simp add: attempts_def new_task_context_def split: option.splits)

definition call_res :: "call_result \<Rightarrow> gval res" where
  "call_res r = (case r of Ret out None \<Rightarrow> Inr out | Ret out (Some e) \<Rightarrow> Inl e | Panics v \<Rightarrow> Inl (GoPanic ''node function''))"

lemma call_res_Ret [simp]: "call_res (Ret out None) = Inr out" "call_res (Ret out (Some e)) = Inl e"
  by (simp_all add: call_res_def)

lemma call_res_Inr [simp]: "call_res r = Inr v \<longleftrightarrow> r = Ret v None"
  by (auto simp: call_res_def split: call_result.splits option.splits)

definition by_task_key :: "golib \<Rightarrow> CachePolicy \<Rightarrow> CachePolicy" where
  "by_task_key L policy = policy\<lparr>CpKeyFunc := Some (task_cache_key L)\<rparr>"

lemma cache_key_task [simp]: "cache_key L (Some (by_task_key L policy)) node = task_cache_key L"
  by (simp add: cache_key_def by_task_key_def fun_eq_iff)

lemma Inr_call_res [simp]: "Inr v = call_res r \<longleftrightarrow> r = Ret v None"
  using call_res_Inr [of r v] by metis

text \<open>A call is an execution over the cache, under the key of the decorator.\<close>

lemma Wrap_executes:
  assumes "td_cachePolicy d = Some policy" and "Wrap L fn ca x d = (d', r)"
    and "\<forall>y. call_res (attempts d fn ca y) = f y"
  obtains m where "d' = d\<lparr>td_cache := m\<rparr>" and "r = attempts d fn ca x \<or> (\<exists>v. r = Ret v None)"
    and "Cached_Execute (task_cache_get (CpTTL policy)) (\<lambda>now m k v t. task_cache_set (CpTTL policy) (ca_later ca) m k v) L
           (Some (by_task_key L policy)) (ca_now ca) (td_cache d) node x f = (m, call_res r)"
proof -
  let ?k = "task_cache_key L x"
  obtain m1 a where g: "task_cache_get (CpTTL policy) (ca_now ca) (td_cache d) ?k = (m1, a)" by (cases "task_cache_get (CpTTL policy) (ca_now ca) (td_cache d) ?k")
  let ?d1 = "d\<lparr>td_cache := m1\<rparr>"
  have read: "getCached L policy (ca_now ca) x d = (?d1, a)" by (simp add: getCached_def g)
  show ?thesis
  proof (cases a)
    case (Some v)
    with assms(1,2) read have "d' = ?d1 \<and> r = Ret v None" by (simp add: Wrap_def)
    with Some g show ?thesis by (intro that [of m1]) (simp_all add: Cached_Execute_def Let_def call_res_def)
  next
    case None
    let ?r = "attempts d fn ca x"
    have e: "d' = keep_output L (ca_later ca) x ?r ?d1 \<and> r = ?r"
      using assms(1,2) read None by (auto simp: Wrap_def attempts_def Let_def new_task_context_def split: option.splits prod.splits)
    have x: "f x = call_res ?r" using assms(3) by simp
    show ?thesis
    proof (cases "f x")
      case (Inl err)
      then have "keep_output L (ca_later ca) x ?r ?d1 = ?d1" using x by (auto simp: keep_output_def call_res_def split: call_result.splits option.splits)
      with e None g Inl x show ?thesis by (intro that [of m1]) (simp_all add: Cached_Execute_def Let_def)
    next
      case (Inr w)
      with x have "?r = Ret w None" by simp
      with e None g Inr x assms(1) show ?thesis
        by (intro that [of "task_cache_set (CpTTL policy) (ca_later ca) m1 ?k w"]) (simp_all add: keep_output_def setCached_def Cached_Execute_def Let_def)
    qed
  qed
qed

fun wrapped_calls :: "golib \<Rightarrow> (nat \<Rightarrow> gval \<Rightarrow> call_result) \<Rightarrow> TaskDecorator \<Rightarrow> (task_call \<times> gval) list \<Rightarrow> call_result list" where
  "wrapped_calls L fn d [] = []"
| "wrapped_calls L fn d ((ca, x) # calls) = (case Wrap L fn ca x d of (d', r) \<Rightarrow> r # wrapped_calls L fn d' calls)"

lemma wrapped_calls_faithful:
  assumes "td_cachePolicy d = Some policy" and "task_cache.faithful L (Some (by_task_key L policy)) [] (\<lambda>x. call_res (g x)) A (td_cache d)"
    and "snd ` set calls \<subseteq> A" and "inj_on (task_cache_key L) A" and "\<forall>(ca, x) \<in> set calls. \<forall>y. attempts d fn ca y = g y"
  shows "wrapped_calls L fn d calls = map (\<lambda>(ca, x). g x) calls"
  using assms
proof (induction calls arbitrary: d)
  case (Cons c calls)
  obtain ca x where c: "c = (ca, x)" by (cases c)
  obtain d' r where w: "Wrap L fn ca x d = (d', r)" by (cases "Wrap L fn ca x d")
  have all: "attempts d fn ca y = g y" for y using Cons.prems(5) c by auto
  obtain m where d': "d' = d\<lparr>td_cache := m\<rparr>" and r: "r = attempts d fn ca x \<or> (\<exists>v. r = Ret v None)"
    and ex: "Cached_Execute (task_cache_get (CpTTL policy)) (\<lambda>now m k v t. task_cache_set (CpTTL policy) (ca_later ca) m k v) L
           (Some (by_task_key L policy)) (ca_now ca) (td_cache d) [] x (\<lambda>x. call_res (g x)) = (m, call_res r)"
    by (rule Wrap_executes [OF Cons.prems(1) w, of "\<lambda>x. call_res (g x)" "[]"]) (simp_all add: all)
  have "x \<in> A" using Cons.prems(3) c by simp
  note ok = task_cache.execute_faithful [OF Cons.prems(2) this _ ex]
  have f: "task_cache.faithful L (Some (by_task_key L policy)) [] (\<lambda>x. call_res (g x)) A m" and res: "call_res r = call_res (g x)"
    using ok Cons.prems(4) by simp_all
  have "r = g x"
  proof (cases "r = attempts d fn ca x")
    case False
    with r obtain v where v: "r = Ret v None" by blast
    then have "call_res r = Inr v" by simp
    with res have "call_res (g x) = Inr v" by metis
    with v show ?thesis by simp
  qed (simp add: all)
  moreover have "wrapped_calls L fn d' calls = map (\<lambda>(ca, x). g x) calls"
    using Cons.prems f d' by (intro Cons.IH) auto
  ultimately show ?case using c w by simp
qed simp

text \<open>C?: Decorated calls. Whatever the attempts, the time to live and the times, a sequence of calls of a caching decorator returns what the calls
  would return without the cache, if the printed forms of the inputs have different digests. Of two inputs that print alike the second
  gets the output of the first, also if the cache policy has a key function that tells them apart, which is never called.\<close>

theorem decorated_calls:
  assumes "td_cachePolicy d = Some policy" and "td_cache d = []" and "inj_on (task_cache_key L) (snd ` set calls)"
    and "\<forall>(ca, x) \<in> set calls. \<forall>y. attempts d fn ca y = g y"
  shows "wrapped_calls L fn d calls = map (\<lambda>(ca, x). g x) calls \<and>
    (fmt_v L x = fmt_v L y \<and> attempts d fn ca x = Ret v None \<and> (\<forall>t. CpTTL policy = Some t \<longrightarrow> ca_now ca' < ca_later ca + t) \<longrightarrow>
       wrapped_calls L fn d [(ca, x), (ca', y)] = [Ret v None, Ret v None])"
proof (intro conjI impI; (elim conjE)?)
  show "wrapped_calls L fn d calls = map (\<lambda>(ca, x). g x) calls"
    using assms task_cache.new_faithful by (intro wrapped_calls_faithful) auto
next
  assume eq: "fmt_v L x = fmt_v L y" and v: "attempts d fn ca x = Ret v None" and t: "\<forall>t. CpTTL policy = Some t \<longrightarrow> ca_now ca' < ca_later ca + t"
  let ?d = "d\<lparr>td_cache := task_cache_set (CpTTL policy) (ca_later ca) [] (task_cache_key L x) v\<rparr>"
  have same: "task_cache_key L y = task_cache_key L x" using eq by (simp add: task_cache_key_def)
  have miss: "getCached L policy (ca_now ca) x d = (d, None)" using assms(2) by (simp add: getCached_def task_cache_get_def)
  have "Wrap L fn ca x d = (?d, Ret v None)"
    using assms(1,2) v miss
    by (cases "td_retryPolicy d") (auto simp: Wrap_def attempts_def Let_def keep_output_def setCached_def split: prod.splits)
  moreover have "getCached L policy (ca_now ca') y ?d = (?d, Some v)"
    using t same by (cases "CpTTL policy") (simp_all add: getCached_def task_cache_get_def task_cache_set_def)
  then have "Wrap L fn ca' y ?d = (?d, Ret v None)" using assms(1) by (simp add: Wrap_def)
  ultimately show "wrapped_calls L fn d [(ca, x), (ca', y)] = [Ret v None, Ret v None]" by simp
qed


lemma retry_interrupt:
  "fn a = Ret out (Some (GraphInterrupt is)) \<Longrightarrow> int a \<le> MaxAttempts p \<Longrightarrow> retry_loop p cancel node fn a le lo = Inl (GraphInterrupt is)"
  by (subst retry_loop.simps) (simp add: IsGraphInterrupt_def)

lemma task_retry_next:
  "int a < MaxAttempts p \<Longrightarrow> fn a (tx_Input tx) = Ret o1 (Some err) \<Longrightarrow> \<not> (case RetryOn p of Some f \<Rightarrow> \<not> f err | None \<Rightarrow> False) \<Longrightarrow>
   cancel a = None \<Longrightarrow>
   task_retry p name cancel clock fn a le tx = task_retry p name cancel clock fn (Suc a) (Some err) (tx\<lparr>tx_Attempt := int a\<rparr>)"
  by (subst task_retry.simps) (auto simp: Let_def)

text \<open>The decorator's loop and the one of the engine (\<open>Retry_Execute\<close>).\<close>

lemma retry_agrees:
  assumes "\<And>k out is. a \<le> k \<Longrightarrow> fn k (tx_Input tx) \<noteq> Ret out (Some (GraphInterrupt is))"
  shows "(\<exists>tx'. task_retry p name cancel clock fn a le tx = (tx', Ret out None)) \<longleftrightarrow>
    retry_loop p cancel node (\<lambda>k. fn k (tx_Input tx)) a le' lo = Inr out"
  using assms
proof (induction p name cancel clock fn a le tx arbitrary: le' lo rule: task_retry.induct)
  case (1 p name cancel clock fn a le tx)
  show ?case
  proof (cases "int a \<le> MaxAttempts p")
    case True
    show ?thesis
    proof (cases "fn a (tx_Input tx)")
      case (Ret o1 e1)
      show ?thesis
      proof (cases e1)
        case None
        with True Ret show ?thesis by (subst task_retry.simps, subst retry_loop.simps) auto
      next
        case (Some err)
        have ni: "\<not> IsGraphInterrupt (Some err)"
          using "1.prems" [of a o1] Ret Some by (cases err) (auto simp: IsGraphInterrupt_def)
        show ?thesis
        proof (cases "(case RetryOn p of Some f \<Rightarrow> \<not> f err | None \<Rightarrow> False) \<or> int a \<ge> MaxAttempts p \<or> cancel a \<noteq> None")
          case True
          with Ret Some ni \<open>int a \<le> MaxAttempts p\<close> show ?thesis
            by (subst task_retry.simps, subst retry_loop.simps) (auto simp: Let_def split: option.splits)
        next
          case False
          let ?tx = "tx\<lparr>tx_Attempt := int a\<rparr>"
          have step: "task_retry p name cancel clock fn a le tx = task_retry p name cancel clock fn (Suc a) (Some err) ?tx"
            using False Ret Some by (intro task_retry_next) auto
          have step': "retry_loop p cancel node (\<lambda>k. fn k (tx_Input tx)) a le' lo =
              retry_loop p cancel node (\<lambda>k. fn k (tx_Input tx)) (Suc a) (Some err) o1"
            using False Ret Some True ni by (subst retry_loop.simps) auto
          have "(\<exists>tx'. task_retry p name cancel clock fn (Suc a) (Some err) ?tx = (tx', Ret out None)) \<longleftrightarrow>
              retry_loop p cancel node (\<lambda>k. fn k (tx_Input ?tx)) (Suc a) (Some err) o1 = Inr out"
            using False Ret Some True "1.prems" by (intro "1.IH") auto
          then show ?thesis by (simp add: step step')
        qed
      qed
    next
      case (Panics v)
      with True show ?thesis by (subst task_retry.simps, subst retry_loop.simps) (auto simp: Let_def)
    qed
  next
    case False
    then show ?thesis by (subst task_retry.simps, subst retry_loop.simps) (auto simp: Let_def)
  qed
qed

lemma task_retry_error:
  "task_retry p name cancel clock fn a le tx = (tx', Ret out (Some e)) \<Longrightarrow>
   out = GNil \<and> ((\<exists>k. cancel k = Some e) \<or> (\<exists>t es. e = Errorf t es))"
proof (induction p name cancel clock fn a le tx rule: task_retry.induct)
  case (1 p name cancel clock fn a le tx)
  show ?case
  proof (cases "\<exists>o1 err. fn a (tx_Input tx) = Ret o1 (Some err) \<and> \<not> (case RetryOn p of Some f \<Rightarrow> \<not> f err | None \<Rightarrow> False) \<and>
      int a < MaxAttempts p \<and> cancel a = None")
    case True
    then obtain o1 err where go: "fn a (tx_Input tx) = Ret o1 (Some err)" "\<not> (case RetryOn p of Some f \<Rightarrow> \<not> f err | None \<Rightarrow> False)"
      "int a < MaxAttempts p" "cancel a = None" by blast
    have "task_retry p name cancel clock fn (Suc a) (Some err) (tx\<lparr>tx_Attempt := int a\<rparr>) = (tx', Ret out (Some e))"
      using "1.prems" task_retry_next [of a p fn tx o1 err cancel name clock le] go by simp
    then show ?thesis using go by (intro "1.IH") auto
  next
    case False
    with "1.prems" show ?thesis
      by (subst (asm) task_retry.simps) (auto simp: Let_def split: if_splits call_result.splits option.splits)
  qed
qed


text \<open>When the decorator calls the function again after attempt \<open>k\<close>, which gave \<open>r\<close>, and what it returns when it does not.\<close>

definition repeats :: "RetryPolicy \<Rightarrow> (nat \<Rightarrow> gerr option) \<Rightarrow> nat \<Rightarrow> call_result \<Rightarrow> bool" where
  "repeats p cancel k r \<longleftrightarrow>
     int k < MaxAttempts p \<and> cancel k = None \<and> (\<exists>out err. r = Ret out (Some err) \<and> (\<forall>f. RetryOn p = Some f \<longrightarrow> f err))"

definition last_attempt :: "RetryPolicy \<Rightarrow> string \<Rightarrow> (nat \<Rightarrow> gerr option) \<Rightarrow> nat \<Rightarrow> call_result \<Rightarrow> call_result" where
  "last_attempt p name cancel k r =
     (case r of
        Ret out (Some err) \<Rightarrow>
          Ret GNil (Some (if \<exists>f. RetryOn p = Some f \<and> \<not> f err then Errorf (''task '' @ name @ '' failed with non-retryable error: %w'') [err]
                          else if int k \<ge> MaxAttempts p then Errorf (''task '' @ name @ '' failed after %d attempts: %w'') [err]
                          else the (cancel k)))
      | _ \<Rightarrow> r)"

lemma task_retry_final:
  assumes "int a \<le> MaxAttempts p" and "\<not> repeats p cancel a (fn a (tx_Input tx))"
  shows "snd (task_retry p name cancel clock fn a le tx) = last_attempt p name cancel a (fn a (tx_Input tx))"
  using assms by (subst task_retry.simps) (auto simp: repeats_def last_attempt_def Let_def split: call_result.splits option.splits)

lemma task_retry_skip:
  "a \<le> b \<Longrightarrow> tx_Input tx = x \<Longrightarrow> (\<And>k. a \<le> k \<Longrightarrow> k < b \<Longrightarrow> repeats p cancel k (fn k x)) \<Longrightarrow>
   \<exists>le' tx'. tx_Input tx' = x \<and> task_retry p name cancel clock fn a le tx = task_retry p name cancel clock fn b le' tx'"
proof (induction "b - a" arbitrary: a le tx)
  case 0
  then show ?case by auto
next
  case (Suc n)
  then have "a < b" and rep: "repeats p cancel a (fn a x)" by auto
  then obtain o1 err where "int a < MaxAttempts p" "cancel a = None" "fn a x = Ret o1 (Some err)" "\<forall>f. RetryOn p = Some f \<longrightarrow> f err"
    by (auto simp: repeats_def)
  then have "task_retry p name cancel clock fn a le tx = task_retry p name cancel clock fn (Suc a) (Some err) (tx\<lparr>tx_Attempt := int a\<rparr>)"
    using Suc.prems(2) by (intro task_retry_next) (auto split: option.split)
  with Suc.hyps(1) [of "Suc a" "tx\<lparr>tx_Attempt := int a\<rparr>" "Some err"] Suc.hyps(2) Suc.prems \<open>a < b\<close> show ?case by auto
qed

lemma first_without_repeat:
  assumes "1 \<le> MaxAttempts p"
  shows "\<exists>a. 1 \<le> a \<and> int a \<le> MaxAttempts p \<and> (\<forall>k. 1 \<le> k \<and> k < a \<longrightarrow> repeats p cancel k (f k)) \<and> \<not> repeats p cancel a (f a)"
proof -
  let ?P = "\<lambda>a. 1 \<le> a \<and> \<not> repeats p cancel a (f a)"
  have ex: "?P (nat (MaxAttempts p))" using assms by (simp add: repeats_def)
  define a where "a = (LEAST a. ?P a)"
  have a: "?P a" unfolding a_def by (rule LeastI) (rule ex)
  have le: "a \<le> k" if "?P k" for k unfolding a_def by (rule Least_le) (rule that)
  have "int a \<le> MaxAttempts p" using le [OF ex] assms by linarith
  moreover have "repeats p cancel k (f k)" if "1 \<le> k" "k < a" for k using le [of k] that by fastforce
  ultimately show ?thesis using a by blast
qed

text \<open>C20: Retries of decorated tasks. As long as no attempt interrupts, a decorated task succeeds with an output exactly when the engine's own retry loop
  would. But the decorator does not know interrupts: where the engine passes the interrupt of the first attempt on, the decorated task calls
  the function again, and however it fails, its error is no interrupt. Exactly: the function is called again after every error that
  passes the filter of the policy, an interrupt included, while attempts are left and the context is not done; the task returns
  the output of the first attempt after which it is not, or that attempt's error wrapped, or the error of the context.\<close>

theorem decorator_retry:
  shows "((\<forall>k out items. fn k x \<noteq> Ret out (Some (GraphInterrupt items))) \<longrightarrow>
      (snd (executeWithRetry p name cancel clock fn (new_task_context d ca x)) = Ret out None \<longleftrightarrow>
       Retry_Execute p cancel node (\<lambda>k. fn k x) = Inr out)) \<and>
    (fn 1 x = Ret out (Some (GraphInterrupt items)) \<and> 1 \<le> MaxAttempts p \<longrightarrow> Retry_Execute p cancel node (\<lambda>k. fn k x) = Inl (GraphInterrupt items)) \<and>
    (snd (executeWithRetry p name cancel clock fn (new_task_context d ca x)) = Ret out (Some e) \<and> (\<forall>k. \<not> IsGraphInterrupt (cancel k)) \<longrightarrow>
      out = GNil \<and> \<not> IsGraphInterrupt (Some e)) \<and>
    (1 \<le> MaxAttempts p \<longrightarrow>
      (\<exists>a. 1 \<le> a \<and> int a \<le> MaxAttempts p \<and> (\<forall>k. 1 \<le> k \<and> k < a \<longrightarrow> repeats p cancel k (fn k x)) \<and> \<not> repeats p cancel a (fn a x) \<and>
        snd (executeWithRetry p name cancel clock fn (new_task_context d ca x)) = last_attempt p name cancel a (fn a x)))"
proof (intro conjI impI; (elim conjE)?)
  let ?tx = "new_task_context d ca x"
  obtain tx' r where e: "executeWithRetry p name cancel clock fn ?tx = (tx', r)" by (cases "executeWithRetry p name cancel clock fn ?tx")
  have x: "tx_Input ?tx = x" by (simp add: new_task_context_def)
  show "snd (executeWithRetry p name cancel clock fn ?tx) = Ret out None \<longleftrightarrow> Retry_Execute p cancel node (\<lambda>k. fn k x) = Inr out"
    if "\<forall>k out items. fn k x \<noteq> Ret out (Some (GraphInterrupt items))"
    using retry_agrees [of 1 fn ?tx p name cancel clock None out node None GNil] that e
    by (simp add: x Retry_Execute_def executeWithRetry_def)
  show "Retry_Execute p cancel node (\<lambda>k. fn k x) = Inl (GraphInterrupt items)" if "fn 1 x = Ret out (Some (GraphInterrupt items))" "1 \<le> MaxAttempts p"
    using that unfolding Retry_Execute_def by (intro retry_interrupt) simp_all
  show "\<exists>a. 1 \<le> a \<and> int a \<le> MaxAttempts p \<and> (\<forall>k. 1 \<le> k \<and> k < a \<longrightarrow> repeats p cancel k (fn k x)) \<and> \<not> repeats p cancel a (fn a x) \<and>
      snd (executeWithRetry p name cancel clock fn ?tx) = last_attempt p name cancel a (fn a x)" if one: "1 \<le> MaxAttempts p"
  proof -
    obtain a where a: "1 \<le> a" "int a \<le> MaxAttempts p" "\<forall>k. 1 \<le> k \<and> k < a \<longrightarrow> repeats p cancel k (fn k x)" "\<not> repeats p cancel a (fn a x)"
      using first_without_repeat [OF one, of cancel "\<lambda>k. fn k x"] by blast
    obtain le' tx2 where "tx_Input tx2 = x" "task_retry p name cancel clock fn 1 None ?tx = task_retry p name cancel clock fn a le' tx2"
      using task_retry_skip [OF a(1) x, of p cancel fn name clock None] a(3) by auto
    with a task_retry_final [of a p cancel fn tx2 name clock le'] show ?thesis by (auto simp: executeWithRetry_def)
  qed
  assume r: "snd (executeWithRetry p name cancel clock fn ?tx) = Ret out (Some e)" and c: "\<forall>k. \<not> IsGraphInterrupt (cancel k)"
  have "task_retry p name cancel clock fn 1 None ?tx = (tx', Ret out (Some e))" using r e by (simp add: executeWithRetry_def)
  from task_retry_error [OF this] have w: "out = GNil" "(\<exists>k. cancel k = Some e) \<or> (\<exists>t es. e = Errorf t es)" by blast+
  then show "out = GNil" by blast
  from w(2) show "\<not> IsGraphInterrupt (Some e)"
  proof (elim disjE exE)
    show ?thesis if "cancel k = Some e" for k using c that by metis
  qed (simp add: IsGraphInterrupt_def)
qed

section \<open>Entrypoints\<close>

record ExecutionContext =
  xc_Config :: "RunnableConfig option"
  xc_Previous :: gval
  xc_Store :: gval
  xc_Writer :: gval
  xc_Runtime :: "gval gomap"

text \<open>What is stored as the checkpointer, tested for the interface of checkpointers.\<close>

datatype 'cp entry_checkpointer = NoCheckpointer | IsCheckpointer 'cp | OtherValue gval

text \<open>A function of an entrypoint may change the world \<open>'w\<close>; it sees the execution context.\<close>

type_synonym 'w entry_fn = "ExecutionContext option \<Rightarrow> gval \<Rightarrow> 'w \<Rightarrow> 'w \<times> call_result"

record ('w, 'cp, 'g, 'cg) Entrypoint =
  ep_name :: string
  ep_fn :: "'w entry_fn"
  ep_metadata :: "gval gomap"
  ep_checkpointer :: "'cp entry_checkpointer"
  ep_store :: gval
  ep_configurable :: "gval gomap"
  ep_graph :: "'g option"
  ep_compiledGraph :: "'cg option"
  ep_compileOnce :: bool
  ep_compileErr :: "gerr option"

text \<open>The interfaces \<open>types.StateGraph\<close> and \<open>types.CompiledGraph\<close>. The channels of a stream are what is sent to them until they are closed.\<close>

record ('w, 'cp, 'g, 'cg) graph_ops =
  go_compile :: "'g \<Rightarrow> 'cp list \<Rightarrow> 'w \<Rightarrow> 'w \<times> 'cg option res"
  go_invoke :: "'cg \<Rightarrow> gval \<Rightarrow> RunnableConfig \<Rightarrow> 'w \<Rightarrow> 'w \<times> call_result"
  go_stream :: "'cg \<Rightarrow> gval \<Rightarrow> string \<Rightarrow> RunnableConfig \<Rightarrow> 'w \<Rightarrow> 'w \<times> gval list \<times> gerr option list"

type_synonym ('w, 'cp, 'g, 'cg) entry_option = "('w, 'cp, 'g, 'cg) Entrypoint \<Rightarrow> ('w, 'cp, 'g, 'cg) Entrypoint"

definition WithEntrypointCheckpointer :: "'cp entry_checkpointer \<Rightarrow> ('w, 'cp, 'g, 'cg) entry_option" where
  "WithEntrypointCheckpointer cp e = e\<lparr>ep_checkpointer := cp\<rparr>"

definition WithEntrypointStore :: "gval \<Rightarrow> ('w, 'cp, 'g, 'cg) entry_option" where
  "WithEntrypointStore st e = e\<lparr>ep_store := st\<rparr>"

definition WithEntrypointConfigurable :: "gval gomap \<Rightarrow> ('w, 'cp, 'g, 'cg) entry_option" where
  "WithEntrypointConfigurable configurable e = e\<lparr>ep_configurable := configurable\<rparr>"

definition WithEntrypointGraph :: "'g option \<Rightarrow> ('w, 'cp, 'g, 'cg) entry_option" where
  "WithEntrypointGraph g e = e\<lparr>ep_graph := g\<rparr>"

definition NewEntrypoint :: "string \<Rightarrow> 'w entry_fn \<Rightarrow> gval gomap option \<Rightarrow> ('w, 'cp, 'g, 'cg) Entrypoint" where
  "NewEntrypoint name fn metadata =
     \<lparr>ep_name = name, ep_fn = fn, ep_metadata = (case metadata of None \<Rightarrow> [] | Some m \<Rightarrow> m), ep_checkpointer = NoCheckpointer,
      ep_store = GNil, ep_configurable = [], ep_graph = None, ep_compiledGraph = None, ep_compileOnce = False, ep_compileErr = None\<rparr>"

definition NewEntrypointWithOptions ::
  "string \<Rightarrow> 'w entry_fn \<Rightarrow> gval gomap option \<Rightarrow> ('w, 'cp, 'g, 'cg) entry_option list \<Rightarrow> ('w, 'cp, 'g, 'cg) Entrypoint" where
  "NewEntrypointWithOptions name fn metadata opts = fold (\<lambda>opt e. opt e) opts (NewEntrypoint name fn metadata)"

definition Entry_Execute :: "('w, 'cp, 'g, 'cg) Entrypoint \<Rightarrow> ExecutionContext option \<Rightarrow> gval \<Rightarrow> 'w \<Rightarrow> 'w \<times> call_result" where
  "Entry_Execute e ctx input w = ep_fn e ctx input w"

definition compile_options :: "('w, 'cp, 'g, 'cg) Entrypoint \<Rightarrow> 'cp list" where
  "compile_options e = (case ep_checkpointer e of IsCheckpointer cp \<Rightarrow> [cp] | _ \<Rightarrow> [])"

definition no_graph :: gerr where "no_graph = Errorf ''no graph associated with entrypoint'' []"

definition Entry_Compile ::
  "('w, 'cp, 'g, 'cg) graph_ops \<Rightarrow> ('w, 'cp, 'g, 'cg) Entrypoint \<Rightarrow> 'w \<Rightarrow> (('w, 'cp, 'g, 'cg) Entrypoint \<times> 'w) \<times> gerr option" where
  "Entry_Compile ops e w =
     (if ep_compileOnce e then ((e, w), ep_compileErr e)
      else let e1 = e\<lparr>ep_compileOnce := True\<rparr>
           in case ep_graph e of
                None \<Rightarrow> ((e1\<lparr>ep_compileErr := Some no_graph\<rparr>, w), Some no_graph)
              | Some g \<Rightarrow>
                  (case go_compile ops g (compile_options e) w of
                     (w1, Inl err) \<Rightarrow> ((e1\<lparr>ep_compileErr := Some err\<rparr>, w1), Some err)
                   | (w1, Inr cg) \<Rightarrow> ((e1\<lparr>ep_compiledGraph := cg\<rparr>, w1), ep_compileErr e1)))"

text \<open>The configuration of a call: the values of the entrypoint overwrite those of the caller, in the caller's configuration itself.\<close>

definition entry_configured :: "('w, 'cp, 'g, 'cg) Entrypoint \<Rightarrow> RunnableConfig option \<Rightarrow> RunnableConfig" where
  "entry_configured e config = fold (\<lambda>(k, v) c. Config_Set k v c) (ep_configurable e) (EnsureConfig config)"

definition Entry_Invoke ::
  "('w, 'cp, 'g, 'cg) graph_ops \<Rightarrow> ExecutionContext option \<Rightarrow> gval \<Rightarrow> RunnableConfig option \<Rightarrow> ('w, 'cp, 'g, 'cg) Entrypoint \<Rightarrow> 'w \<Rightarrow>
   (('w, 'cp, 'g, 'cg) Entrypoint \<times> 'w \<times> RunnableConfig option) \<times> call_result" where
  "Entry_Invoke ops ctx input config e w =
     (case Entry_Compile ops e w of
        ((e1, w1), Some err) \<Rightarrow> ((e1, w1, config), Ret GNil (Some err))
      | ((e1, w1), None) \<Rightarrow>
          (let c = entry_configured e1 config;
               (w2, r) = (case ep_compiledGraph e1 of Some cg \<Rightarrow> go_invoke ops cg input c w1 | None \<Rightarrow> Entry_Execute e1 ctx input w1)
           in ((e1, w2, map_option (\<lambda>x. c) config), r)))"

definition batch_failed :: "gerr \<Rightarrow> gerr" where
  "batch_failed err = Errorf ''batch invocation failed at index %d: %w'' [err]"

text \<open>The results so far come first.\<close>

fun entry_batch ::
  "('w, 'cp, 'g, 'cg) graph_ops \<Rightarrow> ExecutionContext option \<Rightarrow> gval list \<Rightarrow> gval list \<Rightarrow> RunnableConfig option \<Rightarrow> ('w, 'cp, 'g, 'cg) Entrypoint \<Rightarrow> 'w \<Rightarrow>
   (('w, 'cp, 'g, 'cg) Entrypoint \<times> 'w) \<times> gval list res" where
  "entry_batch ops ctx results [] config e w = ((e, w), Inr results)"
| "entry_batch ops ctx results (x # xs) config e w =
     (case Entry_Invoke ops ctx x config e w of
        ((e1, w1, config1), Ret output None) \<Rightarrow> entry_batch ops ctx (results @ [output]) xs config1 e1 w1
      | ((e1, w1, config1), Ret output (Some err)) \<Rightarrow> ((e1, w1), Inl (batch_failed err))
      | ((e1, w1, config1), Panics v) \<Rightarrow> ((e1, w1), Inl (GoPanic ''node function'')))"

definition Entry_Batch ::
  "('w, 'cp, 'g, 'cg) graph_ops \<Rightarrow> ExecutionContext option \<Rightarrow> gval list \<Rightarrow> RunnableConfig option \<Rightarrow> ('w, 'cp, 'g, 'cg) Entrypoint \<Rightarrow> 'w \<Rightarrow>
   (('w, 'cp, 'g, 'cg) Entrypoint \<times> 'w) \<times> gval list res" where
  "Entry_Batch ops ctx inputs config e w = entry_batch ops ctx [] inputs config e w"

text \<open>The goroutine of \<open>Stream\<close> waits once, for whichever comes first: the value channel, the error channel or the end of the context.\<close>

datatype stream_pick = PickValue | PickError | PickDone

definition entry_forward :: "stream_pick \<Rightarrow> gval list \<Rightarrow> gerr option list \<Rightarrow> gval res list" where
  "entry_forward pick outs errs =
     (case pick of
        PickValue \<Rightarrow> (case outs of v # vs \<Rightarrow> [Inr v] | [] \<Rightarrow> [])
      | PickError \<Rightarrow> (case errs of Some err # es \<Rightarrow> [Inl err] | _ \<Rightarrow> [])
      | PickDone \<Rightarrow> [])"

definition Entry_Stream ::
  "('w, 'cp, 'g, 'cg) graph_ops \<Rightarrow> stream_pick \<Rightarrow> ExecutionContext option \<Rightarrow> gval \<Rightarrow> RunnableConfig option \<Rightarrow> string \<Rightarrow>
   ('w, 'cp, 'g, 'cg) Entrypoint \<Rightarrow> 'w \<Rightarrow> (('w, 'cp, 'g, 'cg) Entrypoint \<times> 'w \<times> RunnableConfig option) \<times> gval res list res" where
  "Entry_Stream ops pick ctx input config mode e w =
     (case Entry_Compile ops e w of
        ((e1, w1), Some err) \<Rightarrow> ((e1, w1, config), Inl err)
      | ((e1, w1), None) \<Rightarrow>
          (let c = entry_configured e1 config; config1 = map_option (\<lambda>x. c) config
           in case ep_compiledGraph e1 of
                Some cg \<Rightarrow> (case go_stream ops cg input mode c w1 of (w2, outs, errs) \<Rightarrow> ((e1, w2, config1), Inr (entry_forward pick outs errs)))
              | None \<Rightarrow>
                  (case Entry_Execute e1 ctx input w1 of
                     (w2, Ret output None) \<Rightarrow> ((e1, w2, config1), Inr [Inr output])
                   | (w2, Ret output (Some err)) \<Rightarrow> ((e1, w2, config1), Inl err)
                   | (w2, Panics v) \<Rightarrow> ((e1, w2, config1), Inl (GoPanic ''node function'')))))"

definition Final :: "gval \<Rightarrow> bool list \<Rightarrow> gval" where
  "Final v save =
     GPtr (GStruct ''EntrypointFinal'' [(''Value'', True, TAny, v), (''Save'', True, TBool, GBool (case save of [] \<Rightarrow> True | b # bs \<Rightarrow> b))])"

fun IsFinal :: "gval \<Rightarrow> (gval \<times> bool) option" where
  "IsFinal (GPtr (GStruct n [(f1, e1, t1, v), (f2, e2, t2, GBool b)])) = (if n = ''EntrypointFinal'' then Some (v, b) else None)"
| "IsFinal v = None"

definition GetFinalValue :: "gval \<Rightarrow> gval" where
  "GetFinalValue v = (case IsFinal v of Some (x, save) \<Rightarrow> x | None \<Rightarrow> v)"

definition InjectDependencies :: "'w entry_fn \<Rightarrow> ExecutionContext \<Rightarrow> 'w entry_fn" where
  "InjectDependencies fn execCtx ctx input w = fn (Some execCtx) input w"

definition Ctx_GetConfig :: "ExecutionContext option \<Rightarrow> RunnableConfig option" where
  "Ctx_GetConfig ctx = (case ctx of None \<Rightarrow> None | Some c \<Rightarrow> xc_Config c)"

definition Ctx_GetPrevious :: "ExecutionContext option \<Rightarrow> gval" where
  "Ctx_GetPrevious ctx = (case ctx of None \<Rightarrow> GNil | Some c \<Rightarrow> xc_Previous c)"

definition Ctx_GetStore :: "ExecutionContext option \<Rightarrow> gval" where
  "Ctx_GetStore ctx = (case ctx of None \<Rightarrow> GNil | Some c \<Rightarrow> xc_Store c)"

definition Ctx_GetWriter :: "ExecutionContext option \<Rightarrow> gval" where
  "Ctx_GetWriter ctx = (case ctx of None \<Rightarrow> GNil | Some c \<Rightarrow> xc_Writer c)"

definition InvokeWithDependencies ::
  "('w, 'cp, 'g, 'cg) graph_ops \<Rightarrow> ExecutionContext option \<Rightarrow> gval \<Rightarrow> RunnableConfig option \<Rightarrow> gval \<Rightarrow> gval \<Rightarrow> gval \<Rightarrow>
   ('w, 'cp, 'g, 'cg) Entrypoint \<Rightarrow> 'w \<Rightarrow> (('w, 'cp, 'g, 'cg) Entrypoint \<times> 'w \<times> RunnableConfig option) \<times> call_result" where
  "InvokeWithDependencies ops ctx input config previous st writer e w =
     (if ep_graph e \<noteq> None then Entry_Invoke ops ctx input config e w
      else let execCtx = \<lparr>xc_Config = config, xc_Previous = previous, xc_Store = (if st = GNil \<and> ep_store e \<noteq> GNil then ep_store e else st),
                          xc_Writer = writer, xc_Runtime = []\<rparr>
           in case InjectDependencies (ep_fn e) execCtx ctx input w of
                (w1, Ret result None) \<Rightarrow>
                  (case IsFinal result of
                     Some (v, save) \<Rightarrow> ((e, w1, config), Ret v None)
                   | None \<Rightarrow> ((e, w1, config), Ret result None))
              | (w1, Ret result (Some err)) \<Rightarrow> ((e, w1, config), Ret GNil (Some err))
              | (w1, Panics v) \<Rightarrow> ((e, w1, config), Panics v))"


lemma Config_Set_same: "Config_Get c k = Some v \<Longrightarrow> Config_Set k v c = c"
proof -
  have "mget m k = Some v \<Longrightarrow> mput k v m = m" for m by (induction m) (auto split: if_splits)
  then show "Config_Get c k = Some v \<Longrightarrow> Config_Set k v c = c"
    by (auto simp: Config_Get_def Config_Set_def Let_def split: option.splits)
qed

lemma fold_Set_same:
  "\<forall>(k, v) \<in> set m. Config_Get c k = Some v \<Longrightarrow> fold (\<lambda>(k, v) c. Config_Set k v c) m c = c"
  by (induction m) (auto simp: Config_Set_same)

lemma entry_configured_twice:
  assumes "gomap_ok (ep_configurable e)"
  shows "entry_configured e (Some (entry_configured e config)) = entry_configured e config"
proof -
  have "Config_Get (entry_configured e config) k = Some v" if "(k, v) \<in> set (ep_configurable e)" for k v
    using that assms by (simp add: entry_configured_def fold_Set_get map_add_def gomap_ok_def)
  then show ?thesis unfolding entry_configured_def EnsureConfig_def option.case by (intro fold_Set_same) (auto simp: entry_configured_def EnsureConfig_def)
qed

text \<open>What a batch is meant to be: the compiled graph invoked on each input, under one configuration, up to the first failure.\<close>

fun graph_batch ::
  "('w, 'cp, 'g, 'cg) graph_ops \<Rightarrow> 'cg \<Rightarrow> RunnableConfig \<Rightarrow> gval list \<Rightarrow> gval list \<Rightarrow> 'w \<Rightarrow> 'w \<times> gval list res" where
  "graph_batch ops cg c results [] w = (w, Inr results)"
| "graph_batch ops cg c results (x # xs) w =
     (case go_invoke ops cg x c w of
        (w1, Ret output None) \<Rightarrow> graph_batch ops cg c (results @ [output]) xs w1
      | (w1, Ret output (Some err)) \<Rightarrow> (w1, Inl (batch_failed err))
      | (w1, Panics v) \<Rightarrow> (w1, Inl (GoPanic ''node function'')))"

lemma invoke_compiled:
  assumes "ep_compileOnce e" and "ep_compileErr e = None" and "ep_compiledGraph e = Some cg"
  shows "Entry_Invoke ops ctx x config e w =
    (case go_invoke ops cg x (entry_configured e config) w of (w1, r) \<Rightarrow> ((e, w1, map_option (\<lambda>y. entry_configured e config) config), r))"
  using assms by (simp add: Entry_Invoke_def Entry_Compile_def Let_def)

lemma batch_compiled:
  assumes "ep_compileOnce e" and "ep_compileErr e = None" and "ep_compiledGraph e = Some cg" and "gomap_ok (ep_configurable e)"
  shows "entry_batch ops ctx results xs config e w =
    (case graph_batch ops cg (entry_configured e config) results xs w of (w1, r) \<Rightarrow> ((e, w1), r))"
proof (induction xs arbitrary: results config w)
  case (Cons x xs)
  obtain w1 r where g: "go_invoke ops cg x (entry_configured e config) w = (w1, r)" by (cases "go_invoke ops cg x (entry_configured e config) w")
  have c: "entry_configured e (map_option (\<lambda>y. entry_configured e config) config) = entry_configured e config"
    using entry_configured_twice [OF assms(4)] by (cases config) simp_all
  show ?case using Cons.IH [of _ "map_option (\<lambda>y. entry_configured e config) config"] assms(1-3) g
    by (simp add: invoke_compiled c split: call_result.splits option.splits)
qed simp

lemma invoke_compiles:
  assumes "\<not> ep_compileOnce e" and "ep_graph e = Some g" and "ep_compileErr e = None" and "go_compile ops g (compile_options e) w = (w1, Inr cg)"
  shows "Entry_Invoke ops ctx x config e w = Entry_Invoke ops ctx x config (e\<lparr>ep_compileOnce := True, ep_compiledGraph := cg\<rparr>) w1"
  using assms by (simp add: Entry_Invoke_def Entry_Compile_def Let_def)

text \<open>C21: Batches of an entrypoint. A batch of a new entrypoint with a graph compiles the graph once, with the checkpointer, and then invokes it on each input
  under the caller's configuration with the values of the entrypoint, up to the first failure. A failed compilation is remembered: every
  later invocation fails with it and does nothing. Without a graph every invocation fails, although a function was given: only the
  call with dependencies runs it, with its execution context, and unwraps a final value, which is never saved.\<close>

theorem entry_batches:
  assumes "\<not> ep_compileOnce e" and "ep_compileErr e = None" and "ep_compiledGraph e = None" and "gomap_ok (ep_configurable e)"
  shows "(ep_graph e = Some g \<and> go_compile ops g (compile_options e) w = (w1, Inr (Some cg)) \<longrightarrow>
      Entry_Batch ops ctx (x # xs) config e w =
        (case graph_batch ops cg (entry_configured e config) [] (x # xs) w1 of
           (w2, r) \<Rightarrow> ((e\<lparr>ep_compileOnce := True, ep_compiledGraph := Some cg\<rparr>, w2), r))) \<and>
    (ep_graph e = Some g \<and> go_compile ops g (compile_options e) w = (w1, Inl err) \<longrightarrow>
      Entry_Invoke ops ctx x config e w = ((e\<lparr>ep_compileOnce := True, ep_compileErr := Some err\<rparr>, w1, config), Ret GNil (Some err)) \<and>
      Entry_Invoke ops ctx x config (e\<lparr>ep_compileOnce := True, ep_compileErr := Some err\<rparr>) w' =
        ((e\<lparr>ep_compileOnce := True, ep_compileErr := Some err\<rparr>, w', config), Ret GNil (Some err))) \<and>
    (ep_graph e = None \<longrightarrow>
      snd (Entry_Invoke ops ctx x config e w) = Ret GNil (Some no_graph) \<and> fst (snd (fst (Entry_Invoke ops ctx x config e w))) = w \<and>
      (ep_fn e (Some \<lparr>xc_Config = config, xc_Previous = prev, xc_Store = (if st = GNil then ep_store e else st), xc_Writer = wr, xc_Runtime = []\<rparr>) x w
         = (w1, Ret v None) \<longrightarrow>
       InvokeWithDependencies ops ctx x config prev st wr e w = ((e, w1, config), Ret (GetFinalValue v) None)))"
proof (intro conjI impI; (elim conjE)?)
  assume g: "ep_graph e = Some g" "go_compile ops g (compile_options e) w = (w1, Inr (Some cg))"
  let ?e = "e\<lparr>ep_compileOnce := True, ep_compiledGraph := Some cg\<rparr>"
  have "Entry_Batch ops ctx (x # xs) config e w = entry_batch ops ctx [] (x # xs) config ?e w1"
    by (simp add: Entry_Batch_def invoke_compiles [OF assms(1) g(1) assms(2) g(2)])
  also have "\<dots> = (case graph_batch ops cg (entry_configured ?e config) [] (x # xs) w1 of (w2, r) \<Rightarrow> ((?e, w2), r))"
    using assms by (intro batch_compiled) simp_all
  also have "entry_configured ?e config = entry_configured e config" by (simp add: entry_configured_def)
  finally show "Entry_Batch ops ctx (x # xs) config e w = (case graph_batch ops cg (entry_configured e config) [] (x # xs) w1 of (w2, r) \<Rightarrow> ((?e, w2), r))" .
next
  assume "ep_graph e = None"
    "ep_fn e (Some \<lparr>xc_Config = config, xc_Previous = prev, xc_Store = (if st = GNil then ep_store e else st), xc_Writer = wr, xc_Runtime = []\<rparr>) x w = (w1, Ret v None)"
  moreover have "(if st = GNil \<and> ep_store e \<noteq> GNil then ep_store e else st) = (if st = GNil then ep_store e else st)" by auto
  ultimately show "InvokeWithDependencies ops ctx x config prev st wr e w = ((e, w1, config), Ret (GetFinalValue v) None)"
    by (simp add: InvokeWithDependencies_def InjectDependencies_def Let_def GetFinalValue_def split: option.splits prod.splits)
qed (use assms in \<open>simp_all add: Entry_Invoke_def Entry_Compile_def Let_def\<close>)

text \<open>A streamed entrypoint delivers at most one item.\<close>

lemma entry_stream_short: "length (entry_forward pick outs errs) \<le> 1"
  by (auto simp: entry_forward_def split: stream_pick.splits list.splits option.splits)


section \<open>The properties on concrete input\<close>

definition sample_call :: "int \<Rightarrow> task_call" where
  "sample_call t = \<lparr>ca_uuid = ''u'', ca_now = t, ca_later = t + 1, ca_cancel = (\<lambda>k. None), ca_clock = (\<lambda>k. t)\<rparr>"

text \<open>A library that prints a string as it is and everything else alike.\<close>

definition text_lib :: golib where
  "text_lib = sample_lib\<lparr>fmt_v := (\<lambda>v. case v of GStr s \<Rightarrow> s | _ \<Rightarrow> ''?'')\<rparr>"

definition sample_task :: "nat \<Rightarrow> gval \<Rightarrow> call_result" where
  "sample_task a x = Ret (GSlice [x]) None"

definition sample_decorator :: TaskDecorator where
  "sample_decorator = Cached_decorator ''u'' 100"

theorem decorated_calls_witness:
  "wrapped_calls text_lib sample_task sample_decorator [(sample_call 0, GStr ''a''), (sample_call 5, GStr ''b''), (sample_call 9, GStr ''a'')] =
     [Ret (GSlice [GStr ''a'']) None, Ret (GSlice [GStr ''b'']) None, Ret (GSlice [GStr ''a'']) None] \<and>
   wrapped_calls text_lib sample_task sample_decorator [(sample_call 0, GBool True), (sample_call 5, GBool False)] =
     [Ret (GSlice [GBool True]) None, Ret (GSlice [GBool True]) None]"
proof -
  let ?calls = "[(sample_call 0, GStr ''a''), (sample_call 5, GStr ''b''), (sample_call 9, GStr ''a'')]"
  let ?p = "\<lparr>CpKeyFunc = None, CpTTL = Some 100\<rparr>"
  have d: "td_cachePolicy sample_decorator = Some ?p" "td_cache sample_decorator = []" "td_retryPolicy sample_decorator = None"
    by (simp_all add: sample_decorator_def Cached_decorator_def NewDecorator_def WithCachePolicy_def)
  have inj: "inj_on (task_cache_key text_lib) (snd ` set ?calls)" by (auto simp: inj_on_def task_cache_key_def text_lib_def sample_lib_def)
  have all: "\<forall>(ca, x) \<in> set ?calls. \<forall>y. attempts sample_decorator sample_task ca y = Ret (GSlice [y]) None"
    by (simp add: attempts_def d sample_task_def)
  note th = decorated_calls [where d = sample_decorator and g = "\<lambda>y. Ret (GSlice [y]) None" and calls = ?calls, OF d(1,2) inj all]
  have "fmt_v text_lib (GBool True) = fmt_v text_lib (GBool False)" by (simp add: text_lib_def)
  then show ?thesis
    using th [of "GBool True" "GBool False" "sample_call 0" "GSlice [GBool True]" "sample_call 5"]
    by (simp add: attempts_def d sample_task_def sample_call_def del: wrapped_calls.simps)
qed

definition two_attempts :: RetryPolicy where
  "two_attempts = DefaultRetryPolicy\<lparr>MaxAttempts := 2, RetryOn := None\<rparr>"

definition second_try :: "nat \<Rightarrow> gval \<Rightarrow> call_result" where
  "second_try a x = (if a = 1 then Ret GNil (Some EmptyChannelError) else Ret x None)"

definition asks :: "nat \<Rightarrow> gval \<Rightarrow> call_result" where
  "asks a x = Ret GNil (Some (GraphInterrupt []))"

lemma two_attempts_simps [simp]: "MaxAttempts two_attempts = 2" "RetryOn two_attempts = None"
  by (simp_all add: two_attempts_def)

theorem decorator_retry_witness:
  "Retry_Execute two_attempts (\<lambda>k. None) ''n'' (\<lambda>k. second_try k (GStr ''a'')) = Inr (GStr ''a'') \<and>
   Retry_Execute two_attempts (\<lambda>k. None) ''n'' (\<lambda>k. asks k (GStr ''a'')) = Inl (GraphInterrupt []) \<and>
   snd (executeWithRetry two_attempts ''t'' (\<lambda>k. None) (\<lambda>k. 0) asks (new_task_context sample_decorator (sample_call 0) (GStr ''a''))) =
     Ret GNil (Some (Errorf ''task t failed after %d attempts: %w'' [GraphInterrupt []])) \<and>
   \<not> IsGraphInterrupt (Some (Errorf ''task t failed after %d attempts: %w'' [GraphInterrupt []]))"
proof -
  let ?tx = "new_task_context sample_decorator (sample_call 0) (GStr ''a'')"
  have x: "tx_Input ?tx = GStr ''a''" by (simp add: new_task_context_def)
  have ok: "snd (executeWithRetry two_attempts ''t'' (\<lambda>k. None) (\<lambda>k. 0) second_try ?tx) = Ret (GStr ''a'') None"
    unfolding executeWithRetry_def by (simp add: task_retry.simps [of two_attempts] second_try_def x Let_def numeral_2_eq_2)
  have bad: "snd (executeWithRetry two_attempts ''t'' (\<lambda>k. None) (\<lambda>k. 0) asks ?tx) =
      Ret GNil (Some (Errorf ''task t failed after %d attempts: %w'' [GraphInterrupt []]))"
    unfolding executeWithRetry_def by (simp add: task_retry.simps [of two_attempts] asks_def x Let_def numeral_2_eq_2)
  have "\<forall>k out is. second_try k (GStr ''a'') \<noteq> Ret out (Some (GraphInterrupt is))" by (simp add: second_try_def)
  with ok conjunct1 [OF decorator_retry [where fn = second_try and x = "GStr ''a''" and p = two_attempts and name = "''t''" and cancel = "\<lambda>k. None"
      and clock = "\<lambda>k. 0" and d = sample_decorator and ca = "sample_call 0" and out = "GStr ''a''" and node = "''n''"]]
  have 1: "Retry_Execute two_attempts (\<lambda>k. None) ''n'' (\<lambda>k. second_try k (GStr ''a'')) = Inr (GStr ''a'')" by blast
  note th = conjunct2 [OF decorator_retry [where fn = asks and x = "GStr ''a''" and p = two_attempts and name = "''t''" and cancel = "\<lambda>k. None"
      and clock = "\<lambda>k. 0" and d = sample_decorator and ca = "sample_call 0" and out = GNil and node = "''n''" and items = "[]"
      and e = "Errorf ''task t failed after %d attempts: %w'' [GraphInterrupt []]"]]
  have 2: "Retry_Execute two_attempts (\<lambda>k. None) ''n'' (\<lambda>k. asks k (GStr ''a'')) = Inl (GraphInterrupt [])"
    by (rule mp [OF conjunct1 [OF th]]) (simp add: asks_def)
  have "\<forall>k :: nat. \<not> IsGraphInterrupt None" by (simp add: IsGraphInterrupt_def)
  with bad conjunct1 [OF conjunct2 [OF th]] have 3: "\<not> IsGraphInterrupt (Some (Errorf ''task t failed after %d attempts: %w'' [GraphInterrupt []]))" by blast
  show ?thesis using 1 2 3 bad by blast
qed

text \<open>A world that counts: compiling adds ten, each invocation one; the input nil fails.\<close>

definition counting_ops :: "(nat, unit, string, string) graph_ops" where
  "counting_ops =
     \<lparr>go_compile = (\<lambda>g cps w. (w + 10, if g = ''bad'' then Inl (Errorf ''bad'' []) else Inr (Some g))),
      go_invoke = (\<lambda>cg x c w. (w + 1, if x = GNil then Ret GNil (Some EmptyChannelError) else Ret (GSlice [x]) None)),
      go_stream = (\<lambda>cg x mode c w. (w, [], []))\<rparr>"

definition sample_entry_fn :: "nat entry_fn" where
  "sample_entry_fn ctx x w = (w + 100, Ret (Final (Ctx_GetStore ctx) []) None)"

definition sample_entry :: "string option \<Rightarrow> (nat, unit, string, string) Entrypoint" where
  "sample_entry g = NewEntrypointWithOptions ''e'' sample_entry_fn None [WithEntrypointGraph g, WithEntrypointStore (GStr ''store'')]"

lemma sample_entry_simps [simp]:
  "\<not> ep_compileOnce (sample_entry g)" "ep_compileErr (sample_entry g) = None" "ep_compiledGraph (sample_entry g) = None"
  "ep_configurable (sample_entry g) = []" "ep_graph (sample_entry g) = g" "ep_store (sample_entry g) = GStr ''store''" "ep_fn (sample_entry g) = sample_entry_fn"
  by (simp_all add: sample_entry_def NewEntrypointWithOptions_def NewEntrypoint_def WithEntrypointGraph_def WithEntrypointStore_def)

theorem entry_batches_witness:
  "snd (Entry_Batch counting_ops None [GBool True, GNil, GBool False] None (sample_entry (Some ''g'')) 0) = Inl (batch_failed EmptyChannelError) \<and>
   snd (fst (Entry_Batch counting_ops None [GBool True, GNil, GBool False] None (sample_entry (Some ''g'')) 0)) = 12 \<and>
   snd (Entry_Invoke counting_ops None GNil None (sample_entry (Some ''bad'')) 0) = Ret GNil (Some (Errorf ''bad'' [])) \<and>
   snd (Entry_Invoke counting_ops None GNil None (sample_entry None) 0) = Ret GNil (Some no_graph) \<and>
   snd (InvokeWithDependencies counting_ops None GNil None GNil GNil GNil (sample_entry None) 0) = Ret (GStr ''store'') None"
proof -
  have c: "go_compile counting_ops ''g'' (compile_options (sample_entry (Some ''g''))) 0 = (10, Inr (Some ''g''))"
    "go_compile counting_ops ''bad'' (compile_options (sample_entry (Some ''bad''))) 0 = (10, Inl (Errorf ''bad'' []))"
    by (simp_all add: counting_ops_def)
  note th = entry_batches [OF sample_entry_simps(1,2,3), unfolded sample_entry_simps(4,5,6,7), OF gomap_ok_Nil, where ops = counting_ops]
  have 1: "Entry_Batch counting_ops None [GBool True, GNil, GBool False] None (sample_entry (Some ''g'')) 0 =
      (((sample_entry (Some ''g''))\<lparr>ep_compileOnce := True, ep_compiledGraph := Some ''g''\<rparr>, 12), Inl (batch_failed EmptyChannelError))"
    using conjunct1 [OF th] c(1) by (simp add: counting_ops_def)
  have 2: "snd (Entry_Invoke counting_ops None GNil None (sample_entry (Some ''bad'')) 0) = Ret GNil (Some (Errorf ''bad'' []))"
    using conjunct1 [OF conjunct2 [OF th]] c(2) by simp
  have 3: "snd (Entry_Invoke counting_ops None GNil None (sample_entry None) 0) = Ret GNil (Some no_graph)"
    using conjunct2 [OF conjunct2 [OF th]] by simp
  have 4: "InvokeWithDependencies counting_ops None GNil None GNil GNil GNil (sample_entry None) 0 =
      ((sample_entry None, 100, None), Ret (GetFinalValue (Final (GStr ''store'') [])) None)"
    using conjunct2 [OF conjunct2 [OF th]] by (simp add: sample_entry_fn_def Ctx_GetStore_def)
  show ?thesis using 1 2 3 4 by (simp add: GetFinalValue_def Final_def)
qed

end
