(* ===== verification/Runnables.thy ===== *)
theory Runnables
  imports State_Types Run_Config
begin

text \<open>
  Runnables (\<open>runnable/runnable.go\<close>): functions, sequences, parallel maps and transformations, the builder, and the coercion of Go functions. The
  functions of a runnable are given by their results; the order in which the results of a parallel runnable arrive is an argument,
  \<open>arrive\<close>, of the calls. A stream is what it delivers before it is closed, an error being a \<open>StreamError\<close>.
\<close>

section \<open>Runnables\<close>

record RunnableSchema =
  sc_InputType :: string
  sc_OutputType :: string
  sc_Name :: string
  sc_Description :: string

type_synonym rn_fn = "gval \<Rightarrow> gval \<times> gerr option"

record RunnableFunc =
  rf_fn :: rn_fn
  rf_schema :: RunnableSchema
  rf_batchFn :: "(gval list \<Rightarrow> gval list \<times> gerr option list) option"
  rf_streamFn :: "(gval \<Rightarrow> gval res list) option"

datatype runnable =
    RFunc RunnableFunc
  | RSeq "runnable list" RunnableSchema
  | RParallel "(string \<times> runnable) list" RunnableSchema
  | RMap "rn_fn option" "rn_fn option" runnable RunnableSchema

text \<open>The type name of the zero value of \<open>any\<close> is \<open><nil>\<close>.\<close>

definition Rn_NewFunc :: "rn_fn \<Rightarrow> (RunnableFunc \<Rightarrow> RunnableFunc) list \<Rightarrow> runnable" where
  "Rn_NewFunc fn opts =
     RFunc (fold (\<lambda>opt r. opt r) opts
       \<lparr>rf_fn = fn, rf_schema = \<lparr>sc_InputType = ''<nil>'', sc_OutputType = ''<nil>'', sc_Name = [], sc_Description = []\<rparr>,
        rf_batchFn = None, rf_streamFn = None\<rparr>)"

definition Rn_WithName :: "string \<Rightarrow> RunnableFunc \<Rightarrow> RunnableFunc" where
  "Rn_WithName name r = r\<lparr>rf_schema := (rf_schema r)\<lparr>sc_Name := name\<rparr>\<rparr>"

definition Rn_WithDescription :: "string \<Rightarrow> RunnableFunc \<Rightarrow> RunnableFunc" where
  "Rn_WithDescription desc r = r\<lparr>rf_schema := (rf_schema r)\<lparr>sc_Description := desc\<rparr>\<rparr>"

definition Rn_WithBatchFn :: "(gval list \<Rightarrow> gval list \<times> gerr option list) \<Rightarrow> RunnableFunc \<Rightarrow> RunnableFunc" where
  "Rn_WithBatchFn fn r = r\<lparr>rf_batchFn := Some fn\<rparr>"

definition Rn_WithStreamFn :: "(gval \<Rightarrow> gval res list) \<Rightarrow> RunnableFunc \<Rightarrow> RunnableFunc" where
  "Rn_WithStreamFn fn r = r\<lparr>rf_streamFn := Some fn\<rparr>"

primrec Rn_GetSchema :: "runnable \<Rightarrow> RunnableSchema" where
  "Rn_GetSchema (RFunc f) = rf_schema f"
| "Rn_GetSchema (RSeq rs sc) = sc"
| "Rn_GetSchema (RParallel ps sc) = sc"
| "Rn_GetSchema (RMap i ou r sc) = sc"

definition type_mismatch_error :: "string \<Rightarrow> string \<Rightarrow> gerr" where
  "type_mismatch_error a b = Errorf (''type mismatch: '' @ a @ '' -> '' @ b) []"

text \<open>The check of neighbours.\<close>

fun check_types :: "runnable list \<Rightarrow> gerr option" where
  "check_types (a # b # rs) =
     (if sc_OutputType (Rn_GetSchema a) \<noteq> sc_InputType (Rn_GetSchema b)
      then Some (type_mismatch_error (sc_OutputType (Rn_GetSchema a)) (sc_InputType (Rn_GetSchema b)))
      else check_types (b # rs))"
| "check_types rs = None"

definition Rn_NewSeq :: "runnable list \<Rightarrow> runnable res" where
  "Rn_NewSeq rs =
     (if rs = [] then Inl (Errorf ''at least one runnable is required'' [])
      else case check_types rs of
             Some err \<Rightarrow> Inl err
           | None \<Rightarrow> Inr (RSeq rs \<lparr>sc_InputType = sc_InputType (Rn_GetSchema (hd rs)), sc_OutputType = sc_OutputType (Rn_GetSchema (last rs)),
                                  sc_Name = ''sequence'', sc_Description = []\<rparr>))"

definition Rn_NewParallel :: "(string \<times> runnable) list \<Rightarrow> runnable" where
  "Rn_NewParallel ps = RParallel ps \<lparr>sc_InputType = ''map'', sc_OutputType = ''map'', sc_Name = ''parallel'', sc_Description = []\<rparr>"

definition Rn_NewMap :: "runnable \<Rightarrow> rn_fn option \<Rightarrow> rn_fn option \<Rightarrow> runnable" where
  "Rn_NewMap base inputFn outputFn = RMap inputFn outputFn base \<lparr>sc_InputType = [], sc_OutputType = [], sc_Name = ''map'', sc_Description = []\<rparr>"

text \<open>An optional transformation: the identity when it is nil.\<close>

definition transform :: "rn_fn option \<Rightarrow> rn_fn" where
  "transform f x = (case f of None \<Rightarrow> (x, None) | Some g \<Rightarrow> g x)"

text \<open>The loop of \<open>RunnableParallel.Invoke\<close> over the results as they arrive.\<close>

fun collect_parallel :: "(string \<times> gval \<times> gerr option) list \<Rightarrow> string list \<Rightarrow> gval gomap \<Rightarrow> gval \<times> gerr option" where
  "collect_parallel results [] outputs = (GMap outputs, None)"
| "collect_parallel results (n # ns) outputs =
     (case map_of results n of
        Some (v, Some err) \<Rightarrow> (GNil, Some err)
      | Some (v, None) \<Rightarrow> collect_parallel results ns (mput n v outputs)
      | None \<Rightarrow> collect_parallel results ns outputs)"

fun Rn_Invoke :: "(string list \<Rightarrow> string list) \<Rightarrow> runnable \<Rightarrow> rn_fn"
  and seq_invoke :: "(string list \<Rightarrow> string list) \<Rightarrow> runnable list \<Rightarrow> rn_fn"
  and par_invoke :: "(string list \<Rightarrow> string list) \<Rightarrow> (string \<times> runnable) list \<Rightarrow> gval \<Rightarrow> (string \<times> gval \<times> gerr option) list" where
  "Rn_Invoke arrive (RFunc f) x = rf_fn f x"
| "Rn_Invoke arrive (RSeq rs sc) x = seq_invoke arrive rs x"
| "Rn_Invoke arrive (RParallel ps sc) x = collect_parallel (par_invoke arrive ps x) (arrive (map fst ps)) []"
| "Rn_Invoke arrive (RMap inputFn outputFn base sc) x =
     (case transform inputFn x of
        (y, Some err) \<Rightarrow> (GNil, Some err)
      | (y, None) \<Rightarrow>
          (case Rn_Invoke arrive base y of
             (z, Some err) \<Rightarrow> (GNil, Some err)
           | (z, None) \<Rightarrow>
               (case transform outputFn z of
                  (w, Some err) \<Rightarrow> (GNil, Some err)
                | (w, None) \<Rightarrow> (w, None))))"
| "seq_invoke arrive [] x = (x, None)"
| "seq_invoke arrive (r # rs) x =
     (case Rn_Invoke arrive r x of
        (y, Some err) \<Rightarrow> (GNil, Some err)
      | (y, None) \<Rightarrow> seq_invoke arrive rs y)"
| "par_invoke arrive [] x = []"
| "par_invoke arrive ((n, r) # ps) x = (n, Rn_Invoke arrive r x) # par_invoke arrive ps x"

definition each :: "rn_fn \<Rightarrow> gval list \<Rightarrow> gval list \<times> gerr option list" where
  "each f xs = (map (fst \<circ> f) xs, map (snd \<circ> f) xs)"

definition Rn_Batch :: "(string list \<Rightarrow> string list) \<Rightarrow> runnable \<Rightarrow> gval list \<Rightarrow> gval list \<times> gerr option list" where
  "Rn_Batch arrive r xs =
     (case r of
        RFunc f \<Rightarrow> (case rf_batchFn f of Some b \<Rightarrow> b xs | None \<Rightarrow> each (Rn_Invoke arrive r) xs)
      | _ \<Rightarrow> each (Rn_Invoke arrive r) xs)"

text \<open>A function drops its error; the others send it.\<close>

definition Rn_Stream :: "(string list \<Rightarrow> string list) \<Rightarrow> runnable \<Rightarrow> gval \<Rightarrow> gval res list" where
  "Rn_Stream arrive r x =
     (case r of
        RFunc f \<Rightarrow>
          (case rf_streamFn f of
             Some s \<Rightarrow> s x
           | None \<Rightarrow> (case Rn_Invoke arrive r x of (v, None) \<Rightarrow> [Inr v] | (v, Some err) \<Rightarrow> []))
      | _ \<Rightarrow> (case Rn_Invoke arrive r x of (v, None) \<Rightarrow> [Inr v] | (v, Some err) \<Rightarrow> [Inl err]))"

definition InvokeCompat :: "(string list \<Rightarrow> string list) \<Rightarrow> runnable \<Rightarrow> rn_fn" where
  "InvokeCompat arrive r x = Rn_Invoke arrive r x"

definition RunnableError_text :: "string \<Rightarrow> string \<Rightarrow> string" where
  "RunnableError_text message code = (if code \<noteq> [] then code @ '': '' @ message else message)"

section \<open>The builder\<close>

record RunnableBuilder =
  rb_runnable :: runnable

definition NewRunnableBuilder :: "runnable \<Rightarrow> RunnableBuilder" where
  "NewRunnableBuilder r = \<lparr>rb_runnable = r\<rparr>"

definition Builder_Then :: "runnable \<Rightarrow> RunnableBuilder \<Rightarrow> RunnableBuilder res" where
  "Builder_Then n b = (case Rn_NewSeq [rb_runnable b, n] of Inl err \<Rightarrow> Inl err | Inr s \<Rightarrow> Inr \<lparr>rb_runnable = s\<rparr>)"

definition Builder_Map :: "rn_fn option \<Rightarrow> rn_fn option \<Rightarrow> RunnableBuilder \<Rightarrow> RunnableBuilder" where
  "Builder_Map inputFn outputFn b = b\<lparr>rb_runnable := Rn_NewMap (rb_runnable b) inputFn outputFn\<rparr>"

definition Builder_Build :: "RunnableBuilder \<Rightarrow> runnable" where
  "Builder_Build b = rb_runnable b"

definition Pipe :: "runnable list \<Rightarrow> runnable res" where
  "Pipe rs = Rn_NewSeq rs"

definition MapValue :: "(gval \<Rightarrow> gval) \<Rightarrow> rn_fn" where
  "MapValue fn v = (fn v, None)"

text \<open>Calls of \<open>Then\<close> one after the other, up to the first error.\<close>

fun then_all :: "runnable list \<Rightarrow> RunnableBuilder \<Rightarrow> RunnableBuilder res" where
  "then_all [] b = Inr b"
| "then_all (r # rs) b = (case Builder_Then r b of Inl err \<Rightarrow> Inl err | Inr b' \<Rightarrow> then_all rs b')"

section \<open>Sequences\<close>

lemma seq_invoke_append:
  "seq_invoke arrive (rs @ ss) x =
     (case seq_invoke arrive rs x of (y, Some err) \<Rightarrow> (GNil, Some err) | (y, None) \<Rightarrow> seq_invoke arrive ss y)"
  by (induction rs arbitrary: x) (auto split: prod.splits option.splits)

lemma seq_invoke_error: "seq_invoke arrive rs x = (y, Some err) \<Longrightarrow> y = GNil"
  by (induction rs arbitrary: x) (auto split: prod.splits option.splits)

text \<open>A nested sequence does what the flat one does.\<close>

lemma seq_nested: "seq_invoke arrive (RSeq rs sc # ss) x = seq_invoke arrive (rs @ ss) x"
  by (simp add: seq_invoke_append)

lemma check_types_append:
  "rs \<noteq> [] \<Longrightarrow> ss \<noteq> [] \<Longrightarrow>
   check_types (rs @ ss) = (case check_types rs of Some e \<Rightarrow> Some e | None \<Rightarrow> check_types (last rs # ss))"
  by (induction rs rule: check_types.induct) (auto simp: neq_Nil_conv split: option.split)


definition behaves_like :: "(string list \<Rightarrow> string list) \<Rightarrow> runnable \<Rightarrow> runnable \<Rightarrow> bool" where
  "behaves_like arrive a b \<longleftrightarrow>
     (\<forall>x. Rn_Invoke arrive a x = Rn_Invoke arrive b x) \<and> (\<forall>xs. Rn_Batch arrive a xs = Rn_Batch arrive b xs) \<and>
     (\<forall>x. Rn_Stream arrive a x = Rn_Stream arrive b x) \<and> Rn_GetSchema a = Rn_GetSchema b"

definition same_outcome :: "(string list \<Rightarrow> string list) \<Rightarrow> runnable res \<Rightarrow> runnable res \<Rightarrow> bool" where
  "same_outcome arrive a b =
     (case (a, b) of (Inl e, Inl e') \<Rightarrow> e = e' | (Inr p, Inr q) \<Rightarrow> behaves_like arrive p q | _ \<Rightarrow> False)"

lemma same_outcome_refl [simp]: "same_outcome arrive a a"
  by (cases a) (simp_all add: same_outcome_def behaves_like_def)

lemma same_outcome_trans: "same_outcome arrive a b \<Longrightarrow> same_outcome arrive b c \<Longrightarrow> same_outcome arrive a c"
  by (cases a; cases b; cases c) (simp_all add: same_outcome_def behaves_like_def)

lemma seq_behaves_like:
  "(\<And>x. seq_invoke arrive rs x = seq_invoke arrive ss x) \<Longrightarrow> behaves_like arrive (RSeq rs sc) (RSeq ss sc)"
  by (simp add: behaves_like_def Rn_Batch_def Rn_Stream_def each_def comp_def)

lemma new_seq_nested:
  assumes "Rn_NewSeq [r, n] = Inr s" and "rs \<noteq> []"
  shows "same_outcome arrive (Rn_NewSeq (s # rs)) (Rn_NewSeq (r # n # rs))"
proof -
  obtain m ms where rs: "rs = m # ms" using assms(2) by (cases rs) auto
  let ?sc = "\<lparr>sc_InputType = sc_InputType (Rn_GetSchema r), sc_OutputType = sc_OutputType (Rn_GetSchema n), sc_Name = ''sequence'', sc_Description = []\<rparr>"
  have s: "s = RSeq [r, n] ?sc" and t: "sc_OutputType (Rn_GetSchema r) = sc_InputType (Rn_GetSchema n)"
    using assms(1) by (auto simp: Rn_NewSeq_def split: if_splits)
  have "seq_invoke arrive (RSeq [r, n] sc1 # m # ms) x = seq_invoke arrive (r # n # m # ms) x" for sc1 x
    using seq_nested [of arrive "[r, n]" sc1 "m # ms" x] by (simp only: append_Cons append_Nil)
  then have beh: "behaves_like arrive (RSeq (RSeq [r, n] sc1 # m # ms) sc) (RSeq (r # n # m # ms) sc)" for sc1 sc by (rule seq_behaves_like)
  show ?thesis by (simp add: rs s t Rn_NewSeq_def same_outcome_def beh split: option.split)
qed

lemma then_all_is_seq:
  "rs \<noteq> [] \<Longrightarrow> same_outcome arrive (map_sum (\<lambda>e. e) rb_runnable (then_all rs b)) (Rn_NewSeq (rb_runnable b # rs))"
proof (induction rs arbitrary: b)
  case (Cons r rs)
  show ?case
  proof (cases "Rn_NewSeq [rb_runnable b, r]")
    case (Inl e)
    then have "Rn_NewSeq (rb_runnable b # r # rs) = Inl e" by (simp add: Rn_NewSeq_def split: if_splits)
    with Inl show ?thesis by (simp add: Builder_Then_def)
  next
    case (Inr s)
    show ?thesis
    proof (cases "rs = []")
      case False
      with Cons.IH [of "\<lparr>rb_runnable = s\<rparr>"] have "same_outcome arrive (map_sum (\<lambda>e. e) rb_runnable (then_all rs \<lparr>rb_runnable = s\<rparr>)) (Rn_NewSeq (s # rs))" by simp
      from same_outcome_trans [OF this new_seq_nested [OF Inr False]] Inr show ?thesis by (simp add: Builder_Then_def)
    qed (simp add: Builder_Then_def Inr)
  qed
qed simp

section \<open>Parallel runnables\<close>

lemma par_invoke_names [simp]: "map fst (par_invoke arrive ps x) = map fst ps"
  by (induction ps) auto

lemma map_of_par_invoke: "map_of (par_invoke arrive ps x) n = map_option (\<lambda>r. Rn_Invoke arrive r x) (map_of ps n)"
  by (induction ps) auto

lemma collect_succeeds:
  "\<forall>n \<in> set ns. \<exists>v. map_of results n = Some (v, None) \<Longrightarrow>
   \<exists>m. collect_parallel results ns outs = (GMap m, None) \<and>
     (\<forall>k. mget m k = (if k \<in> set ns then map_option fst (map_of results k) else mget outs k))"
proof (induction ns arbitrary: outs)
  case (Cons n ns)
  then obtain v where v: "map_of results n = Some (v, None)" by auto
  with Cons.IH [of "mput n v outs"] Cons.prems show ?case by (auto simp: gomap)
qed auto

lemma collect_fails:
  "\<forall>n \<in> set ns. map_of results n \<noteq> None \<Longrightarrow> \<exists>n \<in> set ns. \<exists>v e. map_of results n = Some (v, Some e) \<Longrightarrow>
   \<exists>n e v. n \<in> set ns \<and> map_of results n = Some (v, Some e) \<and> collect_parallel results ns outs = (GNil, Some e)"
proof (induction ns arbitrary: outs)
  case (Cons n ns)
  obtain v r where v: "map_of results n = Some (v, r)" using Cons.prems(1) by auto
  show ?case
  proof (cases r)
    case (Some e)
    with v have "map_of results n = Some (v, Some e) \<and> collect_parallel results (n # ns) outs = (GNil, Some e)" by simp
    then show ?thesis by (intro exI [of _ n] exI [of _ e] exI [of _ v]) simp
  next
    case None
    then have step: "collect_parallel results (n # ns) outs = collect_parallel results ns (mput n v outs)" using v by simp
    have "\<exists>n \<in> set ns. \<exists>v e. map_of results n = Some (v, Some e)" using Cons.prems(2) v None by auto
    with Cons.IH [of "mput n v outs"] Cons.prems(1) obtain k e w
      where "k \<in> set ns" "map_of results k = Some (w, Some e)" "collect_parallel results ns (mput n v outs) = (GNil, Some e)" by auto
    then show ?thesis unfolding step by (intro exI [of _ k] exI [of _ e] exI [of _ w]) simp
  qed
qed simp

lemma arrived_names: "set (arrive (map fst ps)) = mdom ps \<Longrightarrow> n \<in> set (arrive (map fst ps)) \<longleftrightarrow> map_of ps n \<noteq> None"
  by (auto simp: map_of_eq_None_iff)

lemma parallel_succeeds:
  assumes "set (arrive (map fst ps)) = mdom ps" and "\<And>n p. map_of ps n = Some p \<Longrightarrow> snd (Rn_Invoke arrive p x) = None"
  shows "\<exists>m. Rn_Invoke arrive (Rn_NewParallel ps) x = (GMap m, None) \<and> (\<forall>n. mget m n = map_option (\<lambda>p. fst (Rn_Invoke arrive p x)) (map_of ps n))"
proof -
  let ?res = "par_invoke arrive ps x" and ?ns = "arrive (map fst ps)"
  have "\<exists>v. map_of ?res n = Some (v, None)" if n: "n \<in> set ?ns" for n
  proof -
    obtain p where p: "map_of ps n = Some p" using n unfolding arrived_names [of arrive ps, OF assms(1)] by (auto simp del: map_of_eq_None_iff)
    show ?thesis using p assms(2) [OF p] by (intro exI [of _ "fst (Rn_Invoke arrive p x)"]) (simp add: map_of_par_invoke prod_eq_iff)
  qed
  then obtain m where m: "collect_parallel ?res ?ns [] = (GMap m, None)"
    "\<forall>k. mget m k = (if k \<in> set ?ns then map_option fst (map_of ?res k) else mget [] k)" using collect_succeeds [of ?ns ?res "[]"] by blast
  have "mget m n = map_option (\<lambda>p. fst (Rn_Invoke arrive p x)) (map_of ps n)" for n
    using m(2) unfolding arrived_names [of arrive ps, OF assms(1)] by (cases "map_of ps n") (simp_all add: map_of_par_invoke)
  with m(1) show ?thesis by (simp add: Rn_NewParallel_def)
qed

lemma parallel_fails:
  assumes "set (arrive (map fst ps)) = mdom ps" and "map_of ps n = Some p" and "snd (Rn_Invoke arrive p x) \<noteq> None"
  shows "\<exists>n p. map_of ps n = Some p \<and> snd (Rn_Invoke arrive p x) \<noteq> None \<and> Rn_Invoke arrive (Rn_NewParallel ps) x = (GNil, snd (Rn_Invoke arrive p x))"
proof -
  let ?res = "par_invoke arrive ps x" and ?ns = "arrive (map fst ps)"
  have some: "\<forall>n \<in> set ?ns. map_of ?res n \<noteq> None" by (simp add: arrived_names [of arrive ps, OF assms(1)] map_of_par_invoke del: map_of_eq_None_iff)
  have "n \<in> set ?ns" by (simp add: arrived_names [of arrive ps, OF assms(1)] assms(2) del: map_of_eq_None_iff)
  moreover have "\<exists>v e. map_of ?res n = Some (v, Some e)"
    using assms(2,3) by (cases "Rn_Invoke arrive p x") (simp add: map_of_par_invoke)
  ultimately have "\<exists>n \<in> set ?ns. \<exists>v e. map_of ?res n = Some (v, Some e)" by (rule bexI [rotated])
  from collect_fails [OF some this, of "[]"] obtain k e v
    where k: "map_of ?res k = Some (v, Some e)" "collect_parallel ?res ?ns [] = (GNil, Some e)" by blast
  from k(1) obtain q where "map_of ps k = Some q" "Rn_Invoke arrive q x = (v, Some e)" by (auto simp: map_of_par_invoke)
  with k(2) show ?thesis by (intro exI [of _ k] exI [of _ q]) (simp add: Rn_NewParallel_def)
qed

text \<open>A transformation has no types, so that it goes neither before nor after a function in a chain.\<close>

lemma map_does_not_chain:
  "Builder_Then (Rn_NewFunc f []) (Builder_Map i ou b) = Inl (type_mismatch_error [] ''<nil>'')"
  "Builder_Then (Rn_NewMap r i ou) (NewRunnableBuilder (Rn_NewFunc f [])) = Inl (type_mismatch_error ''<nil>'' [])"
  "Builder_Then (Rn_NewParallel ps) (NewRunnableBuilder (Rn_NewFunc f [])) = Inl (type_mismatch_error ''<nil>'' ''map'')"
  by (simp_all add: Builder_Then_def Builder_Map_def Rn_NewSeq_def Rn_NewFunc_def Rn_NewMap_def Rn_NewParallel_def NewRunnableBuilder_def)

lemma stream_of_failed_function: "rf_streamFn f = None \<Longrightarrow> rf_fn f x = (v, Some e) \<Longrightarrow> Rn_Stream arrive (RFunc f) x = []"
  by (simp add: Rn_Stream_def)

text \<open>C23: Runnables compose. Whatever the runnables and the order in which parallel results arrive, chaining runnables one by one with a builder
  succeeds exactly when the pipe of all of them does, with the same error otherwise, and gives a runnable that invokes, batches, streams
  and describes itself like the pipe. A parallel runnable gives the outputs of its members under their names if none fails,
  and otherwise fails with the error of one that failed.\<close>

theorem runnables_compose:
  assumes "rs \<noteq> []" and "set (arrive (map fst ps)) = mdom ps"
  shows "same_outcome arrive (map_sum (\<lambda>e. e) Builder_Build (then_all rs (NewRunnableBuilder r))) (Pipe (r # rs)) \<and>
    ((\<forall>n p. map_of ps n = Some p \<longrightarrow> snd (Rn_Invoke arrive p x) = None) \<longrightarrow>
      (\<exists>m. Rn_Invoke arrive (Rn_NewParallel ps) x = (GMap m, None) \<and>
         (\<forall>n. mget m n = map_option (\<lambda>p. fst (Rn_Invoke arrive p x)) (map_of ps n)))) \<and>
    (map_of ps k = Some q \<and> snd (Rn_Invoke arrive q x) \<noteq> None \<longrightarrow>
      (\<exists>n p. map_of ps n = Some p \<and> snd (Rn_Invoke arrive p x) \<noteq> None \<and> Rn_Invoke arrive (Rn_NewParallel ps) x = (GNil, snd (Rn_Invoke arrive p x))))"
  using then_all_is_seq [OF assms(1), of arrive "NewRunnableBuilder r"] parallel_succeeds [of arrive ps x, OF assms(2)] parallel_fails [of arrive ps k q x, OF assms(2)]
  by (auto simp: Pipe_def NewRunnableBuilder_def Builder_Build_def [abs_def])


definition shout_fn :: rn_fn where
  "shout_fn x = (case x of GStr s \<Rightarrow> (GStr (s @ ''!''), None) | _ \<Rightarrow> (GNil, Some EmptyChannelError))"

definition sample_parallel :: "(string \<times> runnable) list" where
  "sample_parallel = [(''a'', Rn_NewFunc shout_fn []), (''b'', Rn_NewFunc (\<lambda>x. (x, None)) [])]"

theorem runnables_compose_witness:
  "(case Pipe [Rn_NewFunc shout_fn [], Rn_NewFunc shout_fn [], Rn_NewFunc shout_fn []] of
      Inr p \<Rightarrow> Rn_Invoke rev p (GStr ''hi'') = (GStr ''hi!!!'', None) \<and>
        same_outcome rev (map_sum (\<lambda>e. e) Builder_Build (then_all [Rn_NewFunc shout_fn [], Rn_NewFunc shout_fn []] (NewRunnableBuilder (Rn_NewFunc shout_fn [])))) (Inr p)
    | Inl e \<Rightarrow> False) \<and>
   (\<exists>m. Rn_Invoke rev (Rn_NewParallel sample_parallel) (GStr ''hi'') = (GMap m, None) \<and> mget m ''a'' = Some (GStr ''hi!'') \<and> mget m ''b'' = Some (GStr ''hi'')) \<and>
   Rn_Invoke rev (Rn_NewParallel sample_parallel) GNil = (GNil, Some EmptyChannelError)"
proof -
  let ?f = "Rn_NewFunc shout_fn []"
  have names: "set (rev (map fst sample_parallel)) = mdom sample_parallel" by (auto simp: sample_parallel_def)
  note th = runnables_compose [where arrive = rev and ps = sample_parallel and rs = "[?f, ?f]" and r = ?f, OF _ names]
  have 1: "same_outcome rev (map_sum (\<lambda>e. e) Builder_Build (then_all [?f, ?f] (NewRunnableBuilder ?f))) (Pipe [?f, ?f, ?f])"
    using conjunct1 [OF th] by simp
  have 2: "\<exists>m. Rn_Invoke rev (Rn_NewParallel sample_parallel) (GStr ''hi'') = (GMap m, None) \<and>
      (\<forall>n. mget m n = map_option (\<lambda>p. fst (Rn_Invoke rev p (GStr ''hi''))) (map_of sample_parallel n))"
    by (rule mp [OF conjunct1 [OF conjunct2 [OF th]]]) (simp_all add: sample_parallel_def Rn_NewFunc_def shout_fn_def)
  have "map_of sample_parallel ''a'' = Some ?f \<and> snd (Rn_Invoke rev ?f GNil) \<noteq> None" by (simp add: sample_parallel_def Rn_NewFunc_def shout_fn_def)
  with conjunct2 [OF conjunct2 [OF th]] obtain n p where p: "map_of sample_parallel n = Some p" "snd (Rn_Invoke rev p GNil) \<noteq> None"
    "Rn_Invoke rev (Rn_NewParallel sample_parallel) GNil = (GNil, snd (Rn_Invoke rev p GNil))" by blast
  have "snd (Rn_Invoke rev p GNil) = Some EmptyChannelError"
    using p(1,2) by (auto simp: sample_parallel_def Rn_NewFunc_def shout_fn_def split: if_splits)
  moreover have "Pipe [?f, ?f, ?f] = Inr (RSeq [?f, ?f, ?f] \<lparr>sc_InputType = ''<nil>'', sc_OutputType = ''<nil>'', sc_Name = ''sequence'', sc_Description = []\<rparr>)"
    by (simp add: Pipe_def Rn_NewSeq_def Rn_NewFunc_def)
  moreover have "Rn_Invoke rev ?f (GStr ''hi'') = (GStr ''hi!'', None)" by (simp add: Rn_NewFunc_def shout_fn_def)
  ultimately show ?thesis using 1 2 p(3)
    by (auto simp: Rn_NewFunc_def shout_fn_def sample_parallel_def)
qed

section \<open>Coercion of Go functions\<close>

text \<open>
  A function value with the types of its parameters and what a call of it returns. A parameter is a context, a configuration (\<open>*RunnableConfig\<close>) or a value;
  the first of several results is a value, and the second comes with whether its static type is an interface or a pointer.
\<close>

datatype go_param = CtxParam | ConfigParam | ValueParam gtype
datatype go_arg = CtxArg | NilCtxArg | ConfigArg "RunnableConfig option" | ValueArg gval
datatype go_ret = RetVal gval | RetErr gerr
datatype go_rets = NoRets | OneRet go_ret | TwoRets gval bool go_ret | ManyRets gval bool go_ret nat

record go_func =
  gf_in :: "go_param list"
  gf_call :: "go_arg list \<Rightarrow> go_rets"

datatype coercible = AsRunnable runnable | AsFunc go_func | AsValue gval

definition zero_arg :: "go_param \<Rightarrow> go_arg" where
  "zero_arg p = (case p of CtxParam \<Rightarrow> NilCtxArg | ConfigParam \<Rightarrow> ConfigArg None | ValueParam t \<Rightarrow> ValueArg (zero_value t))"

text \<open>The argument for the input: assignable, convertible or the zero value.\<close>

definition input_arg :: "golib \<Rightarrow> gval \<Rightarrow> go_param \<Rightarrow> go_arg" where
  "input_arg L input p =
     (case p of
        ValueParam t \<Rightarrow>
          if input \<noteq> GNil \<and> assignable input t then ValueArg input
          else if input \<noteq> GNil \<and> reflect_convert L input t \<noteq> None then ValueArg (the (reflect_convert L input t))
          else ValueArg (zero_value t)
      | _ \<Rightarrow> zero_arg p)"

definition coerced_args :: "golib \<Rightarrow> gval \<Rightarrow> go_param list \<Rightarrow> go_arg list" where
  "coerced_args L input ps =
     (case ps of
        [] \<Rightarrow> []
      | CtxParam # [] \<Rightarrow> [CtxArg]
      | CtxParam # p # qs \<Rightarrow> CtxArg # input_arg L input p # map zero_arg qs
      | p # qs \<Rightarrow> input_arg L input p # map zero_arg qs)"

definition coerced_result :: "go_rets \<Rightarrow> gval \<times> gerr option" where
  "coerced_result r =
     (case r of
        NoRets \<Rightarrow> (GNil, None)
      | OneRet (RetErr e) \<Rightarrow> (GNil, Some e)
      | OneRet (RetVal v) \<Rightarrow> (v, None)
      | TwoRets v b (RetErr e) \<Rightarrow> (v, Some e)
      | TwoRets v b (RetVal w) \<Rightarrow> if w = GNil then (v, None) else (GNil, Some (Errorf ''expected error, got %T'' []))
      | ManyRets v b r n \<Rightarrow> (GNil, Some (Errorf ''unsupported number of return values: %d'' [])))"

definition coerceFuncToRunnable :: "golib \<Rightarrow> go_func \<Rightarrow> runnable" where
  "coerceFuncToRunnable L g = Rn_NewFunc (\<lambda>input. coerced_result (gf_call g (coerced_args L input (gf_in g)))) []"

definition CoerceToRunnable :: "golib \<Rightarrow> coercible \<Rightarrow> runnable res" where
  "CoerceToRunnable L x =
     (case x of
        AsRunnable r \<Rightarrow> Inr r
      | AsFunc g \<Rightarrow> Inr (coerceFuncToRunnable L g)
      | AsValue v \<Rightarrow> if v = GNil then Inl (Errorf ''cannot coerce nil to Runnable'' []) else Inl (Errorf ''cannot coerce %T to Runnable'' []))"

text \<open>An argument that \<open>reflect.Call\<close> accepts for a parameter.\<close>

definition arg_fits :: "go_arg \<Rightarrow> go_param \<Rightarrow> bool" where
  "arg_fits a p =
     (case (a, p) of
        (ValueArg v, ValueParam t) \<Rightarrow> conforms v t
      | (CtxArg, CtxParam) \<Rightarrow> True
      | (NilCtxArg, CtxParam) \<Rightarrow> True
      | (ConfigArg c, ConfigParam) \<Rightarrow> True
      | _ \<Rightarrow> False)"

lemma zero_arg_fits: "arg_fits (zero_arg p) p"
  by (cases p) (simp_all add: zero_arg_def arg_fits_def zero_conforms)

lemma assignable_conforms: "assignable v t \<longleftrightarrow> conforms v t"
  by (simp add: assignable_def conforms_def)

lemma converted_conforms: "convert_sound L \<Longrightarrow> well_typed v \<Longrightarrow> reflect_convert L v t = Some w \<Longrightarrow> conforms w t"
  by (simp add: convert_sound_def)

lemma input_arg_fits: "convert_sound L \<Longrightarrow> well_typed input \<Longrightarrow> arg_fits (input_arg L input p) p"
  by (cases p) (auto simp: input_arg_def arg_fits_def zero_arg_def zero_conforms assignable_conforms dest: converted_conforms)

lemma coerced_args_fit:
  assumes "convert_sound L" and "well_typed input"
  shows "list_all2 arg_fits (coerced_args L input ps) ps"
proof -
  have zeros: "list_all2 arg_fits (map zero_arg qs) qs" for qs by (induction qs) (simp_all add: zero_arg_fits)
  have ctx: "arg_fits CtxArg CtxParam" by (simp add: arg_fits_def)
  show ?thesis
    using zeros input_arg_fits [OF assms] ctx zero_arg_fits
    by (cases ps; cases "hd ps"; cases "tl ps") (auto simp: coerced_args_def)
qed

end
