(* ===== verification/Injection.thy ===== *)
theory Injection
  imports Runnables Retry
begin

text \<open>
  Runnables with injected dependencies, and tracing (\<open>runnable/inject.go\<close>). Callbacks are numbered; what a call tells them is a log of
  numbered events. The loop over the runtime values takes them in an order of its own for each parameter, \<open>ord\<close>.
\<close>

section \<open>Injection\<close>

datatype cb_event = OnStart string gval | OnEnd string gval "gerr option" | OnError string gerr

record InjectionContext =
  ic_Config :: "RunnableConfig option"
  ic_Previous :: gval
  ic_Runtime :: "gval gomap"
  ic_TracingEnabled :: bool
  ic_Callbacks :: "nat list"

type_synonym param_injector = "(string \<times> (InjectionContext \<Rightarrow> go_arg)) list"

record InjectableRunnable =
  ir_name :: string
  ir_fn :: coercible
  ir_injectionCtx :: "InjectionContext option"
  ir_paramInjector :: param_injector
  ir_schema :: RunnableSchema

definition NewInjectableRunnable :: "string \<Rightarrow> coercible \<Rightarrow> InjectableRunnable" where
  "NewInjectableRunnable name fn =
     \<lparr>ir_name = name, ir_fn = fn, ir_injectionCtx = None, ir_paramInjector = [],
      ir_schema = \<lparr>sc_InputType = [], sc_OutputType = [], sc_Name = name, sc_Description = []\<rparr>\<rparr>"

definition SetInjectionContext :: "InjectionContext option \<Rightarrow> InjectableRunnable \<Rightarrow> InjectableRunnable" where
  "SetInjectionContext c r = r\<lparr>ir_injectionCtx := c\<rparr>"

definition AddInjector :: "string \<Rightarrow> (InjectionContext \<Rightarrow> go_arg) \<Rightarrow> param_injector \<Rightarrow> param_injector" where
  "AddInjector name f p = AList.update name f p"

definition Inject :: "InjectionContext \<Rightarrow> string \<Rightarrow> param_injector \<Rightarrow> go_arg" where
  "Inject c name p = (case map_of p name of Some f \<Rightarrow> f c | None \<Rightarrow> ValueArg GNil)"

definition WithConfigInjector :: "InjectableRunnable \<Rightarrow> InjectableRunnable" where
  "WithConfigInjector r = r\<lparr>ir_paramInjector := AddInjector ''config'' (\<lambda>c. ConfigArg (ic_Config c)) (ir_paramInjector r)\<rparr>"

definition WithPreviousInjector :: "InjectableRunnable \<Rightarrow> InjectableRunnable" where
  "WithPreviousInjector r = r\<lparr>ir_paramInjector := AddInjector ''previous'' (\<lambda>c. ValueArg (ic_Previous c)) (ir_paramInjector r)\<rparr>"

definition WithRuntimeInjector :: "string \<Rightarrow> InjectableRunnable \<Rightarrow> InjectableRunnable" where
  "WithRuntimeInjector key r =
     r\<lparr>ir_paramInjector := AddInjector key (\<lambda>c. ValueArg (case mget (ic_Runtime c) key of Some v \<Rightarrow> v | None \<Rightarrow> GNil)) (ir_paramInjector r)\<rparr>"

definition WithCallback :: "nat \<Rightarrow> InjectableRunnable \<Rightarrow> InjectableRunnable" where
  "WithCallback cb r =
     (let c = (case ir_injectionCtx r of
                 None \<Rightarrow> \<lparr>ic_Config = None, ic_Previous = GNil, ic_Runtime = [], ic_TracingEnabled = False, ic_Callbacks = []\<rparr>
               | Some c \<Rightarrow> c)
      in r\<lparr>ir_injectionCtx := Some (c\<lparr>ic_Callbacks := ic_Callbacks c @ [cb]\<rparr>)\<rparr>)"

definition Ir_InjectDependencies :: "RunnableConfig option \<Rightarrow> gval \<Rightarrow> gval gomap \<Rightarrow> InjectableRunnable \<Rightarrow> InjectableRunnable" where
  "Ir_InjectDependencies config previous runtime r =
     SetInjectionContext
       (Some \<lparr>ic_Config = config, ic_Previous = previous, ic_Runtime = runtime, ic_TracingEnabled = False, ic_Callbacks = []\<rparr>) r"

text \<open>The argument for one parameter; \<open>None\<close> is the panic of asking the nil input for its type.\<close>

definition runtime_value :: "gval gomap \<Rightarrow> go_param \<Rightarrow> gval option" where
  "runtime_value m p =
     (case p of
        ValueParam t \<Rightarrow> map_option snd (find (\<lambda>(k, v). v \<noteq> GNil \<and> assignable v t) m)
      | _ \<Rightarrow> None)"

definition build_argument ::
  "golib \<Rightarrow> InjectionContext option \<Rightarrow> gval gomap \<Rightarrow> gval \<Rightarrow> go_param \<Rightarrow> go_arg option" where
  "build_argument L ctx runtime input p =
     (case (ctx, p) of
        (Some c, ConfigParam) \<Rightarrow> Some (ConfigArg (ic_Config c))
      | _ \<Rightarrow>
          (case runtime_value runtime p of
             Some v \<Rightarrow> Some (ValueArg v)
           | None \<Rightarrow> if input = GNil then None else Some (input_arg L input p)))"

fun build_from ::
  "golib \<Rightarrow> (nat \<Rightarrow> gval gomap \<Rightarrow> gval gomap) \<Rightarrow> InjectionContext option \<Rightarrow> gval \<Rightarrow> nat \<Rightarrow> go_param list \<Rightarrow> go_arg list option" where
  "build_from L ord ctx input i [] = Some []"
| "build_from L ord ctx input i (p # ps) =
     (case build_argument L ctx (case ctx of None \<Rightarrow> [] | Some c \<Rightarrow> ord i (ic_Runtime c)) input p of
        None \<Rightarrow> None
      | Some a \<Rightarrow> map_option (\<lambda>as. a # as) (build_from L ord ctx input (Suc i) ps))"

definition build_args ::
  "golib \<Rightarrow> (nat \<Rightarrow> gval gomap \<Rightarrow> gval gomap) \<Rightarrow> InjectionContext option \<Rightarrow> gval \<Rightarrow> go_param list \<Rightarrow> go_arg list option" where
  "build_args L ord ctx input ps =
     (case ps of
        CtxParam # qs \<Rightarrow> map_option (\<lambda>as. CtxArg # as) (build_from L ord ctx input 1 qs)
      | _ \<Rightarrow> build_from L ord ctx input 0 ps)"

text \<open>The second of several results counts as an error only if its static type is an interface or a pointer.\<close>

definition second_result :: "gval \<Rightarrow> bool \<Rightarrow> go_ret \<Rightarrow> gval \<times> gerr option" where
  "second_result v b r =
     (case r of
        RetErr e \<Rightarrow> if b then (v, Some e) else (v, None)
      | RetVal w \<Rightarrow> if b \<and> w \<noteq> GNil then (v, Some (Errorf ''expected error, got %T'' [])) else (v, None))"

definition executeWithArgs :: "go_rets \<Rightarrow> gval \<times> gerr option" where
  "executeWithArgs r =
     (case r of
        NoRets \<Rightarrow> (GNil, None)
      | OneRet (RetErr e) \<Rightarrow> (GNil, Some e)
      | OneRet (RetVal v) \<Rightarrow> (v, None)
      | TwoRets v b r2 \<Rightarrow> second_result v b r2
      | ManyRets v b r2 n \<Rightarrow> second_result v b r2)"

definition callbacks_of :: "InjectableRunnable \<Rightarrow> nat list" where
  "callbacks_of r = (case ir_injectionCtx r of None \<Rightarrow> [] | Some c \<Rightarrow> ic_Callbacks c)"

definition end_events :: "string \<Rightarrow> gval \<Rightarrow> gerr option \<Rightarrow> nat \<Rightarrow> (nat \<times> cb_event) list" where
  "end_events name out err cb = (case err of None \<Rightarrow> [] | Some e \<Rightarrow> [(cb, OnError name e)]) @ [(cb, OnEnd name out err)]"

definition Ir_Invoke ::
  "golib \<Rightarrow> (nat \<Rightarrow> gval gomap \<Rightarrow> gval gomap) \<Rightarrow> InjectableRunnable \<Rightarrow> gval \<Rightarrow> (nat \<times> cb_event) list \<times> call_result" where
  "Ir_Invoke L ord r input =
     (let started = map (\<lambda>cb. (cb, OnStart (ir_name r) input)) (callbacks_of r);
          ended = (\<lambda>out err. concat (map (end_events (ir_name r) out err) (callbacks_of r)))
      in case ir_fn r of
           AsFunc g \<Rightarrow>
             (case build_args L ord (ir_injectionCtx r) input (gf_in g) of
                None \<Rightarrow> (started, Panics (GStr ''reflect: call of reflect.Value.Type on zero Value''))
              | Some args \<Rightarrow> (case executeWithArgs (gf_call g args) of (out, err) \<Rightarrow> (started @ ended out err, Ret out err)))
         | AsRunnable q \<Rightarrow>
             (let err = Errorf ''runnable must be a function'' [] in (started @ ended GNil (Some err), Ret GNil (Some err)))
         | AsValue v \<Rightarrow>
             if v = GNil then (started, Panics (GStr ''reflect: call of reflect.Value.Type on zero Value''))
             else (let err = Errorf ''runnable must be a function'' [] in (started @ ended GNil (Some err), Ret GNil (Some err))))"

definition Ir_GetSchema :: "InjectableRunnable \<Rightarrow> RunnableSchema" where
  "Ir_GetSchema r = ir_schema r"

text \<open>A runnable becomes a function of a context and any value.\<close>

definition runnable_func :: "(string list \<Rightarrow> string list) \<Rightarrow> runnable \<Rightarrow> go_func" where
  "runnable_func arrive q =
     \<lparr>gf_in = [CtxParam, ValueParam TAny],
      gf_call = (\<lambda>args. case args of
          [CtxArg, ValueArg x] \<Rightarrow> (case Rn_Invoke arrive q x of (v, Some e) \<Rightarrow> TwoRets v True (RetErr e) | (v, None) \<Rightarrow> TwoRets v True (RetVal GNil))
        | _ \<Rightarrow> NoRets)\<rparr>"

datatype injectable = IsInjectable InjectableRunnable | IsOther coercible

definition CoerceToInjectableRunnable :: "(string list \<Rightarrow> string list) \<Rightarrow> injectable \<Rightarrow> string \<Rightarrow> InjectableRunnable res" where
  "CoerceToInjectableRunnable arrive target name =
     (case target of
        IsInjectable r \<Rightarrow> Inr r
      | IsOther (AsRunnable q) \<Rightarrow> Inr (NewInjectableRunnable name (AsFunc (runnable_func arrive q)))
      | IsOther (AsFunc g) \<Rightarrow> Inr (NewInjectableRunnable name (AsFunc g))
      | IsOther (AsValue v) \<Rightarrow>
          if v = GNil then Inl (Errorf ''cannot coerce nil to InjectableRunnable'' [])
          else Inl (Errorf ''cannot coerce %T to InjectableRunnable'' []))"

section \<open>Tracing\<close>

record Span =
  sp_Name :: string
  sp_Input :: gval
  sp_Output :: gval
  sp_Error :: "gerr option"
  sp_StartTime :: int
  sp_EndTime :: int

text \<open>The spans of a tracer, and the input a callback of it remembers.\<close>

record Tracer =
  tr_spans :: "Span list"
  tr_currentInput :: gval

definition NewTracer :: Tracer where
  "NewTracer = \<lparr>tr_spans = [], tr_currentInput = GNil\<rparr>"

definition TraceCallback :: "cb_event \<Rightarrow> Tracer \<Rightarrow> Tracer" where
  "TraceCallback ev t =
     (case ev of
        OnStart name input \<Rightarrow> t\<lparr>tr_currentInput := input\<rparr>
      | OnEnd name out err \<Rightarrow>
          t\<lparr>tr_spans := tr_spans t @
             [\<lparr>sp_Name = name, sp_Input = tr_currentInput t, sp_Output = out, sp_Error = err, sp_StartTime = 0, sp_EndTime = 0\<rparr>]\<rparr>
      | OnError name err \<Rightarrow> t)"

definition GetSpans :: "Tracer \<Rightarrow> Span list" where
  "GetSpans t = tr_spans t"

definition Tracer_Clear :: "Tracer \<Rightarrow> Tracer" where
  "Tracer_Clear t = t\<lparr>tr_spans := []\<rparr>"

text \<open>A log as one callback sees it.\<close>

definition traced :: "nat \<Rightarrow> (nat \<times> cb_event) list \<Rightarrow> Tracer \<Rightarrow> Tracer" where
  "traced cb log t = fold (\<lambda>(i, ev) t. if i = cb then TraceCallback ev t else t) log t"

definition WithTracing :: "nat \<Rightarrow> InjectableRunnable \<Rightarrow> InjectableRunnable" where
  "WithTracing cb r = WithCallback cb r"


section \<open>What is injected\<close>

lemma runtime_value_any:
  "runtime_value m (ValueParam TAny) = map_option snd (find (\<lambda>(k, v). v \<noteq> GNil) m)"
  by (simp add: runtime_value_def assignable_def)

lemma runtime_value_fits: "runtime_value m p = Some v \<Longrightarrow> arg_fits (ValueArg v) p"
  by (cases p) (auto simp: runtime_value_def arg_fits_def assignable_conforms find_Some_iff)

lemma config_arg_fits: "arg_fits (ConfigArg c) ConfigParam"
  by (simp add: arg_fits_def)

lemma build_argument_fits:
  "convert_sound L \<Longrightarrow> well_typed input \<Longrightarrow> build_argument L ctx m input p = Some a \<Longrightarrow> arg_fits a p"
  by (auto simp: build_argument_def runtime_value_fits input_arg_fits config_arg_fits split: option.splits go_param.splits if_splits)

lemma build_from_fits:
  "convert_sound L \<Longrightarrow> well_typed input \<Longrightarrow> build_from L ord ctx input i ps = Some args \<Longrightarrow> list_all2 arg_fits args ps"
  by (induction ps arbitrary: i args) (auto split: option.splits intro: build_argument_fits)

lemma ctx_arg_fits: "arg_fits CtxArg CtxParam"
  by (simp add: arg_fits_def)

lemma build_args_fit:
  "convert_sound L \<Longrightarrow> well_typed input \<Longrightarrow> build_args L ord ctx input ps = Some args \<Longrightarrow> list_all2 arg_fits args ps"
  by (cases ps; cases "hd ps") (auto simp: build_args_def ctx_arg_fits simp del: build_from.simps dest: build_from_fits)

lemma build_from_some: "input \<noteq> GNil \<Longrightarrow> build_from L ord ctx input i ps \<noteq> None"
  by (induction ps arbitrary: i) (auto simp: build_argument_def split: option.splits go_param.splits)

lemma build_args_some: "input \<noteq> GNil \<Longrightarrow> build_args L ord ctx input ps \<noteq> None"
  using build_from_some [of input L ord ctx] by (cases ps; cases "hd ps") (auto simp: build_args_def simp del: build_from.simps)

text \<open>C25: Arguments of coerced calls. A Go function called through a coerced or an injecting runnable gets one argument for each parameter, of the type of
  the parameter, whatever the input and the runtime values, so that the call itself cannot panic. Building the arguments can:
  exactly when the input is nil, which an injecting runnable asks for its type, and only then.\<close>

theorem call_arguments_fit:
  assumes "convert_sound L" and "well_typed input"
  shows "list_all2 arg_fits (coerced_args L input ps) ps \<and>
    (case build_args L ord ctx input ps of
       Some args \<Rightarrow> list_all2 arg_fits args ps
     | None \<Rightarrow> input = GNil) \<and>
    (build_args L ord None GNil ps = None \<longleftrightarrow> ps \<noteq> [] \<and> ps \<noteq> [CtxParam])"
proof (intro conjI)
  show "list_all2 arg_fits (coerced_args L input ps) ps" by (rule coerced_args_fit [OF assms])
  show "case build_args L ord ctx input ps of Some args \<Rightarrow> list_all2 arg_fits args ps | None \<Rightarrow> input = GNil"
    using build_args_fit [OF assms, of ord ctx ps] build_args_some [of input L ord ctx ps] by (cases "build_args L ord ctx input ps") auto
  have "build_from L ord None GNil i qs = None \<longleftrightarrow> qs \<noteq> []" for i qs
    by (cases qs) (auto simp: build_argument_def runtime_value_def split: go_param.splits)
  then show "build_args L ord None GNil ps = None \<longleftrightarrow> ps \<noteq> [] \<and> ps \<noteq> [CtxParam]"
    by (cases ps; cases "hd ps") (auto simp: build_args_def simp del: build_from.simps)
qed

lemma wrapped_arguments:
  "build_args L ord (Some c) input [CtxParam, ValueParam TAny] =
     (case runtime_value (ord 1 (ic_Runtime c)) (ValueParam TAny) of
        Some v \<Rightarrow> Some [CtxArg, ValueArg v]
      | None \<Rightarrow> if input = GNil then None else Some [CtxArg, ValueArg input])"
  by (simp add: build_args_def build_argument_def input_arg_def assignable_def split: option.split)

definition call_of :: "gval \<times> gerr option \<Rightarrow> call_result" where
  "call_of r = (case r of (v, e) \<Rightarrow> Ret v e)"

lemma call_runnable_func:
  "executeWithArgs (gf_call (runnable_func arrive q) [CtxArg, ValueArg x]) = Rn_Invoke arrive q x"
  by (auto simp: runnable_func_def executeWithArgs_def second_result_def split: prod.splits option.splits)

lemma wrapped_invoke:
  assumes "CoerceToInjectableRunnable arrive (IsOther (AsRunnable q)) name = Inr r"
  shows "snd (Ir_Invoke L ord (Ir_InjectDependencies config previous runtime r) input) =
    (case runtime_value (ord 1 runtime) (ValueParam TAny) of
       Some v \<Rightarrow> call_of (Rn_Invoke arrive q v)
     | None \<Rightarrow> if input = GNil then Panics (GStr ''reflect: call of reflect.Value.Type on zero Value'') else call_of (Rn_Invoke arrive q input))"
proof -
  have r: "r = NewInjectableRunnable name (AsFunc (runnable_func arrive q))" using assms by (simp add: CoerceToInjectableRunnable_def)
  have ins: "gf_in (runnable_func arrive q) = [CtxParam, ValueParam TAny]" by (simp add: runnable_func_def)
  show ?thesis
    by (simp add: r Ir_Invoke_def Ir_InjectDependencies_def SetInjectionContext_def NewInjectableRunnable_def ins wrapped_arguments Let_def
      call_runnable_func call_of_def split: option.split prod.split)
qed

text \<open>C24: Wrapped runnables and dependencies. A runnable made injectable does what it did on any input but nil as long as all runtime values are nil; on nil it
  panics. With any other runtime value the input is lost: the runnable gets one of the runtime values instead, the same whatever the input.\<close>

theorem runtime_replaces_input:
  assumes "CoerceToInjectableRunnable arrive (IsOther (AsRunnable q)) name = Inr r" and "set (ord 1 runtime) = set runtime"
  shows "((\<forall>v \<in> snd ` set runtime. v = GNil) \<and> input \<noteq> GNil \<longrightarrow>
      snd (Ir_Invoke L ord (Ir_InjectDependencies config previous runtime r) input) = call_of (Rn_Invoke arrive q input)) \<and>
    ((\<forall>v \<in> snd ` set runtime. v = GNil) \<longrightarrow>
      snd (Ir_Invoke L ord (Ir_InjectDependencies config previous runtime r) GNil) = Panics (GStr ''reflect: call of reflect.Value.Type on zero Value'')) \<and>
    ((\<exists>v \<in> snd ` set runtime. v \<noteq> GNil) \<longrightarrow>
      (\<exists>v \<in> snd ` set runtime. v \<noteq> GNil \<and>
        (\<forall>input. snd (Ir_Invoke L ord (Ir_InjectDependencies config previous runtime r) input) = call_of (Rn_Invoke arrive q v))))"
proof -
  define m where "m = ord 1 runtime"
  have m: "set m = set runtime" using assms(2) by (simp add: m_def)
  note inv = wrapped_invoke [OF assms(1), of L ord config previous runtime, folded m_def]
  have none: "runtime_value m (ValueParam TAny) = None" if "\<forall>v \<in> snd ` set runtime. v = GNil"
    using that m by (auto simp: runtime_value_any find_None_iff)
  have some: "\<exists>v \<in> snd ` set runtime. v \<noteq> GNil \<and> runtime_value m (ValueParam TAny) = Some v"
    if ex: "\<exists>v \<in> snd ` set runtime. v \<noteq> GNil"
  proof -
    from ex m obtain k v where "(k, v) \<in> set m" "v \<noteq> GNil" by auto
    then have "find (\<lambda>(k, v). v \<noteq> GNil) m \<noteq> None" by (auto simp: find_None_iff)
    then obtain kv where kv: "find (\<lambda>(k, v). v \<noteq> GNil) m = Some kv" by blast
    then have "kv \<in> set m" "snd kv \<noteq> GNil" by (force simp: find_Some_iff in_set_conv_nth)+
    with kv m show ?thesis by (intro bexI [of _ "snd kv"]) (auto simp: runtime_value_any)
  qed
  show ?thesis
  proof (intro conjI impI)
    assume "\<exists>v \<in> snd ` set runtime. v \<noteq> GNil"
    from some [OF this] obtain v where v: "v \<in> snd ` set runtime" "v \<noteq> GNil" "runtime_value m (ValueParam TAny) = Some v" by blast
    show "\<exists>v \<in> snd ` set runtime. v \<noteq> GNil \<and>
        (\<forall>input. snd (Ir_Invoke L ord (Ir_InjectDependencies config previous runtime r) input) = call_of (Rn_Invoke arrive q v))"
      using v by (intro bexI [of _ v]) (simp_all add: inv)
  qed (simp_all add: none inv)
qed

section \<open>What is traced\<close>

lemma traced_Nil [simp]: "traced cb [] t = t"
  by (simp add: traced_def)

lemma traced_append [simp]: "traced cb (l @ m) t = traced cb m (traced cb l t)"
  by (simp add: traced_def)

lemma traced_once:
  "distinct cbs \<Longrightarrow> cb \<in> set cbs \<Longrightarrow> (\<And>i. i \<noteq> cb \<Longrightarrow> \<forall>(j, ev) \<in> set (f i). j = i) \<Longrightarrow> traced cb (concat (map f cbs)) t = traced cb (f cb) t"
proof -
  have skip: "traced cb l t = t" if "\<forall>(j, ev) \<in> set l. j \<noteq> cb" for l t
    using that by (induction l arbitrary: t) (auto simp: traced_def)
  assume f: "\<And>i. i \<noteq> cb \<Longrightarrow> \<forall>(j, ev) \<in> set (f i). j = i"
  have other: "traced cb (f i) t = t" if "i \<noteq> cb" for i t using f [OF that] that by (intro skip) auto
  have others: "cb \<notin> set cbs \<Longrightarrow> traced cb (concat (map f cbs)) t = t" for cbs t
    by (induction cbs arbitrary: t) (auto simp: other traced_Nil)
  show "distinct cbs \<Longrightarrow> cb \<in> set cbs \<Longrightarrow> traced cb (concat (map f cbs)) t = traced cb (f cb) t"
  proof (induction cbs arbitrary: t)
    case (Cons i cbs)
    then show ?case by (cases "i = cb") (simp_all add: other others)
  qed simp
qed

definition span :: "string \<Rightarrow> gval \<Rightarrow> gval \<Rightarrow> gerr option \<Rightarrow> Span" where
  "span name input out err = \<lparr>sp_Name = name, sp_Input = input, sp_Output = out, sp_Error = err, sp_StartTime = 0, sp_EndTime = 0\<rparr>"

definition started_log :: "InjectableRunnable \<Rightarrow> gval \<Rightarrow> (nat \<times> cb_event) list" where
  "started_log r input = map (\<lambda>cb. (cb, OnStart (ir_name r) input)) (callbacks_of r)"

lemma invoke_log:
  "fst (Ir_Invoke L ord r input) =
     started_log r input @
     (case snd (Ir_Invoke L ord r input) of Ret out err \<Rightarrow> concat (map (end_events (ir_name r) out err) (callbacks_of r)) | Panics v \<Rightarrow> [])"
  by (simp add: Ir_Invoke_def started_log_def Let_def split: coercible.split option.split prod.split)

lemma traced_invoke:
  assumes "distinct (callbacks_of r)" and "cb \<in> set (callbacks_of r)"
  shows "traced cb (fst (Ir_Invoke L ord r input)) t =
    \<lparr>tr_spans = tr_spans t @ (case snd (Ir_Invoke L ord r input) of Ret out err \<Rightarrow> [span (ir_name r) input out err] | Panics v \<Rightarrow> []),
     tr_currentInput = input\<rparr>"
proof -
  have "started_log r input = concat (map (\<lambda>cb. [(cb, OnStart (ir_name r) input)]) (callbacks_of r))"
    by (induction "callbacks_of r") (simp_all add: started_log_def)
  then have start: "traced cb (started_log r input) t = t\<lparr>tr_currentInput := input\<rparr>"
    using traced_once [OF assms, of "\<lambda>cb. [(cb, OnStart (ir_name r) input)]" t] by (simp add: traced_def TraceCallback_def)
  have "traced cb (concat (map (end_events (ir_name r) out err) (callbacks_of r))) t = traced cb (end_events (ir_name r) out err cb) t" for out err t
    by (rule traced_once [OF assms]) (auto simp: end_events_def split: option.splits)
  then have "traced cb (concat (map (end_events (ir_name r) out err) (callbacks_of r))) t =
      t\<lparr>tr_spans := tr_spans t @ [span (ir_name r) (tr_currentInput t) out err]\<rparr>" for out err t
    by (cases err) (simp_all add: traced_def end_events_def TraceCallback_def span_def)
  with start show ?thesis by (cases "snd (Ir_Invoke L ord r input)") (simp_all add: invoke_log)
qed

text \<open>C?: Tracing. The spans of a tracer whose callback is on a runnable once are those of its invocations, one after the other, in order, each with
  its input, output and error, an invocation that panics leaving none. Two invocations that overlap both get the input of the one that started last.\<close>

theorem tracer_records:
  assumes "distinct (callbacks_of r)" and "cb \<in> set (callbacks_of r)"
  shows "GetSpans (traced cb (concat (map (\<lambda>input. fst (Ir_Invoke L ord r input)) inputs)) NewTracer) =
      concat (map (\<lambda>input. case snd (Ir_Invoke L ord r input) of Ret out err \<Rightarrow> [span (ir_name r) input out err] | Panics v \<Rightarrow> []) inputs) \<and>
    (snd (Ir_Invoke L ord r x) = Ret outx None \<and> snd (Ir_Invoke L ord r y) = Ret outy None \<longrightarrow>
      GetSpans (traced cb (started_log r x @ fst (Ir_Invoke L ord r y) @ concat (map (end_events (ir_name r) outx None) (callbacks_of r))) NewTracer) =
        [span (ir_name r) y outy None, span (ir_name r) y outx None])"
proof (intro conjI impI)
  have "tr_spans (traced cb (concat (map (\<lambda>input. fst (Ir_Invoke L ord r input)) inputs)) t) = tr_spans t @
      concat (map (\<lambda>input. case snd (Ir_Invoke L ord r input) of Ret out err \<Rightarrow> [span (ir_name r) input out err] | Panics v \<Rightarrow> []) inputs)" for t
    by (induction inputs arbitrary: t) (simp_all add: traced_invoke [OF assms] traced_Nil)
  then show "GetSpans (traced cb (concat (map (\<lambda>input. fst (Ir_Invoke L ord r input)) inputs)) NewTracer) =
      concat (map (\<lambda>input. case snd (Ir_Invoke L ord r input) of Ret out err \<Rightarrow> [span (ir_name r) input out err] | Panics v \<Rightarrow> []) inputs)"
    by (simp add: GetSpans_def NewTracer_def)
next
  assume ok: "snd (Ir_Invoke L ord r x) = Ret outx None \<and> snd (Ir_Invoke L ord r y) = Ret outy None"
  let ?ended = "concat (map (end_events (ir_name r) outx None) (callbacks_of r))"
  have "tr_spans (traced cb (started_log r x) NewTracer) = []"
  proof -
    have "tr_spans (fold (\<lambda>(i, ev) t. if i = cb then TraceCallback ev t else t) (map (\<lambda>cb. (cb, OnStart n x)) cbs) t) = tr_spans t" for n cbs t
      by (induction cbs arbitrary: t) (simp_all add: TraceCallback_def)
    then show ?thesis by (simp add: traced_def started_log_def NewTracer_def)
  qed
  moreover have "traced cb ?ended t = t\<lparr>tr_spans := tr_spans t @ [span (ir_name r) (tr_currentInput t) outx None]\<rparr>" for t
    by (subst traced_once [OF assms]) (auto simp: end_events_def traced_def TraceCallback_def span_def)
  ultimately show "GetSpans (traced cb (started_log r x @ fst (Ir_Invoke L ord r y) @ ?ended) NewTracer) =
      [span (ir_name r) y outy None, span (ir_name r) y outx None]"
    using ok by (simp add: traced_invoke [OF assms] GetSpans_def)
qed


section \<open>The properties on concrete input\<close>

lemma sample_convert_sound: "convert_sound sample_lib"
  by (simp add: convert_sound_def sample_lib_def)

theorem call_arguments_fit_witness:
  "list_all2 arg_fits (coerced_args sample_lib (GStr ''a'') [CtxParam, ValueParam TString, ValueParam TInt]) [CtxParam, ValueParam TString, ValueParam TInt] \<and>
   build_args sample_lib (\<lambda>i m. m) None GNil [CtxParam, ValueParam TString] = None"
  using call_arguments_fit [OF sample_convert_sound, of "GStr ''a''" "[CtxParam, ValueParam TString, ValueParam TInt]" "\<lambda>i m. m" None]
    call_arguments_fit [OF sample_convert_sound, of GNil "[CtxParam, ValueParam TString]" "\<lambda>i m. m" None]
  by simp

definition wrapped_echo :: InjectableRunnable where
  "wrapped_echo = NewInjectableRunnable ''echo'' (AsFunc (runnable_func rev (Rn_NewFunc (\<lambda>x. (x, None)) [])))"

lemma wrapped_echo_coerced:
  "CoerceToInjectableRunnable rev (IsOther (AsRunnable (Rn_NewFunc (\<lambda>x. (x, None)) []))) ''echo'' = Inr wrapped_echo"
  by (simp add: CoerceToInjectableRunnable_def wrapped_echo_def)

theorem runtime_replaces_input_witness:
  "snd (Ir_Invoke sample_lib (\<lambda>i m. m) (Ir_InjectDependencies None GNil [] wrapped_echo) (GStr ''hi'')) = Ret (GStr ''hi'') None \<and>
   snd (Ir_Invoke sample_lib (\<lambda>i m. m) (Ir_InjectDependencies None GNil [] wrapped_echo) GNil) =
     Panics (GStr ''reflect: call of reflect.Value.Type on zero Value'') \<and>
   snd (Ir_Invoke sample_lib (\<lambda>i m. m) (Ir_InjectDependencies None GNil [(''store'', GBool True)] wrapped_echo) (GStr ''hi'')) = Ret (GBool True) None"
proof -
  let ?q = "Rn_NewFunc (\<lambda>x. (x, None)) []"
  have echo: "Rn_Invoke rev ?q x = (x, None)" for x by (simp add: Rn_NewFunc_def)
  note th = runtime_replaces_input [OF wrapped_echo_coerced, where ord = "\<lambda>i m. m" and L = sample_lib and config = None and previous = GNil, OF refl]
  have 1: "snd (Ir_Invoke sample_lib (\<lambda>i m. m) (Ir_InjectDependencies None GNil [] wrapped_echo) (GStr ''hi'')) = Ret (GStr ''hi'') None"
    using conjunct1 [OF th [of "[]" "GStr ''hi''"]] by (simp add: echo call_of_def)
  have 2: "snd (Ir_Invoke sample_lib (\<lambda>i m. m) (Ir_InjectDependencies None GNil [] wrapped_echo) GNil) =
      Panics (GStr ''reflect: call of reflect.Value.Type on zero Value'')"
    using conjunct1 [OF conjunct2 [OF th [of "[]"]]] by simp
  have 3: "snd (Ir_Invoke sample_lib (\<lambda>i m. m) (Ir_InjectDependencies None GNil [(''store'', GBool True)] wrapped_echo) (GStr ''hi'')) = Ret (GBool True) None"
    using conjunct2 [OF conjunct2 [OF th [of "[(''store'', GBool True)]"]]] by (simp add: echo call_of_def)
  show ?thesis using 1 2 3 by (intro conjI)
qed

definition traced_echo :: InjectableRunnable where
  "traced_echo = WithTracing 3 wrapped_echo"

theorem tracer_records_witness:
  "GetSpans (traced 3 (concat (map (\<lambda>x. fst (Ir_Invoke sample_lib (\<lambda>i m. m) traced_echo x)) [GBool True, GNil, GBool False])) NewTracer) =
     [span ''echo'' (GBool True) (GBool True) None, span ''echo'' (GBool False) (GBool False) None]"
proof -
  have cbs: "callbacks_of traced_echo = [3]" "ir_name traced_echo = ''echo''"
    by (simp_all add: traced_echo_def WithTracing_def WithCallback_def wrapped_echo_def NewInjectableRunnable_def callbacks_of_def)
  have inv: "snd (Ir_Invoke sample_lib (\<lambda>i m. m) traced_echo x) =
      (if x = GNil then Panics (GStr ''reflect: call of reflect.Value.Type on zero Value'') else Ret x None)" for x
  proof -
    let ?q = "Rn_NewFunc (\<lambda>x. (x, None)) []"
    have ins: "gf_in (runnable_func rev ?q) = [CtxParam, ValueParam TAny]" by (simp add: runnable_func_def)
    have echo: "Rn_Invoke rev ?q y = (y, None)" for y by (simp add: Rn_NewFunc_def)
    show ?thesis
      by (simp add: Ir_Invoke_def traced_echo_def WithTracing_def WithCallback_def wrapped_echo_def NewInjectableRunnable_def ins wrapped_arguments
        runtime_value_any call_runnable_func echo Let_def)
  qed
  have "distinct (callbacks_of traced_echo)" "3 \<in> set (callbacks_of traced_echo)" by (simp_all add: cbs)
  from conjunct1 [OF tracer_records [OF this, of sample_lib "\<lambda>i m. m" "[GBool True, GNil, GBool False]"]]
  show ?thesis by (simp add: inv cbs)
qed

end
