(* ===== verification/Spec2Isabelle.thy ===== *)
theory Spec2Isabelle
  imports Channel_Properties Checkpoint_Properties Graph_Properties Engine_Durability Store_Properties Priority_Queue
    Worker_Pool Node_Cache Interrupts Loop_Node Parallel_Node Messages Channel_IO
    Retry_Multi Background_Pool Async_Pipeline State_Inspector Subgraphs State_Types Scratchpad Managed
    Event_Stream Optimized_Engine Async_Cache Event_Files Chunk_Stream Task_Decorator Injection
begin

text \<open>
  \<^bold>\<open>The graph engine of the harness (\<open>src/internal/harness/graph\<close>).\<close>

  The program is a Go library that executes graphs of nodes in supersteps, in the manner of Pregel. A
  builder (\<open>graph/graph.go\<close>) collects nodes, edges, conditional edges, branches and channels, validates
  and compiles them. The engine (\<open>pregel/engine.go\<close>) runs a compiled graph: each superstep
  determines the next tasks, reads their inputs from the channels, runs them under a retry policy
  (\<open>pregel/retry.go\<close>), writes their outputs back into the channels, and saves a checkpoint. Channels
  (\<open>channels/*.go\<close>) decide what several writes to one field mean. Checkpoints (\<open>checkpoint/*.go\<close>) make runs
  durable and resumable, and the checkpoint manager keeps versioned histories under optimistic concurrency.
  The rest of the repository (web services, agents, data access) uses this library.

  \<^bold>\<open>Conventions (theory \<open>Go_Base\<close>).\<close> A dynamic Go value (\<open>any\<close>) is a \<open>gval\<close>, one constructor per dynamic type the
  sources distinguish; floats are their bit patterns. A Go map is an association list with \<open>mget\<close>,
  \<open>mput\<close>, \<open>mdel\<close>: the list order is the iteration order of the run, and theorems hold for every order. A
  nil map is \<open>None\<close> where the code tells nil from empty. Errors are values of \<open>gerr\<close>
  (theory \<open>Graph_Errors\<close>) and a fallible call returns \<open>gerr + 'a\<close>; a panic is the error \<open>GoPanic\<close>. Functions that need
  the library (formatting, JSON, time, reflection conversions) take it as a record \<open>golib\<close>; theorems that rely
  on what it does name that as hypotheses (\<open>json_lib\<close>, \<open>utf8_lib\<close>, \<open>wire_lib\<close>), and theory \<open>Sample_Lib\<close>
  has a concrete library that satisfies them. Clocks, fresh identifiers, cancellation and the iteration
  order of the next nodes are arguments (for the engine: the record \<open>run_env\<close>). A method that
  writes its receiver returns it. Locks make the operations of registries, savers and managers atomic,
  so a concurrent history is a sequence of operations.

  \<^bold>\<open>Theories.\<close>
  \<^item> \<open>Go_Base\<close>: values, maps, strings, the library record; the collection \<open>gomap\<close> of map lemmas.
  \<^item> \<open>Graph_Errors\<close>: \<open>errors/errors.go\<close>.
  \<^item> \<open>Channels\<close>, \<open>Barrier_Channels\<close>: the channel types, one record and one definition per method.
  \<^item> \<open>Channel_Interface\<close>: \<open>channels/base.go\<close> and \<open>reducer.go\<close>: dispatch over all channel types and the choice of
    a channel for a field; the locales of the channel contract and their interpretations.
  \<^item> \<open>Registry\<close>: the channel registry. \<open>Channel_Properties\<close>: checkpoint round trips of channels
    and registries, when barriers open, and what an aggregate makes of writes and overwrites.
  \<^item> \<open>Run_Config\<close>: \<open>types/config.go\<close>. \<open>Deep_Copy\<close>: deep copies through JSON.
  \<^item> \<open>Checkpoints\<close>, \<open>Checkpoint_Wire\<close>: \<open>checkpoint/checkpoint.go\<close>; the manager also as a step relation over its
    operations. \<open>Memory_Saver\<close>: \<open>checkpoint/memory.go\<close> and the contract of a checkpointer (locale
    \<open>checkpointer\<close>). \<open>Checkpoint_Properties\<close>: what a history of checkpoints agrees on and when it is linear, exclusive writes, optimistic
    saving, the wire format, what a saver returns, and a parent identifier that cannot be loaded.
  \<^item> \<open>Retry\<close>: \<open>pregel/retry.go\<close>. \<open>State_Graph\<close>: \<open>graph/graph.go\<close> and \<open>graph/state.go\<close>. \<open>Graph_Properties\<close>: the builder never
    leaves dangling edges, what \<open>Validate\<close> accepts, which channels \<open>Compile\<close> creates, the outcome of retries.
  \<^item> \<open>Engine_Values\<close>, \<open>Engine_Tasks\<close>, \<open>Engine_Run\<close>: \<open>pregel/engine.go\<close> and \<open>pregel/init_pregel.go\<close>, from conversions
    to scheduling to the run loop. \<open>Engine_Properties\<close>: the recursion limit, the order of execution, and routing.
    \<open>Engine_Durability\<close>: what checkpoints of a run hold and how an interrupted run resumes. \<open>State_Types\<close>: type
    preservation of the conversion between states as maps and as structs.
  \<^item> \<open>Interrupts\<close> (\<open>interrupt/interrupt.go\<close>), \<open>Loop_Node\<close> (\<open>graph/loop.go\<close>), \<open>Parallel_Node\<close> (\<open>graph/parallel.go\<close>): dynamic
    interrupts and the two composite nodes, their results and how they resume.
  \<^item> \<open>Store\<close>, \<open>Store_Spec\<close>, \<open>Store_Properties\<close> (\<open>store/*.go\<close>): the key-value store with expiry and search, refined to a map
    with deadlines (locale \<open>kv_store\<close>).
  \<^item> \<open>Worker_Pool\<close>, \<open>Async_Pipeline\<close> (\<open>pregel/async.go\<close>), \<open>Background_Pool\<close>, \<open>Priority_Queue\<close> (\<open>pregel/background.go\<close>): goroutines as
    state machines of atomic actions; bounds, progress, and which panics are possible; the binary heap sorts (locale
    \<open>max_queue\<close>).
  \<^item> \<open>Node_Cache\<close> (\<open>pregel/cache.go\<close>): eviction, expiry and the transparency of caching (locale \<open>output_cache\<close>).
    \<open>Async_Cache\<close> (\<open>pregel/cache_async.go\<close>): the same cache behind a queue and workers, as a state machine.
    \<open>Retry_Multi\<close> (\<open>pregel/retry_multi.go\<close>): several retry policies.
  \<^item> \<open>Messages\<close> (\<open>graph/message.go\<close>): messages and the reducer that merges them. \<open>Channel_IO\<close> (\<open>pregel/read.go\<close>,
    \<open>pregel/write.go\<close>): readers, writers and triggers (locale \<open>keeps_value\<close>).
  \<^item> \<open>State_Inspector\<close> (\<open>graph/state_inspector.go\<close>): reading, updating and forking threads over any checkpointer that
    meets the contract (locale \<open>inspectable\<close>). \<open>Subgraphs\<close> (\<open>graph/compiled.go\<close>, \<open>pregel/subgraph.go\<close>): the tree of compiled
    graphs as a store of linked records, and namespaces.
  \<^item> \<open>Scratchpad\<close> (\<open>types/scratchpad.go\<close>): the scratchpad over an explicit heap, because snapshots are about
    aliasing. \<open>Managed\<close> (\<open>managed/managed.go\<close>): managed values, runtimes, namespaces.
  \<^item> \<open>Event_Stream\<close> (\<open>pregel/stream.go\<close>): the stream of events and what it delivers. \<open>Optimized_Engine\<close>
    (\<open>pregel/optimized.go\<close>): dependencies, task orders and the queue by path length.
  \<^item> \<open>Event_Log\<close> (\<open>harness/events\<close>): events, filters, the in-memory store and the recorder; the contract of a log (locales
    \<open>event_log\<close>, \<open>reliable_log\<close>). \<open>Event_Files\<close> (\<open>events/localfile.go\<close>): the store over segment files and what reopening it
    gives. \<open>Replay\<close> (\<open>harness/replay\<close>): replay, fork and comparison of recorded executions over any log, and the checkpoint
    rebuilt from events, which the engine restores.
  \<^item> \<open>Chunk_Stream\<close> (\<open>types/stream.go\<close>): streams of chunks over a channel, filters and mappings around them, and the
    duplex stream as a state machine of its goroutines.
  \<^item> \<open>Task_Decorator\<close> (\<open>task/decorator.go\<close>): tasks decorated with retries and a cache (another interpretation of \<open>output_cache\<close>), and
    entrypoints. \<open>Runnables\<close> (\<open>runnable/runnable.go\<close>): sequences, parallel runnables, transformations, the builder and the coercion of Go functions.
    \<open>Injection\<close> (\<open>runnable/inject.go\<close>): injected arguments, callbacks and tracing.
  \<^item> This theory composes the engine, the checkpointer and the inspector: the state read for a thread is the
    state of its run.

  \<^bold>\<open>Termination and bounds.\<close> The loops are total functions. The breadth-first search of
  \<open>computeReachable\<close> ends because each round marks a node or shortens the queue, the retry loops because
  attempts are bounded by the policies, the run loop because each round that goes on has passed the test
  of the recursion limit, the loop node because of its own limit. The one recursion of the code that may not end,
  \<open>deepCopyValue\<close> of the scratchpad on a map that contains itself, takes the depth as an argument: a depth
  that shows the whole value is enough, and on a cyclic value no depth is. Versions of checkpoints and channels are unbounded integers: the code
  increments them by one per operation from zero, so 64-bit overflow is out of reach; the counters of scratchpads, task priorities
  and numbers of the user are 64-bit words.

  \<^bold>\<open>Not modelled.\<close> Callbacks, log lines and telemetry observe a run and do not change it. In the run of the engine, the goroutines that run the tasks of one superstep are represented by their result: the tasks run
  independently, each on the input it read; the pools themselves are modelled apart. Asynchronous saves are recorded but not ordered with
  the run. Outside the scratchpad and the graphs, values are immutable, so two Go references to one nested map are two equal maps. The engine's backoff
  durations, error texts and stack traces are left out. A conversion by reflection either gives a value or does not apply: the one that panics, of
  a slice to a longer array, does not occur. Channels of chunks are buffered: over one of size zero nothing is ever sent. The runs of the sub-graph in one parallel node do not touch the interrupt context they share. The functions inside runnables are given by their results. Network code (\<open>checkpoint/nats.go\<close>,
  \<open>pregel/remote.go\<close>) and the rest of the repository stay outside.
\<close>

section \<open>A run seen through the inspector\<close>



lemma fresh_registry_ok: "gomap_ok (fresh_registry chans)"
proof -
  have "gomap_ok r \<Longrightarrow> gomap_ok (fold (\<lambda>(name, ch) r. Registry_Register r name (ch_Copy ch)) cs r)" for cs r
    by (induction cs arbitrary: r) (auto simp: Registry_Register_def)
  then show ?thesis by (simp add: fresh_registry_def NewRegistry_def)
qed










end
